(* ===== verification/Prelude.thy ===== *)
theory Prelude
  imports Main "HOL-Library.Word" "HOL-Library.Multiset"
begin

text \<open>
  Shared vocabulary of the development: results of fallible Rust code as sums with a
  bind, checked indexing into slices, the decimal rendering that Rust's
  \<^verbatim>\<open>Display\<close> gives to integers, and the order of elements in a list that the planner and
  the executor reason about. The collections \<open>result_simps\<close> and \<open>order_simps\<close> carry the
  facts the component theories use.
\<close>

named_theorems result_simps \<open>decomposition of monadic results\<close>
named_theorems order_simps \<open>positions of elements in lists\<close>

section \<open>Results\<close>

text \<open>A Rust \<^verbatim>\<open>Result<T, E>\<close> is \<open>'e + 'a\<close>, \<open>Inl\<close> the error; \<open>rbind\<close> is the \<^verbatim>\<open>?\<close> operator.\<close>

fun rbind :: "'e + 'a \<Rightarrow> ('a \<Rightarrow> 'e + 'b) \<Rightarrow> 'e + 'b" where
  "rbind (Inl e) f = Inl e"
| "rbind (Inr x) f = f x"

lemma rbind_Inr_iff [result_simps]:
  "rbind m f = Inr y \<longleftrightarrow> (\<exists>x. m = Inr x \<and> f x = Inr y)"
  by (cases m) auto

lemma rbind_Inl_iff [result_simps]:
  "rbind m f = Inl e \<longleftrightarrow> m = Inl e \<or> (\<exists>x. m = Inr x \<and> f x = Inl e)"
  by (cases m) auto

lemma rbind_cong [fundef_cong]:
  "m = m' \<Longrightarrow> (\<And>x. m' = Inr x \<Longrightarrow> f x = f' x) \<Longrightarrow> rbind m f = rbind m' f'"
  by (cases m') auto

text \<open>An outcome that may be missing, an error or a value, seen to be a value.\<close>

lemma case_parsed:
  "(case m of None \<Rightarrow> False | Some (Inl e) \<Rightarrow> False | Some (Inr x) \<Rightarrow> P x) \<longleftrightarrow> (\<exists>x. m = Some (Inr x) \<and> P x)"
  by (auto split: option.split sum.split)

section \<open>Slices\<close>

text \<open>Rust's \<^verbatim>\<open>slice.get(i)\<close>.\<close>

definition nth_opt :: "'a list \<Rightarrow> nat \<Rightarrow> 'a option" where
  "nth_opt xs i = (if i < length xs then Some (xs ! i) else None)"

lemma nth_opt_Some_iff: "nth_opt xs i = Some x \<longleftrightarrow> i < length xs \<and> xs ! i = x"
  by (auto simp: nth_opt_def)

lemma nth_opt_None_iff: "nth_opt xs i = None \<longleftrightarrow> length xs \<le> i"
  by (auto simp: nth_opt_def)

lemma nth_opt_simps [simp]:
  "nth_opt [] i = None"
  "nth_opt (x # xs) 0 = Some x"
  "nth_opt (x # xs) (Suc i) = nth_opt xs i"
  by (auto simp: nth_opt_def)

lemma nth_opt_append:
  "nth_opt (xs @ ys) i = (if i < length xs then nth_opt xs i else nth_opt ys (i - length xs))"
  by (auto simp: nth_opt_def nth_append)

lemma nth_opt_map [simp]: "nth_opt (map f xs) i = map_option f (nth_opt xs i)"
  by (simp add: nth_opt_def)

lemma unat_of_nat_32: "n < 2 ^ 32 \<Longrightarrow> unat (of_nat n :: 32 word) = n"
  by (simp add: unsigned_of_nat take_bit_nat_eq_self)

lemma find_append: "find P (xs @ ys) = (case find P xs of None \<Rightarrow> find P ys | Some x \<Rightarrow> Some x)"
  by (induction xs) auto

lemma in_set_map_filter: "y \<in> set (List.map_filter f xs) \<longleftrightarrow> (\<exists>x \<in> set xs. f x = Some y)"
  by (induction xs) (auto simp: map_filter_def)

section \<open>Decimal rendering and joining of strings\<close>

definition digit_char :: "nat \<Rightarrow> char" where
  "digit_char d = char_of (48 + d)"

lemma digit_char_eval [simp]:
  "digit_char 0 = CHR ''0''" "digit_char 1 = CHR ''1''" "digit_char (Suc 0) = CHR ''1''"
  "digit_char (Suc (Suc 0)) = CHR ''2''" "digit_char 2 = CHR ''2''" "digit_char 3 = CHR ''3''" "digit_char 4 = CHR ''4''"
  "digit_char 5 = CHR ''5''" "digit_char 6 = CHR ''6''" "digit_char 7 = CHR ''7''"
  "digit_char 8 = CHR ''8''" "digit_char 9 = CHR ''9''"
  by code_simp+

fun show_nat :: "nat \<Rightarrow> string" where
  "show_nat n = (if n < 10 then [digit_char n] else show_nat (n div 10) @ [digit_char (n mod 10)])"

declare show_nat.simps [simp del]

definition show_int :: "int \<Rightarrow> string" where
  "show_int i = (if i < 0 then ''-'' @ show_nat (nat (- i)) else show_nat (nat i))"

fun str_join :: "string \<Rightarrow> string list \<Rightarrow> string" where
  "str_join sep [] = []"
| "str_join sep [s] = s"
| "str_join sep (s # t # ts) = s @ sep @ str_join sep (t # ts)"

text \<open>Reading a decimal numeral back: the inverse that makes the rendering unambiguous.\<close>

definition digit_val :: "char \<Rightarrow> nat" where
  "digit_val c = of_char c - 48"

definition is_digit :: "char \<Rightarrow> bool" where
  "is_digit c \<longleftrightarrow> 48 \<le> (of_char c :: nat) \<and> (of_char c :: nat) \<le> 57"

definition read_nat :: "string \<Rightarrow> nat" where
  "read_nat s = foldl (\<lambda>n c. 10 * n + digit_val c) 0 s"

lemma of_char_digit_char: "d < 10 \<Longrightarrow> (of_char (digit_char d) :: nat) = 48 + d"
  by (simp add: digit_char_def of_char_of)

lemma digit_val_digit_char [simp]: "d < 10 \<Longrightarrow> digit_val (digit_char d) = d"
  by (simp add: digit_val_def of_char_digit_char)

lemma is_digit_digit_char [simp]: "d < 10 \<Longrightarrow> is_digit (digit_char d)"
  by (simp add: is_digit_def of_char_digit_char)

lemma read_nat_append1: "read_nat (s @ [c]) = 10 * read_nat s + digit_val c"
  by (simp add: read_nat_def)

lemma read_show_nat: "read_nat (show_nat n) = n"
proof (induction n rule: show_nat.induct)
  case (1 n)
  show ?case
  proof (cases "n < 10")
    case True
    then show ?thesis by (simp add: show_nat.simps read_nat_def)
  next
    case False
    with 1 have "read_nat (show_nat (n div 10)) = n div 10" by simp
    with False show ?thesis
      by (simp add: show_nat.simps [of n] read_nat_append1)
  qed
qed

lemma show_nat_inj: "show_nat m = show_nat n \<longleftrightarrow> m = n"
  by (metis read_show_nat)

lemma show_nat_digits: "list_all is_digit (show_nat n)"
proof (induction n rule: show_nat.induct)
  case (1 n)
  then show ?case by (cases "n < 10") (simp_all add: show_nat.simps [of n])
qed

lemma show_nat_nonempty: "show_nat n \<noteq> []"
  by (subst show_nat.simps) simp

section \<open>Positions in a list\<close>

text \<open>\<open>comes_before xs a b\<close>: some occurrence of \<open>a\<close> precedes some occurrence of \<open>b\<close>.\<close>

definition comes_before :: "'a list \<Rightarrow> 'a \<Rightarrow> 'a \<Rightarrow> bool" where
  "comes_before xs a b \<longleftrightarrow> (\<exists>us vs. xs = us @ vs \<and> a \<in> set us \<and> b \<in> set vs)"

text \<open>\<open>topo_order deps xs\<close>: whatever an element depends on stands before it.\<close>

fun topo_order :: "('a \<Rightarrow> 'a set) \<Rightarrow> 'a set \<Rightarrow> 'a list \<Rightarrow> bool" where
  "topo_order deps done [] = True"
| "topo_order deps done (x # xs) = (deps x \<subseteq> done \<and> topo_order deps (insert x done) xs)"

lemma topo_order_append [order_simps]:
  "topo_order deps D (xs @ ys) \<longleftrightarrow> topo_order deps D xs \<and> topo_order deps (D \<union> set xs) ys"
  by (induction xs arbitrary: D) auto

lemma topo_order_mono: "topo_order deps D xs \<Longrightarrow> D \<subseteq> E \<Longrightarrow> topo_order deps E xs"
proof (induction xs arbitrary: D E)
  case (Cons x xs)
  then have "insert x D \<subseteq> insert x E" by blast
  with Cons show ?case by auto
qed simp

lemma topo_order_cong:
  "topo_order deps D xs \<Longrightarrow> (\<And>x. x \<in> set xs \<Longrightarrow> deps' x \<subseteq> deps x) \<Longrightarrow> topo_order deps' D xs"
proof (induction xs arbitrary: D)
  case (Cons x xs)
  then have "deps' x \<subseteq> D" by (meson list.set_intros(1) order_trans topo_order.simps(2))
  with Cons show ?case by auto
qed simp

lemma topo_order_deps_in:
  "topo_order deps D xs \<Longrightarrow> x \<in> set xs \<Longrightarrow> deps x \<subseteq> D \<union> set xs"
proof (induction xs arbitrary: D)
  case (Cons y xs)
  show ?case
  proof (cases "x = y")
    case True
    with Cons.prems(1) show ?thesis by auto
  next
    case False
    with Cons.prems Cons.IH [of "insert y D"] show ?thesis by auto
  qed
qed simp

lemma topo_order_comes_before:
  assumes "topo_order deps {} xs" and "x \<in> set xs" and "d \<in> deps x"
  shows "comes_before xs d x"
proof -
  from assms(2) obtain us vs where xs: "xs = us @ x # vs" by (meson split_list)
  with assms(1) have "deps x \<subseteq> set us" by (simp add: topo_order_append)
  with assms(3) xs show ?thesis unfolding comes_before_def by (metis list.set_intros(1) subsetD)
qed

lemma topo_order_notin_deps:
  "topo_order deps D xs \<Longrightarrow> distinct xs \<Longrightarrow> x \<in> set xs \<Longrightarrow> x \<notin> D \<Longrightarrow> x \<notin> deps x"
  by (induction xs arbitrary: D) auto

text \<open>Induction along a topological order: a property that passes from the dependencies of
  an element to the element holds of every element.\<close>

lemma topo_order_induct:
  assumes "topo_order deps D xs" and "\<And>x. x \<in> D \<Longrightarrow> P x"
    and "\<And>x. x \<in> set xs \<Longrightarrow> (\<And>d. d \<in> deps x \<Longrightarrow> P d) \<Longrightarrow> P x"
  shows "x \<in> set xs \<Longrightarrow> P x"
  using assms
proof (induction xs arbitrary: D)
  case (Cons y ys)
  have y: "P y" using Cons.prems by auto
  show ?case
  proof (cases "x = y")
    case True
    with y show ?thesis by simp
  next
    case False
    show ?thesis
    proof (rule Cons.IH)
      show "topo_order deps (insert y D) ys" using Cons.prems(2) by simp
      show "x \<in> set ys" using False Cons.prems(1) by simp
    qed (use y Cons.prems in auto)
  qed
qed simp

text \<open>The position of the first occurrence bounds the positions of what it depends on, so a
  list in topological order leaves no room for a cycle.\<close>

fun rank :: "'a list \<Rightarrow> 'a \<Rightarrow> nat" where
  "rank [] x = 0"
| "rank (y # ys) x = (if x = y then 0 else Suc (rank ys x))"

lemma rank_append_in: "x \<in> set us \<Longrightarrow> rank (us @ vs) x < length us"
  by (induction us) auto

lemma rank_append_notin: "x \<notin> set us \<Longrightarrow> rank (us @ vs) x = length us + rank vs x"
  by (induction us) auto

lemma topo_order_rank:
  assumes "topo_order deps {} xs" and "x \<in> set xs" and "d \<in> deps x"
  shows "d \<in> set xs \<and> rank xs d < rank xs x"
proof -
  from assms(2) obtain us vs where xs: "xs = us @ x # vs" and x: "x \<notin> set us"
    by (meson split_list_first)
  with assms(1,3) have d: "d \<in> set us" by (auto simp: topo_order_append)
  have "rank xs x = length us" using x by (simp add: xs rank_append_notin)
  moreover have "rank xs d < length us" using d by (simp add: xs rank_append_in)
  ultimately show ?thesis using d xs by simp
qed

lemma topo_order_acyclic:
  assumes "topo_order deps {} xs"
  shows "acyclic {(d, x). x \<in> set xs \<and> d \<in> deps x}"
proof (rule wf_acyclic, rule wf_subset [OF wf_measure])
  show "{(d, x). x \<in> set xs \<and> d \<in> deps x} \<subseteq> measure (rank xs)"
    using topo_order_rank [OF assms] by auto
qed

end
