(* ===== verification/Magna_Types.thy ===== *)
theory Magna_Types
  imports Prelude
begin

text \<open>
  The shared types of the crate \<^verbatim>\<open>magna-types\<close>: step identifiers and the flag bytes that travel
  beside every batch item, normalised Postgres values, the error types of the engine with
  their \<^verbatim>\<open>Display\<close> text, and the roles of a JWT. Types of other crates that these definitions
  only carry (timestamps, JSON documents) are type parameters.
\<close>

unbundle bit_operations_syntax

section \<open>Steps\<close>

type_synonym step_id = "32 word"

datatype step_error = Database string | NotFound | PermissionDenied | InvalidInput string | Internal string

datatype 'a step_result = Value 'a | Null | Error step_error | Inhibited

text \<open>\<^verbatim>\<open>StepFlags(pub u8)\<close>: a bit field per output slot.\<close>

type_synonym step_flags = "8 word"

definition FLAG_NONE :: step_flags where "FLAG_NONE = 0b0000"
definition FLAG_NULL :: step_flags where "FLAG_NULL = 0b0001"
definition FLAG_ERROR :: step_flags where "FLAG_ERROR = 0b0010"
definition FLAG_INHIBITED :: step_flags where "FLAG_INHIBITED = 0b0100"

definition is_null :: "step_flags \<Rightarrow> bool" where
  "is_null f \<longleftrightarrow> f AND 0b0001 \<noteq> 0"

definition is_error :: "step_flags \<Rightarrow> bool" where
  "is_error f \<longleftrightarrow> f AND 0b0010 \<noteq> 0"

definition is_inhibited :: "step_flags \<Rightarrow> bool" where
  "is_inhibited f \<longleftrightarrow> f AND 0b0100 \<noteq> 0"

definition is_value :: "step_flags \<Rightarrow> bool" where
  "is_value f \<longleftrightarrow> f = 0"

lemmas flag_defs = FLAG_NONE_def FLAG_NULL_def FLAG_ERROR_def FLAG_INHIBITED_def

lemma is_null_bit: "is_null f \<longleftrightarrow> bit f 0"
proof -
  have "f AND 1 = of_bool (bit f 0)" by (simp add: and_one_eq bit_0 mod2_eq_if)
  then show ?thesis by (simp add: is_null_def)
qed

lemma and_push_bit_one: "f AND push_bit n 1 \<noteq> 0 \<longleftrightarrow> bit f n" if "n < LENGTH('a)" for f :: "'a::len word"
proof -
  have "bit (f AND push_bit n 1) m \<longleftrightarrow> bit f n \<and> m = n" for m
    using that by (auto simp: bit_simps not_le)
  then show ?thesis
    by (metis bit_0_eq bot_apply bot_bool_def bit_eqI)
qed

lemma is_error_bit: "is_error f \<longleftrightarrow> bit f 1"
  using and_push_bit_one [of 1 f] by (simp add: is_error_def)

lemma is_inhibited_bit: "is_inhibited f \<longleftrightarrow> bit f 2"
  using and_push_bit_one [of 2 f] by (simp add: is_inhibited_def)

lemmas flag_bits = is_null_bit is_error_bit is_inhibited_bit

lemma flag_const_bits [simp]:
  "bit FLAG_NULL n \<longleftrightarrow> n = 0" "bit FLAG_ERROR n \<longleftrightarrow> n = 1" "\<not> bit FLAG_NONE n"
  by (auto simp: flag_defs bit_simps bit_1_iff intro: ccontr)

section \<open>Errors of the planner and the executor\<close>

datatype fw_graph_error =
    PlanCycle "step_id list"
  | StepNotFound step_id
  | ExecutionError string
  | IntrospectionError string
  | ConfigError string
  | SqlBuildError string
  | SchemaBuildError string

definition show_id :: "step_id \<Rightarrow> string" where
  "show_id i = show_nat (unat i)"

text \<open>The \<^verbatim>\<open>#[error(...)]\<close> messages; \<^verbatim>\<open>{:?}\<close> of a vector of integers is a bracketed list.\<close>

fun display_error :: "fw_graph_error \<Rightarrow> string" where
  "display_error (PlanCycle ids) =
     ''Plan cycle detected involving steps: ['' @ str_join '', '' (map show_id ids) @ '']''"
| "display_error (StepNotFound i) = ''Step '' @ show_id i @ '' not found in plan''"
| "display_error (ExecutionError s) = ''Execution error: '' @ s"
| "display_error (IntrospectionError s) = ''Introspection error: '' @ s"
| "display_error (ConfigError s) = ''Configuration error: '' @ s"
| "display_error (SqlBuildError s) = ''SQL build error: '' @ s"
| "display_error (SchemaBuildError s) = ''Schema build error: '' @ s"

section \<open>Postgres values\<close>

text \<open>\<^verbatim>\<open>i64\<close> and the IEEE bits of \<^verbatim>\<open>f64\<close> are 64-bit words, a UUID its 128 bits.\<close>

datatype ('t, 'j) pg_value =
    PgNull
  | PgBool bool
  | PgInt "64 word"
  | PgFloat "64 word"
  | PgText string
  | PgUuid "128 word"
  | PgTimestamp 't
  | PgJson 'j
  | PgArray "('t, 'j) pg_value list"

fun pg_is_null :: "('t, 'j) pg_value \<Rightarrow> bool" where
  "pg_is_null PgNull = True"
| "pg_is_null _ = False"

fun as_text :: "('t, 'j) pg_value \<Rightarrow> string option" where
  "as_text (PgText s) = Some s"
| "as_text _ = None"

fun as_i64 :: "('t, 'j) pg_value \<Rightarrow> 64 word option" where
  "as_i64 (PgInt n) = Some n"
| "as_i64 _ = None"

fun as_bool :: "('t, 'j) pg_value \<Rightarrow> bool option" where
  "as_bool (PgBool b) = Some b"
| "as_bool _ = None"

section \<open>Roles\<close>

datatype jwt_role = Anon | Authenticated | ServiceRole | Custom string

fun role_as_str :: "jwt_role \<Rightarrow> string" where
  "role_as_str Anon = ''anon''"
| "role_as_str Authenticated = ''authenticated''"
| "role_as_str ServiceRole = ''service_role''"
| "role_as_str (Custom s) = s"

text \<open>\<^verbatim>\<open>JwtClaims\<close>; \<open>'j\<close> is a JSON value.\<close>

record 'j jwt_claims =
  jc_sub :: "128 word"
  jc_role :: jwt_role
  jc_email :: "string option"
  jc_exp :: "64 word"
  jc_raw :: 'j

end
