(* ===== verification/Sql_Fragment.thy ===== *)
theory Sql_Fragment
  imports Magna_Types
begin

text \<open>
  \<^verbatim>\<open>magna-sql/src/fragment.rs\<close>: the composable SQL fragment and its flattening into a query
  text with numbered placeholders. A fragment is a list of parts over a vector of parameter
  values; \<open>None\<close> stands for the panic of an out-of-range \<^verbatim>\<open>param_store[i]\<close>.

  The specification is a flat list of items (literal text, identifier, value). The lemmas
  show that \<^verbatim>\<open>build\<close> prints exactly that list with the values numbered from 1, and that the
  composition operations concatenate item lists.
\<close>

section \<open>Fragments\<close>

datatype 'p sql_part =
    Literal string
  | Param nat
  | Fragment "'p sql_fragment"
  | Identifier string
and 'p sql_fragment = SqlFragment (parts: "'p sql_part list") (params: "'p list")

definition raw :: "string \<Rightarrow> 'p sql_fragment" where
  "raw s = SqlFragment [Literal s] []"

definition param :: "'p \<Rightarrow> 'p sql_fragment" where
  "param v = SqlFragment [Param 0] [v]"

definition ident :: "string \<Rightarrow> 'p sql_fragment" where
  "ident name = SqlFragment [Identifier name] []"

definition qualified_ident :: "string \<Rightarrow> string \<Rightarrow> 'p sql_fragment" where
  "qualified_ident schema name = SqlFragment [Identifier schema, Literal ''.'', Identifier name] []"

definition empty_fragment :: "'p sql_fragment" where
  "empty_fragment = SqlFragment [] []"

text \<open>\<^verbatim>\<open>shift_parts\<close> leaves the parts alone for offset 0 and otherwise adds the offset to every
  index, also inside nested fragments (\<^verbatim>\<open>shift_fragment\<close>).\<close>

fun shift_part :: "nat \<Rightarrow> 'p sql_part \<Rightarrow> 'p sql_part"
  and shift_fragment :: "nat \<Rightarrow> 'p sql_fragment \<Rightarrow> 'p sql_fragment" where
  "shift_part k (Param i) = Param (i + k)"
| "shift_part k (Fragment f) = Fragment (shift_fragment k f)"
| "shift_part k (Literal s) = Literal s"
| "shift_part k (Identifier s) = Identifier s"
| "shift_fragment k (SqlFragment ps vs) =
     SqlFragment (if k = 0 then ps else map (shift_part k) ps) vs"

definition shift_parts :: "'p sql_part list \<Rightarrow> nat \<Rightarrow> 'p sql_part list" where
  "shift_parts ps offset = (if offset = 0 then ps else map (shift_part offset) ps)"

definition append_frag :: "'p sql_fragment \<Rightarrow> 'p sql_fragment \<Rightarrow> 'p sql_fragment" where
  "append_frag self other =
     SqlFragment (parts self @ shift_parts (parts other) (length (params self)))
                 (params self @ params other)"

definition join_frag :: "'p sql_fragment \<Rightarrow> string \<Rightarrow> 'p sql_fragment \<Rightarrow> 'p sql_fragment" where
  "join_frag self separator other =
     (let ps = (if parts self \<noteq> [] \<and> parts other \<noteq> []
                then parts self @ [Literal separator] else parts self)
      in SqlFragment (ps @ shift_parts (parts other) (length (params self)))
                     (params self @ params other))"

definition push_raw :: "'p sql_fragment \<Rightarrow> string \<Rightarrow> 'p sql_fragment" where
  "push_raw self s = SqlFragment (parts self @ [Literal s]) (params self)"

section \<open>Flattening\<close>

text \<open>\<^verbatim>\<open>s.replace('"', "\"\"")\<close> between two double quotes.\<close>

fun double_quotes :: "string \<Rightarrow> string" where
  "double_quotes [] = []"
| "double_quotes (c # cs) = (if c = CHR 0x22 then CHR 0x22 # CHR 0x22 # double_quotes cs
                             else c # double_quotes cs)"

definition quote_ident :: "string \<Rightarrow> string" where
  "quote_ident s = [CHR 0x22] @ double_quotes s @ [CHR 0x22]"

fun build_inner :: "'p sql_part list \<Rightarrow> 'p list \<Rightarrow> string \<times> 'p list \<times> nat \<Rightarrow>
    (string \<times> 'p list \<times> nat) option" where
  "build_inner [] store acc = Some acc"
| "build_inner (Literal s # ps) store (sql, vs, n) = build_inner ps store (sql @ s, vs, n)"
| "build_inner (Identifier s # ps) store (sql, vs, n) =
     build_inner ps store (sql @ quote_ident s, vs, n)"
| "build_inner (Param i # ps) store (sql, vs, n) =
     (case nth_opt store i of
        None \<Rightarrow> None
      | Some v \<Rightarrow> build_inner ps store (sql @ ''$'' @ show_nat n, vs @ [v], n + 1))"
| "build_inner (Fragment (SqlFragment qs us) # ps) store acc =
     (case build_inner qs us acc of
        None \<Rightarrow> None
      | Some acc' \<Rightarrow> build_inner ps store acc')"

definition build :: "'p sql_fragment \<Rightarrow> (string \<times> 'p list) option" where
  "build self =
     (case build_inner (parts self) (params self) ([], [], 1) of
        None \<Rightarrow> None
      | Some (sql, vs, n) \<Rightarrow> Some (sql, vs))"

section \<open>Specification: flat item lists\<close>

datatype 'p sql_item = Text string | Name string | Val 'p

fun items :: "'p sql_part list \<Rightarrow> 'p list \<Rightarrow> 'p sql_item list option" where
  "items [] store = Some []"
| "items (Literal s # ps) store = map_option (Cons (Text s)) (items ps store)"
| "items (Identifier s # ps) store = map_option (Cons (Name s)) (items ps store)"
| "items (Param i # ps) store =
     (case nth_opt store i of
        None \<Rightarrow> None | Some v \<Rightarrow> map_option (Cons (Val v)) (items ps store))"
| "items (Fragment (SqlFragment qs us) # ps) store =
     (case items qs us of
        None \<Rightarrow> None | Some is \<Rightarrow> map_option ((@) is) (items ps store))"

definition fragment_items :: "'p sql_fragment \<Rightarrow> 'p sql_item list option" where
  "fragment_items f = items (parts f) (params f)"

fun item_values :: "'p sql_item list \<Rightarrow> 'p list" where
  "item_values [] = []"
| "item_values (Val v # is) = v # item_values is"
| "item_values (_ # is) = item_values is"

text \<open>The query text of an item list, the values numbered consecutively from \<open>n\<close>.\<close>

fun print_items :: "nat \<Rightarrow> 'p sql_item list \<Rightarrow> string" where
  "print_items n [] = []"
| "print_items n (Text s # is) = s @ print_items n is"
| "print_items n (Name s # is) = quote_ident s @ print_items n is"
| "print_items n (Val v # is) = ''$'' @ show_nat n @ print_items (n + 1) is"

lemma item_values_append [simp]: "item_values (is @ js) = item_values is @ item_values js"
  by (induction "is" rule: item_values.induct) auto

lemma print_items_append:
  "print_items n (is @ js) = print_items n is @ print_items (n + length (item_values is)) js"
  by (induction n "is" rule: print_items.induct) auto

text \<open>\<^verbatim>\<open>build_inner\<close> appends the printed items to the text, their values to the vector and
  advances the counter, and it panics exactly where the items are undefined.\<close>

lemma build_inner_items:
  "build_inner ps store (sql, vs, n) =
     map_option (\<lambda>is. (sql @ print_items n is, vs @ item_values is, n + length (item_values is)))
       (items ps store)"
proof (induction ps store arbitrary: sql vs n rule: items.induct)
  case (4 i ps store)
  then show ?case by (cases "nth_opt store i") (auto simp: option.map_comp o_def)
next
  case (5 qs us ps store)
  then show ?case
    by (cases "items qs us") (auto simp: option.map_comp o_def print_items_append add.assoc)
qed (auto simp: option.map_comp o_def)

lemma build_eq:
  "build f = map_option (\<lambda>is. (print_items 1 is, item_values is)) (fragment_items f)"
  by (auto simp: build_def build_inner_items fragment_items_def split: option.splits)

section \<open>Flat fragments and composition\<close>

text \<open>A flat fragment has no nested fragment and only indices of its own vector; every
  constructor and builder of the crate produces one.\<close>

fun flat_part :: "nat \<Rightarrow> 'p sql_part \<Rightarrow> bool" where
  "flat_part n (Param i) = (i < n)"
| "flat_part n (Fragment f) = False"
| "flat_part n _ = True"

definition flat :: "'p sql_fragment \<Rightarrow> bool" where
  "flat f \<longleftrightarrow> list_all (flat_part (length (params f))) (parts f)"

fun flat_items :: "'p sql_part list \<Rightarrow> 'p list \<Rightarrow> 'p sql_item list" where
  "flat_items [] store = []"
| "flat_items (Literal s # ps) store = Text s # flat_items ps store"
| "flat_items (Identifier s # ps) store = Name s # flat_items ps store"
| "flat_items (Param i # ps) store = Val (store ! i) # flat_items ps store"
| "flat_items (Fragment f # ps) store = flat_items ps store"

lemma flat_items_append [simp]: "flat_items (ps @ qs) store = flat_items ps store @ flat_items qs store"
  by (induction ps store rule: flat_items.induct) auto

lemma items_flat: "list_all (flat_part (length store)) ps \<Longrightarrow> items ps store = Some (flat_items ps store)"
  by (induction ps store rule: flat_items.induct) (auto simp: nth_opt_def)

lemma flat_part_mono: "flat_part n p \<Longrightarrow> n \<le> m \<Longrightarrow> flat_part m p"
  by (cases p) auto

lemma list_all_flat_mono: "list_all (flat_part n) ps \<Longrightarrow> n \<le> m \<Longrightarrow> list_all (flat_part m) ps"
  by (erule list.pred_mono_strong) (erule flat_part_mono)

lemma flat_items_extend:
  "list_all (flat_part (length vs)) ps \<Longrightarrow> flat_items ps (vs @ ws) = flat_items ps vs"
  by (induction ps vs rule: flat_items.induct) (auto simp: nth_append)

lemma shift_parts_flat:
  assumes "list_all (flat_part n) ps"
  shows "list_all (flat_part (n + k)) (shift_parts ps k)"
    and "n = length ws \<Longrightarrow> k = length vs \<Longrightarrow> flat_items (shift_parts ps k) (vs @ ws) = flat_items ps ws"
proof -
  have *: "list_all (flat_part (n + k)) (map (shift_part k) ps)"
    using assms by (induction ps) (auto split: sql_part.splits elim: flat_part.elims)
  show "list_all (flat_part (n + k)) (shift_parts ps k)"
    using * assms by (auto simp: shift_parts_def intro: list_all_flat_mono)
  assume len: "n = length ws" "k = length vs"
  have "flat_items (map (shift_part k) ps) (vs @ ws) = flat_items ps ws"
    using assms len by (induction ps ws rule: flat_items.induct) (auto simp: nth_append)
  then show "flat_items (shift_parts ps k) (vs @ ws) = flat_items ps ws"
    using len by (auto simp: shift_parts_def)
qed

lemma flat_constructors [simp]:
  "flat (raw s)" "flat (param v)" "flat (ident a)" "flat (qualified_ident a b)" "flat empty_fragment"
  by (auto simp: flat_def raw_def param_def ident_def qualified_ident_def empty_fragment_def)

lemma flat_append [simp]: "flat f \<Longrightarrow> flat g \<Longrightarrow> flat (append_frag f g)"
  using shift_parts_flat(1) [of "length (params g)" "parts g" "length (params f)"]
  by (auto simp: flat_def append_frag_def add.commute intro: list_all_flat_mono)

lemma flat_push_raw [simp]: "flat f \<Longrightarrow> flat (push_raw f s)"
  by (auto simp: flat_def push_raw_def)

lemma flat_join [simp]: "flat f \<Longrightarrow> flat g \<Longrightarrow> flat (join_frag f s g)"
  using shift_parts_flat(1) [of "length (params g)" "parts g" "length (params f)"]
  by (auto simp: flat_def join_frag_def Let_def add.commute intro: list_all_flat_mono)

definition the_items :: "'p sql_fragment \<Rightarrow> 'p sql_item list" where
  "the_items f = flat_items (parts f) (params f)"

lemma fragment_items_flat: "flat f \<Longrightarrow> fragment_items f = Some (the_items f)"
  by (simp add: flat_def fragment_items_def the_items_def items_flat)

lemma the_items_constructors [simp]:
  "the_items (raw s) = [Text s]" "the_items (param v) = [Val v]" "the_items (ident a) = [Name a]"
  "the_items (qualified_ident a b) = [Name a, Text ''.'', Name b]" "the_items empty_fragment = []"
  by (auto simp: the_items_def raw_def param_def ident_def qualified_ident_def empty_fragment_def)

lemma the_items_append [simp]:
  "flat f \<Longrightarrow> flat g \<Longrightarrow> the_items (append_frag f g) = the_items f @ the_items g"
  by (simp add: the_items_def append_frag_def flat_items_extend shift_parts_flat(2) flat_def)

lemma the_items_push_raw [simp]: "the_items (push_raw f s) = the_items f @ [Text s]"
  by (simp add: the_items_def push_raw_def)

lemma the_items_join:
  "flat f \<Longrightarrow> flat g \<Longrightarrow> the_items (join_frag f s g) =
     the_items f @ (if parts f \<noteq> [] \<and> parts g \<noteq> [] then [Text s] else []) @ the_items g"
  by (simp add: the_items_def join_frag_def Let_def flat_items_extend shift_parts_flat(2) flat_def)

lemma build_flat: "flat f \<Longrightarrow> build f = Some (print_items 1 (the_items f), item_values (the_items f))"
  by (simp add: build_eq fragment_items_flat)

section \<open>Reading a quoted identifier back\<close>

text \<open>How a SQL lexer reads a delimited identifier: up to the first quote that is not
  doubled. The result is the name and the rest of the text.\<close>

fun scan_quoted :: "string \<Rightarrow> (string \<times> string) option" where
  "scan_quoted [] = None"
| "scan_quoted (c # cs) =
     (if c = CHR 0x22
      then (case cs of
              d # ds \<Rightarrow> if d = CHR 0x22 then map_option (apfst (Cons CHR 0x22)) (scan_quoted ds)
                        else Some ([], cs)
            | [] \<Rightarrow> Some ([], []))
      else map_option (apfst (Cons c)) (scan_quoted cs))"

fun scan_identifier :: "string \<Rightarrow> (string \<times> string) option" where
  "scan_identifier [] = None"
| "scan_identifier (c # cs) = (if c = CHR 0x22 then scan_quoted cs else None)"

lemma scan_quoted_double_quotes:
  "(rest = [] \<or> hd rest \<noteq> CHR 0x22) \<Longrightarrow>
     scan_quoted (double_quotes s @ CHR 0x22 # rest) = Some (s, rest)"
  by (induction s) (auto split: list.splits)

section \<open>Values are opaque\<close>

lemma items_map: "items (map (map_sql_part h) ps) (map h store) = map_option (map (map_sql_item h)) (items ps store)"
proof (induction ps store rule: items.induct)
  case (4 i ps store)
  then show ?case by (cases "nth_opt store i") (auto simp: option.map_comp o_def)
next
  case (5 qs us ps store)
  then show ?case by (cases "items qs us") (auto simp: option.map_comp o_def)
qed (auto simp: option.map_comp o_def)

lemma fragment_items_map:
  "fragment_items (map_sql_fragment h f) = map_option (map (map_sql_item h)) (fragment_items f)"
  by (cases f) (simp add: fragment_items_def items_map)

lemma print_map_items: "print_items n (map (map_sql_item h) is) = print_items n is"
  by (induction n "is" rule: print_items.induct) auto

lemma item_values_map: "item_values (map (map_sql_item h) is) = map h (item_values is)"
  by (induction "is" rule: item_values.induct) auto

section \<open>Properties\<close>

text \<open>C39: For every fragment, nested ones included, \<open>build\<close> either panics because some
  parameter slot is out of range of its own vector, or returns the text of the flat item
  list with its values numbered \<open>$1\<close>, \<open>$2\<close>, \<dots> in order of appearance, together with exactly
  those values in that order.\<close>

theorem build_refines_items:
  "build f = (case fragment_items f of
      None \<Rightarrow> None
    | Some is \<Rightarrow> Some (print_items 1 is, item_values is))"
  by (simp add: build_eq split: option.splits)

text \<open>Composition never disturbs placeholder numbering: building \<open>f.append(g)\<close> for flat
  fragments gives the text of \<open>f\<close> followed by the text of \<open>g\<close> renumbered after the values of
  \<open>f\<close>, and the two value vectors concatenated.\<close>

theorem append_build:
  assumes "flat f" and "flat g" and "build f = Some (sf, vf)" and "build g = Some (sg, vg)"
  shows "build (append_frag f g) = Some (sf @ print_items (1 + length vf) (the_items g), vf @ vg)"
  using assms by (auto simp: build_flat print_items_append)

theorem append_build_witness:
  "build (append_frag (append_frag (raw ''a = '') (param (1::int))) (append_frag (raw '' AND b = '') (param 2)))
     = Some (''a = $1'' @ '' AND b = $2'', [1] @ [2])"
proof -
  let ?f = "append_frag (raw ''a = '') (param (1::int))"
  let ?g = "append_frag (raw '' AND b = '') (param (2::int))"
  have flat: "flat ?f" "flat ?g" by simp_all
  have f: "build ?f = Some (''a = $1'', [1])" and g: "build ?g = Some ('' AND b = $1'', [2])"
    by (simp_all add: build_flat show_nat.simps)
  show ?thesis using append_build [OF flat f g] by (simp add: show_nat.simps)
qed

text \<open>C40: Identifier quoting is injection-safe: whatever characters the name has, a SQL lexer
  that reads the delimited identifier from the emitted text recovers exactly the name and stops
  exactly where the emitted identifier ends.\<close>

theorem quote_ident_roundtrip:
  assumes "rest = [] \<or> hd rest \<noteq> CHR 0x22"
  shows "scan_identifier (quote_ident name @ rest) = Some (name, rest)"
  using scan_quoted_double_quotes [OF assms] by (simp add: quote_ident_def)

theorem quote_ident_roundtrip_witness:
  "scan_identifier (quote_ident [CHR ''a'', CHR 0x22, CHR ''b''] @ '' FROM t'') =
     Some ([CHR ''a'', CHR 0x22, CHR ''b''], '' FROM t'')"
  by (rule quote_ident_roundtrip) simp

text \<open>A fragment with a nested fragment does not survive \<open>append\<close>: the nested indices are
  shifted although the nested fragment keeps its own parameter vector, so a composition of two
  fragments that both build panics when it is built.\<close>

theorem nested_append_panics:
  "build (param v) = Some (''$1'', [v]) \<and>
   build (SqlFragment [Fragment (param w)] []) = Some (''$1'', [w]) \<and>
   build (append_frag (param v) (SqlFragment [Fragment (param w)] [])) = None"
  by (simp add: build_def param_def append_frag_def shift_parts_def show_nat.simps)

text \<open>The text of a built fragment never depends on parameter values: replacing every
  value by another changes nothing in the SQL and replaces exactly the bound values.\<close>

theorem build_text_value_independent:
  "build (map_sql_fragment h f) = map_option (\<lambda>(sql, vs). (sql, map h vs)) (build f)"
  by (simp add: build_eq fragment_items_map option.map_comp o_def print_map_items item_values_map)

end
