(* ===== verification/Sql_Builder.thy ===== *)
theory Sql_Builder
  imports Sql_Fragment
begin

text \<open>
  The statement builders of \<^verbatim>\<open>magna-sql\<close>: \<^verbatim>\<open>SqlBuilder\<close> (SELECT), \<^verbatim>\<open>InsertBuilder\<close>,
  \<^verbatim>\<open>UpdateBuilder\<close>, \<^verbatim>\<open>DeleteBuilder\<close>, and the rendering helpers of \<^verbatim>\<open>render.rs\<close>. A failed
  \<^verbatim>\<open>assert_eq!\<close> is \<open>None\<close>. The locale \<open>prepared_statement\<close> states what a value-taking builder
  promises (a fixed text template whose placeholders are filled in order); it is
  interpreted on the three mutation builders.
\<close>

section \<open>Loops that emit a separator\<close>

text \<open>The shape \<^verbatim>\<open>for (i, x) in xs.iter().enumerate() { if i > 0 { f = f.push_raw(sep) } ... }\<close>.\<close>

fun sep_loop :: "string \<Rightarrow> ('a \<Rightarrow> 'p sql_fragment \<Rightarrow> 'p sql_fragment) \<Rightarrow> nat \<Rightarrow> 'a list \<Rightarrow>
    'p sql_fragment \<Rightarrow> 'p sql_fragment" where
  "sep_loop sep body i [] f = f"
| "sep_loop sep body i (x # xs) f =
     sep_loop sep body (i + 1) xs (body x (if i > 0 then push_raw f sep else f))"

fun sep_items :: "string \<Rightarrow> 'p sql_item list list \<Rightarrow> 'p sql_item list" where
  "sep_items sep [] = []"
| "sep_items sep [xs] = xs"
| "sep_items sep (xs # ys # zss) = xs @ Text sep # sep_items sep (ys # zss)"

definition emits :: "('p sql_fragment \<Rightarrow> 'p sql_fragment) \<Rightarrow> 'p sql_item list \<Rightarrow> bool" where
  "emits g is \<longleftrightarrow> (\<forall>f. flat f \<longrightarrow> flat (g f) \<and> the_items (g f) = the_items f @ is)"

lemma emitsD: "emits g is \<Longrightarrow> flat f \<Longrightarrow> flat (g f)"
  "emits g is \<Longrightarrow> flat f \<Longrightarrow> the_items (g f) = the_items f @ is"
  by (auto simp: emits_def)

lemma emits_basic [simp]:
  "emits (\<lambda>f. f) []"
  "emits (\<lambda>f. push_raw f s) [Text s]"
  "flat g \<Longrightarrow> emits (\<lambda>f. append_frag f g) (the_items g)"
  by (auto simp: emits_def)

lemma emits_comp: "emits g is \<Longrightarrow> emits h js \<Longrightarrow> emits (\<lambda>f. h (g f)) (is @ js)"
  by (auto simp: emits_def)

lemma sep_items_Cons:
  "sep_items sep (xs # yss) = xs @ (if yss = [] then [] else Text sep # sep_items sep yss)"
  by (cases yss) auto

lemma emits_sep_loop_Suc:
  assumes "\<And>x. x \<in> set xs \<Longrightarrow> emits (body x) (g x)"
  shows "emits (sep_loop sep body (Suc i) xs)
           (if xs = [] then [] else Text sep # sep_items sep (map g xs))"
  using assms
proof (induction xs arbitrary: i)
  case (Cons x xs)
  have x: "emits (\<lambda>f. body x (push_raw f sep)) ([Text sep] @ g x)"
    by (rule emits_comp) (use Cons.prems in auto)
  from emits_comp [OF x Cons.IH] Cons.prems show ?case
    by (simp add: sep_items_Cons emits_def)
qed (simp add: emits_def)

lemma emits_sep_loop:
  assumes "\<And>x. x \<in> set xs \<Longrightarrow> emits (body x) (g x)"
  shows "emits (sep_loop sep body 0 xs) (sep_items sep (map g xs))"
proof (cases xs)
  case (Cons x ys)
  then have x: "emits (body x) (g x)" and ys: "\<And>y. y \<in> set ys \<Longrightarrow> emits (body y) (g y)"
    using assms by auto
  have "emits (\<lambda>f. sep_loop sep body (Suc 0) ys (body x f))
          (g x @ (if ys = [] then [] else Text sep # sep_items sep (map g ys)))"
    by (rule emits_comp [OF x emits_sep_loop_Suc]) (use ys in blast)
  with Cons show ?thesis by (simp add: sep_items_Cons emits_def)
qed (simp add: emits_def)

lemma item_values_sep_items [simp]:
  "item_values (sep_items sep xss) = concat (map item_values xss)"
  by (induction sep xss rule: sep_items.induct) auto

section \<open>SELECT\<close>

datatype join_type = Inner | Left | Right | Full

fun join_as_sql :: "join_type \<Rightarrow> string" where
  "join_as_sql Inner = ''INNER JOIN''"
| "join_as_sql Left = ''LEFT JOIN''"
| "join_as_sql Right = ''RIGHT JOIN''"
| "join_as_sql Full = ''FULL JOIN''"

record 'p join_clause =
  jc_type :: join_type
  jc_table :: "'p sql_fragment"
  jc_alias :: "string option"
  jc_on :: "'p sql_fragment"

definition join_clause_new :: "join_type \<Rightarrow> 'p sql_fragment \<Rightarrow> 'p sql_fragment \<Rightarrow> 'p join_clause" where
  "join_clause_new t tbl on = \<lparr>jc_type = t, jc_table = tbl, jc_alias = None, jc_on = on\<rparr>"

definition join_clause_alias :: "'p join_clause \<Rightarrow> string \<Rightarrow> 'p join_clause" where
  "join_clause_alias j a = j\<lparr>jc_alias := Some a\<rparr>"

record 'p order_by_item =
  ob_column :: "'p sql_fragment"
  ob_ascending :: bool

record 'p column_expr =
  ce_expr :: "'p sql_fragment"
  ce_alias :: "string option"

record 'p sql_builder =
  sb_schema :: string
  sb_table :: string
  sb_table_alias :: "string option"
  sb_columns :: "'p column_expr list"
  sb_joins :: "'p join_clause list"
  sb_where_conditions :: "'p sql_fragment list"
  sb_order_by :: "'p order_by_item list"
  sb_limit_val :: "64 word option"
  sb_offset_val :: "64 word option"

definition sb_from :: "string \<Rightarrow> string \<Rightarrow> 'p sql_builder" where
  "sb_from schema table =
     \<lparr>sb_schema = schema, sb_table = table, sb_table_alias = None, sb_columns = [], sb_joins = [],
      sb_where_conditions = [], sb_order_by = [], sb_limit_val = None, sb_offset_val = None\<rparr>"

definition table_alias :: "'p sql_builder \<Rightarrow> string \<Rightarrow> 'p sql_builder" where
  "table_alias b a = b\<lparr>sb_table_alias := Some a\<rparr>"

definition column :: "'p sql_builder \<Rightarrow> 'p sql_fragment \<Rightarrow> string option \<Rightarrow> 'p sql_builder" where
  "column b e a = b\<lparr>sb_columns := sb_columns b @ [\<lparr>ce_expr = e, ce_alias = a\<rparr>]\<rparr>"

definition column_star :: "'p sql_builder \<Rightarrow> 'p sql_builder" where
  "column_star b = b\<lparr>sb_columns := sb_columns b @ [\<lparr>ce_expr = raw ''*'', ce_alias = None\<rparr>]\<rparr>"

definition where_clause :: "'p sql_builder \<Rightarrow> 'p sql_fragment \<Rightarrow> 'p sql_builder" where
  "where_clause b cond = b\<lparr>sb_where_conditions := sb_where_conditions b @ [cond]\<rparr>"

definition and_where :: "'p sql_builder \<Rightarrow> 'p sql_fragment \<Rightarrow> 'p sql_builder" where
  "and_where b cond = where_clause b cond"

definition add_join :: "'p sql_builder \<Rightarrow> 'p join_clause \<Rightarrow> 'p sql_builder" where
  "add_join b j = b\<lparr>sb_joins := sb_joins b @ [j]\<rparr>"

definition order_by :: "'p sql_builder \<Rightarrow> 'p sql_fragment \<Rightarrow> bool \<Rightarrow> 'p sql_builder" where
  "order_by b col asc = b\<lparr>sb_order_by := sb_order_by b @ [\<lparr>ob_column = col, ob_ascending = asc\<rparr>]\<rparr>"

definition limit :: "'p sql_builder \<Rightarrow> 64 word \<Rightarrow> 'p sql_builder" where
  "limit b n = b\<lparr>sb_limit_val := Some n\<rparr>"

definition offset :: "'p sql_builder \<Rightarrow> 64 word \<Rightarrow> 'p sql_builder" where
  "offset b n = b\<lparr>sb_offset_val := Some n\<rparr>"

text \<open>The clauses of \<^verbatim>\<open>SqlBuilder::build\<close>, each appended to the fragment built so far.\<close>

definition push_alias :: "string option \<Rightarrow> 'p sql_fragment \<Rightarrow> 'p sql_fragment" where
  "push_alias a f = (case a of None \<Rightarrow> f | Some n \<Rightarrow> append_frag (push_raw f '' AS '') (ident n))"

definition push_columns :: "'p sql_builder \<Rightarrow> 'p sql_fragment \<Rightarrow> 'p sql_fragment" where
  "push_columns b f =
     (if sb_columns b = [] then push_raw f ''*''
      else sep_loop '', '' (\<lambda>c f. push_alias (ce_alias c) (append_frag f (ce_expr c))) 0 (sb_columns b) f)"

fun push_joins :: "'p join_clause list \<Rightarrow> 'p sql_fragment \<Rightarrow> 'p sql_fragment" where
  "push_joins [] f = f"
| "push_joins (j # js) f =
     push_joins js
       (append_frag
         (push_raw
           (push_alias (jc_alias j)
             (append_frag (push_raw (push_raw (push_raw f '' '') (join_as_sql (jc_type j))) '' '')
               (jc_table j)))
           '' ON '')
         (jc_on j))"

definition push_where :: "'p sql_fragment list \<Rightarrow> 'p sql_fragment \<Rightarrow> 'p sql_fragment" where
  "push_where conds f =
     (if conds = [] then f
      else sep_loop '' AND '' (\<lambda>c f. push_raw (append_frag (push_raw f ''('') c) '')'') 0 conds
             (push_raw f '' WHERE ''))"

definition push_order_by :: "'p order_by_item list \<Rightarrow> 'p sql_fragment \<Rightarrow> 'p sql_fragment" where
  "push_order_by os f =
     (if os = [] then f
      else sep_loop '', ''
             (\<lambda>it f. push_raw (append_frag f (ob_column it)) (if ob_ascending it then '' ASC'' else '' DESC''))
             0 os (push_raw f '' ORDER BY ''))"

definition push_int_clause :: "string \<Rightarrow> 64 word option \<Rightarrow> ('t, 'j) pg_value sql_fragment \<Rightarrow>
    ('t, 'j) pg_value sql_fragment" where
  "push_int_clause kw v f =
     (case v of None \<Rightarrow> f | Some n \<Rightarrow> append_frag (push_raw f kw) (param (PgInt n)))"

definition select_build :: "('t, 'j) pg_value sql_builder \<Rightarrow> ('t, 'j) pg_value sql_fragment" where
  "select_build b =
     push_int_clause '' OFFSET '' (sb_offset_val b)
      (push_int_clause '' LIMIT '' (sb_limit_val b)
       (push_order_by (sb_order_by b)
        (push_where (sb_where_conditions b)
         (push_joins (sb_joins b)
          (push_alias (sb_table_alias b)
           (append_frag
             (push_raw (push_columns b (push_raw empty_fragment ''SELECT '')) '' FROM '')
             (qualified_ident (sb_schema b) (sb_table b))))))))"

definition render :: "('t, 'j) pg_value sql_builder \<Rightarrow> (string \<times> ('t, 'j) pg_value list) option" where
  "render b = build (select_build b)"

definition render_fragment :: "'p sql_fragment \<Rightarrow> (string \<times> 'p list) option" where
  "render_fragment f = build f"

text \<open>\<^verbatim>\<open>str::replace\<close> for a non-empty pattern: all non-overlapping occurrences from the left.
  The counter skips the bytes of an occurrence already replaced.\<close>

fun replace_aux :: "string \<Rightarrow> string \<Rightarrow> nat \<Rightarrow> string \<Rightarrow> string" where
  "replace_aux pat rep k [] = []"
| "replace_aux pat rep (Suc k) (c # cs) = replace_aux pat rep k cs"
| "replace_aux pat rep 0 (c # cs) =
     (if take (length pat) (c # cs) = pat then rep @ replace_aux pat rep (length pat - 1) cs
      else c # replace_aux pat rep 0 cs)"

definition replace_str :: "string \<Rightarrow> string \<Rightarrow> string \<Rightarrow> string" where
  "replace_str s pat rep = replace_aux pat rep 0 s"

text \<open>\<^verbatim>\<open>debug_format\<close>; \<open>dbg\<close> is the derived \<^verbatim>\<open>Debug\<close> text of a value. The vector is walked
  from its last element to its first.\<close>

fun annotate :: "('p \<Rightarrow> string) \<Rightarrow> string \<Rightarrow> (nat \<times> 'p) list \<Rightarrow> string" where
  "annotate dbg out [] = out"
| "annotate dbg out ((i, v) # ivs) =
     (let placeholder = ''$'' @ show_nat (i + 1)
      in annotate dbg (replace_str out placeholder (placeholder @ '' /* '' @ dbg v @ '' */'')) ivs)"

definition debug_format :: "('p \<Rightarrow> string) \<Rightarrow> string \<Rightarrow> 'p list \<Rightarrow> string" where
  "debug_format dbg sql vals = annotate dbg sql (rev (enumerate 0 vals))"

subsection \<open>What the clauses emit\<close>

definition alias_items :: "string option \<Rightarrow> 'p sql_item list" where
  "alias_items a = (case a of None \<Rightarrow> [] | Some n \<Rightarrow> [Text '' AS '', Name n])"

definition column_items :: "'p column_expr list \<Rightarrow> 'p sql_item list" where
  "column_items cs =
     (if cs = [] then [Text ''*'']
      else sep_items '', '' (map (\<lambda>c. the_items (ce_expr c) @ alias_items (ce_alias c)) cs))"

definition join_items :: "'p join_clause \<Rightarrow> 'p sql_item list" where
  "join_items j = [Text '' '', Text (join_as_sql (jc_type j)), Text '' ''] @ the_items (jc_table j) @
     alias_items (jc_alias j) @ [Text '' ON ''] @ the_items (jc_on j)"

definition where_items :: "'p sql_fragment list \<Rightarrow> 'p sql_item list" where
  "where_items cs = (if cs = [] then [] else
     Text '' WHERE '' # sep_items '' AND '' (map (\<lambda>c. [Text ''(''] @ the_items c @ [Text '')'']) cs))"

definition order_items :: "'p order_by_item list \<Rightarrow> 'p sql_item list" where
  "order_items os = (if os = [] then [] else
     Text '' ORDER BY '' # sep_items '', '' (map (\<lambda>it. the_items (ob_column it) @
       [Text (if ob_ascending it then '' ASC'' else '' DESC'')]) os))"

definition int_items :: "string \<Rightarrow> 64 word option \<Rightarrow> ('t, 'j) pg_value sql_item list" where
  "int_items kw v = (case v of None \<Rightarrow> [] | Some n \<Rightarrow> [Text kw, Val (PgInt n)])"

definition select_items :: "('t, 'j) pg_value sql_builder \<Rightarrow> ('t, 'j) pg_value sql_item list" where
  "select_items b = [Text ''SELECT ''] @ column_items (sb_columns b) @ [Text '' FROM ''] @
     [Name (sb_schema b), Text ''.'', Name (sb_table b)] @ alias_items (sb_table_alias b) @
     concat (map join_items (sb_joins b)) @ where_items (sb_where_conditions b) @
     order_items (sb_order_by b) @ int_items '' LIMIT '' (sb_limit_val b) @
     int_items '' OFFSET '' (sb_offset_val b)"

text \<open>A builder all of whose fragments are flat, as every fragment made by the public
  constructors is.\<close>

definition builder_flat :: "'p sql_builder \<Rightarrow> bool" where
  "builder_flat b \<longleftrightarrow>
     list_all (\<lambda>c. flat (ce_expr c)) (sb_columns b) \<and>
     list_all (\<lambda>j. flat (jc_table j) \<and> flat (jc_on j)) (sb_joins b) \<and>
     list_all flat (sb_where_conditions b) \<and>
     list_all (\<lambda>it. flat (ob_column it)) (sb_order_by b)"

lemma emits_push_alias [simp]: "emits (push_alias a) (alias_items a)"
  by (auto simp: push_alias_def alias_items_def emits_def split: option.splits)

lemma emits_push_columns:
  assumes "list_all (\<lambda>c. flat (ce_expr c)) (sb_columns b)"
  shows "emits (push_columns b) (column_items (sb_columns b))"
proof -
  have "emits (\<lambda>f. push_alias (ce_alias c) (append_frag f (ce_expr c)))
          (the_items (ce_expr c) @ alias_items (ce_alias c))" if "c \<in> set (sb_columns b)" for c
    by (rule emits_comp) (use assms that in \<open>auto simp: list_all_iff\<close>)
  from emits_sep_loop [OF this, of "sb_columns b"] show ?thesis
    by (auto simp: push_columns_def [abs_def] column_items_def)
qed

lemma emits_push_joins:
  "list_all (\<lambda>j. flat (jc_table j) \<and> flat (jc_on j)) js \<Longrightarrow>
     emits (push_joins js) (concat (map join_items js))"
proof (induction js)
  case (Cons j js)
  then have j: "flat (jc_table j)" "flat (jc_on j)" by auto
  have "flat (push_alias a f)" "the_items (push_alias a f) = the_items f @ alias_items a"
    if "flat f" for a and f :: "'a sql_fragment"
    using emitsD [OF emits_push_alias that] by blast+
  with j Cons show ?case by (auto simp: emits_def join_items_def)
qed (simp add: emits_def)

lemma emits_push_where: "list_all flat cs \<Longrightarrow> emits (push_where cs) (where_items cs)"
proof -
  assume cs: "list_all flat cs"
  have "emits (\<lambda>f. push_raw (append_frag (push_raw f ''('') c) '')'') ([Text ''(''] @ the_items c @ [Text '')''])"
    if "c \<in> set cs" for c
    using cs that by (auto simp: emits_def list_all_iff)
  from emits_comp [OF emits_basic(2) [of "'' WHERE ''"] emits_sep_loop [OF this]]
  show ?thesis by (auto simp: push_where_def [abs_def] where_items_def)
qed

lemma emits_push_order_by:
  "list_all (\<lambda>it. flat (ob_column it)) os \<Longrightarrow> emits (push_order_by os) (order_items os)"
proof -
  assume os: "list_all (\<lambda>it. flat (ob_column it)) os"
  have "emits (\<lambda>f. push_raw (append_frag f (ob_column it)) (if ob_ascending it then '' ASC'' else '' DESC''))
          (the_items (ob_column it) @ [Text (if ob_ascending it then '' ASC'' else '' DESC'')])"
    if "it \<in> set os" for it
    using os that by (auto simp: emits_def list_all_iff)
  from emits_comp [OF emits_basic(2) [of "'' ORDER BY ''"] emits_sep_loop [OF this]]
  show ?thesis by (auto simp: push_order_by_def [abs_def] order_items_def)
qed

lemma emits_push_int_clause [simp]: "emits (push_int_clause kw v) (int_items kw v)"
  by (auto simp: push_int_clause_def int_items_def emits_def split: option.splits)

lemma select_build_items:
  assumes "builder_flat b"
  shows "flat (select_build b)" and "the_items (select_build b) = select_items b"
proof -
  note b = assms [unfolded builder_flat_def]
  define f1 where "f1 = push_columns b (push_raw empty_fragment ''SELECT '')"
  have f1: "flat f1" "the_items f1 = [Text ''SELECT ''] @ column_items (sb_columns b)"
    using emitsD [OF emits_push_columns, of b "push_raw empty_fragment ''SELECT ''"] b
    by (auto simp: f1_def)
  define f2 where "f2 = append_frag (push_raw f1 '' FROM '') (qualified_ident (sb_schema b) (sb_table b))"
  have f2: "flat f2" "the_items f2 = the_items f1 @ [Text '' FROM '', Name (sb_schema b), Text ''.'', Name (sb_table b)]"
    using f1 by (auto simp: f2_def)
  have emit: "emits (\<lambda>f. push_int_clause '' OFFSET '' (sb_offset_val b)
      (push_int_clause '' LIMIT '' (sb_limit_val b)
       (push_order_by (sb_order_by b) (push_where (sb_where_conditions b)
         (push_joins (sb_joins b) (push_alias (sb_table_alias b) f))))))
     (((((alias_items (sb_table_alias b) @ concat (map join_items (sb_joins b))) @
        where_items (sb_where_conditions b)) @ order_items (sb_order_by b)) @
        int_items '' LIMIT '' (sb_limit_val b)) @ int_items '' OFFSET '' (sb_offset_val b))"
    by (intro emits_comp emits_push_alias emits_push_joins emits_push_where emits_push_order_by
          emits_push_int_clause) (use b in auto)
  show "flat (select_build b)"
    using emitsD(1) [OF emit f2(1)] by (simp add: select_build_def f1_def f2_def)
  show "the_items (select_build b) = select_items b"
    using emitsD(2) [OF emit f2(1)] f2(2) f1(2) by (simp add: select_build_def select_items_def f1_def f2_def)
qed

definition frag_values :: "'p sql_fragment \<Rightarrow> 'p list" where
  "frag_values f = item_values (the_items f)"

text \<open>The values of a query in the order of its clauses.\<close>

definition select_values :: "('t, 'j) pg_value sql_builder \<Rightarrow> ('t, 'j) pg_value list" where
  "select_values b =
     concat (map (frag_values \<circ> ce_expr) (sb_columns b)) @
     concat (map (\<lambda>j. frag_values (jc_table j) @ frag_values (jc_on j)) (sb_joins b)) @
     concat (map frag_values (sb_where_conditions b)) @
     concat (map (frag_values \<circ> ob_column) (sb_order_by b)) @
     map PgInt (case sb_limit_val b of None \<Rightarrow> [] | Some n \<Rightarrow> [n]) @
     map PgInt (case sb_offset_val b of None \<Rightarrow> [] | Some n \<Rightarrow> [n])"

lemma item_values_concat: "item_values (concat xss) = concat (map item_values xss)"
  by (induction xss) auto

lemma item_values_clauses [simp]:
  "item_values (alias_items a) = []"
  "item_values (column_items cs) = concat (map (frag_values \<circ> ce_expr) cs)"
  "item_values (join_items j) = frag_values (jc_table j) @ frag_values (jc_on j)"
  "item_values (where_items ws) = concat (map frag_values ws)"
  "item_values (order_items os) = concat (map (frag_values \<circ> ob_column) os)"
  "item_values (int_items kw v) = map PgInt (case v of None \<Rightarrow> [] | Some n \<Rightarrow> [n])"
proof -
  show "item_values (alias_items a) = []"
    by (auto simp: alias_items_def split: option.splits)
  then have *: "item_values (alias_items a) = []" for a :: "string option" 
    by (auto simp: alias_items_def split: option.splits)
  show "item_values (column_items cs) = concat (map (frag_values \<circ> ce_expr) cs)"
    by (auto simp: column_items_def frag_values_def [abs_def] o_def alias_items_def
             intro!: arg_cong [of _ _ concat] map_cong split: option.splits)
qed (auto simp: join_items_def where_items_def order_items_def int_items_def frag_values_def [abs_def]
       alias_items_def o_def split: option.splits)

lemma item_values_select_items: "item_values (select_items b) = select_values b"
  by (simp add: select_items_def select_values_def item_values_concat o_def)

section \<open>INSERT, UPDATE, DELETE\<close>

record insert_builder =
  ib_schema :: string
  ib_table :: string
  ib_columns :: "string list"

definition insert_new :: "string \<Rightarrow> string \<Rightarrow> insert_builder" where
  "insert_new schema table = \<lparr>ib_schema = schema, ib_table = table, ib_columns = []\<rparr>"

definition insert_column :: "insert_builder \<Rightarrow> string \<Rightarrow> insert_builder" where
  "insert_column b name = b\<lparr>ib_columns := ib_columns b @ [name]\<rparr>"

definition insert_build :: "insert_builder \<Rightarrow> 'p list \<Rightarrow> 'p sql_fragment option" where
  "insert_build b vals =
     (if length (ib_columns b) \<noteq> length vals then None
      else
        let f = push_raw empty_fragment ''INSERT INTO '';
            f = append_frag f (qualified_ident (ib_schema b) (ib_table b));
            f = push_raw f '' ('';
            f = sep_loop '', '' (\<lambda>col f. append_frag f (ident col)) 0 (ib_columns b) f;
            f = push_raw f '') VALUES ('';
            f = sep_loop '', '' (\<lambda>val f. append_frag f (param val)) 0 vals f
        in Some (push_raw f '') RETURNING *''))"

record update_builder =
  ub_schema :: string
  ub_table :: string
  ub_set_columns :: "string list"
  ub_where_columns :: "string list"

definition update_new :: "string \<Rightarrow> string \<Rightarrow> update_builder" where
  "update_new schema table =
     \<lparr>ub_schema = schema, ub_table = table, ub_set_columns = [], ub_where_columns = []\<rparr>"

definition update_set :: "update_builder \<Rightarrow> string \<Rightarrow> update_builder" where
  "update_set b col = b\<lparr>ub_set_columns := ub_set_columns b @ [col]\<rparr>"

definition update_where_eq :: "update_builder \<Rightarrow> string \<Rightarrow> update_builder" where
  "update_where_eq b col = b\<lparr>ub_where_columns := ub_where_columns b @ [col]\<rparr>"

definition push_eq :: "string \<times> 'p \<Rightarrow> 'p sql_fragment \<Rightarrow> 'p sql_fragment" where
  "push_eq cv f = append_frag (push_raw (append_frag f (ident (fst cv))) '' = '') (param (snd cv))"

definition update_build :: "update_builder \<Rightarrow> 'p list \<Rightarrow> 'p list \<Rightarrow> 'p sql_fragment option" where
  "update_build b set_values where_values =
     (if length (ub_set_columns b) \<noteq> length set_values then None
      else if length (ub_where_columns b) \<noteq> length where_values then None
      else
        let f = push_raw empty_fragment ''UPDATE '';
            f = append_frag f (qualified_ident (ub_schema b) (ub_table b));
            f = push_raw f '' SET '';
            f = sep_loop '', '' push_eq 0 (zip (ub_set_columns b) set_values) f;
            f = push_raw f '' WHERE '';
            f = sep_loop '' AND '' push_eq 0 (zip (ub_where_columns b) where_values) f
        in Some (push_raw f '' RETURNING *''))"

record delete_builder =
  db_schema :: string
  db_table :: string
  db_where_columns :: "string list"

definition delete_new :: "string \<Rightarrow> string \<Rightarrow> delete_builder" where
  "delete_new schema table = \<lparr>db_schema = schema, db_table = table, db_where_columns = []\<rparr>"

definition delete_where_eq :: "delete_builder \<Rightarrow> string \<Rightarrow> delete_builder" where
  "delete_where_eq b col = b\<lparr>db_where_columns := db_where_columns b @ [col]\<rparr>"

definition delete_build :: "delete_builder \<Rightarrow> 'p list \<Rightarrow> 'p sql_fragment option" where
  "delete_build b where_values =
     (if length (db_where_columns b) \<noteq> length where_values then None
      else
        let f = push_raw empty_fragment ''DELETE FROM '';
            f = append_frag f (qualified_ident (db_schema b) (db_table b));
            f = push_raw f '' WHERE '';
            f = sep_loop '' AND '' push_eq 0 (zip (db_where_columns b) where_values) f
        in Some (push_raw f '' RETURNING *''))"

section \<open>The contract of a prepared statement\<close>

text \<open>A template is an item list with holes for the values.\<close>

type_synonym template = "unit sql_item list"

fun fill :: "template \<Rightarrow> 'p list \<Rightarrow> 'p sql_item list" where
  "fill [] vs = []"
| "fill (Text s # ts) vs = Text s # fill ts vs"
| "fill (Name s # ts) vs = Name s # fill ts vs"
| "fill (Val _ # ts) [] = []"
| "fill (Val _ # ts) (v # vs) = Val v # fill ts vs"

definition holes :: "template \<Rightarrow> nat" where
  "holes t = length (item_values t)"

lemma holes_simps [simp]:
  "holes [] = 0" "holes (Text s # t) = holes t" "holes (Name s # t) = holes t"
  "holes (Val u # t) = Suc (holes t)" "holes (t @ t') = holes t + holes t'"
  by (auto simp: holes_def)

lemma fill_append:
  "holes t = length vs \<Longrightarrow> fill (t @ t') (vs @ ws) = fill t vs @ fill t' ws"
  by (induction t vs rule: fill.induct) auto

lemma print_fill: "length vs = holes t \<Longrightarrow> print_items n (fill t vs) = print_items n t"
  by (induction t vs arbitrary: n rule: fill.induct) auto

lemma item_values_fill: "length vs = holes t \<Longrightarrow> item_values (fill t vs) = vs"
  by (induction t vs rule: fill.induct) auto

locale prepared_statement =
  fixes stmt :: "'b \<Rightarrow> 'p list \<Rightarrow> 'p sql_fragment option"
    and stmt_template :: "'b \<Rightarrow> template"
  assumes builds: "length vs = holes (stmt_template b) \<Longrightarrow>
      \<exists>f. stmt b vs = Some f \<and> flat f \<and> the_items f = fill (stmt_template b) vs"
    and rejects: "length vs \<noteq> holes (stmt_template b) \<Longrightarrow> stmt b vs = None"
begin

lemma stmt_renders:
  assumes "length vs = holes (stmt_template b)"
  shows "\<exists>f. stmt b vs = Some f \<and> build f = Some (print_items 1 (stmt_template b), vs)"
  using builds [OF assms] assms by (auto simp: build_flat print_fill item_values_fill)

lemma stmt_text_independent:
  assumes "stmt b vs = Some f" and "stmt b ws = Some g"
  shows "map_option fst (build f) = map_option fst (build g)"
  using assms stmt_renders [of vs b] stmt_renders [of ws b] rejects [of vs b] rejects [of ws b]
  by (cases "length vs = holes (stmt_template b)"; cases "length ws = holes (stmt_template b)") auto

lemma stmt_defined_iff: "(\<exists>f. stmt b vs = Some f) \<longleftrightarrow> length vs = holes (stmt_template b)"
  using builds rejects by (metis option.distinct(1))

end

definition eq_template :: "string \<Rightarrow> template" where
  "eq_template c = [Name c, Text '' = '', Val ()]"

definition insert_template :: "insert_builder \<Rightarrow> template" where
  "insert_template b =
     [Text ''INSERT INTO '', Name (ib_schema b), Text ''.'', Name (ib_table b), Text '' (''] @
     sep_items '', '' (map (\<lambda>c. [Name c]) (ib_columns b)) @ [Text '') VALUES (''] @
     sep_items '', '' (map (\<lambda>c. [Val ()]) (ib_columns b)) @ [Text '') RETURNING *'']"

definition update_template :: "update_builder \<Rightarrow> template" where
  "update_template b =
     [Text ''UPDATE '', Name (ub_schema b), Text ''.'', Name (ub_table b), Text '' SET ''] @
     sep_items '', '' (map eq_template (ub_set_columns b)) @ [Text '' WHERE ''] @
     sep_items '' AND '' (map eq_template (ub_where_columns b)) @ [Text '' RETURNING *'']"

definition delete_template :: "delete_builder \<Rightarrow> template" where
  "delete_template b =
     [Text ''DELETE FROM '', Name (db_schema b), Text ''.'', Name (db_table b), Text '' WHERE ''] @
     sep_items '' AND '' (map eq_template (db_where_columns b)) @ [Text '' RETURNING *'']"

lemma holes_sep_items: "holes (sep_items sep ts) = sum_list (map holes ts)"
  by (simp add: holes_def [abs_def] length_concat o_def)

lemma sum_list_ones: "sum_list (map (\<lambda>x. Suc 0) xs) = length xs"
  by (induction xs) auto

lemma fill_sep_vals:
  "length vs = length cs \<Longrightarrow>
     fill (sep_items sep (map (\<lambda>c. [Val ()]) cs)) vs = sep_items sep (map (\<lambda>v. [Val v]) vs)"
proof (induction vs arbitrary: cs)
  case (Cons v vs)
  then show ?case by (cases cs) (auto simp: sep_items_Cons)
qed simp

lemma fill_sep_eqs:
  "length vs = length cs \<Longrightarrow>
     fill (sep_items sep (map eq_template cs)) vs =
     sep_items sep (map (\<lambda>cv. [Name (fst cv), Text '' = '', Val (snd cv)]) (zip cs vs))"
proof (induction vs arbitrary: cs)
  case (Cons v vs)
  then show ?case by (cases cs) (auto simp: sep_items_Cons eq_template_def)
qed simp

lemma fill_names: "fill (sep_items sep (map (\<lambda>c. [Name c]) cs) @ t) vs =
    sep_items sep (map (\<lambda>c. [Name c]) cs) @ fill t vs"
  by (induction cs) (auto simp: sep_items_Cons)

lemma emits_names: "emits (sep_loop sep (\<lambda>col f. append_frag f (ident col)) 0 cs)
    (sep_items sep (map (\<lambda>c. [Name c]) cs))"
  by (rule emits_sep_loop) (auto simp: emits_def)

lemma emits_vals: "emits (sep_loop sep (\<lambda>val f. append_frag f (param val)) 0 vs)
    (sep_items sep (map (\<lambda>v. [Val v]) vs))"
  by (rule emits_sep_loop) (auto simp: emits_def)

lemma emits_eqs: "emits (sep_loop sep push_eq 0 cvs)
    (sep_items sep (map (\<lambda>cv. [Name (fst cv), Text '' = '', Val (snd cv)]) cvs))"
  by (rule emits_sep_loop) (auto simp: emits_def push_eq_def)

lemmas emits_lists = emitsD [OF emits_names] emitsD [OF emits_vals] emitsD [OF emits_eqs]

lemma holes_eqs [simp]: "holes (sep_items sep (map eq_template cs)) = length cs"
  by (simp add: holes_sep_items eq_template_def o_def sum_list_ones)

lemma holes_templates [simp]:
  "holes (insert_template b) = length (ib_columns b)"
  "holes (update_template u) = length (ub_set_columns u) + length (ub_where_columns u)"
  "holes (delete_template d) = length (db_where_columns d)"
  by (simp_all add: insert_template_def update_template_def delete_template_def holes_sep_items
        o_def sum_list_ones sum_list_0 eq_template_def)

lemma fill_tail:
  assumes "holes t = length vs"
  shows "fill (t @ [Text s]) vs = fill t vs @ [Text s]"
  using fill_append [OF assms, of "[Text s]" "[]"] by simp

interpretation ins: prepared_statement insert_build insert_template
proof
  fix vs :: "'a list" and b :: insert_builder
  assume len: "length vs = holes (insert_template b)"
  have "fill (sep_items '', '' (map (\<lambda>c. [Val ()]) (ib_columns b)) @ [Text '') RETURNING *'']) vs =
      sep_items '', '' (map (\<lambda>v. [Val v]) vs) @ [Text '') RETURNING *'']"
    using len by (simp add: fill_tail holes_sep_items o_def sum_list_ones fill_sep_vals)
  then show "\<exists>f. insert_build b vs = Some f \<and> flat f \<and> the_items f = fill (insert_template b) vs"
    using len [unfolded holes_templates]
    by (simp add: insert_build_def Let_def emits_lists insert_template_def fill_names)
qed (simp add: insert_build_def)

interpretation upd: prepared_statement
  "\<lambda>b vs. update_build b (take (length (ub_set_columns b)) vs) (drop (length (ub_set_columns b)) vs)"
  update_template
proof
  fix vs :: "'a list" and b :: update_builder
  let ?n = "length (ub_set_columns b)"
  assume len: "length vs = holes (update_template b)"
  have split: "fill (sep_items '', '' (map eq_template (ub_set_columns b)) @ t) vs =
      fill (sep_items '', '' (map eq_template (ub_set_columns b))) (take ?n vs) @ fill t (drop ?n vs)" for t
    using fill_append [of "sep_items '', '' (map eq_template (ub_set_columns b))" "take ?n vs" t "drop ?n vs"]
      len by simp
  have "length (drop ?n vs) = length (ub_where_columns b)" using len by simp
  then show "\<exists>f. update_build b (take ?n vs) (drop ?n vs) = Some f \<and> flat f \<and>
      the_items f = fill (update_template b) vs"
    using len [unfolded holes_templates]
    by (simp add: update_build_def Let_def emits_lists update_template_def split fill_sep_eqs fill_tail)
qed (auto simp: update_build_def)

interpretation del: prepared_statement delete_build delete_template
proof
  fix vs :: "'a list" and b :: delete_builder
  assume len: "length vs = holes (delete_template b)"
  then show "\<exists>f. delete_build b vs = Some f \<and> flat f \<and> the_items f = fill (delete_template b) vs"
    unfolding holes_templates
    by (simp add: delete_build_def Let_def emits_lists delete_template_def fill_sep_eqs fill_tail)
qed (simp add: delete_build_def)

section \<open>Properties\<close>

lemma render_flat:
  assumes "builder_flat b"
  shows "render b = Some (print_items 1 (select_items b), select_values b)"
  using select_build_items [OF assms] by (simp add: render_def build_flat item_values_select_items)

text \<open>A SELECT over flat fragments renders without panic; its text is the clause list
  (columns, FROM, joins, WHERE, ORDER BY, LIMIT, OFFSET) with identifiers quoted and values as
  consecutive placeholders, and the bound values are those of the columns, the joins, the
  conditions, the orderings, then the limit and the offset, in that order.\<close>

theorem select_render:
  assumes "builder_flat b"
  shows "render b = Some (print_items 1 (select_items b), select_values b)"
  using assms by (rule render_flat)

definition example_select :: "(unit, unit) pg_value sql_builder" where
  "example_select =
     limit (and_where (where_clause (column (table_alias (sb_from ''public'' ''users'') ''u'') (ident ''id'') None)
        (append_frag (push_raw (ident ''a'') '' = '') (param (PgBool True))))
        (append_frag (push_raw (ident ''b'') '' = '') (param (PgText ''x'')))) 20"

theorem select_render_witness:
  "builder_flat example_select \<and>
   map_option snd (render example_select) = Some [PgBool True, PgText ''x'', PgInt 20]"
proof -
  have flat: "builder_flat example_select"
    by (simp add: example_select_def builder_flat_def limit_def and_where_def where_clause_def
        column_def table_alias_def sb_from_def)
  have "select_values example_select = [PgBool True, PgText ''x'', PgInt 20]"
    by (simp add: example_select_def select_values_def limit_def and_where_def where_clause_def
        column_def table_alias_def sb_from_def frag_values_def)
  with flat select_render [OF flat] show ?thesis by simp
qed

text \<open>\<open>InsertBuilder::build\<close> panics exactly when the number of values differs from the number
  of columns; otherwise the built statement has a text determined by the schema, table and
  columns alone and binds exactly the given values in column order.\<close>

theorem insert_statement:
  "(case insert_build b vs of
      None \<Rightarrow> length vs \<noteq> length (ib_columns b)
    | Some f \<Rightarrow> length vs = length (ib_columns b) \<and> build f = Some (print_items 1 (insert_template b), vs))"
  using ins.stmt_renders [of vs b] ins.stmt_defined_iff [of b vs] by (auto split: option.splits)

text \<open>\<open>UpdateBuilder::build\<close> panics exactly when one of the two value vectors does not match
  its columns; otherwise it binds the SET values first and the WHERE values after them, and the
  text does not depend on any value.\<close>

theorem update_statement:
  "(case update_build b ss ws of
      None \<Rightarrow> \<not> (length ss = length (ub_set_columns b) \<and> length ws = length (ub_where_columns b))
    | Some f \<Rightarrow> length ss = length (ub_set_columns b) \<and> length ws = length (ub_where_columns b) \<and>
        build f = Some (print_items 1 (update_template b), ss @ ws))"
proof (cases "length ss = length (ub_set_columns b) \<and> length ws = length (ub_where_columns b)")
  case True
  then show ?thesis using upd.stmt_renders [of "ss @ ws" b] by (auto split: option.splits)
qed (auto simp: update_build_def)

text \<open>\<open>DeleteBuilder::build\<close> panics exactly on a length mismatch and otherwise binds the key
  values in the order of the key columns, under a text that does not depend on them.\<close>

theorem delete_statement:
  "(case delete_build b ws of
      None \<Rightarrow> length ws \<noteq> length (db_where_columns b)
    | Some f \<Rightarrow> length ws = length (db_where_columns b) \<and> build f = Some (print_items 1 (delete_template b), ws))"
  using del.stmt_renders [of ws b] del.stmt_defined_iff [of b ws] by (auto split: option.splits)

text \<open>\<open>debug_format\<close> does not annotate a tenth placeholder correctly: the replacement of
  \<open>$1\<close> also rewrites the first two characters of \<open>$10\<close>.\<close>

theorem debug_format_tenth_placeholder:
  "debug_format (\<lambda>v. ''v'') ''LIMIT $10'' (replicate 10 ()) = ''LIMIT $1 /* v */0 /* v */''"
  by code_simp

end
