(* ===== verification/Core_Plan.thy ===== *)
theory Core_Plan
  imports Magna_Types
begin

text \<open>
  \<^verbatim>\<open>magna-core\<close>: steps (\<^verbatim>\<open>step.rs\<close>), fingerprints (\<^verbatim>\<open>fingerprint.rs\<close>) and the planner
  (\<^verbatim>\<open>planner.rs\<close>). The planner stores its graph in the crate \<^verbatim>\<open>petgraph\<close>, which is a parameter
  here: a record of the operations the code calls, with the documented behaviour of each as
  the laws of the locale \<open>petgraph_laws\<close>. \<open>Panic\<close> is the failed \<^verbatim>\<open>map[&key]\<close> or \<^verbatim>\<open>expect\<close>.
\<close>

section \<open>Steps\<close>

text \<open>A type-erased value: \<^verbatim>\<open>Arc::new(())\<close>, an error message, or a step's own value.\<close>

datatype 'v any = AnyUnit | AnyString string | AnyValue 'v

record 'v step_output =
  out_values :: "'v any list"
  out_flags :: "step_flags list"

definition from_values :: "'v any list \<Rightarrow> 'v step_output" where
  "from_values vs = \<lparr>out_values = vs, out_flags = replicate (length vs) FLAG_NONE\<rparr>"

definition out_len :: "'v step_output \<Rightarrow> nat" where
  "out_len o' = length (out_values o')"

type_synonym type_id = nat

record step_fingerprint =
  fp_type_id :: type_id
  fp_dep_ids :: "step_id list"
  fp_config_hash :: "64 word"

text \<open>\<^verbatim>\<open>StepFingerprint::new\<close>; \<open>hash\<close> is the default hasher applied to the configuration.\<close>

definition fingerprint_new :: "('cfg \<Rightarrow> 64 word) \<Rightarrow> type_id \<Rightarrow> step_id list \<Rightarrow> 'cfg \<Rightarrow> step_fingerprint" where
  "fingerprint_new hash ty deps config =
     \<lparr>fp_type_id = ty, fp_dep_ids = deps, fp_config_hash = hash config\<rparr>"

text \<open>What awaiting a spawned step gives: its result, or the failure of the task itself.\<close>

datatype 'v task_result = Finished "fw_graph_error + 'v step_output" | JoinFailed string

text \<open>An \<^verbatim>\<open>Arc<dyn ExecutableStep>\<close>: its methods as fields. \<open>'c\<close> is the execution context.\<close>

record ('c, 'v) exec_step =
  st_id :: step_id
  st_deps :: "step_id list"
  st_unary :: bool
  st_fingerprint :: step_fingerprint
  st_execute :: "'c \<Rightarrow> 'v step_output list \<Rightarrow> 'v task_result"

section \<open>The graph library\<close>

record ('g, 'i) petgraph =
  g_new :: 'g
  g_add_node :: "'g \<Rightarrow> step_id \<Rightarrow> 'g \<times> 'i"
  g_add_edge :: "'g \<Rightarrow> 'i \<Rightarrow> 'i \<Rightarrow> 'g"
  g_remove_node :: "'g \<Rightarrow> 'i \<Rightarrow> 'g"
  g_clear_edges :: "'g \<Rightarrow> 'g"
  g_node_indices :: "'g \<Rightarrow> 'i list"
  g_index :: "'g \<Rightarrow> 'i \<Rightarrow> step_id"
  g_incoming :: "'g \<Rightarrow> 'i \<Rightarrow> 'i list"
  g_toposort :: "'g \<Rightarrow> 'i + 'i list"

section \<open>The planner\<close>

datatype plan_fail = Fail fw_graph_error | Panic

type_synonym ('c, 'v) step_map = "step_id \<rightharpoonup> ('c, 'v) exec_step"

record ('g, 'i, 'c, 'v) execution_plan =
  ep_graph :: 'g
  ep_node_map :: "step_id \<rightharpoonup> 'i"
  ep_steps :: "('c, 'v) step_map"
  ep_batch_size :: nat

definition get_step :: "('g, 'i, 'c, 'v) execution_plan \<Rightarrow> step_id \<Rightarrow> ('c, 'v) exec_step option" where
  "get_step plan i = ep_steps plan i"

text \<open>\<^verbatim>\<open>rebuild_node_map\<close>: clear, then insert every node index under its weight.\<close>

fun insert_indices :: "('g, 'i) petgraph \<Rightarrow> 'g \<Rightarrow> 'i list \<Rightarrow> (step_id \<rightharpoonup> 'i) \<Rightarrow> (step_id \<rightharpoonup> 'i)" where
  "insert_indices G g [] m = m"
| "insert_indices G g (i # is) m = insert_indices G g is (m(g_index G g i \<mapsto> i))"

definition rebuild_node_map :: "('g, 'i) petgraph \<Rightarrow> ('g, 'i, 'c, 'v) execution_plan \<Rightarrow>
    ('g, 'i, 'c, 'v) execution_plan" where
  "rebuild_node_map G plan =
     plan\<lparr>ep_node_map := insert_indices G (ep_graph plan) (g_node_indices G (ep_graph plan)) Map.empty\<rparr>"

definition remove_step :: "('g, 'i) petgraph \<Rightarrow> ('g, 'i, 'c, 'v) execution_plan \<Rightarrow> step_id \<Rightarrow>
    ('g, 'i, 'c, 'v) execution_plan" where
  "remove_step G plan i =
     (case ep_node_map plan i of
        None \<Rightarrow> plan
      | Some idx \<Rightarrow>
          rebuild_node_map G
            (plan\<lparr>ep_node_map := (ep_node_map plan)(i := None),
                  ep_graph := g_remove_node G (ep_graph plan) idx,
                  ep_steps := (ep_steps plan)(i := None)\<rparr>))"

definition dependencies_of :: "('g, 'i) petgraph \<Rightarrow> ('g, 'i, 'c, 'v) execution_plan \<Rightarrow> step_id \<Rightarrow>
    step_id list" where
  "dependencies_of G plan i =
     (case ep_node_map plan i of
        None \<Rightarrow> []
      | Some idx \<Rightarrow> map (g_index G (ep_graph plan)) (g_incoming G (ep_graph plan) idx))"

record ('c, 'v) planner =
  pl_steps :: "('c, 'v) exec_step list"
  pl_batch_size :: nat

definition planner_new :: "nat \<Rightarrow> ('c, 'v) planner" where
  "planner_new n = \<lparr>pl_steps = [], pl_batch_size = n\<rparr>"

definition register :: "('c, 'v) planner \<Rightarrow> ('c, 'v) exec_step \<Rightarrow> ('c, 'v) planner" where
  "register p s = p\<lparr>pl_steps := pl_steps p @ [s]\<rparr>"

fun add_nodes :: "('g, 'i) petgraph \<Rightarrow> ('c, 'v) exec_step list \<Rightarrow>
    'g \<times> (step_id \<rightharpoonup> 'i) \<times> ('c, 'v) step_map \<Rightarrow> 'g \<times> (step_id \<rightharpoonup> 'i) \<times> ('c, 'v) step_map" where
  "add_nodes G [] acc = acc"
| "add_nodes G (s # ss) (g, nm, sm) =
     (case g_add_node G g (st_id s) of
        (g', idx) \<Rightarrow> add_nodes G ss (g', nm(st_id s \<mapsto> idx), sm(st_id s \<mapsto> s)))"

fun add_dep_edges :: "('g, 'i) petgraph \<Rightarrow> (step_id \<rightharpoonup> 'i) \<Rightarrow> 'i \<Rightarrow> step_id list \<Rightarrow> 'g \<Rightarrow> plan_fail + 'g" where
  "add_dep_edges G nm idx [] g = Inr g"
| "add_dep_edges G nm idx (d # ds) g =
     (case nm d of
        None \<Rightarrow> Inl (Fail (StepNotFound d))
      | Some dep_idx \<Rightarrow> add_dep_edges G nm idx ds (g_add_edge G g dep_idx idx))"

fun add_edges :: "('g, 'i) petgraph \<Rightarrow> (step_id \<rightharpoonup> 'i) \<Rightarrow> ('c, 'v) exec_step list \<Rightarrow> 'g \<Rightarrow> plan_fail + 'g" where
  "add_edges G nm [] g = Inr g"
| "add_edges G nm (s # ss) g =
     (case nm (st_id s) of
        None \<Rightarrow> Inl Panic
      | Some idx \<Rightarrow> rbind (add_dep_edges G nm idx (st_deps s) g) (add_edges G nm ss))"

definition planner_build :: "('g, 'i) petgraph \<Rightarrow> ('c, 'v) planner \<Rightarrow>
    plan_fail + ('g, 'i, 'c, 'v) execution_plan" where
  "planner_build G p =
     (case add_nodes G (pl_steps p) (g_new G, Map.empty, Map.empty) of
        (g, nm, sm) \<Rightarrow>
          rbind (add_edges G nm (pl_steps p) g) (\<lambda>g.
            case g_toposort G g of
              Inl c \<Rightarrow> Inl (Fail (PlanCycle [g_index G g c]))
            | Inr _ \<Rightarrow> Inr \<lparr>ep_graph = g, ep_node_map = nm, ep_steps = sm, ep_batch_size = pl_batch_size p\<rparr>))"

section \<open>Documented behaviour of the graph library\<close>

definition edge_rel :: "('g, 'i) petgraph \<Rightarrow> 'g \<Rightarrow> ('i \<times> 'i) set" where
  "edge_rel G g = {(a, b). b \<in> set (g_node_indices G g) \<and> a \<in> set (g_incoming G g b)}"

text \<open>\<open>ok\<close> holds of the graphs the library's operations produce. \<open>add_node\<close> gives a fresh
  index; \<open>remove_node\<close> takes one node weight away but may renumber the others; \<open>toposort\<close>
  lists every node after its predecessors, or names a node on a cycle.\<close>

locale petgraph_laws =
  fixes G :: "('g, 'i) petgraph" and ok :: "'g \<Rightarrow> bool"
  assumes ok_new: "ok (g_new G)" and indices_new: "g_node_indices G (g_new G) = []"
    and distinct_indices: "ok g \<Longrightarrow> distinct (g_node_indices G g)"
    and incoming_indices: "ok g \<Longrightarrow> i \<in> set (g_node_indices G g) \<Longrightarrow>
      set (g_incoming G g i) \<subseteq> set (g_node_indices G g)"
    and add_node: "ok g \<Longrightarrow> g_add_node G g w = (g', i) \<Longrightarrow>
      ok g' \<and> i \<notin> set (g_node_indices G g) \<and> set (g_node_indices G g') = insert i (set (g_node_indices G g)) \<and>
      g_index G g' i = w \<and> g_incoming G g' i = [] \<and>
      (\<forall>j \<in> set (g_node_indices G g). g_index G g' j = g_index G g j \<and> g_incoming G g' j = g_incoming G g j)"
    and add_edge: "ok g \<Longrightarrow> i \<in> set (g_node_indices G g) \<Longrightarrow> j \<in> set (g_node_indices G g) \<Longrightarrow>
      ok (g_add_edge G g i j) \<and> g_node_indices G (g_add_edge G g i j) = g_node_indices G g \<and>
      g_index G (g_add_edge G g i j) = g_index G g \<and>
      set (g_incoming G (g_add_edge G g i j) j) = insert i (set (g_incoming G g j)) \<and>
      (\<forall>k. k \<noteq> j \<longrightarrow> g_incoming G (g_add_edge G g i j) k = g_incoming G g k)"
    and clear_edges: "ok g \<Longrightarrow>
      ok (g_clear_edges G g) \<and> g_node_indices G (g_clear_edges G g) = g_node_indices G g \<and>
      g_index G (g_clear_edges G g) = g_index G g \<and>
      (\<forall>k \<in> set (g_node_indices G g). g_incoming G (g_clear_edges G g) k = [])"
    and remove_node: "ok g \<Longrightarrow> i \<in> set (g_node_indices G g) \<Longrightarrow>
      ok (g_remove_node G g i) \<and>
      (\<exists>f. bij_betw f (set (g_node_indices G (g_remove_node G g i))) (set (g_node_indices G g) - {i}) \<and>
           (\<forall>k \<in> set (g_node_indices G (g_remove_node G g i)).
              g_index G (g_remove_node G g i) k = g_index G g (f k)))"
    and toposort_Inr: "ok g \<Longrightarrow> g_toposort G g = Inr is \<Longrightarrow>
      distinct is \<and> set is = set (g_node_indices G g) \<and> topo_order (\<lambda>i. set (g_incoming G g i)) {} is"
    and toposort_Inl: "ok g \<Longrightarrow> g_toposort G g = Inl c \<Longrightarrow>
      c \<in> set (g_node_indices G g) \<and> (c, c) \<in> (edge_rel G g)\<^sup>+"

section \<open>Plan invariant\<close>

text \<open>The node map is the inverse of the node weights, and covers exactly the steps, each
  stored under its own identifier.\<close>

definition plan_inv :: "('g \<Rightarrow> bool) \<Rightarrow> ('g, 'i) petgraph \<Rightarrow> ('g, 'i, 'c, 'v) execution_plan \<Rightarrow> bool" where
  "plan_inv ok G plan \<longleftrightarrow> ok (ep_graph plan) \<and>
     (\<forall>x idx. ep_node_map plan x = Some idx \<longleftrightarrow>
        idx \<in> set (g_node_indices G (ep_graph plan)) \<and> g_index G (ep_graph plan) idx = x) \<and>
     dom (ep_node_map plan) = dom (ep_steps plan) \<and>
     (\<forall>x s. ep_steps plan x = Some s \<longrightarrow> st_id s = x)"

text \<open>The graph's edges are the declared dependencies, read through a renaming \<open>\<rho>\<close>.\<close>

definition edges_match :: "('g, 'i) petgraph \<Rightarrow> (step_id \<Rightarrow> step_id) \<Rightarrow>
    ('g, 'i, 'c, 'v) execution_plan \<Rightarrow> bool" where
  "edges_match G \<rho> plan \<longleftrightarrow>
     (\<forall>x s. ep_steps plan x = Some s \<longrightarrow> set (dependencies_of G plan x) = \<rho> ` set (st_deps s))"

definition deps_closed :: "(step_id \<Rightarrow> step_id) \<Rightarrow> ('c, 'v) step_map \<Rightarrow> bool" where
  "deps_closed \<rho> sm \<longleftrightarrow> (\<forall>x s. sm x = Some s \<longrightarrow> \<rho> ` set (st_deps s) \<subseteq> dom sm)"

definition step_map_of :: "('c, 'v) exec_step list \<Rightarrow> ('c, 'v) step_map" where
  "step_map_of ss = map_of (map (\<lambda>s. (st_id s, s)) ss)"

lemma step_map_of_Some:
  "distinct (map st_id ss) \<Longrightarrow> step_map_of ss x = Some s \<longleftrightarrow> s \<in> set ss \<and> st_id s = x"
  unfolding step_map_of_def by (induction ss) (auto simp: image_iff)

lemma dom_step_map_of: "dom (step_map_of ss) = st_id ` set ss"
  by (auto simp: step_map_of_def dom_map_of_conv_image_fst image_image)

section \<open>Building a plan\<close>

text \<open>The part of the invariant that \<^verbatim>\<open>add_nodes\<close> establishes, before any edge is added.\<close>

definition node_inv :: "('g \<Rightarrow> bool) \<Rightarrow> ('g, 'i) petgraph \<Rightarrow> 'g \<Rightarrow> (step_id \<rightharpoonup> 'i) \<Rightarrow> bool" where
  "node_inv ok G g nm \<longleftrightarrow> ok g \<and>
     (\<forall>x idx. nm x = Some idx \<longleftrightarrow> idx \<in> set (g_node_indices G g) \<and> g_index G g idx = x)"

lemma node_invD:
  "node_inv ok G g nm \<Longrightarrow> ok g"
  "node_inv ok G g nm \<Longrightarrow> nm x = Some i \<Longrightarrow> i \<in> set (g_node_indices G g)"
  "node_inv ok G g nm \<Longrightarrow> nm x = Some i \<Longrightarrow> g_index G g i = x"
  "node_inv ok G g nm \<Longrightarrow> i \<in> set (g_node_indices G g) \<Longrightarrow> nm (g_index G g i) = Some i"
  by (simp_all add: node_inv_def)

text \<open>The predecessors of every node, as step identifiers.\<close>

definition preds :: "('g, 'i) petgraph \<Rightarrow> 'g \<Rightarrow> 'i \<Rightarrow> step_id set" where
  "preds G g i = g_index G g ` set (g_incoming G g i)"

definition missing_dep :: "('c, 'v) exec_step list \<Rightarrow> step_id option" where
  "missing_dep ss = find (\<lambda>d. d \<notin> st_id ` set ss) (concat (map st_deps ss))"

text \<open>Who depends on whom among the registered steps.\<close>

definition dep_rel :: "('c, 'v) exec_step list \<Rightarrow> (step_id \<times> step_id) set" where
  "dep_rel ss = {(d, x). \<exists>s \<in> set ss. st_id s = x \<and> d \<in> set (st_deps s)}"

context petgraph_laws
begin

lemma add_nodes_inv:
  assumes "node_inv ok G g nm" and "\<forall>i \<in> set (g_node_indices G g). g_incoming G g i = []"
    and "distinct (map st_id ss)" and "st_id ` set ss \<inter> dom nm = {}"
    and "add_nodes G ss (g, nm, sm) = (g', nm', sm')"
  shows "node_inv ok G g' nm' \<and> (\<forall>i \<in> set (g_node_indices G g'). g_incoming G g' i = []) \<and>
    dom nm' = dom nm \<union> st_id ` set ss \<and> sm' = sm ++ step_map_of ss"
  using assms
proof (induction ss arbitrary: g nm sm)
  case Nil
  then show ?case by (simp add: step_map_of_def)
next
  case (Cons s ss)
  obtain h i where hi: "g_add_node G g (st_id s) = (h, i)" by fastforce
  note law = add_node [OF _ hi]
  have fresh: "nm (st_id s) = None" using Cons.prems(4) by auto
  have okg: "ok g" and nm: "\<And>x j. nm x = Some j \<longleftrightarrow> j \<in> set (g_node_indices G g) \<and> g_index G g j = x"
    using Cons.prems(1) by (auto simp: node_inv_def)
  have new: "g_index G g j \<noteq> st_id s" if "j \<in> set (g_node_indices G g)" for j
    using that fresh nm [of "st_id s" j] by auto
  have inv: "node_inv ok G h (nm(st_id s \<mapsto> i))"
    using law [OF okg] nm new unfolding node_inv_def by auto
  have "node_inv ok G g' nm' \<and> (\<forall>i \<in> set (g_node_indices G g'). g_incoming G g' i = []) \<and>
    dom nm' = dom (nm(st_id s \<mapsto> i)) \<union> st_id ` set ss \<and> sm' = sm(st_id s \<mapsto> s) ++ step_map_of ss"
  proof (rule Cons.IH [OF inv])
    show "\<forall>i \<in> set (g_node_indices G h). g_incoming G h i = []"
      using law Cons.prems(1,2) by (auto simp: node_inv_def)
    show "distinct (map st_id ss)" using Cons.prems(3) by simp
    show "st_id ` set ss \<inter> dom (nm(st_id s \<mapsto> i)) = {}"
      using Cons.prems(3,4) by (auto simp: image_iff)
    show "add_nodes G ss (h, nm(st_id s \<mapsto> i), sm(st_id s \<mapsto> s)) = (g', nm', sm')"
      using Cons.prems(5) hi by simp
  qed
  moreover have "sm(st_id s \<mapsto> s) ++ step_map_of ss = sm ++ step_map_of (s # ss)"
  proof -
    have "st_id s \<notin> dom (step_map_of ss)" using Cons.prems(3) by (auto simp: dom_step_map_of)
    then show ?thesis by (auto simp: step_map_of_def map_add_def fun_eq_iff split: option.splits)
  qed
  ultimately show ?case by auto
qed

lemma add_dep_edges_ok:
  assumes "node_inv ok G g nm" and "idx \<in> set (g_node_indices G g)" and "set ds \<subseteq> dom nm"
  shows "\<exists>g'. add_dep_edges G nm idx ds g = Inr g' \<and> node_inv ok G g' nm \<and>
    g_node_indices G g' = g_node_indices G g \<and> g_index G g' = g_index G g \<and>
    preds G g' idx = preds G g idx \<union> set ds \<and> (\<forall>k. k \<noteq> idx \<longrightarrow> preds G g' k = preds G g k)"
  using assms
proof (induction ds arbitrary: g)
  case (Cons d ds)
  then obtain j where j: "nm d = Some j" by auto
  then have jin: "j \<in> set (g_node_indices G g)" and jd: "g_index G g j = d"
    using Cons.prems(1) by (auto simp: node_inv_def)
  let ?h = "g_add_edge G g j idx"
  have okg: "ok g" using Cons.prems(1) by (simp add: node_inv_def)
  note law = add_edge [OF okg jin Cons.prems(2)]
  have h: "node_inv ok G ?h nm" using Cons.prems(1) law by (simp add: node_inv_def)
  have "preds G ?h idx = insert d (preds G g idx)" "\<And>k. k \<noteq> idx \<Longrightarrow> preds G ?h k = preds G g k"
    using law jd by (auto simp: preds_def)
  moreover obtain g' where "add_dep_edges G nm idx ds ?h = Inr g'" "node_inv ok G g' nm"
    "g_node_indices G g' = g_node_indices G ?h" "g_index G g' = g_index G ?h"
    "preds G g' idx = preds G ?h idx \<union> set ds" "\<forall>k. k \<noteq> idx \<longrightarrow> preds G g' k = preds G ?h k"
    using Cons.IH [OF h] Cons.prems law by auto
  ultimately show ?case using j law by auto
qed auto

lemma add_dep_edges_missing:
  "find (\<lambda>d. d \<notin> dom nm) ds = Some d \<Longrightarrow> add_dep_edges G nm idx ds g = Inl (Fail (StepNotFound d))"
  by (induction ds arbitrary: g) (auto split: if_splits option.splits)

lemma add_edges_ok:
  assumes "node_inv ok G g nm" and "distinct (map st_id ss)" and "st_id ` set ss \<subseteq> dom nm"
    and "\<forall>s \<in> set ss. set (st_deps s) \<subseteq> dom nm" and "\<forall>s \<in> set ss. preds G g (the (nm (st_id s))) = {}"
  shows "\<exists>g'. add_edges G nm ss g = Inr g' \<and> node_inv ok G g' nm \<and>
    g_node_indices G g' = g_node_indices G g \<and>
    (\<forall>s \<in> set ss. preds G g' (the (nm (st_id s))) = set (st_deps s)) \<and>
    (\<forall>k. k \<notin> (the \<circ> nm \<circ> st_id) ` set ss \<longrightarrow> preds G g' k = preds G g k)"
  using assms
proof (induction ss arbitrary: g)
  case (Cons s ss)
  obtain idx where idx: "nm (st_id s) = Some idx" using Cons.prems(3) by auto
  have inj: "the (nm (st_id t)) \<noteq> idx" if "t \<in> set ss" for t
  proof -
    obtain k where "nm (st_id t) = Some k" using Cons.prems(3) \<open>t \<in> set ss\<close> by auto
    moreover have "st_id t \<noteq> st_id s" using Cons.prems(2) \<open>t \<in> set ss\<close> by (auto simp: image_iff)
    ultimately show ?thesis using idx Cons.prems(1) unfolding node_inv_def by (metis option.sel)
  qed
  have "idx \<in> set (g_node_indices G g)" using Cons.prems(1) idx by (auto simp: node_inv_def)
  then obtain h where h: "add_dep_edges G nm idx (st_deps s) g = Inr h" "node_inv ok G h nm"
      "g_node_indices G h = g_node_indices G g"
      "preds G h idx = set (st_deps s)" "\<forall>k. k \<noteq> idx \<longrightarrow> preds G h k = preds G g k"
    using add_dep_edges_ok [OF Cons.prems(1), of idx "st_deps s"] Cons.prems(4,5) idx by auto
  obtain g' where g': "add_edges G nm ss h = Inr g'" "node_inv ok G g' nm"
      "g_node_indices G g' = g_node_indices G h"
      "\<forall>s \<in> set ss. preds G g' (the (nm (st_id s))) = set (st_deps s)"
      "\<forall>k. k \<notin> (the \<circ> nm \<circ> st_id) ` set ss \<longrightarrow> preds G g' k = preds G h k"
    using Cons.IH [OF h(2)] Cons.prems h(5) inj by auto
  have "idx \<notin> (the \<circ> nm \<circ> st_id) ` set ss" using inj by auto
  then have "preds G g' idx = set (st_deps s)" using g'(5) h(4) by simp
  then show ?case using g' h idx by auto
qed auto

lemma add_edges_missing:
  assumes "node_inv ok G g nm" and "st_id ` set ss \<subseteq> dom nm"
    and "find (\<lambda>d. d \<notin> dom nm) (concat (map st_deps ss)) = Some d"
  shows "add_edges G nm ss g = Inl (Fail (StepNotFound d))"
  using assms
proof (induction ss arbitrary: g)
  case (Cons s ss)
  obtain idx where idx: "nm (st_id s) = Some idx" using Cons.prems(2) by auto
  then have mem: "idx \<in> set (g_node_indices G g)" using Cons.prems(1) by (auto simp: node_inv_def)
  show ?case
  proof (cases "set (st_deps s) \<subseteq> dom nm")
    case True
    then have "find (\<lambda>d. d \<notin> dom nm) (st_deps s) = None" by (auto simp: find_None_iff)
    then have "find (\<lambda>d. d \<notin> dom nm) (concat (map st_deps ss)) = Some d"
      using Cons.prems(3) by (simp add: find_append)
    with add_dep_edges_ok [OF Cons.prems(1) mem True] Cons.IH Cons.prems(2) idx show ?thesis by auto
  next
    case False
    then obtain e where e: "find (\<lambda>d. d \<notin> dom nm) (st_deps s) = Some e"
      by (cases "find (\<lambda>d. d \<notin> dom nm) (st_deps s)") (auto simp: find_None_iff)
    with Cons.prems(3) have "d = e" by (simp add: find_append)
    with e idx add_dep_edges_missing show ?thesis by simp
  qed
qed simp

lemma plan_inv_node_inv: "plan_inv ok G plan \<Longrightarrow> node_inv ok G (ep_graph plan) (ep_node_map plan)"
  by (simp add: plan_inv_def node_inv_def)

lemma dependencies_of_preds:
  "ep_node_map plan x = Some idx \<Longrightarrow> set (dependencies_of G plan x) = preds G (ep_graph plan) idx"
  by (simp add: dependencies_of_def preds_def)

lemma plan_invD:
  assumes "plan_inv ok G plan"
  shows "ok (ep_graph plan)" and "dom (ep_node_map plan) = dom (ep_steps plan)"
    and "\<And>x s. ep_steps plan x = Some s \<Longrightarrow> st_id s = x"
    and "\<And>x. x \<in> dom (ep_steps plan) \<Longrightarrow> \<exists>i. ep_node_map plan x = Some i"
    and "\<And>x. x \<in> dom (ep_steps plan) \<Longrightarrow>
      set (dependencies_of G plan x) = preds G (ep_graph plan) (the (ep_node_map plan x))"
proof -
  show dom: "dom (ep_node_map plan) = dom (ep_steps plan)" "ok (ep_graph plan)"
    and "\<And>x s. ep_steps plan x = Some s \<Longrightarrow> st_id s = x" using assms by (simp_all add: plan_inv_def)
  fix x assume "x \<in> dom (ep_steps plan)"
  then have "x \<in> dom (ep_node_map plan)" using dom(1) by simp
  then show ex: "\<exists>i. ep_node_map plan x = Some i" by (simp add: domD)
  then show "set (dependencies_of G plan x) = preds G (ep_graph plan) (the (ep_node_map plan x))"
    by (auto simp: dependencies_of_preds)
qed

text \<open>A topological order of the nodes is one of the step identifiers.\<close>

lemma topo_order_steps:
  assumes inv: "node_inv ok G g nm" and "topo_order (\<lambda>i. set (g_incoming G g i)) D is"
    and "set is \<subseteq> set (g_node_indices G g)"
  shows "topo_order (\<lambda>x. preds G g (the (nm x))) (g_index G g ` D) (map (g_index G g) is)"
  using assms(2,3)
proof (induction "is" arbitrary: D)
  case (Cons i "is")
  have "nm (g_index G g i) = Some i" using inv Cons.prems(2) by (simp add: node_inv_def)
  moreover have "topo_order (\<lambda>x. preds G g (the (nm x))) (g_index G g ` insert i D) (map (g_index G g) is)"
    by (rule Cons.IH) (use Cons.prems in auto)
  ultimately show ?case using Cons.prems(1) by (auto simp: preds_def)
qed simp

lemma node_inv_inj: "node_inv ok G g nm \<Longrightarrow> inj_on (g_index G g) (set (g_node_indices G g))"
proof (rule inj_onI)
  fix i j
  assume "node_inv ok G g nm" "i \<in> set (g_node_indices G g)" "j \<in> set (g_node_indices G g)"
    "g_index G g i = g_index G g j"
  then have "nm (g_index G g i) = Some i" "nm (g_index G g i) = Some j" by (simp_all add: node_inv_def)
  then show "i = j" by simp
qed

lemma node_inv_dom: "node_inv ok G g nm \<Longrightarrow> g_index G g ` set (g_node_indices G g) = dom nm"
  by (auto simp: node_inv_def dom_def)

lemma toposort_steps:
  assumes inv: "node_inv ok G g nm" and "g_toposort G g = Inr is"
  shows "distinct (map (g_index G g) is) \<and> set (map (g_index G g) is) = dom nm \<and>
    topo_order (\<lambda>x. preds G g (the (nm x))) {} (map (g_index G g) is)"
proof -
  have "ok g" using inv by (simp add: node_inv_def)
  from toposort_Inr [OF this assms(2)]
  have ord: "distinct is" "set is = set (g_node_indices G g)"
      "topo_order (\<lambda>i. set (g_incoming G g i)) {} is" by auto
  with topo_order_steps [OF inv ord(3)] node_inv_inj [OF inv] node_inv_dom [OF inv] show ?thesis
    by (simp add: distinct_map)
qed

lemma edge_rel_steps:
  assumes inv: "node_inv ok G g nm" and "(a, b) \<in> (edge_rel G g)\<^sup>+"
  shows "(g_index G g a, g_index G g b) \<in> {(d, x). x \<in> dom nm \<and> d \<in> preds G g (the (nm x))}\<^sup>+"
  using assms(2)
proof (induction rule: trancl_induct)
  case (base b)
  then have "nm (g_index G g b) = Some b" using inv by (auto simp: edge_rel_def node_inv_def)
  with base show ?case by (auto simp: edge_rel_def preds_def intro!: r_into_trancl)
next
  case (step b c)
  then have "nm (g_index G g c) = Some c" using inv by (auto simp: edge_rel_def node_inv_def)
  with step(2) have "(g_index G g b, g_index G g c) \<in> {(d, x). x \<in> dom nm \<and> d \<in> preds G g (the (nm x))}"
    by (auto simp: edge_rel_def preds_def)
  with step(3) show ?case by (rule trancl_into_trancl)
qed

lemma node_inv_new: "node_inv ok G (g_new G) Map.empty"
  using ok_new indices_new by (simp add: node_inv_def)

lemma add_nodes_new:
  assumes "distinct (map st_id ss)" and "add_nodes G ss (g_new G, Map.empty, Map.empty) = (g, nm, sm)"
  shows "node_inv ok G g nm" and "\<forall>i \<in> set (g_node_indices G g). preds G g i = {}"
    and "dom nm = st_id ` set ss" and "sm = step_map_of ss"
  using add_nodes_inv [OF node_inv_new _ assms(1) _ assms(2)] indices_new by (auto simp: preds_def)

lemma planner_build_missing:
  assumes "distinct (map st_id (pl_steps p))" and "missing_dep (pl_steps p) = Some d"
  shows "planner_build G p = Inl (Fail (StepNotFound d))"
proof -
  obtain g nm sm where n: "add_nodes G (pl_steps p) (g_new G, Map.empty, Map.empty) = (g, nm, sm)"
    by (metis prod_cases3)
  from add_nodes_new [OF assms(1) n] assms(2) have "add_edges G nm (pl_steps p) g = Inl (Fail (StepNotFound d))"
    by (intro add_edges_missing) (auto simp: missing_dep_def)
  with n show ?thesis by (simp add: planner_build_def)
qed

lemma missing_dep_None_iff:
  "missing_dep ss = None \<longleftrightarrow> (\<forall>s \<in> set ss. set (st_deps s) \<subseteq> st_id ` set ss)"
  by (auto simp: missing_dep_def find_None_iff)

text \<open>With every dependency registered, the graph before the cycle check has exactly the
  declared edges.\<close>

lemma planner_build_graph:
  assumes "distinct (map st_id (pl_steps p))" and "missing_dep (pl_steps p) = None"
  obtains g nm where "node_inv ok G g nm" and "dom nm = st_id ` set (pl_steps p)"
    and "\<And>s. s \<in> set (pl_steps p) \<Longrightarrow> preds G g (the (nm (st_id s))) = set (st_deps s)"
    and "planner_build G p = (case g_toposort G g of
           Inl c \<Rightarrow> Inl (Fail (PlanCycle [g_index G g c]))
         | Inr _ \<Rightarrow> Inr \<lparr>ep_graph = g, ep_node_map = nm, ep_steps = step_map_of (pl_steps p),
                          ep_batch_size = pl_batch_size p\<rparr>)"
proof -
  obtain g nm sm where n: "add_nodes G (pl_steps p) (g_new G, Map.empty, Map.empty) = (g, nm, sm)"
    by (metis prod_cases3)
  note new = add_nodes_new [OF assms(1) n]
  have "\<forall>s \<in> set (pl_steps p). preds G g (the (nm (st_id s))) = {}"
  proof
    fix s assume "s \<in> set (pl_steps p)"
    then obtain i where "nm (st_id s) = Some i" using new(3) by auto
    with new(2) node_invD(2) [OF new(1)] show "preds G g (the (nm (st_id s))) = {}" by simp
  qed
  with add_edges_ok [OF new(1) assms(1)] new(3) assms(2)
  obtain g' where "add_edges G nm (pl_steps p) g = Inr g'" "node_inv ok G g' nm"
      "\<forall>s \<in> set (pl_steps p). preds G g' (the (nm (st_id s))) = set (st_deps s)"
    by (auto simp: missing_dep_None_iff)
  with n new(3,4) show thesis by (intro that [of g' nm]) (auto simp: planner_build_def)
qed

lemma preds_dep_rel:
  assumes "dom nm = st_id ` set ss" and "\<And>s. s \<in> set ss \<Longrightarrow> preds G g (the (nm (st_id s))) = set (st_deps s)"
  shows "{(d, x). x \<in> dom nm \<and> d \<in> preds G g (the (nm x))} = dep_rel ss"
  using assms by (auto simp: dep_rel_def)

lemma planner_build_cycle:
  assumes "distinct (map st_id (pl_steps p))" and "missing_dep (pl_steps p) = None"
    and "planner_build G p = Inl e"
  shows "\<exists>c. e = Fail (PlanCycle [c]) \<and> (c, c) \<in> (dep_rel (pl_steps p))\<^sup>+"
proof -
  obtain g nm where g: "node_inv ok G g nm" "dom nm = st_id ` set (pl_steps p)"
    "\<And>s. s \<in> set (pl_steps p) \<Longrightarrow> preds G g (the (nm (st_id s))) = set (st_deps s)"
    and b: "planner_build G p = (case g_toposort G g of
           Inl c \<Rightarrow> Inl (Fail (PlanCycle [g_index G g c]))
         | Inr _ \<Rightarrow> Inr \<lparr>ep_graph = g, ep_node_map = nm, ep_steps = step_map_of (pl_steps p),
                          ep_batch_size = pl_batch_size p\<rparr>)"
    using planner_build_graph [OF assms(1,2)] by blast
  from b assms(3) obtain c where c: "g_toposort G g = Inl c" "e = Fail (PlanCycle [g_index G g c])"
    by (auto split: sum.splits)
  have "ok g" using g(1) by (simp add: node_inv_def)
  with toposort_Inl [OF _ c(1)] edge_rel_steps [OF g(1), of c c] preds_dep_rel [OF g(2,3)] c(2)
  show ?thesis by auto
qed

lemma planner_build_plan:
  assumes "distinct (map st_id (pl_steps p))" and "planner_build G p = Inr plan"
  shows "plan_inv ok G plan" and "edges_match G id plan" and "deps_closed id (ep_steps plan)"
    and "ep_steps plan = step_map_of (pl_steps p)" and "ep_batch_size plan = pl_batch_size p"
    and "acyclic (dep_rel (pl_steps p))"
proof -
  have miss: "missing_dep (pl_steps p) = None"
    using planner_build_missing [OF assms(1)] assms(2) by (cases "missing_dep (pl_steps p)") auto
  obtain g nm where g: "node_inv ok G g nm" "dom nm = st_id ` set (pl_steps p)"
    "\<And>s. s \<in> set (pl_steps p) \<Longrightarrow> preds G g (the (nm (st_id s))) = set (st_deps s)"
    and b: "planner_build G p = (case g_toposort G g of
           Inl c \<Rightarrow> Inl (Fail (PlanCycle [g_index G g c]))
         | Inr _ \<Rightarrow> Inr \<lparr>ep_graph = g, ep_node_map = nm, ep_steps = step_map_of (pl_steps p),
                          ep_batch_size = pl_batch_size p\<rparr>)"
    using planner_build_graph [OF assms(1) miss] by blast
  from b assms(2) obtain iss where ts: "g_toposort G g = Inr iss"
    and plan: "plan = \<lparr>ep_graph = g, ep_node_map = nm, ep_steps = step_map_of (pl_steps p),
                       ep_batch_size = pl_batch_size p\<rparr>"
    by (auto split: sum.splits)
  show "ep_steps plan = step_map_of (pl_steps p)" "ep_batch_size plan = pl_batch_size p"
    using plan by simp_all
  show "plan_inv ok G plan"
    using g(1,2) plan step_map_of_Some [OF assms(1)]
    by (auto simp: plan_inv_def node_inv_def dom_step_map_of)
  show "deps_closed id (ep_steps plan)"
    using miss plan step_map_of_Some [OF assms(1)]
    by (auto simp: deps_closed_def dom_step_map_of missing_dep_None_iff)
  show "edges_match G id plan"
    unfolding edges_match_def
  proof (intro allI impI)
    fix x s
    assume "ep_steps plan x = Some s"
    then have s: "s \<in> set (pl_steps p)" "st_id s = x" using plan step_map_of_Some [OF assms(1)] by auto
    then obtain i where "nm x = Some i" using g(2) by auto
    with s g(3) [of s] plan dependencies_of_preds [of plan x i]
    show "set (dependencies_of G plan x) = id ` set (st_deps s)" by simp
  qed
  have "topo_order (\<lambda>x. preds G g (the (nm x))) {} (map (g_index G g) iss)"
    "set (map (g_index G g) iss) = dom nm" using toposort_steps [OF g(1) ts] by auto
  then have "acyclic {(d, x). x \<in> dom nm \<and> d \<in> preds G g (the (nm x))}"
    using topo_order_acyclic [of "\<lambda>x. preds G g (the (nm x))" "map (g_index G g) iss"] by simp
  then show "acyclic (dep_rel (pl_steps p))" using preds_dep_rel [OF g(2,3)] by simp
qed

end

end
