(* ===== verification/Core_Optimizer.thy ===== *)
theory Core_Optimizer
  imports Core_Plan
begin

text \<open>
  \<^verbatim>\<open>magna-core/src/optimizer.rs\<close>: topological sorting, deduplication of steps by fingerprint and
  hoisting of unary steps. Hash maps are partial functions; the order in which
  \<^verbatim>\<open>plan.steps.keys()\<close> enumerates them is a parameter \<open>keys_of\<close> (locale \<open>hash_keys\<close>), so the
  results hold for every iteration order. The remap table is the association list of its
  insertions, newest first.
\<close>

type_synonym remap_table = "(step_id \<times> step_id) list"

definition resolve :: "remap_table \<Rightarrow> step_id \<Rightarrow> step_id" where
  "resolve remap i = (case map_of remap i of None \<Rightarrow> i | Some c \<Rightarrow> c)"

record ('g, 'i, 'c, 'v) optimized_plan =
  op_plan :: "('g, 'i, 'c, 'v) execution_plan"
  op_execution_order :: "step_id list"
  op_remap :: remap_table

definition topological_sort :: "('g, 'i) petgraph \<Rightarrow> ('g, 'i, 'c, 'v) execution_plan \<Rightarrow>
    plan_fail + step_id list" where
  "topological_sort G plan =
     (case g_toposort G (ep_graph plan) of
        Inl _ \<Rightarrow> Inl Panic
      | Inr is \<Rightarrow> Inr (map (g_index G (ep_graph plan)) is))"

definition remapped_fingerprint :: "remap_table \<Rightarrow> ('c, 'v) exec_step \<Rightarrow> step_fingerprint" where
  "remapped_fingerprint remap s =
     \<lparr>fp_type_id = fp_type_id (st_fingerprint s),
      fp_dep_ids = map (resolve remap) (st_deps s),
      fp_config_hash = fp_config_hash (st_fingerprint s)\<rparr>"

type_synonym dedup_state = "(step_fingerprint \<rightharpoonup> step_id) \<times> remap_table \<times> step_id list"

fun dedup_loop :: "('c, 'v) step_map \<Rightarrow> step_id list \<Rightarrow> dedup_state \<Rightarrow> dedup_state" where
  "dedup_loop steps [] st = st"
| "dedup_loop steps (x # xs) (seen, remap, to_remove) =
     (case steps x of
        None \<Rightarrow> dedup_loop steps xs (seen, remap, to_remove)
      | Some s \<Rightarrow>
          (let fp = remapped_fingerprint remap s in
           case seen fp of
             Some c \<Rightarrow> dedup_loop steps xs (seen, (x, c) # remap, to_remove @ [x])
           | None \<Rightarrow> dedup_loop steps xs (seen(fp \<mapsto> x), remap, to_remove)))"

fun add_remapped_edges :: "('g, 'i) petgraph \<Rightarrow> (step_id \<rightharpoonup> 'i) \<Rightarrow> remap_table \<Rightarrow> 'i \<Rightarrow>
    step_id list \<Rightarrow> 'g \<Rightarrow> 'g" where
  "add_remapped_edges G nm remap idx [] g = g"
| "add_remapped_edges G nm remap idx (d # ds) g =
     add_remapped_edges G nm remap idx ds
       (case nm (resolve remap d) of None \<Rightarrow> g | Some dep_idx \<Rightarrow> g_add_edge G g dep_idx idx)"

fun rebuild_edges_loop :: "('g, 'i) petgraph \<Rightarrow> ('c, 'v) step_map \<Rightarrow> (step_id \<rightharpoonup> 'i) \<Rightarrow> remap_table \<Rightarrow>
    step_id list \<Rightarrow> 'g \<Rightarrow> plan_fail + 'g" where
  "rebuild_edges_loop G steps nm remap [] g = Inr g"
| "rebuild_edges_loop G steps nm remap (x # xs) g =
     (case (steps x, nm x) of
        (Some s, Some idx) \<Rightarrow>
          rebuild_edges_loop G steps nm remap xs (add_remapped_edges G nm remap idx (st_deps s) g)
      | _ \<Rightarrow> Inl Panic)"

definition rebuild_edges_after_remap :: "('g, 'i) petgraph \<Rightarrow> (('c, 'v) step_map \<Rightarrow> step_id list) \<Rightarrow>
    ('g, 'i, 'c, 'v) execution_plan \<Rightarrow> remap_table \<Rightarrow> plan_fail + ('g, 'i, 'c, 'v) execution_plan" where
  "rebuild_edges_after_remap G keys_of plan remap =
     rbind (rebuild_edges_loop G (ep_steps plan) (ep_node_map plan) remap (keys_of (ep_steps plan))
              (g_clear_edges G (ep_graph plan)))
       (\<lambda>g. Inr (plan\<lparr>ep_graph := g\<rparr>))"

definition deduplicate :: "('g, 'i) petgraph \<Rightarrow> (('c, 'v) step_map \<Rightarrow> step_id list) \<Rightarrow>
    ('g, 'i, 'c, 'v) execution_plan \<Rightarrow> step_id list \<Rightarrow>
    plan_fail + ('g, 'i, 'c, 'v) execution_plan \<times> remap_table" where
  "deduplicate G keys_of plan order =
     (case dedup_loop (ep_steps plan) order (Map.empty, [], []) of
        (seen, remap, to_remove) \<Rightarrow>
          (let plan' = foldl (remove_step G) plan to_remove in
           if remap \<noteq> [] then rbind (rebuild_edges_after_remap G keys_of plan' remap) (\<lambda>p. Inr (p, remap))
           else Inr (plan', remap)))"

text \<open>The loop of \<^verbatim>\<open>hoist_unary_steps\<close> with its three accumulators.\<close>

fun hoist_loop :: "('g, 'i) petgraph \<Rightarrow> ('g, 'i, 'c, 'v) execution_plan \<Rightarrow> step_id list \<Rightarrow>
    step_id list \<times> step_id list \<times> step_id set \<Rightarrow> step_id list \<times> step_id list \<times> step_id set" where
  "hoist_loop G plan [] st = st"
| "hoist_loop G plan (x # xs) (hoisted, deferred, placed) =
     (case ep_steps plan x of
        None \<Rightarrow> hoist_loop G plan xs (hoisted, deferred, placed)
      | Some s \<Rightarrow>
          if st_unary s \<and> list_all (\<lambda>d. d \<in> placed) (dependencies_of G plan x)
          then hoist_loop G plan xs (hoisted @ [x], deferred, insert x placed)
          else hoist_loop G plan xs (hoisted, deferred @ [x], placed))"

definition hoist_unary_steps :: "('g, 'i) petgraph \<Rightarrow> ('g, 'i, 'c, 'v) execution_plan \<Rightarrow> step_id list \<Rightarrow>
    step_id list" where
  "hoist_unary_steps G plan order =
     (case hoist_loop G plan order ([], [], {}) of (hoisted, deferred, placed) \<Rightarrow> hoisted @ deferred)"

definition optimize :: "('g, 'i) petgraph \<Rightarrow> (('c, 'v) step_map \<Rightarrow> step_id list) \<Rightarrow>
    ('g, 'i, 'c, 'v) execution_plan \<Rightarrow> plan_fail + ('g, 'i, 'c, 'v) optimized_plan" where
  "optimize G keys_of plan =
     rbind (topological_sort G plan) (\<lambda>order.
     rbind (deduplicate G keys_of plan order) (\<lambda>(plan', remap).
     rbind (topological_sort G plan') (\<lambda>order'.
       Inr \<lparr>op_plan = plan', op_execution_order = hoist_unary_steps G plan' order', op_remap = remap\<rparr>)))"

text \<open>What any enumeration of a finite hash map's keys satisfies.\<close>

locale hash_keys =
  fixes keys_of :: "('c, 'v) step_map \<Rightarrow> step_id list"
  assumes keys_of_distinct: "finite (dom m) \<Longrightarrow> distinct (keys_of m)"
    and keys_of_dom: "finite (dom m) \<Longrightarrow> set (keys_of m) = dom m"

section \<open>Hoisting\<close>

text \<open>The accumulators of the hoisting loop: the hoisted prefix is in topological order, and
  deferring keeps the incoming order.\<close>

lemma hoist_loop_spec:
  assumes "hoist_loop G plan xs (h, df, pl) = (h', df', pl')"
    and "pl = set h" and "topo_order (\<lambda>x. set (dependencies_of G plan x)) {} h"
    and "topo_order (\<lambda>x. set (dependencies_of G plan x)) (set h) df"
    and "topo_order (\<lambda>x. set (dependencies_of G plan x)) (set h \<union> set df) xs"
    and "set xs \<subseteq> dom (ep_steps plan)"
  shows "topo_order (\<lambda>x. set (dependencies_of G plan x)) {} h' \<and>
    topo_order (\<lambda>x. set (dependencies_of G plan x)) (set h') df' \<and>
    mset (h' @ df') = mset (h @ df @ xs)"
  using assms
proof (induction xs arbitrary: h df pl)
  case (Cons x xs)
  let ?deps = "\<lambda>x. set (dependencies_of G plan x)"
  obtain s where s: "ep_steps plan x = Some s" using Cons.prems(6) by auto
  show ?case
  proof (cases "st_unary s \<and> list_all (\<lambda>d. d \<in> pl) (dependencies_of G plan x)")
    case True
    then have "?deps x \<subseteq> set h" using Cons.prems(2) by (auto simp: list_all_iff)
    moreover have "topo_order ?deps (set (h @ [x])) df"
      by (rule topo_order_mono [OF Cons.prems(4)]) auto
    moreover have "topo_order ?deps (set (h @ [x]) \<union> set df) xs"
      using Cons.prems(5) by (simp add: insert_commute)
    ultimately have "topo_order ?deps {} h' \<and> topo_order ?deps (set h') df' \<and>
        mset (h' @ df') = mset ((h @ [x]) @ df @ xs)"
      using Cons.prems True s by (intro Cons.IH [of "h @ [x]" df "insert x pl"]) (auto simp: topo_order_append)
    then show ?thesis by simp
  next
    case False
    have "topo_order ?deps {} h' \<and> topo_order ?deps (set h') df' \<and>
        mset (h' @ df') = mset (h @ (df @ [x]) @ xs)"
      using Cons.prems False s by (intro Cons.IH [of h "df @ [x]" pl]) (auto simp: topo_order_append)
    then show ?thesis by simp
  qed
qed auto

lemma hoist_unary_steps_spec:
  assumes "topo_order (\<lambda>x. set (dependencies_of G plan x)) {} order" and "set order \<subseteq> dom (ep_steps plan)"
  shows "topo_order (\<lambda>x. set (dependencies_of G plan x)) {} (hoist_unary_steps G plan order)"
    and "mset (hoist_unary_steps G plan order) = mset order"
proof -
  obtain h df pl where l: "hoist_loop G plan order ([], [], {}) = (h, df, pl)" by (metis prod_cases3)
  note hoist_loop_spec [OF l _ _ _ _ assms(2), simplified, OF assms(1)]
  with l show "topo_order (\<lambda>x. set (dependencies_of G plan x)) {} (hoist_unary_steps G plan order)"
    "mset (hoist_unary_steps G plan order) = mset order"
    by (auto simp: hoist_unary_steps_def topo_order_append)
qed

section \<open>Deduplication\<close>

definition declared_deps :: "('c, 'v) step_map \<Rightarrow> step_id \<Rightarrow> step_id set" where
  "declared_deps steps x = (case steps x of None \<Rightarrow> {} | Some s \<Rightarrow> set (st_deps s))"

definition canonical :: "remap_table \<Rightarrow> step_id \<Rightarrow> bool" where
  "canonical remap x \<longleftrightarrow> map_of remap x = None"

lemma resolve_canonical: "canonical remap x \<Longrightarrow> resolve remap x = x"
  by (simp add: canonical_def resolve_def)

lemma resolve_removed: "map_of remap x = Some c \<Longrightarrow> resolve remap x = c"
  by (simp add: resolve_def)

text \<open>After the steps \<open>P\<close>: every removed step names a surviving one with the same remapped
  fingerprint, and \<open>seen\<close> holds exactly the survivors under their fingerprints, so no two
  survivors share one.\<close>

definition dedup_inv :: "('c, 'v) step_map \<Rightarrow> step_id set \<Rightarrow> dedup_state \<Rightarrow> bool" where
  "dedup_inv steps P st \<longleftrightarrow>
     (case st of (seen, remap, to_remove) \<Rightarrow>
        P \<subseteq> dom steps \<and> (\<forall>x \<in> P. declared_deps steps x \<subseteq> P) \<and>
        set to_remove = dom (map_of remap) \<and> dom (map_of remap) \<subseteq> P \<and> (remap = [] \<longleftrightarrow> to_remove = []) \<and>
        (\<forall>x c. map_of remap x = Some c \<longrightarrow> c \<in> P \<and> canonical remap c \<and>
           remapped_fingerprint remap (the (steps x)) = remapped_fingerprint remap (the (steps c))) \<and>
        (\<forall>fp c. seen fp = Some c \<longleftrightarrow>
           c \<in> P \<and> canonical remap c \<and> remapped_fingerprint remap (the (steps c)) = fp))"

lemma dedup_invD:
  assumes "dedup_inv steps P (seen, remap, rm)"
  shows "P \<subseteq> dom steps" and "\<And>x. x \<in> P \<Longrightarrow> declared_deps steps x \<subseteq> P"
    and "set rm = dom (map_of remap)" and "dom (map_of remap) \<subseteq> P" and "remap = [] \<longleftrightarrow> rm = []"
    and "\<And>x c. map_of remap x = Some c \<Longrightarrow> c \<in> P" and "\<And>x c. map_of remap x = Some c \<Longrightarrow> canonical remap c"
    and "\<And>x c. map_of remap x = Some c \<Longrightarrow>
      remapped_fingerprint remap (the (steps x)) = remapped_fingerprint remap (the (steps c))"
    and "\<And>fp c. seen fp = Some c \<longleftrightarrow>
      c \<in> P \<and> canonical remap c \<and> remapped_fingerprint remap (the (steps c)) = fp"
  using assms unfolding dedup_inv_def prod.case by metis+

lemma dedup_invI:
  assumes "P \<subseteq> dom steps" and "\<And>x. x \<in> P \<Longrightarrow> declared_deps steps x \<subseteq> P"
    and "set rm = dom (map_of remap)" and "dom (map_of remap) \<subseteq> P" and "remap = [] \<longleftrightarrow> rm = []"
    and "\<And>x c. map_of remap x = Some c \<Longrightarrow> c \<in> P \<and> canonical remap c \<and>
      remapped_fingerprint remap (the (steps x)) = remapped_fingerprint remap (the (steps c))"
    and "\<And>fp c. seen fp = Some c \<longleftrightarrow>
      c \<in> P \<and> canonical remap c \<and> remapped_fingerprint remap (the (steps c)) = fp"
  shows "dedup_inv steps P (seen, remap, rm)"
  unfolding dedup_inv_def prod.case
  by (intro conjI ballI allI impI assms) (use assms(6) in blast)+

lemma remapped_fingerprint_extend:
  "x \<notin> set (st_deps s) \<Longrightarrow> remapped_fingerprint ((x, c) # remap) s = remapped_fingerprint remap s"
  by (auto simp: remapped_fingerprint_def resolve_def)

lemma dedup_inv_step_new:
  assumes inv: "dedup_inv steps P (seen, remap, rm)" and x: "x \<notin> P" "steps x = Some s"
    and deps: "declared_deps steps x \<subseteq> P" and new: "seen (remapped_fingerprint remap s) = None"
  shows "dedup_inv steps (insert x P) (seen(remapped_fingerprint remap s \<mapsto> x), remap, rm)"
proof (rule dedup_invI)
  note D = dedup_invD [OF inv]
  show "insert x P \<subseteq> dom steps" using D(1) x(2) by auto
  show "declared_deps steps y \<subseteq> insert x P" if "y \<in> insert x P" for y
    using that D(2) [of y] deps by auto
  show "set rm = dom (map_of remap)" "dom (map_of remap) \<subseteq> insert x P" "remap = [] \<longleftrightarrow> rm = []"
    using D(3,4,5) by auto
  show "c \<in> insert x P \<and> canonical remap c \<and>
      remapped_fingerprint remap (the (steps y)) = remapped_fingerprint remap (the (steps c))"
    if "map_of remap y = Some c" for y c
    using D(6,7,8) [OF that] by simp
  have "canonical remap x" using D(4) x(1) by (auto simp: canonical_def)
  moreover have "remapped_fingerprint remap (the (steps c)) \<noteq> remapped_fingerprint remap s"
    if "c \<in> P" "canonical remap c" for c
    using D(9) [of "remapped_fingerprint remap s" c] new that by auto
  ultimately show "(seen(remapped_fingerprint remap s \<mapsto> x)) fp = Some c \<longleftrightarrow>
      c \<in> insert x P \<and> canonical remap c \<and> remapped_fingerprint remap (the (steps c)) = fp" for fp c
    using D(9) [of fp c] x by auto
qed

lemma dedup_inv_step_dup:
  assumes inv: "dedup_inv steps P (seen, remap, rm)" and x: "x \<notin> P" "steps x = Some s"
    and deps: "declared_deps steps x \<subseteq> P" and dup: "seen (remapped_fingerprint remap s) = Some c"
  shows "dedup_inv steps (insert x P) (seen, (x, c) # remap, rm @ [x])"
proof (rule dedup_invI)
  note D = dedup_invD [OF inv]
  have c: "c \<in> P" "canonical remap c"
    "remapped_fingerprint remap (the (steps c)) = remapped_fingerprint remap s"
    using D(9) dup by auto
  have ext: "remapped_fingerprint ((x, c) # remap) (the (steps y)) = remapped_fingerprint remap (the (steps y))"
    if "y \<in> insert x P" for y
  proof (rule remapped_fingerprint_extend)
    have "declared_deps steps y \<subseteq> P" "y \<in> dom steps"
      using that D(1) D(2) [of y] deps x by auto
    then show "x \<notin> set (st_deps (the (steps y)))" using x(1) by (auto simp: declared_deps_def)
  qed
  have can: "canonical ((x, c) # remap) y \<longleftrightarrow> y \<noteq> x \<and> canonical remap y" for y
    by (auto simp: canonical_def)
  show "insert x P \<subseteq> dom steps" using D(1) x(2) by auto
  show "declared_deps steps y \<subseteq> insert x P" if "y \<in> insert x P" for y
    using that D(2) [of y] deps by auto
  show "set (rm @ [x]) = dom (map_of ((x, c) # remap))" "dom (map_of ((x, c) # remap)) \<subseteq> insert x P"
    "(x, c) # remap = [] \<longleftrightarrow> rm @ [x] = []" using D(3,4) by auto
  show "d \<in> insert x P \<and> canonical ((x, c) # remap) d \<and>
      remapped_fingerprint ((x, c) # remap) (the (steps y)) = remapped_fingerprint ((x, c) # remap) (the (steps d))"
    if yd: "map_of ((x, c) # remap) y = Some d" for y d
  proof (cases "y = x")
    case True
    moreover have "canonical ((x, c) # remap) c" using c(1,2) x(1) can by auto
    ultimately show ?thesis using yd c ext [of x] ext [of c] x by auto
  next
    case False
    with yd have y: "map_of remap y = Some d" by simp
    then have "y \<in> P" using D(4) by auto
    with D(6,7,8) [OF y] ext [of y] ext [of d] x(1) show ?thesis by (auto simp: can)
  qed
  show "seen fp = Some d \<longleftrightarrow> d \<in> insert x P \<and> canonical ((x, c) # remap) d \<and>
      remapped_fingerprint ((x, c) # remap) (the (steps d)) = fp" for fp d
    using D(9) [of fp d] ext [of d] x(1) by (auto simp: can)
qed

lemma dedup_loop_inv:
  assumes "dedup_inv steps P st" and "topo_order (declared_deps steps) P xs" and "distinct xs"
    and "set xs \<inter> P = {}" and "set xs \<subseteq> dom steps"
  shows "dedup_inv steps (P \<union> set xs) (dedup_loop steps xs st)"
  using assms
proof (induction xs arbitrary: P st)
  case (Cons x xs)
  obtain seen remap rm where st: "st = (seen, remap, rm)" by (cases st)
  obtain s where s: "steps x = Some s" using Cons.prems(5) by auto
  have x: "x \<notin> P" "declared_deps steps x \<subseteq> P" using Cons.prems by auto
  have inv: "dedup_inv steps P (seen, remap, rm)" using Cons.prems(1) st by simp
  have rest: "dedup_inv steps (insert x P \<union> set xs) (dedup_loop steps xs st')"
    if "dedup_inv steps (insert x P) st'" for st'
    by (rule Cons.IH [OF that]) (use Cons.prems in auto)
  show ?case
  proof (cases "seen (remapped_fingerprint remap s)")
    case None
    with rest [OF dedup_inv_step_new [OF inv x(1) s x(2) None]] st s show ?thesis by simp
  next
    case (Some c)
    with rest [OF dedup_inv_step_dup [OF inv x(1) s x(2) Some]] st s show ?thesis by simp
  qed
qed simp

lemma dedup_inv_init: "dedup_inv steps {} (Map.empty, [], [])"
  by (simp add: dedup_inv_def canonical_def)

text \<open>Dropping the removed steps from a topological order and reading dependencies through
  the remap gives a topological order of what is left.\<close>

lemma topo_order_canonical:
  assumes "topo_order deps D xs"
    and "\<And>x. x \<in> D \<union> set xs \<Longrightarrow> canonical remap (resolve remap x)"
    and "\<And>x us vs. xs = us @ x # vs \<Longrightarrow> resolve remap x \<in> D \<union> set us \<union> {x}"
    and "\<And>x. x \<in> D \<Longrightarrow> resolve remap x \<in> E" and "\<And>x. x \<in> D \<Longrightarrow> canonical remap x \<Longrightarrow> x \<in> E"
  shows "topo_order (\<lambda>x. resolve remap ` deps x) E (filter (canonical remap) xs)"
  using assms
proof (induction xs arbitrary: D E)
  case (Cons x xs)
  let ?E = "if canonical remap x then insert x E else E"
  have rx: "resolve remap x \<in> ?E"
  proof (cases "canonical remap x")
    case False
    then have "resolve remap x \<noteq> x" using Cons.prems(2) [of x] by auto
    then have "resolve remap x \<in> D" using Cons.prems(3) [of "[]" x xs] by simp
    with Cons.prems(2) [of x] Cons.prems(5) False show ?thesis by simp
  qed (simp add: resolve_canonical)
  have "topo_order (\<lambda>x. resolve remap ` deps x) ?E (filter (canonical remap) xs)"
  proof (rule Cons.IH [of "insert x D"])
    show "resolve remap y \<in> insert x D \<union> set us \<union> {y}" if "xs = us @ y # vs" for y us vs
      using Cons.prems(3) [of "x # us" y vs] that by auto
  qed (use Cons.prems rx in auto)
  moreover have "resolve remap ` deps x \<subseteq> E" using Cons.prems(1,4) by auto
  ultimately show ?case by (cases "canonical remap x") simp_all
qed simp

lemma dedup_loop_append: "dedup_loop steps (xs @ ys) st = dedup_loop steps ys (dedup_loop steps xs st)"
  by (induction steps xs st rule: dedup_loop.induct) (auto simp: Let_def split: option.splits)

lemma dedup_loop_frame:
  "dedup_loop steps xs (seen, remap, rm) = (seen', remap', rm') \<Longrightarrow> y \<notin> set xs \<Longrightarrow>
     map_of remap' y = map_of remap y"
  by (induction xs arbitrary: seen remap rm) (auto simp: Let_def split: option.splits)

text \<open>What one pass over a topological order of all the steps yields.\<close>

lemma dedup_loop_spec:
  assumes topo: "topo_order (declared_deps steps) {} order" and "distinct order" and "set order = dom steps"
    and loop: "dedup_loop steps order (Map.empty, [], []) = (seen, remap, rm)"
  shows "dedup_inv steps (dom steps) (seen, remap, rm)"
    and "topo_order (\<lambda>x. resolve remap ` declared_deps steps x) {} (filter (canonical remap) order)"
proof -
  have "dedup_inv steps ({} \<union> set order) (dedup_loop steps order (Map.empty, [], []))"
    by (rule dedup_loop_inv [OF dedup_inv_init topo]) (use assms in auto)
  then show inv: "dedup_inv steps (dom steps) (seen, remap, rm)" using assms by simp
  show "topo_order (\<lambda>x. resolve remap ` declared_deps steps x) {} (filter (canonical remap) order)"
  proof (rule topo_order_canonical [OF topo])
    show "canonical remap (resolve remap x)" for x
    proof (cases "map_of remap x")
      case None
      then show ?thesis by (simp add: resolve_def canonical_def)
    next
      case (Some c)
      with dedup_invD(7) [OF inv Some] show ?thesis by (simp add: resolve_removed)
    qed
    fix x us vs
    assume order: "order = us @ x # vs"
    obtain seen' remap' rm' where mid: "dedup_loop steps (us @ [x]) (Map.empty, [], []) = (seen', remap', rm')"
      by (metis prod_cases3)
    have "topo_order (declared_deps steps) {} (us @ [x])" using topo order by (simp add: topo_order_append)
    then have "dedup_inv steps ({} \<union> set (us @ [x])) (dedup_loop steps (us @ [x]) (Map.empty, [], []))"
      by (rule dedup_loop_inv [OF dedup_inv_init]) (use assms order in auto)
    then have inv': "dedup_inv steps (insert x (set us)) (seen', remap', rm')" using mid by simp
    have "dedup_loop steps vs (seen', remap', rm') = (seen, remap, rm)"
      using loop mid order dedup_loop_append [of steps "us @ [x]" vs] by simp
    then have "map_of remap x = map_of remap' x"
      by (rule dedup_loop_frame) (use assms(2) order in auto)
    with dedup_invD(6) [OF inv', of x] show "resolve remap x \<in> {} \<union> set us \<union> {x}"
      by (auto simp: resolve_def split: option.splits)
  qed auto
qed

section \<open>Removing the duplicates from the plan\<close>

context petgraph_laws
begin

lemma insert_indices_Some:
  assumes "inj_on (g_index G g) (set is)"
  shows "insert_indices G g is m x = Some i \<longleftrightarrow>
     i \<in> set is \<and> g_index G g i = x \<or> x \<notin> g_index G g ` set is \<and> m x = Some i"
  using assms
proof (induction "is" arbitrary: m)
  case (Cons j "is")
  have IH: "insert_indices G g is (m(g_index G g j \<mapsto> j)) x = Some i \<longleftrightarrow>
     i \<in> set is \<and> g_index G g i = x \<or> x \<notin> g_index G g ` set is \<and> (m(g_index G g j \<mapsto> j)) x = Some i"
    by (rule Cons.IH) (use Cons.prems in auto)
  have inj: "k = j" if "k \<in> set is" "g_index G g k = g_index G g j" for k
    using inj_onD [OF Cons.prems that(2)] that(1) by simp
  show ?case using IH inj by (auto split: if_splits)
qed simp

lemma rebuild_node_map_inv:
  assumes "ok (ep_graph plan)" and "inj_on (g_index G (ep_graph plan)) (set (g_node_indices G (ep_graph plan)))"
  shows "node_inv ok G (ep_graph plan) (ep_node_map (rebuild_node_map G plan))"
proof -
  let ?g = "ep_graph plan"
  have "insert_indices G ?g (g_node_indices G ?g) Map.empty x = Some i \<longleftrightarrow>
      i \<in> set (g_node_indices G ?g) \<and> g_index G ?g i = x" for x i
    by (simp add: insert_indices_Some [OF assms(2)])
  with assms(1) show ?thesis by (simp add: node_inv_def rebuild_node_map_def)
qed

lemma remove_step_inv:
  assumes inv: "plan_inv ok G plan"
  shows "plan_inv ok G (remove_step G plan x)"
    and "ep_steps (remove_step G plan x) = (ep_steps plan)(x := None)"
    and "ep_batch_size (remove_step G plan x) = ep_batch_size plan"
proof -
  show "ep_steps (remove_step G plan x) = (ep_steps plan)(x := None)"
  proof (cases "ep_node_map plan x")
    case None
    then have "x \<notin> dom (ep_steps plan)" using inv unfolding plan_inv_def by auto
    with None show ?thesis by (auto simp: remove_step_def)
  qed (simp add: remove_step_def rebuild_node_map_def)
  show "ep_batch_size (remove_step G plan x) = ep_batch_size plan"
    by (auto simp: remove_step_def rebuild_node_map_def split: option.splits)
  show "plan_inv ok G (remove_step G plan x)"
  proof (cases "ep_node_map plan x")
    case None
    with inv show ?thesis by (simp add: remove_step_def)
  next
    case (Some idx)
    let ?g = "ep_graph plan" and ?h = "g_remove_node G (ep_graph plan) idx"
    define plan' where "plan' = plan\<lparr>ep_node_map := (ep_node_map plan)(x := None), ep_graph := ?h,
        ep_steps := (ep_steps plan)(x := None)\<rparr>"
    note ni = plan_inv_node_inv [OF inv]
    have idx: "idx \<in> set (g_node_indices G ?g)" "g_index G ?g idx = x"
      using node_invD(2,3) [OF ni Some] by auto
    obtain f where okh: "ok ?h" and f: "bij_betw f (set (g_node_indices G ?h)) (set (g_node_indices G ?g) - {idx})"
      and w: "\<forall>k \<in> set (g_node_indices G ?h). g_index G ?h k = g_index G ?g (f k)"
      using remove_node [OF node_invD(1) [OF ni] idx(1)] by blast
    have inj: "inj_on (g_index G ?h) (set (g_node_indices G ?h))"
    proof (rule inj_onI)
      fix i j
      assume ij: "i \<in> set (g_node_indices G ?h)" "j \<in> set (g_node_indices G ?h)" "g_index G ?h i = g_index G ?h j"
      then have "f i \<in> set (g_node_indices G ?g)" "f j \<in> set (g_node_indices G ?g)"
        "g_index G ?g (f i) = g_index G ?g (f j)" using f w by (auto simp: bij_betw_def)
      then have "f i = f j" using node_inv_inj [OF ni] by (meson inj_onD)
      with ij f show "i = j" by (meson bij_betw_def inj_onD)
    qed
    have "g_index G ?h ` set (g_node_indices G ?h) = g_index G ?g ` (f ` set (g_node_indices G ?h))"
      using w by (auto simp: image_image)
    also have "\<dots> = g_index G ?g ` (set (g_node_indices G ?g) - {idx})" using f by (simp add: bij_betw_def)
    also have "\<dots> = dom (ep_node_map plan) - {x}"
      using node_inv_inj [OF ni] idx by (simp add: inj_on_image_set_diff node_inv_dom [OF ni])
    finally have dom: "g_index G ?h ` set (g_node_indices G ?h) = dom (ep_node_map plan) - {x}" .
    have ni': "node_inv ok G ?h (ep_node_map (rebuild_node_map G plan'))"
      using rebuild_node_map_inv [of plan'] okh inj by (simp add: plan'_def)
    have "remove_step G plan x = rebuild_node_map G plan'" by (simp add: remove_step_def Some plan'_def)
    moreover have "ep_graph (rebuild_node_map G plan') = ?h" "ep_steps (rebuild_node_map G plan') = (ep_steps plan)(x := None)"
      by (simp_all add: rebuild_node_map_def plan'_def)
    moreover have "dom (ep_node_map (rebuild_node_map G plan')) = dom (ep_steps plan) - {x}"
      using node_inv_dom [OF ni'] dom inv by (simp add: plan_inv_def)
    ultimately show ?thesis
      using ni' inv by (simp add: plan_inv_def node_inv_def)
  qed
qed

lemma remove_steps_inv:
  "plan_inv ok G plan \<Longrightarrow> plan_inv ok G (foldl (remove_step G) plan xs) \<and>
     ep_steps (foldl (remove_step G) plan xs) = ep_steps plan |` (- set xs) \<and>
     ep_batch_size (foldl (remove_step G) plan xs) = ep_batch_size plan"
proof (induction xs arbitrary: plan)
  case (Cons x xs)
  note r = remove_step_inv [OF Cons.prems, of x]
  have "((ep_steps plan)(x := None)) |` (- set xs) = ep_steps plan |` (- set (x # xs))"
    by (auto simp: restrict_map_def)
  with Cons.IH [OF r(1)] r(2,3) show ?case by (simp only: foldl_Cons simp_thms)
qed (simp add: restrict_map_def)

lemma add_remapped_edges_ok:
  assumes "node_inv ok G g nm" and "idx \<in> set (g_node_indices G g)" and "resolve remap ` set ds \<subseteq> dom nm"
  shows "node_inv ok G (add_remapped_edges G nm remap idx ds g) nm"
    and "preds G (add_remapped_edges G nm remap idx ds g) idx = preds G g idx \<union> resolve remap ` set ds"
    and "k \<noteq> idx \<Longrightarrow> preds G (add_remapped_edges G nm remap idx ds g) k = preds G g k"
proof -
  have "node_inv ok G (add_remapped_edges G nm remap idx ds g) nm \<and>
    preds G (add_remapped_edges G nm remap idx ds g) idx = preds G g idx \<union> resolve remap ` set ds \<and>
    (k \<noteq> idx \<longrightarrow> preds G (add_remapped_edges G nm remap idx ds g) k = preds G g k)"
    using assms
  proof (induction ds arbitrary: g)
    case (Cons d ds)
    then obtain j where j: "nm (resolve remap d) = Some j" by auto
    note jn = node_invD(2,3) [OF Cons.prems(1) j]
    let ?h = "g_add_edge G g j idx"
    note law = add_edge [OF node_invD(1) [OF Cons.prems(1)] jn(1) Cons.prems(2)]
    have h: "node_inv ok G ?h nm" "idx \<in> set (g_node_indices G ?h)"
      using Cons.prems law by (simp_all add: node_inv_def)
    have "preds G ?h idx = insert (resolve remap d) (preds G g idx)" "k \<noteq> idx \<Longrightarrow> preds G ?h k = preds G g k"
      using law jn by (auto simp: preds_def)
    with Cons.IH [OF h] Cons.prems(3) j show ?case by auto
  qed simp
  then show "node_inv ok G (add_remapped_edges G nm remap idx ds g) nm"
    "preds G (add_remapped_edges G nm remap idx ds g) idx = preds G g idx \<union> resolve remap ` set ds"
    "k \<noteq> idx \<Longrightarrow> preds G (add_remapped_edges G nm remap idx ds g) k = preds G g k" by auto
qed

lemma rebuild_edges_loop_ok:
  assumes "node_inv ok G g nm" and "distinct xs" and "set xs \<subseteq> dom nm" and "dom nm = dom steps"
    and "\<And>x. x \<in> set xs \<Longrightarrow> resolve remap ` declared_deps steps x \<subseteq> dom nm"
    and "\<And>x. x \<in> set xs \<Longrightarrow> preds G g (the (nm x)) = {}"
  shows "\<exists>g'. rebuild_edges_loop G steps nm remap xs g = Inr g' \<and> node_inv ok G g' nm \<and>
    (\<forall>x \<in> set xs. preds G g' (the (nm x)) = resolve remap ` declared_deps steps x) \<and>
    (\<forall>k. k \<notin> (the \<circ> nm) ` set xs \<longrightarrow> preds G g' k = preds G g k)"
  using assms
proof (induction xs arbitrary: g)
  case (Cons x xs)
  obtain idx where idx: "nm x = Some idx" using Cons.prems(3) by auto
  obtain s where s: "steps x = Some s" using Cons.prems(3,4) by auto
  have inj: "the (nm y) \<noteq> idx" if "y \<in> set xs" for y
  proof
    assume eq: "the (nm y) = idx"
    have "y \<in> dom nm" using that Cons.prems(3) by auto
    then obtain k where "nm y = Some k" by blast
    with eq have "nm y = Some idx" by simp
    with node_invD(3) [OF Cons.prems(1)] idx have "y = x" by metis
    with that Cons.prems(2) show False by simp
  qed
  let ?h = "add_remapped_edges G nm remap idx (st_deps s) g"
  have deps: "declared_deps steps x = set (st_deps s)" by (simp add: declared_deps_def s)
  have cl: "resolve remap ` set (st_deps s) \<subseteq> dom nm" using Cons.prems(5) [of x] deps by simp
  note h = add_remapped_edges_ok [OF Cons.prems(1) node_invD(2) [OF Cons.prems(1) idx] cl]
  obtain g' where g': "rebuild_edges_loop G steps nm remap xs ?h = Inr g'" "node_inv ok G g' nm"
      "\<forall>x \<in> set xs. preds G g' (the (nm x)) = resolve remap ` declared_deps steps x"
      "\<forall>k. k \<notin> (the \<circ> nm) ` set xs \<longrightarrow> preds G g' k = preds G ?h k"
    using Cons.IH [OF h(1)] Cons.prems h(3) inj by auto
  have "idx \<notin> (the \<circ> nm) ` set xs" using inj by auto
  then have "preds G g' idx = resolve remap ` declared_deps steps x"
    using g'(4) h(2) Cons.prems(6) [of x] idx deps by simp
  moreover have "preds G g' k = preds G g k" if "k \<notin> (the \<circ> nm) ` set (x # xs)" for k
    using that g'(4) h(3) idx by auto
  ultimately show ?case using g' idx s by auto
qed auto

lemma rebuild_edges_ok:
  assumes inv: "plan_inv ok G plan" and keys: "distinct (keys_of (ep_steps plan))"
      "set (keys_of (ep_steps plan)) = dom (ep_steps plan)"
    and closed: "deps_closed (resolve remap) (ep_steps plan)"
  shows "\<exists>plan'. rebuild_edges_after_remap G keys_of plan remap = Inr plan' \<and> plan_inv ok G plan' \<and>
    edges_match G (resolve remap) plan' \<and> ep_steps plan' = ep_steps plan \<and> ep_batch_size plan' = ep_batch_size plan"
proof -
  let ?g = "g_clear_edges G (ep_graph plan)" and ?nm = "ep_node_map plan" and ?sm = "ep_steps plan"
  note ni = plan_inv_node_inv [OF inv]
  note law = clear_edges [OF node_invD(1) [OF ni]]
  have g: "node_inv ok G ?g ?nm" using ni law by (simp add: node_inv_def)
  have dom: "dom ?nm = dom ?sm" using inv by (simp add: plan_inv_def)
  have "preds G ?g (the (?nm x)) = {}" if "x \<in> dom ?nm" for x
    using that law node_invD(2) [OF ni, of x] by (auto simp: preds_def)
  moreover have cl: "resolve remap ` declared_deps ?sm x \<subseteq> dom ?nm" if "x \<in> dom ?nm" for x
    using that closed dom by (fastforce simp: deps_closed_def declared_deps_def split: option.splits)
  ultimately obtain g' where g': "rebuild_edges_loop G ?sm ?nm remap (keys_of ?sm) ?g = Inr g'"
      "node_inv ok G g' ?nm" "\<forall>x \<in> dom ?sm. preds G g' (the (?nm x)) = resolve remap ` declared_deps ?sm x"
    using rebuild_edges_loop_ok [OF g keys(1), of ?sm remap] keys(2) dom by auto
  let ?plan' = "plan\<lparr>ep_graph := g'\<rparr>"
  have inv': "plan_inv ok G ?plan'" using inv g'(2) by (simp add: plan_inv_def node_inv_def)
  have "edges_match G (resolve remap) ?plan'"
    unfolding edges_match_def
  proof (intro allI impI)
    fix x s
    assume s: "ep_steps ?plan' x = Some s"
    then obtain i where i: "?nm x = Some i" using dom by auto
    with s g'(3) have "preds G g' i = resolve remap ` set (st_deps s)"
      by (auto simp: declared_deps_def dest!: bspec [of _ _ x])
    with dependencies_of_preds [of ?plan' x i] i
    show "set (dependencies_of G ?plan' x) = resolve remap ` set (st_deps s)" by simp
  qed
  with inv' g'(1) show ?thesis by (auto simp: rebuild_edges_after_remap_def)
qed

lemma topological_sort_ok:
  assumes inv: "plan_inv ok G plan" and "topological_sort G plan = Inr order"
  shows "distinct order" and "set order = dom (ep_steps plan)"
    and "topo_order (\<lambda>x. set (dependencies_of G plan x)) {} order"
proof -
  from assms(2) obtain iss where ts: "g_toposort G (ep_graph plan) = Inr iss"
    and order: "order = map (g_index G (ep_graph plan)) iss"
    by (auto simp: topological_sort_def split: sum.splits)
  note ni = plan_inv_node_inv [OF inv]
  note t = toposort_steps [OF ni ts]
  show "distinct order" "set order = dom (ep_steps plan)"
    using t order inv by (simp_all add: plan_inv_def)
  have "topo_order (\<lambda>x. preds G (ep_graph plan) (the (ep_node_map plan x))) {} order" using t order by simp
  then show "topo_order (\<lambda>x. set (dependencies_of G plan x)) {} order"
  proof (rule topo_order_cong)
    fix x assume "x \<in> set order"
    then show "set (dependencies_of G plan x) \<subseteq> preds G (ep_graph plan) (the (ep_node_map plan x))"
      using \<open>set order = dom (ep_steps plan)\<close> plan_invD(5) [OF inv] by simp
  qed
qed

text \<open>Sorting cannot fail when some topological order exists.\<close>

lemma topological_sort_total:
  assumes inv: "plan_inv ok G plan" and "topo_order (\<lambda>x. set (dependencies_of G plan x)) {} xs"
    and "set xs = dom (ep_steps plan)"
  shows "\<exists>order. topological_sort G plan = Inr order"
proof (cases "g_toposort G (ep_graph plan)")
  case (Inl c)
  note ni = plan_inv_node_inv [OF inv]
  let ?g = "ep_graph plan" and ?nm = "ep_node_map plan"
  have "(g_index G ?g c, g_index G ?g c) \<in> {(d, x). x \<in> dom ?nm \<and> d \<in> preds G ?g (the (?nm x))}\<^sup>+"
    using edge_rel_steps [OF ni] toposort_Inl [OF node_invD(1) [OF ni] Inl] by simp
  moreover have "{(d, x). x \<in> dom ?nm \<and> d \<in> preds G ?g (the (?nm x))} =
      {(d, x). x \<in> set xs \<and> d \<in> set (dependencies_of G plan x)}"
    using assms(3) plan_invD(2,5) [OF inv] by auto
  ultimately show ?thesis using topo_order_acyclic [OF assms(2)] by (simp add: acyclic_def)
qed (simp add: topological_sort_def)

lemma edges_match_declared:
  "edges_match G \<rho> plan \<Longrightarrow> x \<in> dom (ep_steps plan) \<Longrightarrow>
     set (dependencies_of G plan x) = \<rho> ` declared_deps (ep_steps plan) x"
  by (auto simp: edges_match_def declared_deps_def)

text \<open>The specification of deduplication: the surviving plan, its graph over the canonical
  steps, and the invariant of the remap table.\<close>

lemma deduplicate_ok:
  assumes inv: "plan_inv ok G plan" and em: "edges_match G id plan" and cl: "deps_closed id (ep_steps plan)"
    and order: "distinct order" "set order = dom (ep_steps plan)"
      "topo_order (\<lambda>x. set (dependencies_of G plan x)) {} order"
    and keys: "\<And>m. finite (dom m) \<Longrightarrow> distinct (keys_of m) \<and> set (keys_of m) = dom m"
  obtains plan' remap seen rm where "deduplicate G keys_of plan order = Inr (plan', remap)"
    and "plan_inv ok G plan'" and "edges_match G (resolve remap) plan'"
    and "deps_closed (resolve remap) (ep_steps plan')"
    and "ep_steps plan' = ep_steps plan |` {x. canonical remap x}"
    and "ep_batch_size plan' = ep_batch_size plan"
    and "dedup_inv (ep_steps plan) (dom (ep_steps plan)) (seen, remap, rm)"
    and "topo_order (\<lambda>x. set (dependencies_of G plan' x)) {} (filter (canonical remap) order)"
proof -
  let ?sm = "ep_steps plan"
  obtain seen remap rm where loop: "dedup_loop ?sm order (Map.empty, [], []) = (seen, remap, rm)"
    by (metis prod_cases3)
  have topo: "topo_order (declared_deps ?sm) {} order"
    by (rule topo_order_cong [OF order(3)]) (use edges_match_declared [OF em] order(2) in auto)
  note spec = dedup_loop_spec [OF topo order(1,2) loop]
  note D = dedup_invD [OF spec(1)]
  let ?p1 = "foldl (remove_step G) plan rm"
  have p1: "plan_inv ok G ?p1" "ep_batch_size ?p1 = ep_batch_size plan"
      "ep_steps ?p1 = ?sm |` {x. canonical remap x}"
  proof -
    have "- set rm = {x. canonical remap x}" using D(3) by (auto simp: canonical_def)
    then show "plan_inv ok G ?p1" "ep_batch_size ?p1 = ep_batch_size plan"
      "ep_steps ?p1 = ?sm |` {x. canonical remap x}" using remove_steps_inv [OF inv, of rm] by simp_all
  qed
  have fin: "finite (dom (ep_steps ?p1))"
    using p1(3) order(2) by (metis List.finite_set dom_restrict finite_Int)
  have can: "resolve remap x \<in> dom (?sm |` {x. canonical remap x})" if "x \<in> dom ?sm" for x
  proof (cases "map_of remap x")
    case None
    with that show ?thesis by (auto simp: resolve_def canonical_def)
  next
    case (Some c)
    with D(1) D(6,7) [OF Some] show ?thesis by (auto simp: resolve_removed)
  qed
  have closed: "deps_closed (resolve remap) (ep_steps ?p1)"
    unfolding deps_closed_def p1(3)
  proof (intro allI impI image_subsetI)
    fix x s d assume "(?sm |` {x. canonical remap x}) x = Some s" and "d \<in> set (st_deps s)"
    then have "?sm x = Some s" by (simp add: restrict_map_def split: if_split_asm)
    with cl \<open>d \<in> set (st_deps s)\<close> have "d \<in> dom ?sm" unfolding deps_closed_def id_def image_ident by blast
    then show "resolve remap d \<in> dom (?sm |` {x. canonical remap x})" by (rule can)
  qed
  obtain p2 where p2: "deduplicate G keys_of plan order = Inr (p2, remap)" "plan_inv ok G p2"
      "edges_match G (resolve remap) p2" "ep_steps p2 = ep_steps ?p1" "ep_batch_size p2 = ep_batch_size ?p1"
  proof (cases "remap = []")
    case True
    then have "rm = []" using D(5) by simp
    moreover have "resolve [] = id" by (auto simp: resolve_def)
    ultimately show thesis using True loop em p1 by (intro that [of plan]) (auto simp: deduplicate_def)
  next
    case False
    from rebuild_edges_ok [OF p1(1) _ _ closed, of keys_of] keys [OF fin]
    obtain p2 where "rebuild_edges_after_remap G keys_of ?p1 remap = Inr p2" "plan_inv ok G p2"
      "edges_match G (resolve remap) p2" "ep_steps p2 = ep_steps ?p1" "ep_batch_size p2 = ep_batch_size ?p1" by auto
    with False loop show thesis by (intro that [of p2]) (auto simp: deduplicate_def)
  qed
  have "topo_order (\<lambda>x. set (dependencies_of G p2 x)) {} (filter (canonical remap) order)"
  proof (rule topo_order_cong [OF spec(2)])
    fix x assume "x \<in> set (filter (canonical remap) order)"
    then have x: "x \<in> dom (ep_steps p2)" "x \<in> dom ?sm" "canonical remap x" using p2(4) p1(3) order(2) by auto
    then have "declared_deps (ep_steps p2) x = declared_deps ?sm x"
      using p2(4) p1(3) by (simp add: declared_deps_def)
    with edges_match_declared [OF p2(3) x(1)]
    show "set (dependencies_of G p2 x) \<subseteq> resolve remap ` declared_deps ?sm x" by simp
  qed
  with p2 p1 closed spec(1) show thesis by (intro that [of p2 remap seen rm]) auto
qed

text \<open>A plan that passed the planner's cycle check is sorted without a panic.\<close>

lemma planner_build_sorts:
  assumes "planner_build G p = Inr plan"
  shows "\<exists>order. topological_sort G plan = Inr order"
proof -
  obtain g nm sm where "add_nodes G (pl_steps p) (g_new G, Map.empty, Map.empty) = (g, nm, sm)"
    by (metis prod_cases3)
  with assms obtain g' where g': "(case g_toposort G g' of
      Inl c \<Rightarrow> Inl (Fail (PlanCycle [g_index G g' c]))
    | Inr _ \<Rightarrow> Inr \<lparr>ep_graph = g', ep_node_map = nm, ep_steps = sm, ep_batch_size = pl_batch_size p\<rparr>) = Inr plan"
    by (auto simp: planner_build_def result_simps)
  then show ?thesis
    by (cases "g_toposort G g'") (auto simp: topological_sort_def)
qed

text \<open>The whole optimizer.\<close>

lemma optimize_ok:
  assumes inv: "plan_inv ok G plan" and em: "edges_match G id plan" and cl: "deps_closed id (ep_steps plan)"
    and sorted: "topological_sort G plan = Inr order0"
    and keys: "\<And>m. finite (dom m) \<Longrightarrow> distinct (keys_of m) \<and> set (keys_of m) = dom m"
  obtains opt seen rm where "optimize G keys_of plan = Inr opt"
    and "plan_inv ok G (op_plan opt)" and "edges_match G (resolve (op_remap opt)) (op_plan opt)"
    and "deps_closed (resolve (op_remap opt)) (ep_steps (op_plan opt))"
    and "ep_steps (op_plan opt) = ep_steps plan |` {x. canonical (op_remap opt) x}"
    and "ep_batch_size (op_plan opt) = ep_batch_size plan"
    and "dedup_inv (ep_steps plan) (dom (ep_steps plan)) (seen, op_remap opt, rm)"
    and "distinct (op_execution_order opt)"
    and "set (op_execution_order opt) = dom (ep_steps (op_plan opt))"
    and "topo_order (\<lambda>x. set (dependencies_of G (op_plan opt) x)) {} (op_execution_order opt)"
proof -
  note t = topological_sort_ok [OF inv sorted]
  obtain plan' remap seen rm where d: "deduplicate G keys_of plan order0 = Inr (plan', remap)"
    "plan_inv ok G plan'" "edges_match G (resolve remap) plan'" "deps_closed (resolve remap) (ep_steps plan')"
    "ep_steps plan' = ep_steps plan |` {x. canonical remap x}" "ep_batch_size plan' = ep_batch_size plan"
    "dedup_inv (ep_steps plan) (dom (ep_steps plan)) (seen, remap, rm)"
    "topo_order (\<lambda>x. set (dependencies_of G plan' x)) {} (filter (canonical remap) order0)"
    using deduplicate_ok [OF inv em cl t keys] by metis
  have "set (filter (canonical remap) order0) = dom (ep_steps plan')" using d(5) t(2) by auto
  then obtain order1 where o1: "topological_sort G plan' = Inr order1"
    using topological_sort_total [OF d(2,8)] by blast
  note t1 = topological_sort_ok [OF d(2) o1]
  have "set order1 \<subseteq> dom (ep_steps plan')" using t1(2) by simp
  note h = hoist_unary_steps_spec [OF t1(3) this]
  have "distinct (hoist_unary_steps G plan' order1)" "set (hoist_unary_steps G plan' order1) = set order1"
    using h(2) t1(1) mset_eq_imp_distinct_iff mset_eq_setD by blast+
  with h(1) d t1 sorted o1 show thesis
    by (intro that [of "\<lparr>op_plan = plan', op_execution_order = hoist_unary_steps G plan' order1,
        op_remap = remap\<rparr>" seen rm]) (auto simp: optimize_def)
qed

end

end
