(* ===== verification/Core_Executor.thy ===== *)
theory Core_Executor
  imports Core_Optimizer
begin

text \<open>
  \<^verbatim>\<open>magna-core/src/executor.rs\<close>: the steps of an optimized plan run tier by tier. The tasks of
  a tier are spawned in order with the outputs known at that moment and awaited in the same
  order; a step's \<^verbatim>\<open>execute\<close> is a function of the context and its inputs. \<open>Panic\<close> is an index
  out of range, \<open>Fail\<close> an error returned to the caller.
\<close>

type_synonym 'v outputs = "step_id \<rightharpoonup> 'v step_output"

section \<open>Flag propagation, broadcast, errors\<close>

text \<open>One pass of the inner loop of \<^verbatim>\<open>check_propagating_flags\<close>: indices below both lengths.\<close>

fun merge_flags :: "step_flags list \<Rightarrow> step_flags list \<Rightarrow> step_flags list" where
  "merge_flags (r # rs) (f # fs) =
     (let r' = (if is_null f then r OR FLAG_NULL else r);
          r'' = (if is_error f then r' OR FLAG_ERROR else r')
      in r'' # merge_flags rs fs)"
| "merge_flags rs [] = rs"
| "merge_flags [] fs = []"

fun propagate :: "step_id list \<Rightarrow> 'v outputs \<Rightarrow> step_flags list \<times> bool \<Rightarrow> step_flags list \<times> bool" where
  "propagate [] outputs st = st"
| "propagate (d # ds) outputs (rf, any_propagated) =
     (case outputs d of
        None \<Rightarrow> propagate ds outputs (rf, any_propagated)
      | Some o' \<Rightarrow>
          propagate ds outputs
            (merge_flags rf (out_flags o'),
             any_propagated \<or> list_ex (\<lambda>f. is_null f \<or> is_error f) (take (length rf) (out_flags o'))))"

definition check_propagating_flags :: "step_id list \<Rightarrow> 'v outputs \<Rightarrow> nat \<Rightarrow> 'v step_output option" where
  "check_propagating_flags dep_ids outputs batch_size =
     (if dep_ids = [] then None
      else case propagate dep_ids outputs (replicate batch_size FLAG_NONE, False) of
        (result_flags, any_propagated) \<Rightarrow>
          if \<not> any_propagated then None
          else if list_all (\<lambda>f. \<not> is_value f) result_flags
          then Some \<lparr>out_values = replicate batch_size AnyUnit, out_flags = result_flags\<rparr>
          else None)"

definition broadcast_unary :: "'v step_output \<Rightarrow> nat \<Rightarrow> plan_fail + 'v step_output" where
  "broadcast_unary output batch_size =
     (if length (out_values output) = 1 \<and> batch_size > 1
      then (case out_flags output of
              [] \<Rightarrow> Inl Panic
            | flag # _ \<Rightarrow> Inr \<lparr>out_values = replicate batch_size (out_values output ! 0),
                              out_flags = replicate batch_size flag\<rparr>)
      else Inr output)"

definition error_output_batch :: "fw_graph_error \<Rightarrow> nat \<Rightarrow> 'v step_output" where
  "error_output_batch e batch_size =
     \<lparr>out_values = replicate batch_size (AnyString (display_error e)),
      out_flags = replicate batch_size FLAG_ERROR\<rparr>"

section \<open>Tiers\<close>

definition tier_of_step :: "step_id list \<Rightarrow> (step_id \<rightharpoonup> nat) \<Rightarrow> nat" where
  "tier_of_step deps tier_of =
     (if deps = [] then 0
      else case List.map_filter tier_of deps of [] \<Rightarrow> 0 | t # ts \<Rightarrow> Max (set (t # ts)) + 1)"

fun tier_loop :: "('g, 'i) petgraph \<Rightarrow> ('g, 'i, 'c, 'v) execution_plan \<Rightarrow> step_id list \<Rightarrow>
    (step_id \<rightharpoonup> nat) \<times> nat \<Rightarrow> (step_id \<rightharpoonup> nat) \<times> nat" where
  "tier_loop G plan [] st = st"
| "tier_loop G plan (x # xs) (tier_of, max_tier) =
     (let tier = tier_of_step (dependencies_of G plan x) tier_of
      in tier_loop G plan xs (tier_of(x \<mapsto> tier), if tier > max_tier then tier else max_tier))"

fun collect_tiers :: "(step_id \<rightharpoonup> nat) \<Rightarrow> step_id list \<Rightarrow> step_id list list \<Rightarrow> plan_fail + step_id list list" where
  "collect_tiers tier_of [] tiers = Inr tiers"
| "collect_tiers tier_of (x # xs) tiers =
     (case tier_of x of
        None \<Rightarrow> collect_tiers tier_of xs tiers
      | Some t \<Rightarrow> if t < length tiers then collect_tiers tier_of xs (tiers[t := tiers ! t @ [x]])
                  else Inl Panic)"

definition compute_tiers :: "('g, 'i) petgraph \<Rightarrow> step_id list \<Rightarrow> ('g, 'i, 'c, 'v) execution_plan \<Rightarrow>
    plan_fail + step_id list list" where
  "compute_tiers G execution_order plan =
     (if execution_order = [] then Inr []
      else case tier_loop G plan execution_order (Map.empty, 0) of
        (tier_of, max_tier) \<Rightarrow> collect_tiers tier_of execution_order (replicate (max_tier + 1) []))"

section \<open>Running the tiers\<close>

fun gather_inputs :: "step_id \<Rightarrow> step_id list \<Rightarrow> 'v outputs \<Rightarrow> plan_fail + 'v step_output list" where
  "gather_inputs x [] outputs = Inr []"
| "gather_inputs x (d # ds) outputs =
     (case outputs d of
        None \<Rightarrow> Inl (Fail (ExecutionError
          (''step '' @ show_id x @ '' depends on step '' @ show_id d @
           '', which produced no output (dependency missing from the plan or executed out of order)'')))
      | Some o' \<Rightarrow> rbind (gather_inputs x ds outputs) (\<lambda>os. Inr (o' # os)))"

type_synonym 'v handle = "step_id \<times> bool \<times> 'v task_result"

text \<open>The first loop over a tier: skip, or gather the inputs and spawn the step.\<close>

fun dispatch :: "('c, 'v) step_map \<Rightarrow> remap_table \<Rightarrow> 'c \<Rightarrow> nat \<Rightarrow> step_id list \<Rightarrow>
    'v outputs \<times> 'v handle list \<Rightarrow> plan_fail + 'v outputs \<times> 'v handle list" where
  "dispatch steps remap ctx n [] st = Inr st"
| "dispatch steps remap ctx n (x # xs) (outputs, handles) =
     (case steps x of
        None \<Rightarrow> dispatch steps remap ctx n xs (outputs, handles)
      | Some s \<Rightarrow>
          (let dep_ids = map (resolve remap) (st_deps s) in
           case check_propagating_flags dep_ids outputs n of
             Some skip_output \<Rightarrow> dispatch steps remap ctx n xs (outputs(x \<mapsto> skip_output), handles)
           | None \<Rightarrow>
               rbind (gather_inputs x dep_ids outputs) (\<lambda>inputs.
                 dispatch steps remap ctx n xs
                   (outputs, handles @ [(st_id s, st_unary s, st_execute s ctx inputs)]))))"

text \<open>What becomes of one awaited task.\<close>

definition finish_task :: "nat \<Rightarrow> bool \<Rightarrow> 'v task_result \<Rightarrow> plan_fail + 'v step_output" where
  "finish_task n is_unary r =
     (case r of
        JoinFailed m \<Rightarrow> Inl (Fail (ExecutionError (''Task join error: '' @ m)))
      | Finished (Inr output) \<Rightarrow> if is_unary then broadcast_unary output n else Inr output
      | Finished (Inl e) \<Rightarrow> Inr (error_output_batch e n))"

fun await_all :: "nat \<Rightarrow> 'v handle list \<Rightarrow> 'v outputs \<Rightarrow> plan_fail + 'v outputs" where
  "await_all n [] outputs = Inr outputs"
| "await_all n ((x, u, r) # hs) outputs =
     rbind (finish_task n u r) (\<lambda>o'. await_all n hs (outputs(x \<mapsto> o')))"

fun run_tiers :: "('c, 'v) step_map \<Rightarrow> remap_table \<Rightarrow> 'c \<Rightarrow> nat \<Rightarrow> step_id list list \<Rightarrow> 'v outputs \<Rightarrow>
    plan_fail + 'v outputs" where
  "run_tiers steps remap ctx n [] outputs = Inr outputs"
| "run_tiers steps remap ctx n (tier # tiers) outputs =
     rbind (dispatch steps remap ctx n tier (outputs, [])) (\<lambda>(outputs', handles).
     rbind (await_all n handles outputs') (run_tiers steps remap ctx n tiers))"

definition execute :: "('g, 'i) petgraph \<Rightarrow> 'c \<Rightarrow> ('g, 'i, 'c, 'v) optimized_plan \<Rightarrow> plan_fail + 'v outputs" where
  "execute G ctx opt =
     rbind (compute_tiers G (op_execution_order opt) (op_plan opt)) (\<lambda>tiers.
       run_tiers (ep_steps (op_plan opt)) (op_remap opt) ctx (ep_batch_size (op_plan opt)) tiers Map.empty)"

section \<open>Tiers respect dependencies\<close>

lemma tier_of_step_bound:
  assumes "set deps \<subseteq> dom m" and "d \<in> set deps"
  shows "the (m d) < tier_of_step deps m"
proof -
  let ?ts = "List.map_filter m deps"
  obtain t where t: "m d = Some t" using assms by auto
  then have mem: "t \<in> set ?ts" using assms(2) by (force simp: map_filter_def)
  then obtain u us where u: "?ts = u # us" by (cases ?ts) auto
  have "t \<le> Max (set ?ts)" using mem by simp
  with u t assms(2) show ?thesis by (auto simp: tier_of_step_def)
qed

lemma tier_loop_spec:
  assumes "tier_loop G plan xs (m, k) = (m', k')"
    and "topo_order (\<lambda>x. set (dependencies_of G plan x)) (dom m) xs" and "distinct xs" and "set xs \<inter> dom m = {}"
    and "\<And>x t. m x = Some t \<Longrightarrow> t \<le> k"
  shows "dom m' = dom m \<union> set xs" and "\<And>x. x \<in> dom m \<Longrightarrow> m' x = m x"
    and "\<And>x d. x \<in> set xs \<Longrightarrow> d \<in> set (dependencies_of G plan x) \<Longrightarrow> the (m' d) < the (m' x)"
    and "\<And>x t. m' x = Some t \<Longrightarrow> t \<le> k'"
proof -
  have "dom m' = dom m \<union> set xs \<and> (\<forall>x \<in> dom m. m' x = m x) \<and>
    (\<forall>x \<in> set xs. \<forall>d \<in> set (dependencies_of G plan x). the (m' d) < the (m' x)) \<and>
    (\<forall>x t. m' x = Some t \<longrightarrow> t \<le> k')"
    using assms
  proof (induction xs arbitrary: m k)
    case (Cons x xs)
    let ?t = "tier_of_step (dependencies_of G plan x) m"
    let ?k = "if ?t > k then ?t else k"
    have x: "x \<notin> dom m" "set (dependencies_of G plan x) \<subseteq> dom m" using Cons.prems by auto
    have "dom m' = dom (m(x \<mapsto> ?t)) \<union> set xs \<and> (\<forall>y \<in> dom (m(x \<mapsto> ?t)). m' y = (m(x \<mapsto> ?t)) y) \<and>
      (\<forall>x \<in> set xs. \<forall>d \<in> set (dependencies_of G plan x). the (m' d) < the (m' x)) \<and>
      (\<forall>x t. m' x = Some t \<longrightarrow> t \<le> k')"
    proof (rule Cons.IH [of "m(x \<mapsto> ?t)" ?k])
      show "tier_loop G plan xs (m(x \<mapsto> ?t), ?k) = (m', k')" using Cons.prems(1) by (simp add: Let_def)
      fix y t
      assume "(m(x \<mapsto> ?t)) y = Some t"
      then show "t \<le> ?k" using Cons.prems(5) [of y t] by (auto split: if_splits)
    next
      show "topo_order (\<lambda>x. set (dependencies_of G plan x)) (dom (m(x \<mapsto> ?t))) xs"
        "distinct xs" "set xs \<inter> dom (m(x \<mapsto> ?t)) = {}" using Cons.prems(2-4) by (simp_all add: dom_fun_upd)
    qed
    moreover have "m' x = Some ?t" using calculation by auto
    moreover have "the (m' d) < ?t" if "d \<in> set (dependencies_of G plan x)" for d
    proof -
      have "d \<in> dom m" "d \<noteq> x" using that x by auto
      then have "m' d = m d" using calculation(1) by auto
      with tier_of_step_bound [OF x(2) that] show ?thesis by simp
    qed
    ultimately show ?case using x(1) by auto
  qed auto
  then show "dom m' = dom m \<union> set xs" "\<And>x. x \<in> dom m \<Longrightarrow> m' x = m x"
    "\<And>x d. x \<in> set xs \<Longrightarrow> d \<in> set (dependencies_of G plan x) \<Longrightarrow> the (m' d) < the (m' x)"
    "\<And>x t. m' x = Some t \<Longrightarrow> t \<le> k'" by blast+
qed

lemma collect_tiers_spec:
  assumes "\<And>x t. tier_of x = Some t \<Longrightarrow> t < length tiers"
  shows "collect_tiers tier_of xs tiers =
     Inr (map (\<lambda>t. tiers ! t @ filter (\<lambda>x. tier_of x = Some t) xs) [0..<length tiers])"
  using assms
proof (induction xs arbitrary: tiers)
  case Nil
  then show ?case by (simp add: map_nth)
next
  case (Cons x xs)
  show ?case
  proof (cases "tier_of x")
    case None
    with Cons show ?thesis by simp
  next
    case (Some t)
    then have t: "t < length tiers" by (rule Cons.prems)
    with Some Cons.IH [of "tiers[t := tiers ! t @ [x]]"] Cons.prems show ?thesis
      by (auto simp: nth_list_update)
  qed
qed

lemma distinct_concat_filters:
  "distinct xs \<Longrightarrow> distinct ks \<Longrightarrow> distinct (concat (map (\<lambda>t. filter (\<lambda>x. m x = Some t) xs) ks))"
  by (induction ks) auto

text \<open>The tiers partition the execution order, and every dependency of a step sits in a
  strictly earlier tier.\<close>

lemma compute_tiers_spec:
  assumes topo: "topo_order (\<lambda>x. set (dependencies_of G plan x)) {} order" and "distinct order"
  obtains tiers where "compute_tiers G order plan = Inr tiers"
    and "distinct (concat tiers)" and "set (concat tiers) = set order"
    and "\<And>i x d. i < length tiers \<Longrightarrow> x \<in> set (tiers ! i) \<Longrightarrow> d \<in> set (dependencies_of G plan x) \<Longrightarrow>
           \<exists>j < i. d \<in> set (tiers ! j)"
proof (cases "order = []")
  case True
  then show thesis by (intro that [of "[]"]) (auto simp: compute_tiers_def)
next
  case False
  obtain m k where loop: "tier_loop G plan order (Map.empty, 0) = (m, k)" by fastforce
  have pre: "topo_order (\<lambda>x. set (dependencies_of G plan x)) (dom Map.empty) order"
    "set order \<inter> dom Map.empty = {}" using topo by simp_all
  have spec: "dom m = set order"
      "\<And>x d. x \<in> set order \<Longrightarrow> d \<in> set (dependencies_of G plan x) \<Longrightarrow> the (m d) < the (m x)"
      "\<And>x t. m x = Some t \<Longrightarrow> t \<le> k"
    using tier_loop_spec [OF loop pre(1) assms(2) pre(2)] by simp_all
  let ?tiers = "map (\<lambda>t. filter (\<lambda>x. m x = Some t) order) [0..<k + 1]"
  have bound: "t < k + 1" if "m x = Some t" for x t using spec(3) [OF that] by simp
  have eq: "compute_tiers G order plan = Inr ?tiers"
  proof -
    have "collect_tiers m order (replicate (k + 1) []) =
        Inr (map (\<lambda>t. replicate (k + 1) [] ! t @ filter (\<lambda>x. m x = Some t) order) [0..<k + 1])"
      using collect_tiers_spec [of m "replicate (k + 1) []" order] bound by (simp del: upt_Suc replicate_Suc)
    also have "\<dots> = Inr ?tiers" by (auto intro!: map_cong simp del: upt_Suc replicate_Suc)
    finally show ?thesis using False loop by (simp add: compute_tiers_def)
  qed
  have mem: "m x \<noteq> None" if "x \<in> set order" for x using spec(1) that by blast
  show thesis
  proof (rule that [OF eq])
    show "distinct (concat ?tiers)"
      by (rule distinct_concat_filters [OF assms(2) distinct_upt])
    show "set (concat ?tiers) = set order"
      using mem bound by (fastforce simp del: upt_Suc)
    fix i x d
    assume i: "i < length ?tiers" and x: "x \<in> set (?tiers ! i)" and d: "d \<in> set (dependencies_of G plan x)"
    have xi: "m x = Some i" "x \<in> set order" using i x by (auto simp del: upt_Suc)
    have "d \<in> set order" using topo_order_deps_in [OF topo xi(2)] d by auto
    then obtain j where j: "m d = Some j" using mem by blast
    with spec(2) [OF xi(2) d] xi(1) have "j < i" by simp
    with j i \<open>d \<in> set order\<close> show "\<exists>j < i. d \<in> set (?tiers ! j)"
      by (intro exI [of _ j]) (auto simp del: upt_Suc)
  qed
qed

section \<open>Denotation of a plan\<close>

text \<open>The value a step contributes once all its inputs are known: the propagated flags when
  every item is null or failed, and otherwise the outcome of running it. A set of outputs
  solves a plan when every step's output is that value of its dependencies' outputs.\<close>

fun propagate_inputs :: "'v step_output list \<Rightarrow> step_flags list \<times> bool \<Rightarrow> step_flags list \<times> bool" where
  "propagate_inputs [] st = st"
| "propagate_inputs (o' # os) (rf, any_propagated) =
     propagate_inputs os
       (merge_flags rf (out_flags o'),
        any_propagated \<or> list_ex (\<lambda>f. is_null f \<or> is_error f) (take (length rf) (out_flags o')))"

definition skipped_output :: "nat \<Rightarrow> 'v step_output list \<Rightarrow> 'v step_output option" where
  "skipped_output n ins =
     (if ins = [] then None
      else case propagate_inputs ins (replicate n FLAG_NONE, False) of
        (rf, p) \<Rightarrow> if p \<and> list_all (\<lambda>f. \<not> is_value f) rf
                   then Some \<lparr>out_values = replicate n AnyUnit, out_flags = rf\<rparr> else None)"

definition step_value :: "'c \<Rightarrow> nat \<Rightarrow> ('c, 'v) exec_step \<Rightarrow> 'v step_output list \<Rightarrow> plan_fail + 'v step_output" where
  "step_value ctx n s ins =
     (case skipped_output n ins of
        Some o' \<Rightarrow> Inr o'
      | None \<Rightarrow> finish_task n (st_unary s) (st_execute s ctx ins))"

definition inputs_of :: "(step_id \<Rightarrow> step_id) \<Rightarrow> 'v outputs \<Rightarrow> ('c, 'v) exec_step \<Rightarrow> 'v step_output list" where
  "inputs_of \<rho> outs s = map (\<lambda>d. the (outs (\<rho> d))) (st_deps s)"

definition solves :: "'c \<Rightarrow> nat \<Rightarrow> (step_id \<Rightarrow> step_id) \<Rightarrow> ('c, 'v) step_map \<Rightarrow> 'v outputs \<Rightarrow> bool" where
  "solves ctx n \<rho> steps outs \<longleftrightarrow> dom outs = dom steps \<and>
     (\<forall>x s. steps x = Some s \<longrightarrow> step_value ctx n s (inputs_of \<rho> outs s) = Inr (the (outs x)))"

lemma propagate_inputs_eq:
  "set ds \<subseteq> dom outs \<Longrightarrow> propagate ds outs st = propagate_inputs (map (\<lambda>d. the (outs d)) ds) st"
  by (induction ds outs st rule: propagate.induct) auto

lemma check_propagating_flags_eq:
  assumes "set ds \<subseteq> dom outs"
  shows "check_propagating_flags ds outs n = skipped_output n (map (\<lambda>d. the (outs d)) ds)"
  using propagate_inputs_eq [OF assms, of "(replicate n FLAG_NONE, False)"]
  by (auto simp: check_propagating_flags_def skipped_output_def split: prod.splits)

lemma gather_inputs_eq:
  "set ds \<subseteq> dom outs \<Longrightarrow> gather_inputs x ds outs = Inr (map (\<lambda>d. the (outs d)) ds)"
  by (induction ds) auto

lemma inputs_of_cong:
  "(\<And>d. d \<in> set (st_deps s) \<Longrightarrow> outs (\<rho> d) = outs' (\<rho>' d)) \<Longrightarrow> inputs_of \<rho> outs s = inputs_of \<rho>' outs' s"
  by (simp add: inputs_of_def)

text \<open>Dispatching a tier whose dependencies all have outputs: a step is either skipped, with its
  output stored at once, or spawned on exactly its inputs.\<close>

lemma dispatch_spec:
  assumes "distinct xs" and "set xs \<subseteq> dom steps" and "set xs \<inter> D = {}"
    and "\<forall>x s. steps x = Some s \<longrightarrow> st_id s = x"
    and "\<forall>x \<in> set xs. \<forall>s. steps x = Some s \<longrightarrow> resolve remap ` set (st_deps s) \<subseteq> D"
    and "D \<subseteq> dom outs" and "\<forall>d \<in> D. outs0 d = outs d"
  shows "\<exists>outs' hs'. dispatch steps remap ctx n xs (outs, hs) = Inr (outs', hs @ hs') \<and>
    (\<forall>y. y \<notin> set xs \<longrightarrow> outs' y = outs y) \<and> distinct (map fst hs') \<and> fst ` set hs' \<subseteq> set xs \<and>
    (\<forall>x \<in> set xs. let s = the (steps x); ins = inputs_of (resolve remap) outs0 s in
       case skipped_output n ins of
         Some o' \<Rightarrow> x \<notin> fst ` set hs' \<and> outs' x = Some o'
       | None \<Rightarrow> (x, st_unary s, st_execute s ctx ins) \<in> set hs')"
  using assms
proof (induction xs arbitrary: outs hs)
  case (Cons x xs)
  obtain s where s: "steps x = Some s" using Cons.prems(2) by auto
  let ?ids = "map (resolve remap) (st_deps s)" and ?ins = "inputs_of (resolve remap) outs0 s"
  have D: "set ?ids \<subseteq> D" using Cons.prems(5) s by simp
  then have dom: "set ?ids \<subseteq> dom outs" using Cons.prems(6) by blast
  have ins: "map (\<lambda>d. the (outs d)) ?ids = ?ins"
    using D Cons.prems(7) by (auto simp: inputs_of_def)
  have xD: "x \<notin> D" using Cons.prems(3) by simp
  have rest: "distinct xs" "set xs \<subseteq> dom steps" "set xs \<inter> D = {}" using Cons.prems(1-3) by auto
  have cl: "\<forall>x \<in> set xs. \<forall>s. steps x = Some s \<longrightarrow> resolve remap ` set (st_deps s) \<subseteq> D"
    using Cons.prems(5) by simp
  let ?rest = "\<lambda>hs' outs'. \<forall>x \<in> set xs. let s = the (steps x); ins = inputs_of (resolve remap) outs0 s in
       case skipped_output n ins of
         Some o' \<Rightarrow> x \<notin> fst ` set hs' \<and> outs' x = Some o'
       | None \<Rightarrow> (x, st_unary s, st_execute s ctx ins) \<in> set hs'"
  show ?case
  proof (cases "skipped_output n ?ins")
    case (Some o')
    obtain outs' hs' where IH: "dispatch steps remap ctx n xs (outs(x \<mapsto> o'), hs) = Inr (outs', hs @ hs')"
      "\<forall>y. y \<notin> set xs \<longrightarrow> outs' y = (outs(x \<mapsto> o')) y" "distinct (map fst hs')" "fst ` set hs' \<subseteq> set xs" "?rest hs' outs'"
    proof -
      have "D \<subseteq> dom (outs(x \<mapsto> o'))" using Cons.prems(6) by auto
      moreover have "\<forall>d \<in> D. outs0 d = (outs(x \<mapsto> o')) d"
      proof
        fix d assume "d \<in> D"
        with xD Cons.prems(7) show "outs0 d = (outs(x \<mapsto> o')) d" by (metis fun_upd_other)
      qed
      ultimately show thesis
        using Cons.IH [where outs = "outs(x \<mapsto> o')" and hs = hs, OF rest Cons.prems(4) cl] that by blast
    qed
    have "dispatch steps remap ctx n (x # xs) (outs, hs) = Inr (outs', hs @ hs')"
      using s Some IH(1) check_propagating_flags_eq [OF dom, of n] ins by (simp add: Let_def)
    moreover have "x \<notin> fst ` set hs'" "outs' x = Some o'" using IH(2,4) Cons.prems(1) by auto
    ultimately show ?thesis using IH(2-5) s Some by (intro exI [of _ outs'] exI [of _ hs']) (auto simp: Let_def)
  next
    case None
    let ?h = "(x, st_unary s, st_execute s ctx ?ins)"
    obtain outs' hs' where IH: "dispatch steps remap ctx n xs (outs, hs @ [?h]) = Inr (outs', (hs @ [?h]) @ hs')"
      "\<forall>y. y \<notin> set xs \<longrightarrow> outs' y = outs y" "distinct (map fst hs')" "fst ` set hs' \<subseteq> set xs" "?rest hs' outs'"
      using Cons.IH [where outs = outs and hs = "hs @ [?h]", OF rest Cons.prems(4) cl Cons.prems(6,7)] by blast
    have "dispatch steps remap ctx n (x # xs) (outs, hs) = Inr (outs', hs @ ?h # hs')"
      using s None IH(1) check_propagating_flags_eq [OF dom, of n] gather_inputs_eq [OF dom, of x] ins
        Cons.prems(4) s by (simp add: Let_def)
    moreover have "distinct (map fst (?h # hs'))" "fst ` set (?h # hs') \<subseteq> set (x # xs)"
      using IH(3,4) Cons.prems(1) by auto
    moreover have "?rest (?h # hs') outs'"
    proof
      fix y assume y: "y \<in> set xs"
      then have "y \<noteq> x" using Cons.prems(1) by auto
      with IH(5) y show "let s = the (steps y); ins = inputs_of (resolve remap) outs0 s in
          case skipped_output n ins of
            Some o' \<Rightarrow> y \<notin> fst ` set (?h # hs') \<and> outs' y = Some o'
          | None \<Rightarrow> (y, st_unary s, st_execute s ctx ins) \<in> set (?h # hs')"
        by (auto simp: Let_def split: option.splits)
    qed
    ultimately show ?thesis using IH(2) s None
      by (intro exI [of _ outs'] exI [of _ "?h # hs'"]) (auto simp: Let_def)
  qed
qed auto

lemma await_all_Inr:
  "await_all n hs outs = Inr outs' \<Longrightarrow> distinct (map fst hs) \<Longrightarrow>
     (\<forall>y. y \<notin> fst ` set hs \<longrightarrow> outs' y = outs y) \<and>
     (\<forall>x u r. (x, u, r) \<in> set hs \<longrightarrow> outs' x \<noteq> None \<and> finish_task n u r = Inr (the (outs' x)))"
proof (induction n hs outs rule: await_all.induct)
  case (2 n x u r hs outs)
  then obtain o' where o': "finish_task n u r = Inr o'" "await_all n hs (outs(x \<mapsto> o')) = Inr outs'"
    by (auto simp: result_simps)
  have "distinct (map fst hs)" using 2(3) by simp
  note IH' = 2(1) [OF o' this]
  note IH = conjunct1 [OF IH'] conjunct2 [OF IH']
  have "x \<notin> fst ` set hs" using 2(3) by simp
  then have "outs' x = Some o'" using IH(1) by simp
  with IH o'(1) show ?case by auto
qed simp

lemma await_all_Inl:
  "await_all n hs outs = Inl e \<Longrightarrow> \<exists>x u r. (x, u, r) \<in> set hs \<and> finish_task n u r = Inl e"
  by (induction n hs outs rule: await_all.induct) (auto simp: result_simps, blast+)


section \<open>Running a plan solves it\<close>

text \<open>The steps of \<open>X\<close>, closed under dependencies, have their outputs.\<close>

definition solved :: "'c \<Rightarrow> nat \<Rightarrow> (step_id \<Rightarrow> step_id) \<Rightarrow> ('c, 'v) step_map \<Rightarrow> step_id set \<Rightarrow> 'v outputs \<Rightarrow> bool" where
  "solved ctx n \<rho> steps X outs \<longleftrightarrow> dom outs = X \<and> X \<subseteq> dom steps \<and>
     (\<forall>x \<in> X. \<forall>s. steps x = Some s \<longrightarrow> \<rho> ` set (st_deps s) \<subseteq> X \<and>
        step_value ctx n s (inputs_of \<rho> outs s) = Inr (the (outs x)))"

lemma solvedD:
  assumes "solved ctx n \<rho> steps X outs"
  shows "dom outs = X" and "X \<subseteq> dom steps"
    and "\<And>x s. x \<in> X \<Longrightarrow> steps x = Some s \<Longrightarrow> \<rho> ` set (st_deps s) \<subseteq> X"
    and "\<And>x s. x \<in> X \<Longrightarrow> steps x = Some s \<Longrightarrow> step_value ctx n s (inputs_of \<rho> outs s) = Inr (the (outs x))"
  using assms unfolding solved_def by blast+

lemma solved_solves: "solved ctx n \<rho> steps (dom steps) outs \<Longrightarrow> solves ctx n \<rho> steps outs"
  by (auto simp: solved_def solves_def)

text \<open>A step that fails once its inputs are available.\<close>

definition fails_on :: "'c \<Rightarrow> nat \<Rightarrow> (step_id \<Rightarrow> step_id) \<Rightarrow> ('c, 'v) step_map \<Rightarrow> plan_fail \<Rightarrow> bool" where
  "fails_on ctx n \<rho> steps e \<longleftrightarrow>
     (\<exists>X outs x s. solved ctx n \<rho> steps X outs \<and> steps x = Some s \<and> \<rho> ` set (st_deps s) \<subseteq> X \<and>
        step_value ctx n s (inputs_of \<rho> outs s) = Inl e)"

lemma tier_ok:
  assumes D: "solved ctx n (resolve remap) steps D outs"
    and "distinct xs" "set xs \<subseteq> dom steps" "set xs \<inter> D = {}"
    and ids: "\<forall>x s. steps x = Some s \<longrightarrow> st_id s = x"
    and deps: "\<forall>x \<in> set xs. \<forall>s. steps x = Some s \<longrightarrow> resolve remap ` set (st_deps s) \<subseteq> D"
  obtains outs' hs where "dispatch steps remap ctx n xs (outs, []) = Inr (outs', hs)"
    and "\<And>outs''. await_all n hs outs' = Inr outs'' \<Longrightarrow> solved ctx n (resolve remap) steps (D \<union> set xs) outs''"
    and "\<And>e. await_all n hs outs' = Inl e \<Longrightarrow> fails_on ctx n (resolve remap) steps e"
proof -
  let ?r = "resolve remap" and ?in = "\<lambda>x. inputs_of (resolve remap) outs (the (steps x))"
  have dom: "dom outs = D" using D by (simp add: solved_def)
  obtain outs' hs where d: "dispatch steps remap ctx n xs (outs, []) = Inr (outs', hs)"
    "\<forall>y. y \<notin> set xs \<longrightarrow> outs' y = outs y" "distinct (map fst hs)" "fst ` set hs \<subseteq> set xs"
    and each: "\<forall>x \<in> set xs. let s = the (steps x); ins = inputs_of ?r outs s in
       case skipped_output n ins of
         Some o' \<Rightarrow> x \<notin> fst ` set hs \<and> outs' x = Some o'
       | None \<Rightarrow> (x, st_unary s, st_execute s ctx ins) \<in> set hs"
    using dispatch_spec [OF assms(2-4) ids deps, of outs outs ctx n "[]"] dom by auto
  show thesis
  proof (rule that [OF d(1)])
    fix outs'' assume "await_all n hs outs' = Inr outs''"
    from await_all_Inr [OF this d(3)]
    have old: "\<And>y. y \<notin> fst ` set hs \<Longrightarrow> outs'' y = outs' y"
      and run: "\<And>x u r. (x, u, r) \<in> set hs \<Longrightarrow> outs'' x \<noteq> None \<and> finish_task n u r = Inr (the (outs'' x))" by blast+
    have keep: "outs'' y = outs y" if "y \<notin> set xs" for y using old [of y] d(2,4) that by auto
    have new: "outs'' x \<noteq> None \<and> step_value ctx n (the (steps x)) (?in x) = Inr (the (outs'' x))"
      if x: "x \<in> set xs" for x
      using each x old [of x] run [of x]
      by (auto simp: step_value_def Let_def split: option.splits dest!: bspec [of _ _ x])
    have ins: "inputs_of ?r outs'' s = inputs_of ?r outs s" if "?r ` set (st_deps s) \<subseteq> D" "steps x = Some s" for s x
    proof (rule inputs_of_cong)
      fix d assume "d \<in> set (st_deps s)"
      then have "?r d \<notin> set xs" using that assms(4) by auto
      then show "outs'' (?r d) = outs (?r d)" by (rule keep)
    qed
    have "dom outs'' = D \<union> set xs"
    proof (rule set_eqI)
      fix y
      show "y \<in> dom outs'' \<longleftrightarrow> y \<in> D \<union> set xs"
        using new [of y] keep [of y] dom by (cases "y \<in> set xs") (auto simp: dom_def)
    qed
    moreover have "?r ` set (st_deps s) \<subseteq> D \<union> set xs \<and> step_value ctx n s (inputs_of ?r outs'' s) = Inr (the (outs'' x))"
      if x: "x \<in> D \<union> set xs" and s: "steps x = Some s" for x s
    proof (cases "x \<in> set xs")
      case True
      then have "?r ` set (st_deps s) \<subseteq> D" using deps s by blast
      with new [OF True] s ins [OF this s] show ?thesis by auto
    next
      case False
      then have *: "?r ` set (st_deps s) \<subseteq> D" "step_value ctx n s (inputs_of ?r outs s) = Inr (the (outs x))"
        using x s D unfolding solved_def by blast+
      with ins [OF *(1) s] keep [OF False] show ?thesis by auto
    qed
    moreover have "D \<union> set xs \<subseteq> dom steps" using D assms(3) by (simp add: solved_def)
    ultimately show "solved ctx n ?r steps (D \<union> set xs) outs''" unfolding solved_def by blast
  next
    fix e assume "await_all n hs outs' = Inl e"
    from await_all_Inl [OF this] obtain x u r where h: "(x, u, r) \<in> set hs" "finish_task n u r = Inl e" by blast
    then have x: "x \<in> set xs" using d(4) by force
    then obtain s where s: "steps x = Some s" using assms(3) by auto
    from each x h(1) s have "skipped_output n (?in x) = None" "(x, st_unary s, st_execute s ctx (?in x)) \<in> set hs"
      by (force simp: Let_def split: option.splits dest!: bspec [of _ _ x])+
    with h d(3) have "u = st_unary s \<and> r = st_execute s ctx (?in x)" by (auto dest: eq_key_imp_eq_value)
    with h(2) s \<open>skipped_output n (?in x) = None\<close> have "step_value ctx n s (inputs_of ?r outs s) = Inl e"
      by (simp add: step_value_def)
    with D s x deps show "fails_on ctx n ?r steps e" unfolding fails_on_def by blast
  qed
qed

lemma run_tiers_ok:
  assumes "solved ctx n (resolve remap) steps D outs" and "D \<union> set (concat tiers) = dom steps"
    and "distinct (concat tiers)" and "set (concat tiers) \<inter> D = {}"
    and ids: "\<forall>x s. steps x = Some s \<longrightarrow> st_id s = x"
    and "\<And>i x s. i < length tiers \<Longrightarrow> x \<in> set (tiers ! i) \<Longrightarrow> steps x = Some s \<Longrightarrow>
           resolve remap ` set (st_deps s) \<subseteq> D \<union> (\<Union>j < i. set (tiers ! j))"
  shows "(\<exists>outs'. run_tiers steps remap ctx n tiers outs = Inr outs' \<and> solves ctx n (resolve remap) steps outs') \<or>
    (\<exists>e. run_tiers steps remap ctx n tiers outs = Inl e \<and> fails_on ctx n (resolve remap) steps e)"
  using assms
proof (induction tiers arbitrary: D outs)
  case Nil
  then show ?case using solved_solves by auto
next
  case (Cons xs tiers)
  have "\<forall>x \<in> set xs. \<forall>s. steps x = Some s \<longrightarrow> resolve remap ` set (st_deps s) \<subseteq> D"
    using Cons.prems(6) [of 0] by auto
  moreover have "distinct xs" "set xs \<subseteq> dom steps" "set xs \<inter> D = {}" using Cons.prems(2-4) by auto
  ultimately obtain outs' hs where d: "dispatch steps remap ctx n xs (outs, []) = Inr (outs', hs)"
    and good: "\<And>outs''. await_all n hs outs' = Inr outs'' \<Longrightarrow> solved ctx n (resolve remap) steps (D \<union> set xs) outs''"
    and bad: "\<And>e. await_all n hs outs' = Inl e \<Longrightarrow> fails_on ctx n (resolve remap) steps e"
    using tier_ok [OF Cons.prems(1) _ _ _ ids] by metis
  show ?case
  proof (cases "await_all n hs outs'")
    case (Inl e)
    with d bad show ?thesis by auto
  next
    case (Inr outs'')
    have "(\<exists>o3. run_tiers steps remap ctx n tiers outs'' = Inr o3 \<and> solves ctx n (resolve remap) steps o3) \<or>
      (\<exists>e. run_tiers steps remap ctx n tiers outs'' = Inl e \<and> fails_on ctx n (resolve remap) steps e)"
    proof (rule Cons.IH [OF good [OF Inr] _ _ _ ids])
      show "D \<union> set xs \<union> set (concat tiers) = dom steps" "distinct (concat tiers)"
        "set (concat tiers) \<inter> (D \<union> set xs) = {}" using Cons.prems(2-4) by auto
      fix i x s
      assume "i < length tiers" "x \<in> set (tiers ! i)" "steps x = Some s"
      then have "resolve remap ` set (st_deps s) \<subseteq> D \<union> (\<Union>j < Suc i. set ((xs # tiers) ! j))"
        using Cons.prems(6) [of "Suc i" x s] by simp
      then show "resolve remap ` set (st_deps s) \<subseteq> D \<union> set xs \<union> (\<Union>j < i. set (tiers ! j))"
        by (simp add: lessThan_Suc_eq_insert_0 image_image Un_assoc)
    qed
    with d Inr show ?thesis by simp
  qed
qed

text \<open>The interface of the executor to the plans the optimizer hands over.\<close>

lemma execute_ok:
  assumes inv: "plan_inv ok G (op_plan opt)" and em: "edges_match G (resolve (op_remap opt)) (op_plan opt)"
    and order: "distinct (op_execution_order opt)" "set (op_execution_order opt) = dom (ep_steps (op_plan opt))"
      "topo_order (\<lambda>x. set (dependencies_of G (op_plan opt) x)) {} (op_execution_order opt)"
  shows "(\<exists>outs. execute G ctx opt = Inr outs \<and>
      solves ctx (ep_batch_size (op_plan opt)) (resolve (op_remap opt)) (ep_steps (op_plan opt)) outs) \<or>
    (\<exists>e. execute G ctx opt = Inl e \<and>
      fails_on ctx (ep_batch_size (op_plan opt)) (resolve (op_remap opt)) (ep_steps (op_plan opt)) e)"
proof -
  let ?sm = "ep_steps (op_plan opt)" and ?r = "resolve (op_remap opt)" and ?n = "ep_batch_size (op_plan opt)"
  obtain tiers where t: "compute_tiers G (op_execution_order opt) (op_plan opt) = Inr tiers"
    "distinct (concat tiers)" "set (concat tiers) = dom ?sm"
    and strict: "\<And>i x d. i < length tiers \<Longrightarrow> x \<in> set (tiers ! i) \<Longrightarrow>
           d \<in> set (dependencies_of G (op_plan opt) x) \<Longrightarrow> \<exists>j < i. d \<in> set (tiers ! j)"
    using compute_tiers_spec [OF order(3,1)] order(2) by metis
  have "solved ctx ?n ?r ?sm {} Map.empty" by (simp add: solved_def)
  moreover have "?r ` set (st_deps s) \<subseteq> {} \<union> (\<Union>j < i. set (tiers ! j))"
    if "i < length tiers" "x \<in> set (tiers ! i)" "?sm x = Some s" for i x s
    using strict [OF that(1,2)] em that(3) unfolding edges_match_def by blast
  moreover have "\<forall>x s. ?sm x = Some s \<longrightarrow> st_id s = x" using inv by (simp add: plan_inv_def)
  ultimately have "(\<exists>outs'. run_tiers ?sm (op_remap opt) ctx ?n tiers Map.empty = Inr outs' \<and> solves ctx ?n ?r ?sm outs') \<or>
    (\<exists>e. run_tiers ?sm (op_remap opt) ctx ?n tiers Map.empty = Inl e \<and> fails_on ctx ?n ?r ?sm e)"
    using run_tiers_ok [of ctx ?n "op_remap opt" ?sm "{}" Map.empty tiers] t(2,3) by simp
  then show ?thesis using t(1) by (simp add: execute_def)
qed

section \<open>Flag propagation, item by item\<close>

lemma length_merge_flags [simp]: "length (merge_flags rs fs) = length rs"
  by (induction rs fs rule: merge_flags.induct) (auto simp: Let_def)

definition carried :: "bool \<Rightarrow> bool \<Rightarrow> step_flags" where
  "carried null err = (if null then FLAG_NULL else 0) OR (if err then FLAG_ERROR else 0)"

lemma carried_simps [simp]:
  "carried a b OR carried c d = carried (a \<or> c) (b \<or> d)" "carried False False = 0"
  "carried a b = 0 \<longleftrightarrow> \<not> a \<and> \<not> b"
  by (auto simp: carried_def or.assoc or.left_commute flag_defs)

lemma nth_merge_flags:
  "i < length rs \<Longrightarrow> i < length fs \<Longrightarrow> merge_flags rs fs ! i = rs ! i OR carried (is_null (fs ! i)) (is_error (fs ! i))"
proof (induction rs fs arbitrary: i rule: merge_flags.induct)
  case (1 r rs f fs)
  then show ?case by (cases i) (auto simp: Let_def carried_def or.assoc)
qed auto

lemma propagate_spec:
  assumes "\<forall>d \<in> set ds. \<exists>o'. outs d = Some o' \<and> length (out_flags o') = length rf"
    and "propagate ds outs (rf, p) = (rf', p')"
  shows "length rf' = length rf \<and>
    (\<forall>i < length rf. rf' ! i = rf ! i OR
       carried (\<exists>d \<in> set ds. is_null (out_flags (the (outs d)) ! i)) (\<exists>d \<in> set ds. is_error (out_flags (the (outs d)) ! i))) \<and>
    (p' \<longleftrightarrow> p \<or> (\<exists>d \<in> set ds. \<exists>i < length rf. is_null (out_flags (the (outs d)) ! i) \<or> is_error (out_flags (the (outs d)) ! i)))"
  using assms
proof (induction ds arbitrary: rf p)
  case (Cons d ds)
  then obtain o' where o': "outs d = Some o'" "length (out_flags o') = length rf" by auto
  let ?rf = "merge_flags rf (out_flags o')"
  let ?p = "p \<or> list_ex (\<lambda>f. is_null f \<or> is_error f) (take (length rf) (out_flags o'))"
  have "propagate ds outs (?rf, ?p) = (rf', p')" using Cons.prems(2) o' by simp
  moreover have "\<forall>d \<in> set ds. \<exists>o'. outs d = Some o' \<and> length (out_flags o') = length ?rf" using Cons.prems(1) by simp
  ultimately have IH: "length rf' = length rf"
    "\<forall>i < length rf. rf' ! i = ?rf ! i OR
       carried (\<exists>d \<in> set ds. is_null (out_flags (the (outs d)) ! i)) (\<exists>d \<in> set ds. is_error (out_flags (the (outs d)) ! i))"
    "p' \<longleftrightarrow> ?p \<or> (\<exists>d \<in> set ds. \<exists>i < length rf. is_null (out_flags (the (outs d)) ! i) \<or> is_error (out_flags (the (outs d)) ! i))"
    using Cons.IH [of ?rf ?p] by auto
  have "rf' ! i = rf ! i OR carried (\<exists>d \<in> set (d # ds). is_null (out_flags (the (outs d)) ! i))
      (\<exists>d \<in> set (d # ds). is_error (out_flags (the (outs d)) ! i))" if "i < length rf" for i
    using IH(2) that o' nth_merge_flags [of i rf "out_flags o'"] by (simp add: or.assoc)
  moreover have "?p \<longleftrightarrow> p \<or> (\<exists>i < length rf. is_null (out_flags o' ! i) \<or> is_error (out_flags o' ! i))"
    using o'(2) by (auto simp: list_ex_length)
  ultimately show ?case using IH(1,3) o'(1) by auto
qed auto

text \<open>A step is skipped exactly when it has dependencies, the batch is not empty and every
  item is null or failed in some dependency; the flags it then carries say for each item
  whether some dependency was null there and whether some dependency failed there.\<close>

theorem check_propagating_flags_items:
  assumes "\<forall>d \<in> set deps. \<exists>o'. outputs d = Some o' \<and> length (out_flags o') = n"
  shows "check_propagating_flags deps outputs n =
    (let null_at = (\<lambda>i. \<exists>d \<in> set deps. is_null (out_flags (the (outputs d)) ! i));
         error_at = (\<lambda>i. \<exists>d \<in> set deps. is_error (out_flags (the (outputs d)) ! i))
     in if n > 0 \<and> (\<forall>i < n. null_at i \<or> error_at i)
        then Some \<lparr>out_values = replicate n AnyUnit, out_flags = map (\<lambda>i. carried (null_at i) (error_at i)) [0..<n]\<rparr>
        else None)"
proof -
  obtain rf p where pr: "propagate deps outputs (replicate n FLAG_NONE, False) = (rf, p)" by fastforce
  note sp = propagate_spec [OF _ pr, simplified, OF assms]
  let ?null = "\<lambda>i. \<exists>d \<in> set deps. is_null (out_flags (the (outputs d)) ! i)"
  let ?err = "\<lambda>i. \<exists>d \<in> set deps. is_error (out_flags (the (outputs d)) ! i)"
  have rf: "rf = map (\<lambda>i. carried (?null i) (?err i)) [0..<n]"
    using sp by (intro nth_equalityI) (auto simp: flag_defs)
  have "list_all (\<lambda>f. \<not> is_value f) rf \<longleftrightarrow> (\<forall>i < n. ?null i \<or> ?err i)"
    by (auto simp: rf list_all_iff is_value_def)
  moreover have "p \<longleftrightarrow> (\<exists>i < n. ?null i \<or> ?err i)" using sp by blast
  ultimately show ?thesis
    using pr rf by (cases "deps = []"; cases "n = 0") (auto simp: check_propagating_flags_def Let_def)
qed

theorem check_propagating_flags_items_witness:
  "check_propagating_flags [1] [1 \<mapsto> \<lparr>out_values = [AnyUnit], out_flags = [FLAG_NULL]\<rparr>] 1 =
     Some (\<lparr>out_values = [AnyUnit], out_flags = [FLAG_NULL]\<rparr> :: nat step_output)"
  using check_propagating_flags_items [of "[1]" "[1 \<mapsto> \<lparr>out_values = [AnyUnit], out_flags = [FLAG_NULL]\<rparr>]" 1]
  by (simp add: is_null_bit is_error_bit carried_def)

text \<open>A dependency that is inhibited at every item does not skip its dependents: the flag
  \<^verbatim>\<open>INHIBITED\<close> takes no part in propagation, and the step is executed.\<close>

theorem inhibited_not_propagated:
  "check_propagating_flags deps (\<lambda>_. Some \<lparr>out_values = vs, out_flags = replicate n FLAG_INHIBITED\<rparr>) n = None"
proof -
  have "\<not> is_null FLAG_INHIBITED" "\<not> is_error FLAG_INHIBITED" by (simp_all add: is_null_def is_error_def FLAG_INHIBITED_def)
  then show ?thesis by (subst check_propagating_flags_items) (auto simp: Let_def)
qed

text \<open>What a task leaves behind always has one value per batch item when the step kept that
  contract itself: a unary step's single value is broadcast with its flag to every item, and a
  failed step yields an error message and the error flag for every item.\<close>

theorem finish_task_batch:
  assumes "case r of Finished (Inr o') \<Rightarrow> length (out_flags o') = length (out_values o') \<and>
      (length (out_values o') = n \<or> u \<and> n > 0 \<and> length (out_values o') = 1) | Finished (Inl _) \<Rightarrow> True | JoinFailed _ \<Rightarrow> False"
  shows "\<exists>o'. finish_task n u r = Inr o' \<and> length (out_values o') = n \<and> length (out_flags o') = n \<and>
    (\<forall>e. r = Finished (Inl e) \<longrightarrow> (\<forall>i < n. out_flags o' ! i = FLAG_ERROR \<and> out_values o' ! i = AnyString (display_error e))) \<and>
    (\<forall>v f. u \<longrightarrow> r = Finished (Inr \<lparr>out_values = [v], out_flags = [f]\<rparr>) \<longrightarrow>
       (\<forall>i < n. out_values o' ! i = v \<and> out_flags o' ! i = f))"
proof (cases r)
  case (JoinFailed m)
  then show ?thesis using assms by simp
next
  case (Finished x)
  then show ?thesis
  proof (cases x)
    case (Inl e)
    with Finished show ?thesis by (auto simp: finish_task_def error_output_batch_def)
  next
    case (Inr o')
    with Finished assms have len: "length (out_flags o') = length (out_values o')"
      "length (out_values o') = n \<or> u \<and> n > 0 \<and> length (out_values o') = 1" by auto
    show ?thesis
    proof (cases "u \<and> length (out_values o') = 1 \<and> n > 1")
      case True
      then obtain f where f: "out_flags o' = [f]" using len(1) by (auto simp: length_Suc_conv)
      with True Inr Finished show ?thesis by (auto simp: finish_task_def broadcast_unary_def)
    next
      case False
      have "length (out_values o') = n" using False len(2) by auto
      then show ?thesis using False len Inr Finished by (auto simp: finish_task_def broadcast_unary_def)
    qed
  qed
qed

theorem finish_task_batch_witness:
  "\<exists>o'. finish_task 3 True (Finished (Inr \<lparr>out_values = [AnyValue (7::nat)], out_flags = [FLAG_NONE]\<rparr>)) = Inr o' \<and>
     length (out_values o') = 3"
  using finish_task_batch [of 3 True "Finished (Inr \<lparr>out_values = [AnyValue (7::nat)], out_flags = [FLAG_NONE]\<rparr>)"]
  by auto

end
