(* ===== verification/Petgraph_Model.thy ===== *)
theory Petgraph_Model
  imports Core_Plan
begin

text \<open>
  A concrete directed graph that satisfies the laws the planner relies on: node weights in a
  vector, edges in a list, removal by swapping in the last node (as the crate documents it),
  and a topological sort that repeatedly takes the first node whose predecessors are all placed.
  It shows that the laws of \<open>petgraph_laws\<close> can hold, and it is the graph the concrete
  examples run on; the theorems themselves hold for every graph that has the laws.
\<close>

record vgraph =
  vg_weights :: "step_id list"
  vg_edges :: "(nat \<times> nat) list"

definition vg_incoming :: "vgraph \<Rightarrow> nat \<Rightarrow> nat list" where
  "vg_incoming g i = map fst (filter (\<lambda>e. snd e = i) (vg_edges g))"

text \<open>The last node takes the index of the removed one.\<close>

definition vg_remove_node :: "vgraph \<Rightarrow> nat \<Rightarrow> vgraph" where
  "vg_remove_node g i =
     (let l = length (vg_weights g) - 1; mv = (\<lambda>k. if k = l then i else k) in
      \<lparr>vg_weights = take l ((vg_weights g)[i := vg_weights g ! l]),
       vg_edges = map (\<lambda>e. (mv (fst e), mv (snd e))) (filter (\<lambda>e. fst e \<noteq> i \<and> snd e \<noteq> i) (vg_edges g))\<rparr>)"

fun place :: "nat \<Rightarrow> (nat \<Rightarrow> nat list) \<Rightarrow> nat list \<Rightarrow> nat list \<Rightarrow> nat list \<times> nat list" where
  "place 0 inc rest acc = (acc, rest)"
| "place (Suc k) inc rest acc =
     (case find (\<lambda>i. list_all (\<lambda>j. j \<in> set acc) (inc i)) rest of
        None \<Rightarrow> (acc, rest)
      | Some i \<Rightarrow> place k inc (remove1 i rest) (acc @ [i]))"

text \<open>When nodes are left over, each has an unplaced predecessor; following those for as many
  steps as there are nodes ends on a cycle.\<close>

definition blocker :: "(nat \<Rightarrow> nat list) \<Rightarrow> nat list \<Rightarrow> nat \<Rightarrow> nat" where
  "blocker inc acc i = the (find (\<lambda>j. j \<notin> set acc) (inc i))"

definition vg_toposort :: "vgraph \<Rightarrow> nat + nat list" where
  "vg_toposort g =
     (let n = length (vg_weights g) in
      case place n (vg_incoming g) [0..<n] [] of
        (acc, []) \<Rightarrow> Inr acc
      | (acc, i # _) \<Rightarrow> Inl ((blocker (vg_incoming g) acc ^^ n) i))"

definition vgraph_ops :: "(vgraph, nat) petgraph" where
  "vgraph_ops =
     \<lparr>g_new = \<lparr>vg_weights = [], vg_edges = []\<rparr>,
      g_add_node = (\<lambda>g w. (g\<lparr>vg_weights := vg_weights g @ [w]\<rparr>, length (vg_weights g))),
      g_add_edge = (\<lambda>g i j. g\<lparr>vg_edges := (i, j) # vg_edges g\<rparr>),
      g_remove_node = vg_remove_node,
      g_clear_edges = (\<lambda>g. g\<lparr>vg_edges := []\<rparr>),
      g_node_indices = (\<lambda>g. [0..<length (vg_weights g)]),
      g_index = (\<lambda>g i. vg_weights g ! i),
      g_incoming = vg_incoming,
      g_toposort = vg_toposort\<rparr>"

definition vgraph_ok :: "vgraph \<Rightarrow> bool" where
  "vgraph_ok g \<longleftrightarrow> list_all (\<lambda>e. fst e < length (vg_weights g) \<and> snd e < length (vg_weights g)) (vg_edges g)"

lemma vg_incoming_iff: "j \<in> set (vg_incoming g i) \<longleftrightarrow> (j, i) \<in> set (vg_edges g)"
  by (force simp: vg_incoming_def)

lemma place_spec:
  assumes "place k inc rest acc = (acc', rest')" and "length rest \<le> k" and "distinct (acc @ rest)"
    and "topo_order (\<lambda>i. set (inc i)) {} acc"
  shows "topo_order (\<lambda>i. set (inc i)) {} acc' \<and> distinct (acc' @ rest') \<and> set (acc' @ rest') = set (acc @ rest) \<and>
    (\<forall>i \<in> set rest'. \<exists>j \<in> set (inc i). j \<notin> set acc')"
  using assms
proof (induction k arbitrary: rest acc)
  case (Suc k)
  let ?f = "find (\<lambda>i. list_all (\<lambda>j. j \<in> set acc) (inc i)) rest"
  show ?case
  proof (cases ?f)
    case None
    then have "acc' = acc" "rest' = rest" using Suc.prems(1) by simp_all
    moreover have "\<exists>j \<in> set (inc i). j \<notin> set acc" if "i \<in> set rest" for i
      using None that by (auto simp: find_None_iff list_all_iff)
    ultimately show ?thesis using Suc.prems(3,4) by simp
  next
    case (Some i)
    then have i: "i \<in> set rest" "set (inc i) \<subseteq> set acc" by (auto simp: find_Some_iff list_all_iff)
    have "place k inc (remove1 i rest) (acc @ [i]) = (acc', rest')" using Some Suc.prems(1) by simp
    moreover have "length (remove1 i rest) \<le> k" using Suc.prems(2) i by (auto simp: length_remove1)
    moreover have "distinct ((acc @ [i]) @ remove1 i rest)" using Suc.prems(3) i by auto
    moreover have "topo_order (\<lambda>i. set (inc i)) {} (acc @ [i])" using Suc.prems(4) i by (simp add: topo_order_append)
    moreover have "set ((acc @ [i]) @ remove1 i rest) = set (acc @ rest)" using Suc.prems(3) i by auto
    ultimately show ?thesis using Suc.IH by metis
  qed
qed auto

text \<open>Iterating a function inside a finite set for as many steps as it has elements reaches a
  point that returns to itself.\<close>

lemma funpow_cycle:
  assumes "finite A" and "\<And>x. x \<in> A \<Longrightarrow> f x \<in> A" and "x \<in> A" and "card A \<le> n"
  shows "\<exists>k > 0. (f ^^ k) ((f ^^ n) x) = (f ^^ n) x"
proof -
  have in_A: "(f ^^ i) x \<in> A" for i by (induction i) (use assms in auto)
  have "\<not> inj_on (\<lambda>i. (f ^^ i) x) {0..n}"
  proof
    assume "inj_on (\<lambda>i. (f ^^ i) x) {0..n}"
    from card_inj_on_le [OF this _ assms(1)] in_A have "card {0..n} \<le> card A" by blast
    then show False using assms(4) by simp
  qed
  then obtain a b where "a \<le> n" "b \<le> n" "a \<noteq> b" "(f ^^ a) x = (f ^^ b) x" by (auto simp: inj_on_def)
  then obtain i j where ij: "i < j" "j \<le> n" "(f ^^ i) x = (f ^^ j) x" by (metis nat_neq_iff)
  have "(f ^^ (j - i)) ((f ^^ n) x) = (f ^^ (n - i)) ((f ^^ j) x)"
    using ij by (simp add: add.commute flip: funpow_add o_apply [of "f ^^ _" "f ^^ _"])
  also have "\<dots> = (f ^^ n) x"
    using ij by (simp flip: ij(3) funpow_add o_apply [of "f ^^ _" "f ^^ _"])
  finally show ?thesis using ij by (intro exI [of _ "j - i"]) simp
qed

lemma funpow_trancl:
  assumes "\<And>x. x \<in> A \<Longrightarrow> f x \<in> A \<and> (f x, x) \<in> R" and "x \<in> A" and "0 < k"
  shows "((f ^^ k) x, x) \<in> R\<^sup>+"
  using assms(3)
proof (induction k)
  case (Suc k)
  have "(f ^^ k) x \<in> A" by (induction k) (use assms in auto)
  then have "((f ^^ Suc k) x, (f ^^ k) x) \<in> R" using assms(1) by simp
  then show ?case using Suc.IH by (cases "k = 0") (auto intro: trancl_into_trancl2)
qed simp

lemma vg_toposort_Inr:
  assumes "vg_toposort g = Inr is"
  shows "distinct is \<and> set is = {0..<length (vg_weights g)} \<and> topo_order (\<lambda>i. set (vg_incoming g i)) {} is"
proof -
  let ?n = "length (vg_weights g)"
  have "place ?n (vg_incoming g) [0..<?n] [] = (is, [])"
    using assms by (auto simp: vg_toposort_def Let_def split: prod.splits list.splits)
  from place_spec [OF this] show ?thesis by simp
qed

lemma vg_toposort_Inl:
  assumes "vgraph_ok g" and "vg_toposort g = Inl c"
  shows "c < length (vg_weights g) \<and> (c, c) \<in> (edge_rel vgraph_ops g)\<^sup>+"
proof -
  let ?n = "length (vg_weights g)" and ?inc = "vg_incoming g"
  obtain acc i rest where p: "place ?n ?inc [0..<?n] [] = (acc, i # rest)"
    and c: "c = (blocker ?inc acc ^^ ?n) i"
    using assms(2) by (auto simp: vg_toposort_def Let_def split: prod.splits list.splits)
  let ?A = "set (i # rest)" and ?f = "blocker ?inc acc"
  from place_spec [OF p] have sp: "distinct (acc @ i # rest)" "set (acc @ i # rest) = {0..<?n}"
    "\<forall>k \<in> ?A. \<exists>j \<in> set (?inc k). j \<notin> set acc" by auto
  have f: "?f k \<in> ?A \<and> (?f k, k) \<in> edge_rel vgraph_ops g" if k: "k \<in> ?A" for k
  proof -
    obtain j where j: "find (\<lambda>j. j \<notin> set acc) (?inc k) = Some j"
      using sp(3) k by (cases "find (\<lambda>j. j \<notin> set acc) (?inc k)") (auto simp: find_None_iff)
    then have jj: "j \<in> set (?inc k)" "j \<notin> set acc" by (auto simp: find_Some_iff)
    then have "j < ?n" using assms(1) by (auto simp: vgraph_ok_def list_all_iff vg_incoming_iff)
    then have "j \<in> set (acc @ i # rest)" using sp(2) by simp
    then have "j \<in> ?A" using jj(2) by simp
    moreover have "k \<in> {0..<?n}" using sp(2) k by auto
    ultimately show ?thesis using j jj by (auto simp: blocker_def edge_rel_def vgraph_ops_def)
  qed
  have "?A \<subseteq> {0..<?n}" using sp(2) by auto
  then have "card ?A \<le> ?n" using card_mono [of "{0..<?n}" ?A] by simp
  then obtain k where k: "k > 0" "(?f ^^ k) c = c"
    using funpow_cycle [of ?A ?f i ?n] f c by auto
  have "(?f ^^ m) i \<in> ?A" for m by (induction m) (use f in auto)
  then have cA: "c \<in> ?A" using c by simp
  with funpow_trancl [of ?A ?f "edge_rel vgraph_ops g" c k] f k have "(c, c) \<in> (edge_rel vgraph_ops g)\<^sup>+" by simp
  moreover have "c \<in> {0..<?n}" using cA \<open>?A \<subseteq> {0..<?n}\<close> by blast
  ultimately show ?thesis by simp
qed

lemma vg_remove_node_spec:
  assumes "vgraph_ok g" and i: "i < length (vg_weights g)"
  defines "l \<equiv> length (vg_weights g) - 1"
  shows "vgraph_ok (vg_remove_node g i)" and "length (vg_weights (vg_remove_node g i)) = l"
    and "bij_betw (\<lambda>k. if k = i then l else k) {0..<l} ({0..<length (vg_weights g)} - {i})"
    and "k < l \<Longrightarrow> vg_weights (vg_remove_node g i) ! k = vg_weights g ! (if k = i then l else k)"
proof -
  show len: "length (vg_weights (vg_remove_node g i)) = l"
    using i by (simp add: vg_remove_node_def Let_def l_def)
  show "vgraph_ok (vg_remove_node g i)"
    using assms(1) i len
    by (fastforce simp: vgraph_ok_def list_all_iff vg_remove_node_def Let_def l_def)
  show "bij_betw (\<lambda>k. if k = i then l else k) {0..<l} ({0..<length (vg_weights g)} - {i})"
    by (rule bij_betw_byWitness [where f' = "\<lambda>k. if k = l then i else k"]) (use i in \<open>auto simp: l_def\<close>)
  show "k < l \<Longrightarrow> vg_weights (vg_remove_node g i) ! k = vg_weights g ! (if k = i then l else k)"
    using i by (auto simp: vg_remove_node_def Let_def l_def nth_list_update)
qed

interpretation vg: petgraph_laws vgraph_ops vgraph_ok
proof unfold_locales
  fix g i
  assume ok: "vgraph_ok g" and "i \<in> set (g_node_indices vgraph_ops g)"
  then have i: "i < length (vg_weights g)" by (simp add: vgraph_ops_def)
  note r = vg_remove_node_spec [OF ok i]
  show "set (g_incoming vgraph_ops g i) \<subseteq> set (g_node_indices vgraph_ops g)"
    using ok by (fastforce simp: vgraph_ops_def vgraph_ok_def list_all_iff vg_incoming_iff)
  show "vgraph_ok (g_remove_node vgraph_ops g i) \<and>
      (\<exists>f. bij_betw f (set (g_node_indices vgraph_ops (g_remove_node vgraph_ops g i)))
            (set (g_node_indices vgraph_ops g) - {i}) \<and>
           (\<forall>k \<in> set (g_node_indices vgraph_ops (g_remove_node vgraph_ops g i)).
              g_index vgraph_ops (g_remove_node vgraph_ops g i) k = g_index vgraph_ops g (f k)))"
    using r by (intro conjI exI [of _ "\<lambda>k. if k = i then length (vg_weights g) - 1 else k"]) (simp_all add: vgraph_ops_def)
next
  fix g "is"
  assume "g_toposort vgraph_ops g = Inr is"
  then show "distinct is \<and> set is = set (g_node_indices vgraph_ops g) \<and>
      topo_order (\<lambda>i. set (g_incoming vgraph_ops g i)) {} is"
    using vg_toposort_Inr [of g "is"] by (simp add: vgraph_ops_def)
next
  fix g c
  assume "vgraph_ok g" "g_toposort vgraph_ops g = Inl c"
  then show "c \<in> set (g_node_indices vgraph_ops g) \<and> (c, c) \<in> (edge_rel vgraph_ops g)\<^sup>+"
    using vg_toposort_Inl [of g c] by (simp add: vgraph_ops_def)
next
  fix g i j
  show "vgraph_ok g \<Longrightarrow> i \<in> set (g_node_indices vgraph_ops g) \<Longrightarrow> j \<in> set (g_node_indices vgraph_ops g) \<Longrightarrow>
      vgraph_ok (g_add_edge vgraph_ops g i j) \<and>
      g_node_indices vgraph_ops (g_add_edge vgraph_ops g i j) = g_node_indices vgraph_ops g \<and>
      g_index vgraph_ops (g_add_edge vgraph_ops g i j) = g_index vgraph_ops g \<and>
      set (g_incoming vgraph_ops (g_add_edge vgraph_ops g i j) j) = insert i (set (g_incoming vgraph_ops g j)) \<and>
      (\<forall>k. k \<noteq> j \<longrightarrow> g_incoming vgraph_ops (g_add_edge vgraph_ops g i j) k = g_incoming vgraph_ops g k)"
    by (auto simp: vgraph_ops_def vgraph_ok_def list_all_iff vg_incoming_def)
next
  fix g w g' i
  show "vgraph_ok g \<Longrightarrow> g_add_node vgraph_ops g w = (g', i) \<Longrightarrow>
      vgraph_ok g' \<and> i \<notin> set (g_node_indices vgraph_ops g) \<and>
      set (g_node_indices vgraph_ops g') = insert i (set (g_node_indices vgraph_ops g)) \<and>
      g_index vgraph_ops g' i = w \<and> g_incoming vgraph_ops g' i = [] \<and>
      (\<forall>j \<in> set (g_node_indices vgraph_ops g).
         g_index vgraph_ops g' j = g_index vgraph_ops g j \<and> g_incoming vgraph_ops g' j = g_incoming vgraph_ops g j)"
    by (auto simp: vgraph_ops_def vgraph_ok_def list_all_iff vg_incoming_def nth_append filter_empty_conv) force+
qed (auto simp: vgraph_ops_def vgraph_ok_def vg_incoming_def)

end
