(* ===== verification/Core_Pipeline.thy ===== *)
theory Core_Pipeline
  imports Core_Executor Petgraph_Model
begin

text \<open>
  The planner, the optimizer and the executor of \<^verbatim>\<open>magna-core\<close> together: the outputs of the
  optimized plan, read through the remap table, are the outputs the registered steps denote.
\<close>

section \<open>Deduplication preserves meaning\<close>

text \<open>The reliance stated in \<^verbatim>\<open>optimizer.rs\<close>: steps of one type with the same configuration hash
  compute the same function.\<close>

definition faithful_fingerprints :: "('c, 'v) exec_step list \<Rightarrow> bool" where
  "faithful_fingerprints ss \<longleftrightarrow>
     (\<forall>s \<in> set ss. \<forall>t \<in> set ss.
        fp_type_id (st_fingerprint s) = fp_type_id (st_fingerprint t) \<longrightarrow>
        fp_config_hash (st_fingerprint s) = fp_config_hash (st_fingerprint t) \<longrightarrow>
        st_unary s = st_unary t \<and> st_execute s = st_execute t)"

definition same_function :: "('c, 'v) step_map \<Rightarrow> bool" where
  "same_function sm \<longleftrightarrow>
     (\<forall>x y s t remap. sm x = Some s \<longrightarrow> sm y = Some t \<longrightarrow>
        remapped_fingerprint remap s = remapped_fingerprint remap t \<longrightarrow>
        st_unary s = st_unary t \<and> st_execute s = st_execute t)"

lemma faithful_same_function:
  "distinct (map st_id ss) \<Longrightarrow> faithful_fingerprints ss \<Longrightarrow> same_function (step_map_of ss)"
  by (auto simp: same_function_def faithful_fingerprints_def step_map_of_Some remapped_fingerprint_def)

lemma same_step_value:
  assumes "same_function sm" and "sm x = Some s" and "sm y = Some t"
    and "remapped_fingerprint remap s = remapped_fingerprint remap t"
  shows "step_value ctx n s = step_value ctx n t"
    and "map (resolve remap) (st_deps s) = map (resolve remap) (st_deps t)"
proof -
  have "st_unary s = st_unary t" "st_execute s = st_execute t"
    using assms unfolding same_function_def by blast+
  then show "step_value ctx n s = step_value ctx n t" by (intro ext) (simp add: step_value_def split: option.split)
  show "map (resolve remap) (st_deps s) = map (resolve remap) (st_deps t)"
    using assms(4) by (simp add: remapped_fingerprint_def)
qed

lemma inputs_of_map: "inputs_of \<rho> outs s = map (\<lambda>d. the (outs d)) (map \<rho> (st_deps s))"
  by (simp add: inputs_of_def)

text \<open>A partial solution of the deduplicated plan extends to the plan as registered.\<close>

definition expand :: "('c, 'v) step_map \<Rightarrow> remap_table \<Rightarrow> 'v outputs \<Rightarrow> 'v outputs" where
  "expand sm remap outs x = (if x \<in> dom sm then outs (resolve remap x) else None)"

lemma solved_expand:
  assumes inv: "dedup_inv sm (dom sm) (seen, remap, rm)" and same: "same_function sm"
    and sol: "solved ctx n (resolve remap) (sm |` {x. canonical remap x}) X outs"
  shows "solved ctx n id sm {x \<in> dom sm. resolve remap x \<in> X} (expand sm remap outs)"
    and "\<And>x s. sm x = Some s \<Longrightarrow> inputs_of id (expand sm remap outs) s = inputs_of (resolve remap) outs s"
proof -
  note D = dedup_invD [OF inv]
  have dom: "dom outs = X" "X \<subseteq> dom sm \<inter> {x. canonical remap x}" using sol by (simp_all add: solved_def)
  have val: "resolve remap ` set (st_deps s) \<subseteq> X \<and> step_value ctx n s (inputs_of (resolve remap) outs s) = Inr (the (outs x))"
    if "sm x = Some s" "x \<in> X" for x s
  proof -
    have "canonical remap x" using that(2) dom(2) by blast
    then have "(sm |` {x. canonical remap x}) x = Some s" using that(1) by simp
    then show ?thesis using solvedD(3,4) [OF sol that(2)] by simp
  qed
  have deps: "set (st_deps s) \<subseteq> dom sm" if s: "sm x = Some s" for x s
    using D(2) [of x] s by (auto simp: declared_deps_def)
  show ins: "inputs_of id (expand sm remap outs) s = inputs_of (resolve remap) outs s" if s: "sm x = Some s" for x s
  proof (rule inputs_of_cong)
    fix d assume "d \<in> set (st_deps s)"
    then have "d \<in> dom sm" using deps [OF s] by blast
    then show "expand sm remap outs (id d) = outs (resolve remap d)" by (simp add: expand_def)
  qed
  have each: "resolve remap ` set (st_deps s) \<subseteq> X \<and>
      step_value ctx n s (inputs_of (resolve remap) outs s) = Inr (the (outs (resolve remap x)))"
    if s: "sm x = Some s" "resolve remap x \<in> X" for x s
  proof (cases "map_of remap x")
    case None
    with val [OF s(1)] s(2) show ?thesis by (simp add: resolve_def)
  next
    case (Some c)
    obtain t where t: "sm c = Some t" using D(6) [OF Some] by auto
    have "remapped_fingerprint remap s = remapped_fingerprint remap t" using D(8) [OF Some] s t by simp
    note st = same_step_value [OF same s(1) t this]
    have "resolve remap ` set (st_deps s) = resolve remap ` set (st_deps t)" using st(2) by (metis set_map)
    moreover have "inputs_of (resolve remap) outs s = inputs_of (resolve remap) outs t"
      using st(2) by (simp only: inputs_of_map)
    ultimately show ?thesis using val [OF t] s(2) Some st(1) by (simp add: resolve_def)
  qed
  have "dom (expand sm remap outs) = {x \<in> dom sm. resolve remap x \<in> X}"
    using dom(1) by (auto simp: expand_def split: if_splits)
  moreover have "id ` set (st_deps s) \<subseteq> {x \<in> dom sm. resolve remap x \<in> X} \<and>
      step_value ctx n s (inputs_of id (expand sm remap outs) s) = Inr (the (expand sm remap outs x))"
    if "x \<in> {x \<in> dom sm. resolve remap x \<in> X}" "sm x = Some s" for x s
    using that each [OF that(2)] ins [OF that(2)] deps [OF that(2)] by (auto simp: expand_def)
  ultimately show "solved ctx n id sm {x \<in> dom sm. resolve remap x \<in> X} (expand sm remap outs)"
    unfolding solved_def by blast
qed

lemma fails_on_expand:
  assumes inv: "dedup_inv sm (dom sm) (seen, remap, rm)" and same: "same_function sm"
    and f: "fails_on ctx n (resolve remap) (sm |` {x. canonical remap x}) e"
  shows "fails_on ctx n id sm e"
proof -
  from f obtain X outs x s where f: "solved ctx n (resolve remap) (sm |` {x. canonical remap x}) X outs"
    "(sm |` {x. canonical remap x}) x = Some s" "resolve remap ` set (st_deps s) \<subseteq> X"
    "step_value ctx n s (inputs_of (resolve remap) outs s) = Inl e"
    unfolding fails_on_def by blast
  note ex = solved_expand [OF inv same f(1)]
  have s: "sm x = Some s" using f(2) by (auto simp: restrict_map_def split: if_splits)
  have "set (st_deps s) \<subseteq> dom sm"
    using dedup_invD(2) [OF inv, of x] s by (auto simp: declared_deps_def)
  then have "id ` set (st_deps s) \<subseteq> {x \<in> dom sm. resolve remap x \<in> X}" using f(3) by auto
  moreover have "step_value ctx n s (inputs_of id (expand sm remap outs) s) = Inl e"
    using f(4) ex(2) [OF s] by simp
  ultimately show ?thesis using ex(1) s unfolding fails_on_def by blast
qed

text \<open>Solutions are unique: the value of a step is determined by its dependencies'.\<close>

lemma solved_agree:
  assumes "topo_order (\<lambda>x. \<rho> ` declared_deps sm x) D xs" and "dom sm \<subseteq> D \<union> set xs"
    and "\<And>x. x \<in> D \<Longrightarrow> x \<in> X \<Longrightarrow> a x = b x"
    and a: "solved ctx n \<rho> sm X a" and b: "solves ctx n \<rho> sm b"
  shows "x \<in> X \<Longrightarrow> a x = b x"
  using assms(1-3)
proof (induction xs arbitrary: D x)
  case Nil
  then have "x \<in> D" using solvedD(2) [OF a] by auto
  then show ?case using Nil.prems by blast
next
  case (Cons y ys)
  have "a y = b y" if y: "y \<in> X"
  proof -
    obtain s where s: "sm y = Some s" using a y by (auto simp: solved_def)
    have cl: "\<rho> ` set (st_deps s) \<subseteq> X" and va: "step_value ctx n s (inputs_of \<rho> a s) = Inr (the (a y))"
      using a y s by (auto simp: solved_def)
    have vb: "step_value ctx n s (inputs_of \<rho> b s) = Inr (the (b y))" using b s by (auto simp: solves_def)
    have "inputs_of \<rho> a s = inputs_of \<rho> b s"
    proof (rule inputs_of_cong)
      fix d assume d: "d \<in> set (st_deps s)"
      then have "\<rho> d \<in> D" using Cons.prems(2) s by (auto simp: declared_deps_def)
      then show "a (\<rho> d) = b (\<rho> d)" using Cons.prems(4) cl d by blast
    qed
    moreover have "y \<in> dom a" "y \<in> dom b" using a b y s by (auto simp: solved_def solves_def)
    ultimately show ?thesis using va vb by auto
  qed
  moreover have "topo_order (\<lambda>x. \<rho> ` declared_deps sm x) (insert y D) ys" "dom sm \<subseteq> insert y D \<union> set ys"
    using Cons.prems by auto
  ultimately show ?case using Cons.IH [of x "insert y D"] Cons.prems(1,4) by blast
qed

lemma solves_solved:
  "solves ctx n \<rho> sm outs \<Longrightarrow> deps_closed \<rho> sm \<Longrightarrow> solved ctx n \<rho> sm (dom sm) outs"
  by (auto simp: solves_def solved_def deps_closed_def)

lemma solves_unique:
  assumes "topo_order (\<lambda>x. \<rho> ` declared_deps sm x) {} xs" and "dom sm \<subseteq> set xs" and "deps_closed \<rho> sm"
    and a: "solves ctx n \<rho> sm a" and b: "solves ctx n \<rho> sm b"
  shows "a = b"
proof
  fix x
  show "a x = b x"
  proof (cases "x \<in> dom sm")
    case True
    then show ?thesis
      using solved_agree [OF assms(1) _ _ solves_solved [OF a assms(3)] b] assms(2) by auto
  next
    case False
    then have "x \<notin> dom a" "x \<notin> dom b" using a b by (simp_all add: solves_def)
    then show ?thesis by (simp add: domIff)
  qed
qed

lemma fails_on_unsolvable:
  assumes "topo_order (\<lambda>x. \<rho> ` declared_deps sm x) {} xs" and "dom sm \<subseteq> set xs"
    and "fails_on ctx n \<rho> sm e"
  shows "\<not> solves ctx n \<rho> sm ref"
proof
  assume ref: "solves ctx n \<rho> sm ref"
  from assms(3) obtain X outs x s where f: "solved ctx n \<rho> sm X outs" "sm x = Some s"
    "\<rho> ` set (st_deps s) \<subseteq> X" "step_value ctx n s (inputs_of \<rho> outs s) = Inl e"
    unfolding fails_on_def by blast
  have "inputs_of \<rho> outs s = inputs_of \<rho> ref s"
    by (rule inputs_of_cong, rule solved_agree [OF assms(1) _ _ f(1) ref]) (use assms(2) f(3) in auto)
  with f ref show False by (auto simp: solves_def)
qed

section \<open>Planning\<close>

text \<open>A fixed enumeration of the keys of a finite map.\<close>

definition sorted_keys :: "('c, 'v) step_map \<Rightarrow> step_id list" where
  "sorted_keys m = sorted_list_of_set (dom m)"

interpretation sk: hash_keys sorted_keys
  by unfold_locales (simp_all add: sorted_keys_def)

text \<open>Three example steps, the second a duplicate of the first, the third depending on both.\<close>

definition const_step :: "step_id \<Rightarrow> (nat, nat) exec_step" where
  "const_step i = \<lparr>st_id = i, st_deps = [], st_unary = True,
     st_fingerprint = \<lparr>fp_type_id = 0, fp_dep_ids = [], fp_config_hash = 7\<rparr>,
     st_execute = (\<lambda>c ins. Finished (Inr (from_values [AnyValue c])))\<rparr>"

definition pair_step :: "step_id \<Rightarrow> step_id list \<Rightarrow> (nat, nat) exec_step" where
  "pair_step i ds = \<lparr>st_id = i, st_deps = ds, st_unary = False,
     st_fingerprint = \<lparr>fp_type_id = 1, fp_dep_ids = ds, fp_config_hash = 9\<rparr>,
     st_execute = (\<lambda>c ins. Finished (Inr (from_values (concat (map out_values ins)))))\<rparr>"

definition example_planner :: "(nat, nat) planner" where
  "example_planner = register (register (register (planner_new 2) (const_step 1)) (const_step 2)) (pair_step 3 [1, 2])"

lemmas example_defs = example_planner_def register_def planner_new_def const_step_def pair_step_def

lemma example_ids: "distinct (map st_id (pl_steps example_planner))"
  by (simp add: example_defs)

lemma example_faithful: "faithful_fingerprints (pl_steps example_planner)"
  by (auto simp: faithful_fingerprints_def example_defs)

lemma example_build: "\<exists>plan. planner_build vgraph_ops example_planner = Inr plan"
proof -
  have "case planner_build vgraph_ops example_planner of Inr _ \<Rightarrow> True | Inl _ \<Rightarrow> False" by code_simp
  then show ?thesis by (simp split: sum.splits)
qed

text \<open>C3: planning has exactly three outcomes. A dependency on an unregistered step is reported
  as \<^verbatim>\<open>StepNotFound\<close> with the first such dependency in registration order; otherwise a
  cyclic dependency relation is reported as \<^verbatim>\<open>PlanCycle\<close> naming a step on a cycle; otherwise
  the plan holds exactly the registered steps, its node map is the inverse of the graph's
  weights and its edges are exactly the declared dependencies.\<close>

theorem planner_build_outcome:
  assumes "petgraph_laws G ok" and "distinct (map st_id (pl_steps p))"
  shows "case missing_dep (pl_steps p) of
      Some d \<Rightarrow> planner_build G p = Inl (Fail (StepNotFound d))
    | None \<Rightarrow>
        if acyclic (dep_rel (pl_steps p))
        then \<exists>plan. planner_build G p = Inr plan \<and> plan_inv ok G plan \<and> edges_match G id plan \<and>
               ep_steps plan = step_map_of (pl_steps p) \<and> ep_batch_size plan = pl_batch_size p
        else \<exists>c. planner_build G p = Inl (Fail (PlanCycle [c])) \<and> (c, c) \<in> (dep_rel (pl_steps p))\<^sup>+"
proof -
  note laws = assms(1) and ids = assms(2)
  show ?thesis
  proof (cases "missing_dep (pl_steps p)")
    case (Some d)
    then show ?thesis using petgraph_laws.planner_build_missing [OF laws ids] by simp
  next
    case None
    show ?thesis
    proof (cases "planner_build G p")
      case (Inl e)
      with petgraph_laws.planner_build_cycle [OF laws ids None]
      obtain c where c: "e = Fail (PlanCycle [c])" "(c, c) \<in> (dep_rel (pl_steps p))\<^sup>+" by blast
      then have "\<not> acyclic (dep_rel (pl_steps p))" by (auto simp: acyclic_def)
      with None Inl c show ?thesis by auto
    next
      case (Inr plan)
      note pl = petgraph_laws.planner_build_plan [OF laws ids Inr]
      with None Inr show ?thesis by simp
    qed
  qed
qed

theorem planner_build_outcome_witness:
  "case missing_dep (pl_steps example_planner) of
      Some d \<Rightarrow> planner_build vgraph_ops example_planner = Inl (Fail (StepNotFound d))
    | None \<Rightarrow>
        if acyclic (dep_rel (pl_steps example_planner))
        then \<exists>plan. planner_build vgraph_ops example_planner = Inr plan \<and>
               plan_inv vgraph_ok vgraph_ops plan \<and> edges_match vgraph_ops id plan \<and>
               ep_steps plan = step_map_of (pl_steps example_planner) \<and>
               ep_batch_size plan = pl_batch_size example_planner
        else \<exists>c. planner_build vgraph_ops example_planner = Inl (Fail (PlanCycle [c])) \<and>
               (c, c) \<in> (dep_rel (pl_steps example_planner))\<^sup>+"
  using planner_build_outcome [OF vg.petgraph_laws_axioms example_ids] .

section \<open>Optimizing\<close>

text \<open>Everything the optimizer promises of a freshly built plan, gathered for the properties.\<close>

lemma optimize_built:
  assumes laws: "petgraph_laws G ok" and keys: "hash_keys keys_of"
    and ids: "distinct (map st_id (pl_steps p))" and built: "planner_build G p = Inr plan"
  obtains opt seen rm order0 where "optimize G keys_of plan = Inr opt"
    and "plan_inv ok G (op_plan opt)" and "edges_match G (resolve (op_remap opt)) (op_plan opt)"
    and "deps_closed (resolve (op_remap opt)) (ep_steps (op_plan opt))"
    and "ep_steps (op_plan opt) = step_map_of (pl_steps p) |` {x. canonical (op_remap opt) x}"
    and "ep_batch_size (op_plan opt) = pl_batch_size p"
    and "dedup_inv (step_map_of (pl_steps p)) (dom (step_map_of (pl_steps p))) (seen, op_remap opt, rm)"
    and "distinct (op_execution_order opt)"
    and "set (op_execution_order opt) = dom (ep_steps (op_plan opt))"
    and "topo_order (\<lambda>x. set (dependencies_of G (op_plan opt) x)) {} (op_execution_order opt)"
    and "topo_order (declared_deps (step_map_of (pl_steps p))) {} order0"
    and "set order0 = dom (step_map_of (pl_steps p))"
proof -
  note pl = petgraph_laws.planner_build_plan [OF laws ids built]
  note miss = petgraph_laws.planner_build_cycle [OF laws ids]
  have kk: "finite (dom m) \<Longrightarrow> distinct (keys_of m) \<and> set (keys_of m) = dom m" for m
    using hash_keys.keys_of_distinct [OF keys] hash_keys.keys_of_dom [OF keys] by blast
  obtain order where order: "topological_sort G plan = Inr order"
    using petgraph_laws.planner_build_sorts [OF laws built] by blast
  note t = petgraph_laws.topological_sort_ok [OF laws pl(1) order]
  have "topo_order (declared_deps (step_map_of (pl_steps p))) {} order"
    by (rule topo_order_cong [OF t(3)])
      (use petgraph_laws.edges_match_declared [OF laws pl(2)] t(2) pl(4) in auto)
  with petgraph_laws.optimize_ok [OF laws pl(1,2,3) order kk] t(2) that show thesis
    unfolding pl(4,5) by metis
qed

text \<open>C14: deduplication. The optimizer never panics on a plan the planner accepted. Every step it
  removes is remapped, in one hop, to a step that survives and has the same type, the same
  configuration hash and the same remapped dependencies; the surviving steps are the others,
  unchanged; no two of them share a remapped fingerprint; and the rebuilt edges are the
  declared dependencies read through the remap.\<close>

theorem optimize_dedup:
  assumes "petgraph_laws G ok" and "hash_keys keys_of" and "distinct (map st_id (pl_steps p))"
    and "planner_build G p = Inr plan"
  shows "\<exists>opt. optimize G keys_of plan = Inr opt \<and>
    (\<forall>x c. map_of (op_remap opt) x = Some c \<longrightarrow>
       x \<in> dom (ep_steps plan) \<and> ep_steps (op_plan opt) x = None \<and> ep_steps (op_plan opt) c = ep_steps plan c \<and>
       c \<in> dom (ep_steps plan) \<and> resolve (op_remap opt) c = c \<and>
       remapped_fingerprint (op_remap opt) (the (ep_steps plan x)) =
         remapped_fingerprint (op_remap opt) (the (ep_steps plan c))) \<and>
    (\<forall>x. map_of (op_remap opt) x = None \<longrightarrow> ep_steps (op_plan opt) x = ep_steps plan x) \<and>
    inj_on (\<lambda>x. remapped_fingerprint (op_remap opt) (the (ep_steps plan x))) (dom (ep_steps (op_plan opt))) \<and>
    edges_match G (resolve (op_remap opt)) (op_plan opt)"
proof -
  note steps = petgraph_laws.planner_build_plan(4) [OF assms(1,3,4)]
  obtain opt seen rm order0 where o: "optimize G keys_of plan = Inr opt"
      "edges_match G (resolve (op_remap opt)) (op_plan opt)"
      "ep_steps (op_plan opt) = ep_steps plan |` {x. canonical (op_remap opt) x}"
      "dedup_inv (ep_steps plan) (dom (ep_steps plan)) (seen, op_remap opt, rm)"
    by (rule optimize_built [OF assms]) (use steps in auto)
  note D = dedup_invD [OF o(4)]
  have "inj_on (\<lambda>x. remapped_fingerprint (op_remap opt) (the (ep_steps plan x))) (dom (ep_steps (op_plan opt)))"
  proof (rule inj_onI)
    fix x y
    assume xy: "x \<in> dom (ep_steps (op_plan opt))" "y \<in> dom (ep_steps (op_plan opt))"
      and fp: "remapped_fingerprint (op_remap opt) (the (ep_steps plan x)) =
        remapped_fingerprint (op_remap opt) (the (ep_steps plan y))"
    let ?fp = "remapped_fingerprint (op_remap opt) (the (ep_steps plan y))"
    have "seen ?fp = Some x" using D(9) [of ?fp x] xy fp o(3) by auto
    moreover have "seen ?fp = Some y" using D(9) [of ?fp y] xy o(3) by auto
    ultimately show "x = y" by simp
  qed
  moreover have "x \<in> dom (ep_steps plan) \<and> ep_steps (op_plan opt) x = None \<and>
      ep_steps (op_plan opt) c = ep_steps plan c \<and> c \<in> dom (ep_steps plan) \<and> resolve (op_remap opt) c = c \<and>
      remapped_fingerprint (op_remap opt) (the (ep_steps plan x)) =
        remapped_fingerprint (op_remap opt) (the (ep_steps plan c))" if "map_of (op_remap opt) x = Some c" for x c
    using D(4) D(6,7,8) [OF that] that o(3) resolve_canonical by (auto simp: canonical_def)
  moreover have "ep_steps (op_plan opt) x = ep_steps plan x" if "map_of (op_remap opt) x = None" for x
    using that o(3) by (simp add: canonical_def)
  ultimately show ?thesis using o(1,2) by blast
qed

theorem optimize_dedup_witness:
  "\<exists>plan opt. optimize vgraph_ops sorted_keys plan = Inr opt \<and>
     planner_build vgraph_ops example_planner = Inr plan \<and>
     (\<forall>x. map_of (op_remap opt) x = None \<longrightarrow> ep_steps (op_plan opt) x = ep_steps plan x)"
proof -
  obtain plan where plan: "planner_build vgraph_ops example_planner = Inr plan" using example_build by blast
  from optimize_dedup [OF vg.petgraph_laws_axioms sk.hash_keys_axioms example_ids plan] plan show ?thesis by blast
qed

text \<open>C15: the execution order lists every surviving step once, and every step after all the
  steps its dependencies resolve to, so nothing runs before what it reads.\<close>

theorem execution_order_topological:
  assumes "petgraph_laws G ok" and "hash_keys keys_of" and "distinct (map st_id (pl_steps p))"
    and "planner_build G p = Inr plan"
  shows "\<exists>opt. optimize G keys_of plan = Inr opt \<and> distinct (op_execution_order opt) \<and>
    set (op_execution_order opt) = dom (ep_steps (op_plan opt)) \<and>
    (\<forall>x s d. ep_steps (op_plan opt) x = Some s \<longrightarrow> d \<in> set (st_deps s) \<longrightarrow>
       comes_before (op_execution_order opt) (resolve (op_remap opt) d) x)"
proof -
  obtain opt seen rm order0 where o: "optimize G keys_of plan = Inr opt"
      "edges_match G (resolve (op_remap opt)) (op_plan opt)" "distinct (op_execution_order opt)"
      "set (op_execution_order opt) = dom (ep_steps (op_plan opt))"
      "topo_order (\<lambda>x. set (dependencies_of G (op_plan opt) x)) {} (op_execution_order opt)"
    by (rule optimize_built [OF assms])
  have "comes_before (op_execution_order opt) (resolve (op_remap opt) d) x"
    if "ep_steps (op_plan opt) x = Some s" "d \<in> set (st_deps s)" for x s d
  proof (rule topo_order_comes_before [OF o(5)])
    show "x \<in> set (op_execution_order opt)" using o(4) that by auto
    show "resolve (op_remap opt) d \<in> set (dependencies_of G (op_plan opt) x)"
      using o(2) that by (auto simp: edges_match_def)
  qed
  with o show ?thesis by blast
qed

theorem execution_order_topological_witness:
  "\<exists>plan opt. planner_build vgraph_ops example_planner = Inr plan \<and>
     optimize vgraph_ops sorted_keys plan = Inr opt \<and> distinct (op_execution_order opt)"
proof -
  obtain plan where plan: "planner_build vgraph_ops example_planner = Inr plan" using example_build by blast
  from execution_order_topological [OF vg.petgraph_laws_axioms sk.hash_keys_axioms example_ids plan] plan
  show ?thesis by blast
qed

section \<open>Executing\<close>

text \<open>The pipeline, with the domains of the remap table and of the outputs.\<close>

lemma optimize_execute:
  assumes "petgraph_laws G ok" and "hash_keys keys_of" and "distinct (map st_id (pl_steps p))"
    and "planner_build G p = Inr plan" and "faithful_fingerprints (pl_steps p)"
  shows "\<exists>opt. optimize G keys_of plan = Inr opt \<and> dom (map_of (op_remap opt)) \<subseteq> st_id ` set (pl_steps p) \<and>
    (case execute G ctx opt of
       Inr outs \<Rightarrow>
         dom outs \<subseteq> st_id ` set (pl_steps p) \<and>
         (\<forall>ref. solves ctx (pl_batch_size p) id (step_map_of (pl_steps p)) ref \<longleftrightarrow>
                ref = expand (step_map_of (pl_steps p)) (op_remap opt) outs)
     | Inl e \<Rightarrow>
         fails_on ctx (pl_batch_size p) id (step_map_of (pl_steps p)) e \<and>
         (\<forall>ref. \<not> solves ctx (pl_batch_size p) id (step_map_of (pl_steps p)) ref))"
proof -
  let ?sm = "step_map_of (pl_steps p)" and ?n = "pl_batch_size p"
  obtain opt seen rm order0 where o: "optimize G keys_of plan = Inr opt"
      "plan_inv ok G (op_plan opt)" "edges_match G (resolve (op_remap opt)) (op_plan opt)"
      "deps_closed (resolve (op_remap opt)) (ep_steps (op_plan opt))"
      "ep_steps (op_plan opt) = ?sm |` {x. canonical (op_remap opt) x}" "ep_batch_size (op_plan opt) = ?n"
      "dedup_inv ?sm (dom ?sm) (seen, op_remap opt, rm)" "distinct (op_execution_order opt)"
      "set (op_execution_order opt) = dom (ep_steps (op_plan opt))"
      "topo_order (\<lambda>x. set (dependencies_of G (op_plan opt) x)) {} (op_execution_order opt)"
      "topo_order (declared_deps ?sm) {} order0" "set order0 = dom ?sm"
    by (rule optimize_built [OF assms(1-4)])
  note same = faithful_same_function [OF assms(3,5)] and D = dedup_invD [OF o(7)]
  have topo: "topo_order (\<lambda>x. id ` declared_deps ?sm x) {} order0" using o(11) by simp
  have all: "{x \<in> dom ?sm. resolve (op_remap opt) x \<in> dom (ep_steps (op_plan opt))} = dom ?sm"
  proof -
    have "resolve (op_remap opt) x \<in> dom (ep_steps (op_plan opt))" if "x \<in> dom ?sm" for x
      using that D(6,7) [of x] unfolding o(5)
      by (cases "map_of (op_remap opt) x") (auto simp: resolve_def canonical_def)
    then show ?thesis by blast
  qed
  note ex = execute_ok [OF o(2,3,8,9,10), of ctx, unfolded o(6)]
  have "case execute G ctx opt of
       Inr outs \<Rightarrow> dom outs \<subseteq> dom ?sm \<and> (\<forall>ref. solves ctx ?n id ?sm ref \<longleftrightarrow> ref = expand ?sm (op_remap opt) outs)
     | Inl e \<Rightarrow> fails_on ctx ?n id ?sm e \<and> (\<forall>ref. \<not> solves ctx ?n id ?sm ref)"
  proof (cases "execute G ctx opt")
    case (Inr outs)
    with ex have "solves ctx ?n (resolve (op_remap opt)) (ep_steps (op_plan opt)) outs" by auto
    then have sol: "solved ctx ?n (resolve (op_remap opt)) (ep_steps (op_plan opt)) (dom (ep_steps (op_plan opt))) outs"
      by (rule solves_solved [OF _ o(4)])
    have "solved ctx ?n id ?sm (dom ?sm) (expand ?sm (op_remap opt) outs)"
      using solved_expand(1) [OF o(7) same sol [unfolded o(5)]] all unfolding o(5) by simp
    then have "solves ctx ?n id ?sm (expand ?sm (op_remap opt) outs)" by (rule solved_solves)
    moreover have "deps_closed id ?sm" using D(2) by (fastforce simp: deps_closed_def declared_deps_def)
    moreover have "dom outs \<subseteq> dom ?sm" using solvedD(1) [OF sol] unfolding o(5) by simp
    ultimately show ?thesis using Inr solves_unique [OF topo _ _] o(12) by auto
  next
    case (Inl e)
    with ex have "fails_on ctx ?n (resolve (op_remap opt)) (ep_steps (op_plan opt)) e" by auto
    then have f: "fails_on ctx ?n id ?sm e" unfolding o(5) by (rule fails_on_expand [OF o(7) same])
    then show ?thesis using Inl fails_on_unsolvable [OF topo _ f] o(12) by simp
  qed
  with o(1) D(4) show ?thesis unfolding dom_step_map_of by blast
qed

text \<open>C1: optimizing does not change results. For a plan whose fingerprints are faithful, running
  the optimized plan either succeeds, and then its outputs read through the remap table are
  the one and only solution of the steps as registered (each step's output is the value of
  its own inputs, unoptimized), or it fails with an error that a step of the registered plan
  produces on its own inputs, and then the registered steps have no solution either.\<close>

theorem optimize_execute_sound:
  assumes "petgraph_laws G ok" and "hash_keys keys_of" and "distinct (map st_id (pl_steps p))"
    and "planner_build G p = Inr plan" and "faithful_fingerprints (pl_steps p)"
  shows "\<exists>opt. optimize G keys_of plan = Inr opt \<and>
    (case execute G ctx opt of
       Inr outs \<Rightarrow>
         (\<forall>ref. solves ctx (pl_batch_size p) id (step_map_of (pl_steps p)) ref \<longleftrightarrow>
                ref = expand (step_map_of (pl_steps p)) (op_remap opt) outs)
     | Inl e \<Rightarrow>
         fails_on ctx (pl_batch_size p) id (step_map_of (pl_steps p)) e \<and>
         (\<forall>ref. \<not> solves ctx (pl_batch_size p) id (step_map_of (pl_steps p)) ref))"
  using optimize_execute [OF assms, of ctx] by (auto split: sum.splits)

theorem optimize_execute_sound_witness:
  "\<exists>plan opt. planner_build vgraph_ops example_planner = Inr plan \<and>
     optimize vgraph_ops sorted_keys plan = Inr opt \<and>
     (case execute vgraph_ops 5 opt of
       Inr outs \<Rightarrow>
         (\<forall>ref. solves 5 2 id (step_map_of (pl_steps example_planner)) ref \<longleftrightarrow>
                ref = expand (step_map_of (pl_steps example_planner)) (op_remap opt) outs)
     | Inl e \<Rightarrow>
         fails_on 5 2 id (step_map_of (pl_steps example_planner)) e \<and>
         (\<forall>ref. \<not> solves 5 2 id (step_map_of (pl_steps example_planner)) ref))"
proof -
  obtain plan where plan: "planner_build vgraph_ops example_planner = Inr plan" using example_build by blast
  have n: "pl_batch_size example_planner = 2" by (simp add: example_defs)
  show ?thesis
    using optimize_execute_sound [OF vg.petgraph_laws_axioms sk.hash_keys_axioms example_ids plan example_faithful, of 5]
    unfolding n by (intro exI [of _ plan]) (use plan in blast)
qed

text \<open>A step whose tasks always join and whose successful outputs carry a flag per value.\<close>

definition well_behaved :: "'c \<Rightarrow> ('c, 'v) exec_step \<Rightarrow> bool" where
  "well_behaved ctx s \<longleftrightarrow>
     (\<forall>ins. case st_execute s ctx ins of
        JoinFailed _ \<Rightarrow> False
      | Finished (Inl _) \<Rightarrow> True
      | Finished (Inr o') \<Rightarrow> length (out_flags o') = length (out_values o'))"

lemma finish_task_well_behaved:
  "well_behaved ctx s \<Longrightarrow> \<exists>o'. finish_task n (st_unary s) (st_execute s ctx ins) = Inr o'"
  unfolding well_behaved_def
  by (drule spec [of _ ins])
    (auto simp: finish_task_def broadcast_unary_def split: task_result.splits sum.splits list.splits)

text \<open>C7: execution is total on well-behaved steps. Errors a step returns become error batches,
  never an error of the whole run, and the run ends with an output for exactly the surviving
  steps: neither a panic nor the \<^verbatim>\<open>produced no output\<close> error can occur, whatever the steps
  compute.\<close>

theorem execute_total:
  assumes "petgraph_laws G ok" and "hash_keys keys_of" and "distinct (map st_id (pl_steps p))"
    and "planner_build G p = Inr plan" and "\<forall>s \<in> set (pl_steps p). well_behaved ctx s"
  shows "\<exists>opt outs. optimize G keys_of plan = Inr opt \<and> execute G ctx opt = Inr outs \<and>
    dom outs = dom (ep_steps (op_plan opt))"
proof -
  let ?sm = "step_map_of (pl_steps p)" and ?n = "pl_batch_size p"
  obtain opt seen rm order0 where o: "optimize G keys_of plan = Inr opt"
      "plan_inv ok G (op_plan opt)" "edges_match G (resolve (op_remap opt)) (op_plan opt)"
      "deps_closed (resolve (op_remap opt)) (ep_steps (op_plan opt))"
      "ep_steps (op_plan opt) = ?sm |` {x. canonical (op_remap opt) x}" "ep_batch_size (op_plan opt) = ?n"
      "dedup_inv ?sm (dom ?sm) (seen, op_remap opt, rm)" "distinct (op_execution_order opt)"
      "set (op_execution_order opt) = dom (ep_steps (op_plan opt))"
      "topo_order (\<lambda>x. set (dependencies_of G (op_plan opt) x)) {} (op_execution_order opt)"
    by (rule optimize_built [OF assms(1-4)])
  have "well_behaved ctx s" if "ep_steps (op_plan opt) x = Some s" for x s
    using that assms(5) step_map_of_Some [OF assms(3)] o(5) by (auto simp: restrict_map_def split: if_splits)
  then have "step_value ctx ?n s ins \<noteq> Inl e" if "ep_steps (op_plan opt) x = Some s" for x s ins e
    using that finish_task_well_behaved [of ctx s ?n ins] by (auto simp: step_value_def split: option.splits)
  then have "\<not> fails_on ctx ?n (resolve (op_remap opt)) (ep_steps (op_plan opt)) e" for e
    unfolding fails_on_def by blast
  with execute_ok [OF o(2,3,8,9,10), of ctx, unfolded o(6)] obtain outs where
    "execute G ctx opt = Inr outs" "solves ctx ?n (resolve (op_remap opt)) (ep_steps (op_plan opt)) outs" by blast
  with o(1) show ?thesis by (auto simp: solves_def)
qed

theorem execute_total_witness:
  "\<exists>plan opt outs. planner_build vgraph_ops example_planner = Inr plan \<and>
     optimize vgraph_ops sorted_keys plan = Inr opt \<and> execute vgraph_ops 5 opt = Inr outs \<and>
     dom outs = dom (ep_steps (op_plan opt))"
proof -
  obtain plan where plan: "planner_build vgraph_ops example_planner = Inr plan" using example_build by blast
  have "\<forall>s \<in> set (pl_steps example_planner). well_behaved 5 s"
    by (auto simp: example_defs well_behaved_def from_values_def)
  from execute_total [OF vg.petgraph_laws_axioms sk.hash_keys_axioms example_ids plan this] plan
  show ?thesis by blast
qed

section \<open>Tiers and hoisting\<close>

text \<open>The tiers of an execution order that respects dependencies partition it, no index is
  out of range, and every dependency of a step lies in a strictly earlier tier, so the
  concurrent tasks of one tier never read each other's outputs.\<close>

theorem compute_tiers_partition:
  assumes "topo_order (\<lambda>x. set (dependencies_of G plan x)) {} order" and "distinct order"
  shows "\<exists>tiers. compute_tiers G order plan = Inr tiers \<and> distinct (concat tiers) \<and>
    set (concat tiers) = set order \<and>
    (\<forall>i < length tiers. \<forall>x \<in> set (tiers ! i). \<forall>d \<in> set (dependencies_of G plan x).
       \<exists>j < i. d \<in> set (tiers ! j))"
  by (rule compute_tiers_spec [OF assms]) blast

definition empty_plan :: "(vgraph, nat, nat, nat) execution_plan" where
  "empty_plan = \<lparr>ep_graph = \<lparr>vg_weights = [4, 6], vg_edges = [(0, 1)]\<rparr>, ep_node_map = [4 \<mapsto> 0, 6 \<mapsto> 1],
     ep_steps = Map.empty, ep_batch_size = 1\<rparr>"

theorem compute_tiers_partition_witness:
  "compute_tiers vgraph_ops [4, 6] empty_plan = Inr [[4], [6]] \<and>
   (\<exists>tiers. compute_tiers vgraph_ops [4, 6] empty_plan = Inr tiers \<and> distinct (concat tiers))"
proof -
  have "topo_order (\<lambda>x. set (dependencies_of vgraph_ops empty_plan x)) {} [4, 6]" "distinct [4, 6 :: step_id]"
    by (simp_all add: dependencies_of_def empty_plan_def vgraph_ops_def vg_incoming_def)
  from compute_tiers_partition [OF this]
  have "\<exists>tiers. compute_tiers vgraph_ops [4, 6] empty_plan = Inr tiers \<and> distinct (concat tiers)" by blast
  moreover have "compute_tiers vgraph_ops [4, 6] empty_plan = Inr [[4], [6]]" by code_simp
  ultimately show ?thesis by blast
qed

text \<open>A step that is unary together with everything it transitively reads.\<close>

inductive all_unary :: "('g, 'i) petgraph \<Rightarrow> ('g, 'i, 'c, 'v) execution_plan \<Rightarrow> step_id \<Rightarrow> bool"
  for G plan where
  "ep_steps plan x = Some s \<Longrightarrow> st_unary s \<Longrightarrow> (\<And>d. d \<in> set (dependencies_of G plan x) \<Longrightarrow> all_unary G plan d) \<Longrightarrow>
     all_unary G plan x"

inductive_simps all_unary_iff: "all_unary G plan x"

lemma hoist_loop_partition:
  assumes "hoist_loop G plan xs (h, df, pl) = (h', df', pl')"
    and "topo_order (\<lambda>x. set (dependencies_of G plan x)) D xs" and "set xs \<subseteq> dom (ep_steps plan)"
    and "\<And>y. y \<in> D \<Longrightarrow> y \<in> pl \<longleftrightarrow> all_unary G plan y" and "pl \<subseteq> D"
  shows "h' = h @ filter (all_unary G plan) xs \<and> df' = df @ filter (\<lambda>x. \<not> all_unary G plan x) xs"
  using assms
proof (induction xs arbitrary: h df pl D)
  case (Cons x xs)
  obtain s where s: "ep_steps plan x = Some s" using Cons.prems(3) by auto
  have deps: "set (dependencies_of G plan x) \<subseteq> D" using Cons.prems(2) by simp
  have iff: "st_unary s \<and> list_all (\<lambda>d. d \<in> pl) (dependencies_of G plan x) \<longleftrightarrow> all_unary G plan x"
    using s deps Cons.prems(4) by (subst all_unary_iff) (auto simp: list_all_iff subset_iff)
  have topo: "topo_order (\<lambda>x. set (dependencies_of G plan x)) (insert x D) xs" and sub: "set xs \<subseteq> dom (ep_steps plan)"
    using Cons.prems(2,3) by auto
  show ?case
  proof (cases "all_unary G plan x")
    case True
    have "h' = (h @ [x]) @ filter (all_unary G plan) xs \<and> df' = df @ filter (\<lambda>x. \<not> all_unary G plan x) xs"
      by (rule Cons.IH [OF _ topo sub, of _ _ "insert x pl"]) (use Cons.prems(1,4,5) s iff True in auto)
    then show ?thesis using True by simp
  next
    case False
    have "h' = h @ filter (all_unary G plan) xs \<and>
        df' = (df @ [x]) @ filter (\<lambda>x. \<not> all_unary G plan x) xs"
      by (rule Cons.IH [OF _ topo sub, of _ _ pl]) (use Cons.prems(1,4,5) s iff False in auto)
    then show ?thesis using False by simp
  qed
qed simp

text \<open>Hoisting is a stable partition. Given any topological order it moves exactly the steps
  that are unary together with all their transitive dependencies to the front, keeps the
  relative order inside both groups, and the result is again a topological order.\<close>

theorem hoist_unary_steps_partition:
  assumes "topo_order (\<lambda>x. set (dependencies_of G plan x)) {} order" and "set order \<subseteq> dom (ep_steps plan)"
  shows "hoist_unary_steps G plan order =
      filter (all_unary G plan) order @ filter (\<lambda>x. \<not> all_unary G plan x) order \<and>
    topo_order (\<lambda>x. set (dependencies_of G plan x)) {} (hoist_unary_steps G plan order)"
proof -
  obtain h df pl where l: "hoist_loop G plan order ([], [], {}) = (h, df, pl)" by (metis prod_cases3)
  from hoist_loop_partition [OF l assms] l hoist_unary_steps_spec(1) [OF assms]
  show ?thesis by (simp add: hoist_unary_steps_def)
qed

definition pair_plan :: "(vgraph, nat, nat, nat) execution_plan" where
  "pair_plan = \<lparr>ep_graph = \<lparr>vg_weights = [4, 6], vg_edges = []\<rparr>, ep_node_map = [4 \<mapsto> 0, 6 \<mapsto> 1],
     ep_steps = [4 \<mapsto> pair_step 4 [], 6 \<mapsto> const_step 6], ep_batch_size = 1\<rparr>"

theorem hoist_unary_steps_partition_witness:
  "hoist_unary_steps vgraph_ops pair_plan [4, 6] = [6, 4] \<and>
   filter (all_unary vgraph_ops pair_plan) [4, 6] @ filter (\<lambda>x. \<not> all_unary vgraph_ops pair_plan x) [4, 6] = [6, 4]"
proof -
  have "topo_order (\<lambda>x. set (dependencies_of vgraph_ops pair_plan x)) {} [4, 6]"
    "set [4, 6] \<subseteq> dom (ep_steps pair_plan)"
    by (simp_all add: dependencies_of_def pair_plan_def vgraph_ops_def vg_incoming_def)
  from hoist_unary_steps_partition [OF this] have
    "hoist_unary_steps vgraph_ops pair_plan [4, 6] = filter (all_unary vgraph_ops pair_plan) [4, 6] @
      filter (\<lambda>x. \<not> all_unary vgraph_ops pair_plan x) [4, 6]" by blast
  moreover have "hoist_unary_steps vgraph_ops pair_plan [4, 6] = [6, 4]"
    by (simp add: hoist_unary_steps_def pair_plan_def const_step_def pair_step_def dependencies_of_def
        vgraph_ops_def vg_incoming_def)
  ultimately show ?thesis by simp
qed

end
