(* ===== verification/Core_Batch.thy ===== *)
theory Core_Batch
  imports Core_Executor
begin

text \<open>
  \<^verbatim>\<open>magna-core/src/batch.rs\<close>: \<^verbatim>\<open>BatchStep\<close>, the step that loads the children of a whole batch
  of parents with one call. The loader, the key function and the grouping function are the
  closures the caller supplies; every call of the loader is recorded, so that the number
  of calls can be stated. \<open>wrap\<close> and \<open>down\<close> are the cast of \<^verbatim>\<open>Arc<Vec<V>>\<close> to
  \<^verbatim>\<open>Arc<dyn Any>\<close> and \<^verbatim>\<open>downcast_ref\<close>.
\<close>

record ('k, 'r, 'v) batch_step =
  bs_id :: step_id
  bs_deps :: "step_id list"
  bs_key_of :: "'v any \<Rightarrow> 'k option"
  bs_load :: "'k list \<Rightarrow> fw_graph_error + 'r list"
  bs_group_by :: "'r \<Rightarrow> 'k"
  bs_config_hash :: "64 word"
  bs_label :: string

definition batch_new :: "step_id \<Rightarrow> step_id \<Rightarrow> string \<Rightarrow> ('v any \<Rightarrow> 'k option) \<Rightarrow>
    ('k list \<Rightarrow> fw_graph_error + 'r list) \<Rightarrow> ('r \<Rightarrow> 'k) \<Rightarrow> 64 word \<Rightarrow> ('k, 'r, 'v) batch_step" where
  "batch_new i parent label key_of load group_by config_hash =
     \<lparr>bs_id = i, bs_deps = [parent], bs_key_of = key_of, bs_load = load, bs_group_by = group_by,
      bs_config_hash = config_hash, bs_label = label\<rparr>"

definition batch_read :: "('v any \<Rightarrow> 'r list option) \<Rightarrow> 'v step_output \<Rightarrow> nat \<Rightarrow> 'r list option" where
  "batch_read down output index =
     (case nth_opt (out_values output) index of None \<Rightarrow> None | Some v \<Rightarrow> down v)"

fun unique_keys :: "'k option list \<Rightarrow> 'k list \<Rightarrow> 'k list" where
  "unique_keys [] unique = unique"
| "unique_keys (None # ks) unique = unique_keys ks unique"
| "unique_keys (Some k # ks) unique =
     unique_keys ks (if list_ex (\<lambda>u. u = k) unique then unique else unique @ [k])"

fun bucket_rows :: "('r \<Rightarrow> 'k) \<Rightarrow> 'r list \<Rightarrow> ('k \<rightharpoonup> 'r list) \<Rightarrow> ('k \<rightharpoonup> 'r list)" where
  "bucket_rows group_by [] buckets = buckets"
| "bucket_rows group_by (row # rows) buckets =
     bucket_rows group_by rows
       (buckets(group_by row \<mapsto> (case buckets (group_by row) of None \<Rightarrow> [] | Some b \<Rightarrow> b) @ [row]))"

text \<open>\<^verbatim>\<open>execute\<close>, with the arguments of the loader's calls.\<close>

definition batch_execute :: "('r list \<Rightarrow> 'v any) \<Rightarrow> ('k, 'r, 'v) batch_step \<Rightarrow> 'v step_output list \<Rightarrow>
    'k list list \<times> (fw_graph_error + 'v step_output)" where
  "batch_execute wrap s inputs =
     (case inputs of
        [] \<Rightarrow> ([], Inl (ExecutionError (bs_label s @ '': no parent output'')))
      | parent # _ \<Rightarrow>
          (let per_parent = map (bs_key_of s) (out_values parent);
               unique = unique_keys per_parent []
           in if unique = [] then ([], Inr (from_values (map (\<lambda>_. wrap []) per_parent)))
              else ([unique],
                rbind (bs_load s unique) (\<lambda>rows.
                  let by_key = bucket_rows (bs_group_by s) rows Map.empty
                  in Inr (from_values (map (\<lambda>key.
                       wrap (case key of None \<Rightarrow> [] | Some k \<Rightarrow> (case by_key k of None \<Rightarrow> [] | Some b \<Rightarrow> b)))
                       per_parent))))))"

definition batch_as_step :: "('r list \<Rightarrow> 'v any) \<Rightarrow> type_id \<Rightarrow> (64 word \<Rightarrow> 64 word) \<Rightarrow> ('k, 'r, 'v) batch_step \<Rightarrow>
    ('c, 'v) exec_step" where
  "batch_as_step wrap ty hash s =
     \<lparr>st_id = bs_id s, st_deps = bs_deps s, st_unary = False,
      st_fingerprint = fingerprint_new hash ty (bs_deps s) (bs_config_hash s),
      st_execute = (\<lambda>_ inputs. Finished (snd (batch_execute wrap s inputs)))\<rparr>"

section \<open>Keys and buckets\<close>

definition present_keys :: "'k option list \<Rightarrow> 'k list" where
  "present_keys ks = List.map_filter id ks"

lemma present_keys_simps [simp]:
  "present_keys [] = []" "present_keys (None # ks) = present_keys ks"
  "present_keys (Some k # ks) = k # present_keys ks"
  by (simp_all add: present_keys_def)

lemma set_present_keys: "set (present_keys ks) = {k. Some k \<in> set ks}"
  by (induction ks rule: induct_list012) (auto simp: present_keys_def map_filter_def)

lemma unique_keys_spec:
  "distinct u \<Longrightarrow> distinct (unique_keys ks u) \<and> set (unique_keys ks u) = set u \<union> set (present_keys ks)"
  by (induction ks u rule: unique_keys.induct) (auto simp: list_ex_iff)

text \<open>First occurrences, in the order of the parents.\<close>

lemma unique_keys_remdups: "unique_keys ks [] = rev (remdups (rev (present_keys ks)))"
proof -
  have "unique_keys ks u = rev (remdups (rev (u @ present_keys ks)))" if "distinct u" for u
    using that
  proof (induction ks u rule: unique_keys.induct)
    case (3 k ks u)
    have "distinct (if list_ex (\<lambda>x. x = k) u then u else u @ [k])" using 3(2) by (auto simp: list_ex_iff)
    from 3(1) [OF this] show ?case
    proof (cases "k \<in> set u")
      case True
      then obtain a b where "u = a @ k # b" by (auto simp: in_set_conv_decomp)
      moreover have "remdups (xs @ k # ys @ k # zs) = remdups (xs @ ys @ k # zs)" for xs ys zs :: "'a list"
        by (induction xs) auto
      ultimately show ?thesis
        using \<open>unique_keys ks _ = _\<close> True by (simp add: list_ex_iff)
    next
      case False
      with \<open>unique_keys ks _ = _\<close> show ?thesis by (auto simp: list_ex_iff)
    qed
  qed (simp_all add: distinct_remdups_id)
  from this [of "[]"] show ?thesis by simp
qed

lemma bucket_rows_get:
  "(case bucket_rows g rows b k of None \<Rightarrow> [] | Some x \<Rightarrow> x) =
     (case b k of None \<Rightarrow> [] | Some x \<Rightarrow> x) @ filter (\<lambda>r. g r = k) rows"
proof (induction rows arbitrary: b)
  case (Cons row rows)
  show ?case
    by (simp only: bucket_rows.simps Cons.IH) (cases "g row = k", simp_all)
qed simp

lemma length_from_values [simp]:
  "length (out_values (from_values vs)) = length vs" "length (out_flags (from_values vs)) = length vs"
  by (simp_all add: from_values_def)

section \<open>Casting\<close>

locale any_cast =
  fixes wrap :: "'r list \<Rightarrow> 'v any" and down :: "'v any \<Rightarrow> 'r list option"
  assumes down_wrap: "down (wrap rows) = Some rows"
begin

lemma read_from_values:
  "batch_read down (from_values (map (\<lambda>x. wrap (f x)) xs)) i = map_option f (nth_opt xs i)"
  by (auto simp: batch_read_def from_values_def down_wrap split: option.splits)

end

fun rows_of :: "'r list any \<Rightarrow> 'r list option" where
  "rows_of (AnyValue rows) = Some rows"
| "rows_of _ = None"

interpretation rows: any_cast AnyValue rows_of
  by unfold_locales simp

text \<open>The distinct keys of a batch of parents, in order of first occurrence.\<close>

definition requested_keys :: "('k, 'r, 'v) batch_step \<Rightarrow> 'v step_output \<Rightarrow> 'k list" where
  "requested_keys s parent = rev (remdups (rev (present_keys (map (bs_key_of s) (out_values parent)))))"

text \<open>The N+1 eliminator. For any batch of parents the loader is called at most once: with the
  distinct keys of the parents in order of first occurrence, and not at all when no parent has
  a key. When the load succeeds, the output has one slot per parent, in order, and reading
  slot \<open>i\<close> gives exactly the loaded rows that belong to parent \<open>i\<close>'s key, in load order, and
  no rows for a parent without a key; when it fails, its error is the step's error.\<close>

theorem batch_execute_correct:
  "fst (batch_execute AnyValue s (parent # ins)) = (if (requested_keys s parent) = [] then [] else [(requested_keys s parent)]) \<and>
    (case snd (batch_execute AnyValue s (parent # ins)) of
       Inl e \<Rightarrow> (requested_keys s parent) \<noteq> [] \<and> bs_load s (requested_keys s parent) = Inl e
     | Inr out \<Rightarrow>
         length (out_values out) = length (out_values parent) \<and> length (out_flags out) = length (out_values parent) \<and>
         (\<forall>i < length (out_values parent).
            batch_read rows_of out i =
              Some (case bs_key_of s (out_values parent ! i) of
                      None \<Rightarrow> []
                    | Some k \<Rightarrow> filter (\<lambda>r. bs_group_by s r = k)
                        (case bs_load s (requested_keys s parent) of Inr rows \<Rightarrow> rows | Inl _ \<Rightarrow> []))))"
proof -
  define keys where "keys = requested_keys s parent"
  let ?pp = "map (bs_key_of s) (out_values parent)"
  have keys: "unique_keys ?pp [] = keys" by (simp add: unique_keys_remdups keys_def requested_keys_def)
  have none: "bs_key_of s (out_values parent ! i) = None" if "keys = []" "i < length (out_values parent)" for i
  proof (rule ccontr)
    assume "bs_key_of s (out_values parent ! i) \<noteq> None"
    then obtain k where "bs_key_of s (out_values parent ! i) = Some k" by auto
    then have "k \<in> set (present_keys ?pp)" using that(2) by (auto simp: set_present_keys image_iff intro!: bexI [of _ "out_values parent ! i"])
    then show False using that(1) unfolding keys_def requested_keys_def by auto
  qed
  note fold = keys_def [symmetric]
  show ?thesis
  proof (cases "keys = []")
    case True
    then show ?thesis using none keys
      by (auto simp: fold batch_execute_def Let_def rows.read_from_values nth_opt_def simp del: map_map)
  next
    case False
    show ?thesis
    proof (cases "bs_load s keys")
      case (Inl e)
      with False keys show ?thesis by (simp add: fold batch_execute_def Let_def)
    next
      case (Inr rows)
      with False keys show ?thesis
        by (auto simp: fold batch_execute_def Let_def rows.read_from_values nth_opt_def
            bucket_rows_get [where b = Map.empty, simplified] simp del: map_map split: option.splits)
    qed
  qed
qed

definition example_batch :: "(nat, nat, nat list) batch_step" where
  "example_batch = batch_new 2 1 ''rows'' (\<lambda>v. case v of AnyValue (k # _) \<Rightarrow> Some k | _ \<Rightarrow> None)
     (\<lambda>ks. Inr (concat (map (\<lambda>k. [10 * k, 10 * k + 1]) ks))) (\<lambda>r. r div 10) 0"

definition example_parents :: "nat list step_output" where
  "example_parents = from_values [AnyValue [4], AnyValue [3], AnyUnit, AnyValue [4]]"

theorem batch_execute_correct_witness:
  "fst (batch_execute AnyValue example_batch [example_parents]) = [[4, 3]] \<and>
   map_option (\<lambda>out. map (batch_read rows_of out) [0, 1, 2, 3])
     (case snd (batch_execute AnyValue example_batch [example_parents]) of Inl _ \<Rightarrow> None | Inr out \<Rightarrow> Some out) =
   Some [Some [40, 41], Some [30, 31], Some [], Some [40, 41]]"
proof -
  have "requested_keys example_batch example_parents = [4, 3]" by code_simp
  with batch_execute_correct [of example_batch example_parents "[]"]
  have "fst (batch_execute AnyValue example_batch [example_parents]) = [[4, 3]]" by simp
  moreover have "map_option (\<lambda>out. map (batch_read rows_of out) [0, 1, 2, 3])
     (case snd (batch_execute AnyValue example_batch [example_parents]) of Inl _ \<Rightarrow> None | Inr out \<Rightarrow> Some out) =
   Some [Some [40, 41], Some [30, 31], Some [], Some [40, 41]]" by code_simp
  ultimately show ?thesis by blast
qed

end
