(* ===== verification/Gql_Lex.thy ===== *)
theory Gql_Lex
  imports Prelude
begin

text \<open>
  The GraphQL lexer \<^verbatim>\<open>magna-gqlmin/src/lex.rs\<close> and the error kinds of \<^verbatim>\<open>error.rs\<close>. A source is
  its list of bytes (a \<open>char\<close> is a byte); positions are natural numbers, and the \<^verbatim>\<open>as u32\<close>
  of a span is the truncation to a 32-bit word. The lexer keeps one view of its source: the
  fields \<^verbatim>\<open>src\<close> and \<^verbatim>\<open>bytes\<close> of the code are the same memory.
\<close>

section \<open>Spans, errors, tokens\<close>

record span =
  sp_start :: "32 word"
  sp_end :: "32 word"

definition span_new :: "32 word \<Rightarrow> 32 word \<Rightarrow> span" where
  "span_new a b = \<lparr>sp_start = a, sp_end = b\<rparr>"

definition span_empty :: "32 word \<Rightarrow> span" where
  "span_empty a = \<lparr>sp_start = a, sp_end = a\<rparr>"

definition span_len :: "span \<Rightarrow> 32 word" where
  "span_len s = (if sp_start s \<le> sp_end s then sp_end s - sp_start s else 0)"

definition span_is_empty :: "span \<Rightarrow> bool" where
  "span_is_empty s \<longleftrightarrow> sp_start s = sp_end s"

text \<open>\<^verbatim>\<open>Span::new(a as u32, b as u32)\<close>.\<close>

definition span_at :: "nat \<Rightarrow> nat \<Rightarrow> span" where
  "span_at a b = span_new (of_nat a) (of_nat b)"

datatype parse_error_kind =
    UnexpectedChar | InvalidString | InvalidBlockString | InvalidNumber | InvalidEscape
  | UnexpectedEof | UnexpectedToken | EmptySelectionSet | ExpectedOperationKind | ExpectedName
  | ExpectedColon | ExpectedType | ExpectedValue | ExpectedDollar | ExpectedOnKeyword
  | UnclosedDelimiter | UnknownDefinition

fun discriminant :: "parse_error_kind \<Rightarrow> 8 word" where
  "discriminant UnexpectedChar = 1"
| "discriminant InvalidString = 2"
| "discriminant InvalidBlockString = 3"
| "discriminant InvalidNumber = 4"
| "discriminant InvalidEscape = 5"
| "discriminant UnexpectedEof = 32"
| "discriminant UnexpectedToken = 33"
| "discriminant EmptySelectionSet = 34"
| "discriminant ExpectedOperationKind = 35"
| "discriminant ExpectedName = 36"
| "discriminant ExpectedColon = 37"
| "discriminant ExpectedType = 38"
| "discriminant ExpectedValue = 39"
| "discriminant ExpectedDollar = 40"
| "discriminant ExpectedOnKeyword = 41"
| "discriminant UnclosedDelimiter = 42"
| "discriminant UnknownDefinition = 43"

fun kind_message :: "parse_error_kind \<Rightarrow> string" where
  "kind_message UnexpectedChar = ''unexpected character''"
| "kind_message InvalidString = ''invalid or unterminated string literal''"
| "kind_message InvalidBlockString = ''invalid or unterminated block string''"
| "kind_message InvalidNumber = ''invalid numeric literal''"
| "kind_message InvalidEscape = ''invalid escape sequence in string''"
| "kind_message UnexpectedEof = ''unexpected end of input''"
| "kind_message UnexpectedToken = ''unexpected token''"
| "kind_message EmptySelectionSet = ''selection set must not be empty''"
| "kind_message ExpectedOperationKind = ''expected `query`, `mutation`, or `subscription`''"
| "kind_message ExpectedName = ''expected a name''"
| "kind_message ExpectedColon = ''expected `:`''"
| "kind_message ExpectedType = ''expected a type reference''"
| "kind_message ExpectedValue = ''expected a value''"
| "kind_message ExpectedDollar = ''expected `$`''"
| "kind_message ExpectedOnKeyword = ''expected `on`''"
| "kind_message UnclosedDelimiter = ''unclosed delimiter''"
| "kind_message UnknownDefinition = ''unknown top-level definition''"

record parse_error =
  pe_span :: span
  pe_kind :: parse_error_kind

definition parse_error_new :: "span \<Rightarrow> parse_error_kind \<Rightarrow> parse_error" where
  "parse_error_new s k = \<lparr>pe_span = s, pe_kind = k\<rparr>"

definition error_message :: "parse_error \<Rightarrow> string" where
  "error_message e = kind_message (pe_kind e)"

datatype token_kind =
    Bang | Dollar | Amp | LParen | RParen | Spread | Colon | EqTok | At | LBracket | RBracket
  | LBrace | Pipe | RBrace | NameTok | IntValue | FloatValue | StringTok | BlockStringValue | Eof

record token =
  tk_kind :: token_kind
  tk_span :: span

section \<open>The lexer\<close>

record lexer =
  lx_bytes :: string
  lx_pos :: nat
  lx_started :: bool

definition lexer_new :: "string \<Rightarrow> lexer" where
  "lexer_new src = \<lparr>lx_bytes = src, lx_pos = 0, lx_started = False\<rparr>"

text \<open>\<^verbatim>\<open>str::get(s..e)\<close>: the bytes when both ends are in range, in order and on a character
  boundary, that is not at a continuation byte.\<close>

definition is_continuation :: "char \<Rightarrow> bool" where
  "is_continuation c \<longleftrightarrow> 128 \<le> (of_char c :: nat) \<and> (of_char c :: nat) < 192"

definition is_char_boundary :: "string \<Rightarrow> nat \<Rightarrow> bool" where
  "is_char_boundary bs i \<longleftrightarrow>
     i = 0 \<or> (case nth_opt bs i of None \<Rightarrow> i = length bs | Some c \<Rightarrow> \<not> is_continuation c)"

definition str_get :: "string \<Rightarrow> nat \<Rightarrow> nat \<Rightarrow> string option" where
  "str_get bs s e =
     (if s \<le> e \<and> is_char_boundary bs s \<and> is_char_boundary bs e then Some (take (e - s) (drop s bs)) else None)"

definition src_slice :: "string \<Rightarrow> span \<Rightarrow> string" where
  "src_slice bs sp =
     (case str_get bs (unat (sp_start sp)) (unat (sp_end sp)) of None \<Rightarrow> [] | Some s \<Rightarrow> s)"

definition is_name_start :: "char \<Rightarrow> bool" where
  "is_name_start c \<longleftrightarrow> c = CHR ''_'' \<or>
     65 \<le> (of_char c :: nat) \<and> (of_char c :: nat) \<le> 90 \<or> 97 \<le> (of_char c :: nat) \<and> (of_char c :: nat) \<le> 122"

definition is_name_char :: "char \<Rightarrow> bool" where
  "is_name_char c \<longleftrightarrow> is_digit c \<or> is_name_start c"

definition is_hexdigit :: "char \<Rightarrow> bool" where
  "is_hexdigit c \<longleftrightarrow> is_digit c \<or>
     65 \<le> (of_char c :: nat) \<and> (of_char c :: nat) \<le> 70 \<or> 97 \<le> (of_char c :: nat) \<and> (of_char c :: nat) \<le> 102"

definition is_line_end :: "char \<Rightarrow> bool" where
  "is_line_end c \<longleftrightarrow> c = CHR 0x0A \<or> c = CHR 0x0D"

definition is_blank :: "char \<Rightarrow> bool" where
  "is_blank c \<longleftrightarrow> c = CHR '' '' \<or> c = CHR 0x09 \<or> is_line_end c \<or> c = CHR '',''"

text \<open>\<^verbatim>\<open>while let Some(&b) = self.bytes.get(self.pos) { if !P(b) { break } self.pos += 1 }\<close>.\<close>

function advance_while :: "(char \<Rightarrow> bool) \<Rightarrow> string \<Rightarrow> nat \<Rightarrow> nat" where
  "advance_while P bs pos =
     (if pos < length bs \<and> P (bs ! pos) then advance_while P bs (pos + 1) else pos)"
  by auto
termination by (relation "measure (\<lambda>(P, bs, pos). length bs - pos)") auto

function skip_insignificant :: "string \<Rightarrow> nat \<Rightarrow> nat" where
  "skip_insignificant bs pos =
     (if pos < length bs then
        if is_blank (bs ! pos) then skip_insignificant bs (pos + 1)
        else if bs ! pos = CHR ''#''
        then skip_insignificant bs (advance_while (\<lambda>c. \<not> is_line_end c) bs (pos + 1))
        else pos
      else pos)"
  by auto

declare advance_while.simps [simp del]

lemma advance_while_ge: "pos \<le> advance_while P bs pos"
  by (induction P bs pos rule: advance_while.induct) (subst advance_while.simps, auto)

termination skip_insignificant
proof (relation "measure (\<lambda>(bs, pos). length bs - pos)")
  fix bs :: string and pos
  assume "pos < length bs"
  then show "((bs, advance_while (\<lambda>c. \<not> is_line_end c) bs (pos + 1)), (bs, pos)) \<in> measure (\<lambda>(bs, pos). length bs - pos)"
    using advance_while_ge [of "pos + 1" "\<lambda>c. \<not> is_line_end c" bs] by simp
qed auto

declare skip_insignificant.simps [simp del]

text \<open>The outcome of a scan: the position the cursor is left at, and a token or an error.\<close>

type_synonym scan = "nat \<times> (parse_error + token)"

definition accept :: "token_kind \<Rightarrow> nat \<Rightarrow> nat \<Rightarrow> scan" where
  "accept k start pos = (pos, Inr \<lparr>tk_kind = k, tk_span = span_at start pos\<rparr>)"

definition reject :: "parse_error_kind \<Rightarrow> nat \<Rightarrow> nat \<Rightarrow> nat \<Rightarrow> scan" where
  "reject k start stop pos = (pos, Inl (parse_error_new (span_at start stop) k))"

definition lex_single :: "token_kind \<Rightarrow> nat \<Rightarrow> scan" where
  "lex_single k pos = accept k pos (pos + 1)"

definition byte_is :: "string \<Rightarrow> nat \<Rightarrow> char \<Rightarrow> bool" where
  "byte_is bs i c \<longleftrightarrow> nth_opt bs i = Some c"

definition lex_spread :: "string \<Rightarrow> nat \<Rightarrow> scan" where
  "lex_spread bs start =
     (if byte_is bs (start + 1) (CHR ''.'') \<and> byte_is bs (start + 2) (CHR ''.'')
      then accept Spread start (start + 3)
      else reject UnexpectedChar start (start + 1) start)"

definition lex_name :: "string \<Rightarrow> nat \<Rightarrow> scan" where
  "lex_name bs start = accept NameTok start (advance_while is_name_char bs (start + 1))"

text \<open>The parts of \<^verbatim>\<open>lex_number\<close>: each gives the new position or the error.\<close>

definition number_int_part :: "string \<Rightarrow> nat \<Rightarrow> nat \<Rightarrow> scan + nat" where
  "number_int_part bs start pos =
     (case nth_opt bs pos of
        Some c \<Rightarrow>
          if c = CHR ''0'' then
            (case nth_opt bs (pos + 1) of
               Some d \<Rightarrow> if is_digit d then Inl (reject InvalidNumber start (pos + 2) (pos + 1)) else Inr (pos + 1)
             | None \<Rightarrow> Inr (pos + 1))
          else if is_digit c then Inr (advance_while is_digit bs pos)
          else Inl (reject InvalidNumber start (min (pos + 1) (length bs + 1)) pos)
      | None \<Rightarrow> Inl (reject InvalidNumber start (min (pos + 1) (length bs + 1)) pos))"

definition number_digits :: "string \<Rightarrow> nat \<Rightarrow> nat \<Rightarrow> scan + nat" where
  "number_digits bs start pos =
     (let p = advance_while is_digit bs pos
      in if p = pos then Inl (reject InvalidNumber start p p) else Inr p)"

definition number_frac_part :: "string \<Rightarrow> nat \<Rightarrow> nat \<Rightarrow> scan + bool \<times> nat" where
  "number_frac_part bs start pos =
     (if byte_is bs pos (CHR ''.'') then rbind (number_digits bs start (pos + 1)) (\<lambda>p. Inr (True, p))
      else Inr (False, pos))"

definition number_exp_part :: "string \<Rightarrow> nat \<Rightarrow> bool \<times> nat \<Rightarrow> scan + bool \<times> nat" where
  "number_exp_part bs start st =
     (case st of (is_float, pos) \<Rightarrow>
        if byte_is bs pos (CHR ''e'') \<or> byte_is bs pos (CHR ''E'') then
          (let pos' = (if byte_is bs (pos + 1) (CHR ''+'') \<or> byte_is bs (pos + 1) (CHR ''-'') then pos + 2 else pos + 1)
           in rbind (number_digits bs start pos') (\<lambda>p. Inr (True, p)))
        else Inr (is_float, pos))"

definition number_finish :: "string \<Rightarrow> nat \<Rightarrow> bool \<times> nat \<Rightarrow> scan" where
  "number_finish bs start st =
     (case st of (is_float, pos) \<Rightarrow>
        (case nth_opt bs pos of
           Some c \<Rightarrow>
             if is_name_start c \<or> c = CHR ''.'' then reject InvalidNumber start (pos + 1) pos
             else accept (if is_float then FloatValue else IntValue) start pos
         | None \<Rightarrow> accept (if is_float then FloatValue else IntValue) start pos))"

definition lex_number :: "string \<Rightarrow> nat \<Rightarrow> scan" where
  "lex_number bs start =
     (case rbind (number_int_part bs start (if byte_is bs start (CHR ''-'') then start + 1 else start)) (\<lambda>p.
           rbind (number_frac_part bs start p) (number_exp_part bs start)) of
        Inl r \<Rightarrow> r
      | Inr st \<Rightarrow> number_finish bs start st)"

definition quote3 :: "string \<Rightarrow> nat \<Rightarrow> bool" where
  "quote3 bs i \<longleftrightarrow> byte_is bs i (CHR 0x22) \<and> byte_is bs (i + 1) (CHR 0x22) \<and> byte_is bs (i + 2) (CHR 0x22)"

function block_string_loop :: "string \<Rightarrow> nat \<Rightarrow> nat \<Rightarrow> scan" where
  "block_string_loop bs start pos =
     (if pos < length bs then
        if bs ! pos = CHR 0x5C \<and> quote3 bs (pos + 1) then block_string_loop bs start (pos + 4)
        else if quote3 bs pos then accept BlockStringValue start (pos + 3)
        else block_string_loop bs start (pos + 1)
      else reject InvalidBlockString start pos pos)"
  by auto
termination by (relation "measure (\<lambda>(bs, start, pos). length bs - pos)") auto

text \<open>The loop \<^verbatim>\<open>for i in 2..6\<close> over the digits of \<^verbatim>\<open>\uXXXX\<close>.\<close>

fun unicode_digits :: "string \<Rightarrow> nat \<Rightarrow> nat \<Rightarrow> nat list \<Rightarrow> scan option" where
  "unicode_digits bs start pos [] = None"
| "unicode_digits bs start pos (i # is) =
     (case nth_opt bs (pos + i) of
        None \<Rightarrow> Some (reject InvalidEscape start pos pos)
      | Some hx \<Rightarrow> if is_hexdigit hx then unicode_digits bs start pos is
                   else Some (reject InvalidEscape start (pos + i) pos))"

definition is_simple_escape :: "char \<Rightarrow> bool" where
  "is_simple_escape c \<longleftrightarrow> c \<in> {CHR 0x22, CHR 0x5C, CHR ''/'', CHR ''b'', CHR ''f'', CHR ''n'', CHR ''r'', CHR ''t''}"

function string_loop :: "string \<Rightarrow> nat \<Rightarrow> nat \<Rightarrow> scan" where
  "string_loop bs start pos =
     (if pos < length bs then
        (let b = bs ! pos in
         if b = CHR 0x22 then accept StringTok start (pos + 1)
         else if is_line_end b then reject InvalidString start pos pos
         else if b = CHR 0x5C then
           (case nth_opt bs (pos + 1) of
              None \<Rightarrow> reject InvalidEscape start pos pos
            | Some esc \<Rightarrow>
                if is_simple_escape esc then string_loop bs start (pos + 2)
                else if esc = CHR ''u'' then
                  (case unicode_digits bs start pos [2, 3, 4, 5] of
                     Some r \<Rightarrow> r
                   | None \<Rightarrow> string_loop bs start (pos + 6))
                else reject InvalidEscape start (pos + 2) pos)
         else string_loop bs start (pos + 1))
      else reject InvalidString start pos pos)"
  by auto
termination by (relation "measure (\<lambda>(bs, start, pos). length bs - pos)") auto

declare block_string_loop.simps [simp del] and string_loop.simps [simp del]

definition lex_string :: "string \<Rightarrow> nat \<Rightarrow> scan" where
  "lex_string bs start =
     (if byte_is bs (start + 1) (CHR 0x22) \<and> byte_is bs (start + 2) (CHR 0x22)
      then block_string_loop bs start (start + 3)
      else string_loop bs start (start + 1))"

definition lex_dispatch :: "string \<Rightarrow> nat \<Rightarrow> scan" where
  "lex_dispatch bs start =
     (let b = bs ! start in
      if b = CHR ''!'' then lex_single Bang start
      else if b = CHR ''$'' then lex_single Dollar start
      else if b = CHR ''&'' then lex_single Amp start
      else if b = CHR ''('' then lex_single LParen start
      else if b = CHR '')'' then lex_single RParen start
      else if b = CHR '':'' then lex_single Colon start
      else if b = CHR ''='' then lex_single EqTok start
      else if b = CHR ''@'' then lex_single At start
      else if b = CHR ''['' then lex_single LBracket start
      else if b = CHR '']'' then lex_single RBracket start
      else if b = CHR ''{'' then lex_single LBrace start
      else if b = CHR ''|'' then lex_single Pipe start
      else if b = CHR ''}'' then lex_single RBrace start
      else if b = CHR ''.'' then lex_spread bs start
      else if is_name_start b then lex_name bs start
      else if b = CHR ''-'' \<or> is_digit b then lex_number bs start
      else if b = CHR 0x22 then lex_string bs start
      else reject UnexpectedChar start (start + 1) start)"

definition bom :: string where
  "bom = [CHR 0xEF, CHR 0xBB, CHR 0xBF]"

text \<open>The position at which insignificant bytes are skipped: past a byte order mark on the
  first call.\<close>

definition entry_pos :: "lexer \<Rightarrow> nat" where
  "entry_pos l = (if \<not> lx_started l \<and> take 3 (lx_bytes l) = bom then lx_pos l + 3 else lx_pos l)"

definition next_token :: "lexer \<Rightarrow> lexer \<times> (parse_error + token)" where
  "next_token l =
     (let start = skip_insignificant (lx_bytes l) (entry_pos l) in
      if start \<ge> length (lx_bytes l)
      then (l\<lparr>lx_started := True, lx_pos := start\<rparr>, Inr \<lparr>tk_kind = Eof, tk_span = span_at start start\<rparr>)
      else case lex_dispatch (lx_bytes l) start of
        (pos, r) \<Rightarrow> (l\<lparr>lx_started := True, lx_pos := pos\<rparr>, r))"

section \<open>The lexical grammar\<close>

text \<open>The GraphQL grammar of insignificant text and of lexemes, stated on strings alone.\<close>

inductive gap :: "string \<Rightarrow> bool" where
  gap_Nil: "gap []"
| gap_blank: "is_blank c \<Longrightarrow> gap cs \<Longrightarrow> gap (c # cs)"
| gap_comment: "list_all (\<lambda>c. \<not> is_line_end c) text \<Longrightarrow> gap cs \<Longrightarrow> gap (CHR ''#'' # text @ cs)"

definition digits :: "string \<Rightarrow> bool" where
  "digits ds \<longleftrightarrow> ds \<noteq> [] \<and> list_all is_digit ds"

definition int_lexeme :: "string \<Rightarrow> bool" where
  "int_lexeme s \<longleftrightarrow> (\<exists>sign ds. s = sign @ ds \<and> (sign = [] \<or> sign = ''-'') \<and>
     (ds = ''0'' \<or> digits ds \<and> hd ds \<noteq> CHR ''0''))"

definition float_lexeme :: "string \<Rightarrow> bool" where
  "float_lexeme s \<longleftrightarrow> (\<exists>i frac ex. s = i @ frac @ ex \<and> int_lexeme i \<and> (frac \<noteq> [] \<or> ex \<noteq> []) \<and>
     (frac = [] \<or> (\<exists>ds. frac = CHR ''.'' # ds \<and> digits ds)) \<and>
     (ex = [] \<or> (\<exists>e sign ds. ex = e # sign @ ds \<and> e \<in> {CHR ''e'', CHR ''E''} \<and>
        sign \<in> {[], ''+'', ''-''} \<and> digits ds)))"

inductive string_body :: "string \<Rightarrow> bool" where
  body_end: "string_body [CHR 0x22]"
| body_char: "c \<noteq> CHR 0x22 \<Longrightarrow> c \<noteq> CHR 0x5C \<Longrightarrow> \<not> is_line_end c \<Longrightarrow> string_body cs \<Longrightarrow> string_body (c # cs)"
| body_escape: "is_simple_escape c \<Longrightarrow> string_body cs \<Longrightarrow> string_body (CHR 0x5C # c # cs)"
| body_unicode: "list_all is_hexdigit [a, b, c, d] \<Longrightarrow> string_body cs \<Longrightarrow>
    string_body (CHR 0x5C # CHR ''u'' # a # b # c # d # cs)"

definition triple_quote :: string where
  "triple_quote = [CHR 0x22, CHR 0x22, CHR 0x22]"

inductive block_body :: "string \<Rightarrow> bool" where
  block_end: "block_body triple_quote"
| block_escape: "block_body cs \<Longrightarrow> block_body (CHR 0x5C # triple_quote @ cs)"
| block_char: "take 3 (c # cs) \<noteq> triple_quote \<Longrightarrow> take 4 (c # cs) \<noteq> CHR 0x5C # triple_quote \<Longrightarrow> block_body cs \<Longrightarrow>
    block_body (c # cs)"

fun lexeme :: "token_kind \<Rightarrow> string \<Rightarrow> bool" where
  "lexeme Bang s \<longleftrightarrow> s = ''!''"
| "lexeme Dollar s \<longleftrightarrow> s = ''$''"
| "lexeme Amp s \<longleftrightarrow> s = ''&''"
| "lexeme LParen s \<longleftrightarrow> s = ''(''"
| "lexeme RParen s \<longleftrightarrow> s = '')''"
| "lexeme Spread s \<longleftrightarrow> s = ''...''"
| "lexeme Colon s \<longleftrightarrow> s = '':''"
| "lexeme EqTok s \<longleftrightarrow> s = ''=''"
| "lexeme At s \<longleftrightarrow> s = ''@''"
| "lexeme LBracket s \<longleftrightarrow> s = ''[''"
| "lexeme RBracket s \<longleftrightarrow> s = '']''"
| "lexeme LBrace s \<longleftrightarrow> s = ''{''"
| "lexeme Pipe s \<longleftrightarrow> s = ''|''"
| "lexeme RBrace s \<longleftrightarrow> s = ''}''"
| "lexeme NameTok s \<longleftrightarrow> (\<exists>c cs. s = c # cs \<and> is_name_start c \<and> list_all is_name_char cs)"
| "lexeme IntValue s \<longleftrightarrow> int_lexeme s"
| "lexeme FloatValue s \<longleftrightarrow> float_lexeme s"
| "lexeme StringTok s \<longleftrightarrow> (\<exists>cs. s = CHR 0x22 # cs \<and> string_body cs)"
| "lexeme BlockStringValue s \<longleftrightarrow> (\<exists>cs. s = triple_quote @ cs \<and> block_body cs)"
| "lexeme Eof s \<longleftrightarrow> s = []"

section \<open>Scanning\<close>

definition sub :: "'a list \<Rightarrow> nat \<Rightarrow> nat \<Rightarrow> 'a list" where
  "sub xs a b = take (b - a) (drop a xs)"

lemma sub_same [simp]: "sub xs a a = []"
  by (simp add: sub_def)

lemma sub_ge [simp]: "b \<le> a \<Longrightarrow> sub xs a b = []"
  by (simp add: sub_def)

lemma sub_Cons: "a < b \<Longrightarrow> a < length xs \<Longrightarrow> sub xs a b = xs ! a # sub xs (a + 1) b"
proof -
  assume "a < b" "a < length xs"
  moreover obtain k where "b - a = Suc k" "b - (a + 1) = k" using \<open>a < b\<close> by (cases "b - a") auto
  ultimately show ?thesis by (simp add: sub_def Cons_nth_drop_Suc [symmetric])
qed

lemma sub_append: "a \<le> b \<Longrightarrow> b \<le> c \<Longrightarrow> sub xs a c = sub xs a b @ sub xs b c"
proof -
  assume "a \<le> b" "b \<le> c"
  then have "c - a = (b - a) + (c - b)" "drop b xs = drop (b - a) (drop a xs)" by simp_all
  then show ?thesis unfolding sub_def by (metis take_add)
qed

lemma length_sub [simp]: "b \<le> length xs \<Longrightarrow> length (sub xs a b) = b - a"
  by (simp add: sub_def)

lemma byte_is_iff: "byte_is bs i c \<longleftrightarrow> i < length bs \<and> bs ! i = c"
  by (auto simp: byte_is_def nth_opt_def)

lemma advance_while_spec:
  "pos \<le> length bs \<Longrightarrow> advance_while P bs pos \<le> length bs \<and> list_all P (sub bs pos (advance_while P bs pos)) \<and>
     (advance_while P bs pos < length bs \<longrightarrow> \<not> P (bs ! advance_while P bs pos))"
proof (induction P bs pos rule: advance_while.induct)
  case (1 P bs pos)
  show ?case
  proof (cases "pos < length bs \<and> P (bs ! pos)")
    case True
    then have eq: "advance_while P bs pos = advance_while P bs (pos + 1)" by (subst advance_while.simps) simp
    have "pos < advance_while P bs (pos + 1)" using advance_while_ge [of "pos + 1" P bs] by simp
    then show ?thesis using 1 True unfolding eq by (auto simp: sub_Cons)
  next
    case False
    then have "advance_while P bs pos = pos" by (subst advance_while.simps) auto
    with False 1(2) show ?thesis by auto
  qed
qed

lemma advance_while_pos: "pos < length bs \<Longrightarrow> P (bs ! pos) \<Longrightarrow> pos < advance_while P bs pos"
  using advance_while_ge [of "pos + 1" P bs] by (subst advance_while.simps) simp

lemma skip_insignificant_spec:
  "pos \<le> length bs \<Longrightarrow> pos \<le> skip_insignificant bs pos \<and> skip_insignificant bs pos \<le> length bs \<and>
     gap (sub bs pos (skip_insignificant bs pos)) \<and>
     (skip_insignificant bs pos < length bs \<longrightarrow>
        \<not> is_blank (bs ! skip_insignificant bs pos) \<and> bs ! skip_insignificant bs pos \<noteq> CHR ''#'')"
proof (induction bs pos rule: skip_insignificant.induct)
  case (1 bs pos)
  let ?s = "skip_insignificant bs"
  let ?e = "advance_while (\<lambda>c. \<not> is_line_end c) bs (pos + 1)"
  consider (eof) "\<not> pos < length bs" | (blank) "pos < length bs" "is_blank (bs ! pos)"
    | (comment) "pos < length bs" "\<not> is_blank (bs ! pos)" "bs ! pos = CHR ''#''"
    | (stop) "pos < length bs" "\<not> is_blank (bs ! pos)" "bs ! pos \<noteq> CHR ''#''" by blast
  then show ?case
  proof cases
    case eof
    then have "?s pos = pos" by (subst skip_insignificant.simps) simp
    with eof 1(3) show ?thesis by (simp add: gap_Nil)
  next
    case blank
    then have eq: "?s pos = ?s (pos + 1)" by (subst skip_insignificant.simps) simp
    from 1(1) [OF blank] blank have IH: "pos + 1 \<le> ?s (pos + 1)" "gap (sub bs (pos + 1) (?s (pos + 1)))" by auto
    then have "gap (sub bs pos (?s (pos + 1)))" using blank by (simp add: sub_Cons gap_blank)
    with 1(1) [OF blank] blank show ?thesis unfolding eq by auto
  next
    case comment
    then have eq: "?s pos = ?s ?e" by (subst skip_insignificant.simps) simp
    have e: "pos + 1 \<le> ?e" "?e \<le> length bs" "list_all (\<lambda>c. \<not> is_line_end c) (sub bs (pos + 1) ?e)"
      using advance_while_ge advance_while_spec [of "pos + 1" bs "\<lambda>c. \<not> is_line_end c"] comment by auto
    from 1(2) [OF comment e(2)] have IH: "?e \<le> ?s ?e" "gap (sub bs ?e (?s ?e))" by auto
    have "sub bs pos (?s ?e) = CHR ''#'' # sub bs (pos + 1) ?e @ sub bs ?e (?s ?e)"
      using e(1) IH(1) comment sub_append [OF e(1) IH(1), of bs] by (simp add: sub_Cons)
    with gap_comment [OF e(3) IH(2)] 1(2) [OF comment e(2)] e(1) show ?thesis unfolding eq by auto
  next
    case stop
    then have "?s pos = pos" by (subst skip_insignificant.simps) simp
    with stop show ?thesis by (simp add: gap_Nil)
  qed
qed

text \<open>What an accepted scan promises: a non-empty lexeme of its kind, ending where the cursor is
  left.\<close>

definition scan_ok :: "string \<Rightarrow> nat \<Rightarrow> scan \<Rightarrow> bool" where
  "scan_ok bs start r \<longleftrightarrow>
     (\<forall>t. snd r = Inr t \<longrightarrow> start < fst r \<and> fst r \<le> length bs \<and> tk_span t = span_at start (fst r) \<and>
        tk_kind t \<noteq> Eof \<and> lexeme (tk_kind t) (sub bs start (fst r)))"

lemma scan_ok_reject [simp]: "scan_ok bs start (reject k a b c)"
  by (simp add: scan_ok_def reject_def)

lemma scan_ok_accept:
  "scan_ok bs start (accept k start p) \<longleftrightarrow>
     start < p \<and> p \<le> length bs \<and> k \<noteq> Eof \<and> lexeme k (sub bs start p)"
  by (auto simp: scan_ok_def accept_def)

lemma lex_single_ok: "start < length bs \<Longrightarrow> lexeme k [bs ! start] \<Longrightarrow> k \<noteq> Eof \<Longrightarrow> scan_ok bs start (lex_single k start)"
  by (simp add: lex_single_def scan_ok_accept sub_Cons)

lemma lex_spread_ok: "start < length bs \<Longrightarrow> bs ! start = CHR ''.'' \<Longrightarrow> scan_ok bs start (lex_spread bs start)"
  by (auto simp: lex_spread_def scan_ok_accept sub_Cons byte_is_iff)

lemma lex_name_ok: "start < length bs \<Longrightarrow> is_name_start (bs ! start) \<Longrightarrow> scan_ok bs start (lex_name bs start)"
  using advance_while_spec [of "start + 1" bs is_name_char] advance_while_ge [of "start + 1" is_name_char bs]
  by (auto simp: lex_name_def scan_ok_accept sub_Cons)

subsection \<open>Numbers\<close>

lemma number_int_part_ok:
  assumes "number_int_part bs start pos = Inr p"
  shows "pos < p \<and> p \<le> length bs \<and> (sub bs pos p = ''0'' \<or> digits (sub bs pos p) \<and> hd (sub bs pos p) \<noteq> CHR ''0'')"
proof -
  have len: "pos < length bs" using assms by (auto simp: number_int_part_def nth_opt_def split: if_splits)
  show ?thesis
  proof (cases "bs ! pos = CHR ''0''")
    case True
    then have "p = pos + 1" using assms len by (auto simp: number_int_part_def nth_opt_def split: if_splits)
    with True len show ?thesis by (simp add: sub_Cons)
  next
    case False
    then have p: "p = advance_while is_digit bs pos" "is_digit (bs ! pos)"
      using assms len by (auto simp: number_int_part_def nth_opt_def split: if_splits)
    then have "pos < p" using advance_while_pos [of pos bs is_digit] len by simp
    with p False len advance_while_spec [of pos bs is_digit] show ?thesis
      by (auto simp: digits_def sub_Cons)
  qed
qed

lemma int_lexemeI:
  "sign = [] \<or> sign = ''-'' \<Longrightarrow> ds = ''0'' \<or> digits ds \<and> hd ds \<noteq> CHR ''0'' \<Longrightarrow> int_lexeme (sign @ ds)"
  unfolding int_lexeme_def by blast

lemma number_errors_ok:
  "number_int_part bs start pos = Inl r \<Longrightarrow> scan_ok bs s r"
  "number_digits bs start pos = Inl r \<Longrightarrow> scan_ok bs s r"
  by (auto simp: number_int_part_def number_digits_def Let_def split: option.splits if_splits)

lemma number_part_errors_ok:
  "number_frac_part bs start pos = Inl r \<Longrightarrow> scan_ok bs s r"
  "number_exp_part bs start st = Inl r \<Longrightarrow> scan_ok bs s r"
  by (auto simp: number_frac_part_def number_exp_part_def Let_def result_simps number_errors_ok split: prod.splits if_splits)

lemma number_digits_ok:
  assumes "number_digits bs start pos = Inr p" and "pos \<le> length bs"
  shows "pos < p" and "p \<le> length bs" and "digits (sub bs pos p)"
proof -
  have p: "p = advance_while is_digit bs pos" "p \<noteq> pos"
    using assms(1) by (auto simp: number_digits_def Let_def split: if_splits)
  then show lt: "pos < p" using advance_while_ge [of pos is_digit bs] by simp
  show le: "p \<le> length bs" using advance_while_spec [OF assms(2), of is_digit] p by simp
  have "length (sub bs pos p) \<noteq> 0" using lt length_sub [OF le, of pos] by simp
  then have "sub bs pos p \<noteq> []" by auto
  then show "digits (sub bs pos p)" using advance_while_spec [OF assms(2), of is_digit] p by (simp add: digits_def)
qed

lemma number_frac_part_ok:
  assumes "number_frac_part bs start pos = Inr (fl, p)" and "pos \<le> length bs"
  shows "pos \<le> p \<and> p \<le> length bs \<and> (fl \<longleftrightarrow> sub bs pos p \<noteq> []) \<and>
    (sub bs pos p = [] \<or> (\<exists>ds. sub bs pos p = CHR ''.'' # ds \<and> digits ds))"
proof (cases "byte_is bs pos (CHR ''.'')")
  case True
  then have dot: "pos < length bs" "bs ! pos = CHR ''.''" by (simp_all add: byte_is_iff)
  have d: "number_digits bs start (pos + 1) = Inr p" "fl" using assms(1) True by (auto simp: number_frac_part_def result_simps)
  have "pos + 1 \<le> length bs" using dot by simp
  note n = number_digits_ok [OF d(1) this]
  have "sub bs pos p = CHR ''.'' # sub bs (pos + 1) p" using n dot by (simp add: sub_Cons)
  with n d(2) show ?thesis by simp
next
  case False
  then show ?thesis using assms by (simp add: number_frac_part_def)
qed

lemma number_exp_part_ok:
  assumes "number_exp_part bs start (fl, pos) = Inr (fl', p)" and "pos \<le> length bs"
  shows "pos \<le> p \<and> p \<le> length bs \<and> (fl' \<longleftrightarrow> fl \<or> sub bs pos p \<noteq> []) \<and>
    (sub bs pos p = [] \<or> (\<exists>e sign ds. sub bs pos p = e # sign @ ds \<and> e \<in> {CHR ''e'', CHR ''E''} \<and>
       sign \<in> {[], ''+'', ''-''} \<and> digits ds))"
proof (cases "byte_is bs pos (CHR ''e'') \<or> byte_is bs pos (CHR ''E'')")
  case True
  then have e: "pos < length bs" "bs ! pos \<in> {CHR ''e'', CHR ''E''}" by (auto simp: byte_is_iff)
  let ?q = "if byte_is bs (pos + 1) (CHR ''+'') \<or> byte_is bs (pos + 1) (CHR ''-'') then pos + 2 else pos + 1"
  have d: "number_digits bs start ?q = Inr p" "fl'" using assms(1) True by (auto simp: number_exp_part_def Let_def result_simps)
  have q: "pos + 1 \<le> ?q" "?q \<le> length bs" "sub bs (pos + 1) ?q \<in> {[], ''+'', ''-''}"
    using e(1) by (auto simp: byte_is_iff sub_Cons)
  note n = number_digits_ok [OF d(1) q(2)]
  have "pos + 1 \<le> p" using q(1) n(1) by linarith
  then have "sub bs pos p = bs ! pos # sub bs (pos + 1) p" using e(1) by (intro sub_Cons) auto
  also have "sub bs (pos + 1) p = sub bs (pos + 1) ?q @ sub bs ?q p"
    by (rule sub_append) (use q n in auto)
  finally have "sub bs pos p = bs ! pos # sub bs (pos + 1) ?q @ sub bs ?q p" .
  moreover have "pos \<le> p" using \<open>pos + 1 \<le> p\<close> by simp
  moreover have "sub bs pos p \<noteq> []" using calculation(1) by simp
  ultimately show ?thesis using n(2,3) d(2) e(2) q(3) by blast
next
  case False
  then show ?thesis using assms by (simp add: number_exp_part_def)
qed

lemma lex_number_ok:
  assumes "start < length bs"
  shows "scan_ok bs start (lex_number bs start)"
proof -
  let ?s = "if byte_is bs start (CHR ''-'') then start + 1 else start"
  let ?r = "rbind (number_int_part bs start ?s) (\<lambda>p. rbind (number_frac_part bs start p) (number_exp_part bs start))"
  show ?thesis
  proof (cases ?r)
    case (Inl r)
    then have "scan_ok bs start r"
      using number_errors_ok(1) number_part_errors_ok unfolding rbind_Inl_iff by blast
    then show ?thesis using Inl by (simp add: lex_number_def)
  next
    case (Inr st)
    then obtain p1 fl p2 fl' p3 where parts: "number_int_part bs start ?s = Inr p1"
      "number_frac_part bs start p1 = Inr (fl, p2)" "number_exp_part bs start (fl, p2) = Inr (fl', p3)" "st = (fl', p3)"
      by (cases st) (auto simp: result_simps)
    from number_int_part_ok [OF parts(1)] have i: "?s < p1" "p1 \<le> length bs"
      "sub bs ?s p1 = ''0'' \<or> digits (sub bs ?s p1) \<and> hd (sub bs ?s p1) \<noteq> CHR ''0''" by blast+
    note f = number_frac_part_ok [OF parts(2) i(2)]
    then have "p2 \<le> length bs" by simp
    note x = number_exp_part_ok [OF parts(3) this]
    have sign: "start \<le> ?s" "sub bs start ?s = [] \<or> sub bs start ?s = ''-''"
      using assms by (auto simp: byte_is_iff sub_Cons)
    have eq: "sub bs start p1 = sub bs start ?s @ sub bs ?s p1"
      by (rule sub_append [OF sign(1) less_imp_le [OF i(1)]])
    have int: "int_lexeme (sub bs start p1)" unfolding eq by (rule int_lexemeI [OF sign(2) i(3)])
    have le: "start \<le> p1" "p1 \<le> p2" "p2 \<le> p3" "p1 \<le> p3" using sign(1) i(1) f x by simp_all
    have "sub bs start p3 = sub bs start p1 @ sub bs p1 p3" "sub bs p1 p3 = sub bs p1 p2 @ sub bs p2 p3"
      using sub_append [of start p1 p3 bs] sub_append [of p1 p2 p3 bs] le by simp_all
    then have whole: "sub bs start p3 = sub bs start p1 @ sub bs p1 p2 @ sub bs p2 p3" by simp
    have "lexeme (if fl' then FloatValue else IntValue) (sub bs start p3)"
    proof (cases fl')
      case True
      then have "sub bs p1 p2 \<noteq> [] \<or> sub bs p2 p3 \<noteq> []" using f x by blast
      then have "float_lexeme (sub bs start p3)"
        unfolding whole float_lexeme_def using int f x by blast
      with True show ?thesis by simp
    next
      case False
      then show ?thesis using whole int f x by simp
    qed
    moreover have "start < p3" "p3 \<le> length bs" using sign i f x by auto
    ultimately have "scan_ok bs start (accept (if fl' then FloatValue else IntValue) start p3)"
      by (auto simp: scan_ok_accept)
    then show ?thesis using Inr parts(4) by (auto simp: lex_number_def number_finish_def split: option.splits)
  qed
qed

subsection \<open>Strings\<close>

lemma unicode_digits_None:
  "unicode_digits bs start pos is = None \<Longrightarrow> i \<in> set is \<Longrightarrow> pos + i < length bs \<and> is_hexdigit (bs ! (pos + i))"
  by (induction bs start pos "is" rule: unicode_digits.induct)
    (auto simp: nth_opt_def split: option.splits if_splits)

lemma unicode_digits_Some: "unicode_digits bs start pos is = Some r \<Longrightarrow> snd r \<noteq> Inr t"
  by (induction bs start pos "is" rule: unicode_digits.induct)
    (auto simp: reject_def split: option.splits if_splits)

lemma string_loop_ok:
  assumes "string_loop bs start pos = (e, Inr t)"
  shows "pos < e \<and> e \<le> length bs \<and> t = \<lparr>tk_kind = StringTok, tk_span = span_at start e\<rparr> \<and> string_body (sub bs pos e)"
  using assms
proof (induction bs start pos rule: string_loop.induct)
  case (1 bs start pos)
  note eq = string_loop.simps [of bs start pos]
  have len: "pos < length bs" using 1(4) eq by (auto simp: reject_def split: if_splits)
  let ?b = "bs ! pos"
  have nl: "\<not> (?b \<noteq> CHR 0x22 \<and> is_line_end ?b)" using 1(4) eq len by (auto simp: reject_def Let_def)
  consider (quote) "?b = CHR 0x22" | (escape) "?b = CHR 0x5C" | (char) "?b \<noteq> CHR 0x22" "?b \<noteq> CHR 0x5C" by blast
  then show ?case
  proof cases
    case quote
    then show ?thesis using 1(4) eq len by (auto simp: accept_def sub_Cons body_end)
  next
    case char
    then have "string_loop bs start (pos + 1) = (e, Inr t)" using 1(4) eq len nl by (auto simp: Let_def)
    from 1(3) [OF len refl char(1) _ char(2) this] nl char len show ?thesis by (auto simp: sub_Cons body_char)
  next
    case escape
    have ne: "?b \<noteq> CHR 0x22" "\<not> is_line_end ?b" using escape by (simp_all add: is_line_end_def)
    from 1(4) eq len escape ne obtain c where c: "nth_opt bs (pos + 1) = Some c"
      by (auto simp: Let_def reject_def split: option.splits)
    then have cl: "pos + 1 < length bs" "bs ! (pos + 1) = c" by (auto simp: nth_opt_def split: if_splits)
    show ?thesis
    proof (cases "is_simple_escape c")
      case True
      then have r: "string_loop bs start (pos + 2) = (e, Inr t)" using 1(4) eq len escape ne c by (simp add: Let_def)
      from 1(1) [OF len refl ne escape c True this]
      have IH: "pos + 2 < e" "e \<le> length bs" "t = \<lparr>tk_kind = StringTok, tk_span = span_at start e\<rparr>"
        "string_body (sub bs (pos + 2) e)" by auto
      have "sub bs pos e = CHR 0x5C # c # sub bs (pos + 2) e" using IH cl len escape by (simp add: sub_Cons)
      with IH body_escape [OF True IH(4)] show ?thesis by auto
    next
      case False
      then have u: "c = CHR ''u''" using 1(4) eq len escape ne c by (auto simp: Let_def reject_def split: if_splits)
      have un: "unicode_digits bs start pos [2, 3, 4, 5] = None"
      proof (cases "unicode_digits bs start pos [2, 3, 4, 5]")
        case (Some r)
        then have "r = (e, Inr t)" using 1(4) eq len escape ne c u False by (simp add: Let_def)
        with unicode_digits_Some [OF Some, of t] show ?thesis by simp
      qed
      then have r: "string_loop bs start (pos + 6) = (e, Inr t)"
        using 1(4) eq len escape ne c u False by (simp add: Let_def)
      from 1(2) [OF len refl ne escape c False u un this]
      have IH: "pos + 6 < e" "e \<le> length bs" "t = \<lparr>tk_kind = StringTok, tk_span = span_at start e\<rparr>"
        "string_body (sub bs (pos + 6) e)" by auto
      have hex: "is_hexdigit (bs ! (pos + 2))" "is_hexdigit (bs ! (pos + 3))" "is_hexdigit (bs ! (pos + 4))"
        "is_hexdigit (bs ! (pos + 5))"
        using unicode_digits_None [OF un, of 2] unicode_digits_None [OF un, of 3] unicode_digits_None [OF un, of 4]
          unicode_digits_None [OF un, of 5] by simp_all
      have "sub bs pos e = CHR 0x5C # CHR ''u'' # bs ! (pos + 2) # bs ! (pos + 3) # bs ! (pos + 4) #
          bs ! (pos + 5) # sub bs (pos + 6) e" using IH cl len escape u by (simp add: sub_Cons eval_nat_numeral)
      with IH body_unicode [of "bs ! (pos + 2)" "bs ! (pos + 3)" "bs ! (pos + 4)" "bs ! (pos + 5)", OF _ IH(4)] hex
      show ?thesis by auto
    qed
  qed
qed

lemma quote3_iff: "quote3 bs i \<longleftrightarrow> take 3 (drop i bs) = triple_quote"
proof
  assume "quote3 bs i"
  then have "i + 2 < length bs" "bs ! i = CHR 0x22" "bs ! (i + 1) = CHR 0x22" "bs ! (i + 2) = CHR 0x22"
    by (auto simp: quote3_def byte_is_iff)
  then show "take 3 (drop i bs) = triple_quote"
    by (simp add: triple_quote_def Cons_nth_drop_Suc [symmetric] eval_nat_numeral)
next
  assume a: "take 3 (drop i bs) = triple_quote"
  then have "length (take 3 (drop i bs)) = 3" by (simp add: triple_quote_def)
  then have len: "i + 2 < length bs" by (simp add: min_def split: if_splits)
  have "bs ! (i + k) = triple_quote ! k" if "k < 3" for k
    using a that len by (metis nth_drop nth_take add_lessD1 less_imp_le_nat)
  from this [of 0] this [of 1] this [of 2] len show "quote3 bs i"
    by (simp add: quote3_def byte_is_iff triple_quote_def)
qed

lemma block_body_prefix: "block_body cs \<Longrightarrow> 3 \<le> length cs"
  by (induction rule: block_body.induct) (auto simp: triple_quote_def)

lemma take_sub: "k \<le> e - pos \<Longrightarrow> take k (sub bs pos e) = take k (drop pos bs)"
  by (simp add: sub_def min_def)

lemma block_string_loop_ok:
  assumes "block_string_loop bs start pos = (e, Inr t)"
  shows "pos < e \<and> e \<le> length bs \<and> t = \<lparr>tk_kind = BlockStringValue, tk_span = span_at start e\<rparr> \<and>
    block_body (sub bs pos e)"
  using assms
proof (induction bs start pos rule: block_string_loop.induct)
  case (1 bs start pos)
  note eq = block_string_loop.simps [of bs start pos]
  have len: "pos < length bs" using 1(3) eq by (auto simp: reject_def split: if_splits)
  consider (escape) "bs ! pos = CHR 0x5C \<and> quote3 bs (pos + 1)"
    | (close) "\<not> (bs ! pos = CHR 0x5C \<and> quote3 bs (pos + 1))" "quote3 bs pos"
    | (char) "\<not> (bs ! pos = CHR 0x5C \<and> quote3 bs (pos + 1))" "\<not> quote3 bs pos" by blast
  then show ?case
  proof cases
    case escape
    then have r: "block_string_loop bs start (pos + 4) = (e, Inr t)" using 1(3) eq len by simp
    note IH = 1(1) [OF len escape r]
    have q: "pos + 3 < length bs" "bs ! (pos + 1) = CHR 0x22" "bs ! (pos + 2) = CHR 0x22" "bs ! (pos + 3) = CHR 0x22"
      using escape by (auto simp: quote3_def byte_is_iff eval_nat_numeral)
    have "sub bs pos e = CHR 0x5C # triple_quote @ sub bs (pos + 4) e"
      using IH q len escape by (simp add: sub_Cons triple_quote_def eval_nat_numeral)
    with IH block_escape show ?thesis by auto
  next
    case close
    then have e: "e = pos + 3" "t = \<lparr>tk_kind = BlockStringValue, tk_span = span_at start e\<rparr>"
      using 1(3) eq len by (auto simp: accept_def)
    moreover have "sub bs pos (pos + 3) = triple_quote" using close(2) by (simp add: quote3_iff sub_def)
    moreover have "pos + 2 < length bs" using close(2) by (auto simp: quote3_def byte_is_iff)
    ultimately show ?thesis by (simp add: block_end)
  next
    case char
    then have r: "block_string_loop bs start (pos + 1) = (e, Inr t)" using 1(3) eq len by auto
    note IH = 1(2) [OF len char r]
    then have body: "block_body (sub bs (pos + 1) e)" and le: "pos + 1 < e" "e \<le> length bs" by auto
    have k: "3 \<le> e - (pos + 1)" using block_body_prefix [OF body] le by simp
    have c: "sub bs pos e = bs ! pos # sub bs (pos + 1) e" using le by (simp add: sub_Cons)
    have "take 3 (sub bs pos e) \<noteq> triple_quote"
      using char(2) k take_sub [of 3 e pos bs] by (simp add: quote3_iff)
    moreover have "take 4 (sub bs pos e) \<noteq> CHR 0x5C # triple_quote"
    proof
      assume "take 4 (sub bs pos e) = CHR 0x5C # triple_quote"
      then have "bs ! pos = CHR 0x5C" "take 3 (sub bs (pos + 1) e) = triple_quote" unfolding c by simp_all
      then show False using char(1) take_sub [OF k, of bs] by (simp add: quote3_iff)
    qed
    ultimately have "block_body (sub bs pos e)" unfolding c using body by (rule block_char)
    with IH le show ?thesis by auto
  qed
qed

lemma lex_string_ok:
  assumes "start < length bs" and "bs ! start = CHR 0x22"
  shows "scan_ok bs start (lex_string bs start)"
proof (cases "byte_is bs (start + 1) (CHR 0x22) \<and> byte_is bs (start + 2) (CHR 0x22)")
  case True
  have q: "start + 2 < length bs" "bs ! (start + 1) = CHR 0x22" "bs ! (start + 2) = CHR 0x22"
    using True by (auto simp: byte_is_iff)
  have "sub bs start e = triple_quote @ sub bs (start + 3) e" if "start + 3 < e" for e
    using that q assms by (simp add: sub_Cons triple_quote_def eval_nat_numeral)
  with True block_string_loop_ok [of bs start "start + 3"] show ?thesis
    unfolding scan_ok_def lex_string_def by (fastforce simp: prod_eq_iff)
next
  case False
  have "sub bs start e = CHR 0x22 # sub bs (start + 1) e" if "start + 1 < e" for e
    using that assms by (simp add: sub_Cons)
  with False string_loop_ok [of bs start "start + 1"] show ?thesis
    unfolding scan_ok_def lex_string_def by (fastforce simp: prod_eq_iff)
qed

lemma lex_dispatch_ok: "start < length bs \<Longrightarrow> scan_ok bs start (lex_dispatch bs start)"
  unfolding lex_dispatch_def Let_def
  by (simp add: lex_single_ok lex_spread_ok lex_name_ok lex_number_ok lex_string_ok)

section \<open>One call of the lexer\<close>

text \<open>The cursor never passes the end of the source.\<close>

definition lexer_inv :: "lexer \<Rightarrow> bool" where
  "lexer_inv l \<longleftrightarrow> entry_pos l \<le> length (lx_bytes l)"

lemma lexer_inv_new [simp]: "lexer_inv (lexer_new src)"
proof -
  have "3 \<le> length src" if "take 3 src = bom"
    using arg_cong [OF that, of length] by (simp add: bom_def min_def split: if_splits)
  then show ?thesis by (auto simp: lexer_inv_def entry_pos_def lexer_new_def)
qed

lemma entry_pos_ge: "lx_pos l \<le> entry_pos l"
  by (simp add: entry_pos_def)

lemma next_token_cases:
  assumes "lexer_inv l" and "next_token l = (l', r)"
  obtains (eof) s where "s = length (lx_bytes l)" "gap (sub (lx_bytes l) (entry_pos l) s)"
      "l' = l\<lparr>lx_started := True, lx_pos := s\<rparr>" "r = Inr \<lparr>tk_kind = Eof, tk_span = span_at s s\<rparr>"
  | (tok) s where "entry_pos l \<le> s" "s < length (lx_bytes l)" "gap (sub (lx_bytes l) (entry_pos l) s)"
      "l' = l\<lparr>lx_started := True, lx_pos := fst (lex_dispatch (lx_bytes l) s)\<rparr>" "r = snd (lex_dispatch (lx_bytes l) s)"
proof -
  let ?s = "skip_insignificant (lx_bytes l) (entry_pos l)"
  have sp: "entry_pos l \<le> ?s" "?s \<le> length (lx_bytes l)" "gap (sub (lx_bytes l) (entry_pos l) ?s)"
    using skip_insignificant_spec [of "entry_pos l" "lx_bytes l"] assms(1) by (auto simp: lexer_inv_def)
  show thesis
  proof (cases "?s \<ge> length (lx_bytes l)")
    case True
    then show thesis using eof [of ?s] sp assms(2) by (auto simp: next_token_def Let_def)
  next
    case False
    then show thesis using tok [of ?s] sp assms(2) by (auto simp: next_token_def Let_def split: prod.splits)
  qed
qed

lemma next_token_frame:
  "next_token l = (l', r) \<Longrightarrow> lx_bytes l' = lx_bytes l \<and> lx_started l'"
  by (auto simp: next_token_def Let_def split: if_splits prod.splits)

lemma next_token_step:
  assumes inv: "lexer_inv l" and nt: "next_token l = (l', Inr t)"
  obtains s where "entry_pos l \<le> s" "s \<le> lx_pos l'" "lx_pos l' \<le> length (lx_bytes l)"
    and "gap (sub (lx_bytes l) (entry_pos l) s)" and "tk_span t = span_at s (lx_pos l')"
    and "lexeme (tk_kind t) (sub (lx_bytes l) s (lx_pos l'))"
    and "tk_kind t = Eof \<longleftrightarrow> s = length (lx_bytes l)" and "tk_kind t = Eof \<longleftrightarrow> s = lx_pos l'"
  using inv nt
proof (cases rule: next_token_cases)
  case (eof s)
  with inv that [of s] show thesis by (auto simp: lexer_inv_def)
next
  case (tok s)
  from lex_dispatch_ok [OF tok(2)] tok(4) tok(5) [symmetric] have
    "s < lx_pos l'" "lx_pos l' \<le> length (lx_bytes l)" "tk_span t = span_at s (lx_pos l')" "tk_kind t \<noteq> Eof"
    "lexeme (tk_kind t) (sub (lx_bytes l) s (lx_pos l'))"
    unfolding scan_ok_def by auto
  with tok that [of s] show thesis by auto
qed

lemma lexer_inv_next:
  "lexer_inv l \<Longrightarrow> next_token l = (l', Inr t) \<Longrightarrow> lexer_inv l'"
  by (erule (1) next_token_step) (use next_token_frame in \<open>auto simp: lexer_inv_def entry_pos_def\<close>)

text \<open>C18: lexing is faithful to the lexical grammar. For a source below 4 GiB every token the lexer
  returns lies after the cursor with only blanks, commas and comments in between, its span
  is in bounds and ends exactly at the new cursor, the spanned bytes are a lexeme of the
  token's kind, the span is empty only for \<^verbatim>\<open>Eof\<close>, and \<^verbatim>\<open>Eof\<close> is returned only at the end.\<close>

theorem next_token_sound:
  assumes "lexer_inv l" and "length (lx_bytes l) < 2 ^ 32" and "next_token l = (l', Inr t)"
  shows "let s = unat (sp_start (tk_span t)); e = unat (sp_end (tk_span t)) in
    entry_pos l \<le> s \<and> s \<le> e \<and> e \<le> length (lx_bytes l) \<and> lx_pos l' = e \<and> lexer_inv l' \<and>
    gap (sub (lx_bytes l) (entry_pos l) s) \<and> lexeme (tk_kind t) (sub (lx_bytes l) s e) \<and>
    (tk_kind t = Eof \<longleftrightarrow> s = length (lx_bytes l)) \<and> (tk_kind t = Eof \<longleftrightarrow> s = e)"
proof -
  from assms(1,3) obtain s where s: "entry_pos l \<le> s" "s \<le> lx_pos l'" "lx_pos l' \<le> length (lx_bytes l)"
    "gap (sub (lx_bytes l) (entry_pos l) s)" "tk_span t = span_at s (lx_pos l')"
    "lexeme (tk_kind t) (sub (lx_bytes l) s (lx_pos l'))"
    "tk_kind t = Eof \<longleftrightarrow> s = length (lx_bytes l)" "tk_kind t = Eof \<longleftrightarrow> s = lx_pos l'" by (rule next_token_step)
  have "unat (of_nat s :: 32 word) = s" "unat (of_nat (lx_pos l') :: 32 word) = lx_pos l'"
    using s assms(2) by (auto intro!: unat_of_nat_32)
  with s lexer_inv_next [OF assms(1,3)] show ?thesis
    by (auto simp: Let_def span_at_def span_new_def)
qed

theorem next_token_sound_witness:
  "\<exists>l' t. next_token (lexer_new '' -1.5e3 }'') = (l', Inr t) \<and> tk_kind t = FloatValue \<and>
     float_lexeme (sub '' -1.5e3 }'' (unat (sp_start (tk_span t))) (unat (sp_end (tk_span t))))"
proof -
  have nt: "next_token (lexer_new '' -1.5e3 }'') =
     (\<lparr>lx_bytes = '' -1.5e3 }'', lx_pos = 7, lx_started = True\<rparr>,
      Inr \<lparr>tk_kind = FloatValue, tk_span = \<lparr>sp_start = 1, sp_end = 7\<rparr>\<rparr>)" by code_simp
  have "length (lx_bytes (lexer_new '' -1.5e3 }'')) < 2 ^ 32" by (simp add: lexer_new_def)
  from next_token_sound [OF lexer_inv_new this nt] nt show ?thesis by (simp add: Let_def lexer_new_def)
qed

section \<open>Lexemes in UTF-8 sources\<close>

text \<open>What the lexer relies on of a \<^verbatim>\<open>&str\<close>: in valid UTF-8 a continuation byte follows a byte
  that is not ASCII.\<close>

definition utf8_ok :: "string \<Rightarrow> bool" where
  "utf8_ok bs \<longleftrightarrow> list_all (\<lambda>i. is_continuation (bs ! i) \<longrightarrow> 0 < i \<and> 128 \<le> (of_char (bs ! (i - 1)) :: nat)) [0..<length bs]"

definition is_ascii :: "char \<Rightarrow> bool" where
  "is_ascii c \<longleftrightarrow> (of_char c :: nat) < 128"

lemma ascii_name_char: "is_name_char c \<Longrightarrow> is_ascii c"
  by (auto simp: is_name_char_def is_name_start_def is_digit_def is_ascii_def)

lemma last_string_body: "string_body cs \<Longrightarrow> cs \<noteq> [] \<and> last cs = CHR 0x22"
  by (induction rule: string_body.induct) auto

lemma last_block_body: "block_body cs \<Longrightarrow> cs \<noteq> [] \<and> last cs = CHR 0x22"
  by (induction rule: block_body.induct) (auto simp: triple_quote_def)

lemma digits_last: "digits ds \<Longrightarrow> ds \<noteq> [] \<and> is_digit (last ds)"
  by (auto simp: digits_def list_all_iff)

lemma ascii_simps [simp]: "is_digit c \<Longrightarrow> is_ascii c" "is_ascii (CHR 0x22)"
  by (simp_all add: is_digit_def is_ascii_def)

lemma int_lexeme_ends: "int_lexeme s \<Longrightarrow> s \<noteq> [] \<and> is_ascii (hd s) \<and> is_digit (last s)"
proof -
  assume "int_lexeme s"
  then obtain sign ds where s: "s = sign @ ds" "sign = [] \<or> sign = ''-''"
    "ds = ''0'' \<or> digits ds \<and> hd ds \<noteq> CHR ''0''" unfolding int_lexeme_def by blast
  have zero: "is_digit (CHR ''0'')" by (simp add: is_digit_def)
  have "ds \<noteq> [] \<and> is_digit (hd ds) \<and> is_digit (last ds)"
    using s(3) zero by (auto simp: digits_def list_all_iff)
  moreover have "is_ascii (CHR ''-'')" by (simp add: is_ascii_def)
  ultimately show ?thesis using s(1,2) by auto
qed

lemma float_lexeme_ends: "float_lexeme s \<Longrightarrow> s \<noteq> [] \<and> is_ascii (hd s) \<and> is_digit (last s)"
  unfolding float_lexeme_def using int_lexeme_ends digits_last by (auto simp: hd_append last_append)

lemma lexeme_ends: "lexeme k s \<Longrightarrow> k \<noteq> Eof \<Longrightarrow> s \<noteq> [] \<and> is_ascii (hd s) \<and> is_ascii (last s)"
proof (induction k s rule: lexeme.induct)
  case (15 s)
  then obtain c cs where s: "s = c # cs" "is_name_start c" "list_all is_name_char cs" by auto
  then have "list_all is_name_char s" by (simp add: is_name_char_def)
  then have "is_name_char (hd s)" "is_name_char (last s)" using s(1) by (auto simp: list_all_iff)
  with s(1) ascii_name_char show ?case by simp
next
  case (16 s)
  with int_lexeme_ends show ?case by simp
next
  case (17 s)
  with float_lexeme_ends show ?case by simp
next
  case (18 s)
  with last_string_body show ?case by auto
next
  case (19 s)
  with last_block_body show ?case by (auto simp: triple_quote_def)
qed (simp_all add: is_ascii_def)

lemma boundary_ascii: "i < length bs \<Longrightarrow> is_ascii (bs ! i) \<Longrightarrow> is_char_boundary bs i"
  by (auto simp: is_char_boundary_def nth_opt_def is_ascii_def is_continuation_def)

lemma boundary_after_ascii:
  assumes "utf8_ok bs" and "0 < i" and "i \<le> length bs" and "is_ascii (bs ! (i - 1))"
  shows "is_char_boundary bs i"
proof (cases "i < length bs")
  case True
  with assms have "\<not> is_continuation (bs ! i)" by (fastforce simp: utf8_ok_def list_all_iff is_ascii_def)
  with True show ?thesis by (simp add: is_char_boundary_def nth_opt_def)
next
  case False
  with assms(3) show ?thesis by (simp add: is_char_boundary_def nth_opt_def)
qed

lemma sub_ends:
  "s < e \<Longrightarrow> e \<le> length bs \<Longrightarrow> hd (sub bs s e) = bs ! s \<and> last (sub bs s e) = bs ! (e - 1)"
  by (simp add: sub_def hd_conv_nth last_conv_nth)

text \<open>The defensive fallback of \<^verbatim>\<open>slice\<close> is never taken: in a UTF-8 source below 4 GiB the span
  of every token starts and ends on a character boundary, so slicing it gives back exactly
  the token's lexeme, and never the empty string for a token other than \<^verbatim>\<open>Eof\<close>.\<close>

theorem slice_token:
  assumes "lexer_inv l" and "length (lx_bytes l) < 2 ^ 32" and "utf8_ok (lx_bytes l)"
    and "next_token l = (l', Inr t)" and "tk_kind t \<noteq> Eof"
  shows "src_slice (lx_bytes l) (tk_span t) \<noteq> [] \<and> lexeme (tk_kind t) (src_slice (lx_bytes l) (tk_span t)) \<and>
    is_char_boundary (lx_bytes l) (unat (sp_start (tk_span t))) \<and> is_char_boundary (lx_bytes l) (unat (sp_end (tk_span t)))"
proof -
  let ?bs = "lx_bytes l"
  from assms(1,4) obtain s where s: "s \<le> lx_pos l'" "lx_pos l' \<le> length ?bs" "tk_span t = span_at s (lx_pos l')"
    "lexeme (tk_kind t) (sub ?bs s (lx_pos l'))" "tk_kind t = Eof \<longleftrightarrow> s = lx_pos l'" by (rule next_token_step)
  let ?e = "lx_pos l'"
  have un: "unat (of_nat s :: 32 word) = s" "unat (of_nat ?e :: 32 word) = ?e"
    using s assms(2) by (auto intro!: unat_of_nat_32)
  have lt: "s < ?e" using s(1,5) assms(5) by simp
  note ends = lexeme_ends [OF s(4) assms(5)] and se = sub_ends [OF lt s(2)]
  have b: "is_char_boundary ?bs s" "is_char_boundary ?bs ?e"
    using boundary_ascii [of s ?bs] boundary_after_ascii [OF assms(3), of ?e] ends se lt s(2) by auto
  then have "str_get ?bs s ?e = Some (sub ?bs s ?e)" using lt by (simp add: str_get_def sub_def)
  then have "src_slice ?bs (tk_span t) = sub ?bs s ?e"
    by (simp add: src_slice_def s(3) span_at_def span_new_def un)
  with b ends s(3,4) un show ?thesis by (simp add: span_at_def span_new_def)
qed

theorem slice_token_witness:
  "\<exists>l' t. next_token (lexer_new '',query{a}'') = (l', Inr t) \<and> src_slice '',query{a}'' (tk_span t) \<noteq> []"
proof -
  have nt: "next_token (lexer_new '',query{a}'') =
     (\<lparr>lx_bytes = '',query{a}'', lx_pos = 6, lx_started = True\<rparr>,
      Inr \<lparr>tk_kind = NameTok, tk_span = \<lparr>sp_start = 1, sp_end = 6\<rparr>\<rparr>)" by code_simp
  have "length (lx_bytes (lexer_new '',query{a}'')) < 2 ^ 32" by (simp add: lexer_new_def)
  moreover have "utf8_ok (lx_bytes (lexer_new '',query{a}''))" by code_simp
  ultimately show ?thesis using slice_token [OF lexer_inv_new _ _ nt] nt by (auto simp: lexer_new_def)
qed

text \<open>The errors of a scan are lexer errors.\<close>

definition lexer_errors :: "scan \<Rightarrow> bool" where
  "lexer_errors r \<longleftrightarrow> (\<forall>e. snd r = Inl e \<longrightarrow> discriminant (pe_kind e) < 32)"

lemma lexer_errors_basic [simp]:
  "lexer_errors (accept tk a b)" "lexer_errors (reject k a b c) \<longleftrightarrow> discriminant k < 32"
  by (simp_all add: lexer_errors_def accept_def reject_def parse_error_new_def)

lemma lexer_errors_number: "lexer_errors (lex_number bs start)"
proof -
  have d: "number_digits bs start p = Inl r \<Longrightarrow> lexer_errors r" for p r
    by (auto simp: number_digits_def Let_def split: if_splits)
  have i: "number_int_part bs start p = Inl r \<Longrightarrow> lexer_errors r" for p r
    by (auto simp: number_int_part_def split: option.splits if_splits)
  have f: "number_frac_part bs start p = Inl r \<Longrightarrow> lexer_errors r" for p r
    using d by (auto simp: number_frac_part_def result_simps split: if_splits)
  have x: "number_exp_part bs start st = Inl r \<Longrightarrow> lexer_errors r" for st r
    using d by (auto simp: number_exp_part_def Let_def result_simps split: prod.splits if_splits)
  have "lexer_errors (number_finish bs start st)" for st
    by (auto simp: number_finish_def split: prod.splits option.splits)
  with i f x show ?thesis
    unfolding lex_number_def by (auto simp: result_simps split: sum.splits)
qed

lemma lexer_errors_string: "lexer_errors (string_loop bs start pos)"
proof (induction bs start pos rule: string_loop.induct)
  case (1 bs start pos)
  have "unicode_digits bs start pos is = Some r \<Longrightarrow> lexer_errors r" for "is" r
    by (induction "is") (auto split: option.splits if_splits)
  with 1 show ?case
    by (subst string_loop.simps) (auto simp: Let_def simp del: unicode_digits.simps split: option.splits)
qed

lemma lexer_errors_block: "lexer_errors (block_string_loop bs start pos)"
  by (induction bs start pos rule: block_string_loop.induct) (subst block_string_loop.simps, auto)

text \<open>Every error of the lexer is one of the five lexer kinds, whose discriminants lie below 32,
  the boundary the decoders of the wire format branch on.\<close>

theorem lexer_error_range:
  "case snd (next_token l) of Inl e \<Rightarrow> discriminant (pe_kind e) < 32 | Inr _ \<Rightarrow> True"
proof -
  have "lexer_errors (lex_dispatch bs start)" for bs start
    unfolding lex_dispatch_def Let_def lex_single_def lex_spread_def lex_name_def lex_string_def
    by (simp add: lexer_errors_number lexer_errors_string lexer_errors_block)
  then show ?thesis
    by (auto simp: next_token_def lexer_errors_def Let_def split: prod.splits sum.splits)
      (metis snd_conv)+
qed

end
