(* ===== verification/Gql_Ast.thy ===== *)
theory Gql_Ast
  imports Gql_Lex
begin

text \<open>
  The syntax tree of \<^verbatim>\<open>magna-gqlmin/src/parse/mod.rs\<close>. All lists of a document live in one arena
  of tagged nodes; a list field is a range into it. The typed accessors of \<^verbatim>\<open>Document\<close> read a
  range and project every node to the expected variant; \<open>None\<close> is \<^verbatim>\<open>panic_invariant\<close>. The
  predicates at the end say when ranges are in bounds and point at the right variant; they
  are preserved when the arena grows.
\<close>

section \<open>The tree\<close>

record node_range =
  nr_start :: "32 word"
  nr_len :: "32 word"

definition range_EMPTY :: node_range where
  "range_EMPTY = \<lparr>nr_start = 0, nr_len = 0\<rparr>"

definition range_is_empty :: "node_range \<Rightarrow> bool" where
  "range_is_empty r \<longleftrightarrow> nr_len r = 0"

definition range_len :: "node_range \<Rightarrow> nat" where
  "range_len r = unat (nr_len r)"

record name =
  nm_value :: string
  nm_span :: span

record named_type =
  nt_name :: name

datatype gtype = Named named_type | TList gtype | NonNull gtype

record string_value =
  sv_raw :: string
  sv_block :: bool
  sv_span :: span

datatype gvalue =
    VVariable name | VInt string | VFloat string | VString string_value | VBoolean bool | VNull
  | VEnum name | VList node_range | VObject node_range

record object_field =
  obf_name :: name
  obf_value :: gvalue

record argument =
  arg_name :: name
  arg_value :: gvalue

record directive =
  dir_name :: name
  dir_arguments :: node_range

record variable_definition =
  vd_name :: name
  vd_type :: gtype
  vd_default_value :: "gvalue option"
  vd_directives :: node_range

record selection_set =
  ss_selections :: node_range
  ss_span :: span

record field =
  fld_alias :: "name option"
  fld_name :: name
  fld_arguments :: node_range
  fld_directives :: node_range
  fld_selection_set :: "selection_set option"

record fragment_spread =
  fsp_name :: name
  fsp_directives :: node_range

record inline_fragment =
  ifr_type_condition :: "named_type option"
  ifr_directives :: node_range
  ifr_selection_set :: selection_set

datatype selection = SField field | SFragmentSpread fragment_spread | SInlineFragment inline_fragment

datatype operation_kind = Query | Mutation | Subscription

record operation_definition =
  opd_kind :: operation_kind
  opd_name :: "name option"
  opd_variable_definitions :: node_range
  opd_directives :: node_range
  opd_selection_set :: selection_set
  opd_span :: span
  opd_shorthand :: bool

record fragment_definition =
  frd_name :: name
  frd_type_condition :: named_type
  frd_directives :: node_range
  frd_selection_set :: selection_set
  frd_span :: span

datatype gdefinition = DOperation operation_definition | DFragment fragment_definition

datatype node =
    NDefinition gdefinition | NVariableDefinition variable_definition | NDirective directive
  | NArgument argument | NSelection selection | NObjectField object_field | NValue gvalue

record document =
  doc_definitions_range :: node_range
  doc_nodes :: "node list"

section \<open>Typed accessors\<close>

fun project_definition :: "node \<Rightarrow> gdefinition option" where
  "project_definition (NDefinition v) = Some v"
| "project_definition _ = None"

fun project_variable_definition :: "node \<Rightarrow> variable_definition option" where
  "project_variable_definition (NVariableDefinition v) = Some v"
| "project_variable_definition _ = None"

fun project_directive :: "node \<Rightarrow> directive option" where
  "project_directive (NDirective v) = Some v"
| "project_directive _ = None"

fun project_argument :: "node \<Rightarrow> argument option" where
  "project_argument (NArgument v) = Some v"
| "project_argument _ = None"

fun project_selection :: "node \<Rightarrow> selection option" where
  "project_selection (NSelection v) = Some v"
| "project_selection _ = None"

fun project_object_field :: "node \<Rightarrow> object_field option" where
  "project_object_field (NObjectField v) = Some v"
| "project_object_field _ = None"

fun project_value :: "node \<Rightarrow> gvalue option" where
  "project_value (NValue v) = Some v"
| "project_value _ = None"

text \<open>\<^verbatim>\<open>self.nodes.get(start..end).unwrap_or(&[])\<close>.\<close>

definition arena_slice :: "node list \<Rightarrow> node_range \<Rightarrow> node list" where
  "arena_slice ns r =
     (let s = unat (nr_start r); e = s + unat (nr_len r)
      in if e \<le> length ns then sub ns s e else [])"

text \<open>Reading a whole slice through its projection, as iterating a \<^verbatim>\<open>NodeSlice\<close> does.\<close>

fun project_all :: "(node \<Rightarrow> 'a option) \<Rightarrow> node list \<Rightarrow> 'a list option" where
  "project_all f [] = Some []"
| "project_all f (n # ns) =
     (case f n of None \<Rightarrow> None | Some v \<Rightarrow> map_option (\<lambda>vs. v # vs) (project_all f ns))"

definition slice_read :: "(node \<Rightarrow> 'a option) \<Rightarrow> document \<Rightarrow> node_range \<Rightarrow> 'a list option" where
  "slice_read f doc r = project_all f (arena_slice (doc_nodes doc) r)"

definition doc_definitions :: "document \<Rightarrow> gdefinition list option" where
  "doc_definitions doc = slice_read project_definition doc (doc_definitions_range doc)"

definition doc_variable_definitions :: "document \<Rightarrow> node_range \<Rightarrow> variable_definition list option" where
  "doc_variable_definitions = slice_read project_variable_definition"

definition doc_directives :: "document \<Rightarrow> node_range \<Rightarrow> directive list option" where
  "doc_directives = slice_read project_directive"

definition doc_arguments :: "document \<Rightarrow> node_range \<Rightarrow> argument list option" where
  "doc_arguments = slice_read project_argument"

definition doc_selections :: "document \<Rightarrow> node_range \<Rightarrow> selection list option" where
  "doc_selections = slice_read project_selection"

definition doc_object_fields :: "document \<Rightarrow> node_range \<Rightarrow> object_field list option" where
  "doc_object_fields = slice_read project_object_field"

definition doc_list_values :: "document \<Rightarrow> node_range \<Rightarrow> gvalue list option" where
  "doc_list_values = slice_read project_value"

section \<open>Well-formed arenas\<close>

text \<open>A range is in bounds and every node in it has the variant the projection expects.\<close>

definition range_ok :: "(node \<Rightarrow> 'a option) \<Rightarrow> node list \<Rightarrow> node_range \<Rightarrow> bool" where
  "range_ok f ns r \<longleftrightarrow> unat (nr_start r) + unat (nr_len r) \<le> length ns \<and>
     list_all (\<lambda>n. f n \<noteq> None) (arena_slice ns r)"

definition set_ok :: "node list \<Rightarrow> selection_set \<Rightarrow> bool" where
  "set_ok ns s \<longleftrightarrow> range_ok project_selection ns (ss_selections s) \<and> \<not> range_is_empty (ss_selections s)"

fun value_ok :: "node list \<Rightarrow> gvalue \<Rightarrow> bool" where
  "value_ok ns (VList r) \<longleftrightarrow> range_ok project_value ns r"
| "value_ok ns (VObject r) \<longleftrightarrow> range_ok project_object_field ns r"
| "value_ok ns _ \<longleftrightarrow> True"

text \<open>No variable occurs in a value, at any depth.\<close>

inductive const_value :: "node list \<Rightarrow> gvalue \<Rightarrow> bool" for ns where
  "const_value ns (VInt s)"
| "const_value ns (VFloat s)"
| "const_value ns (VString sv)"
| "const_value ns (VBoolean b)"
| "const_value ns VNull"
| "const_value ns (VEnum n)"
| const_list: "range_ok project_value ns r \<Longrightarrow>
    (\<And>v. NValue v \<in> set (arena_slice ns r) \<Longrightarrow> const_value ns v) \<Longrightarrow> const_value ns (VList r)"
| const_object: "range_ok project_object_field ns r \<Longrightarrow>
    (\<And>f. NObjectField f \<in> set (arena_slice ns r) \<Longrightarrow> const_value ns (obf_value f)) \<Longrightarrow> const_value ns (VObject r)"

inductive_simps const_value_simps [simp]:
  "const_value ns (VVariable n)" "const_value ns (VInt s)" "const_value ns (VFloat s)" "const_value ns (VString sv)"
  "const_value ns (VBoolean b)" "const_value ns VNull" "const_value ns (VEnum n)"

fun selection_ok :: "node list \<Rightarrow> selection \<Rightarrow> bool" where
  "selection_ok ns (SField f) \<longleftrightarrow> range_ok project_argument ns (fld_arguments f) \<and>
     range_ok project_directive ns (fld_directives f) \<and>
     (case fld_selection_set f of None \<Rightarrow> True | Some s \<Rightarrow> set_ok ns s)"
| "selection_ok ns (SFragmentSpread f) \<longleftrightarrow> range_ok project_directive ns (fsp_directives f)"
| "selection_ok ns (SInlineFragment f) \<longleftrightarrow> range_ok project_directive ns (ifr_directives f) \<and>
     set_ok ns (ifr_selection_set f)"

fun definition_ok :: "node list \<Rightarrow> gdefinition \<Rightarrow> bool" where
  "definition_ok ns (DOperation d) \<longleftrightarrow>
     range_ok project_variable_definition ns (opd_variable_definitions d) \<and>
     range_ok project_directive ns (opd_directives d) \<and> set_ok ns (opd_selection_set d)"
| "definition_ok ns (DFragment d) \<longleftrightarrow> range_ok project_directive ns (frd_directives d) \<and> set_ok ns (frd_selection_set d)"

fun node_ok :: "node list \<Rightarrow> node \<Rightarrow> bool" where
  "node_ok ns (NDefinition d) \<longleftrightarrow> definition_ok ns d"
| "node_ok ns (NVariableDefinition d) \<longleftrightarrow> range_ok project_directive ns (vd_directives d) \<and>
     (case vd_default_value d of None \<Rightarrow> True | Some v \<Rightarrow> value_ok ns v \<and> const_value ns v)"
| "node_ok ns (NDirective d) \<longleftrightarrow> range_ok project_argument ns (dir_arguments d)"
| "node_ok ns (NArgument a) \<longleftrightarrow> value_ok ns (arg_value a)"
| "node_ok ns (NSelection s) \<longleftrightarrow> selection_ok ns s"
| "node_ok ns (NObjectField f) \<longleftrightarrow> value_ok ns (obf_value f)"
| "node_ok ns (NValue v) \<longleftrightarrow> value_ok ns v"

lemma arena_slice_append:
  "unat (nr_start r) + unat (nr_len r) \<le> length ns \<Longrightarrow> arena_slice (ns @ ms) r = arena_slice ns r"
  by (simp add: arena_slice_def Let_def sub_def)

lemma range_ok_append: "range_ok f ns r \<Longrightarrow> range_ok f (ns @ ms) r"
  by (simp add: range_ok_def arena_slice_append)

lemma range_ok_EMPTY [simp]: "range_ok f ns range_EMPTY"
  by (simp add: range_ok_def range_EMPTY_def arena_slice_def)

lemma set_ok_append: "set_ok ns s \<Longrightarrow> set_ok (ns @ ms) s"
  by (auto simp: set_ok_def range_ok_append)

lemma value_ok_append: "value_ok ns v \<Longrightarrow> value_ok (ns @ ms) v"
  by (cases v) (auto simp: range_ok_append)

lemma const_value_append: "const_value ns v \<Longrightarrow> const_value (ns @ ms) v"
proof (induction rule: const_value.induct)
  case (const_list r)
  then have "arena_slice (ns @ ms) r = arena_slice ns r" by (simp add: range_ok_def arena_slice_append)
  with const_list show ?case by (auto intro!: const_value.const_list range_ok_append)
next
  case (const_object r)
  then have "arena_slice (ns @ ms) r = arena_slice ns r" by (simp add: range_ok_def arena_slice_append)
  with const_object show ?case by (auto intro!: const_value.const_object range_ok_append)
qed auto

lemma node_ok_append: "node_ok ns n \<Longrightarrow> node_ok (ns @ ms) n"
proof (cases n)
  case (NDefinition d)
  then show "node_ok ns n \<Longrightarrow> ?thesis" by (cases d) (auto simp: range_ok_append set_ok_append)
next
  case (NSelection s)
  then show "node_ok ns n \<Longrightarrow> ?thesis"
    by (cases s) (auto simp: range_ok_append set_ok_append split: option.splits)
qed (auto simp: range_ok_append value_ok_append const_value_append split: option.splits)

text \<open>Every node only refers to nodes stored before it.\<close>

definition children_first :: "node list \<Rightarrow> bool" where
  "children_first ns \<longleftrightarrow> (\<forall>i < length ns. node_ok (take i ns) (ns ! i))"

lemma children_first_Nil [simp]: "children_first []"
  by (simp add: children_first_def)

lemma children_first_append:
  assumes "children_first ns" and "list_all (node_ok ns) ms"
  shows "children_first (ns @ ms)"
  unfolding children_first_def
proof (intro allI impI)
  fix i
  assume i: "i < length (ns @ ms)"
  show "node_ok (take i (ns @ ms)) ((ns @ ms) ! i)"
  proof (cases "i < length ns")
    case True
    then show ?thesis using assms(1) by (simp add: children_first_def nth_append)
  next
    case False
    then have "ms ! (i - length ns) \<in> set ms" using i by auto
    then show ?thesis using assms(2) False node_ok_append by (simp add: nth_append list_all_iff)
  qed
qed

lemma children_first_nodes:
  assumes "children_first ns"
  shows "list_all (node_ok ns) ns"
  unfolding list_all_length
proof (intro allI impI)
  fix i
  assume "i < length ns"
  then have "node_ok (take i ns @ drop i ns) (ns ! i)"
    using assms node_ok_append unfolding children_first_def by blast
  then show "node_ok ns (ns ! i)" by simp
qed

lemma project_all_total: "list_all (\<lambda>n. f n \<noteq> None) ns \<Longrightarrow> project_all f ns = Some (map (the \<circ> f) ns)"
  by (induction ns) auto

lemma slice_read_ok:
  assumes "range_ok f (doc_nodes doc) r"
  shows "\<exists>vs. slice_read f doc r = Some vs \<and> length vs = range_len r"
proof -
  have "length (arena_slice (doc_nodes doc) r) = range_len r"
    using assms by (simp add: range_ok_def arena_slice_def range_len_def Let_def)
  then show ?thesis using assms by (simp add: range_ok_def slice_read_def project_all_total)
qed

end
