(* ===== verification/Gql_Parse.thy ===== *)
theory Gql_Parse
  imports Gql_Ast
begin

text \<open>
  The recursive-descent parser of \<^verbatim>\<open>magna-gqlmin/src/parse/mod.rs\<close>, production by production. A
  production maps a parser state to \<open>Some (Inl e)\<close> (the error it returns), to
  \<open>Some (Inr (x, st))\<close> (its result and the new state), or to \<open>None\<close> when its fuel is used up;
  the entry point gives twice the number of source bytes plus one, and it is proved that
  this always suffices. The loops over a closing delimiter share \<open>list_loop\<close>.
\<close>

record parser =
  ps_lexer :: lexer
  ps_peeked :: "token option"
  ps_nodes :: "node list"
  ps_scratch :: "node list"

type_synonym ('a, 's) outcome = "(parse_error + 'a \<times> 's) option"

type_synonym 'a res = "('a, parser) outcome"

definition pbind :: "('a, 's) outcome \<Rightarrow> ('a \<Rightarrow> 's \<Rightarrow> ('b, 's) outcome) \<Rightarrow> ('b, 's) outcome" where
  "pbind m f = (case m of None \<Rightarrow> None | Some (Inl e) \<Rightarrow> Some (Inl e) | Some (Inr (x, st)) \<Rightarrow> f x st)"

abbreviation ret :: "'a \<Rightarrow> 's \<Rightarrow> ('a, 's) outcome" where
  "ret x st \<equiv> Some (Inr (x, st))"

definition fail :: "span \<Rightarrow> parse_error_kind \<Rightarrow> ('a, 's) outcome" where
  "fail s k = Some (Inl (parse_error_new s k))"

definition parser_new :: "string \<Rightarrow> parser" where
  "parser_new src = \<lparr>ps_lexer = lexer_new src, ps_peeked = None, ps_nodes = [], ps_scratch = []\<rparr>"

definition lex_res :: "parser \<Rightarrow> (token \<Rightarrow> parser \<Rightarrow> parser) \<Rightarrow> token res" where
  "lex_res st f =
     (case next_token (ps_lexer st) of
        (l, Inl e) \<Rightarrow> Some (Inl e)
      | (l, Inr t) \<Rightarrow> ret t (f t (st\<lparr>ps_lexer := l\<rparr>)))"

definition peek :: "parser \<Rightarrow> token res" where
  "peek st =
     (case ps_peeked st of
        Some t \<Rightarrow> ret t st
      | None \<Rightarrow> lex_res st (\<lambda>t st. st\<lparr>ps_peeked := Some t\<rparr>))"

definition bump_tok :: "parser \<Rightarrow> token res" where
  "bump_tok st =
     (case ps_peeked st of
        Some t \<Rightarrow> ret t (st\<lparr>ps_peeked := None\<rparr>)
      | None \<Rightarrow> lex_res st (\<lambda>t st. st))"

definition slice :: "parser \<Rightarrow> span \<Rightarrow> string" where
  "slice st sp = src_slice (lx_bytes (ps_lexer st)) sp"

definition expect :: "token_kind \<Rightarrow> parse_error_kind \<Rightarrow> parser \<Rightarrow> token res" where
  "expect k err st =
     pbind (peek st) (\<lambda>t st. if tk_kind t = k then bump_tok st else fail (tk_span t) err)"

definition open_list :: "parser \<Rightarrow> nat" where
  "open_list st = length (ps_scratch st)"

definition push_node :: "node \<Rightarrow> parser \<Rightarrow> parser" where
  "push_node n st = st\<lparr>ps_scratch := ps_scratch st @ [n]\<rparr>"

definition close_list :: "nat \<Rightarrow> parser \<Rightarrow> node_range res" where
  "close_list start st =
     (let count = length (ps_scratch st) - start in
      ret \<lparr>nr_start = of_nat (length (ps_nodes st)), nr_len = of_nat count\<rparr>
        (st\<lparr>ps_nodes := ps_nodes st @ drop start (ps_scratch st), ps_scratch := take start (ps_scratch st)\<rparr>))"

text \<open>\<^verbatim>\<open>loop { peek; stop at the closing token; fail at Eof; parse an item and push it }\<close>; the closing
  token is the result.\<close>

fun list_loop :: "nat \<Rightarrow> token_kind \<Rightarrow> (parser \<Rightarrow> node res) \<Rightarrow> parser \<Rightarrow> token res" where
  "list_loop 0 close item st = None"
| "list_loop (Suc k) close item st =
     pbind (peek st) (\<lambda>t st.
       if tk_kind t = close then bump_tok st
       else if tk_kind t = Eof then fail (tk_span t) UnclosedDelimiter
       else pbind (item st) (\<lambda>n st. list_loop k close item (push_node n st)))"

text \<open>\<^verbatim>\<open>while self.peek()?.kind == start { parse an item and push it }\<close>.\<close>

fun while_loop :: "nat \<Rightarrow> (token_kind \<Rightarrow> bool) \<Rightarrow> (parser \<Rightarrow> node res) \<Rightarrow> parser \<Rightarrow> unit res" where
  "while_loop 0 continue item st = None"
| "while_loop (Suc k) continue item st =
     pbind (peek st) (\<lambda>t st.
       if continue (tk_kind t) then pbind (item st) (\<lambda>n st. while_loop k continue item (push_node n st))
       else ret () st)"

section \<open>Productions\<close>

definition parse_name :: "parser \<Rightarrow> name res" where
  "parse_name st =
     pbind (peek st) (\<lambda>t st.
       if tk_kind t \<noteq> NameTok then fail (tk_span t) ExpectedName
       else pbind (bump_tok st) (\<lambda>_ st.
         ret \<lparr>nm_value = slice st (tk_span t), nm_span = tk_span t\<rparr> st))"

fun parse_type :: "nat \<Rightarrow> parser \<Rightarrow> gtype res" where
  "parse_type 0 st = None"
| "parse_type (Suc k) st =
     pbind (peek st) (\<lambda>t st.
     pbind (if tk_kind t = NameTok then pbind (parse_name st) (\<lambda>n st. ret (Named \<lparr>nt_name = n\<rparr>) st)
            else if tk_kind t = LBracket then
              pbind (bump_tok st) (\<lambda>_ st.
              pbind (parse_type k st) (\<lambda>elem st.
              pbind (expect RBracket UnclosedDelimiter st) (\<lambda>_ st. ret (TList elem) st)))
            else fail (tk_span t) ExpectedType) (\<lambda>inner st.
     pbind (peek st) (\<lambda>t st.
       if tk_kind t = Bang then pbind (bump_tok st) (\<lambda>_ st. ret (NonNull inner) st)
       else ret inner st)))"

definition name_value :: "string \<Rightarrow> span \<Rightarrow> gvalue" where
  "name_value lx sp =
     (if lx = ''true'' then VBoolean True
      else if lx = ''false'' then VBoolean False
      else if lx = ''null'' then VNull
      else VEnum \<lparr>nm_value = lx, nm_span = sp\<rparr>)"

fun parse_value :: "nat \<Rightarrow> bool \<Rightarrow> parser \<Rightarrow> gvalue res" where
  "parse_value 0 is_const st = None"
| "parse_value (Suc k) is_const st =
     pbind (peek st) (\<lambda>t st.
       case tk_kind t of
         Dollar \<Rightarrow>
           if is_const then fail (tk_span t) ExpectedValue
           else pbind (bump_tok st) (\<lambda>_ st. pbind (parse_name st) (\<lambda>n st. ret (VVariable n) st))
       | IntValue \<Rightarrow> pbind (bump_tok st) (\<lambda>_ st. ret (VInt (slice st (tk_span t))) st)
       | FloatValue \<Rightarrow> pbind (bump_tok st) (\<lambda>_ st. ret (VFloat (slice st (tk_span t))) st)
       | StringTok \<Rightarrow> pbind (bump_tok st) (\<lambda>_ st.
           ret (VString \<lparr>sv_raw = slice st (tk_span t), sv_block = False, sv_span = tk_span t\<rparr>) st)
       | BlockStringValue \<Rightarrow> pbind (bump_tok st) (\<lambda>_ st.
           ret (VString \<lparr>sv_raw = slice st (tk_span t), sv_block = True, sv_span = tk_span t\<rparr>) st)
       | NameTok \<Rightarrow> pbind (bump_tok st) (\<lambda>_ st. ret (name_value (slice st (tk_span t)) (tk_span t)) st)
       | LBracket \<Rightarrow>
           pbind (bump_tok st) (\<lambda>_ st.
           pbind (list_loop k RBracket (\<lambda>st. pbind (parse_value k is_const st) (\<lambda>v st. ret (NValue v) st)) st) (\<lambda>_ st'.
           pbind (close_list (open_list st) st') (\<lambda>r st. ret (VList r) st)))
       | LBrace \<Rightarrow>
           pbind (bump_tok st) (\<lambda>_ st.
           pbind (list_loop k RBrace (\<lambda>st.
                    pbind (parse_name st) (\<lambda>n st.
                    pbind (expect Colon ExpectedColon st) (\<lambda>_ st.
                    pbind (parse_value k is_const st) (\<lambda>v st.
                      ret (NObjectField \<lparr>obf_name = n, obf_value = v\<rparr>) st)))) st) (\<lambda>_ st'.
           pbind (close_list (open_list st) st') (\<lambda>r st. ret (VObject r) st)))
       | _ \<Rightarrow> fail (tk_span t) ExpectedValue)"

definition argument_item :: "nat \<Rightarrow> parser \<Rightarrow> node res" where
  "argument_item k st =
     pbind (parse_name st) (\<lambda>n st.
     pbind (expect Colon ExpectedColon st) (\<lambda>_ st.
     pbind (parse_value k False st) (\<lambda>v st. ret (NArgument \<lparr>arg_name = n, arg_value = v\<rparr>) st)))"

definition parse_arguments :: "nat \<Rightarrow> parser \<Rightarrow> node_range res" where
  "parse_arguments k st =
     pbind (expect LParen UnexpectedToken st) (\<lambda>_ st.
     pbind (list_loop k RParen (argument_item k) st) (\<lambda>_ st'. close_list (open_list st) st'))"

text \<open>\<^verbatim>\<open>if self.peek()?.kind == LParen { self.parse_arguments()? } else { NodeRange::EMPTY }\<close>.\<close>

definition optional_range :: "token_kind \<Rightarrow> (parser \<Rightarrow> node_range res) \<Rightarrow> parser \<Rightarrow> node_range res" where
  "optional_range k p st =
     pbind (peek st) (\<lambda>t st. if tk_kind t = k then p st else ret range_EMPTY st)"

definition directive_item :: "nat \<Rightarrow> parser \<Rightarrow> node res" where
  "directive_item k st =
     pbind (bump_tok st) (\<lambda>_ st.
     pbind (parse_name st) (\<lambda>n st.
     pbind (optional_range LParen (parse_arguments k) st) (\<lambda>args st.
       ret (NDirective \<lparr>dir_name = n, dir_arguments = args\<rparr>) st)))"

definition parse_directives :: "nat \<Rightarrow> parser \<Rightarrow> node_range res" where
  "parse_directives k st =
     pbind (while_loop k (\<lambda>t. t = At) (directive_item k) st) (\<lambda>_ st'. close_list (open_list st) st')"

definition variable_item :: "nat \<Rightarrow> parser \<Rightarrow> node res" where
  "variable_item k st =
     pbind (expect Dollar ExpectedDollar st) (\<lambda>_ st.
     pbind (parse_name st) (\<lambda>n st.
     pbind (expect Colon ExpectedColon st) (\<lambda>_ st.
     pbind (parse_type k st) (\<lambda>ty st.
     pbind (peek st) (\<lambda>t st.
     pbind (if tk_kind t = EqTok
            then pbind (bump_tok st) (\<lambda>_ st. pbind (parse_value k True st) (\<lambda>v st. ret (Some v) st))
            else ret None st) (\<lambda>dv st.
     pbind (parse_directives k st) (\<lambda>ds st.
       ret (NVariableDefinition \<lparr>vd_name = n, vd_type = ty, vd_default_value = dv, vd_directives = ds\<rparr>) st)))))))"

definition parse_variable_definitions :: "nat \<Rightarrow> parser \<Rightarrow> node_range res" where
  "parse_variable_definitions k st =
     pbind (expect LParen UnexpectedToken st) (\<lambda>_ st.
     pbind (list_loop k RParen (variable_item k) st) (\<lambda>_ st'. close_list (open_list st) st'))"

fun parse_selection_set :: "nat \<Rightarrow> parser \<Rightarrow> selection_set res"
  and parse_selection :: "nat \<Rightarrow> parser \<Rightarrow> selection res" where
  "parse_selection_set 0 st = None"
| "parse_selection_set (Suc k) st =
     pbind (expect LBrace UnexpectedToken st) (\<lambda>open_tok st.
     pbind (list_loop k RBrace (\<lambda>st. pbind (parse_selection k st) (\<lambda>s st. ret (NSelection s) st)) st) (\<lambda>close_tok st'.
       if length (ps_scratch st') = open_list st
       then fail (span_new (sp_start (tk_span open_tok)) (sp_end (tk_span close_tok))) EmptySelectionSet
       else pbind (close_list (open_list st) st') (\<lambda>r st.
         ret \<lparr>ss_selections = r, ss_span = span_new (sp_start (tk_span open_tok)) (sp_end (tk_span close_tok))\<rparr> st)))"
| "parse_selection 0 st = None"
| "parse_selection (Suc k) st =
     pbind (peek st) (\<lambda>t st.
       if tk_kind t = Spread then
         pbind (bump_tok st) (\<lambda>_ st.
         pbind (peek st) (\<lambda>nx st.
           if tk_kind nx = NameTok then
             if slice st (tk_span nx) = ''on'' then
               pbind (bump_tok st) (\<lambda>_ st.
               pbind (parse_name st) (\<lambda>n st.
               pbind (parse_directives k st) (\<lambda>ds st.
               pbind (parse_selection_set k st) (\<lambda>ss st.
                 ret (SInlineFragment \<lparr>ifr_type_condition = Some \<lparr>nt_name = n\<rparr>, ifr_directives = ds,
                        ifr_selection_set = ss\<rparr>) st))))
             else
               pbind (parse_name st) (\<lambda>n st.
               pbind (parse_directives k st) (\<lambda>ds st.
                 ret (SFragmentSpread \<lparr>fsp_name = n, fsp_directives = ds\<rparr>) st))
           else
             pbind (parse_directives k st) (\<lambda>ds st.
             pbind (parse_selection_set k st) (\<lambda>ss st.
               ret (SInlineFragment \<lparr>ifr_type_condition = None, ifr_directives = ds, ifr_selection_set = ss\<rparr>) st))))
       else if tk_kind t \<noteq> NameTok then fail (tk_span t) ExpectedName
       else
         pbind (parse_name st) (\<lambda>first st.
         pbind (peek st) (\<lambda>c st.
         pbind (if tk_kind c = Colon
                then pbind (bump_tok st) (\<lambda>_ st. pbind (parse_name st) (\<lambda>real_name st. ret (Some first, real_name) st))
                else ret (None, first) st) (\<lambda>(alias, n) st.
         pbind (optional_range LParen (parse_arguments k) st) (\<lambda>args st.
         pbind (parse_directives k st) (\<lambda>ds st.
         pbind (peek st) (\<lambda>b st.
         pbind (if tk_kind b = LBrace then pbind (parse_selection_set k st) (\<lambda>ss st. ret (Some ss) st)
                else ret None st) (\<lambda>ss st.
           ret (SField \<lparr>fld_alias = alias, fld_name = n, fld_arguments = args, fld_directives = ds,
                  fld_selection_set = ss\<rparr>) st))))))))"

definition parse_shorthand_query :: "nat \<Rightarrow> parser \<Rightarrow> operation_definition res" where
  "parse_shorthand_query k st =
     pbind (peek st) (\<lambda>t st.
     pbind (parse_selection_set k st) (\<lambda>ss st.
       ret \<lparr>opd_kind = Query, opd_name = None, opd_variable_definitions = range_EMPTY, opd_directives = range_EMPTY,
            opd_selection_set = ss, opd_span = span_new (sp_start (tk_span t)) (sp_end (ss_span ss)),
            opd_shorthand = True\<rparr> st))"

definition operation_kind_of :: "string \<Rightarrow> operation_kind option" where
  "operation_kind_of kw =
     (if kw = ''query'' then Some Query
      else if kw = ''mutation'' then Some Mutation
      else if kw = ''subscription'' then Some Subscription
      else None)"

definition parse_operation_definition :: "nat \<Rightarrow> parser \<Rightarrow> operation_definition res" where
  "parse_operation_definition k st =
     pbind (bump_tok st) (\<lambda>kw st.
       case operation_kind_of (slice st (tk_span kw)) of
         None \<Rightarrow> fail (tk_span kw) ExpectedOperationKind
       | Some kind \<Rightarrow>
           pbind (peek st) (\<lambda>t st.
           pbind (if tk_kind t = NameTok then pbind (parse_name st) (\<lambda>n st. ret (Some n) st) else ret None st) (\<lambda>nm st.
           pbind (optional_range LParen (parse_variable_definitions k) st) (\<lambda>vds st.
           pbind (parse_directives k st) (\<lambda>ds st.
           pbind (parse_selection_set k st) (\<lambda>ss st.
             ret \<lparr>opd_kind = kind, opd_name = nm, opd_variable_definitions = vds, opd_directives = ds,
                  opd_selection_set = ss, opd_span = span_new (sp_start (tk_span kw)) (sp_end (ss_span ss)),
                  opd_shorthand = False\<rparr> st))))))"

definition parse_fragment_definition :: "nat \<Rightarrow> parser \<Rightarrow> fragment_definition res" where
  "parse_fragment_definition k st =
     pbind (bump_tok st) (\<lambda>kw st.
     pbind (parse_name st) (\<lambda>n st.
     pbind (peek st) (\<lambda>on st.
       if \<not> (tk_kind on = NameTok \<and> slice st (tk_span on) = ''on'') then fail (tk_span on) ExpectedOnKeyword
       else
         pbind (bump_tok st) (\<lambda>_ st.
         pbind (parse_name st) (\<lambda>tc st.
         pbind (parse_directives k st) (\<lambda>ds st.
         pbind (parse_selection_set k st) (\<lambda>ss st.
           ret \<lparr>frd_name = n, frd_type_condition = \<lparr>nt_name = tc\<rparr>, frd_directives = ds, frd_selection_set = ss,
                frd_span = span_new (sp_start (tk_span kw)) (sp_end (ss_span ss))\<rparr> st)))))))"

definition parse_definition :: "nat \<Rightarrow> parser \<Rightarrow> gdefinition res" where
  "parse_definition k st =
     pbind (peek st) (\<lambda>t st.
       if tk_kind t = LBrace then pbind (parse_shorthand_query k st) (\<lambda>d st. ret (DOperation d) st)
       else if tk_kind t = NameTok then
         (let kw = slice st (tk_span t) in
          if kw \<in> {''query'', ''mutation'', ''subscription''}
          then pbind (parse_operation_definition k st) (\<lambda>d st. ret (DOperation d) st)
          else if kw = ''fragment'' then pbind (parse_fragment_definition k st) (\<lambda>d st. ret (DFragment d) st)
          else fail (tk_span t) UnknownDefinition)
       else fail (tk_span t) UnknownDefinition)"

definition parse_document :: "nat \<Rightarrow> parser \<Rightarrow> document res" where
  "parse_document k st =
     pbind (while_loop k (\<lambda>t. t \<noteq> Eof) (\<lambda>st. pbind (parse_definition k st) (\<lambda>d st. ret (NDefinition d) st)) st) (\<lambda>_ st'.
       if length (ps_scratch st') = open_list st
       then fail (span_at 0 (length (lx_bytes (ps_lexer st')))) UnexpectedEof
       else pbind (close_list (open_list st) st') (\<lambda>r st.
         ret \<lparr>doc_definitions_range = r, doc_nodes = ps_nodes st\<rparr> (st\<lparr>ps_nodes := []\<rparr>)))"

definition parse_executable_document :: "string \<Rightarrow> (parse_error + document) option" where
  "parse_executable_document src =
     map_option (map_sum id fst) (parse_document (2 * length src + 1) (parser_new src))"

section \<open>Outcomes\<close>

text \<open>The outcome of a production: it never runs out of fuel, and a result satisfies \<open>Q\<close>.\<close>

definition post :: "('a, 's) outcome \<Rightarrow> ('a \<Rightarrow> 's \<Rightarrow> bool) \<Rightarrow> bool" where
  "post m Q \<longleftrightarrow> (case m of None \<Rightarrow> False | Some (Inl e) \<Rightarrow> True | Some (Inr (x, st)) \<Rightarrow> Q x st)"

lemma post_simps [simp]:
  "post (ret x st) Q \<longleftrightarrow> Q x st" "post (fail s k) Q" "\<not> post None Q" "post (Some (Inl e)) Q"
  by (simp_all add: post_def fail_def)

lemma post_bind: "post (pbind m f) Q \<longleftrightarrow> post m (\<lambda>x st. post (f x st) Q)"
  by (cases m) (auto simp: post_def pbind_def split: sum.splits)

lemma post_mono: "post m P \<Longrightarrow> (\<And>x st. P x st \<Longrightarrow> Q x st) \<Longrightarrow> post m Q"
  by (auto simp: post_def split: option.splits sum.splits)

lemma post_if: "post (if b then m else m') Q \<longleftrightarrow> (b \<longrightarrow> post m Q) \<and> (\<not> b \<longrightarrow> post m' Q)"
  by simp

text \<open>The measure of what is left to read: two per byte, and one for a token held back.\<close>

definition rem :: "parser \<Rightarrow> nat" where
  "rem st = 2 * (length (lx_bytes (ps_lexer st)) - lx_pos (ps_lexer st)) +
     (case ps_peeked st of None \<Rightarrow> 0 | Some t \<Rightarrow> if tk_kind t = Eof then 0 else 1)"

text \<open>Nodes stored so far and nodes that could still come.\<close>

definition budget :: "parser \<Rightarrow> nat" where
  "budget st = length (ps_nodes st) + length (ps_scratch st) + rem st"

definition parser_inv :: "parser \<Rightarrow> bool" where
  "parser_inv st \<longleftrightarrow> lexer_inv (ps_lexer st) \<and> children_first (ps_nodes st) \<and>
     list_all (node_ok (ps_nodes st)) (ps_scratch st) \<and> budget st < 2 ^ 32"

text \<open>A production consumes input, may extend the arena, and leaves the scratch stack alone.\<close>

definition ext :: "parser \<Rightarrow> parser \<Rightarrow> bool" where
  "ext st st' \<longleftrightarrow> parser_inv st' \<and> rem st' \<le> rem st \<and> budget st' \<le> budget st \<and>
     (\<exists>ms. ps_nodes st' = ps_nodes st @ ms) \<and> ps_scratch st' = ps_scratch st"

definition exts :: "parser \<Rightarrow> parser \<Rightarrow> bool" where
  "exts st st' \<longleftrightarrow> ext st st' \<and> rem st' < rem st \<and> budget st' < budget st"

lemma ext_refl [simp]: "parser_inv st \<Longrightarrow> ext st st"
  by (simp add: ext_def)

lemma ext_inv: "ext st st' \<Longrightarrow> parser_inv st'" and exts_ext: "exts st st' \<Longrightarrow> ext st st'"
  by (simp_all add: ext_def exts_def)

lemma ext_trans [trans]: "ext a b \<Longrightarrow> ext b c \<Longrightarrow> ext a c"
  by (auto simp: ext_def)

lemma ext_exts_trans [trans]: "ext a b \<Longrightarrow> exts b c \<Longrightarrow> exts a c"
  by (auto simp: ext_def exts_def)

lemma exts_ext_trans [trans]: "exts a b \<Longrightarrow> ext b c \<Longrightarrow> exts a c"
  by (auto simp: ext_def exts_def)

lemma exts_trans [trans]: "exts a b \<Longrightarrow> exts b c \<Longrightarrow> exts a c"
  by (rule exts_ext_trans [OF _ exts_ext])

lemma ext_range: "ext st st' \<Longrightarrow> range_ok f (ps_nodes st) r \<Longrightarrow> range_ok f (ps_nodes st') r"
  by (auto simp: ext_def range_ok_append)

lemma ext_value: "ext st st' \<Longrightarrow> value_ok (ps_nodes st) v \<Longrightarrow> value_ok (ps_nodes st') v"
  by (auto simp: ext_def value_ok_append)

lemma ext_const: "ext st st' \<Longrightarrow> const_value (ps_nodes st) v \<Longrightarrow> const_value (ps_nodes st') v"
  by (auto simp: ext_def const_value_append)

lemma ext_set: "ext st st' \<Longrightarrow> set_ok (ps_nodes st) s \<Longrightarrow> set_ok (ps_nodes st') s"
  by (auto simp: ext_def set_ok_append)

lemma ext_fuel: "ext st st' \<Longrightarrow> rem st < k \<Longrightarrow> rem st' < k"
  and exts_fuel: "exts st st' \<Longrightarrow> rem st < Suc k \<Longrightarrow> rem st' < k"
  by (simp_all add: ext_def exts_def)

section \<open>Tokens\<close>

lemma next_token_pos:
  assumes "lexer_inv l" and "next_token l = (l', Inr t)"
  shows "lx_pos l \<le> lx_pos l'" and "tk_kind t \<noteq> Eof \<Longrightarrow> lx_pos l < lx_pos l' \<and> lx_pos l < length (lx_bytes l)"
proof -
  from assms obtain s where s: "entry_pos l \<le> s" "s \<le> lx_pos l'" "lx_pos l' \<le> length (lx_bytes l)"
    "tk_kind t = Eof \<longleftrightarrow> s = lx_pos l'" by (rule next_token_step)
  with entry_pos_ge [of l] show "lx_pos l \<le> lx_pos l'"
    "tk_kind t \<noteq> Eof \<Longrightarrow> lx_pos l < lx_pos l' \<and> lx_pos l < length (lx_bytes l)" by linarith+
qed

lemma peek_post:
  assumes "parser_inv st"
  shows "post (peek st) (\<lambda>t st'. ext st st' \<and> ps_peeked st' = Some t)"
proof (cases "ps_peeked st")
  case (Some t)
  with assms show ?thesis by (simp add: peek_def)
next
  case None
  obtain l' r where nt: "next_token (ps_lexer st) = (l', r)" by fastforce
  show ?thesis
  proof (cases r)
    case (Inl e)
    with None nt show ?thesis by (simp add: peek_def lex_res_def)
  next
    case (Inr t)
    have li: "lexer_inv (ps_lexer st)" using assms by (simp add: parser_inv_def)
    note nt' = nt [unfolded Inr]
    note p = next_token_pos [OF li nt'] and f = next_token_frame [OF nt]
    let ?st = "st\<lparr>ps_lexer := l', ps_peeked := Some t\<rparr>"
    have r: "rem ?st \<le> rem st" using p f None by (cases "tk_kind t = Eof") (auto simp: rem_def)
    moreover have "parser_inv ?st"
      using assms r lexer_inv_next [OF li nt'] by (simp add: parser_inv_def budget_def)
    ultimately have "ext st ?st" by (simp add: ext_def budget_def)
    with None nt' show ?thesis by (simp add: peek_def lex_res_def)
  qed
qed

lemma bump_post:
  assumes "parser_inv st"
  shows "post (bump_tok st) (\<lambda>t st'. ext st st' \<and> (tk_kind t \<noteq> Eof \<longrightarrow> exts st st') \<and>
    (case ps_peeked st of None \<Rightarrow> True | Some t0 \<Rightarrow> t = t0) \<and> ps_peeked st' = None)"
proof (cases "ps_peeked st")
  case (Some t)
  let ?st = "st\<lparr>ps_peeked := None\<rparr>"
  have "rem ?st \<le> rem st \<and> (tk_kind t \<noteq> Eof \<longrightarrow> rem ?st < rem st)" using Some by (simp add: rem_def)
  with assms Some show ?thesis by (auto simp: bump_tok_def ext_def exts_def budget_def parser_inv_def)
next
  case None
  obtain l' r where nt: "next_token (ps_lexer st) = (l', r)" by fastforce
  show ?thesis
  proof (cases r)
    case (Inl e)
    with None nt show ?thesis by (simp add: bump_tok_def lex_res_def)
  next
    case (Inr t)
    have li: "lexer_inv (ps_lexer st)" using assms by (simp add: parser_inv_def)
    note nt' = nt [unfolded Inr]
    note p = next_token_pos [OF li nt'] and f = next_token_frame [OF nt]
    let ?st = "st\<lparr>ps_lexer := l'\<rparr>"
    have r: "rem ?st \<le> rem st \<and> (tk_kind t \<noteq> Eof \<longrightarrow> rem ?st < rem st)"
      using p f None by (cases "tk_kind t = Eof") (auto simp: rem_def)
    moreover have "parser_inv ?st"
      using assms r lexer_inv_next [OF li nt'] by (simp add: parser_inv_def budget_def)
    ultimately have "ext st ?st \<and> (tk_kind t \<noteq> Eof \<longrightarrow> exts st ?st)" by (simp add: ext_def exts_def budget_def)
    with None nt' show ?thesis by (simp add: bump_tok_def lex_res_def)
  qed
qed

lemma expect_post:
  assumes "parser_inv st" and "k \<noteq> Eof"
  shows "post (expect k err st) (\<lambda>t st'. exts st st')"
  unfolding expect_def post_bind
proof (rule post_mono [OF peek_post [OF assms(1)]])
  fix t st1
  assume p: "ext st st1 \<and> ps_peeked st1 = Some t"
  show "post (if tk_kind t = k then bump_tok st1 else fail (tk_span t) err) (\<lambda>t st'. exts st st')"
    using p assms(2) ext_inv ext_exts_trans
    by (auto intro!: post_mono [OF bump_post])
qed

lemma parse_name_post:
  assumes "parser_inv st"
  shows "post (parse_name st) (\<lambda>n st'. exts st st')"
  unfolding parse_name_def post_bind
proof (rule post_mono [OF peek_post [OF assms]])
  fix t st1
  assume p: "ext st st1 \<and> ps_peeked st1 = Some t"
  show "post (if tk_kind t \<noteq> NameTok then fail (tk_span t) ExpectedName
       else pbind (bump_tok st1) (\<lambda>_ st. ret \<lparr>nm_value = slice st (tk_span t), nm_span = tk_span t\<rparr> st))
     (\<lambda>n st'. exts st st')"
    using p ext_inv ext_exts_trans by (auto simp: post_bind intro!: post_mono [OF bump_post])
qed

section \<open>Lists\<close>

text \<open>What a loop leaves: nodes that satisfy \<open>V\<close> on top of the scratch stack.\<close>

definition pushed :: "(node list \<Rightarrow> node \<Rightarrow> bool) \<Rightarrow> parser \<Rightarrow> parser \<Rightarrow> bool" where
  "pushed V st st' \<longleftrightarrow> parser_inv st' \<and> rem st' \<le> rem st \<and> budget st' \<le> budget st \<and>
     (\<exists>ms. ps_nodes st' = ps_nodes st @ ms) \<and>
     (\<exists>ns. ps_scratch st' = ps_scratch st @ ns \<and> list_all (V (ps_nodes st')) ns)"

lemma pushed_ext: "ext st st' \<Longrightarrow> pushed V st st'"
  by (auto simp: ext_def pushed_def)

lemma push_node_simps [simp]:
  "ps_nodes (push_node n st) = ps_nodes st" "ps_scratch (push_node n st) = ps_scratch st @ [n]"
  "rem (push_node n st) = rem st" "budget (push_node n st) = budget st + 1"
  "ps_lexer (push_node n st) = ps_lexer st"
  by (simp_all add: push_node_def rem_def budget_def)

lemma push_node_inv:
  "parser_inv st \<Longrightarrow> node_ok (ps_nodes st) n \<Longrightarrow> budget st + 1 < 2 ^ 32 \<Longrightarrow> parser_inv (push_node n st)"
  by (simp add: parser_inv_def)

text \<open>The contract of an item: it consumes at least one token and gives a well-formed node.\<close>

locale list_item =
  fixes item :: "parser \<Rightarrow> node res" and k :: nat and V :: "node list \<Rightarrow> node \<Rightarrow> bool"
  assumes item_post: "parser_inv st \<Longrightarrow> rem st < k \<Longrightarrow> ps_peeked st = Some t \<Longrightarrow> tk_kind t \<noteq> Eof \<Longrightarrow>
      post (item st) (\<lambda>n st'. exts st st' \<and> node_ok (ps_nodes st') n \<and> V (ps_nodes st') n)"
    and V_append: "V ns n \<Longrightarrow> V (ns @ ms) n"
begin

lemma pushed_step:
  assumes "ext st st1" and "exts st1 st2" and "node_ok (ps_nodes st2) n" and "V (ps_nodes st2) n"
    and "pushed V (push_node n st2) st3"
  shows "pushed V st st3"
proof -
  from assms(1,2) obtain m1 where m1: "ps_nodes st2 = ps_nodes st @ m1" "ps_scratch st2 = ps_scratch st"
    by (auto simp: ext_def exts_def)
  from assms(5) obtain m2 ns where m2: "ps_nodes st3 = ps_nodes st2 @ m2"
    "ps_scratch st3 = ps_scratch st2 @ n # ns" "list_all (V (ps_nodes st3)) ns"
    by (auto simp: pushed_def)
  have "V (ps_nodes st3) n" using assms(4) m2(1) V_append by simp
  then show ?thesis using assms m1 m2 by (auto simp: pushed_def ext_def exts_def)
qed

lemma push_ok:
  assumes "ext st st1" and "exts st1 st2" and "node_ok (ps_nodes st2) n" and "parser_inv st"
  shows "parser_inv (push_node n st2)" and "rem (push_node n st2) < rem st" and "budget (push_node n st2) \<le> budget st"
proof -
  have b: "budget st2 + 1 \<le> budget st" and r: "rem st2 < rem st"
    using assms(1,2) by (auto simp: ext_def exts_def)
  then show "rem (push_node n st2) < rem st" "budget (push_node n st2) \<le> budget st" by simp_all
  have "budget st < 2 ^ 32" using assms(4) by (simp add: parser_inv_def)
  then have "budget st2 + 1 < 2 ^ 32" using b by linarith
  then show "parser_inv (push_node n st2)"
    using assms(2,3) by (intro push_node_inv) (auto simp: exts_def ext_def)
qed

lemma list_loop_post:
  assumes "parser_inv st" and "rem st < j" and "rem st < k" and "close \<noteq> Eof"
  shows "post (list_loop j close item st) (\<lambda>t st'. pushed V st st' \<and> rem st' < rem st \<and> budget st' < budget st)"
  using assms
proof (induction j arbitrary: st)
  case (Suc j)
  show ?case
    unfolding list_loop.simps post_bind
  proof (rule post_mono [OF peek_post [OF Suc.prems(1)]])
    fix t st1
    assume p: "ext st st1 \<and> ps_peeked st1 = Some t"
    have bump: "post (bump_tok st1) (\<lambda>t st'. pushed V st st' \<and> rem st' < rem st \<and> budget st' < budget st)"
      if "tk_kind t \<noteq> Eof"
    proof (rule post_mono [OF bump_post [OF ext_inv [OF conjunct1 [OF p]]]])
      fix t' st2
      assume "ext st1 st2 \<and> (tk_kind t' \<noteq> Eof \<longrightarrow> exts st1 st2) \<and>
        (case ps_peeked st1 of None \<Rightarrow> True | Some t0 \<Rightarrow> t' = t0) \<and> ps_peeked st2 = None"
      with p that have "exts st st2" by (auto intro: ext_exts_trans)
      then show "pushed V st st2 \<and> rem st2 < rem st \<and> budget st2 < budget st"
        using pushed_ext by (auto simp: exts_def)
    qed
    have rest: "post (item st1) (\<lambda>n st2. post (list_loop j close item (push_node n st2))
        (\<lambda>t st'. pushed V st st' \<and> rem st' < rem st \<and> budget st' < budget st))" if ne: "tk_kind t \<noteq> Eof"
    proof (rule post_mono [OF item_post])
      show "parser_inv st1" "rem st1 < k" "ps_peeked st1 = Some t" "tk_kind t \<noteq> Eof"
        using p Suc.prems(3) ne by (auto simp: ext_def)
      fix n st2
      assume n: "exts st1 st2 \<and> node_ok (ps_nodes st2) n \<and> V (ps_nodes st2) n"
      note ok = push_ok [OF conjunct1 [OF p] _ _ Suc.prems(1), of st2 n]
      show "post (list_loop j close item (push_node n st2))
          (\<lambda>t st'. pushed V st st' \<and> rem st' < rem st \<and> budget st' < budget st)"
      proof (rule post_mono [OF Suc.IH])
        show "parser_inv (push_node n st2)" "rem (push_node n st2) < j" "rem (push_node n st2) < k" "close \<noteq> Eof"
          using ok n Suc.prems by auto
        fix t' st3
        assume "pushed V (push_node n st2) st3 \<and> rem st3 < rem (push_node n st2) \<and> budget st3 < budget (push_node n st2)"
        then show "pushed V st st3 \<and> rem st3 < rem st \<and> budget st3 < budget st"
          using pushed_step [of st st1 st2 n st3] p n ok by auto
      qed
    qed
    show "post (if tk_kind t = close then bump_tok st1
        else if tk_kind t = Eof then fail (tk_span t) UnclosedDelimiter
        else pbind (item st1) (\<lambda>n st. list_loop j close item (push_node n st)))
      (\<lambda>t st'. pushed V st st' \<and> rem st' < rem st \<and> budget st' < budget st)"
      using bump rest Suc.prems(4) by (auto simp: post_bind)
  qed
qed simp

lemma while_loop_post:
  assumes "parser_inv st" and "rem st < j" and "rem st < k" and "\<not> continue Eof"
  shows "post (while_loop j continue item st) (\<lambda>t st'. pushed V st st')"
  using assms
proof (induction j arbitrary: st)
  case (Suc j)
  show ?case
    unfolding while_loop.simps post_bind
  proof (rule post_mono [OF peek_post [OF Suc.prems(1)]])
    fix t st1
    assume p: "ext st st1 \<and> ps_peeked st1 = Some t"
    have rest: "post (item st1) (\<lambda>n st2. post (while_loop j continue item (push_node n st2)) (\<lambda>t st'. pushed V st st'))"
      if ne: "tk_kind t \<noteq> Eof"
    proof (rule post_mono [OF item_post])
      show "parser_inv st1" "rem st1 < k" "ps_peeked st1 = Some t" "tk_kind t \<noteq> Eof"
        using p Suc.prems(3) ne by (auto simp: ext_def)
      fix n st2
      assume n: "exts st1 st2 \<and> node_ok (ps_nodes st2) n \<and> V (ps_nodes st2) n"
      note ok = push_ok [OF conjunct1 [OF p] _ _ Suc.prems(1), of st2 n]
      show "post (while_loop j continue item (push_node n st2)) (\<lambda>t st'. pushed V st st')"
      proof (rule post_mono [OF Suc.IH])
        show "parser_inv (push_node n st2)" "rem (push_node n st2) < j" "rem (push_node n st2) < k" "\<not> continue Eof"
          using ok n Suc.prems by auto
        show "pushed V st st3" if "pushed V (push_node n st2) st3" for st3
          using pushed_step [of st st1 st2 n st3] p n that by auto
      qed
    qed
    have "tk_kind t \<noteq> Eof" if "continue (tk_kind t)" using that Suc.prems(4) by metis
    then show "post (if continue (tk_kind t) then pbind (item st1) (\<lambda>n st. while_loop j continue item (push_node n st))
        else ret () st1) (\<lambda>t st'. pushed V st st')"
      using rest p pushed_ext by (auto simp: post_bind)
  qed
qed simp

end

text \<open>Closing a list: the drained nodes are the range.\<close>

lemma close_list_post:
  assumes "pushed V st st'" and V: "\<And>ns n ms. V ns n \<Longrightarrow> V (ns @ ms) n"
  shows "post (close_list (open_list st) st') (\<lambda>r st''. ext st st'' \<and> rem st'' = rem st' \<and> budget st'' = budget st' \<and>
    unat (nr_start r) + unat (nr_len r) \<le> length (ps_nodes st'') \<and>
    list_all (V (ps_nodes st'')) (arena_slice (ps_nodes st'') r) \<and>
    unat (nr_len r) = length (ps_scratch st') - open_list st)"
proof -
  from assms(1) obtain ms ns where m: "ps_nodes st' = ps_nodes st @ ms" "ps_scratch st' = ps_scratch st @ ns"
    "list_all (V (ps_nodes st')) ns" and inv: "parser_inv st'" and le: "rem st' \<le> rem st" "budget st' \<le> budget st"
    by (auto simp: pushed_def)
  let ?st = "st'\<lparr>ps_nodes := ps_nodes st' @ ns, ps_scratch := ps_scratch st\<rparr>"
  let ?r = "\<lparr>nr_start = of_nat (length (ps_nodes st')), nr_len = of_nat (length ns)\<rparr>"
  have cl: "close_list (open_list st) st' = ret ?r ?st" using m by (simp add: close_list_def open_list_def Let_def)
  have bd: "budget st' < 2 ^ 32" using inv by (simp add: parser_inv_def)
  have un: "unat (of_nat (length (ps_nodes st')) :: 32 word) = length (ps_nodes st')"
    "unat (of_nat (length ns) :: 32 word) = length ns"
    by (rule unat_of_nat_32; use bd m(2) in \<open>simp add: budget_def\<close>)+
  have sl: "arena_slice (ps_nodes ?st) ?r = ns" using un by (simp add: arena_slice_def Let_def sub_def)
  have re: "rem ?st = rem st'" "budget ?st = budget st'" using m(2) by (simp_all add: rem_def budget_def)
  have "children_first (ps_nodes st' @ ns)" "list_all (node_ok (ps_nodes st' @ ns)) (ps_scratch st)"
    using inv m(2) node_ok_append by (auto simp: parser_inv_def list_all_iff intro!: children_first_append)
  then have "parser_inv ?st" using inv re by (simp add: parser_inv_def)
  then have "ext st ?st" using m(1) le re by (simp add: ext_def)
  moreover have "list_all (V (ps_nodes ?st)) ns" using m(3) V by (auto simp: list_all_iff)
  ultimately show ?thesis using cl sl un re m(2) by (simp add: open_list_def)
qed

context list_item
begin

lemma list_production:
  assumes "parser_inv st" and "rem st < j" and "rem st < k" and "close \<noteq> Eof"
  shows "post (pbind (list_loop j close item st) (\<lambda>_ st'. close_list (open_list st) st'))
    (\<lambda>r st'. exts st st' \<and> unat (nr_start r) + unat (nr_len r) \<le> length (ps_nodes st') \<and>
       list_all (V (ps_nodes st')) (arena_slice (ps_nodes st') r))"
  unfolding post_bind
proof (rule post_mono [OF list_loop_post [OF assms]])
  fix t st1
  assume a: "pushed V st st1 \<and> rem st1 < rem st \<and> budget st1 < budget st"
  show "post (close_list (open_list st) st1) (\<lambda>r st'. exts st st' \<and>
      unat (nr_start r) + unat (nr_len r) \<le> length (ps_nodes st') \<and>
      list_all (V (ps_nodes st')) (arena_slice (ps_nodes st') r))"
    by (rule post_mono [OF close_list_post [OF conjunct1 [OF a] V_append]]) (use a in \<open>auto simp: exts_def\<close>)
qed

lemma while_production:
  assumes "parser_inv st" and "rem st < j" and "rem st < k" and "\<not> continue Eof"
  shows "post (pbind (while_loop j continue item st) (\<lambda>_ st'. close_list (open_list st) st'))
    (\<lambda>r st'. ext st st' \<and> unat (nr_start r) + unat (nr_len r) \<le> length (ps_nodes st') \<and>
       list_all (V (ps_nodes st')) (arena_slice (ps_nodes st') r))"
  unfolding post_bind
proof (rule post_mono [OF while_loop_post [of st j continue, OF assms]])
  fix t st1
  assume a: "pushed V st st1"
  show "post (close_list (open_list st) st1) (\<lambda>r st'. ext st st' \<and>
      unat (nr_start r) + unat (nr_len r) \<le> length (ps_nodes st') \<and>
      list_all (V (ps_nodes st')) (arena_slice (ps_nodes st') r))"
    by (rule post_mono [OF close_list_post [OF a V_append]]) auto
qed

end

lemma pbind_assoc: "pbind (pbind m f) g = pbind m (\<lambda>x st. pbind (f x st) g)"
  by (cases m) (auto simp: pbind_def split: sum.splits)

lemma bindI: "post m P \<Longrightarrow> (\<And>x st. P x st \<Longrightarrow> post (f x st) Q) \<Longrightarrow> post (pbind m f) Q"
  unfolding post_bind by (rule post_mono)

lemma bump_peeked:
  assumes "parser_inv st" and "ps_peeked st = Some t" and "tk_kind t \<noteq> Eof"
  shows "post (bump_tok st) (\<lambda>t' st'. exts st st' \<and> t' = t)"
  by (rule post_mono [OF bump_post [OF assms(1)]]) (use assms(2,3) in auto)

text \<open>Rules that walk through a production started in state \<open>s\<close>: \<open>at c P s st\<close> says that \<open>st\<close> was
  reached, that input was consumed on the way if \<open>c\<close>, and that the arena satisfies \<open>P\<close>, which
  is kept when the arena grows.\<close>

definition up :: "(node list \<Rightarrow> bool) \<Rightarrow> bool" where
  "up P \<longleftrightarrow> (\<forall>ns ms. P ns \<longrightarrow> P (ns @ ms))"

definition "at" :: "bool \<Rightarrow> (node list \<Rightarrow> bool) \<Rightarrow> parser \<Rightarrow> parser \<Rightarrow> bool" where
  "at c P s st \<longleftrightarrow> ext s st \<and> (c \<longrightarrow> exts s st) \<and> up P \<and> P (ps_nodes st)"

lemma up_simps [simp]: "up (\<lambda>_. b)" "up P \<Longrightarrow> up R \<Longrightarrow> up (\<lambda>ns. P ns \<and> R ns)"
  "up (\<lambda>ns. range_ok f ns r)" "up (\<lambda>ns. value_ok ns v)" "up (\<lambda>ns. set_ok ns ss)"
  "up (\<lambda>ns. b \<longrightarrow> const_value ns v)" "up (\<lambda>ns. const_value ns v)" "up (\<lambda>ns. selection_ok ns sel)" "up (\<lambda>ns. definition_ok ns d)"
  using node_ok_append [of _ "NSelection sel"] node_ok_append [of _ "NDefinition d"]
  by (auto simp: up_def range_ok_append value_ok_append set_ok_append const_value_append)

lemma at_start: "parser_inv s \<Longrightarrow> at False (\<lambda>_. True) s s"
  by (simp add: at_def)

lemma atD:
  assumes "at c P s st"
  shows "ext s st" and "c \<Longrightarrow> exts s st" and "P (ps_nodes st)" and "parser_inv st"
  using assms by (auto simp: at_def ext_inv)

lemma at_step:
  assumes "at c P s st" and "ext st st'" and "d \<longrightarrow> exts st st'" and "up R" and "R (ps_nodes st')"
  shows "at (c \<or> d) (\<lambda>ns. P ns \<and> R ns) s st'"
proof -
  have "P (ps_nodes st')" using assms(1,2) by (auto simp: at_def up_def ext_def)
  with assms show ?thesis
    by (auto simp: at_def intro: ext_trans exts_ext_trans ext_exts_trans)
qed

lemma at_stepT:
  assumes "at c P s st" and "ext st st'" and "d \<longrightarrow> exts st st'"
  shows "at (c \<or> d) P s st'"
  using at_step [OF assms, of "\<lambda>_. True"] by simp

lemma peek_bind:
  assumes "at c P s st" and "\<And>t st'. at c P s st' \<Longrightarrow> ps_peeked st' = Some t \<Longrightarrow> post (f t st') Q"
  shows "post (pbind (peek st) f) Q"
proof (rule bindI [OF peek_post [OF atD(4) [OF assms(1)]]])
  fix t st'
  assume "ext st st' \<and> ps_peeked st' = Some t"
  then show "post (f t st') Q" using at_stepT [OF assms(1), of st' False] assms(2) by auto
qed

lemma bump_bind:
  assumes "at c P s st" and "ps_peeked st = Some t" and "tk_kind t \<noteq> Eof"
    and "\<And>st'. at True P s st' \<Longrightarrow> post (f t st') Q"
  shows "post (pbind (bump_tok st) f) Q"
proof (rule bindI [OF bump_peeked [OF atD(4) [OF assms(1)] assms(2,3)]])
  fix t' st'
  assume "exts st st' \<and> t' = t"
  then show "post (f t' st') Q" using at_stepT [OF assms(1), of st' True] exts_ext assms(4) by auto
qed

text \<open>The contract of a production: with fuel above the measure it consumes input (if \<open>c\<close>), and
  its result satisfies \<open>R\<close> in the new arena.\<close>

definition produces :: "bool \<Rightarrow> nat \<Rightarrow> (parser \<Rightarrow> 'a res) \<Rightarrow> ('a \<Rightarrow> node list \<Rightarrow> bool) \<Rightarrow> bool" where
  "produces c k p R \<longleftrightarrow> (\<forall>x. up (R x)) \<and> (\<forall>st. parser_inv st \<longrightarrow> rem st < k \<longrightarrow>
     post (p st) (\<lambda>x st'. ext st st' \<and> (c \<longrightarrow> exts st st') \<and> R x (ps_nodes st')))"

lemma produces_bind:
  assumes "at c P s st" and "produces d k p R" and "rem st < k"
    and "\<And>x st'. at (c \<or> d) (\<lambda>ns. P ns \<and> R x ns) s st' \<Longrightarrow> post (f x st') Q"
  shows "post (pbind (p st) f) Q"
proof (rule bindI)
  show "post (p st) (\<lambda>x st'. ext st st' \<and> (d \<longrightarrow> exts st st') \<and> R x (ps_nodes st'))"
    using assms(2,3) atD(4) [OF assms(1)] by (simp add: produces_def)
  fix x st'
  assume "ext st st' \<and> (d \<longrightarrow> exts st st') \<and> R x (ps_nodes st')"
  then show "post (f x st') Q"
    using at_step [OF assms(1), of st' d "R x"] assms(2,4) by (auto simp: produces_def)
qed

lemma producesI:
  assumes "\<And>x. up (R x)"
    and "\<And>st. parser_inv st \<Longrightarrow> rem st < k \<Longrightarrow> at False (\<lambda>_. True) st st \<Longrightarrow>
      post (p st) (\<lambda>x st'. at c (R x) st st')"
  shows "produces c k p R"
  unfolding produces_def
proof (intro conjI allI impI)
  fix st
  assume "parser_inv st" "rem st < k"
  then have "post (p st) (\<lambda>x st'. at c (R x) st st')" by (intro assms(2) at_start)
  then show "post (p st) (\<lambda>x st'. ext st st' \<and> (c \<longrightarrow> exts st st') \<and> R x (ps_nodes st'))"
    by (rule post_mono) (auto simp: at_def)
qed (rule assms(1))

lemma at_weaken:
  "at c P s st \<Longrightarrow> (d \<Longrightarrow> c) \<Longrightarrow> up R \<Longrightarrow> (\<And>ns. P ns \<Longrightarrow> R ns) \<Longrightarrow> at d R s st"
  by (auto simp: at_def)

lemma at_fuel: "at c P s st \<Longrightarrow> rem s < k \<Longrightarrow> rem st < k"
  and at_fuel_Suc: "at True P s st \<Longrightarrow> rem s < Suc k \<Longrightarrow> rem st < k"
  by (auto simp: at_def ext_def exts_def)

lemma produces_bind_Suc:
  assumes "at True P s st" and "rem s < Suc k" and "produces d k p R"
    and "\<And>x st'. at True (\<lambda>ns. P ns \<and> R x ns) s st' \<Longrightarrow> post (f x st') Q"
  shows "post (pbind (p st) f) Q"
  by (rule produces_bind [OF assms(1,3) at_fuel_Suc [OF assms(1,2)]]) (rule assms(4), simp)

lemma produces_bind_same:
  assumes "at c P s st" and "rem s < k" and "produces d k p R"
    and "\<And>x st'. at (c \<or> d) (\<lambda>ns. P ns \<and> R x ns) s st' \<Longrightarrow> post (f x st') Q"
  shows "post (pbind (p st) f) Q"
  by (rule produces_bind [OF assms(1,3) at_fuel [OF assms(1,2)]]) (rule assms(4))

lemma post_ifI: "(b \<Longrightarrow> post m Q) \<Longrightarrow> (\<not> b \<Longrightarrow> post m' Q) \<Longrightarrow> post (if b then m else m') Q"
  by simp

lemma post_retI: "Q x st \<Longrightarrow> post (ret x st) Q" and post_failI: "post (fail sp e) Q"
  by simp_all

lemma pbind_simps [simp]:
  "pbind (ret x st) f = f x st" "pbind (fail sp e) f = fail sp e"
  "pbind (if b then m else m') f = (if b then pbind m f else pbind m' f)"
  by (simp_all add: pbind_def fail_def)

lemma parse_name_produces: "produces True k parse_name (\<lambda>_ _. True)"
  by (auto simp: produces_def exts_ext intro!: post_mono [OF parse_name_post])

lemma expect_produces: "t \<noteq> Eof \<Longrightarrow> produces True k (expect t err) (\<lambda>_ _. True)"
  by (auto simp: produces_def exts_ext intro!: post_mono [OF expect_post])

lemma name_bind:
  assumes "at c P s st" and "\<And>n st'. at True P s st' \<Longrightarrow> post (f n st') Q"
  shows "post (pbind (parse_name st) f) Q"
  by (rule produces_bind [OF assms(1) parse_name_produces, where k = "Suc (rem st)"]) (use assms(2) in simp_all)

lemma expect_bind:
  assumes "at c P s st" and "t \<noteq> Eof" and "\<And>u st'. at True P s st' \<Longrightarrow> post (f u st') Q"
  shows "post (pbind (expect t err st) f) Q"
  by (rule produces_bind [OF assms(1) expect_produces [OF assms(2)], where k = "Suc (rem st)"])
    (use assms(3) in simp_all)

section \<open>Types and values\<close>

lemma parse_type_produces: "produces True k (parse_type k) (\<lambda>_ _. True)"
proof (induction k)
  case (Suc k)
  show ?case
  proof (rule producesI)
    fix st
    assume fuel: "rem st < Suc k" and start: "at False (\<lambda>_. True) st st"
    note rec = produces_bind_Suc [OF _ fuel Suc]
    show "post (parse_type (Suc k) st) (\<lambda>x. at True (\<lambda>_. True) st)"
      unfolding parse_type.simps using start
      by (simp only: pbind_assoc pbind_simps)
        (erule peek_bind name_bind bump_bind expect_bind rec | assumption
        | rule post_ifI post_retI post_failI | simp; fail)+
  qed simp
qed (simp add: produces_def)


lemma list_itemI:
  assumes "produces True k item (\<lambda>n ns. node_ok ns n \<and> V ns n)" and "\<And>ns n ms. V ns n \<Longrightarrow> V (ns @ ms) n"
  shows "list_item item k V"
proof
  fix st t
  assume "parser_inv st" "rem st < k"
  then have "post (item st) (\<lambda>n st'. ext st st' \<and> (True \<longrightarrow> exts st st') \<and> node_ok (ps_nodes st') n \<and> V (ps_nodes st') n)"
    using assms(1) by (simp add: produces_def)
  then show "post (item st) (\<lambda>n st'. exts st st' \<and> node_ok (ps_nodes st') n \<and> V (ps_nodes st') n)"
    by (rule post_mono) auto
qed (rule assms(2))

lemma range_okI:
  "unat (nr_start r) + unat (nr_len r) \<le> length ns \<Longrightarrow> list_all W (arena_slice ns r) \<Longrightarrow>
     (\<And>n. W n \<Longrightarrow> f n \<noteq> None) \<Longrightarrow> range_ok f ns r"
  by (auto simp: range_ok_def list_all_iff)

text \<open>The nodes of list values and of object values, free of variables when required.\<close>

definition value_node :: "bool \<Rightarrow> node list \<Rightarrow> node \<Rightarrow> bool" where
  "value_node c ns n \<longleftrightarrow> (\<exists>v. n = NValue v \<and> (c \<longrightarrow> const_value ns v))"

definition object_node :: "bool \<Rightarrow> node list \<Rightarrow> node \<Rightarrow> bool" where
  "object_node c ns n \<longleftrightarrow> (\<exists>f. n = NObjectField f \<and> (c \<longrightarrow> const_value ns (obf_value f)))"

lemma value_list_ok:
  assumes "unat (nr_start r) + unat (nr_len r) \<le> length ns" and "list_all (value_node c ns) (arena_slice ns r)"
  shows "value_ok ns (VList r) \<and> (c \<longrightarrow> const_value ns (VList r))"
proof -
  have ok: "range_ok project_value ns r" by (rule range_okI [OF assms]) (auto simp: value_node_def)
  moreover have "const_value ns (VList r)" if c
    by (rule const_list [OF ok]) (use that assms(2) in \<open>auto simp: value_node_def list_all_iff\<close>)
  ultimately show ?thesis by simp
qed

lemma value_object_ok:
  assumes "unat (nr_start r) + unat (nr_len r) \<le> length ns" and "list_all (object_node c ns) (arena_slice ns r)"
  shows "value_ok ns (VObject r) \<and> (c \<longrightarrow> const_value ns (VObject r))"
proof -
  have ok: "range_ok project_object_field ns r" by (rule range_okI [OF assms]) (auto simp: object_node_def)
  moreover have "const_value ns (VObject r)" if c
    by (rule const_object [OF ok]) (use that assms(2) in \<open>auto simp: object_node_def list_all_iff\<close>)
  ultimately show ?thesis by simp
qed

text \<open>The loop of a list production, as a production of its own.\<close>

lemma list_production_produces:
  assumes "list_item item k V" and "close \<noteq> Eof"
  shows "produces True k (\<lambda>st. pbind (list_loop k close item st) (\<lambda>_ st'. close_list (open_list st) st'))
    (\<lambda>r ns. unat (nr_start r) + unat (nr_len r) \<le> length ns \<and> list_all (V ns) (arena_slice ns r))"
proof -
  have V: "V ns n \<Longrightarrow> V (ns @ ms) n" for ns n ms using assms(1) by (rule list_item.V_append)
  have "up (\<lambda>ns. unat (nr_start r) + unat (nr_len r) \<le> length ns \<and> list_all (V ns) (arena_slice ns r))" for r
    using V by (auto simp: up_def arena_slice_append list_all_iff)
  then show ?thesis
    unfolding produces_def
    by (auto simp: exts_ext intro!: post_mono [OF list_item.list_production [OF assms(1) _ _ _ assms(2)]])
qed

lemma list_bind:
  assumes "at True P s st" and "rem s < Suc k" and "list_item item k V" and "close \<noteq> Eof"
    and "\<And>r st'. at True (\<lambda>ns. P ns \<and> unat (nr_start r) + unat (nr_len r) \<le> length ns \<and>
        list_all (V ns) (arena_slice ns r)) s st' \<Longrightarrow> post (f r st') Q"
  shows "post (pbind (list_loop k close item st) (\<lambda>_ st'. pbind (close_list (open_list st) st') f)) Q"
  unfolding pbind_assoc [symmetric]
  by (rule produces_bind_Suc [OF assms(1,2) list_production_produces [OF assms(3,4)]]) (rule assms(5))

lemma up_nodes [simp]: "up (\<lambda>ns. node_ok ns n)" "up (\<lambda>ns. value_node c ns n)" "up (\<lambda>ns. object_node c ns n)"
  using node_ok_append const_value_append by (auto simp: up_def value_node_def object_node_def)

lemma upD: "up P \<Longrightarrow> P ns \<Longrightarrow> P (ns @ ms)"
  by (simp add: up_def)

lemma parse_value_produces:
  "produces True k (parse_value k c) (\<lambda>v ns. value_ok ns v \<and> (c \<longrightarrow> const_value ns v))"
proof (induction k)
  case (Suc k)
  have vitem: "list_item (\<lambda>st. pbind (parse_value k c st) (\<lambda>v st. ret (NValue v) st)) k (value_node c)"
  proof (rule list_itemI, rule producesI)
    fix st
    assume "rem st < k" and start: "at False (\<lambda>_. True) st st"
    show "post (pbind (parse_value k c st) (\<lambda>v st. ret (NValue v) st))
        (\<lambda>n st'. at True (\<lambda>ns. node_ok ns n \<and> value_node c ns n) st st')"
      by (rule produces_bind_same [OF start \<open>rem st < k\<close> Suc], rule post_retI, erule at_weaken)
        (auto simp: value_node_def [of c _ "NValue _"])
  qed (auto intro: upD [OF up_nodes(2)])
  have oitem: "list_item (\<lambda>st. pbind (parse_name st) (\<lambda>n st. pbind (expect Colon ExpectedColon st) (\<lambda>_ st.
      pbind (parse_value k c st) (\<lambda>v st. ret (NObjectField \<lparr>obf_name = n, obf_value = v\<rparr>) st)))) k (object_node c)"
  proof (rule list_itemI, rule producesI)
    fix st
    assume "rem st < k" and start: "at False (\<lambda>_. True) st st"
    note rec = produces_bind_same [OF _ \<open>rem st < k\<close> Suc]
    show "post (pbind (parse_name st) (\<lambda>n st. pbind (expect Colon ExpectedColon st) (\<lambda>_ st.
        pbind (parse_value k c st) (\<lambda>v st. ret (NObjectField \<lparr>obf_name = n, obf_value = v\<rparr>) st))))
        (\<lambda>n st'. at True (\<lambda>ns. node_ok ns n \<and> object_node c ns n) st st')"
      by (rule name_bind [OF start], erule expect_bind, simp, erule rec, rule post_retI, erule at_weaken)
        (auto simp: object_node_def [of c _ "NObjectField _"])
  qed (auto intro: upD [OF up_nodes(3)])
  show ?case
  proof (rule producesI)
    fix st
    assume fuel: "rem st < Suc k" and start: "at False (\<lambda>_. True) st st"
    note lists = list_bind [OF _ fuel vitem] list_bind [OF _ fuel oitem]
    show "post (parse_value (Suc k) c st) (\<lambda>v st'. at True (\<lambda>ns. value_ok ns v \<and> (c \<longrightarrow> const_value ns v)) st st')"
      unfolding parse_value.simps
    proof (rule peek_bind [OF start])
      fix t st1
      assume st1: "at False (\<lambda>_. True) st st1" "ps_peeked st1 = Some t"
      let ?Q = "\<lambda>v st'. at True (\<lambda>ns. value_ok ns v \<and> (c \<longrightarrow> const_value ns v)) st st'"
      note bump = bump_bind [OF st1]
      have leaf: "post (pbind (bump_tok st1) (\<lambda>_ st. ret (g st) st)) ?Q"
        if "tk_kind t \<noteq> Eof" "\<And>st ns. value_ok ns (g st) \<and> const_value ns (g st)" for g
        by (rule bump [OF that(1)], rule post_retI, erule at_weaken) (use that(2) in auto)
      have var: "post (pbind (bump_tok st1) (\<lambda>_ st. pbind (parse_name st) (\<lambda>n st. ret (VVariable n) st)))
          (\<lambda>v st'. at True (\<lambda>ns. value_ok ns v) st st')"
        if "tk_kind t \<noteq> Eof"
        by (rule bump [OF that], erule name_bind, rule post_retI, erule at_weaken) auto
      have lst: "post (pbind (bump_tok st1) (\<lambda>_ st.
           pbind (list_loop k RBracket (\<lambda>st. pbind (parse_value k c st) (\<lambda>v st. ret (NValue v) st)) st) (\<lambda>_ st'.
           pbind (close_list (open_list st) st') (\<lambda>r st. ret (VList r) st)))) ?Q" if "tk_kind t \<noteq> Eof"
        by (rule bump [OF that], erule lists(1), simp, rule post_retI, erule at_weaken)
          (auto simp del: value_ok.simps intro: value_list_ok [THEN conjunct1] value_list_ok [THEN conjunct2, THEN mp])
      have obj: "post (pbind (bump_tok st1) (\<lambda>_ st.
           pbind (list_loop k RBrace (\<lambda>st. pbind (parse_name st) (\<lambda>n st.
                    pbind (expect Colon ExpectedColon st) (\<lambda>_ st.
                    pbind (parse_value k c st) (\<lambda>v st.
                      ret (NObjectField \<lparr>obf_name = n, obf_value = v\<rparr>) st)))) st) (\<lambda>_ st'.
           pbind (close_list (open_list st) st') (\<lambda>r st. ret (VObject r) st)))) ?Q" if "tk_kind t \<noteq> Eof"
        by (rule bump [OF that], erule lists(2), simp, rule post_retI, erule at_weaken)
          (auto simp del: value_ok.simps intro: value_object_ok [THEN conjunct1] value_object_ok [THEN conjunct2, THEN mp])
      have nv: "value_ok ns (name_value a b) \<and> const_value ns (name_value a b)" for ns a b
        by (simp add: name_value_def)
      show "post (case tk_kind t of
         Dollar \<Rightarrow>
           if c then fail (tk_span t) ExpectedValue
           else pbind (bump_tok st1) (\<lambda>_ st. pbind (parse_name st) (\<lambda>n st. ret (VVariable n) st))
       | IntValue \<Rightarrow> pbind (bump_tok st1) (\<lambda>_ st. ret (VInt (slice st (tk_span t))) st)
       | FloatValue \<Rightarrow> pbind (bump_tok st1) (\<lambda>_ st. ret (VFloat (slice st (tk_span t))) st)
       | StringTok \<Rightarrow> pbind (bump_tok st1) (\<lambda>_ st.
           ret (VString \<lparr>sv_raw = slice st (tk_span t), sv_block = False, sv_span = tk_span t\<rparr>) st)
       | BlockStringValue \<Rightarrow> pbind (bump_tok st1) (\<lambda>_ st.
           ret (VString \<lparr>sv_raw = slice st (tk_span t), sv_block = True, sv_span = tk_span t\<rparr>) st)
       | NameTok \<Rightarrow> pbind (bump_tok st1) (\<lambda>_ st. ret (name_value (slice st (tk_span t)) (tk_span t)) st)
       | LBracket \<Rightarrow>
           pbind (bump_tok st1) (\<lambda>_ st.
           pbind (list_loop k RBracket (\<lambda>st. pbind (parse_value k c st) (\<lambda>v st. ret (NValue v) st)) st) (\<lambda>_ st'.
           pbind (close_list (open_list st) st') (\<lambda>r st. ret (VList r) st)))
       | LBrace \<Rightarrow>
           pbind (bump_tok st1) (\<lambda>_ st.
           pbind (list_loop k RBrace (\<lambda>st. pbind (parse_name st) (\<lambda>n st.
                    pbind (expect Colon ExpectedColon st) (\<lambda>_ st.
                    pbind (parse_value k c st) (\<lambda>v st.
                      ret (NObjectField \<lparr>obf_name = n, obf_value = v\<rparr>) st)))) st) (\<lambda>_ st'.
           pbind (close_list (open_list st) st') (\<lambda>r st. ret (VObject r) st)))
       | _ \<Rightarrow> fail (tk_span t) ExpectedValue) ?Q"
        by (cases "tk_kind t") (simp_all add: post_if leaf var lst obj nv)
    qed
  qed simp
qed (simp add: produces_def)

section \<open>Arguments, directives, variables\<close>

lemma pbind_ret: "pbind m ret = m"
  by (cases m) (auto simp: pbind_def split: sum.splits)

lemma item_variant_append: "(\<lambda>ns n. f n \<noteq> None) ns n \<Longrightarrow> (\<lambda>ns n. f n \<noteq> None) (ns @ ms) n"
  by simp

text \<open>A delimited list, from its opening token to its range.\<close>

lemma delimited_produces:
  assumes item: "list_item item k (\<lambda>_ n. f n \<noteq> None)" and "opn \<noteq> Eof" and "close \<noteq> Eof"
  shows "produces True k (\<lambda>st. pbind (expect opn err st) (\<lambda>_ st.
      pbind (list_loop k close item st) (\<lambda>_ st'. close_list (open_list st) st'))) (\<lambda>r ns. range_ok f ns r)"
proof (rule producesI)
  fix st
  assume fuel: "rem st < k" and start: "at False (\<lambda>_. True) st st"
  show "post (pbind (expect opn err st) (\<lambda>_ st.
      pbind (list_loop k close item st) (\<lambda>_ st'. close_list (open_list st) st')))
      (\<lambda>r st'. at True (\<lambda>ns. range_ok f ns r) st st')"
  proof (rule expect_bind [OF start assms(2)])
    fix st1
    assume st1: "at True (\<lambda>_. True) st st1"
    have "post (pbind (pbind (list_loop k close item st1) (\<lambda>_ st'. close_list (open_list st1) st')) ret)
        (\<lambda>r st'. at True (\<lambda>ns. range_ok f ns r) st st')"
      by (rule produces_bind_same [OF st1 fuel list_production_produces [OF item assms(3)]],
          rule post_retI, erule at_weaken, simp, rule up_simps(3), simp add: range_ok_def)
    then show "post (pbind (list_loop k close item st1) (\<lambda>_ st'. close_list (open_list st1) st'))
        (\<lambda>r st'. at True (\<lambda>ns. range_ok f ns r) st st')" by (simp only: pbind_ret)
  qed
qed simp

lemma optional_range_produces:
  assumes "produces True k p (\<lambda>r ns. range_ok f ns r)"
  shows "produces False k (optional_range t p) (\<lambda>r ns. range_ok f ns r)"
proof (rule producesI)
  fix st
  assume fuel: "rem st < k" and start: "at False (\<lambda>_. True) st st"
  show "post (optional_range t p st) (\<lambda>r st'. at False (\<lambda>ns. range_ok f ns r) st st')"
    unfolding optional_range_def
  proof (rule peek_bind [OF start], rule post_ifI)
    fix st1
    assume st1: "at False (\<lambda>_. True) st st1"
    have "post (pbind (p st1) ret) (\<lambda>r st'. at False (\<lambda>ns. range_ok f ns r) st st')"
      by (rule produces_bind_same [OF st1 fuel assms], rule post_retI, erule at_weaken) auto
    then show "post (p st1) (\<lambda>r st'. at False (\<lambda>ns. range_ok f ns r) st st')" by (simp only: pbind_ret)
    show "post (ret range_EMPTY st1) (\<lambda>r st'. at False (\<lambda>ns. range_ok f ns r) st st')"
      by (rule post_retI, rule at_weaken [OF st1]) auto
  qed
qed simp

lemma argument_item_ok: "list_item (argument_item k) k (\<lambda>_ n. project_argument n \<noteq> None)"
proof (rule list_itemI, rule producesI)
  fix st
  assume fuel: "rem st < k" and start: "at False (\<lambda>_. True) st st"
  note rec = produces_bind_same [OF _ fuel parse_value_produces]
  show "post (argument_item k st) (\<lambda>n st'. at True (\<lambda>ns. node_ok ns n \<and> project_argument n \<noteq> None) st st')"
    unfolding argument_item_def
    by (rule name_bind [OF start], erule expect_bind, simp, erule rec, rule post_retI, erule at_weaken) auto
qed auto

interpretation arguments: list_item "argument_item k" k "\<lambda>_ n. project_argument n \<noteq> None" for k
  by (rule argument_item_ok)

lemma parse_arguments_produces: "produces True k (parse_arguments k) (\<lambda>r ns. range_ok project_argument ns r)"
  using delimited_produces [OF arguments.list_item_axioms, where opn = LParen and close = RParen and err = UnexpectedToken and k = k]
  by (simp add: parse_arguments_def [abs_def])

lemma directive_item_post:
  assumes "parser_inv st" and fuel: "rem st < k" and "ps_peeked st = Some t" and "tk_kind t \<noteq> Eof"
  shows "post (directive_item k st) (\<lambda>n st'. exts st st' \<and> node_ok (ps_nodes st') n \<and> project_directive n \<noteq> None)"
proof -
  note rec = produces_bind_same [OF _ fuel optional_range_produces [OF parse_arguments_produces]]
  have "post (directive_item k st) (\<lambda>n st'. at True (\<lambda>ns. node_ok ns n \<and> project_directive n \<noteq> None) st st')"
    unfolding directive_item_def
    by (rule bump_bind [OF at_start [OF assms(1)] assms(3,4)], erule name_bind, erule rec, rule post_retI, erule at_weaken) auto
  then show ?thesis by (rule post_mono) (auto simp: at_def)
qed

interpretation directives: list_item "directive_item k" k "\<lambda>_ n. project_directive n \<noteq> None" for k
  by unfold_locales (rule directive_item_post)

lemma parse_directives_produces: "produces False k (parse_directives k) (\<lambda>r ns. range_ok project_directive ns r)"
  unfolding produces_def parse_directives_def
  by (intro conjI allI impI up_simps(3))
    (rule post_mono [OF directives.while_production], auto simp: range_ok_def)

lemma variable_item_ok: "list_item (variable_item k) k (\<lambda>_ n. project_variable_definition n \<noteq> None)"
proof (rule list_itemI, rule producesI)
  fix st
  assume fuel: "rem st < k" and start: "at False (\<lambda>_. True) st st"
  note recs = produces_bind_same [OF _ fuel parse_type_produces] produces_bind_same [OF _ fuel parse_value_produces]
    produces_bind_same [OF _ fuel parse_directives_produces]
  show "post (variable_item k st) (\<lambda>n st'. at True (\<lambda>ns. node_ok ns n \<and> project_variable_definition n \<noteq> None) st st')"
    unfolding variable_item_def using start
    by (simp only: pbind_assoc pbind_simps)
      (erule peek_bind name_bind bump_bind expect_bind recs | assumption | rule post_ifI post_retI post_failI
      | (erule at_weaken; auto; fail) | simp; fail)+
qed auto

interpretation variables: list_item "variable_item k" k "\<lambda>_ n. project_variable_definition n \<noteq> None" for k
  by (rule variable_item_ok)

lemma parse_variable_definitions_produces:
  "produces True k (parse_variable_definitions k) (\<lambda>r ns. range_ok project_variable_definition ns r)"
  using delimited_produces [OF variables.list_item_axioms, where opn = LParen and close = RParen and err = UnexpectedToken and k = k]
  by (simp add: parse_variable_definitions_def [abs_def])

section \<open>Selections\<close>

lemma selection_set_step:
  assumes sel: "produces True k (parse_selection k) (\<lambda>s ns. selection_ok ns s)"
  shows "produces True (Suc k) (parse_selection_set (Suc k)) (\<lambda>ss ns. set_ok ns ss)"
proof (rule producesI)
  fix st
  assume fuel: "rem st < Suc k" and start: "at False (\<lambda>_. True) st st"
  let ?item = "\<lambda>st. pbind (parse_selection k st) (\<lambda>s st. ret (NSelection s) st)"
  let ?V = "\<lambda>_ n. project_selection n \<noteq> None"
  have item: "list_item ?item k ?V"
  proof (rule list_itemI, rule producesI)
    fix st
    assume "rem st < k" and start: "at False (\<lambda>_. True) st st"
    show "post (?item st) (\<lambda>n st'. at True (\<lambda>ns. node_ok ns n \<and> project_selection n \<noteq> None) st st')"
      by (rule produces_bind_same [OF start \<open>rem st < k\<close> sel], rule post_retI, erule at_weaken) auto
  qed auto
  show "post (parse_selection_set (Suc k) st) (\<lambda>ss st'. at True (\<lambda>ns. set_ok ns ss) st st')"
    unfolding parse_selection_set.simps
  proof (rule expect_bind [OF start])
    fix op_tok st1
    assume st1: "at True (\<lambda>_. True) st st1"
    note fuel1 = at_fuel_Suc [OF st1 fuel] and inv1 = atD(4) [OF st1]
    let ?sp = "\<lambda>c. span_new (sp_start (tk_span op_tok)) (sp_end (tk_span c))"
    show "post (pbind (list_loop k RBrace ?item st1) (\<lambda>c st'. if length (ps_scratch st') = open_list st1
         then fail (?sp c) EmptySelectionSet
         else pbind (close_list (open_list st1) st') (\<lambda>r st. ret \<lparr>ss_selections = r, ss_span = ?sp c\<rparr> st)))
       (\<lambda>ss st'. at True (\<lambda>ns. set_ok ns ss) st st')"
    proof (rule bindI [OF list_item.list_loop_post [OF item inv1 fuel1 fuel1]], simp, rule post_ifI, rule post_failI)
      fix c st2
      assume p: "pushed ?V st1 st2 \<and> rem st2 < rem st1 \<and> budget st2 < budget st1"
        and ne: "length (ps_scratch st2) \<noteq> open_list st1"
      have gt: "open_list st1 < length (ps_scratch st2)" using p ne by (auto simp: pushed_def open_list_def)
      show "post (pbind (close_list (open_list st1) st2) (\<lambda>r st. ret \<lparr>ss_selections = r, ss_span = ?sp c\<rparr> st))
          (\<lambda>ss st'. at True (\<lambda>ns. set_ok ns ss) st st')"
      proof (rule bindI [OF close_list_post [OF conjunct1 [OF p]]], simp, rule post_retI)
        fix r st3
        assume c3: "ext st1 st3 \<and> rem st3 = rem st2 \<and> budget st3 = budget st2 \<and>
          unat (nr_start r) + unat (nr_len r) \<le> length (ps_nodes st3) \<and>
          list_all (?V (ps_nodes st3)) (arena_slice (ps_nodes st3) r) \<and>
          unat (nr_len r) = length (ps_scratch st2) - open_list st1"
        have "exts st1 st3" using c3 p by (simp add: exts_def)
        moreover have "set_ok (ps_nodes st3) \<lparr>ss_selections = r, ss_span = ?sp c\<rparr>"
          using c3 gt by (auto simp: set_ok_def range_ok_def range_is_empty_def)
        ultimately show "at True (\<lambda>ns. set_ok ns \<lparr>ss_selections = r, ss_span = ?sp c\<rparr>) st st3"
          using at_step [OF st1, of st3 True "\<lambda>ns. set_ok ns \<lparr>ss_selections = r, ss_span = ?sp c\<rparr>"] exts_ext by simp
      qed
    qed
  qed simp
qed simp

lemma selection_step:
  assumes set: "produces True k (parse_selection_set k) (\<lambda>ss ns. set_ok ns ss)"
  shows "produces True (Suc k) (parse_selection (Suc k)) (\<lambda>s ns. selection_ok ns s)"
proof (rule producesI)
  fix st
  assume fuel: "rem st < Suc k" and start: "at False (\<lambda>_. True) st st"
  note recs = produces_bind_Suc [OF _ fuel set] produces_bind_Suc [OF _ fuel parse_directives_produces]
    produces_bind_Suc [OF _ fuel optional_range_produces [OF parse_arguments_produces]]
  show "post (parse_selection (Suc k) st) (\<lambda>s st'. at True (\<lambda>ns. selection_ok ns s) st st')"
    unfolding parse_selection.simps using start
    by (simp only: pbind_assoc pbind_simps prod.case)
      (erule peek_bind name_bind bump_bind recs | assumption | rule post_ifI post_retI post_failI
      | (erule at_weaken; auto; fail) | simp; fail)+
qed simp

lemma selections_produce:
  "produces True k (parse_selection_set k) (\<lambda>ss ns. set_ok ns ss)"
  "produces True k (parse_selection k) (\<lambda>s ns. selection_ok ns s)"
  by (induction k) (auto intro: selection_set_step selection_step, auto simp: produces_def)

section \<open>Definitions\<close>

lemma shorthand_produces: "produces True k (parse_shorthand_query k) (\<lambda>d ns. definition_ok ns (DOperation d))"
proof (rule producesI)
  fix st
  assume fuel: "rem st < k" and start: "at False (\<lambda>_. True) st st"
  note rec = produces_bind_same [OF _ fuel selections_produce(1)]
  show "post (parse_shorthand_query k st) (\<lambda>d st'. at True (\<lambda>ns. definition_ok ns (DOperation d)) st st')"
    unfolding parse_shorthand_query_def
    by (rule peek_bind [OF start], erule rec, rule post_retI, erule at_weaken) auto
qed simp

lemma definition_item_post:
  assumes "parser_inv st" and fuel: "rem st < k"
  shows "post (parse_definition k st) (\<lambda>d st'. at True (\<lambda>ns. definition_ok ns d) st st')"
proof -
  note start = at_start [OF assms(1)]
  note recs = produces_bind_same [OF _ fuel shorthand_produces] produces_bind_same [OF _ fuel selections_produce(1)]
    produces_bind_same [OF _ fuel parse_directives_produces]
    produces_bind_same [OF _ fuel optional_range_produces [OF parse_variable_definitions_produces]]
  have oper: "post (pbind (parse_operation_definition k st1) (\<lambda>d st. ret (DOperation d) st))
      (\<lambda>d st'. at True (\<lambda>ns. definition_ok ns d) st st')"
    if at1: "at False (\<lambda>_. True) st st1" and t: "ps_peeked st1 = Some t" "tk_kind t = NameTok" for st1 t
    unfolding parse_operation_definition_def pbind_assoc
  proof (rule bump_bind [OF at1 t(1)])
    fix st2
    assume at2: "at True (\<lambda>_. True) st st2"
    show "post (pbind (case operation_kind_of (slice st2 (tk_span t)) of
         None \<Rightarrow> fail (tk_span t) ExpectedOperationKind
       | Some kind \<Rightarrow>
           pbind (peek st2) (\<lambda>u st.
           pbind (if tk_kind u = NameTok then pbind (parse_name st) (\<lambda>n st. ret (Some n) st) else ret None st) (\<lambda>nm st.
           pbind (optional_range LParen (parse_variable_definitions k) st) (\<lambda>vds st.
           pbind (parse_directives k st) (\<lambda>ds st.
           pbind (parse_selection_set k st) (\<lambda>ss st.
             ret \<lparr>opd_kind = kind, opd_name = nm, opd_variable_definitions = vds, opd_directives = ds,
                  opd_selection_set = ss, opd_span = span_new (sp_start (tk_span t)) (sp_end (ss_span ss)),
                  opd_shorthand = False\<rparr> st)))))) (\<lambda>d st. ret (DOperation d) st))
       (\<lambda>d st'. at True (\<lambda>ns. definition_ok ns d) st st')"
    proof (cases "operation_kind_of (slice st2 (tk_span t))")
      case (Some kind)
      show ?thesis
        unfolding Some option.case using at2
        by (simp only: pbind_assoc pbind_simps)
          (erule peek_bind name_bind recs | assumption | rule post_ifI post_retI post_failI
          | (erule at_weaken; auto; fail) | simp; fail)+
    qed simp
  qed (simp add: t)
  have frag: "post (pbind (parse_fragment_definition k st1) (\<lambda>d st. ret (DFragment d) st))
      (\<lambda>d st'. at True (\<lambda>ns. definition_ok ns d) st st')"
    if "at False (\<lambda>_. True) st st1" "ps_peeked st1 = Some t" "tk_kind t = NameTok" for st1 t
    unfolding parse_fragment_definition_def using that
    by (simp only: pbind_assoc pbind_simps)
      (erule peek_bind name_bind bump_bind recs | assumption | rule post_ifI post_retI post_failI
      | (erule at_weaken; auto; fail) | simp; fail)+
  show ?thesis
    unfolding parse_definition_def Let_def
    by (rule peek_bind [OF start])
      (auto simp: post_if intro: oper frag, erule recs(1), rule post_retI, erule at_weaken, auto)
qed

interpretation definitions: list_item "\<lambda>st. pbind (parse_definition k st) (\<lambda>d st. ret (NDefinition d) st)" k
    "\<lambda>_ n. project_definition n \<noteq> None" for k
  by unfold_locales (auto simp: post_bind at_def intro!: post_mono [OF definition_item_post])

section \<open>Documents\<close>

lemma parser_new_simps [simp]:
  "ps_nodes (parser_new src) = []" "ps_scratch (parser_new src) = []"
  "rem (parser_new src) = 2 * length src" "budget (parser_new src) = 2 * length src"
  by (simp_all add: parser_new_def rem_def budget_def lexer_new_def)

lemma parser_new_inv: "2 * length src < 2 ^ 32 \<Longrightarrow> parser_inv (parser_new src)"
  unfolding parser_inv_def by (simp add: parser_new_def budget_def rem_def lexer_new_def [of src]) (simp flip: lexer_new_def)

lemma parse_document_post:
  assumes "2 * length src < 2 ^ 32"
  shows "post (parse_document (2 * length src + 1) (parser_new src)) (\<lambda>doc _.
    children_first (doc_nodes doc) \<and>
    range_ok project_definition (doc_nodes doc) (doc_definitions_range doc) \<and> 0 < range_len (doc_definitions_range doc))"
proof -
  let ?st = "parser_new src" and ?k = "2 * length src + 1" and ?V = "\<lambda>_ n. project_definition n \<noteq> None"
  have fuel: "rem ?st < ?k" by simp
  show ?thesis
    unfolding parse_document_def
  proof (rule bindI [OF definitions.while_loop_post [OF parser_new_inv [OF assms] fuel fuel]], simp, rule post_ifI, rule post_failI)
    fix st1
    assume p: "pushed ?V ?st st1" and ne: "length (ps_scratch st1) \<noteq> open_list ?st"
    show "post (pbind (close_list (open_list ?st) st1) (\<lambda>r st.
        ret \<lparr>doc_definitions_range = r, doc_nodes = ps_nodes st\<rparr> (st\<lparr>ps_nodes := []\<rparr>))) (\<lambda>doc _.
      children_first (doc_nodes doc) \<and>
      range_ok project_definition (doc_nodes doc) (doc_definitions_range doc) \<and> 0 < range_len (doc_definitions_range doc))"
      by (rule bindI [OF close_list_post [OF p]])
        (use ne in \<open>auto simp: ext_def parser_inv_def range_ok_def range_len_def open_list_def\<close>)
  qed
qed

lemma parse_ok:
  assumes "2 * length src < 2 ^ 32" and "parse_executable_document src = Some (Inr doc)"
  shows "children_first (doc_nodes doc)"
    and "range_ok project_definition (doc_nodes doc) (doc_definitions_range doc)"
    and "0 < range_len (doc_definitions_range doc)"
proof -
  obtain st where "parse_document (2 * length src + 1) (parser_new src) = ret doc st"
    using assms(2)
    by (cases "parse_document (2 * length src + 1) (parser_new src)"; cases "the (parse_document (2 * length src + 1) (parser_new src))")
      (auto simp: parse_executable_document_def)
  with parse_document_post [OF assms(1)]
  show "children_first (doc_nodes doc)"
    "range_ok project_definition (doc_nodes doc) (doc_definitions_range doc)"
    "0 < range_len (doc_definitions_range doc)" by simp_all
qed

lemmas parse_nodes_ok = children_first_nodes [OF parse_ok(1)]

text \<open>C16: parsing terminates. For every source below 2 GiB the fuel handed to the productions is
  enough: the parser returns a document or an error, whatever the bytes are.\<close>

theorem parse_terminates:
  assumes "2 * length src < 2 ^ 32"
  shows "\<exists>r. parse_executable_document src = Some r"
  using parse_document_post [OF assms]
  by (cases "parse_document (2 * length src + 1) (parser_new src)") (auto simp: parse_executable_document_def)

theorem parse_terminates_witness: "\<exists>r. parse_executable_document ''{ f(x: [1 '' = Some r"
  by (rule parse_terminates) simp

text \<open>Reading every list field of a node through its accessor.\<close>

definition readable :: "(document \<Rightarrow> node_range \<Rightarrow> 'a list option) \<Rightarrow> document \<Rightarrow> node_range \<Rightarrow> bool" where
  "readable get doc r \<longleftrightarrow> (\<exists>vs. get doc r = Some vs \<and> length vs = range_len r)"

fun readable_value :: "document \<Rightarrow> gvalue \<Rightarrow> bool" where
  "readable_value doc (VList r) \<longleftrightarrow> readable doc_list_values doc r"
| "readable_value doc (VObject r) \<longleftrightarrow> readable doc_object_fields doc r"
| "readable_value doc _ \<longleftrightarrow> True"

fun readable_selection :: "document \<Rightarrow> selection \<Rightarrow> bool" where
  "readable_selection doc (SField f) \<longleftrightarrow> readable doc_arguments doc (fld_arguments f) \<and>
     readable doc_directives doc (fld_directives f) \<and>
     (case fld_selection_set f of None \<Rightarrow> True | Some s \<Rightarrow> readable doc_selections doc (ss_selections s))"
| "readable_selection doc (SFragmentSpread f) \<longleftrightarrow> readable doc_directives doc (fsp_directives f)"
| "readable_selection doc (SInlineFragment f) \<longleftrightarrow> readable doc_directives doc (ifr_directives f) \<and>
     readable doc_selections doc (ss_selections (ifr_selection_set f))"

fun readable_definition :: "document \<Rightarrow> gdefinition \<Rightarrow> bool" where
  "readable_definition doc (DOperation d) \<longleftrightarrow>
     readable doc_variable_definitions doc (opd_variable_definitions d) \<and>
     readable doc_directives doc (opd_directives d) \<and>
     readable doc_selections doc (ss_selections (opd_selection_set d))"
| "readable_definition doc (DFragment d) \<longleftrightarrow> readable doc_directives doc (frd_directives d) \<and>
     readable doc_selections doc (ss_selections (frd_selection_set d))"

fun readable_node :: "document \<Rightarrow> node \<Rightarrow> bool" where
  "readable_node doc (NDefinition d) \<longleftrightarrow> readable_definition doc d"
| "readable_node doc (NVariableDefinition d) \<longleftrightarrow> readable doc_directives doc (vd_directives d) \<and>
     (case vd_default_value d of None \<Rightarrow> True | Some v \<Rightarrow> readable_value doc v)"
| "readable_node doc (NDirective d) \<longleftrightarrow> readable doc_arguments doc (dir_arguments d)"
| "readable_node doc (NArgument a) \<longleftrightarrow> readable_value doc (arg_value a)"
| "readable_node doc (NSelection s) \<longleftrightarrow> readable_selection doc s"
| "readable_node doc (NObjectField f) \<longleftrightarrow> readable_value doc (obf_value f)"
| "readable_node doc (NValue v) \<longleftrightarrow> readable_value doc v"

lemmas accessor_defs = doc_variable_definitions_def doc_directives_def doc_arguments_def doc_selections_def
  doc_object_fields_def doc_list_values_def

lemma range_ok_readable:
  "range_ok f (doc_nodes doc) r \<Longrightarrow> readable (slice_read f) doc r"
  using slice_read_ok by (simp add: readable_def)

lemma value_ok_readable: "value_ok (doc_nodes doc) v \<Longrightarrow> readable_value doc v"
  by (cases v) (simp_all add: accessor_defs range_ok_readable)

lemma node_ok_readable: "node_ok (doc_nodes doc) n \<Longrightarrow> readable_node doc n"
proof (cases n)
  case (NDefinition d)
  then show "node_ok (doc_nodes doc) n \<Longrightarrow> ?thesis"
    by (cases d) (auto simp: accessor_defs range_ok_readable set_ok_def)
next
  case (NSelection s)
  then show "node_ok (doc_nodes doc) n \<Longrightarrow> ?thesis"
    by (cases s) (auto simp: accessor_defs range_ok_readable set_ok_def split: option.splits)
qed (auto simp: accessor_defs range_ok_readable value_ok_readable split: option.splits)

text \<open>C17: the arena of a parsed document is sound. The top-level definitions can be read and there
  is at least one; and every list field of every node of the document reads back through its
  typed accessor, as many elements as the range says, so that neither the bounds fallback nor
  the panic of a wrong variant is reachable.\<close>

theorem parsed_document_readable:
  assumes "2 * length src < 2 ^ 32" and "parse_executable_document src = Some (Inr doc)"
  shows "(\<exists>d ds. doc_definitions doc = Some (d # ds)) \<and> (\<forall>n \<in> set (doc_nodes doc). readable_node doc n)"
proof -
  note ok = parse_ok [OF assms]
  obtain ds where ds: "doc_definitions doc = Some ds" "length ds = range_len (doc_definitions_range doc)"
    using slice_read_ok [OF ok(2)] by (auto simp: doc_definitions_def)
  then have "ds \<noteq> []" using ok(3) by auto
  then obtain d ds' where "ds = d # ds'" by (cases ds) auto
  with ds children_first_nodes [OF ok(1)] node_ok_readable show ?thesis by (auto simp: list_all_iff)
qed

definition example_source :: string where
  "example_source = ''query Q($a: [Int!] = [1 2]) { f(x: $a) @d { g } }''"

fun is_operation_node :: "node \<Rightarrow> bool" where
  "is_operation_node (NDefinition (DOperation _)) \<longleftrightarrow> True"
| "is_operation_node _ \<longleftrightarrow> False"

fun is_defaulted_node :: "node \<Rightarrow> bool" where
  "is_defaulted_node (NVariableDefinition d) \<longleftrightarrow> vd_default_value d \<noteq> None"
| "is_defaulted_node _ \<longleftrightarrow> False"

lemma node_kindE:
  "is_operation_node n \<Longrightarrow> \<exists>d. n = NDefinition (DOperation d)"
  "is_defaulted_node n \<Longrightarrow> \<exists>d v. n = NVariableDefinition d \<and> vd_default_value d = Some v"
  by (cases n rule: is_operation_node.cases; simp) (cases n rule: is_defaulted_node.cases; auto)

lemma example_parses: "\<exists>doc. parse_executable_document example_source = Some (Inr doc) \<and>
  length (doc_nodes doc) = 8 \<and> list_ex is_operation_node (doc_nodes doc) \<and> list_ex is_defaulted_node (doc_nodes doc)"
proof -
  have "case parse_executable_document example_source of
    Some (Inr doc) \<Rightarrow> length (doc_nodes doc) = 8 \<and> list_ex is_operation_node (doc_nodes doc) \<and> list_ex is_defaulted_node (doc_nodes doc)
    | _ \<Rightarrow> False"
    by code_simp
  then show ?thesis by (auto split: option.splits sum.splits)
qed

lemma example_length: "2 * length example_source < 2 ^ 32"
  by (simp add: example_source_def)

theorem parsed_document_readable_witness:
  "\<exists>doc. parse_executable_document example_source = Some (Inr doc) \<and> (\<exists>d ds. doc_definitions doc = Some (d # ds))"
  using parsed_document_readable [OF example_length] example_parses by blast

text \<open>No selection set of a parsed document is empty: operations, fragments, inline fragments and
  fields with braces all read back at least one selection.\<close>

theorem selection_sets_nonempty:
  assumes "2 * length src < 2 ^ 32" and "parse_executable_document src = Some (Inr doc)"
    and "n \<in> set (doc_nodes doc)"
    and "n = NDefinition (DOperation d) \<and> s = opd_selection_set d \<or>
      n = NDefinition (DFragment fd) \<and> s = frd_selection_set fd \<or>
      n = NSelection (SInlineFragment i) \<and> s = ifr_selection_set i \<or>
      n = NSelection (SField f) \<and> fld_selection_set f = Some s"
  shows "\<exists>x xs. doc_selections doc (ss_selections s) = Some (x # xs)"
proof -
  have "node_ok (doc_nodes doc) n" using parse_nodes_ok [OF assms(1,2)] assms(3) by (simp add: list_all_iff)
  then have s: "set_ok (doc_nodes doc) s" using assms(4) by auto
  then obtain vs where vs: "doc_selections doc (ss_selections s) = Some vs" "length vs = range_len (ss_selections s)"
    using slice_read_ok [of project_selection doc "ss_selections s"] by (auto simp: set_ok_def accessor_defs)
  moreover have "range_len (ss_selections s) \<noteq> 0"
    using s by (simp add: set_ok_def range_is_empty_def range_len_def unat_eq_0)
  ultimately show ?thesis by (cases vs) auto
qed

theorem selection_sets_nonempty_witness:
  "\<exists>doc d x xs. parse_executable_document example_source = Some (Inr doc) \<and>
    NDefinition (DOperation d) \<in> set (doc_nodes doc) \<and>
    doc_selections doc (ss_selections (opd_selection_set d)) = Some (x # xs)"
proof -
  obtain doc d where "parse_executable_document example_source = Some (Inr doc)"
    and "NDefinition (DOperation d) \<in> set (doc_nodes doc)"
    using example_parses node_kindE(1) by (auto simp: list_ex_iff) metis
  with selection_sets_nonempty [OF example_length this, of d "opd_selection_set d"] show ?thesis by blast
qed

text \<open>Default values are constant: in a parsed document no variable occurs in the default value
  of a variable definition, at any nesting depth of lists and objects.\<close>

theorem default_values_const:
  assumes "2 * length src < 2 ^ 32" and "parse_executable_document src = Some (Inr doc)"
    and "NVariableDefinition d \<in> set (doc_nodes doc)" and "vd_default_value d = Some v"
  shows "const_value (doc_nodes doc) v"
  using parse_nodes_ok [OF assms(1,2)] assms(3,4) by (fastforce simp: list_all_iff)

theorem default_values_const_witness:
  "\<exists>doc d v. parse_executable_document example_source = Some (Inr doc) \<and>
    NVariableDefinition d \<in> set (doc_nodes doc) \<and> vd_default_value d = Some v \<and> const_value (doc_nodes doc) v"
proof -
  obtain doc d v where "parse_executable_document example_source = Some (Inr doc)"
    and "NVariableDefinition d \<in> set (doc_nodes doc)" and "vd_default_value d = Some v"
    using example_parses node_kindE(2) by (auto simp: list_ex_iff) metis
  with default_values_const [OF example_length this] show ?thesis by blast
qed

end
