(* ===== verification/Rust_BTree.thy ===== *)
theory Rust_BTree
  imports Prelude "HOL-Library.Char_ord" "HOL-Library.List_Lexorder"
begin

text \<open>
  What the sources use of \<^verbatim>\<open>std::collections::BTreeMap\<close>: an association list with strictly increasing
  keys, the order in which the map is iterated; \<^verbatim>\<open>str\<close> keys compare byte by byte. Also the fold
  of a loop body that may fail.
\<close>

type_synonym ('k, 'v) btree = "('k \<times> 'v) list"

fun bt_insert :: "'k::linorder \<Rightarrow> 'v \<Rightarrow> ('k, 'v) btree \<Rightarrow> ('k, 'v) btree" where
  "bt_insert k v [] = [(k, v)]"
| "bt_insert k v ((k', v') # m) =
     (if k < k' then (k, v) # (k', v') # m
      else if k = k' then (k, v) # m
      else (k', v') # bt_insert k v m)"

abbreviation bt_get :: "('k, 'v) btree \<Rightarrow> 'k \<Rightarrow> 'v option" where
  "bt_get m \<equiv> map_of m"

definition bt_contains :: "('k, 'v) btree \<Rightarrow> 'k \<Rightarrow> bool" where
  "bt_contains m k \<longleftrightarrow> map_of m k \<noteq> None"

definition bt_or_insert :: "'k::linorder \<Rightarrow> 'v \<Rightarrow> ('k, 'v) btree \<Rightarrow> ('k, 'v) btree" where
  "bt_or_insert k v m = (if bt_contains m k then m else bt_insert k v m)"

definition bt_ok :: "('k::linorder, 'v) btree \<Rightarrow> bool" where
  "bt_ok m \<longleftrightarrow> sorted_wrt (<) (map fst m)"

lemma set_bt_insert: "fst ` set (bt_insert k v m) = insert k (fst ` set m)"
  by (induction k v m rule: bt_insert.induct) auto

lemma bt_ok_insert: "bt_ok m \<Longrightarrow> bt_ok (bt_insert k v m)"
proof (induction k v m rule: bt_insert.induct)
  case (2 k v k' v' m)
  have "fst x \<in> insert k (fst ` set m)" if "x \<in> set (bt_insert k v m)" for x
    using that set_bt_insert [of k v m] by blast
  with 2 show ?case by (force simp: bt_ok_def)
qed (simp add: bt_ok_def)

lemma map_of_bt_insert [simp]: "map_of (bt_insert k v m) = (map_of m)(k \<mapsto> v)"
  by (induction k v m rule: bt_insert.induct) (auto simp: fun_eq_iff)

lemma bt_contains_iff: "bt_contains m k \<longleftrightarrow> k \<in> fst ` set m"
  by (simp add: bt_contains_def map_of_eq_None_iff)

lemma bt_contains_insert [simp]: "bt_contains (bt_insert k v m) k' \<longleftrightarrow> k' = k \<or> bt_contains m k'"
  using set_bt_insert [of k v m] by (auto simp: bt_contains_iff)

lemma bt_contains_or_insert [simp]: "bt_contains (bt_or_insert k v m) k' \<longleftrightarrow> k' = k \<or> bt_contains m k'"
  by (auto simp: bt_or_insert_def)

lemma bt_ok_or_insert: "bt_ok m \<Longrightarrow> bt_ok (bt_or_insert k v m)"
  by (simp add: bt_or_insert_def bt_ok_insert)

lemma bt_ok_Nil [simp]: "bt_ok []"
  and bt_contains_Nil [simp]: "\<not> bt_contains [] k"
  by (simp_all add: bt_ok_def bt_contains_def)

section \<open>Loops whose body may fail\<close>

fun ofold :: "('a \<Rightarrow> 's \<Rightarrow> 's option) \<Rightarrow> 'a list \<Rightarrow> 's \<Rightarrow> 's option" where
  "ofold f [] s = Some s"
| "ofold f (x # xs) s = (case f x s of None \<Rightarrow> None | Some s' \<Rightarrow> ofold f xs s')"

lemma ofold_append: "ofold f (xs @ ys) s = (case ofold f xs s of None \<Rightarrow> None | Some s' \<Rightarrow> ofold f ys s')"
  by (induction xs arbitrary: s) (auto split: option.split)

text \<open>A loop ends, and keeps an invariant, when its body does; \<open>P xs s\<close> relates the elements done so
  far with the state.\<close>

lemma ofold_total:
  assumes "I s" and "\<And>x s. x \<in> set xs \<Longrightarrow> I s \<Longrightarrow> \<exists>s'. f x s = Some s' \<and> I s'"
  shows "\<exists>s'. ofold f xs s = Some s' \<and> I s'"
  using assms
proof (induction xs arbitrary: s)
  case (Cons x xs)
  then obtain s' where "f x s = Some s'" "I s'" by (metis list.set_intros(1))
  with Cons show ?case by (metis list.set_intros(2) ofold.simps(2) option.simps(5))
qed simp

lemma ofold_invariant:
  assumes "ofold f xs s = Some s'" and "P [] s"
    and "\<And>ys x s s'. P ys s \<Longrightarrow> x \<in> set xs \<Longrightarrow> f x s = Some s' \<Longrightarrow> P (ys @ [x]) s'"
  shows "P xs s'"
proof -
  have "P (ys @ xs) s'" if "ofold f xs s = Some s'" "P ys s"
    "\<And>ys x s s'. P ys s \<Longrightarrow> x \<in> set xs \<Longrightarrow> f x s = Some s' \<Longrightarrow> P (ys @ [x]) s'" for ys xs s
    using that
  proof (induction xs arbitrary: ys s)
    case (Cons x xs)
    from Cons.prems(1) obtain s1 where s1: "f x s = Some s1" "ofold f xs s1 = Some s'"
      by (auto split: option.splits)
    then have "P (ys @ [x]) s1" using Cons.prems(2,3) by simp
    then have "P ((ys @ [x]) @ xs) s'" using s1(2) Cons.prems(3) by (intro Cons.IH) auto
    then show ?case by simp
  qed simp
  from this [of xs s "[]"] assms show ?thesis by simp
qed

text \<open>A step that ends and adds exactly \<open>U\<close> to what \<open>P\<close> observes of the state.\<close>

definition adds_by :: "('s \<Rightarrow> 'x \<Rightarrow> bool) \<Rightarrow> ('s \<Rightarrow> 's option) \<Rightarrow> ('x \<Rightarrow> bool) \<Rightarrow> bool" where
  "adds_by P f U \<longleftrightarrow> (\<forall>s. \<exists>s'. f s = Some s' \<and> (\<forall>x. P s' x \<longleftrightarrow> P s x \<or> U x))"

lemma adds_byE:
  assumes "adds_by P f U"
  obtains s' where "f s = Some s'" and "\<And>x. P s' x \<longleftrightarrow> P s x \<or> U x"
  using assms by (auto simp: adds_by_def)

lemma adds_by_cong: "adds_by P f U \<Longrightarrow> (\<And>x. U x \<longleftrightarrow> U' x) \<Longrightarrow> adds_by P f U'"
  by (simp add: adds_by_def)

lemma adds_by_Some: "(\<And>s x. P (f s) x \<longleftrightarrow> P s x \<or> U x) \<Longrightarrow> adds_by P (\<lambda>s. Some (f s)) U"
  by (simp add: adds_by_def)

lemma adds_by_bind:
  assumes "adds_by P f U" and "adds_by P g V"
  shows "adds_by P (\<lambda>s. Option.bind (f s) g) (\<lambda>x. U x \<or> V x)"
  unfolding adds_by_def
proof
  fix s
  obtain s1 where s1: "f s = Some s1" "\<forall>x. P s1 x \<longleftrightarrow> P s x \<or> U x" using assms(1) unfolding adds_by_def by blast
  obtain s2 where s2: "g s1 = Some s2" "\<forall>x. P s2 x \<longleftrightarrow> P s1 x \<or> V x" using assms(2) unfolding adds_by_def by blast
  show "\<exists>s'. Option.bind (f s) g = Some s' \<and> (\<forall>x. P s' x \<longleftrightarrow> P s x \<or> U x \<or> V x)" using s1 s2 by auto
qed

lemma adds_by_pure:
  assumes "\<And>s x. P (f s) x \<longleftrightarrow> P s x \<or> U x" and "adds_by P g V"
  shows "adds_by P (\<lambda>s. g (f s)) (\<lambda>x. U x \<or> V x)"
  using adds_by_bind [OF adds_by_Some assms(2), of f U] assms(1) by simp

lemma fold_observes:
  assumes "\<And>a s x. P (f a s) x \<longleftrightarrow> P s x \<or> U a x"
  shows "P (fold f as s) x \<longleftrightarrow> P s x \<or> (\<exists>a \<in> set as. U a x)"
  by (induction as arbitrary: s) (auto simp: assms)

lemma adds_by_ofold:
  assumes "\<And>a. a \<in> set as \<Longrightarrow> adds_by P (f a) (U a)"
  shows "adds_by P (ofold f as) (\<lambda>x. \<exists>a \<in> set as. U a x)"
  using assms
proof (induction as)
  case (Cons a as)
  show ?case
    unfolding adds_by_def
  proof
    fix s
    obtain s1 where s1: "f a s = Some s1" "\<And>x. P s1 x \<longleftrightarrow> P s x \<or> U a x"
      using adds_byE [OF Cons.prems [of a], of s] by auto
    obtain s2 where s2: "ofold f as s1 = Some s2" "\<And>x. P s2 x \<longleftrightarrow> P s1 x \<or> (\<exists>a \<in> set as. U a x)"
      using adds_byE [OF Cons.IH, of s1] Cons.prems by auto
    show "\<exists>s'. ofold f (a # as) s = Some s' \<and> (\<forall>x. P s' x \<longleftrightarrow> P s x \<or> (\<exists>a \<in> set (a # as). U a x))"
      using s1 s2 by auto
  qed
qed (simp add: adds_by_def)

text \<open>The contract of a walker: \<open>W\<close> relates the states before and after, and what is achieved for an
  element, \<open>C\<close>, is kept by later steps.\<close>

locale walk =
  fixes W :: "'s \<Rightarrow> 's \<Rightarrow> bool" and C :: "'a \<Rightarrow> 's \<Rightarrow> bool"
  assumes W_refl: "W s s" and W_trans: "W s s' \<Longrightarrow> W s' s'' \<Longrightarrow> W s s''"
    and C_stable: "C x s \<Longrightarrow> W s s' \<Longrightarrow> C x s'"
begin

lemma ofold_walk:
  assumes "I s" and "\<And>s s'. I s \<Longrightarrow> W s s' \<Longrightarrow> I s'"
    and "\<And>x s. x \<in> set xs \<Longrightarrow> I s \<Longrightarrow> \<exists>s'. f x s = Some s' \<and> W s s' \<and> C x s'"
  shows "\<exists>s'. ofold f xs s = Some s' \<and> W s s' \<and> (\<forall>x \<in> set xs. C x s')"
  using assms(1,3)
proof (induction xs arbitrary: s)
  case Nil
  then show ?case by (simp add: W_refl)
next
  case (Cons x xs)
  obtain s1 where s1: "f x s = Some s1" "W s s1" "C x s1" using Cons.prems by (meson list.set_intros(1))
  obtain s2 where s2: "ofold f xs s1 = Some s2" "W s1 s2" "\<forall>x \<in> set xs. C x s2"
    using Cons.IH [of s1] Cons.prems assms(2) s1(2) by (meson list.set_intros(2))
  then show ?case using s1 W_trans C_stable by auto
qed

end

end
