(* ===== verification/Gql_Validate.thy ===== *)
theory Gql_Validate
  imports Gql_Parse Rust_BTree "HOL-Library.Monad_Syntax"
begin

text \<open>
  The operations-only validation rules of \<^verbatim>\<open>magna-gqlmin/src/validate.rs\<close>. A walker over the arena
  gives \<open>None\<close> when a projection panics or the fuel of the model is used up; both are excluded
  for parsed documents, whose nodes refer only to earlier nodes. Each rule is then shown to
  report exactly the documents that break it, where uses are followed through fragments.
\<close>

record validation_error =
  ve_rule :: string
  ve_span :: span
  ve_message :: string

definition RULE_NO_UNDEFINED_VARIABLES :: string where
  "RULE_NO_UNDEFINED_VARIABLES = ''NoUndefinedVariables''"
definition RULE_NO_UNUSED_VARIABLES :: string where
  "RULE_NO_UNUSED_VARIABLES = ''NoUnusedVariables''"
definition RULE_NO_UNUSED_FRAGMENTS :: string where
  "RULE_NO_UNUSED_FRAGMENTS = ''NoUnusedFragments''"
definition RULE_KNOWN_FRAGMENT_NAMES :: string where
  "RULE_KNOWN_FRAGMENT_NAMES = ''KnownFragmentNames''"
definition RULE_UNIQUE_OPERATION_NAMES :: string where
  "RULE_UNIQUE_OPERATION_NAMES = ''UniqueOperationNames''"

lemmas rule_names = RULE_NO_UNDEFINED_VARIABLES_def RULE_NO_UNUSED_VARIABLES_def RULE_NO_UNUSED_FRAGMENTS_def
  RULE_KNOWN_FRAGMENT_NAMES_def RULE_UNIQUE_OPERATION_NAMES_def

definition verror :: "string \<Rightarrow> span \<Rightarrow> string \<Rightarrow> validation_error" where
  "verror r s m = \<lparr>ve_rule = r, ve_span = s, ve_message = m\<rparr>"

lemma ve_rule_verror [simp]: "ve_rule (verror r s m) = r"
  by (simp add: verror_def)

section \<open>Variables\<close>

type_synonym uses = "(string, span) btree"
type_synonym fragments = "(string, fragment_definition) btree"

fun collect_uses_in_value :: "nat \<Rightarrow> document \<Rightarrow> gvalue \<Rightarrow> uses \<Rightarrow> uses option" where
  "collect_uses_in_value 0 doc v out = None"
| "collect_uses_in_value (Suc k) doc v out =
     (case v of
        VVariable n \<Rightarrow> Some (bt_or_insert (nm_value n) (nm_span n) out)
      | VList r \<Rightarrow> do { vs \<leftarrow> doc_list_values doc r; ofold (collect_uses_in_value k doc) vs out }
      | VObject r \<Rightarrow> do { fs \<leftarrow> doc_object_fields doc r; ofold (\<lambda>f. collect_uses_in_value k doc (obf_value f)) fs out }
      | _ \<Rightarrow> Some out)"

text \<open>The fuel for values: they nest at most as deep as there are nodes.\<close>

abbreviation value_fuel :: "document \<Rightarrow> nat" where
  "value_fuel doc \<equiv> Suc (length (doc_nodes doc))"

definition collect_uses_in_arguments :: "document \<Rightarrow> node_range \<Rightarrow> uses \<Rightarrow> uses option" where
  "collect_uses_in_arguments doc r out =
     do { args \<leftarrow> doc_arguments doc r; ofold (\<lambda>a. collect_uses_in_value (value_fuel doc) doc (arg_value a)) args out }"

definition collect_uses_in_directives :: "document \<Rightarrow> node_range \<Rightarrow> uses \<Rightarrow> uses option" where
  "collect_uses_in_directives doc r out =
     do { ds \<leftarrow> doc_directives doc r; ofold (\<lambda>d. collect_uses_in_arguments doc (dir_arguments d)) ds out }"

text \<open>The body of the loop of \<^verbatim>\<open>collect_uses_in_selection_set\<close>, given its recursive calls.\<close>

definition collect_uses_in_selection ::
    "(node_range \<Rightarrow> string set \<times> uses \<Rightarrow> (string set \<times> uses) option) \<Rightarrow> document \<Rightarrow> fragments \<Rightarrow>
     selection \<Rightarrow> string set \<times> uses \<Rightarrow> (string set \<times> uses) option" where
  "collect_uses_in_selection recurse doc frags sel = (\<lambda>(visited, out).
     case sel of
       SField f \<Rightarrow>
         do { out \<leftarrow> collect_uses_in_arguments doc (fld_arguments f) out;
              out \<leftarrow> collect_uses_in_directives doc (fld_directives f) out;
              (case fld_selection_set f of
                 None \<Rightarrow> Some (visited, out)
               | Some inner \<Rightarrow> recurse (ss_selections inner) (visited, out)) }
     | SFragmentSpread fs \<Rightarrow>
         do { out \<leftarrow> collect_uses_in_directives doc (fsp_directives fs) out;
              if nm_value (fsp_name fs) \<in> visited then Some (visited, out)
              else
                (let visited = insert (nm_value (fsp_name fs)) visited in
                 case bt_get frags (nm_value (fsp_name fs)) of
                   None \<Rightarrow> Some (visited, out)
                 | Some frag \<Rightarrow>
                     do { out \<leftarrow> collect_uses_in_directives doc (frd_directives frag) out;
                          recurse (ss_selections (frd_selection_set frag)) (visited, out) }) }
     | SInlineFragment inl \<Rightarrow>
         do { out \<leftarrow> collect_uses_in_directives doc (ifr_directives inl) out;
              recurse (ss_selections (ifr_selection_set inl)) (visited, out) })"

fun collect_uses_in_selection_set ::
    "nat \<Rightarrow> document \<Rightarrow> fragments \<Rightarrow> node_range \<Rightarrow> string set \<times> uses \<Rightarrow> (string set \<times> uses) option" where
  "collect_uses_in_selection_set 0 doc frags r s = None"
| "collect_uses_in_selection_set (Suc k) doc frags r s =
     do { sels \<leftarrow> doc_selections doc r;
          ofold (collect_uses_in_selection (collect_uses_in_selection_set k doc frags) doc frags) sels s }"

text \<open>The fuel for selection sets: each fragment is entered at most once.\<close>

definition selection_fuel :: "document \<Rightarrow> fragments \<Rightarrow> nat" where
  "selection_fuel doc frags = (length frags + 1) * value_fuel doc"

definition collect_uses_in_variable :: "document \<Rightarrow> variable_definition \<Rightarrow> uses \<Rightarrow> uses option" where
  "collect_uses_in_variable doc vd out =
     do { out \<leftarrow> (case vd_default_value vd of
                      None \<Rightarrow> Some out
                    | Some dv \<Rightarrow> collect_uses_in_value (value_fuel doc) doc dv out);
          collect_uses_in_directives doc (vd_directives vd) out }"

text \<open>\<^verbatim>\<open>declared_order\<close> with \<^verbatim>\<open>declared_spans\<close>: a name is listed at its first declaration, its span is that of
  the last.\<close>

definition declare_variable :: "variable_definition \<Rightarrow> string list \<times> uses \<Rightarrow> string list \<times> uses" where
  "declare_variable vd = (\<lambda>(order, spans).
     ((if bt_contains spans (nm_value (vd_name vd)) then order else order @ [nm_value (vd_name vd)]),
      bt_insert (nm_value (vd_name vd)) (nm_span (vd_name vd)) spans))"

definition operation_uses :: "document \<Rightarrow> fragments \<Rightarrow> operation_definition \<Rightarrow> variable_definition list \<Rightarrow> uses option" where
  "operation_uses doc frags op vds =
     do { used \<leftarrow> collect_uses_in_directives doc (opd_directives op) [];
          (_, used) \<leftarrow> collect_uses_in_selection_set (selection_fuel doc frags) doc frags
             (ss_selections (opd_selection_set op)) ({}, used);
          ofold (collect_uses_in_variable doc) vds used }"

definition undefined_errors :: "uses \<Rightarrow> uses \<Rightarrow> validation_error list" where
  "undefined_errors spans used =
     map (\<lambda>(n, sp). verror RULE_NO_UNDEFINED_VARIABLES sp ''variable is used but not declared in the operation'')
       (filter (\<lambda>(n, sp). \<not> bt_contains spans n) used)"

definition unused_errors :: "string list \<Rightarrow> uses \<Rightarrow> uses \<Rightarrow> validation_error list option" where
  "unused_errors order spans used =
     ofold (\<lambda>n errors.
       if bt_contains used n then Some errors
       else do { sp \<leftarrow> bt_get spans n;
                 Some (errors @ [verror RULE_NO_UNUSED_VARIABLES sp ''variable is declared but never used'']) }) order []"

definition check_variables_for_operation ::
    "document \<Rightarrow> fragments \<Rightarrow> operation_definition \<Rightarrow> validation_error list \<Rightarrow> validation_error list option" where
  "check_variables_for_operation doc frags op errors =
     do { vds \<leftarrow> doc_variable_definitions doc (opd_variable_definitions op);
          let (order, spans) = fold declare_variable vds ([], []);
          used \<leftarrow> operation_uses doc frags op vds;
          unused \<leftarrow> unused_errors order spans used;
          Some (errors @ undefined_errors spans used @ unused) }"

section \<open>Operation names\<close>

definition anonymous_errors :: "operation_definition list \<Rightarrow> validation_error list" where
  "anonymous_errors ops =
     (if 1 < length ops
      then map (\<lambda>op. verror RULE_UNIQUE_OPERATION_NAMES (opd_span op)
                  ''anonymous operation is only allowed when it is the sole operation'')
             (filter (\<lambda>op. opd_name op = None) ops)
      else [])"

fun duplicate_errors :: "string set \<Rightarrow> operation_definition list \<Rightarrow> validation_error list" where
  "duplicate_errors seen [] = []"
| "duplicate_errors seen (op # ops) =
     (case opd_name op of
        None \<Rightarrow> duplicate_errors seen ops
      | Some n \<Rightarrow>
          if nm_value n \<in> seen
          then verror RULE_UNIQUE_OPERATION_NAMES (nm_span n) ''operation name is reused; operation names must be unique''
                 # duplicate_errors seen ops
          else duplicate_errors (insert (nm_value n) seen) ops)"

definition check_unique_operation_names :: "operation_definition list \<Rightarrow> validation_error list" where
  "check_unique_operation_names ops = anonymous_errors ops @ duplicate_errors {} ops"

section \<open>Fragments\<close>

type_synonym counts = "(string, nat) btree"

text \<open>The body of the loop of \<^verbatim>\<open>walk_fragment_spreads\<close>, given its recursive calls.\<close>

definition walk_spread ::
    "(node_range \<Rightarrow> counts \<times> validation_error list \<Rightarrow> (counts \<times> validation_error list) option) \<Rightarrow> fragments \<Rightarrow>
     selection \<Rightarrow> counts \<times> validation_error list \<Rightarrow> (counts \<times> validation_error list) option" where
  "walk_spread recurse frags sel = (\<lambda>(counts, errors).
     case sel of
       SField f \<Rightarrow>
         (case fld_selection_set f of
            None \<Rightarrow> Some (counts, errors)
          | Some inner \<Rightarrow> recurse (ss_selections inner) (counts, errors))
     | SFragmentSpread fs \<Rightarrow>
         (let n = nm_value (fsp_name fs) in
          if bt_contains frags n
          then Some (bt_insert n (case bt_get counts n of None \<Rightarrow> 1 | Some c \<Rightarrow> c + 1) counts, errors)
          else Some (counts, errors @ [verror RULE_KNOWN_FRAGMENT_NAMES (nm_span (fsp_name fs))
                                         ''fragment spread references an undefined fragment'']))
     | SInlineFragment inl \<Rightarrow> recurse (ss_selections (ifr_selection_set inl)) (counts, errors))"

fun walk_fragment_spreads ::
    "nat \<Rightarrow> document \<Rightarrow> fragments \<Rightarrow> node_range \<Rightarrow> counts \<times> validation_error list \<Rightarrow> (counts \<times> validation_error list) option" where
  "walk_fragment_spreads 0 doc frags r s = None"
| "walk_fragment_spreads (Suc k) doc frags r s =
     do { sels \<leftarrow> doc_selections doc r; ofold (walk_spread (walk_fragment_spreads k doc frags) frags) sels s }"

definition unused_fragment_errors :: "fragment_definition list \<Rightarrow> counts \<Rightarrow> validation_error list" where
  "unused_fragment_errors frs counts =
     map (\<lambda>f. verror RULE_NO_UNUSED_FRAGMENTS (frd_span f) ''fragment is defined but never spread'')
       (filter (\<lambda>f. (case bt_get counts (nm_value (frd_name f)) of None \<Rightarrow> 0 | Some c \<Rightarrow> c) = 0) frs)"

section \<open>All operation rules\<close>

definition doc_operations :: "gdefinition list \<Rightarrow> operation_definition list" where
  "doc_operations defs = concat (map (\<lambda>d. case d of DOperation op \<Rightarrow> [op] | DFragment f \<Rightarrow> []) defs)"

definition doc_fragments :: "gdefinition list \<Rightarrow> fragment_definition list" where
  "doc_fragments defs = concat (map (\<lambda>d. case d of DOperation op \<Rightarrow> [] | DFragment f \<Rightarrow> [f]) defs)"

definition fragments_by_name :: "fragment_definition list \<Rightarrow> fragments" where
  "fragments_by_name frs = fold (\<lambda>f. bt_insert (nm_value (frd_name f)) f) frs []"

definition zero_counts :: "fragment_definition list \<Rightarrow> counts" where
  "zero_counts frs = fold (\<lambda>f. bt_insert (nm_value (frd_name f)) 0) frs []"

definition validate_operations :: "document \<Rightarrow> validation_error list option" where
  "validate_operations doc =
     do { defs \<leftarrow> doc_definitions doc;
          let ops = doc_operations defs;
          let frs = doc_fragments defs;
          let frags = fragments_by_name frs;
          errors \<leftarrow> ofold (check_variables_for_operation doc frags) ops (check_unique_operation_names ops);
          s \<leftarrow> ofold (\<lambda>op. walk_fragment_spreads (value_fuel doc) doc frags (ss_selections (opd_selection_set op)))
                 ops (zero_counts frs, errors);
          (counts, errors) \<leftarrow> ofold (\<lambda>f. walk_fragment_spreads (value_fuel doc) doc frags (ss_selections (frd_selection_set f)))
                 frs s;
          Some (errors @ unused_fragment_errors frs counts) }"

section \<open>Reading a well-formed arena\<close>

definition wf_doc :: "document \<Rightarrow> bool" where
  "wf_doc doc \<longleftrightarrow> children_first (doc_nodes doc) \<and>
     range_ok project_definition (doc_nodes doc) (doc_definitions_range doc)"

lemma parsed_wf_doc:
  "2 * length src < 2 ^ 32 \<Longrightarrow> parse_executable_document src = Some (Inr doc) \<Longrightarrow> wf_doc doc"
  using parse_ok by (simp add: wf_doc_def)

lemma arena_slice_index:
  assumes "unat (nr_start r) + unat (nr_len r) \<le> j" and "j \<le> length ns" and "n \<in> set (arena_slice ns r)"
  shows "\<exists>i < j. n = ns ! i"
proof -
  let ?s = "unat (nr_start r)" and ?l = "unat (nr_len r)"
  have "n \<in> set (take ?l (drop ?s ns))" using assms by (simp add: arena_slice_def Let_def sub_def)
  then obtain i where "i < ?l" "i + ?s < length ns" "n = ns ! (?s + i)"
    by (auto simp: in_set_conv_nth)
  with assms(1) show ?thesis by (intro exI [of _ "?s + i"]) auto
qed

text \<open>A range that refers to the nodes before position \<open>j\<close> can be read, and each element was stored at
  some position before \<open>j\<close>, referring only to nodes before that.\<close>

lemma read_before:
  assumes "children_first (doc_nodes doc)" and "range_ok f (take j (doc_nodes doc)) r"
  shows "\<exists>vs. slice_read f doc r = Some vs \<and>
    (\<forall>v \<in> set vs. \<exists>i < j. \<exists>n. f n = Some v \<and> node_ok (take i (doc_nodes doc)) n)"
proof -
  let ?ns = "doc_nodes doc"
  let ?j = "min j (length ?ns)"
  have ok: "range_ok f ?ns r" using range_ok_append [OF assms(2), of "drop j ?ns"] by simp
  then have vs: "slice_read f doc r = Some (map (the \<circ> f) (arena_slice ?ns r))"
    by (simp add: slice_read_def range_ok_def project_all_total)
  have "\<exists>i < j. \<exists>n. f n = Some v \<and> node_ok (take i ?ns) n" if "v \<in> set (map (the \<circ> f) (arena_slice ?ns r))" for v
  proof -
    from that obtain n where n: "n \<in> set (arena_slice ?ns r)" "v = the (f n)" by auto
    then have "f n = Some v" using ok by (auto simp: range_ok_def list_all_iff)
    moreover obtain i where "i < ?j" "n = ?ns ! i"
      using arena_slice_index [of r ?j ?ns n] assms(2) n(1) by (auto simp: range_ok_def min.commute)
    ultimately show ?thesis using assms(1) by (auto simp: children_first_def)
  qed
  with vs show ?thesis by blast
qed

lemma project_node:
  "project_value n = Some v \<Longrightarrow> node_ok ns n \<Longrightarrow> value_ok ns v"
  "project_object_field n = Some f \<Longrightarrow> node_ok ns n \<Longrightarrow> value_ok ns (obf_value f)"
  "project_argument n = Some a \<Longrightarrow> node_ok ns n \<Longrightarrow> value_ok ns (arg_value a)"
  "project_directive n = Some d \<Longrightarrow> node_ok ns n \<Longrightarrow> range_ok project_argument ns (dir_arguments d)"
  "project_selection n = Some s \<Longrightarrow> node_ok ns n \<Longrightarrow> selection_ok ns s"
  "project_definition n = Some df \<Longrightarrow> node_ok ns n \<Longrightarrow> definition_ok ns df"
  "project_variable_definition n = Some vd \<Longrightarrow> node_ok ns n \<Longrightarrow> range_ok project_directive ns (vd_directives vd) \<and>
     (case vd_default_value vd of None \<Rightarrow> True | Some w \<Rightarrow> value_ok ns w \<and> const_value ns w)"
  by (cases n; simp)+

lemma reads:
  assumes "children_first (doc_nodes doc)"
  shows "range_ok project_value (take j (doc_nodes doc)) r \<Longrightarrow>
      \<exists>vs. doc_list_values doc r = Some vs \<and> (\<forall>v \<in> set vs. \<exists>i < j. value_ok (take i (doc_nodes doc)) v)"
    and "range_ok project_object_field (take j (doc_nodes doc)) r \<Longrightarrow>
      \<exists>vs. doc_object_fields doc r = Some vs \<and> (\<forall>v \<in> set vs. \<exists>i < j. value_ok (take i (doc_nodes doc)) (obf_value v))"
    and "range_ok project_argument (take j (doc_nodes doc)) r \<Longrightarrow>
      \<exists>vs. doc_arguments doc r = Some vs \<and> (\<forall>v \<in> set vs. \<exists>i < j. value_ok (take i (doc_nodes doc)) (arg_value v))"
    and "range_ok project_directive (take j (doc_nodes doc)) r \<Longrightarrow>
      \<exists>vs. doc_directives doc r = Some vs \<and> (\<forall>v \<in> set vs. \<exists>i < j. range_ok project_argument (take i (doc_nodes doc)) (dir_arguments v))"
    and "range_ok project_selection (take j (doc_nodes doc)) r \<Longrightarrow>
      \<exists>vs. doc_selections doc r = Some vs \<and> (\<forall>v \<in> set vs. \<exists>i < j. selection_ok (take i (doc_nodes doc)) v)"
  unfolding accessor_defs by (drule read_before [OF assms], blast dest: project_node)+

lemma ok_mono:
  assumes "i \<le> j"
  shows "range_ok f (take i ns) r \<Longrightarrow> range_ok f (take j ns) r"
    and "value_ok (take i ns) v \<Longrightarrow> value_ok (take j ns) v"
    and "set_ok (take i ns) s \<Longrightarrow> set_ok (take j ns) s"
proof -
  have "take j ns = take i ns @ take (j - i) (drop i ns)" using assms by (metis le_add_diff_inverse take_add)
  then show "range_ok f (take i ns) r \<Longrightarrow> range_ok f (take j ns) r" "value_ok (take i ns) v \<Longrightarrow> value_ok (take j ns) v"
    "set_ok (take i ns) s \<Longrightarrow> set_ok (take j ns) s"
    using range_ok_append value_ok_append set_ok_append by metis+
qed

section \<open>Uses of variables\<close>

inductive value_uses :: "document \<Rightarrow> string \<Rightarrow> gvalue \<Rightarrow> bool" for doc x where
  "nm_value n = x \<Longrightarrow> value_uses doc x (VVariable n)"
| "doc_list_values doc r = Some vs \<Longrightarrow> v \<in> set vs \<Longrightarrow> value_uses doc x v \<Longrightarrow> value_uses doc x (VList r)"
| "doc_object_fields doc r = Some fs \<Longrightarrow> f \<in> set fs \<Longrightarrow> value_uses doc x (obf_value f) \<Longrightarrow> value_uses doc x (VObject r)"

inductive_simps value_uses_simps [simp]:
  "value_uses doc x (VVariable n)" "value_uses doc x (VList r)" "value_uses doc x (VObject r)"
  "value_uses doc x (VInt i)" "value_uses doc x (VFloat i)" "value_uses doc x (VString sv)"
  "value_uses doc x (VBoolean b)" "value_uses doc x VNull" "value_uses doc x (VEnum n)"

definition arguments_use :: "document \<Rightarrow> string \<Rightarrow> node_range \<Rightarrow> bool" where
  "arguments_use doc x r \<longleftrightarrow> (\<exists>args. doc_arguments doc r = Some args \<and> (\<exists>a \<in> set args. value_uses doc x (arg_value a)))"

definition directives_use :: "document \<Rightarrow> string \<Rightarrow> node_range \<Rightarrow> bool" where
  "directives_use doc x r \<longleftrightarrow> (\<exists>ds. doc_directives doc r = Some ds \<and> (\<exists>d \<in> set ds. arguments_use doc x (dir_arguments d)))"

text \<open>A collector adds names to the uses.\<close>

abbreviation adds :: "(uses \<Rightarrow> uses option) \<Rightarrow> (string \<Rightarrow> bool) \<Rightarrow> bool" where
  "adds \<equiv> adds_by bt_contains"

lemma adds_value:
  assumes "children_first (doc_nodes doc)" and "value_ok (take i (doc_nodes doc)) v" and "i < k"
  shows "adds (collect_uses_in_value k doc v) (\<lambda>x. value_uses doc x v)"
  using assms(2,3)
proof (induction k arbitrary: i v)
  case (Suc k)
  show ?case
  proof (cases v)
    case (VVariable n)
    then show ?thesis by (auto simp: adds_by_def)
  next
    case (VList r)
    then obtain vs where vs: "doc_list_values doc r = Some vs" "\<forall>v \<in> set vs. \<exists>i' < i. value_ok (take i' (doc_nodes doc)) v"
      using reads(1) [OF assms(1), of i r] Suc.prems(1) by auto
    have "adds (ofold (collect_uses_in_value k doc) vs) (\<lambda>x. \<exists>v \<in> set vs. value_uses doc x v)"
      by (rule adds_by_ofold) (use vs(2) Suc in fastforce)
    with VList vs(1) show ?thesis by (simp add: adds_by_def Bex_def)
  next
    case (VObject r)
    then obtain fs where fs: "doc_object_fields doc r = Some fs"
      "\<forall>f \<in> set fs. \<exists>i' < i. value_ok (take i' (doc_nodes doc)) (obf_value f)"
      using reads(2) [OF assms(1), of i r] Suc.prems(1) by auto
    have "adds (ofold (\<lambda>f. collect_uses_in_value k doc (obf_value f)) fs) (\<lambda>x. \<exists>f \<in> set fs. value_uses doc x (obf_value f))"
      by (rule adds_by_ofold) (use fs(2) Suc in fastforce)
    with VObject fs(1) show ?thesis by (simp add: adds_by_def Bex_def)
  qed (auto simp: adds_by_def)
qed simp

lemma adds_arguments:
  assumes "children_first (doc_nodes doc)" and "range_ok project_argument (doc_nodes doc) r"
  shows "adds (collect_uses_in_arguments doc r) (\<lambda>x. arguments_use doc x r)"
proof -
  let ?N = "length (doc_nodes doc)"
  obtain args where args: "doc_arguments doc r = Some args"
    "\<forall>a \<in> set args. \<exists>i < ?N. value_ok (take i (doc_nodes doc)) (arg_value a)"
    using reads(3) [OF assms(1), of ?N r] assms(2) by auto
  have "adds (ofold (\<lambda>a. collect_uses_in_value (value_fuel doc) doc (arg_value a)) args)
      (\<lambda>x. \<exists>a \<in> set args. value_uses doc x (arg_value a))"
    by (rule adds_by_ofold) (use args(2) adds_value [OF assms(1)] less_Suc_eq in metis)
  with args(1) show ?thesis by (auto simp: adds_by_def collect_uses_in_arguments_def arguments_use_def)
qed

lemma adds_directives:
  assumes "children_first (doc_nodes doc)" and "range_ok project_directive (doc_nodes doc) r"
  shows "adds (collect_uses_in_directives doc r) (\<lambda>x. directives_use doc x r)"
proof -
  let ?N = "length (doc_nodes doc)"
  obtain ds where ds: "doc_directives doc r = Some ds"
    "\<forall>d \<in> set ds. \<exists>i < ?N. range_ok project_argument (take i (doc_nodes doc)) (dir_arguments d)"
    using reads(4) [OF assms(1), of ?N r] assms(2) by auto
  have "adds (ofold (\<lambda>d. collect_uses_in_arguments doc (dir_arguments d)) ds) (\<lambda>x. \<exists>d \<in> set ds. arguments_use doc x (dir_arguments d))"
  proof (rule adds_by_ofold, rule adds_arguments [OF assms(1)])
    fix d
    assume "d \<in> set ds"
    then obtain i where "i < ?N" "range_ok project_argument (take i (doc_nodes doc)) (dir_arguments d)" using ds(2) by blast
    then show "range_ok project_argument (doc_nodes doc) (dir_arguments d)" using ok_mono(1) [of i ?N project_argument "doc_nodes doc"] by simp
  qed
  with ds(1) show ?thesis by (auto simp: adds_by_def collect_uses_in_directives_def directives_use_def)
qed

text \<open>The selections of a set, at any depth of fields and inline fragments.\<close>

inductive inside :: "document \<Rightarrow> node_range \<Rightarrow> selection \<Rightarrow> bool" for doc where
  here: "doc_selections doc r = Some sels \<Longrightarrow> sel \<in> set sels \<Longrightarrow> inside doc r sel"
| in_field: "doc_selections doc r = Some sels \<Longrightarrow> SField f \<in> set sels \<Longrightarrow> fld_selection_set f = Some ss \<Longrightarrow>
    inside doc (ss_selections ss) sel \<Longrightarrow> inside doc r sel"
| in_inline: "doc_selections doc r = Some sels \<Longrightarrow> SInlineFragment i \<in> set sels \<Longrightarrow>
    inside doc (ss_selections (ifr_selection_set i)) sel \<Longrightarrow> inside doc r sel"

fun nested :: "selection \<Rightarrow> node_range option" where
  "nested (SField f) = map_option ss_selections (fld_selection_set f)"
| "nested (SFragmentSpread s) = None"
| "nested (SInlineFragment i) = Some (ss_selections (ifr_selection_set i))"

text \<open>The same in terms of one level.\<close>

lemma inside_iff:
  assumes "doc_selections doc r = Some sels"
  shows "inside doc r sel \<longleftrightarrow> (\<exists>s \<in> set sels. s = sel \<or> (\<exists>r'. nested s = Some r' \<and> inside doc r' sel))"
proof
  assume "inside doc r sel"
  then show "\<exists>s \<in> set sels. s = sel \<or> (\<exists>r'. nested s = Some r' \<and> inside doc r' sel)"
  proof cases
    case (here sels')
    then show ?thesis using assms by auto
  next
    case (in_field sels' f ss)
    then show ?thesis using assms by (intro bexI [of _ "SField f"]) auto
  next
    case (in_inline sels' i)
    then show ?thesis using assms by (intro bexI [of _ "SInlineFragment i"]) auto
  qed
next
  assume "\<exists>s \<in> set sels. s = sel \<or> (\<exists>r'. nested s = Some r' \<and> inside doc r' sel)"
  then obtain s where s: "s \<in> set sels" "s = sel \<or> (\<exists>r'. nested s = Some r' \<and> inside doc r' sel)" by blast
  then show "inside doc r sel"
    by (cases s rule: selection.exhaust) (auto intro: inside.intros [OF assms])
qed

fun sel_uses :: "document \<Rightarrow> string \<Rightarrow> selection \<Rightarrow> bool" where
  "sel_uses doc x (SField f) \<longleftrightarrow> arguments_use doc x (fld_arguments f) \<or> directives_use doc x (fld_directives f)"
| "sel_uses doc x (SFragmentSpread s) \<longleftrightarrow> directives_use doc x (fsp_directives s)"
| "sel_uses doc x (SInlineFragment i) \<longleftrightarrow> directives_use doc x (ifr_directives i)"

text \<open>A variable is used in a selection set if it occurs in a selection of it, or in a fragment that is
  spread in it.\<close>

inductive set_uses :: "document \<Rightarrow> fragments \<Rightarrow> string \<Rightarrow> node_range \<Rightarrow> bool" for doc frags x where
  uses_here: "inside doc r sel \<Longrightarrow> sel_uses doc x sel \<Longrightarrow> set_uses doc frags x r"
| uses_header: "inside doc r (SFragmentSpread s) \<Longrightarrow> bt_get frags (nm_value (fsp_name s)) = Some frag \<Longrightarrow>
    directives_use doc x (frd_directives frag) \<Longrightarrow> set_uses doc frags x r"
| uses_spread: "inside doc r (SFragmentSpread s) \<Longrightarrow> bt_get frags (nm_value (fsp_name s)) = Some frag \<Longrightarrow>
    set_uses doc frags x (ss_selections (frd_selection_set frag)) \<Longrightarrow> set_uses doc frags x r"

lemma set_uses_nested:
  assumes "doc_selections doc r = Some sels" and "s \<in> set sels" and "nested s = Some r'" and "set_uses doc frags x r'"
  shows "set_uses doc frags x r"
  using assms(4) inside_iff [OF assms(1)] assms(2,3) by cases (blast intro: set_uses.intros)+

text \<open>What a walk has achieved: the selection is covered, and so is each visited fragment.\<close>

definition covers_sel :: "document \<Rightarrow> string set \<Rightarrow> uses \<Rightarrow> selection \<Rightarrow> bool" where
  "covers_sel doc V out sel \<longleftrightarrow> (\<forall>x. sel_uses doc x sel \<longrightarrow> bt_contains out x) \<and>
     (\<forall>s. sel = SFragmentSpread s \<longrightarrow> nm_value (fsp_name s) \<in> V)"

definition covers :: "document \<Rightarrow> string set \<Rightarrow> uses \<Rightarrow> node_range \<Rightarrow> bool" where
  "covers doc V out r \<longleftrightarrow> (\<forall>sel. inside doc r sel \<longrightarrow> covers_sel doc V out sel)"

definition covers_frag :: "document \<Rightarrow> fragments \<Rightarrow> string set \<Rightarrow> uses \<Rightarrow> string \<Rightarrow> bool" where
  "covers_frag doc frags V out n \<longleftrightarrow> (\<forall>frag. bt_get frags n = Some frag \<longrightarrow>
     (\<forall>x. directives_use doc x (frd_directives frag) \<longrightarrow> bt_contains out x) \<and>
     covers doc V out (ss_selections (frd_selection_set frag)))"

definition covers_deep :: "document \<Rightarrow> string set \<Rightarrow> uses \<Rightarrow> selection \<Rightarrow> bool" where
  "covers_deep doc V out sel \<longleftrightarrow> covers_sel doc V out sel \<and> (\<forall>r. nested sel = Some r \<longrightarrow> covers doc V out r)"

lemma covers_iff:
  "doc_selections doc r = Some sels \<Longrightarrow> covers doc V out r \<longleftrightarrow> (\<forall>sel \<in> set sels. covers_deep doc V out sel)"
  unfolding covers_def covers_deep_def by (simp add: inside_iff) blast

text \<open>A walk from \<open>(V, out)\<close> to \<open>(V', out')\<close> that only adds names satisfying \<open>U\<close>.\<close>

definition walked :: "document \<Rightarrow> fragments \<Rightarrow> (string \<Rightarrow> bool) \<Rightarrow> string set \<times> uses \<Rightarrow> string set \<times> uses \<Rightarrow> bool" where
  "walked doc frags U = (\<lambda>(V, out) (V', out'). V \<subseteq> V' \<and> (\<forall>x. bt_contains out x \<longrightarrow> bt_contains out' x) \<and>
     (\<forall>n \<in> V' - V. covers_frag doc frags V' out' n) \<and> (\<forall>x. bt_contains out' x \<longrightarrow> bt_contains out x \<or> U x))"

lemma covers_mono:
  assumes "V \<subseteq> V'" and "\<And>x. bt_contains out x \<Longrightarrow> bt_contains out' x"
  shows "covers_sel doc V out sel \<Longrightarrow> covers_sel doc V' out' sel"
    and "covers doc V out r \<Longrightarrow> covers doc V' out' r"
    and "covers_frag doc frags V out n \<Longrightarrow> covers_frag doc frags V' out' n"
    and "covers_deep doc V out sel \<Longrightarrow> covers_deep doc V' out' sel"
  using assms by (auto simp: covers_sel_def covers_def covers_frag_def covers_deep_def; blast)+

lemma walked_mono:
  assumes "walked doc frags U (V, out) (V', out')"
  shows "covers_sel doc V out sel \<Longrightarrow> covers_sel doc V' out' sel"
    and "covers doc V out r \<Longrightarrow> covers doc V' out' r"
    and "covers_frag doc frags V out n \<Longrightarrow> covers_frag doc frags V' out' n"
    and "covers_deep doc V out sel \<Longrightarrow> covers_deep doc V' out' sel"
  using assms covers_mono [of V V' out out'] by (auto simp: walked_def)

lemma walked_refl [simp]: "walked doc frags U s s"
  by (simp add: walked_def split: prod.split)

lemma walked_weaken: "walked doc frags U s s' \<Longrightarrow> (\<And>x. U x \<Longrightarrow> W x) \<Longrightarrow> walked doc frags W s s'"
  by (auto simp: walked_def split: prod.splits)

lemma walked_trans:
  assumes "walked doc frags U s s1" and "walked doc frags U s1 s2"
  shows "walked doc frags U s s2"
proof -
  obtain V out V1 out1 V2 out2 where s: "s = (V, out)" "s1 = (V1, out1)" "s2 = (V2, out2)" by (metis surj_pair)
  have "covers_frag doc frags V2 out2 n" if "n \<in> V1 - V" for n
    using that assms walked_mono(3) [of doc frags U V1 out1 V2 out2 n] by (simp add: s walked_def)
  then show ?thesis using assms by (auto simp: s walked_def; blast)
qed

lemma adds_walked:
  assumes "adds f W" and "\<And>x. W x \<Longrightarrow> U x"
  obtains out' where "f out = Some out'" and "walked doc frags U (V, out) (V, out')"
    and "\<And>x. W x \<Longrightarrow> bt_contains out' x"
proof -
  obtain out' where "f out = Some out'" "\<And>x. bt_contains out' x \<longleftrightarrow> bt_contains out x \<or> W x"
    using assms(1) unfolding adds_by_def by blast
  with that [of out'] assms(2) show thesis by (auto simp: walked_def)
qed

lemma ok_whole:
  "range_ok f (take i ns) r \<Longrightarrow> range_ok f ns r" "set_ok (take i ns) ss \<Longrightarrow> set_ok ns ss"
  using range_ok_append [of f "take i ns" r "drop i ns"] set_ok_append [of "take i ns" ss "drop i ns"] by simp_all

text \<open>Fragments come from the definitions of the document.\<close>

definition frags_ok :: "document \<Rightarrow> fragments \<Rightarrow> bool" where
  "frags_ok doc frags \<longleftrightarrow> children_first (doc_nodes doc) \<and>
     (\<forall>n frag. bt_get frags n = Some frag \<longrightarrow> definition_ok (doc_nodes doc) (DFragment frag))"

text \<open>What is asked of the recursive calls of a walk that is bounded by \<open>B\<close>.\<close>

definition rec_set :: "document \<Rightarrow> fragments \<Rightarrow> (node_range \<Rightarrow> string set \<times> uses \<Rightarrow> (string set \<times> uses) option) \<Rightarrow>
    node_range \<Rightarrow> string set \<times> uses \<Rightarrow> bool" where
  "rec_set doc frags recurse r s \<longleftrightarrow> (\<exists>s'. recurse r s = Some s' \<and>
     walked doc frags (\<lambda>x. set_uses doc frags x r) s s' \<and> covers doc (fst s') (snd s') r)"

text \<open>Entering a fragment that was not visited.\<close>

lemma walk_fragment:
  assumes ok: "frags_ok doc frags" and n: "n \<notin> V" "bt_get frags n = Some frag"
    and recurse: "\<And>out. rec_set doc frags recurse (ss_selections (frd_selection_set frag)) (insert n V, out)"
    and U: "\<And>x. directives_use doc x (frd_directives frag) \<Longrightarrow> U x"
      "\<And>x. set_uses doc frags x (ss_selections (frd_selection_set frag)) \<Longrightarrow> U x"
  shows "\<exists>V' out'. do { out \<leftarrow> collect_uses_in_directives doc (frd_directives frag) out;
      recurse (ss_selections (frd_selection_set frag)) (insert n V, out) } = Some (V', out') \<and>
    walked doc frags U (V, out) (V', out') \<and> n \<in> V'"
proof -
  have "range_ok project_directive (doc_nodes doc) (frd_directives frag)" "children_first (doc_nodes doc)"
    using ok n(2) by (auto simp: frags_ok_def)
  then obtain out1 where o1: "collect_uses_in_directives doc (frd_directives frag) out = Some out1"
    "\<And>x. bt_contains out1 x \<longleftrightarrow> bt_contains out x \<or> directives_use doc x (frd_directives frag)"
    using adds_byE [OF adds_directives, of doc "frd_directives frag" out] by blast
  obtain V' out' where r: "recurse (ss_selections (frd_selection_set frag)) (insert n V, out1) = Some (V', out')"
    "walked doc frags (\<lambda>x. set_uses doc frags x (ss_selections (frd_selection_set frag))) (insert n V, out1) (V', out')"
    "covers doc V' out' (ss_selections (frd_selection_set frag))"
    using recurse [of out1] by (auto simp: rec_set_def)
  have "covers_frag doc frags V' out' n" using n(2) o1 r(2,3) by (auto simp: covers_frag_def walked_def)
  then have "\<forall>m \<in> V' - V. covers_frag doc frags V' out' m" using r(2) by (auto simp: walked_def)
  moreover have "V \<subseteq> V'" using r(2) by (auto simp: walked_def)
  moreover have "bt_contains out' x" if "bt_contains out x" for x using that o1(2) r(2) by (simp add: walked_def)
  moreover have "bt_contains out x \<or> U x" if "bt_contains out' x" for x
    using that o1(2) r(2) U unfolding walked_def by blast
  ultimately have "walked doc frags U (V, out) (V', out')" by (simp add: walked_def)
  moreover have "n \<in> V'" using r(2) by (auto simp: walked_def)
  ultimately show ?thesis using o1 r(1) by simp
qed

text \<open>One selection, given recursive calls for its nested set and for the fragment it may spread.\<close>

lemma collect_selection:
  assumes ok: "frags_ok doc frags" and sel: "selection_ok (doc_nodes doc) sel"
    and sels: "doc_selections doc r = Some sels" "sel \<in> set sels"
    and inner: "\<And>r' out. nested sel = Some r' \<Longrightarrow> rec_set doc frags recurse r' (V, out)"
    and frag: "\<And>n fr out. bt_get frags n = Some fr \<Longrightarrow> n \<notin> V \<Longrightarrow>
      rec_set doc frags recurse (ss_selections (frd_selection_set fr)) (insert n V, out)"
  shows "\<exists>s'. collect_uses_in_selection recurse doc frags sel (V, out) = Some s' \<and>
    walked doc frags (\<lambda>x. set_uses doc frags x r) (V, out) s' \<and> covers_deep doc (fst s') (snd s') sel"
proof -
  let ?U = "\<lambda>x. set_uses doc frags x r"
  have cf: "children_first (doc_nodes doc)" using ok by (simp add: frags_ok_def)
  have here: "inside doc r sel" by (rule inside.here [OF sels])
  have nested: "\<exists>s'. recurse r' (V, out1) = Some s' \<and> walked doc frags ?U (V, out1) s' \<and> covers doc (fst s') (snd s') r'"
    if nr: "nested sel = Some r'" for r' out1
  proof -
    obtain s' where s': "recurse r' (V, out1) = Some s'" "covers doc (fst s') (snd s') r'"
      "walked doc frags (\<lambda>x. set_uses doc frags x r') (V, out1) s'"
      using inner [OF nr, of out1] by (auto simp: rec_set_def)
    have "walked doc frags ?U (V, out1) s'" by (rule walked_weaken [OF s'(3)]) (rule set_uses_nested [OF sels nr])
    with s' show ?thesis by blast
  qed
  show ?thesis
  proof (cases sel)
    case (SField f)
    have use: "arguments_use doc x (fld_arguments f) \<or> directives_use doc x (fld_directives f) \<Longrightarrow> ?U x" for x
      using uses_here [OF here] SField by auto
    have rng: "range_ok project_argument (doc_nodes doc) (fld_arguments f)" "range_ok project_directive (doc_nodes doc) (fld_directives f)"
      using sel SField by auto
    obtain out1 where o1: "collect_uses_in_arguments doc (fld_arguments f) out = Some out1"
      "walked doc frags ?U (V, out) (V, out1)" "\<And>x. arguments_use doc x (fld_arguments f) \<Longrightarrow> bt_contains out1 x"
      using adds_walked [OF adds_arguments [OF cf rng(1)], of ?U out doc frags V] use by blast
    obtain out2 where o2: "collect_uses_in_directives doc (fld_directives f) out1 = Some out2"
      "walked doc frags ?U (V, out1) (V, out2)" "\<And>x. directives_use doc x (fld_directives f) \<Longrightarrow> bt_contains out2 x"
      using adds_walked [OF adds_directives [OF cf rng(2)], of ?U out1 doc frags V] use by blast
    note w = walked_trans [OF o1(2) o2(2)]
    have c: "covers_sel doc V out2 sel" using SField o1 o2 by (auto simp: covers_sel_def walked_def)
    show ?thesis
    proof (cases "fld_selection_set f")
      case None
      then show ?thesis using SField o1 o2 w c by (simp add: collect_uses_in_selection_def covers_deep_def)
    next
      case (Some ss)
      then obtain V' out' where r: "recurse (ss_selections ss) (V, out2) = Some (V', out')"
        "walked doc frags ?U (V, out2) (V', out')" "covers doc V' out' (ss_selections ss)"
        using nested [of "ss_selections ss" out2] SField by auto
      then have "covers_deep doc V' out' sel"
        using Some SField walked_mono(1) [OF r(2) c] by (simp add: covers_deep_def)
      then show ?thesis
        using Some SField o1 o2 r walked_trans [OF w r(2)] by (simp add: collect_uses_in_selection_def)
    qed
  next
    case (SInlineFragment i)
    have use: "directives_use doc x (ifr_directives i) \<Longrightarrow> ?U x" for x
      using uses_here [OF here] SInlineFragment by auto
    have rng: "range_ok project_directive (doc_nodes doc) (ifr_directives i)" using sel SInlineFragment by auto
    obtain out1 where o1: "collect_uses_in_directives doc (ifr_directives i) out = Some out1"
      "walked doc frags ?U (V, out) (V, out1)" "\<And>x. directives_use doc x (ifr_directives i) \<Longrightarrow> bt_contains out1 x"
      using adds_walked [OF adds_directives [OF cf rng], of ?U out doc frags V] use by blast
    have c: "covers_sel doc V out1 sel" using SInlineFragment o1 by (auto simp: covers_sel_def)
    obtain V' out' where r: "recurse (ss_selections (ifr_selection_set i)) (V, out1) = Some (V', out')"
      "walked doc frags ?U (V, out1) (V', out')" "covers doc V' out' (ss_selections (ifr_selection_set i))"
      using nested [of "ss_selections (ifr_selection_set i)" out1] SInlineFragment by auto
    then have "covers_deep doc V' out' sel" using SInlineFragment walked_mono(1) [OF r(2) c] by (simp add: covers_deep_def)
    then show ?thesis using SInlineFragment o1 r walked_trans [OF o1(2) r(2)] by (simp add: collect_uses_in_selection_def)
  next
    case (SFragmentSpread s)
    let ?n = "nm_value (fsp_name s)"
    have use: "directives_use doc x (fsp_directives s) \<Longrightarrow> ?U x" for x
      using uses_here [OF here] SFragmentSpread by auto
    have rng: "range_ok project_directive (doc_nodes doc) (fsp_directives s)" using sel SFragmentSpread by auto
    obtain out1 where o1: "collect_uses_in_directives doc (fsp_directives s) out = Some out1"
      "walked doc frags ?U (V, out) (V, out1)" "\<And>x. directives_use doc x (fsp_directives s) \<Longrightarrow> bt_contains out1 x"
      using adds_walked [OF adds_directives [OF cf rng], of ?U out doc frags V] use by blast
    have c: "covers_deep doc V' out' sel" if "walked doc frags ?U (V, out1) (V', out')" "?n \<in> V'" for V' out'
      using that o1(3) SFragmentSpread by (auto simp: covers_deep_def covers_sel_def walked_def)
    have new: "walked doc frags ?U (V, out1) (insert ?n V, out1)" if "bt_get frags ?n = None"
      using that by (auto simp: walked_def covers_frag_def)
    show ?thesis
    proof (cases "?n \<in> V \<or> bt_get frags ?n = None")
      case True
      then show ?thesis
        using SFragmentSpread o1 c [of V out1] c [OF new] new walked_trans [OF o1(2) new]
        by (auto simp: collect_uses_in_selection_def Let_def)
    next
      case False
      then obtain fr where fr: "?n \<notin> V" "bt_get frags ?n = Some fr" by auto
      have "\<exists>V' out'. do { out \<leftarrow> collect_uses_in_directives doc (frd_directives fr) out1;
          recurse (ss_selections (frd_selection_set fr)) (insert ?n V, out) } = Some (V', out') \<and>
        walked doc frags ?U (V, out1) (V', out') \<and> ?n \<in> V'"
        using here fr SFragmentSpread
        by (intro walk_fragment [OF ok fr frag [OF fr(2,1)]]) (auto intro: uses_header uses_spread)
      then obtain V' out' where "collect_uses_in_selection recurse doc frags sel (V, out) = Some (V', out')"
        "walked doc frags ?U (V, out1) (V', out')" "?n \<in> V'"
        using SFragmentSpread o1 fr by (auto simp: collect_uses_in_selection_def Let_def)
      then show ?thesis using c walked_trans [OF o1(2)] by auto
    qed
  qed
qed

interpretation uses_walk: walk "walked doc frags U" "\<lambda>sel s. covers_deep doc (fst s) (snd s) sel" for doc frags U
proof
  show "walked doc frags U s s''" if "walked doc frags U s s'" "walked doc frags U s' s''" for s s' s''
    using that by (rule walked_trans)
  show "covers_deep doc (fst s') (snd s') sel" if "covers_deep doc (fst s) (snd s) sel" "walked doc frags U s s'" for sel s s'
    using that walked_mono(4) [of doc frags U "fst s" "snd s" "fst s'" "snd s'" sel] by simp
qed simp

text \<open>Fragments not entered yet.\<close>

definition unvisited :: "fragments \<Rightarrow> string set \<Rightarrow> nat" where
  "unvisited frags V = card (fst ` set frags - V)"

lemma unvisited_antimono: "V \<subseteq> V' \<Longrightarrow> unvisited frags V' \<le> unvisited frags V"
  unfolding unvisited_def by (intro card_mono) auto

lemma unvisited_insert:
  assumes "bt_get frags n = Some fr" and "n \<notin> V"
  shows "unvisited frags (insert n V) < unvisited frags V"
  unfolding unvisited_def
proof (rule psubset_card_mono)
  have "n \<in> fst ` set frags" using assms(1) by (metis domI dom_map_of_conv_image_fst)
  then show "fst ` set frags - insert n V \<subset> fst ` set frags - V" using assms(2) by blast
qed simp

lemma collect_walk:
  assumes ok: "frags_ok doc frags"
  shows "range_ok project_selection (take j (doc_nodes doc)) r \<Longrightarrow> j \<le> length (doc_nodes doc) \<Longrightarrow>
    unvisited frags (fst s) * value_fuel doc + j < k \<Longrightarrow>
    rec_set doc frags (collect_uses_in_selection_set k doc frags) r s"
proof (induction k arbitrary: j r s)
  case (Suc k)
  let ?N = "length (doc_nodes doc)" and ?ns = "doc_nodes doc"
  have cf: "children_first ?ns" using ok by (simp add: frags_ok_def)
  obtain sels where sels: "doc_selections doc r = Some sels" "\<forall>sel \<in> set sels. \<exists>i < j. selection_ok (take i ?ns) sel"
    using reads(5) [OF cf, of j r] Suc.prems(1) by auto
  let ?I = "\<lambda>s. unvisited frags (fst s) * value_fuel doc + j < Suc k"
  let ?f = "collect_uses_in_selection (collect_uses_in_selection_set k doc frags) doc frags"
  let ?W = "walked doc frags (\<lambda>x. set_uses doc frags x r)"
  have step: "\<exists>s'. ?f sel s1 = Some s' \<and> ?W s1 s' \<and> covers_deep doc (fst s') (snd s') sel"
    if sel: "sel \<in> set sels" and I: "?I s1" for sel s1
  proof -
    obtain V out where s1: "s1 = (V, out)" by fastforce
    obtain i where i: "i < j" "selection_ok (take i ?ns) sel" using sels(2) sel by blast
    have whole: "selection_ok ?ns sel" using node_ok_append [of "take i ?ns" "NSelection sel" "drop i ?ns"] i(2) by simp
    have inner: "rec_set doc frags (collect_uses_in_selection_set k doc frags) r' (V, out')"
      if "nested sel = Some r'" for r' out'
      using that i I Suc.prems(2) s1
      by (intro Suc.IH [of i]) (cases sel; auto simp: set_ok_def split: option.splits)+
    have frag: "rec_set doc frags (collect_uses_in_selection_set k doc frags) (ss_selections (frd_selection_set fr)) (insert n V, out')"
      if fr: "bt_get frags n = Some fr" "n \<notin> V" for n fr out'
    proof (rule Suc.IH [of ?N])
      show "range_ok project_selection (take ?N ?ns) (ss_selections (frd_selection_set fr))"
        using ok fr by (auto simp: frags_ok_def set_ok_def)
      have "Suc (unvisited frags (insert n V)) * value_fuel doc \<le> unvisited frags V * value_fuel doc"
        by (rule mult_le_mono1) (use unvisited_insert [OF fr] in simp)
      then show "unvisited frags (fst (insert n V, out')) * value_fuel doc + ?N < k" using I s1 by simp
    qed simp
    show ?thesis unfolding s1 by (rule collect_selection [OF ok whole sels(1) sel inner frag])
  qed
  have "\<exists>s'. ofold ?f sels s = Some s' \<and> ?W s s' \<and> (\<forall>sel \<in> set sels. covers_deep doc (fst s') (snd s') sel)"
  proof (rule uses_walk.ofold_walk [where I = ?I])
    show "?I s2" if "?I s1" "?W s1 s2" for s1 s2
    proof -
      have "unvisited frags (fst s2) \<le> unvisited frags (fst s1)"
        by (rule unvisited_antimono) (use that(2) in \<open>auto simp: walked_def split: prod.splits\<close>)
      then show ?thesis using that(1) mult_le_mono1 [of "unvisited frags (fst s2)"] by (meson add_le_mono1 order_le_less_trans)
    qed
  qed (use Suc.prems(3) step in auto)
  with sels(1) show ?case by (auto simp: rec_set_def covers_iff)
qed simp

lemma set_uses_covered:
  assumes "set_uses doc frags x r" and "covers doc V out r" and "\<forall>n \<in> V. covers_frag doc frags V out n"
  shows "bt_contains out x"
  using assms
proof (induction rule: set_uses.induct)
  case (uses_here r sel)
  then show ?case by (auto simp: covers_def covers_sel_def)
next
  case (uses_header r s frag)
  then have "nm_value (fsp_name s) \<in> V" by (auto simp: covers_def covers_sel_def)
  with uses_header show ?case by (auto simp: covers_frag_def)
next
  case (uses_spread r s frag)
  then have "nm_value (fsp_name s) \<in> V" by (auto simp: covers_def covers_sel_def)
  with uses_spread show ?case by (auto simp: covers_frag_def)
qed

lemma collect_set_exact:
  assumes ok: "frags_ok doc frags" and r: "range_ok project_selection (doc_nodes doc) r"
  shows "\<exists>V' out'. collect_uses_in_selection_set (selection_fuel doc frags) doc frags r ({}, out) = Some (V', out') \<and>
    (\<forall>x. bt_contains out' x \<longleftrightarrow> bt_contains out x \<or> set_uses doc frags x r)"
proof -
  let ?N = "length (doc_nodes doc)"
  have "card (fst ` set frags) \<le> length frags" by (metis card_length length_map set_map)
  then have "unvisited frags {} * value_fuel doc \<le> length frags * value_fuel doc"
    unfolding unvisited_def by (intro mult_le_mono1) simp
  then have "unvisited frags (fst ({}, out)) * value_fuel doc + ?N < selection_fuel doc frags"
    by (simp add: selection_fuel_def)
  then have "rec_set doc frags (collect_uses_in_selection_set (selection_fuel doc frags) doc frags) r ({}, out)"
    by (intro collect_walk [OF ok, of ?N]) (use r in simp_all)
  then obtain V' out' where w: "collect_uses_in_selection_set (selection_fuel doc frags) doc frags r ({}, out) = Some (V', out')"
    "walked doc frags (\<lambda>x. set_uses doc frags x r) ({}, out) (V', out')" "covers doc V' out' r"
    by (auto simp: rec_set_def)
  have "bt_contains out' x \<longleftrightarrow> bt_contains out x \<or> set_uses doc frags x r" for x
    using w(2) set_uses_covered [OF _ w(3)] by (auto simp: walked_def)
  with w(1) show ?thesis by blast
qed

section \<open>The rules on variables\<close>

definition variable_uses :: "document \<Rightarrow> string \<Rightarrow> variable_definition \<Rightarrow> bool" where
  "variable_uses doc x vd \<longleftrightarrow> directives_use doc x (vd_directives vd) \<or>
     (\<exists>dv. vd_default_value vd = Some dv \<and> value_uses doc x dv)"

definition variable_ok :: "document \<Rightarrow> variable_definition \<Rightarrow> bool" where
  "variable_ok doc vd \<longleftrightarrow> range_ok project_directive (doc_nodes doc) (vd_directives vd) \<and>
     (case vd_default_value vd of None \<Rightarrow> True | Some w \<Rightarrow> value_ok (doc_nodes doc) w)"

text \<open>The variables an operation uses and those it declares.\<close>

definition operation_uses_var :: "document \<Rightarrow> fragments \<Rightarrow> operation_definition \<Rightarrow> string \<Rightarrow> bool" where
  "operation_uses_var doc frags op x \<longleftrightarrow> directives_use doc x (opd_directives op) \<or>
     set_uses doc frags x (ss_selections (opd_selection_set op)) \<or>
     (\<exists>vds. doc_variable_definitions doc (opd_variable_definitions op) = Some vds \<and> (\<exists>vd \<in> set vds. variable_uses doc x vd))"

definition operation_declares :: "document \<Rightarrow> operation_definition \<Rightarrow> string \<Rightarrow> bool" where
  "operation_declares doc op x \<longleftrightarrow>
     (\<exists>vds. doc_variable_definitions doc (opd_variable_definitions op) = Some vds \<and> (\<exists>vd \<in> set vds. nm_value (vd_name vd) = x))"

lemma adds_variable:
  assumes cf: "children_first (doc_nodes doc)" and vd: "variable_ok doc vd"
  shows "adds (collect_uses_in_variable doc vd) (\<lambda>x. variable_uses doc x vd)"
proof -
  have ds: "adds (collect_uses_in_directives doc (vd_directives vd)) (\<lambda>x. directives_use doc x (vd_directives vd))"
    using adds_directives [OF cf] vd by (simp add: variable_ok_def)
  show ?thesis
  proof (cases "vd_default_value vd")
    case None
    with ds show ?thesis by (simp add: adds_by_def collect_uses_in_variable_def variable_uses_def)
  next
    case (Some dv)
    let ?N = "length (doc_nodes doc)"
    have "adds (collect_uses_in_value (value_fuel doc) doc dv) (\<lambda>x. value_uses doc x dv)"
      using adds_value [OF cf, of ?N dv "value_fuel doc"] vd Some by (simp add: variable_ok_def)
    show ?thesis
      unfolding adds_by_def
    proof
      fix s
      obtain s1 where s1: "collect_uses_in_value (value_fuel doc) doc dv s = Some s1"
        "\<And>x. bt_contains s1 x \<longleftrightarrow> bt_contains s x \<or> value_uses doc x dv"
        using adds_byE [OF \<open>adds (collect_uses_in_value _ _ _) _\<close>, of s] by auto
      obtain s2 where s2: "collect_uses_in_directives doc (vd_directives vd) s1 = Some s2"
        "\<And>x. bt_contains s2 x \<longleftrightarrow> bt_contains s1 x \<or> directives_use doc x (vd_directives vd)"
        using adds_byE [OF ds, of s1] by auto
      show "\<exists>s'. collect_uses_in_variable doc vd s = Some s' \<and> (\<forall>x. bt_contains s' x \<longleftrightarrow> bt_contains s x \<or> variable_uses doc x vd)"
        using s1 s2 Some by (auto simp: collect_uses_in_variable_def variable_uses_def)
    qed
  qed
qed

lemma read_variables:
  assumes cf: "children_first (doc_nodes doc)" and r: "range_ok project_variable_definition (doc_nodes doc) r"
  shows "\<exists>vds. doc_variable_definitions doc r = Some vds \<and> (\<forall>vd \<in> set vds. variable_ok doc vd)"
proof -
  let ?ns = "doc_nodes doc"
  obtain vds where vds: "doc_variable_definitions doc r = Some vds"
    "\<forall>vd \<in> set vds. \<exists>i < length ?ns. \<exists>n. project_variable_definition n = Some vd \<and> node_ok (take i ?ns) n"
    using read_before [OF cf, of project_variable_definition "length ?ns" r] r by (auto simp: doc_variable_definitions_def)
  have "variable_ok doc vd" if "project_variable_definition n = Some vd" "node_ok (take i ?ns) n" for vd i n
    using that project_node(7) [OF that(1), of ?ns] node_ok_append [of "take i ?ns" n "drop i ?ns"]
    by (auto simp: variable_ok_def split: option.splits)
  with vds show ?thesis by blast
qed

lemma operation_uses_exact:
  assumes ok: "frags_ok doc frags" and op: "definition_ok (doc_nodes doc) (DOperation op)"
  shows "\<exists>vds used. doc_variable_definitions doc (opd_variable_definitions op) = Some vds \<and>
    operation_uses doc frags op vds = Some used \<and> (\<forall>x. bt_contains used x \<longleftrightarrow> operation_uses_var doc frags op x)"
proof -
  have cf: "children_first (doc_nodes doc)" using ok by (simp add: frags_ok_def)
  obtain vds where vds: "doc_variable_definitions doc (opd_variable_definitions op) = Some vds" "\<forall>vd \<in> set vds. variable_ok doc vd"
    using read_variables [OF cf] op by force
  obtain u1 where u1: "collect_uses_in_directives doc (opd_directives op) [] = Some u1"
    "\<And>x. bt_contains u1 x \<longleftrightarrow> directives_use doc x (opd_directives op)"
    using adds_byE [OF adds_directives [OF cf], of "opd_directives op" "[]"] op by auto
  obtain V u2 where u2: "collect_uses_in_selection_set (selection_fuel doc frags) doc frags
      (ss_selections (opd_selection_set op)) ({}, u1) = Some (V, u2)"
    "\<And>x. bt_contains u2 x \<longleftrightarrow> bt_contains u1 x \<or> set_uses doc frags x (ss_selections (opd_selection_set op))"
    using collect_set_exact [OF ok, of "ss_selections (opd_selection_set op)" u1] op by (auto simp: set_ok_def)
  obtain u3 where u3: "ofold (collect_uses_in_variable doc) vds u2 = Some u3"
    "\<And>x. bt_contains u3 x \<longleftrightarrow> bt_contains u2 x \<or> (\<exists>vd \<in> set vds. variable_uses doc x vd)"
    using adds_byE [OF adds_by_ofold, of vds bt_contains "collect_uses_in_variable doc" "\<lambda>vd x. variable_uses doc x vd" u2]
      adds_variable [OF cf] vds(2) by auto
  show ?thesis using vds(1) u1 u2 u3 by (auto simp: operation_uses_def operation_uses_var_def)
qed

text \<open>The rules an error list reports.\<close>

definition reports :: "validation_error list \<Rightarrow> string \<Rightarrow> bool" where
  "reports errors r \<longleftrightarrow> (\<exists>e \<in> set errors. ve_rule e = r)"

lemma reports_simps [simp]:
  "\<not> reports [] r" "reports (e # es) r \<longleftrightarrow> ve_rule e = r \<or> reports es r"
  "reports (es @ es') r \<longleftrightarrow> reports es r \<or> reports es' r"
  by (auto simp: reports_def)

lemma declare_variables:
  "set (fst (fold declare_variable vds (order, spans))) = set order \<union> ((\<lambda>vd. nm_value (vd_name vd)) ` set vds - fst ` set spans)"
  "fst ` set (snd (fold declare_variable vds (order, spans))) = fst ` set spans \<union> (\<lambda>vd. nm_value (vd_name vd)) ` set vds"
proof (induction vds arbitrary: order spans)
  case (Cons vd vds)
  have "declare_variable vd (order, spans) =
    (if nm_value (vd_name vd) \<in> fst ` set spans then order else order @ [nm_value (vd_name vd)],
     bt_insert (nm_value (vd_name vd)) (nm_span (vd_name vd)) spans)" for order spans
    by (simp add: declare_variable_def bt_contains_iff)
  note step = this set_bt_insert Cons
  { case 1 show ?case by (simp add: step) auto }
  { case 2 show ?case by (simp add: step) }
qed simp_all

lemma undefined_errors_report:
  "reports (undefined_errors spans used) r \<longleftrightarrow>
     r = RULE_NO_UNDEFINED_VARIABLES \<and> (\<exists>x. bt_contains used x \<and> \<not> bt_contains spans x)"
  unfolding reports_def undefined_errors_def bt_contains_iff [of used] by force

lemma unused_errors_report:
  assumes "set order \<subseteq> fst ` set spans"
  shows "\<exists>es. unused_errors order spans used = Some es \<and>
    (\<forall>r. reports es r \<longleftrightarrow> r = RULE_NO_UNUSED_VARIABLES \<and> (\<exists>x \<in> set order. \<not> bt_contains used x))"
proof -
  have sp: "\<exists>sp. bt_get spans n = Some sp" if "n \<in> set order" for n
    using that assms by (metis bt_contains_def bt_contains_iff not_None_eq subsetD)
  let ?f = "\<lambda>n errors. if bt_contains used n then Some errors
    else do { sp \<leftarrow> bt_get spans n;
              Some (errors @ [verror RULE_NO_UNUSED_VARIABLES sp ''variable is declared but never used'']) }"
  have "adds_by reports (?f n) (\<lambda>r. r = RULE_NO_UNUSED_VARIABLES \<and> \<not> bt_contains used n)" if "n \<in> set order" for n
    using sp [OF that] by (auto simp: adds_by_def)
  then have "adds_by reports (ofold ?f order) (\<lambda>r. \<exists>n \<in> set order. r = RULE_NO_UNUSED_VARIABLES \<and> \<not> bt_contains used n)"
    by (rule adds_by_ofold)
  from adds_byE [OF this, of "[]"] obtain es where "ofold ?f order [] = Some es"
    "\<And>r. reports es r \<longleftrightarrow> reports [] r \<or> (\<exists>n \<in> set order. r = RULE_NO_UNUSED_VARIABLES \<and> \<not> bt_contains used n)"
    by blast
  then show ?thesis unfolding unused_errors_def by auto
qed

lemma adds_check_variables:
  assumes ok: "frags_ok doc frags" and op: "definition_ok (doc_nodes doc) (DOperation op)"
  shows "adds_by reports (check_variables_for_operation doc frags op) (\<lambda>r.
    r = RULE_NO_UNDEFINED_VARIABLES \<and> (\<exists>x. operation_uses_var doc frags op x \<and> \<not> operation_declares doc op x) \<or>
    r = RULE_NO_UNUSED_VARIABLES \<and> (\<exists>x. operation_declares doc op x \<and> \<not> operation_uses_var doc frags op x))"
proof -
  obtain vds used where u: "doc_variable_definitions doc (opd_variable_definitions op) = Some vds"
    "operation_uses doc frags op vds = Some used" "\<And>x. bt_contains used x \<longleftrightarrow> operation_uses_var doc frags op x"
    using operation_uses_exact [OF ok op] by blast
  obtain order spans where d: "fold declare_variable vds ([], []) = (order, spans)" by fastforce
  have names: "set order = {x. operation_declares doc op x}" "\<And>x. bt_contains spans x \<longleftrightarrow> operation_declares doc op x"
    using declare_variables [of vds "[]" "[]"] u(1) by (auto simp: d operation_declares_def bt_contains_iff)
  obtain es where es: "unused_errors order spans used = Some es"
    "\<And>r. reports es r \<longleftrightarrow> r = RULE_NO_UNUSED_VARIABLES \<and> (\<exists>x \<in> set order. \<not> bt_contains used x)"
    using unused_errors_report [of order spans used] names bt_contains_iff [of spans] by blast
  have "check_variables_for_operation doc frags op errors = Some (errors @ undefined_errors spans used @ es)" for errors
    using u d es by (simp add: check_variables_for_operation_def)
  then show ?thesis
    using es(2) names u(3) by (simp add: adds_by_def undefined_errors_report)
qed

section \<open>The rules on operation names\<close>

lemma anonymous_errors_report:
  "reports (anonymous_errors ops) r \<longleftrightarrow>
     r = RULE_UNIQUE_OPERATION_NAMES \<and> 1 < length ops \<and> (\<exists>op \<in> set ops. opd_name op = None)"
  by (auto simp: anonymous_errors_def reports_def)

definition operation_names_of :: "operation_definition list \<Rightarrow> string list" where
  "operation_names_of ops = map nm_value (map the (filter (\<lambda>n. n \<noteq> None) (map opd_name ops)))"

lemma duplicate_errors_report:
  "reports (duplicate_errors seen ops) r \<longleftrightarrow> r = RULE_UNIQUE_OPERATION_NAMES \<and>
     \<not> (distinct (operation_names_of ops) \<and> seen \<inter> set (operation_names_of ops) = {})"
proof (induction ops arbitrary: seen)
  case (Cons op ops)
  show ?case
    by (cases "opd_name op") (auto simp: Cons operation_names_of_def)
qed (simp add: operation_names_of_def)

lemma unique_names_report:
  "reports (check_unique_operation_names ops) r \<longleftrightarrow> r = RULE_UNIQUE_OPERATION_NAMES \<and>
     (1 < length ops \<and> (\<exists>op \<in> set ops. opd_name op = None) \<or> \<not> distinct (operation_names_of ops))"
  by (auto simp: check_unique_operation_names_def anonymous_errors_report duplicate_errors_report)

section \<open>The rules on fragments\<close>

definition spreads :: "document \<Rightarrow> node_range \<Rightarrow> string \<Rightarrow> bool" where
  "spreads doc r n \<longleftrightarrow> (\<exists>s. inside doc r (SFragmentSpread s) \<and> nm_value (fsp_name s) = n)"

text \<open>What is observed of a walk over the spreads: fragments with a positive count, and rules reported.\<close>

fun spread_obs :: "counts \<times> validation_error list \<Rightarrow> string + string \<Rightarrow> bool" where
  "spread_obs (counts, errors) (Inl n) \<longleftrightarrow> (case bt_get counts n of None \<Rightarrow> False | Some c \<Rightarrow> 0 < c)"
| "spread_obs (counts, errors) (Inr r) \<longleftrightarrow> reports errors r"

fun spread_effect :: "document \<Rightarrow> fragments \<Rightarrow> (string \<Rightarrow> bool) \<Rightarrow> string + string \<Rightarrow> bool" where
  "spread_effect doc frags S (Inl n) \<longleftrightarrow> S n \<and> bt_contains frags n"
| "spread_effect doc frags S (Inr r) \<longleftrightarrow> r = RULE_KNOWN_FRAGMENT_NAMES \<and> (\<exists>n. S n \<and> \<not> bt_contains frags n)"

fun sel_spreads :: "document \<Rightarrow> selection \<Rightarrow> string \<Rightarrow> bool" where
  "sel_spreads doc (SFragmentSpread s) n \<longleftrightarrow> nm_value (fsp_name s) = n"
| "sel_spreads doc sel n \<longleftrightarrow> (\<exists>r. nested sel = Some r \<and> spreads doc r n)"

lemma spreads_iff:
  assumes "doc_selections doc r = Some sels"
  shows "spreads doc r n \<longleftrightarrow> (\<exists>sel \<in> set sels. sel_spreads doc sel n)"
proof -
  have "sel_spreads doc sel n \<longleftrightarrow>
      (\<exists>s. (sel = SFragmentSpread s \<or> (\<exists>r'. nested sel = Some r' \<and> inside doc r' (SFragmentSpread s))) \<and> nm_value (fsp_name s) = n)"
    for sel by (cases sel) (auto simp: spreads_def)
  then show ?thesis unfolding spreads_def inside_iff [OF assms] by blast
qed

lemma spread_effect_Bex: "(\<exists>a \<in> A. spread_effect doc frags (S a) x) \<longleftrightarrow> spread_effect doc frags (\<lambda>n. \<exists>a \<in> A. S a n) x"
  by (cases x) auto

lemma adds_no_spread: "adds_by spread_obs Some (spread_effect doc frags (\<lambda>n. False))"
  unfolding adds_by_def
proof (intro allI)
  show "\<exists>s'. Some s = Some s' \<and> (\<forall>x. spread_obs s' x \<longleftrightarrow> spread_obs s x \<or> spread_effect doc frags (\<lambda>n. False) x)" for s
    by (auto; case_tac x; simp)
qed

lemma adds_walk_spread:
  assumes "\<And>r. nested sel = Some r \<Longrightarrow> adds_by spread_obs (recurse r) (spread_effect doc frags (spreads doc r))"
  shows "adds_by spread_obs (walk_spread recurse frags sel) (spread_effect doc frags (sel_spreads doc sel))"
proof (cases sel)
  case (SFragmentSpread s)
  let ?n = "nm_value (fsp_name s)"
  show ?thesis
    unfolding adds_by_def
  proof
    fix st :: "counts \<times> validation_error list"
    obtain counts errors where st: "st = (counts, errors)" by fastforce
    show "\<exists>s'. walk_spread recurse frags sel st = Some s' \<and>
        (\<forall>x. spread_obs s' x \<longleftrightarrow> spread_obs st x \<or> spread_effect doc frags (sel_spreads doc sel) x)"
    proof (intro exI conjI allI)
      show "walk_spread recurse frags sel st = Some (if bt_contains frags ?n
        then (bt_insert ?n (case bt_get counts ?n of None \<Rightarrow> 1 | Some c \<Rightarrow> c + 1) counts, errors)
        else (counts, errors @ [verror RULE_KNOWN_FRAGMENT_NAMES (nm_span (fsp_name s))
               ''fragment spread references an undefined fragment'']))"
        by (simp add: SFragmentSpread st walk_spread_def Let_def)
      fix x
      show "spread_obs (if bt_contains frags ?n
        then (bt_insert ?n (case bt_get counts ?n of None \<Rightarrow> 1 | Some c \<Rightarrow> c + 1) counts, errors)
        else (counts, errors @ [verror RULE_KNOWN_FRAGMENT_NAMES (nm_span (fsp_name s))
               ''fragment spread references an undefined fragment''])) x \<longleftrightarrow>
        spread_obs st x \<or> spread_effect doc frags (sel_spreads doc sel) x"
        by (cases x) (auto simp: SFragmentSpread st split: option.splits)
    qed
  qed
next
  case (SField f)
  have "walk_spread recurse frags sel = (case nested sel of None \<Rightarrow> Some | Some r \<Rightarrow> recurse r)"
    by (auto simp: SField walk_spread_def fun_eq_iff split: option.split)
  moreover have "sel_spreads doc sel = (case nested sel of None \<Rightarrow> \<lambda>n. False | Some r \<Rightarrow> spreads doc r)"
    by (auto simp: SField fun_eq_iff split: option.split)
  ultimately show ?thesis using assms adds_no_spread by (cases "nested sel") simp_all
next
  case (SInlineFragment i)
  have "walk_spread recurse frags sel = recurse (ss_selections (ifr_selection_set i))"
    by (auto simp: SInlineFragment walk_spread_def fun_eq_iff)
  moreover have "sel_spreads doc sel = spreads doc (ss_selections (ifr_selection_set i))"
    by (auto simp: SInlineFragment fun_eq_iff)
  ultimately show ?thesis using assms [of "ss_selections (ifr_selection_set i)"] SInlineFragment by simp
qed

lemma nested_ok: "selection_ok ns sel \<Longrightarrow> nested sel = Some r \<Longrightarrow> range_ok project_selection ns r"
  by (cases sel) (auto simp: set_ok_def split: option.splits)

lemma adds_walk_spreads:
  assumes cf: "children_first (doc_nodes doc)"
  shows "range_ok project_selection (take j (doc_nodes doc)) r \<Longrightarrow> j < k \<Longrightarrow>
    adds_by spread_obs (walk_fragment_spreads k doc frags r) (spread_effect doc frags (spreads doc r))"
proof (induction k arbitrary: j r)
  case (Suc k)
  obtain sels where sels: "doc_selections doc r = Some sels" "\<forall>sel \<in> set sels. \<exists>i < j. selection_ok (take i (doc_nodes doc)) sel"
    using reads(5) [OF cf, of j r] Suc.prems(1) by auto
  have "adds_by spread_obs (ofold (walk_spread (walk_fragment_spreads k doc frags) frags) sels)
      (\<lambda>x. \<exists>sel \<in> set sels. spread_effect doc frags (sel_spreads doc sel) x)"
  proof (rule adds_by_ofold, rule adds_walk_spread)
    fix sel r'
    assume "sel \<in> set sels" "nested sel = Some r'"
    then obtain i where "i < j" "range_ok project_selection (take i (doc_nodes doc)) r'"
      using sels(2) nested_ok by blast
    then show "adds_by spread_obs (walk_fragment_spreads k doc frags r') (spread_effect doc frags (spreads doc r'))"
      using Suc.prems(2) by (intro Suc.IH [of i]) auto
  qed
  moreover have "spreads doc r = (\<lambda>n. \<exists>sel \<in> set sels. sel_spreads doc sel n)"
    using spreads_iff [OF sels(1)] by (simp add: fun_eq_iff)
  ultimately show ?case using sels(1) by (simp add: adds_by_def spread_effect_Bex)
qed simp

section \<open>All rules together\<close>

lemma set_doc_operations [simp]: "set (doc_operations defs) = {op. DOperation op \<in> set defs}"
  and set_doc_fragments [simp]: "set (doc_fragments defs) = {f. DFragment f \<in> set defs}"
  by (force simp: doc_operations_def doc_fragments_def split: gdefinition.splits)+

lemma fold_bt_insert:
  "map_of (fold (\<lambda>f. bt_insert (key f) (val f)) fs m) n = Some v \<Longrightarrow> map_of m n = Some v \<or> (\<exists>f \<in> set fs. key f = n \<and> val f = v)"
  "bt_contains (fold (\<lambda>f. bt_insert (key f) (val f)) fs m) n \<longleftrightarrow> bt_contains m n \<or> (\<exists>f \<in> set fs. key f = n)"
proof (induction fs arbitrary: m)
  case (Cons f fs)
  { case 1 then show ?case using Cons(1) [of "bt_insert (key f) (val f) m"] by (auto split: if_splits) }
  { case 2 show ?case using Cons(2) [of "bt_insert (key f) (val f) m"] by auto }
qed simp_all

lemma fragments_by_name_get: "bt_get (fragments_by_name frs) n = Some f \<Longrightarrow> f \<in> set frs"
  unfolding fragments_by_name_def by (drule fold_bt_insert(1)) auto

lemma fragments_by_name_contains: "bt_contains (fragments_by_name frs) n \<longleftrightarrow> (\<exists>f \<in> set frs. nm_value (frd_name f) = n)"
  unfolding fragments_by_name_def fold_bt_insert(2) by simp

lemma zero_counts_obs: "\<not> spread_obs (zero_counts frs, errors) (Inl n)"
  using fold_bt_insert(1) [of "\<lambda>f. nm_value (frd_name f)" "\<lambda>f. 0" frs "[]" n]
  by (auto simp: zero_counts_def split: option.split)

fun definition_selections :: "gdefinition \<Rightarrow> node_range" where
  "definition_selections (DOperation op) = ss_selections (opd_selection_set op)"
| "definition_selections (DFragment f) = ss_selections (frd_selection_set f)"

text \<open>A fragment name is spread somewhere in a document, and there is a fragment of that name.\<close>

definition doc_spreads :: "document \<Rightarrow> gdefinition list \<Rightarrow> string \<Rightarrow> bool" where
  "doc_spreads doc defs n \<longleftrightarrow> (\<exists>d \<in> set defs. spreads doc (definition_selections d) n)"

definition fragment_defined :: "gdefinition list \<Rightarrow> string \<Rightarrow> bool" where
  "fragment_defined defs n \<longleftrightarrow> (\<exists>f. DFragment f \<in> set defs \<and> nm_value (frd_name f) = n)"

lemma unused_fragment_report:
  "reports (unused_fragment_errors frs counts) r \<longleftrightarrow> r = RULE_NO_UNUSED_FRAGMENTS \<and>
     (\<exists>f \<in> set frs. \<not> spread_obs (counts, errors) (Inl (nm_value (frd_name f))))"
proof -
  have "(case bt_get counts n of None \<Rightarrow> 0 | Some c \<Rightarrow> c) = 0 \<longleftrightarrow> \<not> spread_obs (counts, errors) (Inl n)" for n
    by (auto split: option.split)
  then show ?thesis by (auto simp: unused_fragment_errors_def reports_def)
qed

text \<open>The conditions of the five rules.\<close>

definition breaks :: "document \<Rightarrow> gdefinition list \<Rightarrow> string \<Rightarrow> bool" where
  "breaks doc defs r \<longleftrightarrow> (let ops = doc_operations defs; frags = fragments_by_name (doc_fragments defs) in
     r = RULE_UNIQUE_OPERATION_NAMES \<and>
       (1 < length ops \<and> (\<exists>op \<in> set ops. opd_name op = None) \<or> \<not> distinct (operation_names_of ops)) \<or>
     r = RULE_NO_UNDEFINED_VARIABLES \<and>
       (\<exists>op \<in> set ops. \<exists>x. operation_uses_var doc frags op x \<and> \<not> operation_declares doc op x) \<or>
     r = RULE_NO_UNUSED_VARIABLES \<and>
       (\<exists>op \<in> set ops. \<exists>x. operation_declares doc op x \<and> \<not> operation_uses_var doc frags op x) \<or>
     r = RULE_KNOWN_FRAGMENT_NAMES \<and> (\<exists>n. doc_spreads doc defs n \<and> \<not> fragment_defined defs n) \<or>
     r = RULE_NO_UNUSED_FRAGMENTS \<and> (\<exists>n. fragment_defined defs n \<and> \<not> doc_spreads doc defs n))"

lemma read_definitions:
  assumes "wf_doc doc"
  shows "\<exists>defs. doc_definitions doc = Some defs \<and> (\<forall>d \<in> set defs. definition_ok (doc_nodes doc) d)"
proof -
  let ?ns = "doc_nodes doc"
  obtain defs where defs: "doc_definitions doc = Some defs"
    "\<forall>d \<in> set defs. \<exists>i < length ?ns. \<exists>n. project_definition n = Some d \<and> node_ok (take i ?ns) n"
    using read_before [of doc project_definition "length ?ns" "doc_definitions_range doc"] assms
    by (auto simp: wf_doc_def doc_definitions_def)
  have "definition_ok ?ns d" if "project_definition n = Some d" "node_ok (take i ?ns) n" for d i n
    using that project_node(6) [OF that(1), of ?ns] node_ok_append [of "take i ?ns" n "drop i ?ns"] by simp
  with defs show ?thesis by blast
qed

lemma definition_frags_ok:
  assumes "wf_doc doc" and "\<forall>d \<in> set defs. definition_ok (doc_nodes doc) d"
  shows "frags_ok doc (fragments_by_name (doc_fragments defs))"
  unfolding frags_ok_def using assms fragments_by_name_get [of "doc_fragments defs"] by (fastforce simp: wf_doc_def)

lemma variables_stage:
  assumes "frags_ok doc frags" and "\<forall>op \<in> set ops. definition_ok (doc_nodes doc) (DOperation op)"
  shows "\<exists>e. ofold (check_variables_for_operation doc frags) ops e0 = Some e \<and> (\<forall>r. reports e r \<longleftrightarrow> reports e0 r \<or> (\<exists>op \<in> set ops.
    r = RULE_NO_UNDEFINED_VARIABLES \<and> (\<exists>x. operation_uses_var doc frags op x \<and> \<not> operation_declares doc op x) \<or>
    r = RULE_NO_UNUSED_VARIABLES \<and> (\<exists>x. operation_declares doc op x \<and> \<not> operation_uses_var doc frags op x)))"
proof -
  let ?U = "\<lambda>op r. r = RULE_NO_UNDEFINED_VARIABLES \<and> (\<exists>x. operation_uses_var doc frags op x \<and> \<not> operation_declares doc op x) \<or>
    r = RULE_NO_UNUSED_VARIABLES \<and> (\<exists>x. operation_declares doc op x \<and> \<not> operation_uses_var doc frags op x)"
  have "adds_by reports (ofold (check_variables_for_operation doc frags) ops) (\<lambda>r. \<exists>op \<in> set ops. ?U op r)"
    by (rule adds_by_ofold, rule adds_check_variables [OF assms(1)]) (use assms(2) in blast)
  then show ?thesis unfolding adds_by_def by (rule spec)
qed

lemma spreads_stage:
  assumes cf: "children_first (doc_nodes doc)" and "\<forall>a \<in> set as. range_ok project_selection (doc_nodes doc) (sel a)"
  shows "adds_by spread_obs (ofold (\<lambda>a. walk_fragment_spreads (value_fuel doc) doc frags (sel a)) as)
    (spread_effect doc frags (\<lambda>n. \<exists>a \<in> set as. spreads doc (sel a) n))"
proof -
  let ?N = "length (doc_nodes doc)"
  have "adds_by spread_obs (ofold (\<lambda>a. walk_fragment_spreads (value_fuel doc) doc frags (sel a)) as)
      (\<lambda>x. \<exists>a \<in> set as. spread_effect doc frags (spreads doc (sel a)) x)"
    by (rule adds_by_ofold, rule adds_walk_spreads [OF cf, of ?N]) (use assms(2) in auto)
  then show ?thesis unfolding spread_effect_Bex .
qed

lemma doc_spreads_iff:
  "doc_spreads doc defs n \<longleftrightarrow> (\<exists>op \<in> set (doc_operations defs). spreads doc (ss_selections (opd_selection_set op)) n) \<or>
     (\<exists>f \<in> set (doc_fragments defs). spreads doc (ss_selections (frd_selection_set f)) n)"
proof -
  have "(\<exists>d \<in> set defs. P d) \<longleftrightarrow> (\<exists>op. DOperation op \<in> set defs \<and> P (DOperation op)) \<or> (\<exists>f. DFragment f \<in> set defs \<and> P (DFragment f))"
    for P by (metis gdefinition.exhaust)
  then show ?thesis by (simp add: doc_spreads_def)
qed

lemma definition_selections_ok: "definition_ok ns d \<Longrightarrow> range_ok project_selection ns (definition_selections d)"
  by (cases d) (simp_all add: set_ok_def)

lemma fragments_stage:
  assumes wf: "wf_doc doc" and ok: "\<forall>d \<in> set defs. definition_ok (doc_nodes doc) d"
  shows "\<exists>counts errs. do { s \<leftarrow> ofold (\<lambda>op. walk_fragment_spreads (value_fuel doc) doc frags (ss_selections (opd_selection_set op)))
        (doc_operations defs) s0;
      ofold (\<lambda>f. walk_fragment_spreads (value_fuel doc) doc frags (ss_selections (frd_selection_set f))) (doc_fragments defs) s }
      = Some (counts, errs) \<and>
    (\<forall>x. spread_obs (counts, errs) x \<longleftrightarrow> spread_obs s0 x \<or> spread_effect doc frags (doc_spreads doc defs) x)"
proof -
  have cf: "children_first (doc_nodes doc)" using wf by (simp add: wf_doc_def)
  have ranges: "\<forall>op \<in> set (doc_operations defs). range_ok project_selection (doc_nodes doc) (ss_selections (opd_selection_set op))"
    "\<forall>f \<in> set (doc_fragments defs). range_ok project_selection (doc_nodes doc) (ss_selections (frd_selection_set f))"
    using ok definition_selections_ok [of "doc_nodes doc" "DOperation op" for op]
      definition_selections_ok [of "doc_nodes doc" "DFragment f" for f]
    unfolding set_doc_operations set_doc_fragments definition_selections.simps by blast+
  obtain s1 where s1: "ofold (\<lambda>op. walk_fragment_spreads (value_fuel doc) doc frags (ss_selections (opd_selection_set op))) (doc_operations defs) s0 = Some s1"
    "\<And>x. spread_obs s1 x \<longleftrightarrow> spread_obs s0 x \<or>
      spread_effect doc frags (\<lambda>n. \<exists>op \<in> set (doc_operations defs). spreads doc (ss_selections (opd_selection_set op)) n) x"
    using spreads_stage [OF cf ranges(1), of frags, unfolded adds_by_def, THEN spec, of s0] by (elim exE conjE) (rule that, assumption, erule spec)
  obtain s2 where s2: "ofold (\<lambda>f. walk_fragment_spreads (value_fuel doc) doc frags (ss_selections (frd_selection_set f))) (doc_fragments defs) s1 = Some s2"
    "\<And>x. spread_obs s2 x \<longleftrightarrow> spread_obs s1 x \<or>
      spread_effect doc frags (\<lambda>n. \<exists>f \<in> set (doc_fragments defs). spreads doc (ss_selections (frd_selection_set f)) n) x"
    using spreads_stage [OF cf ranges(2), of frags, unfolded adds_by_def, THEN spec, of s1] by (elim exE conjE) (rule that, assumption, erule spec)
  have "spread_obs s2 x \<longleftrightarrow> spread_obs s0 x \<or> spread_effect doc frags (doc_spreads doc defs) x" for x
    unfolding s1(2) s2(2) by (cases x) (auto simp: doc_spreads_iff)
  with s1(1) s2(1) show ?thesis by (cases s2) simp
qed

lemma validate_operations_reports:
  assumes wf: "wf_doc doc"
  shows "\<exists>defs errs. doc_definitions doc = Some defs \<and> validate_operations doc = Some errs \<and>
    (\<forall>r. reports errs r \<longleftrightarrow> breaks doc defs r)"
proof -
  obtain defs where defs: "doc_definitions doc = Some defs" "\<forall>d \<in> set defs. definition_ok (doc_nodes doc) d"
    using read_definitions [OF wf] by blast
  define ops frs frags where d: "ops = doc_operations defs" "frs = doc_fragments defs" "frags = fragments_by_name frs"
  have ok: "frags_ok doc frags" using definition_frags_ok [OF wf defs(2)] by (simp add: d)
  have opok: "\<forall>op \<in> set ops. definition_ok (doc_nodes doc) (DOperation op)" using defs(2) unfolding d set_doc_operations by blast
  obtain e1 where e1: "ofold (check_variables_for_operation doc frags) ops (check_unique_operation_names ops) = Some e1"
    "\<And>r. reports e1 r \<longleftrightarrow> reports (check_unique_operation_names ops) r \<or> (\<exists>op \<in> set ops.
      r = RULE_NO_UNDEFINED_VARIABLES \<and> (\<exists>x. operation_uses_var doc frags op x \<and> \<not> operation_declares doc op x) \<or>
      r = RULE_NO_UNUSED_VARIABLES \<and> (\<exists>x. operation_declares doc op x \<and> \<not> operation_uses_var doc frags op x))"
    using variables_stage [OF ok opok, of "check_unique_operation_names ops"] by blast
  obtain counts e2 where s: "do { s \<leftarrow> ofold (\<lambda>op. walk_fragment_spreads (value_fuel doc) doc frags (ss_selections (opd_selection_set op)))
        ops (zero_counts frs, e1);
      ofold (\<lambda>f. walk_fragment_spreads (value_fuel doc) doc frags (ss_selections (frd_selection_set f))) frs s } = Some (counts, e2)"
    "\<And>x. spread_obs (counts, e2) x \<longleftrightarrow> spread_obs (zero_counts frs, e1) x \<or> spread_effect doc frags (doc_spreads doc defs) x"
    using fragments_stage [OF wf defs(2), of frags "(zero_counts frs, e1)"] by (auto simp: d)
  have contains: "bt_contains frags n \<longleftrightarrow> fragment_defined defs n" for n
    by (auto simp: d fragments_by_name_contains fragment_defined_def)
  have known: "reports e2 r \<longleftrightarrow> reports e1 r \<or>
      r = RULE_KNOWN_FRAGMENT_NAMES \<and> (\<exists>n. doc_spreads doc defs n \<and> \<not> fragment_defined defs n)" for r
    using s(2) [of "Inr r"] contains by simp
  have unused: "reports (unused_fragment_errors frs counts) r \<longleftrightarrow>
      r = RULE_NO_UNUSED_FRAGMENTS \<and> (\<exists>n. fragment_defined defs n \<and> \<not> doc_spreads doc defs n)" for r
  proof -
    have "spread_obs (counts, e2) (Inl n) \<longleftrightarrow> doc_spreads doc defs n \<and> fragment_defined defs n" for n
      using s(2) [of "Inl n"] zero_counts_obs [of frs e1 n] contains by (simp del: spread_obs.simps)
    then show ?thesis
      unfolding unused_fragment_report [where errors = e2] by (auto simp: fragment_defined_def d)
  qed
  have "reports (e2 @ unused_fragment_errors frs counts) r \<longleftrightarrow> breaks doc defs r" for r
    unfolding breaks_def Let_def reports_simps known unused e1(2) unique_names_report d [symmetric] by blast
  moreover have "validate_operations doc = Some (e2 @ unused_fragment_errors frs counts)"
    using defs(1) e1(1) s(1) unfolding validate_operations_def by (auto simp: d Let_def bind_eq_Some_conv)
  ultimately show ?thesis using defs(1) by blast
qed

lemma parsed_reports:
  assumes "2 * length src < 2 ^ 32" and "parse_executable_document src = Some (Inr doc)"
  shows "\<exists>defs errs. doc_definitions doc = Some defs \<and> validate_operations doc = Some errs \<and>
    (\<forall>r. reports errs r \<longleftrightarrow> breaks doc defs r)"
  by (rule validate_operations_reports [OF parsed_wf_doc [OF assms]])

lemmas breaks_simps = breaks_def Let_def rule_names

text \<open>C19: the variable rules are exact. Validating a parsed document ends without a panic; an undefined
  variable is reported if and only if some operation uses, in its directives, its variable
  definitions, its selections or any fragment reached from them by spreads, a variable it does
  not declare; an unused one if and only if some operation declares a variable it uses nowhere.\<close>

theorem variable_rules_exact:
  assumes "2 * length src < 2 ^ 32" and "parse_executable_document src = Some (Inr doc)"
  shows "\<exists>defs errs. doc_definitions doc = Some defs \<and> validate_operations doc = Some errs \<and>
    (reports errs RULE_NO_UNDEFINED_VARIABLES \<longleftrightarrow> (\<exists>op x. DOperation op \<in> set defs \<and>
       operation_uses_var doc (fragments_by_name (doc_fragments defs)) op x \<and> \<not> operation_declares doc op x)) \<and>
    (reports errs RULE_NO_UNUSED_VARIABLES \<longleftrightarrow> (\<exists>op x. DOperation op \<in> set defs \<and>
       operation_declares doc op x \<and> \<not> operation_uses_var doc (fragments_by_name (doc_fragments defs)) op x))"
  using parsed_reports [OF assms] by (fastforce simp: breaks_simps)

text \<open>C22: the fragment rules are exact. A spread of an undefined fragment is reported if and only if the
  document has one, at any depth of an operation or a fragment; an unused fragment if and only if
  some defined fragment is spread nowhere.\<close>

theorem fragment_rules_exact:
  assumes "2 * length src < 2 ^ 32" and "parse_executable_document src = Some (Inr doc)"
  shows "\<exists>defs errs. doc_definitions doc = Some defs \<and> validate_operations doc = Some errs \<and>
    (reports errs RULE_KNOWN_FRAGMENT_NAMES \<longleftrightarrow> (\<exists>n. doc_spreads doc defs n \<and> \<not> fragment_defined defs n)) \<and>
    (reports errs RULE_NO_UNUSED_FRAGMENTS \<longleftrightarrow> (\<exists>n. fragment_defined defs n \<and> \<not> doc_spreads doc defs n))"
  using parsed_reports [OF assms] by (fastforce simp: breaks_simps)

text \<open>Operation names are reported if and only if two operations share a name, or an operation is
  anonymous and not alone.\<close>

theorem operation_names_exact:
  assumes "2 * length src < 2 ^ 32" and "parse_executable_document src = Some (Inr doc)"
  shows "\<exists>defs errs. doc_definitions doc = Some defs \<and> validate_operations doc = Some errs \<and>
    (reports errs RULE_UNIQUE_OPERATION_NAMES \<longleftrightarrow>
       \<not> distinct (operation_names_of (doc_operations defs)) \<or>
       1 < length (doc_operations defs) \<and> (\<exists>op \<in> set (doc_operations defs). opd_name op = None))"
  using parsed_reports [OF assms] by (fastforce simp: breaks_simps)

section \<open>A concrete document\<close>

definition invalid_source :: string where
  "invalid_source = ''query Q($a: Int) { ...F } query Q { f } fragment F on T { g(x: [$b]) ...G } fragment H on T { h }''"

definition all_rules :: "string list" where
  "all_rules = [RULE_NO_UNDEFINED_VARIABLES, RULE_NO_UNUSED_VARIABLES, RULE_NO_UNUSED_FRAGMENTS,
     RULE_KNOWN_FRAGMENT_NAMES, RULE_UNIQUE_OPERATION_NAMES]"

lemma invalid_length: "2 * length invalid_source < 2 ^ 32"
  by (simp add: invalid_source_def)

lemma invalid_reports:
  "\<exists>doc errs. parse_executable_document invalid_source = Some (Inr doc) \<and> validate_operations doc = Some errs \<and>
     list_all (reports errs) all_rules"
proof -
  have "case parse_executable_document invalid_source of
      Some (Inr doc) \<Rightarrow> (case validate_operations doc of None \<Rightarrow> False | Some errs \<Rightarrow> list_all (reports errs) all_rules)
    | _ \<Rightarrow> False" by code_simp
  then show ?thesis by (auto split: option.splits sum.splits)
qed

theorem variable_rules_exact_witness:
  "\<exists>doc defs op x. parse_executable_document invalid_source = Some (Inr doc) \<and> doc_definitions doc = Some defs \<and>
     DOperation op \<in> set defs \<and> operation_uses_var doc (fragments_by_name (doc_fragments defs)) op x \<and> \<not> operation_declares doc op x"
proof -
  obtain doc errs where doc: "parse_executable_document invalid_source = Some (Inr doc)" "validate_operations doc = Some errs"
    "list_all (reports errs) all_rules" using invalid_reports by blast
  with variable_rules_exact [OF invalid_length doc(1)] show ?thesis by (auto simp: all_rules_def)
qed

theorem fragment_rules_exact_witness:
  "\<exists>doc defs n m. parse_executable_document invalid_source = Some (Inr doc) \<and> doc_definitions doc = Some defs \<and>
     doc_spreads doc defs n \<and> \<not> fragment_defined defs n \<and> fragment_defined defs m \<and> \<not> doc_spreads doc defs m"
proof -
  obtain doc errs where doc: "parse_executable_document invalid_source = Some (Inr doc)" "validate_operations doc = Some errs"
    "list_all (reports errs) all_rules" using invalid_reports by blast
  with fragment_rules_exact [OF invalid_length doc(1)] show ?thesis by (auto simp: all_rules_def)
qed

lemma invalid_named:
  "case parse_executable_document invalid_source of
     Some (Inr doc) \<Rightarrow> (case doc_definitions doc of None \<Rightarrow> False | Some defs \<Rightarrow> list_all (\<lambda>op. opd_name op \<noteq> None) (doc_operations defs))
   | _ \<Rightarrow> False"
  by code_simp

theorem operation_names_exact_witness:
  "\<exists>doc defs. parse_executable_document invalid_source = Some (Inr doc) \<and> doc_definitions doc = Some defs \<and>
     \<not> distinct (operation_names_of (doc_operations defs))"
proof -
  obtain doc errs where doc: "parse_executable_document invalid_source = Some (Inr doc)" "validate_operations doc = Some errs"
    "list_all (reports errs) all_rules" using invalid_reports by blast
  with operation_names_exact [OF invalid_length doc(1)] invalid_named show ?thesis
    by (auto simp: all_rules_def list_all_iff split: option.splits)
qed

end
