(* ===== verification/Gql_Sdl.thy ===== *)
theory Gql_Sdl
  imports Gql_Parse
begin

text \<open>
  The schema-definition parser of \<^verbatim>\<open>magna-gqlmin/src/parse/sdl.rs\<close>. Its AST owns its lists, so
  the state is the lexer and the token held back; productions have the outcomes of
  \<^verbatim>\<open>Gql_Parse\<close>. Parsing any source ends, successful documents are well formed, and the
  productions the two parsers share (tokens, names, types, scalar constants) agree.
\<close>

section \<open>Syntax trees\<close>

record description =
  dsc_raw :: string
  dsc_block :: bool
  dsc_span :: span

record directive_arg =
  da_name :: name
  da_value :: gvalue

record directive_app =
  dap_name :: name
  dap_arguments :: "directive_arg list"

record input_value_def =
  ivd_description :: "description option"
  ivd_name :: name
  ivd_value_type :: gtype
  ivd_default_value :: "gvalue option"
  ivd_directives :: "directive_app list"

record field_def =
  fd_description :: "description option"
  fd_name :: name
  fd_arguments :: "input_value_def list"
  fd_field_type :: gtype
  fd_directives :: "directive_app list"

record operation_type_def =
  otd_operation :: string
  otd_operation_span :: span
  otd_named_type :: named_type

record schema_def =
  sch_description :: "description option"
  sch_directives :: "directive_app list"
  sch_operation_types :: "operation_type_def list"
  sch_span :: span

record scalar_type_def =
  scd_description :: "description option"
  scd_name :: name
  scd_directives :: "directive_app list"
  scd_span :: span

record object_type_def =
  otd_description :: "description option"
  otd_name :: name
  otd_implements :: "named_type list"
  otd_directives :: "directive_app list"
  otd_fields :: "field_def list"
  otd_span :: span

record interface_type_def =
  itd_description :: "description option"
  itd_name :: name
  itd_implements :: "named_type list"
  itd_directives :: "directive_app list"
  itd_fields :: "field_def list"
  itd_span :: span

record union_type_def =
  utd_description :: "description option"
  utd_name :: name
  utd_directives :: "directive_app list"
  utd_members :: "named_type list"
  utd_span :: span

record enum_value_def =
  evd_description :: "description option"
  evd_name :: name
  evd_directives :: "directive_app list"

record enum_type_def =
  etd_description :: "description option"
  etd_name :: name
  etd_directives :: "directive_app list"
  etd_values :: "enum_value_def list"
  etd_span :: span

record input_object_type_def =
  iod_description :: "description option"
  iod_name :: name
  iod_directives :: "directive_app list"
  iod_fields :: "input_value_def list"
  iod_span :: span

record directive_location =
  dl_name :: name

record directive_def =
  dd_description :: "description option"
  dd_name :: name
  dd_arguments :: "input_value_def list"
  dd_repeatable :: bool
  dd_locations :: "directive_location list"
  dd_span :: span

datatype type_system_definition =
    TSchema schema_def | TScalar scalar_type_def | TObject object_type_def | TInterface interface_type_def
  | TUnion union_type_def | TEnum enum_type_def | TInputObject input_object_type_def | TDirective directive_def

record schema_document =
  sd_definitions :: "type_system_definition list"

section \<open>Tokens\<close>

record sdl_parser =
  sdl_lexer :: lexer
  sdl_peeked :: "token option"

type_synonym 'a sres = "('a, sdl_parser) outcome"

definition sdl_new :: "string \<Rightarrow> sdl_parser" where
  "sdl_new src = \<lparr>sdl_lexer = lexer_new src, sdl_peeked = None\<rparr>"

definition sdl_lex :: "sdl_parser \<Rightarrow> (token \<Rightarrow> sdl_parser \<Rightarrow> sdl_parser) \<Rightarrow> token sres" where
  "sdl_lex st f =
     (case next_token (sdl_lexer st) of
        (l, Inl e) \<Rightarrow> Some (Inl e)
      | (l, Inr t) \<Rightarrow> ret t (f t (st\<lparr>sdl_lexer := l\<rparr>)))"

definition sdl_peek :: "sdl_parser \<Rightarrow> token sres" where
  "sdl_peek st =
     (case sdl_peeked st of
        Some t \<Rightarrow> ret t st
      | None \<Rightarrow> sdl_lex st (\<lambda>t st. st\<lparr>sdl_peeked := Some t\<rparr>))"

definition sdl_bump :: "sdl_parser \<Rightarrow> token sres" where
  "sdl_bump st =
     (case sdl_peeked st of
        Some t \<Rightarrow> ret t (st\<lparr>sdl_peeked := None\<rparr>)
      | None \<Rightarrow> sdl_lex st (\<lambda>t st. st))"

definition sdl_slice :: "sdl_parser \<Rightarrow> span \<Rightarrow> string" where
  "sdl_slice st sp = src_slice (lx_bytes (sdl_lexer st)) sp"

definition sdl_expect :: "token_kind \<Rightarrow> parse_error_kind \<Rightarrow> sdl_parser \<Rightarrow> token sres" where
  "sdl_expect k err st =
     pbind (sdl_peek st) (\<lambda>t st. if tk_kind t = k then sdl_bump st else fail (tk_span t) err)"

definition sdl_expect_keyword :: "string \<Rightarrow> parse_error_kind \<Rightarrow> sdl_parser \<Rightarrow> token sres" where
  "sdl_expect_keyword kw err st =
     pbind (sdl_peek st) (\<lambda>t st.
       if tk_kind t = NameTok \<and> sdl_slice st (tk_span t) = kw then sdl_bump st else fail (tk_span t) err)"

definition sdl_parse_name :: "sdl_parser \<Rightarrow> name sres" where
  "sdl_parse_name st =
     pbind (sdl_peek st) (\<lambda>t st.
       if tk_kind t \<noteq> NameTok then fail (tk_span t) ExpectedName
       else pbind (sdl_bump st) (\<lambda>_ st.
         ret \<lparr>nm_value = sdl_slice st (tk_span t), nm_span = tk_span t\<rparr> st))"

text \<open>\<^verbatim>\<open>if self.peek()?.kind == k { p } else { d }\<close>.\<close>

definition sdl_if :: "token_kind \<Rightarrow> (sdl_parser \<Rightarrow> 'a sres) \<Rightarrow> 'a \<Rightarrow> sdl_parser \<Rightarrow> 'a sres" where
  "sdl_if k p d st = pbind (sdl_peek st) (\<lambda>t st. if tk_kind t = k then p st else ret d st)"

text \<open>The three loops that push onto a vector: up to a closing token, which is left to be read, while a
  token kind is seen, and the names after a separator.\<close>

fun sdl_until :: "nat \<Rightarrow> token_kind \<Rightarrow> (sdl_parser \<Rightarrow> 'a sres) \<Rightarrow> sdl_parser \<Rightarrow> 'a list sres" where
  "sdl_until 0 close item st = None"
| "sdl_until (Suc k) close item st =
     pbind (sdl_peek st) (\<lambda>t st.
       if tk_kind t = close then ret [] st
       else if tk_kind t = Eof then fail (tk_span t) UnclosedDelimiter
       else pbind (item st) (\<lambda>x st. pbind (sdl_until k close item st) (\<lambda>xs st. ret (x # xs) st)))"

fun sdl_while :: "nat \<Rightarrow> (token_kind \<Rightarrow> bool) \<Rightarrow> (sdl_parser \<Rightarrow> 'a sres) \<Rightarrow> sdl_parser \<Rightarrow> 'a list sres" where
  "sdl_while 0 continue item st = None"
| "sdl_while (Suc k) continue item st =
     pbind (sdl_peek st) (\<lambda>t st.
       if continue (tk_kind t)
       then pbind (item st) (\<lambda>x st. pbind (sdl_while k continue item st) (\<lambda>xs st. ret (x # xs) st))
       else ret [] st)"

text \<open>An optional leading separator, a name, and further names after separators.\<close>

definition sdl_separated :: "nat \<Rightarrow> token_kind \<Rightarrow> sdl_parser \<Rightarrow> name list sres" where
  "sdl_separated k sep st =
     pbind (sdl_if sep (\<lambda>st. pbind (sdl_bump st) (\<lambda>_ st. ret () st)) () st) (\<lambda>_ st.
     pbind (sdl_parse_name st) (\<lambda>first st.
     pbind (sdl_while k (\<lambda>t. t = sep) (\<lambda>st. pbind (sdl_bump st) (\<lambda>_ st. sdl_parse_name st)) st) (\<lambda>rest st.
       ret (first # rest) st)))"

section \<open>Shared productions\<close>

fun sdl_parse_type :: "nat \<Rightarrow> sdl_parser \<Rightarrow> gtype sres" where
  "sdl_parse_type 0 st = None"
| "sdl_parse_type (Suc k) st =
     pbind (sdl_peek st) (\<lambda>t st.
     pbind (if tk_kind t = NameTok then pbind (sdl_parse_name st) (\<lambda>n st. ret (Named \<lparr>nt_name = n\<rparr>) st)
            else if tk_kind t = LBracket then
              pbind (sdl_bump st) (\<lambda>_ st.
              pbind (sdl_parse_type k st) (\<lambda>elem st.
              pbind (sdl_expect RBracket UnclosedDelimiter st) (\<lambda>_ st. ret (TList elem) st)))
            else fail (tk_span t) ExpectedType) (\<lambda>inner st.
     pbind (sdl_peek st) (\<lambda>t st.
       if tk_kind t = Bang then pbind (sdl_bump st) (\<lambda>_ st. ret (NonNull inner) st)
       else ret inner st)))"

text \<open>\<^verbatim>\<open>skip_balanced_list\<close> and \<^verbatim>\<open>skip_balanced_object\<close>: tokens up to the matching closing token; the
  depth counter has 32 bits.\<close>

fun skip_loop :: "nat \<Rightarrow> token_kind \<Rightarrow> token_kind \<Rightarrow> 32 word \<Rightarrow> sdl_parser \<Rightarrow> unit sres" where
  "skip_loop 0 opening closing depth st = None"
| "skip_loop (Suc k) opening closing depth st =
     (if 0 < depth then
        pbind (sdl_bump st) (\<lambda>t st.
          if tk_kind t = opening then skip_loop k opening closing (depth + 1) st
          else if tk_kind t = closing then skip_loop k opening closing (depth - 1) st
          else if tk_kind t = Eof then fail (tk_span t) UnclosedDelimiter
          else skip_loop k opening closing depth st)
      else ret () st)"

definition skip_balanced_list :: "nat \<Rightarrow> sdl_parser \<Rightarrow> unit sres" where
  "skip_balanced_list k st = pbind (sdl_bump st) (\<lambda>_ st. skip_loop k LBracket RBracket 1 st)"

definition skip_balanced_object :: "nat \<Rightarrow> sdl_parser \<Rightarrow> unit sres" where
  "skip_balanced_object k st = pbind (sdl_bump st) (\<lambda>_ st. skip_loop k LBrace RBrace 1 st)"

definition parse_const_value :: "nat \<Rightarrow> sdl_parser \<Rightarrow> gvalue sres" where
  "parse_const_value k st =
     pbind (sdl_peek st) (\<lambda>t st.
       case tk_kind t of
         Dollar \<Rightarrow> fail (tk_span t) ExpectedValue
       | IntValue \<Rightarrow> pbind (sdl_bump st) (\<lambda>_ st. ret (VInt (sdl_slice st (tk_span t))) st)
       | FloatValue \<Rightarrow> pbind (sdl_bump st) (\<lambda>_ st. ret (VFloat (sdl_slice st (tk_span t))) st)
       | StringTok \<Rightarrow> pbind (sdl_bump st) (\<lambda>_ st.
           ret (VString \<lparr>sv_raw = sdl_slice st (tk_span t), sv_block = False, sv_span = tk_span t\<rparr>) st)
       | BlockStringValue \<Rightarrow> pbind (sdl_bump st) (\<lambda>_ st.
           ret (VString \<lparr>sv_raw = sdl_slice st (tk_span t), sv_block = True, sv_span = tk_span t\<rparr>) st)
       | NameTok \<Rightarrow> pbind (sdl_bump st) (\<lambda>_ st. ret (name_value (sdl_slice st (tk_span t)) (tk_span t)) st)
       | LBracket \<Rightarrow> pbind (skip_balanced_list k st) (\<lambda>_ st. ret VNull st)
       | LBrace \<Rightarrow> pbind (skip_balanced_object k st) (\<lambda>_ st. ret VNull st)
       | _ \<Rightarrow> fail (tk_span t) ExpectedValue)"

definition directive_arg_item :: "nat \<Rightarrow> sdl_parser \<Rightarrow> directive_arg sres" where
  "directive_arg_item k st =
     pbind (sdl_parse_name st) (\<lambda>n st.
     pbind (sdl_expect Colon ExpectedColon st) (\<lambda>_ st.
     pbind (parse_const_value k st) (\<lambda>v st. ret \<lparr>da_name = n, da_value = v\<rparr> st)))"

definition parse_directive_args :: "nat \<Rightarrow> sdl_parser \<Rightarrow> directive_arg list sres" where
  "parse_directive_args k st =
     pbind (sdl_expect LParen UnexpectedToken st) (\<lambda>_ st.
     pbind (sdl_until k RParen (directive_arg_item k) st) (\<lambda>xs st.
     pbind (sdl_bump st) (\<lambda>_ st. ret xs st)))"

definition directive_app_item :: "nat \<Rightarrow> sdl_parser \<Rightarrow> directive_app sres" where
  "directive_app_item k st =
     pbind (sdl_bump st) (\<lambda>_ st.
     pbind (sdl_parse_name st) (\<lambda>n st.
     pbind (sdl_if LParen (parse_directive_args k) [] st) (\<lambda>args st.
       ret \<lparr>dap_name = n, dap_arguments = args\<rparr> st)))"

definition parse_directive_apps :: "nat \<Rightarrow> sdl_parser \<Rightarrow> directive_app list sres" where
  "parse_directive_apps k = sdl_while k (\<lambda>t. t = At) (directive_app_item k)"

definition parse_description :: "sdl_parser \<Rightarrow> description option sres" where
  "parse_description st =
     pbind (sdl_peek st) (\<lambda>t st.
       case tk_kind t of
         StringTok \<Rightarrow> pbind (sdl_bump st) (\<lambda>_ st.
           ret (Some \<lparr>dsc_raw = sdl_slice st (tk_span t), dsc_block = False, dsc_span = tk_span t\<rparr>) st)
       | BlockStringValue \<Rightarrow> pbind (sdl_bump st) (\<lambda>_ st.
           ret (Some \<lparr>dsc_raw = sdl_slice st (tk_span t), dsc_block = True, dsc_span = tk_span t\<rparr>) st)
       | _ \<Rightarrow> ret None st)"

definition parse_input_value_def :: "nat \<Rightarrow> sdl_parser \<Rightarrow> input_value_def sres" where
  "parse_input_value_def k st =
     pbind (parse_description st) (\<lambda>desc st.
     pbind (sdl_parse_name st) (\<lambda>n st.
     pbind (sdl_expect Colon ExpectedColon st) (\<lambda>_ st.
     pbind (sdl_parse_type k st) (\<lambda>ty st.
     pbind (sdl_if EqTok (\<lambda>st. pbind (sdl_bump st) (\<lambda>_ st.
              pbind (parse_const_value k st) (\<lambda>v st. ret (Some v) st))) None st) (\<lambda>dv st.
     pbind (parse_directive_apps k st) (\<lambda>ds st.
       ret \<lparr>ivd_description = desc, ivd_name = n, ivd_value_type = ty, ivd_default_value = dv,
            ivd_directives = ds\<rparr> st))))))"

definition parse_arguments_definition :: "nat \<Rightarrow> sdl_parser \<Rightarrow> input_value_def list sres" where
  "parse_arguments_definition k st =
     pbind (sdl_expect LParen UnexpectedToken st) (\<lambda>_ st.
     pbind (sdl_until k RParen (parse_input_value_def k) st) (\<lambda>xs st.
     pbind (sdl_bump st) (\<lambda>_ st. ret xs st)))"

definition parse_field_def :: "nat \<Rightarrow> sdl_parser \<Rightarrow> field_def sres" where
  "parse_field_def k st =
     pbind (parse_description st) (\<lambda>desc st.
     pbind (sdl_parse_name st) (\<lambda>n st.
     pbind (sdl_if LParen (parse_arguments_definition k) [] st) (\<lambda>args st.
     pbind (sdl_expect Colon ExpectedColon st) (\<lambda>_ st.
     pbind (sdl_parse_type k st) (\<lambda>ty st.
     pbind (parse_directive_apps k st) (\<lambda>ds st.
       ret \<lparr>fd_description = desc, fd_name = n, fd_arguments = args, fd_field_type = ty, fd_directives = ds\<rparr> st))))))"

text \<open>A block \<^verbatim>\<open>{ item* }\<close>, with the end of its closing brace.\<close>

definition sdl_braces :: "nat \<Rightarrow> (sdl_parser \<Rightarrow> 'a sres) \<Rightarrow> sdl_parser \<Rightarrow> ('a list \<times> 32 word) sres" where
  "sdl_braces k item st =
     pbind (sdl_until k RBrace item st) (\<lambda>xs st.
     pbind (sdl_expect RBrace UnclosedDelimiter st) (\<lambda>close st. ret (xs, sp_end (tk_span close)) st))"

definition sdl_optional_braces :: "nat \<Rightarrow> (sdl_parser \<Rightarrow> 'a sres) \<Rightarrow> sdl_parser \<Rightarrow> ('a list \<times> 32 word option) sres" where
  "sdl_optional_braces k item st =
     sdl_if LBrace (\<lambda>st. pbind (sdl_bump st) (\<lambda>_ st.
       pbind (sdl_braces k item st) (\<lambda>(xs, e) st. ret (xs, Some e) st))) ([], None) st"

definition parse_optional_fields_definition :: "nat \<Rightarrow> sdl_parser \<Rightarrow> (field_def list \<times> 32 word option) sres" where
  "parse_optional_fields_definition k = sdl_optional_braces k (parse_field_def k)"

definition parse_implements_interfaces :: "nat \<Rightarrow> sdl_parser \<Rightarrow> named_type list sres" where
  "parse_implements_interfaces k st =
     pbind (sdl_peek st) (\<lambda>t st.
       if \<not> (tk_kind t = NameTok \<and> sdl_slice st (tk_span t) = ''implements'') then ret [] st
       else pbind (sdl_bump st) (\<lambda>_ st.
         pbind (sdl_separated k Amp st) (\<lambda>ns st. ret (map (\<lambda>n. \<lparr>nt_name = n\<rparr>) ns) st)))"

section \<open>Definitions\<close>

text \<open>\<^verbatim>\<open>directives.last().map(|d| d.name.span.end).unwrap_or(name.span.end)\<close>.\<close>

definition header_end :: "name \<Rightarrow> directive_app list \<Rightarrow> 32 word" where
  "header_end n ds = sp_end (nm_span (if ds = [] then n else dap_name (last ds)))"

definition operation_type_item :: "sdl_parser \<Rightarrow> operation_type_def sres" where
  "operation_type_item st =
     pbind (sdl_peek st) (\<lambda>t st.
       if tk_kind t \<noteq> NameTok then fail (tk_span t) ExpectedName
       else if sdl_slice st (tk_span t) \<notin> {''query'', ''mutation'', ''subscription''}
       then fail (tk_span t) ExpectedOperationKind
       else pbind (sdl_bump st) (\<lambda>op st.
         pbind (sdl_expect Colon ExpectedColon st) (\<lambda>_ st.
         pbind (sdl_parse_name st) (\<lambda>n st.
           ret \<lparr>otd_operation = sdl_slice st (tk_span op), otd_operation_span = tk_span op,
                otd_named_type = \<lparr>nt_name = n\<rparr>\<rparr> st))))"

definition parse_schema_def :: "nat \<Rightarrow> description option \<Rightarrow> sdl_parser \<Rightarrow> schema_def sres" where
  "parse_schema_def k desc st =
     pbind (sdl_bump st) (\<lambda>kw st.
     pbind (parse_directive_apps k st) (\<lambda>ds st.
     pbind (sdl_expect LBrace UnexpectedToken st) (\<lambda>_ st.
     pbind (sdl_braces k operation_type_item st) (\<lambda>(ops, e) st.
       ret \<lparr>sch_description = desc, sch_directives = ds, sch_operation_types = ops,
            sch_span = span_new (sp_start (tk_span kw)) e\<rparr> st))))"

definition parse_scalar_def :: "nat \<Rightarrow> description option \<Rightarrow> sdl_parser \<Rightarrow> scalar_type_def sres" where
  "parse_scalar_def k desc st =
     pbind (sdl_bump st) (\<lambda>kw st.
     pbind (sdl_parse_name st) (\<lambda>n st.
     pbind (parse_directive_apps k st) (\<lambda>ds st.
       ret \<lparr>scd_description = desc, scd_name = n, scd_directives = ds,
            scd_span = span_new (sp_start (tk_span kw)) (header_end n ds)\<rparr> st)))"

definition parse_object_def :: "nat \<Rightarrow> description option \<Rightarrow> sdl_parser \<Rightarrow> object_type_def sres" where
  "parse_object_def k desc st =
     pbind (sdl_bump st) (\<lambda>kw st.
     pbind (sdl_parse_name st) (\<lambda>n st.
     pbind (parse_implements_interfaces k st) (\<lambda>impls st.
     pbind (parse_directive_apps k st) (\<lambda>ds st.
     pbind (parse_optional_fields_definition k st) (\<lambda>(fs, e) st.
       ret \<lparr>otd_description = desc, otd_name = n, otd_implements = impls, otd_directives = ds, otd_fields = fs,
            otd_span = span_new (sp_start (tk_span kw)) (case e of Some x \<Rightarrow> x | None \<Rightarrow> header_end n ds)\<rparr> st)))))"

definition parse_interface_def :: "nat \<Rightarrow> description option \<Rightarrow> sdl_parser \<Rightarrow> interface_type_def sres" where
  "parse_interface_def k desc st =
     pbind (sdl_bump st) (\<lambda>kw st.
     pbind (sdl_parse_name st) (\<lambda>n st.
     pbind (parse_implements_interfaces k st) (\<lambda>impls st.
     pbind (parse_directive_apps k st) (\<lambda>ds st.
     pbind (parse_optional_fields_definition k st) (\<lambda>(fs, e) st.
       ret \<lparr>itd_description = desc, itd_name = n, itd_implements = impls, itd_directives = ds, itd_fields = fs,
            itd_span = span_new (sp_start (tk_span kw)) (case e of Some x \<Rightarrow> x | None \<Rightarrow> header_end n ds)\<rparr> st)))))"

definition parse_union_def :: "nat \<Rightarrow> description option \<Rightarrow> sdl_parser \<Rightarrow> union_type_def sres" where
  "parse_union_def k desc st =
     pbind (sdl_bump st) (\<lambda>kw st.
     pbind (sdl_parse_name st) (\<lambda>n st.
     pbind (parse_directive_apps k st) (\<lambda>ds st.
     pbind (sdl_if EqTok (\<lambda>st. pbind (sdl_bump st) (\<lambda>_ st. sdl_separated k Pipe st)) [] st) (\<lambda>ms st.
       ret \<lparr>utd_description = desc, utd_name = n, utd_directives = ds, utd_members = map (\<lambda>m. \<lparr>nt_name = m\<rparr>) ms,
            utd_span = span_new (sp_start (tk_span kw)) (if ms = [] then header_end n ds else sp_end (nm_span (last ms)))\<rparr> st))))"

definition enum_value_item :: "nat \<Rightarrow> sdl_parser \<Rightarrow> enum_value_def sres" where
  "enum_value_item k st =
     pbind (parse_description st) (\<lambda>desc st.
     pbind (sdl_parse_name st) (\<lambda>n st.
     pbind (parse_directive_apps k st) (\<lambda>ds st.
       ret \<lparr>evd_description = desc, evd_name = n, evd_directives = ds\<rparr> st)))"

definition parse_enum_def :: "nat \<Rightarrow> description option \<Rightarrow> sdl_parser \<Rightarrow> enum_type_def sres" where
  "parse_enum_def k desc st =
     pbind (sdl_bump st) (\<lambda>kw st.
     pbind (sdl_parse_name st) (\<lambda>n st.
     pbind (parse_directive_apps k st) (\<lambda>ds st.
     pbind (sdl_optional_braces k (enum_value_item k) st) (\<lambda>(vs, e) st.
       ret \<lparr>etd_description = desc, etd_name = n, etd_directives = ds, etd_values = vs,
            etd_span = span_new (sp_start (tk_span kw)) (case e of Some x \<Rightarrow> x | None \<Rightarrow> header_end n ds)\<rparr> st))))"

definition parse_input_object_def :: "nat \<Rightarrow> description option \<Rightarrow> sdl_parser \<Rightarrow> input_object_type_def sres" where
  "parse_input_object_def k desc st =
     pbind (sdl_bump st) (\<lambda>kw st.
     pbind (sdl_parse_name st) (\<lambda>n st.
     pbind (parse_directive_apps k st) (\<lambda>ds st.
     pbind (sdl_optional_braces k (parse_input_value_def k) st) (\<lambda>(fs, e) st.
       ret \<lparr>iod_description = desc, iod_name = n, iod_directives = ds, iod_fields = fs,
            iod_span = span_new (sp_start (tk_span kw)) (case e of Some x \<Rightarrow> x | None \<Rightarrow> header_end n ds)\<rparr> st))))"

definition parse_repeatable :: "sdl_parser \<Rightarrow> bool sres" where
  "parse_repeatable st =
     pbind (sdl_peek st) (\<lambda>t st.
       if tk_kind t = NameTok \<and> sdl_slice st (tk_span t) = ''repeatable''
       then pbind (sdl_bump st) (\<lambda>_ st. ret True st) else ret False st)"

definition parse_directive_def :: "nat \<Rightarrow> description option \<Rightarrow> sdl_parser \<Rightarrow> directive_def sres" where
  "parse_directive_def k desc st =
     pbind (sdl_bump st) (\<lambda>kw st.
     pbind (sdl_expect At UnexpectedToken st) (\<lambda>_ st.
     pbind (sdl_parse_name st) (\<lambda>n st.
     pbind (sdl_if LParen (parse_arguments_definition k) [] st) (\<lambda>args st.
     pbind (parse_repeatable st) (\<lambda>rep st.
     pbind (sdl_expect_keyword ''on'' ExpectedOnKeyword st) (\<lambda>_ st.
     pbind (sdl_separated k Pipe st) (\<lambda>locs st.
       ret \<lparr>dd_description = desc, dd_name = n, dd_arguments = args, dd_repeatable = rep,
            dd_locations = map (\<lambda>l. \<lparr>dl_name = l\<rparr>) locs,
            dd_span = span_new (sp_start (tk_span kw)) (sp_end (nm_span (last locs)))\<rparr> st)))))))"

definition parse_type_system_definition :: "nat \<Rightarrow> sdl_parser \<Rightarrow> type_system_definition sres" where
  "parse_type_system_definition k st =
     pbind (parse_description st) (\<lambda>desc st.
     pbind (sdl_peek st) (\<lambda>t st.
       if tk_kind t \<noteq> NameTok then fail (tk_span t) UnknownDefinition
       else
         (let kw = sdl_slice st (tk_span t) in
          if kw = ''schema'' then pbind (parse_schema_def k desc st) (\<lambda>d st. ret (TSchema d) st)
          else if kw = ''scalar'' then pbind (parse_scalar_def k desc st) (\<lambda>d st. ret (TScalar d) st)
          else if kw = ''type'' then pbind (parse_object_def k desc st) (\<lambda>d st. ret (TObject d) st)
          else if kw = ''interface'' then pbind (parse_interface_def k desc st) (\<lambda>d st. ret (TInterface d) st)
          else if kw = ''union'' then pbind (parse_union_def k desc st) (\<lambda>d st. ret (TUnion d) st)
          else if kw = ''enum'' then pbind (parse_enum_def k desc st) (\<lambda>d st. ret (TEnum d) st)
          else if kw = ''input'' then pbind (parse_input_object_def k desc st) (\<lambda>d st. ret (TInputObject d) st)
          else if kw = ''directive'' then pbind (parse_directive_def k desc st) (\<lambda>d st. ret (TDirective d) st)
          else fail (tk_span t) UnknownDefinition)))"

definition sdl_parse_document :: "nat \<Rightarrow> sdl_parser \<Rightarrow> schema_document sres" where
  "sdl_parse_document k st =
     pbind (sdl_while k (\<lambda>t. t \<noteq> Eof) (parse_type_system_definition k) st) (\<lambda>ds st.
       if ds = [] then fail (span_at 0 (length (lx_bytes (sdl_lexer st)))) UnexpectedEof
       else ret \<lparr>sd_definitions = ds\<rparr> st)"

definition parse_schema :: "string \<Rightarrow> (parse_error + schema_document) option" where
  "parse_schema src = map_option (map_sum id fst) (sdl_parse_document (2 * length src + 1) (sdl_new src))"

section \<open>Progress\<close>

text \<open>The measure of \<^verbatim>\<open>Gql_Parse\<close> on the smaller state, and the states reached from \<open>s\<close>, after consuming
  input if \<open>c\<close>.\<close>

definition srem :: "sdl_parser \<Rightarrow> nat" where
  "srem st = 2 * (length (lx_bytes (sdl_lexer st)) - lx_pos (sdl_lexer st)) +
     (case sdl_peeked st of None \<Rightarrow> 0 | Some t \<Rightarrow> if tk_kind t = Eof then 0 else 1)"

definition sat :: "bool \<Rightarrow> sdl_parser \<Rightarrow> sdl_parser \<Rightarrow> bool" where
  "sat c s st \<longleftrightarrow> lexer_inv (sdl_lexer st) \<and> lx_bytes (sdl_lexer st) = lx_bytes (sdl_lexer s) \<and>
     srem st \<le> srem s \<and> (c \<longrightarrow> srem st < srem s)"

lemma sat_start: "lexer_inv (sdl_lexer s) \<Longrightarrow> sat False s s"
  and sat_weaken: "sat c s st \<Longrightarrow> (d \<Longrightarrow> c) \<Longrightarrow> sat d s st"
  and sat_fuel: "sat c s st \<Longrightarrow> srem s < k \<Longrightarrow> srem st < k"
  and sat_fuel_Suc: "sat True s st \<Longrightarrow> srem s < Suc k \<Longrightarrow> srem st < k"
  and sat_inv: "sat c s st \<Longrightarrow> lexer_inv (sdl_lexer st)"
  and sat_slice: "sat c s st \<Longrightarrow> sdl_slice st = sdl_slice s"
  and sat_trans: "sat c s st \<Longrightarrow> sat d st st' \<Longrightarrow> sat (c \<or> d) s st'"
  by (auto simp: sat_def sdl_slice_def)

lemma next_token_srem:
  assumes "lexer_inv (sdl_lexer st)" and "sdl_peeked st = None" and "next_token (sdl_lexer st) = (l, Inr t)"
  shows "sat (tk_kind t \<noteq> Eof) st (st\<lparr>sdl_lexer := l\<rparr>)" and "sat False st (st\<lparr>sdl_lexer := l, sdl_peeked := Some t\<rparr>)"
proof -
  note p = next_token_pos [OF assms(1,3)] and f = next_token_frame [OF assms(3)]
  show "sat (tk_kind t \<noteq> Eof) st (st\<lparr>sdl_lexer := l\<rparr>)" "sat False st (st\<lparr>sdl_lexer := l, sdl_peeked := Some t\<rparr>)"
    using p f assms(2) lexer_inv_next [OF assms(1,3)] by (cases "tk_kind t = Eof"; force simp: sat_def srem_def)+
qed

lemma sdl_peek_post:
  assumes "lexer_inv (sdl_lexer st)"
  shows "post (sdl_peek st) (\<lambda>t st'. sat False st st' \<and> sdl_peeked st' = Some t)"
  using assms next_token_srem(2) [OF assms]
  by (auto simp: sdl_peek_def sdl_lex_def sat_start split: option.split prod.split sum.split)

lemma sdl_bump_post:
  assumes "lexer_inv (sdl_lexer st)"
  shows "post (sdl_bump st) (\<lambda>t st'. sat (tk_kind t \<noteq> Eof) st st' \<and> (case sdl_peeked st of None \<Rightarrow> True | Some t0 \<Rightarrow> t = t0))"
proof (cases "sdl_peeked st")
  case None
  then show ?thesis using next_token_srem(1) [OF assms]
    by (auto simp: sdl_bump_def sdl_lex_def split: prod.split sum.split)
next
  case (Some t)
  then show ?thesis using assms by (simp add: sdl_bump_def sat_def srem_def)
qed

section \<open>Contracts\<close>

text \<open>With fuel above the measure a production ends, consumes input if \<open>c\<close>, and its result satisfies \<open>R\<close>.\<close>

definition yields :: "bool \<Rightarrow> nat \<Rightarrow> (sdl_parser \<Rightarrow> 'a sres) \<Rightarrow> ('a \<Rightarrow> bool) \<Rightarrow> bool" where
  "yields c k p R \<longleftrightarrow> (\<forall>st. lexer_inv (sdl_lexer st) \<longrightarrow> srem st < k \<longrightarrow> post (p st) (\<lambda>x st'. sat c st st' \<and> R x))"

lemma yieldsI:
  "(\<And>st. srem st < k \<Longrightarrow> sat False st st \<Longrightarrow> post (p st) (\<lambda>x st'. sat c st st' \<and> R x)) \<Longrightarrow> yields c k p R"
  by (simp add: yields_def sat_start)

lemma yields_bind:
  assumes "sat c s st" and "yields d k p R" and "srem st < k"
    and "\<And>x st'. sat (c \<or> d) s st' \<Longrightarrow> R x \<Longrightarrow> post (f x st') Q"
  shows "post (pbind (p st) f) Q"
proof (rule bindI)
  show "post (p st) (\<lambda>x st'. sat d st st' \<and> R x)"
    using assms(2,3) sat_inv [OF assms(1)] by (simp add: yields_def)
  show "post (f x st') Q" if "sat d st st' \<and> R x" for x st'
    using that assms(4) sat_trans [OF assms(1)] by blast
qed

lemma yields_bind_same:
  assumes "sat c s st" and "srem s < k" and "yields d k p R"
    and "\<And>x st'. sat (c \<or> d) s st' \<Longrightarrow> R x \<Longrightarrow> post (f x st') Q"
  shows "post (pbind (p st) f) Q"
  using yields_bind [OF assms(1,3) sat_fuel [OF assms(1,2)]] assms(4) by blast

lemma yields_bind_Suc:
  assumes "sat True s st" and "srem s < Suc k" and "yields d k p R"
    and "\<And>x st'. sat True s st' \<Longrightarrow> R x \<Longrightarrow> post (f x st') Q"
  shows "post (pbind (p st) f) Q"
  by (rule yields_bind [OF assms(1,3) sat_fuel_Suc [OF assms(1,2)]]) (use assms(4) in simp)

lemma speek_bind:
  assumes "sat c s st" and "\<And>t st'. sat c s st' \<Longrightarrow> sdl_peeked st' = Some t \<Longrightarrow> post (f t st') Q"
  shows "post (pbind (sdl_peek st) f) Q"
proof (rule bindI [OF sdl_peek_post [OF sat_inv [OF assms(1)]]])
  show "post (f t st') Q" if "sat False st st' \<and> sdl_peeked st' = Some t" for t st'
    using that assms(2) sat_trans [OF assms(1)] by fastforce
qed

lemma sbump_bind:
  assumes "sat c s st" and "sdl_peeked st = Some t" and "tk_kind t \<noteq> Eof"
    and "\<And>st'. sat True s st' \<Longrightarrow> post (f t st') Q"
  shows "post (pbind (sdl_bump st) f) Q"
proof (rule bindI [OF sdl_bump_post [OF sat_inv [OF assms(1)]]])
  show "post (f t' st') Q" if "sat (tk_kind t' \<noteq> Eof) st st' \<and> (case sdl_peeked st of None \<Rightarrow> True | Some t0 \<Rightarrow> t' = t0)" for t' st'
    using that assms(2-4) sat_trans [OF assms(1), of True] by auto
qed

lemma sbump_post:
  assumes "sat c s st" and "sdl_peeked st = Some t" and "tk_kind t \<noteq> Eof"
  shows "post (sdl_bump st) (\<lambda>t' st'. sat True s st')"
  using sbump_bind [OF assms, of ret "\<lambda>t' st'. sat True s st'"] by (simp add: post_bind)

lemma sdl_expect_yields: "t \<noteq> Eof \<Longrightarrow> yields True k (sdl_expect t err) (\<lambda>_. True)"
  and sdl_expect_keyword_yields: "yields True k (sdl_expect_keyword kw err) (\<lambda>_. True)"
  unfolding sdl_expect_def sdl_expect_keyword_def
  by (rule yieldsI, erule speek_bind, auto intro: post_mono [OF sbump_post])+

lemma sdl_parse_name_yields: "yields True k sdl_parse_name (\<lambda>_. True)"
  unfolding sdl_parse_name_def
  by (rule yieldsI, erule speek_bind, rule post_ifI, rule post_failI, erule sbump_bind) auto

lemmas sexpect_bind = yields_bind [OF _ sdl_expect_yields, where k = "Suc (srem st)" for st, OF _ _ lessI, simplified]
lemmas skeyword_bind = yields_bind [OF _ sdl_expect_keyword_yields, where k = "Suc (srem st)" for st, OF _ lessI, simplified]
lemmas sname_bind = yields_bind [OF _ sdl_parse_name_yields, where k = "Suc (srem st)" for st, OF _ lessI, simplified]

lemma sif_bind:
  assumes "sat c s st"
    and "\<And>t st'. sat c s st' \<Longrightarrow> sdl_peeked st' = Some t \<Longrightarrow> tk_kind t = k \<Longrightarrow> post (pbind (p st') f) Q"
    and "\<And>st'. sat c s st' \<Longrightarrow> post (f d st') Q"
  shows "post (pbind (sdl_if k p d st) f) Q"
  unfolding sdl_if_def pbind_assoc pbind_simps
  by (rule speek_bind [OF assms(1)]) (use assms(2,3) in auto)

text \<open>The contract of an item of a loop: started before a token it consumes at least that token, and the
  value it pushes satisfies \<open>R\<close>.\<close>

locale sdl_item =
  fixes item :: "sdl_parser \<Rightarrow> 'a sres" and k :: nat and R :: "'a \<Rightarrow> bool"
  assumes item_post: "sat False st st \<Longrightarrow> srem st < k \<Longrightarrow> sdl_peeked st = Some t \<Longrightarrow> tk_kind t \<noteq> Eof \<Longrightarrow>
    post (item st) (\<lambda>x st'. sat True st st' \<and> R x)"
begin

lemma item_bind:
  assumes "sat c s st" and "srem s < k" and "sdl_peeked st = Some t" and "tk_kind t \<noteq> Eof"
    and "\<And>x st'. sat True s st' \<Longrightarrow> R x \<Longrightarrow> post (f x st') Q"
  shows "post (pbind (item st) f) Q"
proof (rule bindI [OF item_post [OF sat_start [OF sat_inv [OF assms(1)]] sat_fuel [OF assms(1,2)] assms(3,4)]])
  show "post (f x st') Q" if "sat True st st' \<and> R x" for x st'
    using that assms(5) sat_trans [OF assms(1)] by fastforce
qed

lemma until_post:
  assumes "sat False st st" and "srem st < j" and "srem st < k"
  shows "post (sdl_until j close item st)
    (\<lambda>xs st'. sat False st st' \<and> list_all R xs \<and> (\<exists>t. sdl_peeked st' = Some t \<and> tk_kind t = close))"
  using assms
proof (induction j arbitrary: st)
  case (Suc j)
  have step: "post (pbind (sdl_until j close item st2) (\<lambda>xs st. ret (x # xs) st))
      (\<lambda>xs st'. sat False st st' \<and> list_all R xs \<and> (\<exists>t. sdl_peeked st' = Some t \<and> tk_kind t = close))"
    if st2: "sat True st st2" "R x" for x st2
  proof (rule bindI [OF Suc.IH])
    show "sat False st2 st2" "srem st2 < j" "srem st2 < k"
      using st2 Suc.prems by (auto simp: sat_def)
  qed (use st2 in \<open>auto simp: sat_def\<close>)
  show ?case
    unfolding sdl_until.simps
    by (rule speek_bind [OF Suc.prems(1)], intro post_ifI)
      (auto intro!: item_bind [OF _ Suc.prems(3)] step)
qed simp

lemma while_post:
  assumes "sat False st st" and "srem st < j" and "srem st < k" and "\<not> continue Eof"
  shows "post (sdl_while j continue item st) (\<lambda>xs st'. sat False st st' \<and> list_all R xs)"
  using assms
proof (induction j arbitrary: st)
  case (Suc j)
  have step: "post (pbind (sdl_while j continue item st2) (\<lambda>xs st. ret (x # xs) st))
      (\<lambda>xs st'. sat False st st' \<and> list_all R xs)" if st2: "sat True st st2" "R x" for x st2
  proof (rule bindI [OF Suc.IH])
    show "sat False st2 st2" "srem st2 < j" "srem st2 < k" "\<not> continue Eof"
      using st2 Suc.prems by (auto simp: sat_def)
  qed (use st2 in \<open>auto simp: sat_def\<close>)
  have ne: "tk_kind t \<noteq> Eof" if "continue (tk_kind t)" for t using that Suc.prems(4) by metis
  show ?case
    unfolding sdl_while.simps
    by (rule speek_bind [OF Suc.prems(1)], intro post_ifI)
      (auto intro!: item_bind [OF _ Suc.prems(3)] step ne)
qed simp

lemma while_yields: "\<not> continue Eof \<Longrightarrow> yields False k (sdl_while k continue item) (list_all R)"
  by (rule yieldsI) (rule while_post)

lemma until_bind:
  assumes "sat c s st" and "srem s < k"
    and "\<And>xs t st'. sat c s st' \<Longrightarrow> list_all R xs \<Longrightarrow> sdl_peeked st' = Some t \<Longrightarrow> tk_kind t = close \<Longrightarrow> post (f xs st') Q"
  shows "post (pbind (sdl_until k close item st) f) Q"
proof (rule bindI [OF until_post])
  show "sat False st st" "srem st < k" "srem st < k" using assms(1,2) by (auto simp: sat_def)
  show "post (f xs st') Q"
    if "sat False st st' \<and> list_all R xs \<and> (\<exists>t. sdl_peeked st' = Some t \<and> tk_kind t = close)" for xs st'
    using that assms(3) sat_trans [OF assms(1), of False st'] by auto
qed

lemma braces_yields: "yields True k (sdl_braces k item) (\<lambda>(xs, _). list_all R xs)"
  unfolding sdl_braces_def
proof (rule yieldsI, erule until_bind, assumption)
  fix st xs t st'
  assume "sat False st st'" "list_all R xs"
  then show "post (pbind (sdl_expect RBrace UnclosedDelimiter st') (\<lambda>close st. ret (xs, sp_end (tk_span close)) st))
      (\<lambda>x st'. sat True st st' \<and> (case x of (xs, _) \<Rightarrow> list_all R xs))"
    by (rule_tac sexpect_bind) auto
qed

lemma optional_braces_yields: "yields False k (sdl_optional_braces k item) (\<lambda>(xs, _). list_all R xs)"
proof (rule yieldsI)
  fix st
  assume fuel: "srem st < k" and start: "sat False st st"
  show "post (sdl_optional_braces k item st) (\<lambda>x st'. sat False st st' \<and> (case x of (xs, _) \<Rightarrow> list_all R xs))"
    unfolding sdl_optional_braces_def sdl_if_def
    by (rule speek_bind [OF start], rule post_ifI, erule sbump_bind, simp, simp,
        erule yields_bind_same [OF _ fuel braces_yields]) (auto intro: sat_weaken)
qed

lemma parens_yields:
  "yields True k (\<lambda>st. pbind (sdl_expect LParen UnexpectedToken st) (\<lambda>_ st.
     pbind (sdl_until k RParen item st) (\<lambda>xs st. pbind (sdl_bump st) (\<lambda>_ st. ret xs st)))) (list_all R)"
  by (rule yieldsI, erule sexpect_bind, simp, erule until_bind, assumption, erule sbump_bind)
    (auto intro: sat_weaken)

end

lemma sdl_itemI: "yields True k item R \<Longrightarrow> sdl_item item k R"
  by unfold_locales (simp add: yields_def sat_inv)

section \<open>Shared productions end\<close>

lemma bump_name_item: "sdl_item (\<lambda>st. pbind (sdl_bump st) (\<lambda>_ st. sdl_parse_name st)) k (\<lambda>_. True)"
proof
  fix st t
  assume "sat False st st" "sdl_peeked st = Some t" "tk_kind t \<noteq> Eof"
  then show "post (pbind (sdl_bump st) (\<lambda>_ st. sdl_parse_name st)) (\<lambda>x st'. sat True st st' \<and> True)"
  proof (rule sbump_bind)
    fix st'
    assume "sat True st st'"
    then show "post (sdl_parse_name st') (\<lambda>x st'. sat True st st' \<and> True)"
      using sname_bind [of True st st' ret] by (simp add: post_bind)
  qed
qed

interpretation separated_names: sdl_item "\<lambda>st. pbind (sdl_bump st) (\<lambda>_ st. sdl_parse_name st)" k "\<lambda>_. True" for k
  by (rule bump_name_item)

lemma sdl_separated_yields: "sep \<noteq> Eof \<Longrightarrow> yields True k (sdl_separated k sep) (\<lambda>ns. ns \<noteq> [])"
proof (rule yieldsI)
  fix st
  assume sep: "sep \<noteq> Eof" and fuel: "srem st < k" and start: "sat False st st"
  have rest: "post (pbind (sdl_parse_name st') (\<lambda>first st. pbind (sdl_while k (\<lambda>t. t = sep)
      (\<lambda>st. pbind (sdl_bump st) (\<lambda>_ st. sdl_parse_name st)) st) (\<lambda>rest st. ret (first # rest) st)))
      (\<lambda>ns st'. sat True st st' \<and> ns \<noteq> [])" if "sat c st st'" for c st'
    using that
    by (rule sname_bind, erule_tac yields_bind_same [OF _ fuel separated_names.while_yields]) (use sep in auto)
  show "post (sdl_separated k sep st) (\<lambda>ns st'. sat True st st' \<and> ns \<noteq> [])"
    unfolding sdl_separated_def
    by (rule sif_bind [OF start], unfold pbind_assoc pbind_simps)
      (erule sbump_bind, assumption, use sep in simp, erule rest, erule rest)
qed

lemma sdl_parse_type_yields: "yields True k (sdl_parse_type k) (\<lambda>_. True)"
proof (induction k)
  case (Suc k)
  show ?case
  proof (rule yieldsI)
    fix st
    assume fuel: "srem st < Suc k" and start: "sat False st st"
    note rec = yields_bind_Suc [OF _ fuel Suc]
    show "post (sdl_parse_type (Suc k) st) (\<lambda>x st'. sat True st st' \<and> True)"
      unfolding sdl_parse_type.simps using start
      by (simp only: pbind_assoc pbind_simps)
        (erule speek_bind sname_bind sbump_bind sexpect_bind rec | assumption
        | rule post_ifI post_retI post_failI | simp; fail)+
  qed
qed (simp add: yields_def)

lemma skip_loop_post:
  assumes "sat c s st" and "srem st < k" and "opening \<noteq> Eof" and "closing \<noteq> Eof"
  shows "post (skip_loop k opening closing depth st) (\<lambda>_ st'. sat c s st')"
  using assms(1,2)
proof (induction k arbitrary: st depth)
  case (Suc k)
  have step: "post (skip_loop k opening closing d st') (\<lambda>_ st'. sat c s st')" if "sat True st st'" for d st'
    by (rule Suc.IH) (use that Suc.prems sat_trans [OF Suc.prems(1) that] in \<open>auto simp: sat_def\<close>)
  have "post (pbind (sdl_bump st) (\<lambda>t st.
      if tk_kind t = opening then skip_loop k opening closing (depth + 1) st
      else if tk_kind t = closing then skip_loop k opening closing (depth - 1) st
      else if tk_kind t = Eof then fail (tk_span t) UnclosedDelimiter
      else skip_loop k opening closing depth st)) (\<lambda>_ st'. sat c s st')"
    by (rule bindI [OF sdl_bump_post [OF sat_inv [OF Suc.prems(1)]]], intro post_ifI post_failI)
      (rule step; use assms(3,4) in simp)+
  then show ?case using Suc.prems(1) by simp
qed simp

lemma skip_balanced_bind:
  assumes "sat c s st" and "srem s < k" and "sdl_peeked st = Some t" and "tk_kind t \<noteq> Eof"
    and "\<And>st'. sat True s st' \<Longrightarrow> post (f () st') Q"
  shows "post (pbind (skip_balanced_list k st) f) Q" and "post (pbind (skip_balanced_object k st) f) Q"
  unfolding skip_balanced_list_def skip_balanced_object_def pbind_assoc
  by (rule sbump_bind [OF assms(1,3,4)], rule bindI [OF skip_loop_post], assumption,
      erule sat_fuel [OF _ assms(2)], simp, simp, simp add: assms(5))+

section \<open>Well-formed schema documents\<close>

text \<open>Constants are scalars: lists and objects are read as null, and there are no variables.\<close>

fun flat_value :: "gvalue \<Rightarrow> bool" where
  "flat_value (VVariable _) \<longleftrightarrow> False"
| "flat_value (VList _) \<longleftrightarrow> False"
| "flat_value (VObject _) \<longleftrightarrow> False"
| "flat_value _ \<longleftrightarrow> True"

definition directives_wf :: "directive_app list \<Rightarrow> bool" where
  "directives_wf ds \<longleftrightarrow> list_all (\<lambda>d. list_all (\<lambda>a. flat_value (da_value a)) (dap_arguments d)) ds"

definition input_value_wf :: "input_value_def \<Rightarrow> bool" where
  "input_value_wf v \<longleftrightarrow> directives_wf (ivd_directives v) \<and> (case ivd_default_value v of None \<Rightarrow> True | Some d \<Rightarrow> flat_value d)"

definition field_wf :: "field_def \<Rightarrow> bool" where
  "field_wf f \<longleftrightarrow> list_all input_value_wf (fd_arguments f) \<and> directives_wf (fd_directives f)"

definition operation_names :: "string set" where
  "operation_names = {''query'', ''mutation'', ''subscription''}"

fun definition_wf :: "type_system_definition \<Rightarrow> bool" where
  "definition_wf (TSchema d) \<longleftrightarrow> directives_wf (sch_directives d) \<and>
     list_all (\<lambda>ot. otd_operation ot \<in> operation_names) (sch_operation_types d)"
| "definition_wf (TScalar d) \<longleftrightarrow> directives_wf (scd_directives d)"
| "definition_wf (TObject d) \<longleftrightarrow> directives_wf (otd_directives d) \<and> list_all field_wf (otd_fields d)"
| "definition_wf (TInterface d) \<longleftrightarrow> directives_wf (itd_directives d) \<and> list_all field_wf (itd_fields d)"
| "definition_wf (TUnion d) \<longleftrightarrow> directives_wf (utd_directives d)"
| "definition_wf (TEnum d) \<longleftrightarrow> directives_wf (etd_directives d) \<and> list_all (\<lambda>v. directives_wf (evd_directives v)) (etd_values d)"
| "definition_wf (TInputObject d) \<longleftrightarrow> directives_wf (iod_directives d) \<and> list_all input_value_wf (iod_fields d)"
| "definition_wf (TDirective d) \<longleftrightarrow> list_all input_value_wf (dd_arguments d) \<and> dd_locations d \<noteq> []"

lemma flat_name_value [simp]: "flat_value (name_value lx sp)"
  by (simp add: name_value_def)

lemma parse_const_value_yields: "yields True k (parse_const_value k) flat_value"
proof (rule yieldsI)
  fix st
  assume fuel: "srem st < k" and start: "sat False st st"
  note skip = skip_balanced_bind [OF _ fuel]
  show "post (parse_const_value k st) (\<lambda>x st'. sat True st st' \<and> flat_value x)"
    unfolding parse_const_value_def
    by (rule speek_bind [OF start]) (auto split: token_kind.split intro!: sbump_bind skip)
qed

lemma parse_description_yields: "yields False k parse_description (\<lambda>_. True)"
  unfolding parse_description_def
  by (rule yieldsI, erule speek_bind) (auto split: token_kind.split intro!: sbump_bind intro: sat_weaken)

lemma directive_arg_yields: "yields True k (directive_arg_item k) (\<lambda>a. flat_value (da_value a))"
proof (rule yieldsI)
  fix st
  assume fuel: "srem st < k" and start: "sat False st st"
  note recs = yields_bind_same [OF _ fuel parse_const_value_yields]
  show "post (directive_arg_item k st) (\<lambda>x st'. sat True st st' \<and> flat_value (da_value x))"
    unfolding directive_arg_item_def using start
    by (erule_tac sname_bind, erule_tac sexpect_bind, simp, erule_tac recs) auto
qed

interpretation directive_args: sdl_item "directive_arg_item k" k "\<lambda>a. flat_value (da_value a)" for k
  by (rule sdl_itemI [OF directive_arg_yields])

lemma directive_args_yields: "yields True k (parse_directive_args k) (list_all (\<lambda>a. flat_value (da_value a)))"
  unfolding parse_directive_args_def by (rule directive_args.parens_yields)

interpretation directive_apps: sdl_item "directive_app_item k" k
    "\<lambda>d. list_all (\<lambda>a. flat_value (da_value a)) (dap_arguments d)" for k
proof
  fix st t
  assume start: "sat False st st" and fuel: "srem st < k" and t: "sdl_peeked st = Some t" "tk_kind t \<noteq> Eof"
  note recs = yields_bind_same [OF _ fuel directive_args_yields]
  show "post (directive_app_item k st) (\<lambda>d st'. sat True st st' \<and> list_all (\<lambda>a. flat_value (da_value a)) (dap_arguments d))"
    unfolding directive_app_item_def
    by (rule sbump_bind [OF start t], erule sname_bind, erule sif_bind, erule recs) auto
qed

lemma directives_yields: "yields False k (parse_directive_apps k) directives_wf"
  using directive_apps.while_yields [of "\<lambda>t. t = At" k] by (simp add: parse_directive_apps_def directives_wf_def [abs_def])

lemma input_value_yields: "yields True k (parse_input_value_def k) input_value_wf"
proof (rule yieldsI)
  fix st
  assume fuel: "srem st < k" and start: "sat False st st"
  note recs = yields_bind_same [OF _ fuel parse_description_yields] yields_bind_same [OF _ fuel sdl_parse_type_yields]
    yields_bind_same [OF _ fuel parse_const_value_yields] yields_bind_same [OF _ fuel directives_yields]
  show "post (parse_input_value_def k st) (\<lambda>x st'. sat True st st' \<and> input_value_wf x)"
    unfolding parse_input_value_def_def using start
    by - (erule recs(1), erule sname_bind, erule sexpect_bind, simp, erule recs(2), erule sif_bind,
        unfold pbind_assoc pbind_simps, erule sbump_bind, assumption, simp, erule recs(3), erule recs(4),
        simp add: input_value_wf_def, erule recs(4), simp add: input_value_wf_def)
qed

interpretation input_values: sdl_item "parse_input_value_def k" k input_value_wf for k
  by (rule sdl_itemI [OF input_value_yields])

lemma arguments_definition_yields: "yields True k (parse_arguments_definition k) (list_all input_value_wf)"
  unfolding parse_arguments_definition_def by (rule input_values.parens_yields)

lemma field_yields: "yields True k (parse_field_def k) field_wf"
proof (rule yieldsI)
  fix st
  assume fuel: "srem st < k" and start: "sat False st st"
  note recs = yields_bind_same [OF _ fuel parse_description_yields] yields_bind_same [OF _ fuel sdl_parse_type_yields]
    yields_bind_same [OF _ fuel arguments_definition_yields] yields_bind_same [OF _ fuel directives_yields]
  show "post (parse_field_def k st) (\<lambda>x st'. sat True st st' \<and> field_wf x)"
    unfolding parse_field_def_def using start
    by - (erule recs(1), erule sname_bind, erule sif_bind, erule recs(3),
        (erule sexpect_bind, simp, erule recs(2), erule recs(4), simp add: field_wf_def)+)
qed

interpretation fields: sdl_item "parse_field_def k" k field_wf for k
  by (rule sdl_itemI [OF field_yields])

lemma fields_definition_yields: "yields False k (parse_optional_fields_definition k) (\<lambda>(xs, _). list_all field_wf xs)"
  unfolding parse_optional_fields_definition_def by (rule fields.optional_braces_yields)

lemma implements_yields: "yields False k (parse_implements_interfaces k) (\<lambda>_. True)"
proof (rule yieldsI)
  fix st
  assume fuel: "srem st < k" and start: "sat False st st"
  note recs = yields_bind_same [OF _ fuel sdl_separated_yields]
  show "post (parse_implements_interfaces k st) (\<lambda>x st'. sat False st st' \<and> True)"
    unfolding parse_implements_interfaces_def
    by (rule speek_bind [OF start], rule post_ifI, simp, erule sbump_bind, assumption, simp, erule recs)
      (auto intro: sat_weaken)
qed

lemma enum_value_yields: "yields True k (enum_value_item k) (\<lambda>v. directives_wf (evd_directives v))"
proof (rule yieldsI)
  fix st
  assume fuel: "srem st < k" and start: "sat False st st"
  note recs = yields_bind_same [OF _ fuel parse_description_yields] yields_bind_same [OF _ fuel directives_yields]
  show "post (enum_value_item k st) (\<lambda>v st'. sat True st st' \<and> directives_wf (evd_directives v))"
    unfolding enum_value_item_def using start
    by - (erule recs(1), erule sname_bind, erule recs(2), simp)
qed

interpretation enum_values: sdl_item "enum_value_item k" k "\<lambda>v. directives_wf (evd_directives v)" for k
  by (rule sdl_itemI [OF enum_value_yields])

lemma operation_type_yields: "yields True k operation_type_item (\<lambda>ot. otd_operation ot \<in> operation_names)"
proof (rule yieldsI)
  fix st
  assume start: "sat False st st"
  show "post (operation_type_item st) (\<lambda>ot st'. sat True st st' \<and> otd_operation ot \<in> operation_names)"
    unfolding operation_type_item_def
    by (rule speek_bind [OF start], frule sat_slice, intro post_ifI post_failI, erule_tac sbump_bind, assumption, simp)
      (erule_tac sexpect_bind, simp, erule_tac sname_bind, simp add: operation_names_def sat_slice)
qed

interpretation operation_types: sdl_item operation_type_item k "\<lambda>ot. otd_operation ot \<in> operation_names" for k
  by (rule sdl_itemI [OF operation_type_yields])

lemma parse_repeatable_yields: "yields False k parse_repeatable (\<lambda>_. True)"
  unfolding parse_repeatable_def
  by (rule yieldsI, erule speek_bind, rule post_ifI, erule sbump_bind) (auto intro: sat_weaken)

text \<open>The eight kinds of definition, each started at its keyword.\<close>

lemma definition_items:
  assumes start: "sat c s st" and fuel: "srem s < k" and t: "sdl_peeked st = Some t" "tk_kind t \<noteq> Eof"
    and f: "\<And>d st'. sat True s st' \<Longrightarrow> definition_wf d \<Longrightarrow> post (f d st') Q"
  shows "post (pbind (parse_schema_def k desc st) (\<lambda>d. f (TSchema d))) Q"
    and "post (pbind (parse_scalar_def k desc st) (\<lambda>d. f (TScalar d))) Q"
    and "post (pbind (parse_object_def k desc st) (\<lambda>d. f (TObject d))) Q"
    and "post (pbind (parse_interface_def k desc st) (\<lambda>d. f (TInterface d))) Q"
    and "post (pbind (parse_union_def k desc st) (\<lambda>d. f (TUnion d))) Q"
    and "post (pbind (parse_enum_def k desc st) (\<lambda>d. f (TEnum d))) Q"
    and "post (pbind (parse_input_object_def k desc st) (\<lambda>d. f (TInputObject d))) Q"
    and "post (pbind (parse_directive_def k desc st) (\<lambda>d. f (TDirective d))) Q"
proof -
  note dirs = yields_bind_same [OF _ fuel directives_yields]
  note bump = sbump_bind [OF start t]
  note impls = yields_bind_same [OF _ fuel implements_yields]
  note fields = yields_bind_same [OF _ fuel fields_definition_yields]
  note separated = yields_bind_same [OF _ fuel sdl_separated_yields]
  note defs = parse_schema_def_def parse_scalar_def_def parse_object_def_def parse_interface_def_def parse_union_def_def
    parse_enum_def_def parse_input_object_def_def parse_directive_def_def
  have split: "pbind (case p of (x, y) \<Rightarrow> g x y) h = (case p of (x, y) \<Rightarrow> pbind (g x y) h)"
    for p :: "'x \<times> 'y" and g :: "'x \<Rightarrow> 'y \<Rightarrow> 'z sres" and h :: "'z \<Rightarrow> sdl_parser \<Rightarrow> 'w sres"
    by (cases p) simp
  show "post (pbind (parse_schema_def k desc st) (\<lambda>d. f (TSchema d))) Q"
    unfolding defs pbind_assoc
    by (rule bump, erule dirs, erule sexpect_bind, simp,
        erule yields_bind_same [OF _ fuel operation_types.braces_yields]) (auto intro!: f)
  show "post (pbind (parse_scalar_def k desc st) (\<lambda>d. f (TScalar d))) Q"
    unfolding defs pbind_assoc by (rule bump, erule sname_bind, erule dirs) (auto intro!: f)
  show "post (pbind (parse_object_def k desc st) (\<lambda>d. f (TObject d))) Q"
    unfolding defs pbind_assoc by (rule bump, erule sname_bind, erule impls, erule dirs, erule fields) (auto intro!: f)
  show "post (pbind (parse_interface_def k desc st) (\<lambda>d. f (TInterface d))) Q"
    unfolding defs pbind_assoc by (rule bump, erule sname_bind, erule impls, erule dirs, erule fields) (auto intro!: f)
  show "post (pbind (parse_union_def k desc st) (\<lambda>d. f (TUnion d))) Q"
    unfolding defs pbind_assoc
    by (rule bump, erule sname_bind, erule dirs, erule sif_bind, unfold pbind_assoc pbind_simps, erule sbump_bind,
        assumption, simp, erule separated) (auto intro!: f)
  show "post (pbind (parse_enum_def k desc st) (\<lambda>d. f (TEnum d))) Q"
    unfolding defs pbind_assoc
    by (rule bump, erule sname_bind, erule dirs, erule yields_bind_same [OF _ fuel enum_values.optional_braces_yields])
      (auto intro!: f)
  show "post (pbind (parse_input_object_def k desc st) (\<lambda>d. f (TInputObject d))) Q"
    unfolding defs pbind_assoc
    by (rule bump, erule sname_bind, erule dirs, erule yields_bind_same [OF _ fuel input_values.optional_braces_yields])
      (auto intro!: f)
  have tail: "post (pbind (parse_repeatable st') (\<lambda>rep st. pbind (sdl_expect_keyword ''on'' ExpectedOnKeyword st) (\<lambda>_ st.
      pbind (sdl_separated k Pipe st) (\<lambda>locs st. f (TDirective (d rep locs)) st)))) Q"
    if "sat True s st'" "\<And>rep locs. locs \<noteq> [] \<Longrightarrow> definition_wf (TDirective (d rep locs))" for st' d
    using that(1)
    by - (erule yields_bind_same [OF _ fuel parse_repeatable_yields], erule skeyword_bind, erule separated;
        auto intro!: f that(2))
  show "post (pbind (parse_directive_def k desc st) (\<lambda>d. f (TDirective d))) Q"
    unfolding defs pbind_assoc pbind_simps
    by (rule bump, erule sexpect_bind, simp, erule sname_bind, erule sif_bind,
        erule yields_bind_same [OF _ fuel arguments_definition_yields]) (auto intro!: tail)
qed

lemma type_system_definition_yields: "yields True k (parse_type_system_definition k) definition_wf"
proof (rule yieldsI)
  fix st
  assume fuel: "srem st < k" and start: "sat False st st"
  show "post (parse_type_system_definition k st) (\<lambda>d st'. sat True st st' \<and> definition_wf d)"
    unfolding parse_type_system_definition_def Let_def
    by (rule yields_bind_same [OF start fuel parse_description_yields], erule speek_bind, intro post_ifI post_failI)
      (erule definition_items [where f = ret, OF _ fuel], assumption, simp, simp)+
qed

interpretation type_system_definitions: sdl_item "parse_type_system_definition k" k definition_wf for k
  by (rule sdl_itemI [OF type_system_definition_yields])

section \<open>Documents\<close>

text \<open>C21: parsing a schema source ends for every byte string, with an error or with a well-formed
  document: at least one definition, only scalar constants as defaults and directive arguments,
  root operations named query, mutation or subscription, and directives with a location.\<close>

theorem parse_schema_outcome:
  "case parse_schema src of
     None \<Rightarrow> False
   | Some (Inl e) \<Rightarrow> True
   | Some (Inr doc) \<Rightarrow> sd_definitions doc \<noteq> [] \<and> list_all definition_wf (sd_definitions doc)"
proof -
  let ?k = "2 * length src + 1" and ?st = "sdl_new src"
  have start: "sat False ?st ?st" by (rule sat_start) (simp add: sdl_new_def lexer_inv_new)
  have fuel: "srem ?st < ?k" by (simp add: srem_def sdl_new_def lexer_new_def)
  have "post (sdl_parse_document ?k ?st) (\<lambda>doc _. sd_definitions doc \<noteq> [] \<and> list_all definition_wf (sd_definitions doc))"
    unfolding sdl_parse_document_def
    by (rule yields_bind_same [OF start fuel type_system_definitions.while_yields]) auto
  then show ?thesis
    by (auto simp: parse_schema_def post_def split: option.splits sum.splits)
qed

section \<open>Agreement with the executable-document parser\<close>

definition strip :: "parser \<Rightarrow> sdl_parser" where
  "strip st = \<lparr>sdl_lexer = ps_lexer st, sdl_peeked = ps_peeked st\<rparr>"

definition strip_res :: "'a res \<Rightarrow> 'a sres" where
  "strip_res = map_option (map_sum id (map_prod id strip))"

lemma strip_ret [simp]: "strip_res (ret x st) = ret x (strip st)" "strip_res (fail sp e) = fail sp e"
    "strip_res None = None"
  by (simp_all add: strip_res_def fail_def)

lemma strip_if [simp]: "strip_res (if b then m else m') = (if b then strip_res m else strip_res m')"
  by simp

lemma strip_slice [simp]: "sdl_slice (strip st) = slice st"
  by (simp add: sdl_slice_def slice_def strip_def fun_eq_iff)

lemma strip_bind:
  assumes "m' = strip_res m" and "\<And>x st. g x (strip st) = strip_res (f x st)"
  shows "pbind m' g = strip_res (pbind m f)"
  using assms by (cases m) (auto simp: pbind_def strip_res_def split: sum.splits)

lemma strip_peek: "sdl_peek (strip st) = strip_res (peek st)"
  and strip_bump: "sdl_bump (strip st) = strip_res (bump_tok st)"
  by (auto simp: sdl_peek_def peek_def sdl_bump_def bump_tok_def sdl_lex_def lex_res_def strip_def strip_res_def
      split: option.splits prod.splits sum.splits)

lemma strip_expect: "sdl_expect k err (strip st) = strip_res (expect k err st)"
  unfolding sdl_expect_def expect_def by (rule strip_bind [OF strip_peek]) (simp add: strip_bump)

lemma strip_name: "sdl_parse_name (strip st) = strip_res (parse_name st)"
  unfolding sdl_parse_name_def parse_name_def
  by (rule strip_bind [OF strip_peek]) (simp, intro impI strip_bind [OF strip_bump], simp)

lemma strip_type: "sdl_parse_type k (strip st) = strip_res (parse_type k st)"
proof (induction k arbitrary: st)
  case (Suc k)
  show ?case
    unfolding sdl_parse_type.simps parse_type.simps
    by (intro strip_bind strip_peek)
      (auto intro!: strip_bind strip_name strip_bump strip_peek strip_expect Suc)
qed simp

definition scalar_start :: "token_kind \<Rightarrow> bool" where
  "scalar_start k \<longleftrightarrow> k \<noteq> LBracket \<and> k \<noteq> LBrace"

lemma strip_const_value:
  assumes "\<And>t st'. peek st = ret t st' \<Longrightarrow> scalar_start (tk_kind t)"
  shows "parse_const_value k (strip st) = strip_res (parse_value (Suc j) True st)"
proof (cases "\<exists>t st'. peek st = ret t st'")
  case True
  then obtain t st' where p: "peek st = ret t st'" by blast
  note sc = assms [OF p]
  have ret: "pbind (sdl_bump (strip st')) g = strip_res (pbind (bump_tok st') f)"
    if "\<And>x st. g x (strip st) = strip_res (f x st)" for g :: "token \<Rightarrow> sdl_parser \<Rightarrow> gvalue sres" and f
    by (rule strip_bind [OF strip_bump]) (rule that)
  show ?thesis
    unfolding parse_const_value_def parse_value.simps strip_peek p strip_ret pbind_simps
    using sc by (cases "tk_kind t") (auto simp: scalar_start_def intro!: ret)
next
  case False
  then obtain e where "peek st = None \<or> peek st = Some (Inl e)" by (metis option.exhaust sum.exhaust surj_pair)
  then show ?thesis by (auto simp: parse_const_value_def strip_peek pbind_def strip_res_def)
qed

text \<open>The two parsers agree where they overlap. Forgetting the arena, the type productions are equal
  on every state, errors included; and before any token but an opening bracket or brace the schema
  constants are the constant values of the executable parser.\<close>

theorem shared_productions_agree:
  "sdl_parse_type k (strip st) = strip_res (parse_type k st) \<and>
   ((\<forall>t st'. peek st = ret t st' \<longrightarrow> scalar_start (tk_kind t)) \<longrightarrow>
      parse_const_value k (strip st) = strip_res (parse_value (Suc j) True st))"
  using strip_type strip_const_value by blast

theorem shared_productions_agree_witness:
  "parse_const_value 1 (strip (parser_new ''RED'')) = strip_res (parse_value 1 True (parser_new ''RED'')) \<and>
   (case parse_const_value 1 (strip (parser_new ''RED'')) of Some (Inr (VEnum n, _)) \<Rightarrow> nm_value n = ''RED'' | _ \<Rightarrow> False)"
proof -
  have "case peek (parser_new ''RED'') of Some (Inr (t, _)) \<Rightarrow> tk_kind t = NameTok | _ \<Rightarrow> False" by code_simp
  then have "\<forall>t st'. peek (parser_new ''RED'') = ret t st' \<longrightarrow> scalar_start (tk_kind t)"
    by (auto simp: scalar_start_def)
  with shared_productions_agree [of 1 "parser_new ''RED''" 0]
  have "parse_const_value 1 (strip (parser_new ''RED'')) = strip_res (parse_value 1 True (parser_new ''RED''))" by simp
  moreover have "case parse_const_value 1 (strip (parser_new ''RED'')) of Some (Inr (VEnum n, _)) \<Rightarrow> nm_value n = ''RED'' | _ \<Rightarrow> False"
    by code_simp
  ultimately show ?thesis by simp
qed

text \<open>Inside the brackets of a schema constant nothing is checked. The default below holds a variable
  and an unbalanced brace, and the document is accepted with the default null, although a constant
  admits no variable and the executable parser rejects the same text.\<close>

theorem bracket_constants_unchecked:
  "(case parse_schema ''input I { a: Int = [$x }] }'' of
      Some (Inr doc) \<Rightarrow> (case sd_definitions doc of
        [TInputObject d] \<Rightarrow> map ivd_default_value (iod_fields d) = [Some VNull] | _ \<Rightarrow> False)
    | _ \<Rightarrow> False) \<and>
   (case parse_executable_document ''query Q($a: Int = [$x }]) { f }'' of
      Some (Inl e) \<Rightarrow> pe_kind e = ExpectedValue | _ \<Rightarrow> False)"
  by (rule conjI) code_simp+

end
