(* ===== verification/Gql_Schema.thy ===== *)
theory Gql_Schema
  imports Gql_Validate Gql_Sdl
begin

text \<open>
  The schema-aware half of \<^verbatim>\<open>magna-gqlmin/src/validate.rs\<close>: the schema index and the five rules that
  need it. The walk over fields carries the type of the enclosing selection set; it is shown to
  report a rule exactly when some selection breaks it at the type it is reached with.
\<close>

definition RULE_KNOWN_TYPE_NAMES :: string where
  "RULE_KNOWN_TYPE_NAMES = ''KnownTypeNames''"
definition RULE_FIELDS_ON_CORRECT_TYPE :: string where
  "RULE_FIELDS_ON_CORRECT_TYPE = ''FieldsOnCorrectType''"
definition RULE_SCALAR_LEAFS :: string where
  "RULE_SCALAR_LEAFS = ''ScalarLeafs''"
definition RULE_KNOWN_ARGUMENT_NAMES :: string where
  "RULE_KNOWN_ARGUMENT_NAMES = ''KnownArgumentNames''"
definition RULE_ARGUMENTS_OF_CORRECT_TYPE :: string where
  "RULE_ARGUMENTS_OF_CORRECT_TYPE = ''ArgumentsOfCorrectType''"

section \<open>The schema index\<close>

datatype type_kind = KObject | KInterface | KUnion | KEnum | KInputObject | KScalar

record schema_index =
  six_kinds :: "(string, type_kind) btree"
  six_objects :: "(string, object_type_def) btree"
  six_interfaces :: "(string, interface_type_def) btree"
  six_unions :: "(string, union_type_def) btree"
  six_enums :: "(string, enum_type_def) btree"
  six_inputs :: "(string, input_object_type_def) btree"
  six_scalars :: "(string, scalar_type_def) btree"
  six_directives :: "(string, directive_def) btree"
  six_query :: "string option"
  six_mutation :: "string option"
  six_subscription :: "string option"

definition index_operation_type :: "operation_type_def \<Rightarrow> schema_index \<Rightarrow> schema_index" where
  "index_operation_type ot ix =
     (let target = nm_value (nt_name (otd_named_type ot)) in
      if otd_operation ot = ''query'' then ix\<lparr>six_query := Some target\<rparr>
      else if otd_operation ot = ''mutation'' then ix\<lparr>six_mutation := Some target\<rparr>
      else if otd_operation ot = ''subscription'' then ix\<lparr>six_subscription := Some target\<rparr>
      else ix)"

fun index_definition :: "type_system_definition \<Rightarrow> schema_index \<Rightarrow> schema_index" where
  "index_definition (TSchema d) ix = fold index_operation_type (sch_operation_types d) ix"
| "index_definition (TObject d) ix =
     ix\<lparr>six_kinds := bt_insert (nm_value (otd_name d)) KObject (six_kinds ix),
        six_objects := bt_insert (nm_value (otd_name d)) d (six_objects ix)\<rparr>"
| "index_definition (TInterface d) ix =
     ix\<lparr>six_kinds := bt_insert (nm_value (itd_name d)) KInterface (six_kinds ix),
        six_interfaces := bt_insert (nm_value (itd_name d)) d (six_interfaces ix)\<rparr>"
| "index_definition (TUnion d) ix =
     ix\<lparr>six_kinds := bt_insert (nm_value (utd_name d)) KUnion (six_kinds ix),
        six_unions := bt_insert (nm_value (utd_name d)) d (six_unions ix)\<rparr>"
| "index_definition (TEnum d) ix =
     ix\<lparr>six_kinds := bt_insert (nm_value (etd_name d)) KEnum (six_kinds ix),
        six_enums := bt_insert (nm_value (etd_name d)) d (six_enums ix)\<rparr>"
| "index_definition (TInputObject d) ix =
     ix\<lparr>six_kinds := bt_insert (nm_value (iod_name d)) KInputObject (six_kinds ix),
        six_inputs := bt_insert (nm_value (iod_name d)) d (six_inputs ix)\<rparr>"
| "index_definition (TScalar d) ix =
     ix\<lparr>six_kinds := bt_insert (nm_value (scd_name d)) KScalar (six_kinds ix),
        six_scalars := bt_insert (nm_value (scd_name d)) d (six_scalars ix)\<rparr>"
| "index_definition (TDirective d) ix = ix\<lparr>six_directives := bt_insert (nm_value (dd_name d)) d (six_directives ix)\<rparr>"

definition builtin_scalars :: "string list" where
  "builtin_scalars = [''Int'', ''Float'', ''String'', ''Boolean'', ''ID'']"

definition index_empty :: schema_index where
  "index_empty =
     \<lparr>six_kinds = fold (\<lambda>n. bt_insert n KScalar) builtin_scalars [], six_objects = [], six_interfaces = [],
      six_unions = [], six_enums = [], six_inputs = [], six_scalars = [], six_directives = [],
      six_query = None, six_mutation = None, six_subscription = None\<rparr>"

definition default_root :: "schema_index \<Rightarrow> string \<Rightarrow> string option \<Rightarrow> string option" where
  "default_root ix n root = (if root = None \<and> bt_contains (six_objects ix) n then Some n else root)"

definition index_build :: "schema_document \<Rightarrow> schema_index" where
  "index_build schema =
     (let ix = fold index_definition (sd_definitions schema) index_empty in
      ix\<lparr>six_query := default_root ix ''Query'' (six_query ix),
         six_mutation := default_root ix ''Mutation'' (six_mutation ix),
         six_subscription := default_root ix ''Subscription'' (six_subscription ix)\<rparr>)"

fun root_for :: "schema_index \<Rightarrow> operation_kind \<Rightarrow> string option" where
  "root_for ix Query = six_query ix"
| "root_for ix Mutation = six_mutation ix"
| "root_for ix Subscription = six_subscription ix"

definition knows_type :: "schema_index \<Rightarrow> string \<Rightarrow> bool" where
  "knows_type ix n \<longleftrightarrow> bt_contains (six_kinds ix) n"

definition fields_of :: "schema_index \<Rightarrow> string \<Rightarrow> field_def list option" where
  "fields_of ix n =
     (case bt_get (six_objects ix) n of
        Some d \<Rightarrow> Some (otd_fields d)
      | None \<Rightarrow> (case bt_get (six_interfaces ix) n of Some d \<Rightarrow> Some (itd_fields d) | None \<Rightarrow> None))"

definition lookup_field :: "schema_index \<Rightarrow> string \<Rightarrow> string \<Rightarrow> field_def option" where
  "lookup_field ix ty f = do { fs \<leftarrow> fields_of ix ty; find (\<lambda>fd. nm_value (fd_name fd) = f) fs }"

definition is_leaf :: "schema_index \<Rightarrow> string \<Rightarrow> bool" where
  "is_leaf ix n \<longleftrightarrow> bt_get (six_kinds ix) n \<in> {Some KScalar, Some KEnum}"

definition is_composite :: "schema_index \<Rightarrow> string \<Rightarrow> bool" where
  "is_composite ix n \<longleftrightarrow> bt_get (six_kinds ix) n \<in> {Some KObject, Some KInterface, Some KUnion}"

section \<open>Known types\<close>

type_synonym errors = "validation_error list"

definition check_named_type :: "schema_index \<Rightarrow> string \<Rightarrow> span \<Rightarrow> errors \<Rightarrow> errors" where
  "check_named_type ix n sp errs =
     (if knows_type ix n then errs
      else errs @ [verror RULE_KNOWN_TYPE_NAMES sp ''type referenced is not defined in the schema''])"

fun check_type_ref :: "schema_index \<Rightarrow> gtype \<Rightarrow> errors \<Rightarrow> errors" where
  "check_type_ref ix (Named nt) errs = check_named_type ix (nm_value (nt_name nt)) (nm_span (nt_name nt)) errs"
| "check_type_ref ix (TList t) errs = check_type_ref ix t errs"
| "check_type_ref ix (NonNull t) errs = check_type_ref ix t errs"

definition check_known_types_in_variable_defs ::
    "document \<Rightarrow> schema_index \<Rightarrow> operation_definition \<Rightarrow> errors \<Rightarrow> errors option" where
  "check_known_types_in_variable_defs doc ix op errs =
     do { vds \<leftarrow> doc_variable_definitions doc (opd_variable_definitions op);
          Some (fold (\<lambda>vd. check_type_ref ix (vd_type vd)) vds errs) }"

definition known_types_in_selection :: "(node_range \<Rightarrow> errors \<Rightarrow> errors option) \<Rightarrow> schema_index \<Rightarrow> selection \<Rightarrow> errors \<Rightarrow> errors option" where
  "known_types_in_selection recurse ix sel errs =
     (case sel of
        SField f \<Rightarrow> (case fld_selection_set f of None \<Rightarrow> Some errs | Some inner \<Rightarrow> recurse (ss_selections inner) errs)
      | SInlineFragment inl \<Rightarrow>
          recurse (ss_selections (ifr_selection_set inl))
            (case ifr_type_condition inl of
               None \<Rightarrow> errs
             | Some tc \<Rightarrow> check_named_type ix (nm_value (nt_name tc)) (nm_span (nt_name tc)) errs)
      | SFragmentSpread _ \<Rightarrow> Some errs)"

fun check_known_types_in_selection_set :: "nat \<Rightarrow> document \<Rightarrow> schema_index \<Rightarrow> node_range \<Rightarrow> errors \<Rightarrow> errors option" where
  "check_known_types_in_selection_set 0 doc ix r errs = None"
| "check_known_types_in_selection_set (Suc k) doc ix r errs =
     do { sels \<leftarrow> doc_selections doc r;
          ofold (known_types_in_selection (check_known_types_in_selection_set k doc ix) ix) sels errs }"

definition known_types_in_definition :: "document \<Rightarrow> schema_index \<Rightarrow> gdefinition \<Rightarrow> errors \<Rightarrow> errors option" where
  "known_types_in_definition doc ix d errs =
     (case d of
        DOperation op \<Rightarrow>
          do { errs \<leftarrow> check_known_types_in_variable_defs doc ix op errs;
               check_known_types_in_selection_set (value_fuel doc) doc ix (ss_selections (opd_selection_set op)) errs }
      | DFragment f \<Rightarrow>
          check_known_types_in_selection_set (value_fuel doc) doc ix (ss_selections (frd_selection_set f))
            (check_named_type ix (nm_value (nt_name (frd_type_condition f))) (nm_span (nt_name (frd_type_condition f))) errs))"

section \<open>Values\<close>

text \<open>The innermost name of a type; the source returns it wrapped in \<^verbatim>\<open>Some\<close> on every path.\<close>

fun unwrap_type_name :: "gtype \<Rightarrow> string" where
  "unwrap_type_name (Named nt) = nm_value (nt_name nt)"
| "unwrap_type_name (TList t) = unwrap_type_name t"
| "unwrap_type_name (NonNull t) = unwrap_type_name t"

fun is_list_value :: "gvalue \<Rightarrow> bool" where
  "is_list_value (VList _) \<longleftrightarrow> True"
| "is_list_value _ \<longleftrightarrow> False"

text \<open>\<^verbatim>\<open>matches!\<close> of a literal against the kind of a named type.\<close>

definition scalar_accepts :: "string \<Rightarrow> gvalue \<Rightarrow> bool" where
  "scalar_accepts n v =
     (if n = ''Int'' then (case v of VInt _ \<Rightarrow> True | _ \<Rightarrow> False)
      else if n = ''Float'' then (case v of VFloat _ \<Rightarrow> True | VInt _ \<Rightarrow> True | _ \<Rightarrow> False)
      else if n = ''Boolean'' then (case v of VBoolean _ \<Rightarrow> True | _ \<Rightarrow> False)
      else if n = ''String'' \<or> n = ''ID'' then (case v of VString _ \<Rightarrow> True | VInt _ \<Rightarrow> True | _ \<Rightarrow> False)
      else True)"

definition named_accepts :: "schema_index \<Rightarrow> string \<Rightarrow> gvalue \<Rightarrow> bool" where
  "named_accepts ix n v =
     (case bt_get (six_kinds ix) n of
        None \<Rightarrow> True
      | Some KScalar \<Rightarrow> scalar_accepts n v
      | Some KEnum \<Rightarrow> (case v of VEnum _ \<Rightarrow> True | _ \<Rightarrow> False)
      | Some KInputObject \<Rightarrow> (case v of VObject _ \<Rightarrow> True | _ \<Rightarrow> False)
      | Some _ \<Rightarrow> False)"

fun value_compatible :: "schema_index \<Rightarrow> gvalue \<Rightarrow> gtype \<Rightarrow> bool" where
  "value_compatible ix v (NonNull t) =
     (case v of VVariable _ \<Rightarrow> True | VNull \<Rightarrow> False | _ \<Rightarrow> value_compatible ix v t)"
| "value_compatible ix v (TList t) =
     (case v of VVariable _ \<Rightarrow> True | VNull \<Rightarrow> True | VList _ \<Rightarrow> True | _ \<Rightarrow> value_compatible ix v t)"
| "value_compatible ix v (Named nt) =
     (case v of VVariable _ \<Rightarrow> True | VNull \<Rightarrow> True | _ \<Rightarrow> named_accepts ix (nm_value (nt_name nt)) v)"

section \<open>Arguments and directives\<close>

definition check_argument :: "schema_index \<Rightarrow> input_value_def list \<Rightarrow> string \<Rightarrow> string \<Rightarrow> argument \<Rightarrow> errors \<Rightarrow> errors" where
  "check_argument ix defs unknown mismatch arg errs =
     (case find (\<lambda>a. nm_value (ivd_name a) = nm_value (arg_name arg)) defs of
        None \<Rightarrow> errs @ [verror RULE_KNOWN_ARGUMENT_NAMES (nm_span (arg_name arg)) unknown]
      | Some a \<Rightarrow>
          if value_compatible ix (arg_value arg) (ivd_value_type a) then errs
          else errs @ [verror RULE_ARGUMENTS_OF_CORRECT_TYPE (nm_span (arg_name arg)) mismatch])"

definition check_field_args :: "document \<Rightarrow> schema_index \<Rightarrow> node_range \<Rightarrow> field_def \<Rightarrow> errors \<Rightarrow> errors option" where
  "check_field_args doc ix args fd errs =
     do { as \<leftarrow> doc_arguments doc args;
          Some (fold (check_argument ix (fd_arguments fd) ''argument is not declared on the field''
                        ''argument value does not match the declared type'') as errs) }"

definition check_directive_args :: "document \<Rightarrow> schema_index \<Rightarrow> directive \<Rightarrow> directive_def \<Rightarrow> errors \<Rightarrow> errors option" where
  "check_directive_args doc ix d dd errs =
     do { as \<leftarrow> doc_arguments doc (dir_arguments d);
          Some (fold (check_argument ix (dd_arguments dd) ''argument is not declared on the directive''
                        ''directive argument value does not match the declared type'') as errs) }"

definition check_directives :: "document \<Rightarrow> schema_index \<Rightarrow> node_range \<Rightarrow> errors \<Rightarrow> errors option" where
  "check_directives doc ix r errs =
     do { ds \<leftarrow> doc_directives doc r;
          ofold (\<lambda>d errs. case bt_get (six_directives ix) (nm_value (dir_name d)) of
                   None \<Rightarrow> Some errs
                 | Some dd \<Rightarrow> check_directive_args doc ix d dd errs) ds errs }"

section \<open>Fields\<close>

definition scalar_leafs :: "schema_index \<Rightarrow> string \<Rightarrow> field \<Rightarrow> errors \<Rightarrow> errors" where
  "scalar_leafs ix tn f errs =
     (let errs = (if is_leaf ix tn \<and> fld_selection_set f \<noteq> None
                  then errs @ [verror RULE_SCALAR_LEAFS (nm_span (fld_name f)) ''leaf field must not have a selection set'']
                  else errs)
      in if is_composite ix tn \<and> fld_selection_set f = None
         then errs @ [verror RULE_SCALAR_LEAFS (nm_span (fld_name f)) ''field of composite type must have a selection set'']
         else errs)"

definition walk_selection ::
    "(string \<Rightarrow> node_range \<Rightarrow> errors \<Rightarrow> errors option) \<Rightarrow> document \<Rightarrow> schema_index \<Rightarrow> string \<Rightarrow> selection \<Rightarrow> errors \<Rightarrow> errors option" where
  "walk_selection recurse doc ix parent sel errs =
     (case sel of
        SField f \<Rightarrow>
          if nm_value (fld_name f) = ''__typename'' then Some errs
          else
            (case lookup_field ix parent (nm_value (fld_name f)) of
               None \<Rightarrow> Some (errs @ [verror RULE_FIELDS_ON_CORRECT_TYPE (nm_span (fld_name f))
                                       ''field is not declared on the parent type''])
             | Some fd \<Rightarrow>
                 (let tn = unwrap_type_name (fd_field_type fd) in
                  do { errs \<leftarrow> check_field_args doc ix (fld_arguments f) fd (scalar_leafs ix tn f errs);
                       errs \<leftarrow> check_directives doc ix (fld_directives f) errs;
                       (case fld_selection_set f of
                          Some inner \<Rightarrow> if is_composite ix tn then recurse tn (ss_selections inner) errs else Some errs
                        | None \<Rightarrow> Some errs) }))
      | SInlineFragment inl \<Rightarrow>
          (let next_parent = (case ifr_type_condition inl of Some tc \<Rightarrow> nm_value (nt_name tc) | None \<Rightarrow> parent) in
           do { errs \<leftarrow> check_directives doc ix (ifr_directives inl) errs;
                if knows_type ix next_parent then recurse next_parent (ss_selections (ifr_selection_set inl)) errs
                else Some errs })
      | SFragmentSpread fs \<Rightarrow> check_directives doc ix (fsp_directives fs) errs)"

fun walk_fields :: "nat \<Rightarrow> document \<Rightarrow> schema_index \<Rightarrow> string \<Rightarrow> node_range \<Rightarrow> errors \<Rightarrow> errors option" where
  "walk_fields 0 doc ix parent r errs = None"
| "walk_fields (Suc k) doc ix parent r errs =
     do { sels \<leftarrow> doc_selections doc r; ofold (walk_selection (walk_fields k doc ix) doc ix parent) sels errs }"

definition walk_operation :: "document \<Rightarrow> schema_index \<Rightarrow> operation_definition \<Rightarrow> errors \<Rightarrow> errors option" where
  "walk_operation doc ix op errs =
     do { errs \<leftarrow> check_directives doc ix (opd_directives op) errs;
          (case root_for ix (opd_kind op) of
             None \<Rightarrow> Some errs
           | Some parent \<Rightarrow> walk_fields (value_fuel doc) doc ix parent (ss_selections (opd_selection_set op)) errs) }"

definition walk_fragment_definition :: "document \<Rightarrow> schema_index \<Rightarrow> fragment_definition \<Rightarrow> errors \<Rightarrow> errors option" where
  "walk_fragment_definition doc ix f errs =
     (let parent = nm_value (nt_name (frd_type_condition f)) in
      do { errs \<leftarrow> check_directives doc ix (frd_directives f) errs;
           if knows_type ix parent
           then walk_fields (value_fuel doc) doc ix parent (ss_selections (frd_selection_set f)) errs
           else Some errs })"

definition run_all :: "document \<Rightarrow> schema_index \<Rightarrow> errors \<Rightarrow> errors option" where
  "run_all doc ix errs =
     do { defs \<leftarrow> doc_definitions doc;
          errs \<leftarrow> ofold (known_types_in_definition doc ix) defs errs;
          errs \<leftarrow> ofold (walk_operation doc ix) (doc_operations defs) errs;
          ofold (walk_fragment_definition doc ix) (doc_fragments defs) errs }"

definition validate :: "document \<Rightarrow> schema_document \<Rightarrow> errors option" where
  "validate doc schema = do { errs \<leftarrow> validate_operations doc; run_all doc (index_build schema) errs }"

section \<open>What breaks a rule\<close>

lemmas schema_rule_names = RULE_KNOWN_TYPE_NAMES_def RULE_FIELDS_ON_CORRECT_TYPE_def RULE_SCALAR_LEAFS_def
  RULE_KNOWN_ARGUMENT_NAMES_def RULE_ARGUMENTS_OF_CORRECT_TYPE_def

definition argument_breaks :: "schema_index \<Rightarrow> input_value_def list \<Rightarrow> argument \<Rightarrow> string \<Rightarrow> bool" where
  "argument_breaks ix defs arg r \<longleftrightarrow>
     (case find (\<lambda>a. nm_value (ivd_name a) = nm_value (arg_name arg)) defs of
        None \<Rightarrow> r = RULE_KNOWN_ARGUMENT_NAMES
      | Some a \<Rightarrow> r = RULE_ARGUMENTS_OF_CORRECT_TYPE \<and> \<not> value_compatible ix (arg_value arg) (ivd_value_type a))"

definition arguments_break :: "document \<Rightarrow> schema_index \<Rightarrow> input_value_def list \<Rightarrow> node_range \<Rightarrow> string \<Rightarrow> bool" where
  "arguments_break doc ix defs rg r \<longleftrightarrow>
     (\<exists>as. doc_arguments doc rg = Some as \<and> (\<exists>a \<in> set as. argument_breaks ix defs a r))"

definition directives_break :: "document \<Rightarrow> schema_index \<Rightarrow> node_range \<Rightarrow> string \<Rightarrow> bool" where
  "directives_break doc ix rg r \<longleftrightarrow>
     (\<exists>ds. doc_directives doc rg = Some ds \<and> (\<exists>d \<in> set ds. \<exists>dd. bt_get (six_directives ix) (nm_value (dir_name d)) = Some dd \<and>
        arguments_break doc ix (dd_arguments dd) (dir_arguments d) r))"

text \<open>A selection breaks a rule when the enclosing set has type \<open>parent\<close>.\<close>

fun sel_breaks :: "document \<Rightarrow> schema_index \<Rightarrow> string \<Rightarrow> selection \<Rightarrow> string \<Rightarrow> bool" where
  "sel_breaks doc ix parent (SField f) r \<longleftrightarrow> nm_value (fld_name f) \<noteq> ''__typename'' \<and>
     (case lookup_field ix parent (nm_value (fld_name f)) of
        None \<Rightarrow> r = RULE_FIELDS_ON_CORRECT_TYPE
      | Some fd \<Rightarrow>
          r = RULE_SCALAR_LEAFS \<and>
            (if fld_selection_set f = None then is_composite ix (unwrap_type_name (fd_field_type fd))
             else is_leaf ix (unwrap_type_name (fd_field_type fd))) \<or>
          arguments_break doc ix (fd_arguments fd) (fld_arguments f) r \<or> directives_break doc ix (fld_directives f) r)"
| "sel_breaks doc ix parent (SInlineFragment inl) r \<longleftrightarrow> directives_break doc ix (ifr_directives inl) r"
| "sel_breaks doc ix parent (SFragmentSpread s) r \<longleftrightarrow> directives_break doc ix (fsp_directives s) r"

text \<open>The nested selection set that is checked, with its type.\<close>

fun typed_nested :: "schema_index \<Rightarrow> string \<Rightarrow> selection \<Rightarrow> (string \<times> node_range) option" where
  "typed_nested ix parent (SField f) =
     (if nm_value (fld_name f) = ''__typename'' then None
      else
        do { fd \<leftarrow> lookup_field ix parent (nm_value (fld_name f));
             ss \<leftarrow> fld_selection_set f;
             if is_composite ix (unwrap_type_name (fd_field_type fd))
             then Some (unwrap_type_name (fd_field_type fd), ss_selections ss) else None })"
| "typed_nested ix parent (SInlineFragment inl) =
     (let p = (case ifr_type_condition inl of Some tc \<Rightarrow> nm_value (nt_name tc) | None \<Rightarrow> parent) in
      if knows_type ix p then Some (p, ss_selections (ifr_selection_set inl)) else None)"
| "typed_nested ix parent (SFragmentSpread s) = None"

text \<open>Starting from a set of type \<open>p\<close>, a selection is reached inside a set of type \<open>q\<close>.\<close>

inductive typed_at :: "document \<Rightarrow> schema_index \<Rightarrow> string \<Rightarrow> node_range \<Rightarrow> string \<Rightarrow> selection \<Rightarrow> bool" for doc ix where
  typed_here: "doc_selections doc r = Some sels \<Longrightarrow> sel \<in> set sels \<Longrightarrow> typed_at doc ix p r p sel"
| typed_deeper: "doc_selections doc r = Some sels \<Longrightarrow> s \<in> set sels \<Longrightarrow> typed_nested ix p s = Some (p', r') \<Longrightarrow>
    typed_at doc ix p' r' q sel \<Longrightarrow> typed_at doc ix p r q sel"

lemma typed_at_iff:
  assumes "doc_selections doc r = Some sels"
  shows "typed_at doc ix p r q sel \<longleftrightarrow> (q = p \<and> sel \<in> set sels) \<or>
    (\<exists>s \<in> set sels. \<exists>p' r'. typed_nested ix p s = Some (p', r') \<and> typed_at doc ix p' r' q sel)"
  by (subst typed_at.simps) (use assms in auto)

definition set_breaks :: "document \<Rightarrow> schema_index \<Rightarrow> string \<Rightarrow> node_range \<Rightarrow> string \<Rightarrow> bool" where
  "set_breaks doc ix p rg r \<longleftrightarrow> (\<exists>q sel. typed_at doc ix p rg q sel \<and> sel_breaks doc ix q sel r)"

lemma set_breaks_iff:
  assumes "doc_selections doc rg = Some sels"
  shows "set_breaks doc ix p rg r \<longleftrightarrow> (\<exists>sel \<in> set sels. sel_breaks doc ix p sel r \<or>
    (\<exists>p' r'. typed_nested ix p sel = Some (p', r') \<and> set_breaks doc ix p' r' r))"
  unfolding set_breaks_def typed_at_iff [OF assms] by blast

section \<open>The walks report what is broken\<close>

lemma check_argument_report:
  "reports (check_argument ix defs u m arg errs) r \<longleftrightarrow> reports errs r \<or> argument_breaks ix defs arg r"
  by (auto simp: check_argument_def argument_breaks_def split: option.split)

lemma adds_arguments_check:
  assumes "children_first (doc_nodes doc)" and "range_ok project_argument (doc_nodes doc) rg"
  shows "adds_by reports (\<lambda>errs. do { as \<leftarrow> doc_arguments doc rg; Some (fold (check_argument ix defs u m) as errs) })
    (arguments_break doc ix defs rg)"
proof -
  obtain as where as: "doc_arguments doc rg = Some as"
    using reads(3) [OF assms(1), of "length (doc_nodes doc)" rg] assms(2) by auto
  have "reports (fold (check_argument ix defs u m) as errs) r \<longleftrightarrow> reports errs r \<or> (\<exists>a \<in> set as. argument_breaks ix defs a r)"
    for errs r by (rule fold_observes) (rule check_argument_report)
  then show ?thesis by (simp add: adds_by_def arguments_break_def as)
qed

lemma adds_check_directives:
  assumes cf: "children_first (doc_nodes doc)" and "range_ok project_directive (doc_nodes doc) rg"
  shows "adds_by reports (check_directives doc ix rg) (directives_break doc ix rg)"
proof -
  let ?N = "length (doc_nodes doc)"
  let ?U = "\<lambda>d r. \<exists>dd. bt_get (six_directives ix) (nm_value (dir_name d)) = Some dd \<and>
    arguments_break doc ix (dd_arguments dd) (dir_arguments d) r"
  let ?f = "\<lambda>d errs. case bt_get (six_directives ix) (nm_value (dir_name d)) of
    None \<Rightarrow> Some errs | Some dd \<Rightarrow> check_directive_args doc ix d dd errs"
  obtain ds where ds: "doc_directives doc rg = Some ds"
    "\<forall>d \<in> set ds. \<exists>i < ?N. range_ok project_argument (take i (doc_nodes doc)) (dir_arguments d)"
    using reads(4) [OF cf, of ?N rg] assms(2) by auto
  have "adds_by reports (?f d) (?U d)" if "d \<in> set ds" for d
  proof (cases "bt_get (six_directives ix) (nm_value (dir_name d))")
    case (Some dd)
    have "range_ok project_argument (doc_nodes doc) (dir_arguments d)" using ds(2) that ok_whole(1) by blast
    with Some show ?thesis
      using adds_arguments_check [OF cf, of "dir_arguments d" ix "dd_arguments dd"] by (simp add: check_directive_args_def [abs_def])
  qed (simp add: adds_by_def)
  then have "adds_by reports (ofold ?f ds) (\<lambda>r. \<exists>d \<in> set ds. ?U d r)" by (rule adds_by_ofold)
  then show ?thesis by (simp add: adds_by_def check_directives_def directives_break_def ds(1))
qed

lemma scalar_leafs_report:
  "reports (scalar_leafs ix tn f errs) r \<longleftrightarrow> reports errs r \<or> r = RULE_SCALAR_LEAFS \<and>
     (if fld_selection_set f = None then is_composite ix tn else is_leaf ix tn)"
  by (auto simp: scalar_leafs_def Let_def)

lemma adds_none: "adds_by P Some (\<lambda>_. False)"
  by (simp add: adds_by_def)

lemma typed_nested_nested: "typed_nested ix p sel = Some (p', r') \<Longrightarrow> nested sel = Some r'"
  by (cases sel) (auto simp: Let_def bind_eq_Some_conv split: if_splits)

text \<open>The recursive call a selection makes, if any.\<close>

definition recurse_opt :: "(string \<Rightarrow> node_range \<Rightarrow> errors \<Rightarrow> errors option) \<Rightarrow> (string \<times> node_range) option \<Rightarrow> errors \<Rightarrow> errors option" where
  "recurse_opt recurse t errs = (case t of None \<Rightarrow> Some errs | Some (p, r) \<Rightarrow> recurse p r errs)"

lemma adds_recurse_opt:
  assumes "\<And>p r. t = Some (p, r) \<Longrightarrow> adds_by reports (recurse p r) (W p r)"
  shows "adds_by reports (recurse_opt recurse t) (\<lambda>x. \<exists>p r. t = Some (p, r) \<and> W p r x)"
proof (cases t)
  case None
  then show ?thesis by (simp add: adds_by_def recurse_opt_def)
next
  case (Some pr)
  then show ?thesis using assms by (cases pr) (simp add: recurse_opt_def [abs_def])
qed

lemma walk_selection_field:
  assumes "nm_value (fld_name f) \<noteq> ''__typename''" and "lookup_field ix p (nm_value (fld_name f)) = Some fd"
  shows "walk_selection recurse doc ix p (SField f) = (\<lambda>errs.
    do { errs \<leftarrow> check_field_args doc ix (fld_arguments f) fd (scalar_leafs ix (unwrap_type_name (fd_field_type fd)) f errs);
         errs \<leftarrow> check_directives doc ix (fld_directives f) errs;
         recurse_opt recurse (typed_nested ix p (SField f)) errs })"
  using assms by (cases "fld_selection_set f") (simp_all add: fun_eq_iff walk_selection_def Let_def recurse_opt_def)

lemma walk_selection_inline:
  "walk_selection recurse doc ix p (SInlineFragment inl) = (\<lambda>errs.
    do { errs \<leftarrow> check_directives doc ix (ifr_directives inl) errs; recurse_opt recurse (typed_nested ix p (SInlineFragment inl)) errs })"
  by (simp add: fun_eq_iff walk_selection_def Let_def recurse_opt_def)

lemma adds_walk_selection:
  assumes cf: "children_first (doc_nodes doc)" and sel: "selection_ok (doc_nodes doc) sel"
    and rec: "\<And>p' r'. typed_nested ix p sel = Some (p', r') \<Longrightarrow> adds_by reports (recurse p' r') (set_breaks doc ix p' r')"
  shows "adds_by reports (walk_selection recurse doc ix p sel)
    (\<lambda>r. sel_breaks doc ix p sel r \<or> (\<exists>p' r'. typed_nested ix p sel = Some (p', r') \<and> set_breaks doc ix p' r' r))"
proof (cases sel)
  case (SField f)
  note nested = adds_recurse_opt [of "typed_nested ix p sel" recurse "set_breaks doc ix", OF rec]
  show ?thesis
  proof (cases "nm_value (fld_name f) = ''__typename'' \<or> lookup_field ix p (nm_value (fld_name f)) = None")
    case True
    then show ?thesis by (auto simp: SField adds_by_def walk_selection_def)
  next
    case False
    then obtain fd where fd: "nm_value (fld_name f) \<noteq> ''__typename''" "lookup_field ix p (nm_value (fld_name f)) = Some fd" by auto
    have "range_ok project_argument (doc_nodes doc) (fld_arguments f)" "range_ok project_directive (doc_nodes doc) (fld_directives f)"
      using sel SField by simp_all
    note args = adds_arguments_check [OF cf this(1), of ix "fd_arguments fd" "''argument is not declared on the field''"
        "''argument value does not match the declared type''", folded check_field_args_def]
      and dirs = adds_check_directives [OF cf this(2), of ix]
    show ?thesis
      unfolding SField walk_selection_field [OF fd]
      by (rule adds_by_cong [OF adds_by_bind [OF adds_by_pure [OF scalar_leafs_report args] adds_by_bind [OF dirs nested [unfolded SField]]]])
        (auto simp: fd)
  qed
next
  case (SInlineFragment inl)
  have "range_ok project_directive (doc_nodes doc) (ifr_directives inl)" using sel SInlineFragment by simp
  note dirs = adds_check_directives [OF cf this, of ix] and nested = adds_recurse_opt [of "typed_nested ix p sel" recurse "set_breaks doc ix", OF rec]
  from adds_by_bind [OF dirs nested] show ?thesis
    by (simp add: SInlineFragment walk_selection_inline del: typed_nested.simps)
next
  case (SFragmentSpread fs)
  have "range_ok project_directive (doc_nodes doc) (fsp_directives fs)" using sel SFragmentSpread by simp
  from adds_check_directives [OF cf this, of ix] show ?thesis
    by (simp add: SFragmentSpread adds_by_def walk_selection_def)
qed

lemma selection_ok_whole: "selection_ok (take i ns) sel \<Longrightarrow> selection_ok ns sel"
  using node_ok_append [of "take i ns" "NSelection sel" "drop i ns"] by simp

lemma adds_walk_fields:
  assumes cf: "children_first (doc_nodes doc)"
  shows "range_ok project_selection (take j (doc_nodes doc)) rg \<Longrightarrow> j < k \<Longrightarrow>
    adds_by reports (walk_fields k doc ix p rg) (set_breaks doc ix p rg)"
proof (induction k arbitrary: j p rg)
  case (Suc k)
  obtain sels where sels: "doc_selections doc rg = Some sels" "\<forall>sel \<in> set sels. \<exists>i < j. selection_ok (take i (doc_nodes doc)) sel"
    using reads(5) [OF cf, of j rg] Suc.prems(1) by auto
  have "adds_by reports (ofold (walk_selection (walk_fields k doc ix) doc ix p) sels) (\<lambda>r. \<exists>sel \<in> set sels.
      sel_breaks doc ix p sel r \<or> (\<exists>p' r'. typed_nested ix p sel = Some (p', r') \<and> set_breaks doc ix p' r' r))"
  proof (rule adds_by_ofold, rule adds_walk_selection [OF cf])
    fix sel
    assume "sel \<in> set sels"
    then obtain i where i: "i < j" "selection_ok (take i (doc_nodes doc)) sel" using sels(2) by blast
    then show "selection_ok (doc_nodes doc) sel" by (blast intro: selection_ok_whole)
    show "adds_by reports (walk_fields k doc ix p' r') (set_breaks doc ix p' r')" if "typed_nested ix p sel = Some (p', r')" for p' r'
      using i Suc.prems(2) nested_ok [OF i(2) typed_nested_nested [OF that]] by (intro Suc.IH [of i]) auto
  qed
  then show ?case using sels(1) set_breaks_iff [OF sels(1)] by (simp add: adds_by_def)
qed simp

section \<open>Known types are reported\<close>

lemma check_named_type_report:
  "reports (check_named_type ix n sp errs) r \<longleftrightarrow> reports errs r \<or> r = RULE_KNOWN_TYPE_NAMES \<and> \<not> knows_type ix n"
  by (auto simp: check_named_type_def)

lemma check_type_ref_report:
  "reports (check_type_ref ix t errs) r \<longleftrightarrow> reports errs r \<or> r = RULE_KNOWN_TYPE_NAMES \<and> \<not> knows_type ix (unwrap_type_name t)"
  by (induction t) (simp_all add: check_named_type_report)

definition condition_inside :: "document \<Rightarrow> node_range \<Rightarrow> string \<Rightarrow> bool" where
  "condition_inside doc rg n \<longleftrightarrow> (\<exists>inl tc. inside doc rg (SInlineFragment inl) \<and> ifr_type_condition inl = Some tc \<and> nm_value (nt_name tc) = n)"

definition unknown_condition :: "document \<Rightarrow> schema_index \<Rightarrow> node_range \<Rightarrow> string \<Rightarrow> bool" where
  "unknown_condition doc ix rg r \<longleftrightarrow> r = RULE_KNOWN_TYPE_NAMES \<and> (\<exists>n. condition_inside doc rg n \<and> \<not> knows_type ix n)"

fun sel_condition :: "selection \<Rightarrow> string option" where
  "sel_condition (SInlineFragment inl) = map_option (\<lambda>tc. nm_value (nt_name tc)) (ifr_type_condition inl)"
| "sel_condition _ = None"

lemma condition_inside_iff:
  assumes "doc_selections doc rg = Some sels"
  shows "condition_inside doc rg n \<longleftrightarrow> (\<exists>sel \<in> set sels. sel_condition sel = Some n \<or> (\<exists>r'. nested sel = Some r' \<and> condition_inside doc r' n))"
proof -
  have "sel_condition sel = Some n \<longleftrightarrow> (\<exists>inl tc. sel = SInlineFragment inl \<and> ifr_type_condition inl = Some tc \<and> nm_value (nt_name tc) = n)"
    for sel by (cases sel) auto
  then show ?thesis unfolding condition_inside_def inside_iff [OF assms] by blast
qed

lemma adds_known_selection:
  assumes "\<And>r. nested sel = Some r \<Longrightarrow> adds_by reports (recurse r) (unknown_condition doc ix r)"
  shows "adds_by reports (known_types_in_selection recurse ix sel) (\<lambda>r. r = RULE_KNOWN_TYPE_NAMES \<and>
    (\<exists>n. (sel_condition sel = Some n \<or> (\<exists>r'. nested sel = Some r' \<and> condition_inside doc r' n)) \<and> \<not> knows_type ix n))"
proof (cases sel)
  case (SField f)
  show ?thesis
  proof (cases "fld_selection_set f")
    case (Some ss)
    then show ?thesis
      using assms [of "ss_selections ss"] by (simp add: SField known_types_in_selection_def [abs_def] unknown_condition_def [abs_def])
  qed (simp add: SField known_types_in_selection_def [abs_def] adds_by_def)
next
  case (SInlineFragment inl)
  have "reports (case ifr_type_condition inl of None \<Rightarrow> errs
      | Some tc \<Rightarrow> check_named_type ix (nm_value (nt_name tc)) (nm_span (nt_name tc)) errs) r \<longleftrightarrow>
    reports errs r \<or> r = RULE_KNOWN_TYPE_NAMES \<and> (\<exists>n. sel_condition sel = Some n \<and> \<not> knows_type ix n)" for errs r
    by (auto simp: SInlineFragment check_named_type_report split: option.split)
  note condition = this
  have rec: "adds_by reports (recurse (ss_selections (ifr_selection_set inl)))
      (unknown_condition doc ix (ss_selections (ifr_selection_set inl)))"
    by (rule assms) (simp add: SInlineFragment)
  have "known_types_in_selection recurse ix sel = (\<lambda>errs. recurse (ss_selections (ifr_selection_set inl))
      (case ifr_type_condition inl of None \<Rightarrow> errs
       | Some tc \<Rightarrow> check_named_type ix (nm_value (nt_name tc)) (nm_span (nt_name tc)) errs))"
    by (simp add: SInlineFragment known_types_in_selection_def fun_eq_iff)
  then show ?thesis
    by (simp only:) (rule adds_by_cong [OF adds_by_pure [OF condition rec]], auto simp: SInlineFragment unknown_condition_def)
next
  case (SFragmentSpread fs)
  then show ?thesis by (simp add: known_types_in_selection_def [abs_def] adds_by_def)
qed

lemma adds_known_set:
  assumes cf: "children_first (doc_nodes doc)"
  shows "range_ok project_selection (take j (doc_nodes doc)) rg \<Longrightarrow> j < k \<Longrightarrow>
    adds_by reports (check_known_types_in_selection_set k doc ix rg) (unknown_condition doc ix rg)"
proof (induction k arbitrary: j rg)
  case (Suc k)
  obtain sels where sels: "doc_selections doc rg = Some sels" "\<forall>sel \<in> set sels. \<exists>i < j. selection_ok (take i (doc_nodes doc)) sel"
    using reads(5) [OF cf, of j rg] Suc.prems(1) by auto
  have "adds_by reports (ofold (known_types_in_selection (check_known_types_in_selection_set k doc ix) ix) sels)
      (\<lambda>r. \<exists>sel \<in> set sels. r = RULE_KNOWN_TYPE_NAMES \<and>
        (\<exists>n. (sel_condition sel = Some n \<or> (\<exists>r'. nested sel = Some r' \<and> condition_inside doc r' n)) \<and> \<not> knows_type ix n))"
  proof (rule adds_by_ofold, rule adds_known_selection)
    fix sel r'
    assume "sel \<in> set sels" "nested sel = Some r'"
    then obtain i where "i < j" "range_ok project_selection (take i (doc_nodes doc)) r'"
      using sels(2) nested_ok by blast
    then show "adds_by reports (check_known_types_in_selection_set k doc ix r') (unknown_condition doc ix r')"
      using Suc.prems(2) by (intro Suc.IH [of i]) auto
  qed
  then have "adds_by reports (check_known_types_in_selection_set (Suc k) doc ix rg)
      (\<lambda>r. \<exists>sel \<in> set sels. r = RULE_KNOWN_TYPE_NAMES \<and>
        (\<exists>n. (sel_condition sel = Some n \<or> (\<exists>r'. nested sel = Some r' \<and> condition_inside doc r' n)) \<and> \<not> knows_type ix n))"
    by (simp add: adds_by_def sels(1))
  then show ?case
    by (rule adds_by_cong) (auto simp: unknown_condition_def condition_inside_iff [OF sels(1)])
qed simp

section \<open>All rules\<close>

text \<open>Type names a definition refers to: of variables, and conditions of fragments.\<close>

definition refers_to :: "document \<Rightarrow> gdefinition \<Rightarrow> string \<Rightarrow> bool" where
  "refers_to doc d n \<longleftrightarrow> condition_inside doc (definition_selections d) n \<or>
     (case d of
        DOperation op \<Rightarrow> (\<exists>vds. doc_variable_definitions doc (opd_variable_definitions op) = Some vds \<and>
                            (\<exists>vd \<in> set vds. unwrap_type_name (vd_type vd) = n))
      | DFragment f \<Rightarrow> nm_value (nt_name (frd_type_condition f)) = n)"

text \<open>The type a definition selects on, if the schema has it, and its directives.\<close>

fun definition_type :: "schema_index \<Rightarrow> gdefinition \<Rightarrow> string option" where
  "definition_type ix (DOperation op) = root_for ix (opd_kind op)"
| "definition_type ix (DFragment f) =
     (let p = nm_value (nt_name (frd_type_condition f)) in if knows_type ix p then Some p else None)"

fun definition_directives :: "gdefinition \<Rightarrow> node_range" where
  "definition_directives (DOperation op) = opd_directives op"
| "definition_directives (DFragment f) = frd_directives f"

definition definition_breaks :: "document \<Rightarrow> schema_index \<Rightarrow> gdefinition \<Rightarrow> string \<Rightarrow> bool" where
  "definition_breaks doc ix d r \<longleftrightarrow>
     directives_break doc ix (definition_directives d) r \<or>
     (\<exists>p. definition_type ix d = Some p \<and> set_breaks doc ix p (definition_selections d) r)"

lemma definition_parts_ok:
  "definition_ok ns d \<Longrightarrow> range_ok project_directive ns (definition_directives d)"
  by (cases d) simp_all

lemma adds_known_definition:
  assumes cf: "children_first (doc_nodes doc)" and d: "definition_ok (doc_nodes doc) d"
  shows "adds_by reports (known_types_in_definition doc ix d)
    (\<lambda>r. r = RULE_KNOWN_TYPE_NAMES \<and> (\<exists>n. refers_to doc d n \<and> \<not> knows_type ix n))"
proof -
  have set: "adds_by reports (check_known_types_in_selection_set (value_fuel doc) doc ix (definition_selections d))
      (unknown_condition doc ix (definition_selections d))"
    by (rule adds_known_set [OF cf, of "length (doc_nodes doc)"]) (use definition_selections_ok [OF d] in simp_all)
  show ?thesis
  proof (cases d)
    case (DOperation op)
    obtain vds where vds: "doc_variable_definitions doc (opd_variable_definitions op) = Some vds"
      using read_variables [OF cf] d DOperation by force
    have "reports (fold (\<lambda>vd. check_type_ref ix (vd_type vd)) vds errs) r \<longleftrightarrow> reports errs r \<or>
        (\<exists>vd \<in> set vds. r = RULE_KNOWN_TYPE_NAMES \<and> \<not> knows_type ix (unwrap_type_name (vd_type vd)))" for errs r
      by (rule fold_observes) (rule check_type_ref_report)
    from adds_by_pure [OF this set]
    have "adds_by reports (known_types_in_definition doc ix d) (\<lambda>r.
        (\<exists>vd \<in> set vds. r = RULE_KNOWN_TYPE_NAMES \<and> \<not> knows_type ix (unwrap_type_name (vd_type vd))) \<or>
        unknown_condition doc ix (definition_selections d) r)"
      using vds by (simp add: DOperation known_types_in_definition_def [abs_def] check_known_types_in_variable_defs_def
          del: check_known_types_in_selection_set.simps)
    then show ?thesis
      by (rule adds_by_cong) (auto simp: refers_to_def unknown_condition_def DOperation vds)
  next
    case (DFragment f)
    from adds_by_pure [OF check_named_type_report [where n = "nm_value (nt_name (frd_type_condition f))" and
        sp = "nm_span (nt_name (frd_type_condition f))" and ix = ix] set]
    have "adds_by reports (known_types_in_definition doc ix d) (\<lambda>r.
        r = RULE_KNOWN_TYPE_NAMES \<and> \<not> knows_type ix (nm_value (nt_name (frd_type_condition f))) \<or>
        unknown_condition doc ix (definition_selections d) r)"
      by (simp add: DFragment known_types_in_definition_def [abs_def] del: check_known_types_in_selection_set.simps)
    then show ?thesis
      by (rule adds_by_cong) (auto simp: refers_to_def unknown_condition_def DFragment)
  qed
qed

lemma adds_walk_definition:
  assumes cf: "children_first (doc_nodes doc)" and d: "definition_ok (doc_nodes doc) d"
  shows "adds_by reports (\<lambda>errs. do { errs \<leftarrow> check_directives doc ix (definition_directives d) errs;
      (case definition_type ix d of
         None \<Rightarrow> Some errs
       | Some p \<Rightarrow> walk_fields (value_fuel doc) doc ix p (definition_selections d) errs) }) (definition_breaks doc ix d)"
proof -
  have "adds_by reports (\<lambda>errs. case definition_type ix d of None \<Rightarrow> Some errs
      | Some p \<Rightarrow> walk_fields (value_fuel doc) doc ix p (definition_selections d) errs)
      (\<lambda>r. \<exists>p. definition_type ix d = Some p \<and> set_breaks doc ix p (definition_selections d) r)"
  proof (cases "definition_type ix d")
    case (Some p)
    then show ?thesis
      using adds_walk_fields [OF cf, of "length (doc_nodes doc)" "definition_selections d" "value_fuel doc" ix p]
        definition_selections_ok [OF d] by (simp del: walk_fields.simps)
  qed (simp add: adds_by_def)
  from adds_by_bind [OF adds_check_directives [OF cf definition_parts_ok [OF d]] this] show ?thesis
    by (rule adds_by_cong) (simp add: definition_breaks_def)
qed

definition schema_breaks :: "document \<Rightarrow> schema_index \<Rightarrow> gdefinition list \<Rightarrow> string \<Rightarrow> bool" where
  "schema_breaks doc ix defs r \<longleftrightarrow>
     r = RULE_KNOWN_TYPE_NAMES \<and> (\<exists>d \<in> set defs. \<exists>n. refers_to doc d n \<and> \<not> knows_type ix n) \<or>
     (\<exists>d \<in> set defs. definition_breaks doc ix d r)"

lemma adds_run_all:
  assumes wf: "wf_doc doc" and defs: "doc_definitions doc = Some defs" "\<forall>d \<in> set defs. definition_ok (doc_nodes doc) d"
  shows "adds_by reports (run_all doc ix) (schema_breaks doc ix defs)"
proof -
  have cf: "children_first (doc_nodes doc)" using wf by (simp add: wf_doc_def)
  have op: "walk_operation doc ix op = (\<lambda>errs. do { errs \<leftarrow> check_directives doc ix (definition_directives (DOperation op)) errs;
      (case definition_type ix (DOperation op) of
         None \<Rightarrow> Some errs
       | Some p \<Rightarrow> walk_fields (value_fuel doc) doc ix p (definition_selections (DOperation op)) errs) })" for op
    unfolding walk_operation_def definition_directives.simps definition_type.simps definition_selections.simps by (rule refl)
  have fr: "walk_fragment_definition doc ix f = (\<lambda>errs. do { errs \<leftarrow> check_directives doc ix (definition_directives (DFragment f)) errs;
      (case definition_type ix (DFragment f) of
         None \<Rightarrow> Some errs
       | Some p \<Rightarrow> walk_fields (value_fuel doc) doc ix p (definition_selections (DFragment f)) errs) })" for f
    unfolding walk_fragment_definition_def definition_directives.simps definition_type.simps definition_selections.simps
    by (simp add: Let_def fun_eq_iff del: walk_fields.simps)
  have known: "adds_by reports (ofold (known_types_in_definition doc ix) defs)
      (\<lambda>r. \<exists>d \<in> set defs. r = RULE_KNOWN_TYPE_NAMES \<and> (\<exists>n. refers_to doc d n \<and> \<not> knows_type ix n))"
    by (rule adds_by_ofold) (use adds_known_definition [OF cf] defs(2) in blast)
  have ops: "adds_by reports (ofold (walk_operation doc ix) (doc_operations defs))
      (\<lambda>r. \<exists>op \<in> set (doc_operations defs). definition_breaks doc ix (DOperation op) r)"
    unfolding op by (rule adds_by_ofold, rule adds_walk_definition [OF cf]) (use defs(2) in \<open>unfold set_doc_operations, blast\<close>)
  have frs: "adds_by reports (ofold (walk_fragment_definition doc ix) (doc_fragments defs))
      (\<lambda>r. \<exists>f \<in> set (doc_fragments defs). definition_breaks doc ix (DFragment f) r)"
    unfolding fr by (rule adds_by_ofold, rule adds_walk_definition [OF cf]) (use defs(2) in \<open>unfold set_doc_fragments, blast\<close>)
  have "run_all doc ix = (\<lambda>errs. do { errs \<leftarrow> ofold (known_types_in_definition doc ix) defs errs;
      errs \<leftarrow> ofold (walk_operation doc ix) (doc_operations defs) errs;
      ofold (walk_fragment_definition doc ix) (doc_fragments defs) errs })"
    by (simp add: run_all_def defs(1) fun_eq_iff)
  moreover have "(\<exists>d \<in> set defs. definition_breaks doc ix d r) \<longleftrightarrow>
      (\<exists>op. DOperation op \<in> set defs \<and> definition_breaks doc ix (DOperation op) r) \<or>
      (\<exists>f. DFragment f \<in> set defs \<and> definition_breaks doc ix (DFragment f) r)" for r
    by (metis gdefinition.exhaust)
  ultimately show ?thesis
    by (simp only:) (rule adds_by_cong [OF adds_by_bind [OF known adds_by_bind [OF ops frs]]], auto simp: schema_breaks_def)
qed

text \<open>The types a schema declares.\<close>

fun declares_type :: "type_system_definition \<Rightarrow> string option" where
  "declares_type (TObject d) = Some (nm_value (otd_name d))"
| "declares_type (TInterface d) = Some (nm_value (itd_name d))"
| "declares_type (TUnion d) = Some (nm_value (utd_name d))"
| "declares_type (TEnum d) = Some (nm_value (etd_name d))"
| "declares_type (TInputObject d) = Some (nm_value (iod_name d))"
| "declares_type (TScalar d) = Some (nm_value (scd_name d))"
| "declares_type _ = None"

lemma index_operation_types_kinds: "six_kinds (fold index_operation_type ots ix) = six_kinds ix"
  by (induction ots arbitrary: ix) (simp_all add: index_operation_type_def Let_def)

lemma index_definition_knows: "knows_type (index_definition d ix) n \<longleftrightarrow> knows_type ix n \<or> declares_type d = Some n"
  by (cases d) (auto simp: knows_type_def index_operation_types_kinds)

lemma index_definitions_know:
  "knows_type (fold index_definition ds ix) n \<longleftrightarrow> knows_type ix n \<or> (\<exists>d \<in> set ds. declares_type d = Some n)"
  by (induction ds arbitrary: ix) (auto simp: index_definition_knows)

lemma index_empty_knows: "knows_type index_empty n \<longleftrightarrow> n \<in> set builtin_scalars"
  by (auto simp: knows_type_def index_empty_def builtin_scalars_def bt_contains_iff)

text \<open>The schema index knows exactly the built-in scalars and the types the schema declares.\<close>

theorem index_knows:
  "knows_type (index_build schema) n \<longleftrightarrow>
     n \<in> set builtin_scalars \<or> (\<exists>d \<in> set (sd_definitions schema). declares_type d = Some n)"
  by (simp add: index_build_def Let_def knows_type_def [of "_\<lparr>six_query := _, six_mutation := _, six_subscription := _\<rparr>"]
      knows_type_def [symmetric] index_definitions_know index_empty_knows)

section \<open>The rules, read off the schema\<close>

text \<open>A second account of the rules, which speaks of the definitions of the schema only and uses none of the
  lookups and checks of the validator. Of several definitions of one name the last counts, of several
  fields or arguments of one name the first.\<close>

fun declared_kind :: "type_system_definition \<Rightarrow> (string \<times> type_kind) option" where
  "declared_kind (TObject d) = Some (nm_value (otd_name d), KObject)"
| "declared_kind (TInterface d) = Some (nm_value (itd_name d), KInterface)"
| "declared_kind (TUnion d) = Some (nm_value (utd_name d), KUnion)"
| "declared_kind (TEnum d) = Some (nm_value (etd_name d), KEnum)"
| "declared_kind (TInputObject d) = Some (nm_value (iod_name d), KInputObject)"
| "declared_kind (TScalar d) = Some (nm_value (scd_name d), KScalar)"
| "declared_kind _ = None"

definition kind_of :: "schema_document \<Rightarrow> string \<Rightarrow> type_kind option" where
  "kind_of schema n =
     (case map_of (rev (List.map_filter declared_kind (sd_definitions schema))) n of
        Some k \<Rightarrow> Some k
      | None \<Rightarrow> if n \<in> {''Int'', ''Float'', ''String'', ''Boolean'', ''ID''} then Some KScalar else None)"

definition object_named :: "schema_document \<Rightarrow> string \<Rightarrow> object_type_def option" where
  "object_named schema = map_of (rev [(nm_value (otd_name d), d). TObject d \<leftarrow> sd_definitions schema])"

definition interface_named :: "schema_document \<Rightarrow> string \<Rightarrow> interface_type_def option" where
  "interface_named schema = map_of (rev [(nm_value (itd_name d), d). TInterface d \<leftarrow> sd_definitions schema])"

definition directive_named :: "schema_document \<Rightarrow> string \<Rightarrow> directive_def option" where
  "directive_named schema = map_of (rev [(nm_value (dd_name d), d). TDirective d \<leftarrow> sd_definitions schema])"

definition field_named :: "schema_document \<Rightarrow> string \<Rightarrow> string \<Rightarrow> field_def option" where
  "field_named schema n f =
     map_of (map (\<lambda>fd. (nm_value (fd_name fd), fd))
       (case object_named schema n of
          Some d \<Rightarrow> otd_fields d
        | None \<Rightarrow> (case interface_named schema n of Some d \<Rightarrow> itd_fields d | None \<Rightarrow> []))) f"

text \<open>The root type of a kind of operation: the one named last in a schema definition, else the object type
  with the name of the kind.\<close>

fun kind_names :: "operation_kind \<Rightarrow> string \<times> string" where
  "kind_names Query = (''query'', ''Query'')"
| "kind_names Mutation = (''mutation'', ''Mutation'')"
| "kind_names Subscription = (''subscription'', ''Subscription'')"

definition root_type :: "schema_document \<Rightarrow> operation_kind \<Rightarrow> string option" where
  "root_type schema k =
     (case map_of (rev [(otd_operation ot, nm_value (nt_name (otd_named_type ot))). TSchema d \<leftarrow> sd_definitions schema, ot \<leftarrow> sch_operation_types d])
        (fst (kind_names k)) of
        Some n \<Rightarrow> Some n
      | None \<Rightarrow> if object_named schema (snd (kind_names k)) = None then None else Some (snd (kind_names k)))"

text \<open>The values a type accepts. Variables are accepted everywhere and the elements of a list and the fields
  of an object are not looked at; a value of a type the schema does not have is accepted.\<close>

inductive accepts :: "schema_document \<Rightarrow> gvalue \<Rightarrow> gtype \<Rightarrow> bool" for schema where
  acc_variable: "accepts schema (VVariable x) t"
| acc_null: "accepts schema VNull (Named nt)"
| acc_null_list: "accepts schema VNull (TList t)"
| acc_non_null: "v \<noteq> VNull \<Longrightarrow> accepts schema v t \<Longrightarrow> accepts schema v (NonNull t)"
| acc_list: "accepts schema (VList vs) (TList t)"
| acc_single: "v \<noteq> VNull \<Longrightarrow> accepts schema v t \<Longrightarrow> accepts schema v (TList t)"
| acc_int: "kind_of schema (nm_value (nt_name nt)) = Some KScalar \<Longrightarrow>
    nm_value (nt_name nt) \<in> {''Int'', ''Float'', ''String'', ''ID''} \<Longrightarrow> accepts schema (VInt i) (Named nt)"
| acc_float: "kind_of schema (nm_value (nt_name nt)) = Some KScalar \<Longrightarrow> nm_value (nt_name nt) = ''Float'' \<Longrightarrow> accepts schema (VFloat x) (Named nt)"
| acc_string: "kind_of schema (nm_value (nt_name nt)) = Some KScalar \<Longrightarrow> nm_value (nt_name nt) \<in> {''String'', ''ID''} \<Longrightarrow> accepts schema (VString x) (Named nt)"
| acc_boolean: "kind_of schema (nm_value (nt_name nt)) = Some KScalar \<Longrightarrow> nm_value (nt_name nt) = ''Boolean'' \<Longrightarrow> accepts schema (VBoolean x) (Named nt)"
| acc_custom: "kind_of schema (nm_value (nt_name nt)) = Some KScalar \<Longrightarrow>
    nm_value (nt_name nt) \<notin> {''Int'', ''Float'', ''String'', ''Boolean'', ''ID''} \<Longrightarrow> accepts schema v (Named nt)"
| acc_enum: "kind_of schema (nm_value (nt_name nt)) = Some KEnum \<Longrightarrow> accepts schema (VEnum x) (Named nt)"
| acc_object: "kind_of schema (nm_value (nt_name nt)) = Some KInputObject \<Longrightarrow> accepts schema (VObject x) (Named nt)"
| acc_unknown: "kind_of schema (nm_value (nt_name nt)) = None \<Longrightarrow> accepts schema v (Named nt)"

primrec innermost :: "gtype \<Rightarrow> string" where
  "innermost (Named nt) = nm_value (nt_name nt)"
| "innermost (TList t) = innermost t"
| "innermost (NonNull t) = innermost t"

definition composite :: "schema_document \<Rightarrow> string \<Rightarrow> bool" where
  "composite schema n \<longleftrightarrow> kind_of schema n = Some KObject \<or> kind_of schema n = Some KInterface \<or> kind_of schema n = Some KUnion"

definition leaf :: "schema_document \<Rightarrow> string \<Rightarrow> bool" where
  "leaf schema n \<longleftrightarrow> kind_of schema n = Some KScalar \<or> kind_of schema n = Some KEnum"

text \<open>Arguments against the declared ones: each is declared, with a value the declared type accepts.\<close>

definition bad_arguments :: "document \<Rightarrow> schema_document \<Rightarrow> input_value_def list \<Rightarrow> node_range \<Rightarrow> string \<Rightarrow> bool" where
  "bad_arguments doc schema defs rg r \<longleftrightarrow>
     (\<exists>as a. doc_arguments doc rg = Some as \<and> a \<in> set as \<and>
        (case map_of (map (\<lambda>d. (nm_value (ivd_name d), d)) defs) (nm_value (arg_name a)) of
           None \<Rightarrow> r = ''KnownArgumentNames''
         | Some d \<Rightarrow> r = ''ArgumentsOfCorrectType'' \<and> \<not> accepts schema (arg_value a) (ivd_value_type d)))"

definition bad_directives :: "document \<Rightarrow> schema_document \<Rightarrow> node_range \<Rightarrow> string \<Rightarrow> bool" where
  "bad_directives doc schema rg r \<longleftrightarrow>
     (\<exists>ds d dd. doc_directives doc rg = Some ds \<and> d \<in> set ds \<and> directive_named schema (nm_value (dir_name d)) = Some dd \<and>
        bad_arguments doc schema (dd_arguments dd) (dir_arguments d) r)"

text \<open>A field in a selection set of type \<open>p\<close>. The name \<open>__typename\<close> is a field of every type.\<close>

definition bad_field :: "document \<Rightarrow> schema_document \<Rightarrow> string \<Rightarrow> field \<Rightarrow> string \<Rightarrow> bool" where
  "bad_field doc schema p f r \<longleftrightarrow> nm_value (fld_name f) \<noteq> ''__typename'' \<and>
     (case field_named schema p (nm_value (fld_name f)) of
        None \<Rightarrow> r = ''FieldsOnCorrectType''
      | Some fd \<Rightarrow>
          r = ''ScalarLeafs'' \<and> fld_selection_set f = None \<and> composite schema (innermost (fd_field_type fd)) \<or>
          r = ''ScalarLeafs'' \<and> fld_selection_set f \<noteq> None \<and> leaf schema (innermost (fd_field_type fd)) \<or>
          bad_arguments doc schema (fd_arguments fd) (fld_arguments f) r \<or> bad_directives doc schema (fld_directives f) r)"

text \<open>The selections that are checked, with the type of their set: those of the definition; below a declared
  field those of its type, when this is composite; below an inline fragment those of its condition,
  when the schema has that type. Spreads are not followed, each fragment being checked by itself.\<close>

inductive checked_in :: "document \<Rightarrow> schema_document \<Rightarrow> string \<Rightarrow> node_range \<Rightarrow> string \<Rightarrow> selection \<Rightarrow> bool" for doc schema where
  chk_here: "doc_selections doc rg = Some sels \<Longrightarrow> sel \<in> set sels \<Longrightarrow> checked_in doc schema p rg p sel"
| chk_field: "doc_selections doc rg = Some sels \<Longrightarrow> SField f \<in> set sels \<Longrightarrow> nm_value (fld_name f) \<noteq> ''__typename'' \<Longrightarrow>
    field_named schema p (nm_value (fld_name f)) = Some fd \<Longrightarrow> fld_selection_set f = Some ss \<Longrightarrow>
    composite schema (innermost (fd_field_type fd)) \<Longrightarrow>
    checked_in doc schema (innermost (fd_field_type fd)) (ss_selections ss) q sel \<Longrightarrow> checked_in doc schema p rg q sel"
| chk_inline: "doc_selections doc rg = Some sels \<Longrightarrow> SInlineFragment inl \<in> set sels \<Longrightarrow> ifr_type_condition inl = Some tc \<Longrightarrow>
    kind_of schema (nm_value (nt_name tc)) \<noteq> None \<Longrightarrow>
    checked_in doc schema (nm_value (nt_name tc)) (ss_selections (ifr_selection_set inl)) q sel \<Longrightarrow> checked_in doc schema p rg q sel"
| chk_plain: "doc_selections doc rg = Some sels \<Longrightarrow> SInlineFragment inl \<in> set sels \<Longrightarrow> ifr_type_condition inl = None \<Longrightarrow>
    kind_of schema p \<noteq> None \<Longrightarrow> checked_in doc schema p (ss_selections (ifr_selection_set inl)) q sel \<Longrightarrow> checked_in doc schema p rg q sel"

definition bad_selection :: "document \<Rightarrow> schema_document \<Rightarrow> string \<Rightarrow> selection \<Rightarrow> string \<Rightarrow> bool" where
  "bad_selection doc schema p sel r \<longleftrightarrow>
     (case sel of
        SField f \<Rightarrow> bad_field doc schema p f r
      | SInlineFragment inl \<Rightarrow> bad_directives doc schema (ifr_directives inl) r
      | SFragmentSpread s \<Rightarrow> bad_directives doc schema (fsp_directives s) r)"

definition bad_set :: "document \<Rightarrow> schema_document \<Rightarrow> string \<Rightarrow> node_range \<Rightarrow> string \<Rightarrow> bool" where
  "bad_set doc schema p rg r \<longleftrightarrow> (\<exists>q sel. checked_in doc schema p rg q sel \<and> bad_selection doc schema q sel r)"

text \<open>A document breaks a rule of the schema.\<close>

definition schema_violated :: "document \<Rightarrow> schema_document \<Rightarrow> gdefinition list \<Rightarrow> string \<Rightarrow> bool" where
  "schema_violated doc schema defs r \<longleftrightarrow>
     r = ''KnownTypeNames'' \<and>
       ((\<exists>op vds vd. DOperation op \<in> set defs \<and> doc_variable_definitions doc (opd_variable_definitions op) = Some vds \<and> vd \<in> set vds \<and>
           kind_of schema (innermost (vd_type vd)) = None) \<or>
        (\<exists>f. DFragment f \<in> set defs \<and> kind_of schema (nm_value (nt_name (frd_type_condition f))) = None) \<or>
        (\<exists>d inl tc. d \<in> set defs \<and> inside doc (definition_selections d) (SInlineFragment inl) \<and> ifr_type_condition inl = Some tc \<and>
           kind_of schema (nm_value (nt_name tc)) = None)) \<or>
     (\<exists>op. DOperation op \<in> set defs \<and>
        (bad_directives doc schema (opd_directives op) r \<or>
         (\<exists>p. root_type schema (opd_kind op) = Some p \<and> bad_set doc schema p (ss_selections (opd_selection_set op)) r))) \<or>
     (\<exists>f. DFragment f \<in> set defs \<and>
        (bad_directives doc schema (frd_directives f) r \<or>
         kind_of schema (nm_value (nt_name (frd_type_condition f))) \<noteq> None \<and>
           bad_set doc schema (nm_value (nt_name (frd_type_condition f))) (ss_selections (frd_selection_set f)) r))"

section \<open>The index says what the schema declares\<close>

lemma index_operation_types_others:
  "six_objects (fold index_operation_type ots ix) = six_objects ix" "six_interfaces (fold index_operation_type ots ix) = six_interfaces ix"
  "six_directives (fold index_operation_type ots ix) = six_directives ix"
  by (induction ots arbitrary: ix) (simp_all add: index_operation_type_def Let_def)

lemma index_kinds:
  "bt_get (six_kinds (fold index_definition ds ix)) n =
     (case map_of (rev (List.map_filter declared_kind ds)) n of Some k \<Rightarrow> Some k | None \<Rightarrow> bt_get (six_kinds ix) n)"
proof (induction ds arbitrary: ix)
  case (Cons d ds)
  then show ?case
    by (cases d) (auto simp: map_filter_simps index_operation_types_kinds map_add_def split: option.split)
qed (simp add: map_filter_simps)

lemma index_objects:
  "bt_get (six_objects (fold index_definition ds ix)) n =
     (case map_of (rev [(nm_value (otd_name d), d). TObject d \<leftarrow> ds]) n of Some d \<Rightarrow> Some d | None \<Rightarrow> bt_get (six_objects ix) n)"
proof (induction ds arbitrary: ix)
  case (Cons d ds)
  then show ?case by (cases d) (auto simp: index_operation_types_others map_add_def split: option.split)
qed simp

lemma index_interfaces:
  "bt_get (six_interfaces (fold index_definition ds ix)) n =
     (case map_of (rev [(nm_value (itd_name d), d). TInterface d \<leftarrow> ds]) n of Some d \<Rightarrow> Some d | None \<Rightarrow> bt_get (six_interfaces ix) n)"
proof (induction ds arbitrary: ix)
  case (Cons d ds)
  then show ?case by (cases d) (auto simp: index_operation_types_others map_add_def split: option.split)
qed simp

lemma index_directives:
  "bt_get (six_directives (fold index_definition ds ix)) n =
     (case map_of (rev [(nm_value (dd_name d), d). TDirective d \<leftarrow> ds]) n of Some d \<Rightarrow> Some d | None \<Rightarrow> bt_get (six_directives ix) n)"
proof (induction ds arbitrary: ix)
  case (Cons d ds)
  then show ?case by (cases d) (auto simp: index_operation_types_others map_add_def split: option.split)
qed simp

lemma index_roots_of:
  "root_for (fold index_operation_type ots ix) k =
     (case map_of (rev (map (\<lambda>ot. (otd_operation ot, nm_value (nt_name (otd_named_type ot)))) ots)) (fst (kind_names k)) of
        Some n \<Rightarrow> Some n | None \<Rightarrow> root_for ix k)"
proof (induction ots arbitrary: ix)
  case (Cons ot ots)
  then show ?case by (cases k) (auto simp: index_operation_type_def Let_def map_add_def split: option.split)
qed simp

lemma index_roots:
  "root_for (fold index_definition ds ix) k =
     (case map_of (rev [(otd_operation ot, nm_value (nt_name (otd_named_type ot))). TSchema d \<leftarrow> ds, ot \<leftarrow> sch_operation_types d]) (fst (kind_names k)) of
        Some n \<Rightarrow> Some n | None \<Rightarrow> root_for ix k)"
proof (induction ds arbitrary: ix)
  case (Cons d ds)
  have "concat (map (\<lambda>ot. [(otd_operation ot, nm_value (nt_name (otd_named_type ot)))]) ots) =
      map (\<lambda>ot. (otd_operation ot, nm_value (nt_name (otd_named_type ot)))) ots" for ots by (induction ots) simp_all
  then show ?case
    using Cons by (cases d; cases k) (auto simp: index_roots_of [where k = Query, simplified] index_roots_of [where k = Mutation, simplified]
        index_roots_of [where k = Subscription, simplified] map_add_def split: option.split)
qed simp

lemma index_build_kind: "bt_get (six_kinds (index_build schema)) n = kind_of schema n"
proof -
  have empty: "bt_get (six_kinds index_empty) n =
      (if n \<in> {''Int'', ''Float'', ''String'', ''Boolean'', ''ID''} then Some KScalar else None)"
    by (simp add: index_empty_def builtin_scalars_def)
  have "six_kinds (index_build schema) = six_kinds (fold index_definition (sd_definitions schema) index_empty)"
    by (simp add: index_build_def Let_def)
  then show ?thesis
    by (simp only: index_kinds empty kind_of_def)
qed

lemma contains_get: "bt_contains m n \<longleftrightarrow> bt_get m n \<noteq> None"
  by (simp add: bt_contains_def)

lemma index_empty_parts:
  "six_objects index_empty = []" "six_interfaces index_empty = []" "six_directives index_empty = []" "root_for index_empty k = None"
  by (cases k; simp add: index_empty_def)+

lemma index_build_named:
  "bt_get (six_objects (index_build schema)) n = object_named schema n"
  "bt_get (six_interfaces (index_build schema)) n = interface_named schema n"
  "bt_get (six_directives (index_build schema)) n = directive_named schema n"
  by (simp_all add: index_build_def Let_def index_objects index_interfaces index_directives object_named_def interface_named_def
      directive_named_def index_empty_parts split: option.split)

lemma index_build_root: "root_for (index_build schema) k = root_type schema k"
proof -
  let ?ix = "fold index_definition (sd_definitions schema) index_empty"
  have "bt_contains (six_objects ?ix) m \<longleftrightarrow> object_named schema m \<noteq> None" for m
    by (simp add: contains_get index_objects object_named_def index_empty_parts split: option.split)
  moreover have "root_for (index_build schema) k = default_root ?ix (snd (kind_names k)) (root_for ?ix k)"
    by (cases k) (simp_all add: index_build_def Let_def)
  ultimately show ?thesis
    by (simp add: default_root_def root_type_def index_roots index_empty_parts split: option.split)
qed

lemma find_map_of: "find (\<lambda>x. key x = n) xs = map_of (map (\<lambda>x. (key x, x)) xs) n"
  by (induction xs) auto

lemma index_build_field: "lookup_field (index_build schema) p n = field_named schema p n"
  by (simp add: lookup_field_def fields_of_def index_build_named field_named_def find_map_of split: option.split)

lemma index_build_types:
  "knows_type (index_build schema) n \<longleftrightarrow> kind_of schema n \<noteq> None" "is_leaf (index_build schema) n \<longleftrightarrow> leaf schema n"
  "is_composite (index_build schema) n \<longleftrightarrow> composite schema n"
  by (simp_all add: knows_type_def contains_get is_leaf_def is_composite_def index_build_kind leaf_def composite_def)

lemma unwrap_innermost: "unwrap_type_name t = innermost t"
  by (induction t) simp_all

inductive_simps accepts_simps:
  "accepts schema v (Named nt)" "accepts schema v (TList t)" "accepts schema v (NonNull t)"

lemma value_accepted: "value_compatible (index_build schema) v t \<longleftrightarrow> accepts schema v t"
proof (induction t arbitrary: v)
  case (Named nt)
  let ?n = "nm_value (nt_name nt)"
  have "accepts schema v (Named nt) \<longleftrightarrow> (case v of VVariable _ \<Rightarrow> True | VNull \<Rightarrow> True | _ \<Rightarrow> named_accepts (index_build schema) ?n v)"
  proof (cases "kind_of schema ?n")
    case None
    then show ?thesis by (cases v) (simp_all add: named_accepts_def index_build_kind accepts_simps)
  next
    case (Some k)
    show ?thesis
    proof (cases "k = KScalar")
      case True
      have "accepts schema v (Named nt) \<longleftrightarrow> (case v of VVariable _ \<Rightarrow> True | VNull \<Rightarrow> True | _ \<Rightarrow> scalar_accepts ?n v)"
        by (cases v) (auto simp: accepts_simps Some True scalar_accepts_def)
      then show ?thesis by (cases v) (simp_all add: named_accepts_def index_build_kind Some True)
    next
      case False
      then show ?thesis by (cases v; cases k) (simp_all add: named_accepts_def index_build_kind accepts_simps Some)
    qed
  qed
  then show ?case by simp
next
  case (TList t)
  then show ?case by (cases v) (auto simp: accepts_simps)
next
  case (NonNull t)
  then show ?case by (cases v) (auto simp: accepts_simps)
qed

lemma arguments_bad: "arguments_break doc (index_build schema) defs rg r \<longleftrightarrow> bad_arguments doc schema defs rg r"
proof -
  have "argument_breaks (index_build schema) defs a r \<longleftrightarrow>
      (case map_of (map (\<lambda>d. (nm_value (ivd_name d), d)) defs) (nm_value (arg_name a)) of
         None \<Rightarrow> r = ''KnownArgumentNames''
       | Some d \<Rightarrow> r = ''ArgumentsOfCorrectType'' \<and> \<not> accepts schema (arg_value a) (ivd_value_type d))" for a
    unfolding argument_breaks_def find_map_of value_accepted schema_rule_names by (rule refl)
  then show ?thesis
    unfolding arguments_break_def bad_arguments_def by (simp only:) blast
qed

lemma directives_bad: "directives_break doc (index_build schema) rg r \<longleftrightarrow> bad_directives doc schema rg r"
  unfolding directives_break_def bad_directives_def index_build_named arguments_bad by blast

lemma selection_bad: "sel_breaks doc (index_build schema) p sel r \<longleftrightarrow> bad_selection doc schema p sel r"
  by (cases sel) (auto simp: bad_selection_def bad_field_def index_build_field index_build_types unwrap_innermost arguments_bad directives_bad
      schema_rule_names split: option.splits)

lemma typed_checked: "typed_at doc (index_build schema) p rg q sel \<Longrightarrow> checked_in doc schema p rg q sel"
proof (induction rule: typed_at.induct)
  case (typed_deeper rg sels s p p' rg' q sel)
  show ?case
  proof (cases s)
    case (SField f)
    with typed_deeper(3) obtain fd ss where f: "nm_value (fld_name f) \<noteq> ''__typename''" "field_named schema p (nm_value (fld_name f)) = Some fd"
      "fld_selection_set f = Some ss" "composite schema (innermost (fd_field_type fd))" "p' = innermost (fd_field_type fd)" "rg' = ss_selections ss"
      by (auto simp: index_build_field index_build_types unwrap_innermost bind_eq_Some_conv split: if_splits)
    show ?thesis
      using chk_field [OF typed_deeper(1) typed_deeper(2) [unfolded SField] f(1-4)] typed_deeper(5) by (simp add: f)
  next
    case (SInlineFragment inl)
    with typed_deeper(2,3,5) show ?thesis
      by (cases "ifr_type_condition inl")
        (auto simp: Let_def index_build_types split: if_splits intro: chk_inline [OF typed_deeper(1)] chk_plain [OF typed_deeper(1)])
  qed (use typed_deeper(3) in simp)
qed (rule chk_here)

lemma checked_typed: "checked_in doc schema p rg q sel \<Longrightarrow> typed_at doc (index_build schema) p rg q sel"
proof (induction rule: checked_in.induct)
  case (chk_here rg sels sel p)
  then show ?case by (rule typed_here)
next
  case (chk_field rg sels f p fd ss q sel)
  show ?case
    by (rule typed_deeper [OF chk_field(1,2) _ chk_field(8)])
      (use chk_field(3-6) in \<open>simp add: index_build_field index_build_types unwrap_innermost\<close>)
next
  case (chk_inline rg sels inl tc q sel p)
  show ?case
    by (rule typed_deeper [OF chk_inline(1,2) _ chk_inline(6)]) (use chk_inline(3,4) in \<open>simp add: Let_def index_build_types\<close>)
next
  case (chk_plain rg sels inl p q sel)
  show ?case
    by (rule typed_deeper [OF chk_plain(1,2) _ chk_plain(6)]) (use chk_plain(3,4) in \<open>simp add: Let_def index_build_types\<close>)
qed

lemma set_bad: "set_breaks doc (index_build schema) p rg r \<longleftrightarrow> bad_set doc schema p rg r"
  unfolding set_breaks_def bad_set_def selection_bad using typed_checked checked_typed by blast

lemma schema_breaks_violated: "schema_breaks doc (index_build schema) defs r \<longleftrightarrow> schema_violated doc schema defs r"
proof -
  let ?ix = "index_build schema"
  have named: "(\<exists>d \<in> set defs. \<exists>n. refers_to doc d n \<and> \<not> knows_type ?ix n) \<longleftrightarrow>
      (\<exists>op vds vd. DOperation op \<in> set defs \<and> doc_variable_definitions doc (opd_variable_definitions op) = Some vds \<and> vd \<in> set vds \<and>
         kind_of schema (innermost (vd_type vd)) = None) \<or>
      (\<exists>f. DFragment f \<in> set defs \<and> kind_of schema (nm_value (nt_name (frd_type_condition f))) = None) \<or>
      (\<exists>d inl tc. d \<in> set defs \<and> inside doc (definition_selections d) (SInlineFragment inl) \<and> ifr_type_condition inl = Some tc \<and>
         kind_of schema (nm_value (nt_name tc)) = None)" (is "?L \<longleftrightarrow> ?R")
  proof
    assume ?L
    then obtain d n where d: "d \<in> set defs" "refers_to doc d n" "kind_of schema n = None" by (auto simp: index_build_types)
    from d(2) consider (condition) inl tc where "inside doc (definition_selections d) (SInlineFragment inl)" "ifr_type_condition inl = Some tc"
        "n = nm_value (nt_name tc)"
      | (variable) op vds vd where "d = DOperation op" "doc_variable_definitions doc (opd_variable_definitions op) = Some vds" "vd \<in> set vds"
        "n = innermost (vd_type vd)"
      | (fragment) f where "d = DFragment f" "n = nm_value (nt_name (frd_type_condition f))"
      by (cases d) (auto simp: refers_to_def condition_inside_def unwrap_innermost)
    then show ?R
      by cases (use d(1,3) in blast)+
  next
    assume ?R
    then show ?L
    proof (elim disjE exE conjE)
      fix op vds vd
      assume "DOperation op \<in> set defs" "doc_variable_definitions doc (opd_variable_definitions op) = Some vds" "vd \<in> set vds"
        "kind_of schema (innermost (vd_type vd)) = None"
      then show ?L by (intro bexI [of _ "DOperation op"]) (auto simp: refers_to_def index_build_types unwrap_innermost)
    next
      fix f
      assume "DFragment f \<in> set defs" "kind_of schema (nm_value (nt_name (frd_type_condition f))) = None"
      then show ?L by (intro bexI [of _ "DFragment f"]) (auto simp: refers_to_def index_build_types)
    next
      fix d inl tc
      assume "d \<in> set defs" "inside doc (definition_selections d) (SInlineFragment inl)" "ifr_type_condition inl = Some tc"
        "kind_of schema (nm_value (nt_name tc)) = None"
      then show ?L by (intro bexI [of _ d]) (auto simp: refers_to_def condition_inside_def index_build_types)
    qed
  qed
  have "definition_breaks doc ?ix (DOperation op) r \<longleftrightarrow> bad_directives doc schema (opd_directives op) r \<or>
      (\<exists>p. root_type schema (opd_kind op) = Some p \<and> bad_set doc schema p (ss_selections (opd_selection_set op)) r)" for op
    by (simp add: definition_breaks_def directives_bad index_build_root set_bad)
  moreover have "definition_breaks doc ?ix (DFragment f) r \<longleftrightarrow> bad_directives doc schema (frd_directives f) r \<or>
      kind_of schema (nm_value (nt_name (frd_type_condition f))) \<noteq> None \<and>
        bad_set doc schema (nm_value (nt_name (frd_type_condition f))) (ss_selections (frd_selection_set f)) r" for f
    by (simp add: definition_breaks_def directives_bad index_build_types set_bad Let_def)
  moreover have "(\<exists>d \<in> set defs. definition_breaks doc ?ix d r) \<longleftrightarrow>
      (\<exists>op. DOperation op \<in> set defs \<and> definition_breaks doc ?ix (DOperation op) r) \<or>
      (\<exists>f. DFragment f \<in> set defs \<and> definition_breaks doc ?ix (DFragment f) r)"
    by (metis gdefinition.exhaust)
  ultimately show ?thesis
    unfolding schema_breaks_def schema_violated_def named schema_rule_names by presburger
qed

text \<open>C20: validation against a schema is exact for what it checks. For a parsed document it ends without a
  panic and reports a rule if and only if an operation rule is broken or a rule of the schema is, as
  read off its definitions: a variable, fragment or inline fragment names a type the schema does not
  have; or a checked selection or a known directive has an undeclared field or argument, a value the
  declared type does not accept, or a selection set where none may be or none where one must be.
  Not checked is what stands below a field or in a fragment of unknown type, in the selection set of a
  leaf, inside list and object values, and every field of an operation whose root type the schema does
  not have.\<close>

theorem schema_rules_exact:
  assumes "2 * length src < 2 ^ 32" and "parse_executable_document src = Some (Inr doc)"
  shows "\<exists>defs errs. doc_definitions doc = Some defs \<and> validate doc schema = Some errs \<and>
    (\<forall>r. reports errs r \<longleftrightarrow> breaks doc defs r \<or> schema_violated doc schema defs r)"
proof -
  note wf = parsed_wf_doc [OF assms]
  obtain defs e0 where d: "doc_definitions doc = Some defs" "validate_operations doc = Some e0" "\<And>r. reports e0 r \<longleftrightarrow> breaks doc defs r"
    using parsed_reports [OF assms] by blast
  then have "\<forall>d \<in> set defs. definition_ok (doc_nodes doc) d" using read_definitions [OF wf] by auto
  from adds_run_all [OF wf d(1) this, of "index_build schema"] obtain errs where
    "run_all doc (index_build schema) e0 = Some errs"
    "\<And>r. reports errs r \<longleftrightarrow> reports e0 r \<or> schema_breaks doc (index_build schema) defs r" unfolding adds_by_def by blast
  with d show ?thesis by (auto simp: validate_def schema_breaks_violated)
qed

definition typed_source :: string where
  "typed_source = ''query ($v: Nope) { a(x: null, y: 1) b { z } q @skip(if: $v) }''"

definition typed_schema :: string where
  "typed_schema = ''type Query { a(x: Int!): T b: Int } type T { c: Int }''"

definition schema_rules :: "string list" where
  "schema_rules = [RULE_KNOWN_TYPE_NAMES, RULE_FIELDS_ON_CORRECT_TYPE, RULE_SCALAR_LEAFS, RULE_KNOWN_ARGUMENT_NAMES,
     RULE_ARGUMENTS_OF_CORRECT_TYPE]"

lemma typed_reports:
  "\<exists>doc schema errs. parse_executable_document typed_source = Some (Inr doc) \<and> parse_schema typed_schema = Some (Inr schema) \<and>
     validate doc schema = Some errs \<and> list_all (reports errs) schema_rules"
proof -
  have "case parse_executable_document typed_source of
      Some (Inr doc) \<Rightarrow> (case parse_schema typed_schema of
        Some (Inr schema) \<Rightarrow> (case validate doc schema of None \<Rightarrow> False | Some errs \<Rightarrow> list_all (reports errs) schema_rules)
      | _ \<Rightarrow> False)
    | _ \<Rightarrow> False" by code_simp
  then show ?thesis by (auto simp: case_parsed split: option.splits)
qed

theorem schema_rules_exact_witness:
  "\<exists>doc schema defs. parse_executable_document typed_source = Some (Inr doc) \<and> parse_schema typed_schema = Some (Inr schema) \<and>
     doc_definitions doc = Some defs \<and> list_all (schema_violated doc schema defs) schema_rules"
proof -
  obtain doc schema errs where p: "parse_executable_document typed_source = Some (Inr doc)" "parse_schema typed_schema = Some (Inr schema)"
    "validate doc schema = Some errs" "list_all (reports errs) schema_rules" using typed_reports by blast
  have "2 * length typed_source < 2 ^ 32" by (simp add: typed_source_def)
  from schema_rules_exact [OF this p(1), of schema] obtain defs where d: "doc_definitions doc = Some defs"
    "\<forall>r. reports errs r \<longleftrightarrow> breaks doc defs r \<or> schema_violated doc schema defs r" using p(3) by auto
  have "\<not> breaks doc defs r" if "r \<in> set schema_rules" for r
    using that by (auto simp: schema_rules_def schema_rule_names breaks_simps)
  with d(2) p(4) have "list_all (schema_violated doc schema defs) schema_rules" by (auto simp: list_all_iff)
  with p d(1) show ?thesis by blast
qed

text \<open>An operation whose root type the schema does not have is accepted, whatever it selects.\<close>

theorem missing_root_accepted:
  "case (parse_executable_document ''mutation { drop(everything: 1) { now } }'', parse_schema ''type Query { a: Int }'') of
     (Some (Inr doc), Some (Inr schema)) \<Rightarrow> validate doc schema = Some []
   | _ \<Rightarrow> False"
  by code_simp

end
