(* ===== verification/Gql_Pretty.thy ===== *)
theory Gql_Pretty
  imports Gql_Lex "HOL-Library.Monad_Syntax"
begin

text \<open>
  The diagnostics of \<^verbatim>\<open>magna-gqlmin/src/pretty.rs\<close>: \<^verbatim>\<open>ParseError::render\<close>, where a slice of the source
  that is not on a character boundary panics, the result \<open>None\<close>.
\<close>

definition newline :: char where
  "newline = CHR 0x0A"

text \<open>\<^verbatim>\<open>str::find\<close> and \<^verbatim>\<open>str::rfind\<close> of a newline.\<close>

fun find_newline :: "string \<Rightarrow> nat option" where
  "find_newline [] = None"
| "find_newline (c # cs) = (if c = newline then Some 0 else map_option Suc (find_newline cs))"

fun rfind_newline :: "string \<Rightarrow> nat option" where
  "rfind_newline [] = None"
| "rfind_newline (c # cs) =
     (case rfind_newline cs of Some i \<Rightarrow> Some (Suc i) | None \<Rightarrow> if c = newline then Some 0 else None)"

fun push_repeat :: "string \<Rightarrow> char \<Rightarrow> nat \<Rightarrow> string" where
  "push_repeat s c 0 = s"
| "push_repeat s c (Suc n) = push_repeat (s @ [c]) c n"

definition render_error :: "parse_error \<Rightarrow> string \<Rightarrow> string option" where
  "render_error e src =
     (let len = length src;
          start = min (unat (sp_start (pe_span e))) len;
          finish = max (min (unat (sp_end (pe_span e))) len) start
      in do {
        prefix \<leftarrow> str_get src 0 start;
        let line_start = (case rfind_newline prefix of Some i \<Rightarrow> i + 1 | None \<Rightarrow> 0);
        rest \<leftarrow> str_get src line_start len;
        let line_end = (case find_newline rest of Some i \<Rightarrow> line_start + i | None \<Rightarrow> len);
        line_text \<leftarrow> str_get src line_start line_end;
        before \<leftarrow> str_get src 0 line_start;
        let line_no = length (filter (\<lambda>c. c = newline) before) + 1;
        let column = start - line_start + 1;
        let caret_len = max (finish - start) 1;
        let gutter_width = length (show_nat line_no);
        let out = ''error: '' @ kind_message (pe_kind e) @ [newline];
        let out = push_repeat out (CHR '' '') gutter_width @ ''  --> '' @ show_nat line_no @ '':'' @ show_nat column @ [newline];
        let out = push_repeat out (CHR '' '') gutter_width @ ''  |'' @ [newline];
        let out = out @ show_nat line_no @ ''  | '' @ line_text @ [newline];
        let out = push_repeat out (CHR '' '') gutter_width @ ''  | '';
        let out = push_repeat (push_repeat out (CHR '' '') (column - 1)) (CHR ''^'') caret_len @ [newline];
        Some out
      })"

section \<open>Lines\<close>

lemma push_repeat_replicate [simp]: "push_repeat s c n = s @ replicate n c"
  by (induction n arbitrary: s) (simp_all add: replicate_append_same)

definition line_offset :: "string \<Rightarrow> nat" where
  "line_offset cs = (case rfind_newline cs of Some i \<Rightarrow> i + 1 | None \<Rightarrow> 0)"

lemma rfind_newline_None: "rfind_newline cs = None \<longleftrightarrow> newline \<notin> set cs"
  by (induction cs) (auto split: option.splits)

lemma line_offset_split:
  "line_offset cs \<le> length cs \<and> newline \<notin> set (drop (line_offset cs) cs) \<and>
   (line_offset cs = 0 \<or> cs ! (line_offset cs - 1) = newline)"
proof (induction cs)
  case (Cons c cs)
  show ?case
  proof (cases "rfind_newline cs")
    case None
    then show ?thesis using rfind_newline_None [of cs] by (auto simp: line_offset_def)
  next
    case (Some i)
    then show ?thesis using Cons by (simp add: line_offset_def)
  qed
qed (simp add: line_offset_def)

definition line_length :: "string \<Rightarrow> nat" where
  "line_length cs = (case find_newline cs of Some i \<Rightarrow> i | None \<Rightarrow> length cs)"

lemma line_length_split:
  "line_length cs \<le> length cs \<and> newline \<notin> set (take (line_length cs) cs) \<and>
   (line_length cs = length cs \<or> cs ! line_length cs = newline)"
  by (induction cs) (auto simp: line_length_def split: option.splits)

text \<open>The diagnostic for an error at a column of a line.\<close>

definition diagnostic :: "string \<Rightarrow> nat \<Rightarrow> nat \<Rightarrow> string \<Rightarrow> nat \<Rightarrow> string" where
  "diagnostic msg line_no column line_text carets =
     (let pad = replicate (length (show_nat line_no)) (CHR '' '') in
      ''error: '' @ msg @ [newline] @
      pad @ ''  --> '' @ show_nat line_no @ '':'' @ show_nat column @ [newline] @
      pad @ ''  |'' @ [newline] @
      show_nat line_no @ ''  | '' @ line_text @ [newline] @
      pad @ ''  | '' @ replicate (column - 1) (CHR '' '') @ replicate carets (CHR ''^'') @ [newline])"

lemma newline_ascii: "is_ascii newline"
  by (simp add: newline_def is_ascii_def)

lemma boundary_ends: "is_char_boundary bs 0" "is_char_boundary bs (length bs)"
  by (simp_all add: is_char_boundary_def nth_opt_def)

text \<open>Rendering an error whose start lies on a character boundary of a UTF-8 source does not panic, and
  shows the line that holds the start: the source splits into the lines before, that line, which
  has no newline, and the rest; the line number counts the lines before, the column is the byte
  offset in the line, and the carets, at least one, cover the clamped span.\<close>

theorem render_error_layout:
  assumes utf8: "utf8_ok src" and start: "start = min (unat (sp_start (pe_span e))) (length src)"
    and boundary: "is_char_boundary src start"
  shows "\<exists>before line after. src = before @ line @ after \<and> newline \<notin> set line \<and>
    (before = [] \<or> last before = newline) \<and> (after = [] \<or> hd after = newline) \<and>
    length before \<le> start \<and> start \<le> length before + length line \<and>
    render_error e src = Some (diagnostic (kind_message (pe_kind e)) (length (filter (\<lambda>c. c = newline) before) + 1)
      (start - length before + 1) line (max (min (unat (sp_end (pe_span e))) (length src) - start) 1))"
proof -
  let ?len = "length src"
  define ls where "ls = line_offset (take start src)"
  define rest where "rest = drop ls src"
  define le where "le = ls + line_length rest"
  have st: "start \<le> ?len" using start by simp
  note lo = line_offset_split [of "take start src", folded ls_def] and ll = line_length_split [of rest]
  have ls: "ls \<le> start" "ls = 0 \<or> src ! (ls - 1) = newline" using lo st by (simp, cases "ls = 0") auto
  have b_ls: "is_char_boundary src ls"
    using ls st boundary_after_ascii [OF utf8, of ls] newline_ascii boundary_ends by (cases "ls = 0") auto
  have le: "le \<le> ?len" using ll ls(1) st unfolding le_def rest_def by (simp only: length_drop) linarith
  have b_le: "is_char_boundary src le"
  proof (cases "le = ?len")
    case False
    then have "src ! le = newline" using ll ls(1) st by (auto simp: le_def rest_def)
    then show ?thesis using False le boundary_ascii [of le src] newline_ascii by simp
  qed (simp add: boundary_ends)
  define line where "line = take (line_length rest) rest"
  have slices: "str_get src 0 start = Some (take start src)" "str_get src ls ?len = Some rest"
    "str_get src ls le = Some line" "str_get src 0 ls = Some (take ls src)"
    using boundary b_ls b_le boundary_ends ls(1) st le
    by (simp_all add: str_get_def rest_def le_def line_def)
  have ends: "(case rfind_newline (take start src) of Some i \<Rightarrow> i + 1 | None \<Rightarrow> 0) = ls"
    "(case find_newline rest of Some i \<Rightarrow> ls + i | None \<Rightarrow> ?len) = le"
    using ls(1) st by (auto simp: ls_def line_offset_def le_def line_length_def rest_def split: option.split)
  have "render_error e src = Some (diagnostic (kind_message (pe_kind e)) (length (filter (\<lambda>c. c = newline) (take ls src)) + 1)
      (start - ls + 1) line (max (min (unat (sp_end (pe_span e))) ?len - start) 1))"
    unfolding render_error_def start [symmetric] Let_def slices ends bind.simps
    by (simp add: ends slices diagnostic_def Let_def max_def)
  moreover have "start \<le> ls + length line"
  proof (rule ccontr)
    assume "\<not> start \<le> ls + length line"
    then have lt: "ls + line_length rest < start" using ll by (simp add: line_def min_def split: if_splits)
    then have "src ! (ls + line_length rest) = newline" using ll ls(1) st by (auto simp: rest_def)
    then have "drop ls (take start src) ! line_length rest = newline" using lt ls(1) st by simp
    then have "newline \<in> set (drop ls (take start src))" using lt st by (metis add.commute length_drop length_take less_diff_conv min.absorb2 nth_mem)
    then show False using lo by simp
  qed
  moreover have "src = take ls src @ line @ drop (line_length rest) rest"
    unfolding line_def append_take_drop_id rest_def ..
  moreover have "take ls src = [] \<or> last (take ls src) = newline"
  proof (cases "ls = 0")
    case False
    then have "take ls src \<noteq> []" using ls(1) st by auto
    then show ?thesis using False ls st by (simp add: last_conv_nth)
  qed simp
  moreover have "drop (line_length rest) rest = [] \<or> hd (drop (line_length rest) rest) = newline"
    using ll hd_drop_conv_nth [of "line_length rest" rest] by (cases "line_length rest < length rest") auto
  moreover have "newline \<notin> set line" using ll by (simp add: line_def)
  moreover have "length (take ls src) = ls" using ls(1) st by simp
  ultimately show ?thesis using ls(1) by metis
qed

definition broken_source :: string where
  "broken_source = ''{ f('' @ [newline] @ ''  ? }''"

theorem render_error_layout_witness:
  "\<exists>before line after. broken_source = before @ line @ after \<and> newline \<notin> set line \<and>
     length before \<le> 7 \<and> 7 \<le> length before + length line \<and>
     render_error (parse_error_new (span_at 7 8) UnexpectedChar) broken_source =
       Some (diagnostic (kind_message UnexpectedChar) (length (filter (\<lambda>c. c = newline) before) + 1)
         (7 - length before + 1) line 1)"
proof -
  let ?e = "parse_error_new (span_at 7 8) UnexpectedChar"
  have utf8: "utf8_ok broken_source" by code_simp
  have start: "(7::nat) = min (unat (sp_start (pe_span ?e))) (length broken_source)" by code_simp
  have boundary: "is_char_boundary broken_source 7" by code_simp
  have "pe_kind ?e = UnexpectedChar" "max (min (unat (sp_end (pe_span ?e))) (length broken_source) - 7) 1 = (1::nat)" by code_simp+
  with render_error_layout [OF utf8 start boundary] show ?thesis by metis
qed

end
