(* ===== verification/Rust_Map.thy ===== *)
theory Rust_Map
  imports Prelude
begin

text \<open>
  Maps of the Rust code as association lists with distinct keys: \<^verbatim>\<open>IndexMap\<close>, whose order is the
  order of insertion, and \<^verbatim>\<open>HashMap\<close>, whose order the model never reads except through a
  parameter. Inserting a present key replaces its value in place.
\<close>

fun assoc_insert :: "'k \<Rightarrow> 'v \<Rightarrow> ('k \<times> 'v) list \<Rightarrow> ('k \<times> 'v) list" where
  "assoc_insert k v [] = [(k, v)]"
| "assoc_insert k v ((k', v') # m) = (if k = k' then (k, v) # m else (k', v') # assoc_insert k v m)"

text \<open>\<^verbatim>\<open>iter.collect::<HashMap<_, _>>()\<close>: one insertion per pair.\<close>

fun assoc_extend :: "('k \<times> 'v) list \<Rightarrow> ('k \<times> 'v) list \<Rightarrow> ('k \<times> 'v) list" where
  "assoc_extend m [] = m"
| "assoc_extend m ((k, v) # kvs) = assoc_extend (assoc_insert k v m) kvs"

definition assoc_collect :: "('k \<times> 'v) list \<Rightarrow> ('k \<times> 'v) list" where
  "assoc_collect kvs = assoc_extend [] kvs"

text \<open>\<^verbatim>\<open>m.entry(k).or_default().push(x)\<close>.\<close>

definition assoc_push :: "'k \<Rightarrow> 'x \<Rightarrow> ('k \<times> 'x list) list \<Rightarrow> ('k \<times> 'x list) list" where
  "assoc_push k x m = assoc_insert k ((case map_of m k of None \<Rightarrow> [] | Some xs \<Rightarrow> xs) @ [x]) m"

fun assoc_group :: "('x \<Rightarrow> 'k) \<Rightarrow> 'x list \<Rightarrow> ('k \<times> 'x list) list \<Rightarrow> ('k \<times> 'x list) list" where
  "assoc_group key [] m = m"
| "assoc_group key (x # xs) m = assoc_group key xs (assoc_push (key x) x m)"

section \<open>Lookups\<close>

lemma map_of_assoc_insert [simp]: "map_of (assoc_insert k v m) = (map_of m)(k \<mapsto> v)"
  by (induction m) auto

lemma keys_assoc_insert:
  "map fst (assoc_insert k v m) = (if k \<in> set (map fst m) then map fst m else map fst m @ [k])"
  by (induction m) (auto simp del: set_map simp: list.set)

lemma distinct_assoc_insert: "distinct (map fst m) \<Longrightarrow> distinct (map fst (assoc_insert k v m))"
  by (simp add: keys_assoc_insert)

lemma map_of_assoc_extend: "map_of (assoc_extend m kvs) = map_of m ++ map_of (rev kvs)"
  by (induction m kvs rule: assoc_extend.induct) (auto simp: map_add_def fun_eq_iff split: option.splits)

lemma map_of_filter_fst: "map_of (filter (\<lambda>e. fst e \<noteq> k) m) = (map_of m)(k := None)"
  by (induction m) (auto simp: fun_eq_iff)

lemma map_of_assoc_collect: "map_of (assoc_collect kvs) = map_of (rev kvs)"
  by (simp add: assoc_collect_def map_of_assoc_extend)

lemma distinct_assoc_extend: "distinct (map fst m) \<Longrightarrow> distinct (map fst (assoc_extend m kvs))"
  by (induction m kvs rule: assoc_extend.induct) (auto simp: distinct_assoc_insert)

text \<open>When the keys are distinct, the order of insertion does not matter.\<close>

lemma map_of_rev: "distinct (map fst kvs) \<Longrightarrow> map_of (rev kvs) = map_of kvs"
  using map_of_inject_set [of "rev kvs" kvs] by (simp add: rev_map [symmetric])

lemma map_of_assoc_group:
  "map_of (assoc_group key xs m) k =
     (if map_of m k = None \<and> filter (\<lambda>x. key x = k) xs = [] then None
      else Some ((case map_of m k of None \<Rightarrow> [] | Some ys \<Rightarrow> ys) @ filter (\<lambda>x. key x = k) xs))"
proof (induction xs arbitrary: m)
  case (Cons x xs)
  show ?case
    by (simp only: assoc_group.simps Cons.IH) (cases "key x = k"; simp add: assoc_push_def split: option.splits)
qed (simp split: option.splits)

text \<open>Looking a group up with the empty list as the default.\<close>

lemma assoc_group_default:
  "(case map_of (assoc_group key xs []) k of None \<Rightarrow> [] | Some ys \<Rightarrow> ys) = filter (\<lambda>x. key x = k) xs"
  by (simp add: map_of_assoc_group)

section \<open>First occurrences\<close>

fun firsts :: "'a list \<Rightarrow> 'a list \<Rightarrow> 'a list" where
  "firsts seen [] = []"
| "firsts seen (x # xs) = (if x \<in> set seen then firsts seen xs else x # firsts (x # seen) xs)"

lemma firsts_cong: "set seen = set seen' \<Longrightarrow> firsts seen xs = firsts seen' xs"
proof (induction xs arbitrary: seen seen')
  case (Cons x xs)
  have "firsts (x # seen) xs = firsts (x # seen') xs" "firsts seen xs = firsts seen' xs"
    by (rule Cons.IH; use Cons.prems in simp)+
  with Cons.prems show ?case by simp
qed simp

lemma set_firsts: "set (firsts seen xs) = set xs - set seen"
  by (induction seen xs rule: firsts.induct) auto

lemma distinct_firsts: "distinct (firsts seen xs)"
  by (induction seen xs rule: firsts.induct) (auto simp: set_firsts)

text \<open>The keys of a collected map, in order of first appearance.\<close>

lemma keys_assoc_extend: "map fst (assoc_extend m kvs) = map fst m @ firsts (map fst m) (map fst kvs)"
proof (induction kvs arbitrary: m)
  case (Cons kv kvs)
  obtain k v where kv: "kv = (k, v)" by (cases kv)
  have "firsts (map fst (assoc_insert k v m)) (map fst kvs) =
      firsts (if k \<in> set (map fst m) then map fst m else k # map fst m) (map fst kvs)"
    by (rule firsts_cong) (auto simp: keys_assoc_insert)
  with Cons.IH [of "assoc_insert k v m"] kv show ?case by (auto simp: keys_assoc_insert)
qed simp

end
