(* ===== verification/Dp_Codec.thy ===== *)
theory Dp_Codec
  imports Magna_Types Rust_Map
begin

text \<open>
  \<^verbatim>\<open>magna-dataplan/src/codec.rs\<close>: the table of built-in codecs, the conversion of a driver row
  into a \<^verbatim>\<open>PgRow\<close>, and the binding of parameter values to a query.

  Parsing and printing of floats, timestamps, UUIDs and JSON belong to the crates \<^verbatim>\<open>chrono\<close>,
  \<^verbatim>\<open>uuid\<close> and \<^verbatim>\<open>serde_json\<close> (and, for floats, to a shortest-decimal printer): they are the fields
  of \<open>codec_ext\<close>. The driver \<^verbatim>\<open>sqlx\<close> is the record \<open>sqlx_row\<close> of its typed accessors and a
  function from a query text and its bound arguments to rows or an error message. Integer
  parsing and printing are written out.
\<close>

unbundle bit_operations_syntax

section \<open>Rows\<close>

text \<open>\<^verbatim>\<open>PgRow = IndexMap<String, PgValue>\<close>.\<close>

type_synonym ('t, 'j) pg_row = "(string \<times> ('t, 'j) pg_value) list"

abbreviation row_get :: "(string \<times> 'v) list \<Rightarrow> string \<Rightarrow> 'v option" where
  "row_get r k \<equiv> map_of r k"

section \<open>The codec table\<close>

record ('t, 'j) codec_ext =
  f64_parse :: "string \<Rightarrow> 64 word option"
  f64_show :: "64 word \<Rightarrow> string"
  dt_parse :: "string \<Rightarrow> 't option"
  dt_show :: "'t \<Rightarrow> string"
  uuid_parse :: "string \<Rightarrow> 128 word option"
  uuid_show :: "128 word \<Rightarrow> string"
  json_parse :: "string \<Rightarrow> 'j option"
  json_show :: "'j \<Rightarrow> string"

record ('t, 'j) pg_codec =
  pc_oid :: "32 word"
  pc_name :: string
  pc_gql_scalar :: string
  pc_decode :: "string \<Rightarrow> ('t, 'j) pg_value"
  pc_encode :: "('t, 'j) pg_value \<Rightarrow> string option"

text \<open>\<^verbatim>\<open>str::parse::<i64>\<close>: an optional sign, at least one digit and nothing else, in range.\<close>

definition parse_i64 :: "string \<Rightarrow> 64 word option" where
  "parse_i64 s =
     (let neg = (case s of c # _ \<Rightarrow> c = CHR ''-'' | [] \<Rightarrow> False);
          ds = (case s of c # cs \<Rightarrow> if c = CHR ''-'' \<or> c = CHR ''+'' then cs else s | [] \<Rightarrow> [])
      in if ds = [] \<or> \<not> list_all is_digit ds then None
         else let n = (if neg then - int (read_nat ds) else int (read_nat ds))
              in if - (2 ^ 63) \<le> n \<and> n < 2 ^ 63 then Some (word_of_int n) else None)"

definition show_i64 :: "64 word \<Rightarrow> string" where
  "show_i64 n = show_int (sint n)"

definition unwrap_or :: "'a option \<Rightarrow> 'a \<Rightarrow> 'a" where
  "unwrap_or x d = (case x of None \<Rightarrow> d | Some v \<Rightarrow> v)"

definition decode_bool :: "string \<Rightarrow> ('t, 'j) pg_value" where
  "decode_bool s = PgBool (s = ''t'' \<or> s = ''true'' \<or> s = ''1'')"

fun encode_bool :: "('t, 'j) pg_value \<Rightarrow> string option" where
  "encode_bool (PgBool b) = Some (if b then ''t'' else ''f'')"
| "encode_bool _ = None"

definition decode_int :: "string \<Rightarrow> ('t, 'j) pg_value" where
  "decode_int s = PgInt (unwrap_or (parse_i64 s) 0)"

fun encode_int :: "('t, 'j) pg_value \<Rightarrow> string option" where
  "encode_int (PgInt n) = Some (show_i64 n)"
| "encode_int _ = None"

definition decode_float :: "('t, 'j) codec_ext \<Rightarrow> string \<Rightarrow> ('t, 'j) pg_value" where
  "decode_float X s = PgFloat (unwrap_or (f64_parse X s) 0)"

fun encode_float :: "('t, 'j) codec_ext \<Rightarrow> ('t, 'j) pg_value \<Rightarrow> string option" where
  "encode_float X (PgFloat f) = Some (f64_show X f)"
| "encode_float X _ = None"

definition decode_text :: "string \<Rightarrow> ('t, 'j) pg_value" where
  "decode_text s = PgText s"

fun encode_text :: "('t, 'j) pg_value \<Rightarrow> string option" where
  "encode_text (PgText s) = Some s"
| "encode_text _ = None"

definition decode_timestamp :: "('t, 'j) codec_ext \<Rightarrow> string \<Rightarrow> ('t, 'j) pg_value" where
  "decode_timestamp X s = (case dt_parse X s of Some dt \<Rightarrow> PgTimestamp dt | None \<Rightarrow> PgText s)"

fun encode_timestamp :: "('t, 'j) codec_ext \<Rightarrow> ('t, 'j) pg_value \<Rightarrow> string option" where
  "encode_timestamp X (PgTimestamp dt) = Some (dt_show X dt)"
| "encode_timestamp X _ = None"

definition decode_uuid :: "('t, 'j) codec_ext \<Rightarrow> string \<Rightarrow> ('t, 'j) pg_value" where
  "decode_uuid X s = (case uuid_parse X s of Some u \<Rightarrow> PgUuid u | None \<Rightarrow> PgText s)"

fun encode_uuid :: "('t, 'j) codec_ext \<Rightarrow> ('t, 'j) pg_value \<Rightarrow> string option" where
  "encode_uuid X (PgUuid u) = Some (uuid_show X u)"
| "encode_uuid X _ = None"

definition decode_json :: "('t, 'j) codec_ext \<Rightarrow> string \<Rightarrow> ('t, 'j) pg_value" where
  "decode_json X s = (case json_parse X s of Some v \<Rightarrow> PgJson v | None \<Rightarrow> PgText s)"

fun encode_json :: "('t, 'j) codec_ext \<Rightarrow> ('t, 'j) pg_value \<Rightarrow> string option" where
  "encode_json X (PgJson j) = Some (json_show X j)"
| "encode_json X _ = None"

definition default_codecs :: "('t, 'j) codec_ext \<Rightarrow> ('t, 'j) pg_codec list" where
  "default_codecs X =
    [\<lparr>pc_oid = 16, pc_name = ''bool'', pc_gql_scalar = ''Boolean'', pc_decode = decode_bool, pc_encode = encode_bool\<rparr>,
     \<lparr>pc_oid = 21, pc_name = ''int2'', pc_gql_scalar = ''Int'', pc_decode = decode_int, pc_encode = encode_int\<rparr>,
     \<lparr>pc_oid = 23, pc_name = ''int4'', pc_gql_scalar = ''Int'', pc_decode = decode_int, pc_encode = encode_int\<rparr>,
     \<lparr>pc_oid = 20, pc_name = ''int8'', pc_gql_scalar = ''BigInt'', pc_decode = decode_int, pc_encode = encode_int\<rparr>,
     \<lparr>pc_oid = 700, pc_name = ''float4'', pc_gql_scalar = ''Float'', pc_decode = decode_float X, pc_encode = encode_float X\<rparr>,
     \<lparr>pc_oid = 701, pc_name = ''float8'', pc_gql_scalar = ''Float'', pc_decode = decode_float X, pc_encode = encode_float X\<rparr>,
     \<lparr>pc_oid = 25, pc_name = ''text'', pc_gql_scalar = ''String'', pc_decode = decode_text, pc_encode = encode_text\<rparr>,
     \<lparr>pc_oid = 1043, pc_name = ''varchar'', pc_gql_scalar = ''String'', pc_decode = decode_text, pc_encode = encode_text\<rparr>,
     \<lparr>pc_oid = 1114, pc_name = ''timestamp'', pc_gql_scalar = ''Datetime'', pc_decode = decode_timestamp X, pc_encode = encode_timestamp X\<rparr>,
     \<lparr>pc_oid = 1184, pc_name = ''timestamptz'', pc_gql_scalar = ''Datetime'', pc_decode = decode_timestamp X, pc_encode = encode_timestamp X\<rparr>,
     \<lparr>pc_oid = 2950, pc_name = ''uuid'', pc_gql_scalar = ''UUID'', pc_decode = decode_uuid X, pc_encode = encode_uuid X\<rparr>,
     \<lparr>pc_oid = 114, pc_name = ''json'', pc_gql_scalar = ''JSON'', pc_decode = decode_json X, pc_encode = encode_json X\<rparr>,
     \<lparr>pc_oid = 3802, pc_name = ''jsonb'', pc_gql_scalar = ''JSON'', pc_decode = decode_json X, pc_encode = encode_json X\<rparr>]"

section \<open>Decoding a driver row\<close>

text \<open>\<^verbatim>\<open>row.try_get::<Option<T>, _>(ordinal)\<close>.\<close>

datatype 'a fetched = Got 'a | GotNull | GetErr

record column_info =
  col_name :: string
  col_type :: string
  col_ordinal :: nat

record ('t, 'n, 'j) sqlx_row =
  sr_columns :: "column_info list"
  get_bool :: "nat \<Rightarrow> bool fetched"
  get_i16 :: "nat \<Rightarrow> 16 word fetched"
  get_i32 :: "nat \<Rightarrow> 32 word fetched"
  get_i64 :: "nat \<Rightarrow> 64 word fetched"
  get_f32 :: "nat \<Rightarrow> 32 word fetched"
  get_f64 :: "nat \<Rightarrow> 64 word fetched"
  get_uuid :: "nat \<Rightarrow> 128 word fetched"
  get_datetime :: "nat \<Rightarrow> 't fetched"
  get_naive :: "nat \<Rightarrow> 'n fetched"
  get_json :: "nat \<Rightarrow> 'j fetched"
  get_bools :: "nat \<Rightarrow> bool list fetched"
  get_i32s :: "nat \<Rightarrow> 32 word list fetched"
  get_i64s :: "nat \<Rightarrow> 64 word list fetched"
  get_texts :: "nat \<Rightarrow> string list fetched"
  get_uuids :: "nat \<Rightarrow> 128 word list fetched"
  get_text :: "nat \<Rightarrow> string fetched"

text \<open>The match each arm repeats: a value is wrapped, NULL and a failed conversion are NULL.\<close>

definition fetched_or_null :: "('a \<Rightarrow> ('t, 'j) pg_value) \<Rightarrow> 'a fetched \<Rightarrow> ('t, 'j) pg_value" where
  "fetched_or_null wrap x = (case x of Got v \<Rightarrow> wrap v | GotNull \<Rightarrow> PgNull | GetErr \<Rightarrow> PgNull)"

text \<open>\<^verbatim>\<open>f32 as f64\<close> on the IEEE bits: the exponent is rebiased, a subnormal normalised, a NaN
  quieted.\<close>

fun top_bit :: "nat \<Rightarrow> nat" where
  "top_bit n = (if n \<le> 1 then 0 else Suc (top_bit (n div 2)))"

declare top_bit.simps [simp del]

definition f32_to_f64 :: "32 word \<Rightarrow> 64 word" where
  "f32_to_f64 w =
     (let sign = push_bit 63 (ucast (drop_bit 31 w) :: 64 word);
          e = take_bit 8 (drop_bit 23 w);
          m = take_bit 23 w
      in if e = 255 then sign OR push_bit 52 0x7FF OR push_bit 29 (ucast m) OR (if m = 0 then 0 else push_bit 51 1)
         else if e = 0 then
           (if m = 0 then sign
            else let k = top_bit (unat m)
                 in sign OR push_bit 52 (of_nat (k + 874)) OR push_bit (52 - k) (ucast (m - push_bit k 1)))
         else sign OR push_bit 52 (ucast e + 896) OR push_bit 29 (ucast m))"

definition decode_column :: "('n \<Rightarrow> 't) \<Rightarrow> ('t, 'n, 'j) sqlx_row \<Rightarrow> nat \<Rightarrow> string \<Rightarrow> ('t, 'j) pg_value" where
  "decode_column and_utc row ordinal type_name =
     (if type_name = ''BOOL'' then fetched_or_null PgBool (get_bool row ordinal)
      else if type_name = ''INT2'' then fetched_or_null (\<lambda>v. PgInt (scast v)) (get_i16 row ordinal)
      else if type_name = ''INT4'' then fetched_or_null (\<lambda>v. PgInt (scast v)) (get_i32 row ordinal)
      else if type_name = ''INT8'' then fetched_or_null PgInt (get_i64 row ordinal)
      else if type_name = ''FLOAT4'' then fetched_or_null (\<lambda>v. PgFloat (f32_to_f64 v)) (get_f32 row ordinal)
      else if type_name = ''FLOAT8'' then fetched_or_null PgFloat (get_f64 row ordinal)
      else if type_name = ''UUID'' then fetched_or_null PgUuid (get_uuid row ordinal)
      else if type_name = ''TIMESTAMPTZ'' then fetched_or_null PgTimestamp (get_datetime row ordinal)
      else if type_name = ''TIMESTAMP'' then fetched_or_null (\<lambda>v. PgTimestamp (and_utc v)) (get_naive row ordinal)
      else if type_name = ''JSON'' \<or> type_name = ''JSONB'' then fetched_or_null PgJson (get_json row ordinal)
      else if type_name = ''BOOL[]'' then fetched_or_null (\<lambda>v. PgArray (map PgBool v)) (get_bools row ordinal)
      else if type_name = ''INT4[]'' then
        fetched_or_null (\<lambda>v. PgArray (map (\<lambda>i. PgInt (scast i)) v)) (get_i32s row ordinal)
      else if type_name = ''INT8[]'' then fetched_or_null (\<lambda>v. PgArray (map PgInt v)) (get_i64s row ordinal)
      else if type_name = ''TEXT[]'' \<or> type_name = ''VARCHAR[]'' then
        fetched_or_null (\<lambda>v. PgArray (map PgText v)) (get_texts row ordinal)
      else if type_name = ''UUID[]'' then fetched_or_null (\<lambda>v. PgArray (map PgUuid v)) (get_uuids row ordinal)
      else fetched_or_null PgText (get_text row ordinal))"

fun decode_columns :: "('n \<Rightarrow> 't) \<Rightarrow> ('t, 'n, 'j) sqlx_row \<Rightarrow> column_info list \<Rightarrow> ('t, 'j) pg_row \<Rightarrow> ('t, 'j) pg_row" where
  "decode_columns and_utc row [] result = result"
| "decode_columns and_utc row (col # cols) result =
     decode_columns and_utc row cols
       (assoc_insert (col_name col) (decode_column and_utc row (col_ordinal col) (col_type col)) result)"

definition decode_row :: "('n \<Rightarrow> 't) \<Rightarrow> ('t, 'n, 'j) sqlx_row \<Rightarrow> ('t, 'j) pg_row" where
  "decode_row and_utc row = decode_columns and_utc row (sr_columns row) []"

section \<open>Binding parameters\<close>

datatype ('t, 'j) bind_arg =
    BNull | BBool bool | BI64 "64 word" | BF64 "64 word" | BText string | BUuid "128 word"
  | BTimestamp 't | BJson 'j | BTexts "string list" | BI64s "64 word list" | BUuids "128 word list"
  | BBools "bool list"

fun as_uuid :: "('t, 'j) pg_value \<Rightarrow> 128 word option" where
  "as_uuid (PgUuid u) = Some u"
| "as_uuid _ = None"

text \<open>The closure of the fallback arm; \<open>dbg\<close> is the derived \<^verbatim>\<open>Debug\<close> text of a value.\<close>

definition text_or_debug :: "(('t, 'j) pg_value \<Rightarrow> string) \<Rightarrow> ('t, 'j) pg_value \<Rightarrow> string" where
  "text_or_debug dbg v = (case v of PgText s \<Rightarrow> s | other \<Rightarrow> dbg other)"

fun bind_pg_value :: "(('t, 'j) pg_value \<Rightarrow> string) \<Rightarrow> ('t, 'j) pg_value \<Rightarrow> ('t, 'j) bind_arg" where
  "bind_pg_value dbg PgNull = BNull"
| "bind_pg_value dbg (PgBool b) = BBool b"
| "bind_pg_value dbg (PgInt n) = BI64 n"
| "bind_pg_value dbg (PgFloat f) = BF64 f"
| "bind_pg_value dbg (PgText s) = BText s"
| "bind_pg_value dbg (PgUuid u) = BUuid u"
| "bind_pg_value dbg (PgTimestamp t) = BTimestamp t"
| "bind_pg_value dbg (PgJson j) = BJson j"
| "bind_pg_value dbg (PgArray []) = BTexts []"
| "bind_pg_value dbg (PgArray (v # vs)) =
     (case v of
        PgInt _ \<Rightarrow> BI64s (List.map_filter as_i64 (v # vs))
      | PgText _ \<Rightarrow> BTexts (List.map_filter as_text (v # vs))
      | PgUuid _ \<Rightarrow> BUuids (List.map_filter as_uuid (v # vs))
      | PgBool _ \<Rightarrow> BBools (List.map_filter as_bool (v # vs))
      | _ \<Rightarrow> BTexts (map (text_or_debug dbg) (v # vs)))"

text \<open>The environment of \<^verbatim>\<open>execute_select\<close>: the pool and the conversions it depends on.\<close>

record ('t, 'n, 'j) database =
  db_fetch_all :: "string \<Rightarrow> ('t, 'j) bind_arg list \<Rightarrow> string + ('t, 'n, 'j) sqlx_row list"
  db_and_utc :: "'n \<Rightarrow> 't"
  db_debug :: "('t, 'j) pg_value \<Rightarrow> string"

definition execute_select :: "('t, 'n, 'j) database \<Rightarrow> string \<Rightarrow> ('t, 'j) pg_value list \<Rightarrow>
    string + ('t, 'j) pg_row list" where
  "execute_select db sql ps =
     rbind (db_fetch_all db sql (map (bind_pg_value (db_debug db)) ps))
       (\<lambda>rows. Inr (map (decode_row (db_and_utc db)) rows))"

section \<open>Integers\<close>

lemma digit_not_sign: "is_digit c \<Longrightarrow> c \<noteq> CHR ''-'' \<and> c \<noteq> CHR ''+''"
  by (auto simp: is_digit_def)

lemma show_nat_Cons: "\<exists>c cs. show_nat n = c # cs \<and> is_digit c"
  using show_nat_digits [of n] show_nat_nonempty [of n] by (cases "show_nat n") auto

text \<open>A sign-free numeral of digits reads as its value, a leading minus negates it.\<close>

lemma parse_i64_show_nat:
  "parse_i64 (show_nat n) = (if int n < 2 ^ 63 then Some (word_of_int (int n)) else None)"
  "parse_i64 (CHR ''-'' # show_nat n) = (if int n \<le> 2 ^ 63 then Some (word_of_int (- int n)) else None)"
proof -
  obtain c cs where c: "show_nat n = c # cs" "is_digit c" using show_nat_Cons by blast
  note facts = show_nat_digits [of n] show_nat_nonempty [of n] read_show_nat [of n]
  show "parse_i64 (show_nat n) = (if int n < 2 ^ 63 then Some (word_of_int (int n)) else None)"
    using facts c digit_not_sign [of c] by (simp add: parse_i64_def)
  show "parse_i64 (CHR ''-'' # show_nat n) = (if int n \<le> 2 ^ 63 then Some (word_of_int (- int n)) else None)"
    using facts by (simp add: parse_i64_def)
qed

lemma sint_i64_bounds: "- (2 ^ 63) \<le> sint (n :: 64 word)" "sint (n :: 64 word) < 2 ^ 63"
  using sint_greater_eq [of n] sint_less [of n] by simp_all

lemma parse_show_i64: "parse_i64 (show_i64 n) = Some n"
proof (cases "sint n < 0")
  case True
  then have "show_i64 n = CHR ''-'' # show_nat (nat (- sint n))" by (simp add: show_i64_def show_int_def)
  with True sint_i64_bounds [of n] show ?thesis by (simp add: parse_i64_show_nat)
next
  case False
  then have "show_i64 n = show_nat (nat (sint n))" by (simp add: show_i64_def show_int_def)
  with False sint_i64_bounds [of n] show ?thesis by (simp add: parse_i64_show_nat)
qed

section \<open>Rows and columns\<close>

definition column_value :: "('n \<Rightarrow> 't) \<Rightarrow> ('t, 'n, 'j) sqlx_row \<Rightarrow> column_info \<Rightarrow> ('t, 'j) pg_value" where
  "column_value and_utc row col = decode_column and_utc row (col_ordinal col) (col_type col)"

lemma decode_columns_collect:
  "decode_columns u row cols r = assoc_extend r (map (\<lambda>c. (col_name c, column_value u row c)) cols)"
  by (induction cols arbitrary: r) (simp_all add: column_value_def)

section \<open>Properties\<close>

text \<open>The round trips of the foreign printers that a value needs.\<close>

definition ext_roundtrips :: "('t, 'j) codec_ext \<Rightarrow> ('t, 'j) pg_value \<Rightarrow> bool" where
  "ext_roundtrips X v =
     (case v of
        PgFloat f \<Rightarrow> f64_parse X (f64_show X f) = Some f
      | PgTimestamp t \<Rightarrow> dt_parse X (dt_show X t) = Some t
      | PgUuid u \<Rightarrow> uuid_parse X (uuid_show X u) = Some u
      | PgJson j \<Rightarrow> json_parse X (json_show X j) = Some j
      | _ \<Rightarrow> True)"

lemma encode_decode:
  "encode_bool v = Some s \<Longrightarrow> decode_bool s = v"
  "encode_int v = Some s \<Longrightarrow> decode_int s = v"
  "encode_text v = Some s \<Longrightarrow> decode_text s = v"
  "ext_roundtrips X v \<Longrightarrow> encode_float X v = Some s \<Longrightarrow> decode_float X s = v"
  "ext_roundtrips X v \<Longrightarrow> encode_timestamp X v = Some s \<Longrightarrow> decode_timestamp X s = v"
  "ext_roundtrips X v \<Longrightarrow> encode_uuid X v = Some s \<Longrightarrow> decode_uuid X s = v"
  "ext_roundtrips X v \<Longrightarrow> encode_json X v = Some s \<Longrightarrow> decode_json X s = v"
  by (cases v; auto simp: decode_bool_def decode_int_def decode_text_def decode_float_def decode_timestamp_def
      decode_uuid_def decode_json_def ext_roundtrips_def parse_show_i64 unwrap_or_def split: if_splits)+

text \<open>C37: the codec table. No two built-in codecs claim the same OID, and for every one of them
  decoding the text it encodes a value to gives the value back: integers over the whole range
  of 64 bits, with their sign; floats, timestamps, UUIDs and JSON whenever their own printer
  and parser round trip on the value.\<close>

theorem codec_roundtrip:
  assumes "c \<in> set (default_codecs X)" and "pc_encode c v = Some s" and "ext_roundtrips X v"
  shows "pc_decode c s = v \<and> filter (\<lambda>d. pc_oid d = pc_oid c) (default_codecs X) = [c]"
proof
  from assms(1) show "filter (\<lambda>d. pc_oid d = pc_oid c) (default_codecs X) = [c]"
    unfolding default_codecs_def list.set insert_iff empty_iff by (elim disjE) simp_all
  show "pc_decode c s = v"
    using assms(1,2) encode_decode(1-3) [of v s] encode_decode(4-) [OF assms(3)]
    unfolding default_codecs_def list.set insert_iff empty_iff
    by (elim disjE) simp_all
qed

definition demo_ext :: "(nat, nat) codec_ext" where
  "demo_ext = \<lparr>f64_parse = map_option word_of_int \<circ> (\<lambda>s. map_option uint (parse_i64 s)), f64_show = show_i64,
     dt_parse = (\<lambda>s. Some (length s)), dt_show = (\<lambda>n. replicate n CHR ''x''),
     uuid_parse = map_option ucast \<circ> parse_i64, uuid_show = show_i64 \<circ> ucast,
     json_parse = (\<lambda>s. Some (length s)), json_show = (\<lambda>n. replicate n CHR ''y'')\<rparr>"

theorem codec_roundtrip_witness:
  "pc_encode (default_codecs demo_ext ! 3) (PgInt (- 42)) = Some ''-42'' \<and>
   pc_decode (default_codecs demo_ext ! 3) ''-42'' = PgInt (- 42)"
proof -
  let ?c = "default_codecs demo_ext ! 3"
  have e: "pc_encode ?c (PgInt (- 42)) = Some ''-42''"
    by code_simp
  moreover have "?c \<in> set (default_codecs demo_ext)" by (simp add: default_codecs_def)
  ultimately show ?thesis
    using codec_roundtrip [of ?c demo_ext "PgInt (- 42)" "''-42''"] by (simp add: ext_roundtrips_def)
qed

text \<open>Decoding a driver row keeps one entry per column name, in the order of first
  appearance, and the entry holds the converted value of the last column of that name.\<close>

theorem decode_row_columns:
  "map fst (decode_row u row) = firsts [] (map col_name (sr_columns row)) \<and>
   row_get (decode_row u row) = map_of (rev (map (\<lambda>c. (col_name c, column_value u row c)) (sr_columns row)))"
  by (simp add: decode_row_def decode_columns_collect keys_assoc_extend map_of_assoc_extend o_def)

text \<open>An array binds as it is when all its elements have the type of the first one.\<close>

lemma bind_homogeneous:
  "ns \<noteq> [] \<Longrightarrow> bind_pg_value dbg (PgArray (map PgInt ns)) = BI64s ns"
  "ss \<noteq> [] \<Longrightarrow> bind_pg_value dbg (PgArray (map PgText ss)) = BTexts ss"
  "us \<noteq> [] \<Longrightarrow> bind_pg_value dbg (PgArray (map PgUuid us)) = BUuids us"
  "bs \<noteq> [] \<Longrightarrow> bind_pg_value dbg (PgArray (map PgBool bs)) = BBools bs"
proof -
  have "List.map_filter as_i64 (map PgInt ns) = ns" for ns by (induction ns) (auto simp: map_filter_def)
  then show "ns \<noteq> [] \<Longrightarrow> bind_pg_value dbg (PgArray (map PgInt ns)) = BI64s ns"
    by (cases ns) (simp_all add: map_filter_def)
  have "List.map_filter as_text (map PgText ss) = ss" for ss by (induction ss) (auto simp: map_filter_def)
  then show "ss \<noteq> [] \<Longrightarrow> bind_pg_value dbg (PgArray (map PgText ss)) = BTexts ss"
    by (cases ss) (simp_all add: map_filter_def)
  have "List.map_filter as_uuid (map PgUuid us) = us" for us by (induction us) (auto simp: map_filter_def)
  then show "us \<noteq> [] \<Longrightarrow> bind_pg_value dbg (PgArray (map PgUuid us)) = BUuids us"
    by (cases us) (simp_all add: map_filter_def)
  have "List.map_filter as_bool (map PgBool bs) = bs" for bs by (induction bs) (auto simp: map_filter_def)
  then show "bs \<noteq> [] \<Longrightarrow> bind_pg_value dbg (PgArray (map PgBool bs)) = BBools bs"
    by (cases bs) (simp_all add: map_filter_def)
qed

text \<open>Otherwise elements are lost: a NULL inside an integer array is not sent.\<close>

theorem bind_array_drops_null:
  "bind_pg_value dbg (PgArray [PgInt a, PgNull, PgInt b]) = BI64s [a, b]"
  by (simp add: map_filter_def)

end
