(* ===== verification/Dp_Steps.thy ===== *)
theory Dp_Steps
  imports Dp_Codec Sql_Builder Core_Plan
begin

text \<open>
  The data-plan steps of \<^verbatim>\<open>magna-dataplan/src/steps\<close>: \<^verbatim>\<open>PgSelectStep\<close>, \<^verbatim>\<open>PgInsertStep\<close>,
  \<^verbatim>\<open>PgUpdateStep\<close> and \<^verbatim>\<open>PgDeleteStep\<close>, as the steps the planner of \<open>Core_Plan\<close> registers. The
  execution of a step gives the list of statements it sends to the database and its
  result; the result \<open>None\<close> is a panic (an out-of-range placeholder, a missing parent
  output). The default hasher is a function \<open>hasher\<close> of the sequence of writes it receives.
\<close>

section \<open>Hashing\<close>

datatype hash_write = WStr string | WLen nat | WTag nat | WU32 "32 word" | WU64 "64 word"

definition hash_str :: "string \<Rightarrow> hash_write list" where
  "hash_str s = [WStr s]"

definition hash_strs :: "string list \<Rightarrow> hash_write list" where
  "hash_strs ss = WLen (length ss) # map WStr ss"

definition hash_opt_str :: "string option \<Rightarrow> hash_write list" where
  "hash_opt_str s = (case s of None \<Rightarrow> [WTag 0] | Some x \<Rightarrow> [WTag 1, WStr x])"

definition hash_u64s :: "64 word list \<Rightarrow> hash_write list" where
  "hash_u64s ks = WLen (length ks) # map WU64 ks"

type_synonym hasher = "hash_write list \<Rightarrow> 64 word"

section \<open>Values and statements\<close>

text \<open>What the steps put behind \<^verbatim>\<open>Arc<dyn Any>\<close>: one row, or the rows of one parent.\<close>

datatype ('t, 'j) dp_value = DRow "('t, 'j) pg_row" | DRows "('t, 'j) pg_row list"

fun downcast_row :: "('t, 'j) dp_value any \<Rightarrow> ('t, 'j) pg_row option" where
  "downcast_row (AnyValue (DRow r)) = Some r"
| "downcast_row _ = None"

type_synonym ('t, 'j) statement = "string \<times> ('t, 'j) pg_value list"

type_synonym ('t, 'j) dp_output = "('t, 'j) dp_value step_output"

text \<open>The step as the executor sees it; a panic ends its task, with the runtime's message.\<close>

definition as_exec_step :: "hasher \<Rightarrow> string \<Rightarrow> type_id \<Rightarrow> step_id \<Rightarrow> step_id list \<Rightarrow> 64 word \<Rightarrow>
    (('t, 'j) dp_output list \<Rightarrow> ('t, 'j) statement list \<times> (fw_graph_error + ('t, 'j) dp_output) option) \<Rightarrow>
    ('c, ('t, 'j) dp_value) exec_step" where
  "as_exec_step hasher panic_msg ty i deps config_hash run =
     \<lparr>st_id = i, st_deps = deps, st_unary = False,
      st_fingerprint = fingerprint_new (\<lambda>h. hasher [WU64 h]) ty deps config_hash,
      st_execute = (\<lambda>_ inputs. case snd (run inputs) of None \<Rightarrow> JoinFailed panic_msg | Some r \<Rightarrow> Finished r)\<rparr>"

definition add_dep :: "step_id \<Rightarrow> step_id list \<Rightarrow> step_id list" where
  "add_dep d deps = (if d \<in> set deps then deps else deps @ [d])"

section \<open>PgSelectStep\<close>

record ('t, 'j) pg_select_step =
  sel_id :: step_id
  sel_schema :: string
  sel_table :: string
  sel_cols :: "string list"
  sel_parent :: "step_id option"
  sel_fk_col :: "string option"
  sel_parent_pk_col :: string
  sel_tweaks :: "(('t, 'j) pg_value sql_builder \<Rightarrow> ('t, 'j) pg_value sql_builder) list"
  sel_tweak_keys :: "64 word list"
  sel_unkeyed :: bool
  sel_deps :: "step_id list"

definition select_new :: "step_id \<Rightarrow> string \<Rightarrow> string \<Rightarrow> string list \<Rightarrow> ('t, 'j) pg_select_step" where
  "select_new i schema table cols =
     \<lparr>sel_id = i, sel_schema = schema, sel_table = table, sel_cols = cols, sel_parent = None,
      sel_fk_col = None, sel_parent_pk_col = ''id'', sel_tweaks = [], sel_tweak_keys = [],
      sel_unkeyed = False, sel_deps = []\<rparr>"

definition with_parent :: "('t, 'j) pg_select_step \<Rightarrow> step_id \<Rightarrow> string \<Rightarrow> ('t, 'j) pg_select_step" where
  "with_parent s parent fk =
     s\<lparr>sel_parent := Some parent, sel_fk_col := Some fk, sel_deps := sel_deps s @ [parent]\<rparr>"

definition with_parent_pk_col :: "('t, 'j) pg_select_step \<Rightarrow> string \<Rightarrow> ('t, 'j) pg_select_step" where
  "with_parent_pk_col s c = s\<lparr>sel_parent_pk_col := c\<rparr>"

definition apply_tweak :: "('t, 'j) pg_select_step \<Rightarrow>
    (('t, 'j) pg_value sql_builder \<Rightarrow> ('t, 'j) pg_value sql_builder) \<Rightarrow> ('t, 'j) pg_select_step" where
  "apply_tweak s tw = s\<lparr>sel_tweaks := sel_tweaks s @ [tw], sel_unkeyed := True\<rparr>"

definition apply_keyed :: "hasher \<Rightarrow> ('t, 'j) pg_select_step \<Rightarrow> hash_write list \<Rightarrow>
    (('t, 'j) pg_value sql_builder \<Rightarrow> ('t, 'j) pg_value sql_builder) \<Rightarrow> ('t, 'j) pg_select_step" where
  "apply_keyed hasher s key tw =
     s\<lparr>sel_tweak_keys := sel_tweak_keys s @ [hasher key], sel_tweaks := sel_tweaks s @ [tw]\<rparr>"

definition select_add_dep :: "('t, 'j) pg_select_step \<Rightarrow> step_id \<Rightarrow> ('t, 'j) pg_select_step" where
  "select_add_dep s d = s\<lparr>sel_deps := add_dep d (sel_deps s)\<rparr>"

definition select_writes :: "('t, 'j) pg_select_step \<Rightarrow> hash_write list" where
  "select_writes s = hash_str (sel_schema s) @ hash_str (sel_table s) @ hash_strs (sel_cols s) @
     hash_opt_str (sel_fk_col s) @ hash_u64s (sel_tweak_keys s) @
     (if sel_unkeyed s then [WU32 (sel_id s)] else [])"

definition select_config_hash :: "hasher \<Rightarrow> ('t, 'j) pg_select_step \<Rightarrow> 64 word" where
  "select_config_hash hasher s = hasher (select_writes s)"

definition base_builder :: "('t, 'j) pg_select_step \<Rightarrow> ('t, 'j) pg_value sql_builder" where
  "base_builder s =
     (let b = sb_from (sel_schema s) (sel_table s)
      in if sel_cols s = [] then column_star b
         else foldl (\<lambda>b col. column b (ident col) None) b (sel_cols s))"

definition parent_ids :: "string \<Rightarrow> ('t, 'j) dp_output \<Rightarrow> ('t, 'j) pg_value list" where
  "parent_ids pk out =
     filter (\<lambda>v. \<not> pg_is_null v)
       (List.map_filter (\<lambda>row. row_get row pk)
         (List.map_filter (\<lambda>(v, _). downcast_row v)
           (filter (\<lambda>(_, flag). is_value flag) (zip (out_values out) (out_flags out)))))"

text \<open>Steps 1 to 3 of \<^verbatim>\<open>execute\<close>: the plan-time query, the batch condition, the tweaks.\<close>

definition any_condition :: "string \<Rightarrow> ('t, 'j) pg_value list \<Rightarrow> ('t, 'j) pg_value sql_fragment" where
  "any_condition fk ids =
     push_raw (append_frag (push_raw (ident fk) '' = ANY('') (param (PgArray ids))) '')''"

definition batch_builder :: "('t, 'j) pg_select_step \<Rightarrow> ('t, 'j) dp_output list \<Rightarrow> ('t, 'j) pg_value sql_builder" where
  "batch_builder s inputs =
     (case (sel_fk_col s, inputs) of
        (Some fk, parent_out # _) \<Rightarrow>
          (let ids = parent_ids (sel_parent_pk_col s) parent_out
           in if ids \<noteq> [] then where_clause (base_builder s) (any_condition fk ids) else base_builder s)
      | _ \<Rightarrow> base_builder s)"

definition select_query :: "('t, 'j) pg_select_step \<Rightarrow> ('t, 'j) dp_output list \<Rightarrow> ('t, 'j) pg_value sql_builder" where
  "select_query s inputs = foldl (\<lambda>b tw. tw b) (batch_builder s inputs) (sel_tweaks s)"

text \<open>\<^verbatim>\<open>==\<close> of \<^verbatim>\<open>f64\<close> on the IEEE bits.\<close>

definition f64_is_nan :: "64 word \<Rightarrow> bool" where
  "f64_is_nan w \<longleftrightarrow> 0x7FF0000000000000 < w AND 0x7FFFFFFFFFFFFFFF"

definition f64_eq :: "64 word \<Rightarrow> 64 word \<Rightarrow> bool" where
  "f64_eq a b \<longleftrightarrow> \<not> f64_is_nan a \<and> \<not> f64_is_nan b \<and>
     (a = b \<or> a AND 0x7FFFFFFFFFFFFFFF = 0 \<and> b AND 0x7FFFFFFFFFFFFFFF = 0)"

fun pg_value_eq :: "('t, 'j) pg_value \<Rightarrow> ('t, 'j) pg_value \<Rightarrow> bool" where
  "pg_value_eq PgNull PgNull = False"
| "pg_value_eq (PgBool a) (PgBool b) = (a = b)"
| "pg_value_eq (PgInt a) (PgInt b) = (a = b)"
| "pg_value_eq (PgFloat a) (PgFloat b) = f64_eq a b"
| "pg_value_eq (PgText a) (PgText b) = (a = b)"
| "pg_value_eq (PgUuid a) (PgUuid b) = (a = b)"
| "pg_value_eq _ _ = False"

definition matching_rows :: "string \<Rightarrow> ('t, 'j) pg_row list \<Rightarrow> ('t, 'j) pg_value option \<Rightarrow> ('t, 'j) pg_row list" where
  "matching_rows fk rows parent_id =
     (case parent_id of
        Some pid \<Rightarrow> filter (\<lambda>row. case row_get row fk of None \<Rightarrow> False | Some v \<Rightarrow> pg_value_eq v pid) rows
      | None \<Rightarrow> [])"

definition select_slot :: "string \<Rightarrow> string \<Rightarrow> ('t, 'j) pg_row list \<Rightarrow> ('t, 'j) dp_value any \<Rightarrow> step_flags \<Rightarrow>
    ('t, 'j) dp_value any \<times> step_flags" where
  "select_slot pk fk rows v flag =
     (if \<not> is_value flag then (AnyValue (DRows []), flag)
      else (AnyValue (DRows (matching_rows fk rows
              (case downcast_row v of None \<Rightarrow> None | Some row \<Rightarrow> row_get row pk))), FLAG_NONE))"

fun select_slots :: "string \<Rightarrow> string \<Rightarrow> ('t, 'j) pg_row list \<Rightarrow> ('t, 'j) dp_value any list \<Rightarrow> step_flags list \<Rightarrow>
    (('t, 'j) dp_value any \<times> step_flags) list option" where
  "select_slots pk fk rows [] fs = Some []"
| "select_slots pk fk rows (v # vs) [] = None"
| "select_slots pk fk rows (v # vs) (f # fs) =
     map_option (Cons (select_slot pk fk rows v f)) (select_slots pk fk rows vs fs)"

definition select_output :: "('t, 'j) pg_select_step \<Rightarrow> ('t, 'j) pg_row list \<Rightarrow> ('t, 'j) dp_output list \<Rightarrow>
    ('t, 'j) dp_output option" where
  "select_output s rows inputs =
     (case (sel_parent s, sel_fk_col s) of
        (Some _, Some fk) \<Rightarrow>
          (case inputs of
             [] \<Rightarrow> None
           | parent_output # _ \<Rightarrow>
               map_option (\<lambda>slots. \<lparr>out_values = map fst slots, out_flags = map snd slots\<rparr>)
                 (select_slots (sel_parent_pk_col s) fk rows (out_values parent_output) (out_flags parent_output)))
      | _ \<Rightarrow> Some (from_values [AnyValue (DRows rows)]))"

definition select_execute :: "('t, 'n, 'j) database \<Rightarrow> ('t, 'j) pg_select_step \<Rightarrow> ('t, 'j) dp_output list \<Rightarrow>
    ('t, 'j) statement list \<times> (fw_graph_error + ('t, 'j) dp_output) option" where
  "select_execute db s inputs =
     (case render (select_query s inputs) of
        None \<Rightarrow> ([], None)
      | Some (sql, ps) \<Rightarrow>
          ([(sql, ps)],
           case execute_select db sql ps of
             Inl e \<Rightarrow> Some (Inl (ExecutionError (''PgSelectStep: '' @ e)))
           | Inr rows \<Rightarrow> map_option Inr (select_output s rows inputs)))"

definition select_as_step :: "hasher \<Rightarrow> string \<Rightarrow> type_id \<Rightarrow> ('t, 'n, 'j) database \<Rightarrow> ('t, 'j) pg_select_step \<Rightarrow>
    ('c, ('t, 'j) dp_value) exec_step" where
  "select_as_step hasher panic_msg ty db s =
     as_exec_step hasher panic_msg ty (sel_id s) (sel_deps s) (select_config_hash hasher s) (select_execute db s)"

section \<open>The mutation steps\<close>

text \<open>The clauses the three \<^verbatim>\<open>build_sql\<close> share; \<open>push_eq\<close> appends \<^verbatim>\<open>"column" = $n\<close>.\<close>

definition push_conditions :: "(string \<times> ('t, 'j) pg_value) list \<Rightarrow> ('t, 'j) pg_value sql_fragment \<Rightarrow>
    ('t, 'j) pg_value sql_fragment" where
  "push_conditions conds f =
     (if conds = [] then f else sep_loop '' AND '' push_eq 0 conds (push_raw f '' WHERE ''))"

definition push_returning :: "string list \<Rightarrow> 'p sql_fragment \<Rightarrow> 'p sql_fragment" where
  "push_returning cols f =
     (let f = push_raw f '' RETURNING ''
      in if cols = [] then push_raw f ''*'' else sep_loop '', '' (\<lambda>col f. append_frag f (ident col)) 0 cols f)"

text \<open>The common end of the three \<^verbatim>\<open>execute\<close>: run the statement, one output per returned row.\<close>

definition run_mutation :: "string \<Rightarrow> ('t, 'n, 'j) database \<Rightarrow> ('t, 'j) statement option \<Rightarrow>
    ('t, 'j) statement list \<times> (fw_graph_error + ('t, 'j) dp_output) option" where
  "run_mutation label db q =
     (case q of
        None \<Rightarrow> ([], None)
      | Some (sql, ps) \<Rightarrow>
          ([(sql, ps)],
           Some (case execute_select db sql ps of
                   Inl e \<Rightarrow> Inl (ExecutionError (label @ '': '' @ e))
                 | Inr rows \<Rightarrow> Inr (from_values (map (\<lambda>row. AnyValue (DRow row)) rows)))))"

record ('t, 'j) pg_insert_step =
  ins_id :: step_id
  ins_schema :: string
  ins_table :: string
  ins_columns :: "string list"
  ins_returning :: "string list"
  ins_static_rows :: "('t, 'j) pg_value list list"
  ins_deps :: "step_id list"

definition insert_step_new :: "step_id \<Rightarrow> string \<Rightarrow> string \<Rightarrow> string list \<Rightarrow> ('t, 'j) pg_insert_step" where
  "insert_step_new i schema table cols =
     \<lparr>ins_id = i, ins_schema = schema, ins_table = table, ins_columns = cols, ins_returning = [],
      ins_static_rows = [], ins_deps = []\<rparr>"

definition insert_returning :: "('t, 'j) pg_insert_step \<Rightarrow> string list \<Rightarrow> ('t, 'j) pg_insert_step" where
  "insert_returning s cols = s\<lparr>ins_returning := cols\<rparr>"

text \<open>Without debug assertions, a row of any length is accepted.\<close>

definition add_row :: "('t, 'j) pg_insert_step \<Rightarrow> ('t, 'j) pg_value list \<Rightarrow> ('t, 'j) pg_insert_step" where
  "add_row s vs = s\<lparr>ins_static_rows := ins_static_rows s @ [vs]\<rparr>"

definition insert_add_dep :: "('t, 'j) pg_insert_step \<Rightarrow> step_id \<Rightarrow> ('t, 'j) pg_insert_step" where
  "insert_add_dep s d = s\<lparr>ins_deps := add_dep d (ins_deps s)\<rparr>"

definition insert_config_hash :: "hasher \<Rightarrow> ('t, 'j) pg_insert_step \<Rightarrow> 64 word" where
  "insert_config_hash hasher s =
     hasher (hash_str (ins_schema s) @ hash_str (ins_table s) @ hash_strs (ins_columns s) @ hash_strs (ins_returning s))"

definition push_row :: "('t, 'j) pg_value list \<Rightarrow> ('t, 'j) pg_value sql_fragment \<Rightarrow> ('t, 'j) pg_value sql_fragment" where
  "push_row row f =
     push_raw (sep_loop '', '' (\<lambda>val f. append_frag f (param val)) 0 row (push_raw f ''('')) '')''"

definition insert_sql :: "('t, 'j) pg_insert_step \<Rightarrow> ('t, 'j) pg_value list list \<Rightarrow> ('t, 'j) statement option" where
  "insert_sql s rows =
     (let f = push_raw (append_frag (raw ''INSERT INTO '') (qualified_ident (ins_schema s) (ins_table s))) '' ('';
          f = sep_loop '', '' (\<lambda>col f. append_frag f (ident col)) 0 (ins_columns s) f;
          f = push_raw f '') VALUES '';
          f = sep_loop '', '' push_row 0 rows f
      in build (push_returning (ins_returning s) f))"

definition insert_execute :: "('t, 'n, 'j) database \<Rightarrow> ('t, 'j) pg_insert_step \<Rightarrow> ('t, 'j) dp_output list \<Rightarrow>
    ('t, 'j) statement list \<times> (fw_graph_error + ('t, 'j) dp_output) option" where
  "insert_execute db s inputs =
     (if ins_static_rows s = [] then ([], Some (Inl (ExecutionError ''PgInsertStep: no rows to insert'')))
      else run_mutation ''PgInsertStep'' db (insert_sql s (ins_static_rows s)))"

definition insert_as_step :: "hasher \<Rightarrow> string \<Rightarrow> type_id \<Rightarrow> ('t, 'n, 'j) database \<Rightarrow> ('t, 'j) pg_insert_step \<Rightarrow>
    ('c, ('t, 'j) dp_value) exec_step" where
  "insert_as_step hasher panic_msg ty db s =
     as_exec_step hasher panic_msg ty (ins_id s) (ins_deps s) (insert_config_hash hasher s) (insert_execute db s)"

record ('t, 'j) pg_update_step =
  upd_id :: step_id
  upd_schema :: string
  upd_table :: string
  upd_set_clauses :: "(string \<times> ('t, 'j) pg_value) list"
  upd_conditions :: "(string \<times> ('t, 'j) pg_value) list"
  upd_returning :: "string list"
  upd_deps :: "step_id list"

definition update_step_new :: "step_id \<Rightarrow> string \<Rightarrow> string \<Rightarrow> ('t, 'j) pg_update_step" where
  "update_step_new i schema table =
     \<lparr>upd_id = i, upd_schema = schema, upd_table = table, upd_set_clauses = [], upd_conditions = [],
      upd_returning = [], upd_deps = []\<rparr>"

definition update_step_set :: "('t, 'j) pg_update_step \<Rightarrow> string \<Rightarrow> ('t, 'j) pg_value \<Rightarrow> ('t, 'j) pg_update_step" where
  "update_step_set s c v = s\<lparr>upd_set_clauses := upd_set_clauses s @ [(c, v)]\<rparr>"

definition update_step_where :: "('t, 'j) pg_update_step \<Rightarrow> string \<Rightarrow> ('t, 'j) pg_value \<Rightarrow> ('t, 'j) pg_update_step" where
  "update_step_where s c v = s\<lparr>upd_conditions := upd_conditions s @ [(c, v)]\<rparr>"

definition update_returning :: "('t, 'j) pg_update_step \<Rightarrow> string list \<Rightarrow> ('t, 'j) pg_update_step" where
  "update_returning s cols = s\<lparr>upd_returning := cols\<rparr>"

definition update_add_dep :: "('t, 'j) pg_update_step \<Rightarrow> step_id \<Rightarrow> ('t, 'j) pg_update_step" where
  "update_add_dep s d = s\<lparr>upd_deps := add_dep d (upd_deps s)\<rparr>"

definition update_config_hash :: "hasher \<Rightarrow> ('t, 'j) pg_update_step \<Rightarrow> 64 word" where
  "update_config_hash hasher s =
     hasher (hash_str (upd_schema s) @ hash_str (upd_table s) @
       concat (map (\<lambda>sc. hash_str (fst sc)) (upd_set_clauses s)) @
       concat (map (\<lambda>wc. hash_str (fst wc)) (upd_conditions s)) @ hash_strs (upd_returning s))"

definition update_sql :: "('t, 'j) pg_update_step \<Rightarrow> ('t, 'j) statement option" where
  "update_sql s =
     (let f = push_raw (append_frag (raw ''UPDATE '') (qualified_ident (upd_schema s) (upd_table s))) '' SET '';
          f = sep_loop '', '' push_eq 0 (upd_set_clauses s) f;
          f = push_conditions (upd_conditions s) f
      in build (push_returning (upd_returning s) f))"

definition update_execute :: "('t, 'n, 'j) database \<Rightarrow> ('t, 'j) pg_update_step \<Rightarrow> ('t, 'j) dp_output list \<Rightarrow>
    ('t, 'j) statement list \<times> (fw_graph_error + ('t, 'j) dp_output) option" where
  "update_execute db s inputs =
     (if upd_set_clauses s = [] then ([], Some (Inl (ExecutionError ''PgUpdateStep: no SET clauses'')))
      else run_mutation ''PgUpdateStep'' db (update_sql s))"

definition update_as_step :: "hasher \<Rightarrow> string \<Rightarrow> type_id \<Rightarrow> ('t, 'n, 'j) database \<Rightarrow> ('t, 'j) pg_update_step \<Rightarrow>
    ('c, ('t, 'j) dp_value) exec_step" where
  "update_as_step hasher panic_msg ty db s =
     as_exec_step hasher panic_msg ty (upd_id s) (upd_deps s) (update_config_hash hasher s) (update_execute db s)"

record ('t, 'j) pg_delete_step =
  del_id :: step_id
  del_schema :: string
  del_table :: string
  del_conditions :: "(string \<times> ('t, 'j) pg_value) list"
  del_returning :: "string list"
  del_deps :: "step_id list"

definition delete_step_new :: "step_id \<Rightarrow> string \<Rightarrow> string \<Rightarrow> ('t, 'j) pg_delete_step" where
  "delete_step_new i schema table =
     \<lparr>del_id = i, del_schema = schema, del_table = table, del_conditions = [], del_returning = [], del_deps = []\<rparr>"

definition delete_step_where :: "('t, 'j) pg_delete_step \<Rightarrow> string \<Rightarrow> ('t, 'j) pg_value \<Rightarrow> ('t, 'j) pg_delete_step" where
  "delete_step_where s c v = s\<lparr>del_conditions := del_conditions s @ [(c, v)]\<rparr>"

definition delete_returning :: "('t, 'j) pg_delete_step \<Rightarrow> string list \<Rightarrow> ('t, 'j) pg_delete_step" where
  "delete_returning s cols = s\<lparr>del_returning := cols\<rparr>"

definition delete_add_dep :: "('t, 'j) pg_delete_step \<Rightarrow> step_id \<Rightarrow> ('t, 'j) pg_delete_step" where
  "delete_add_dep s d = s\<lparr>del_deps := add_dep d (del_deps s)\<rparr>"

definition delete_config_hash :: "hasher \<Rightarrow> ('t, 'j) pg_delete_step \<Rightarrow> 64 word" where
  "delete_config_hash hasher s =
     hasher (hash_str (del_schema s) @ hash_str (del_table s) @
       concat (map (\<lambda>wc. hash_str (fst wc)) (del_conditions s)) @ hash_strs (del_returning s))"

definition delete_sql :: "('t, 'j) pg_delete_step \<Rightarrow> ('t, 'j) statement option" where
  "delete_sql s =
     (let f = append_frag (raw ''DELETE FROM '') (qualified_ident (del_schema s) (del_table s));
          f = push_conditions (del_conditions s) f
      in build (push_returning (del_returning s) f))"

definition delete_execute :: "('t, 'n, 'j) database \<Rightarrow> ('t, 'j) pg_delete_step \<Rightarrow> ('t, 'j) dp_output list \<Rightarrow>
    ('t, 'j) statement list \<times> (fw_graph_error + ('t, 'j) dp_output) option" where
  "delete_execute db s inputs =
     (if del_conditions s = []
      then ([], Some (Inl (ExecutionError ''PgDeleteStep: DELETE without WHERE conditions is not allowed'')))
      else run_mutation ''PgDeleteStep'' db (delete_sql s))"

definition delete_as_step :: "hasher \<Rightarrow> string \<Rightarrow> type_id \<Rightarrow> ('t, 'n, 'j) database \<Rightarrow> ('t, 'j) pg_delete_step \<Rightarrow>
    ('c, ('t, 'j) dp_value) exec_step" where
  "delete_as_step hasher panic_msg ty db s =
     as_exec_step hasher panic_msg ty (del_id s) (del_deps s) (delete_config_hash hasher s) (delete_execute db s)"

section \<open>What the mutation statements say\<close>

definition eq_items :: "(string \<times> 'p) list \<Rightarrow> string \<Rightarrow> 'p sql_item list" where
  "eq_items cvs sep = sep_items sep (map (\<lambda>cv. [Name (fst cv), Text '' = '', Val (snd cv)]) cvs)"

definition condition_items :: "(string \<times> 'p) list \<Rightarrow> 'p sql_item list" where
  "condition_items cvs = (if cvs = [] then [] else Text '' WHERE '' # eq_items cvs '' AND '')"

definition returning_items :: "string list \<Rightarrow> 'p sql_item list" where
  "returning_items cols =
     Text '' RETURNING '' # (if cols = [] then [Text ''*''] else sep_items '', '' (map (\<lambda>c. [Name c]) cols))"

definition row_items :: "'p list \<Rightarrow> 'p sql_item list" where
  "row_items row = [Text ''(''] @ sep_items '', '' (map (\<lambda>v. [Val v]) row) @ [Text '')'']"

lemma emits_push_conditions: "emits (push_conditions conds) (condition_items conds)"
  using emits_comp [OF emits_basic(2) [of "'' WHERE ''"] emits_eqs [of "'' AND ''" conds]]
  by (auto simp: push_conditions_def [abs_def] condition_items_def eq_items_def)

lemma emits_push_returning: "emits (push_returning cols) (returning_items cols)"
  using emits_comp [OF emits_basic(2) [of "'' RETURNING ''"] emits_names [of "'', ''" cols]]
    emits_comp [OF emits_basic(2) [of "'' RETURNING ''"] emits_basic(2) [of "''*''"]]
  by (auto simp: push_returning_def [abs_def] returning_items_def Let_def)

lemma emits_push_row: "emits (push_row row) (row_items row)"
  using emits_comp [OF emits_comp [OF emits_basic(2) [of "''(''"] emits_vals [of "'', ''" row]] emits_basic(2) [of "'')''"]]
  by (simp add: push_row_def [abs_def] row_items_def)

lemma emits_push_rows: "emits (sep_loop '', '' push_row 0 rows) (sep_items '', '' (map row_items rows))"
  by (rule emits_sep_loop) (rule emits_push_row)

lemmas emits_mutation = emitsD [OF emits_push_conditions] emitsD [OF emits_push_returning]
  emitsD [OF emits_push_rows] emits_lists

lemma item_values_mutation [simp]:
  "item_values (eq_items cvs sep) = map snd cvs"
  "item_values (condition_items cvs) = map snd cvs"
  "item_values (returning_items cols) = []"
  "item_values (row_items row) = row"
proof -
  have c: "concat (map (\<lambda>x. [f x]) xs) = map f xs" for f :: "'x \<Rightarrow> 'y" and xs by (induction xs) auto
  have n: "concat (map (\<lambda>x. []) xs) = []" for xs :: "'x list" by (induction xs) auto
  show "item_values (eq_items cvs sep) = map snd cvs" by (simp add: eq_items_def o_def c)
  then show "item_values (condition_items cvs) = map snd cvs" by (simp add: condition_items_def eq_items_def o_def c)
  show "item_values (returning_items cols) = []" by (simp add: returning_items_def o_def n)
  show "item_values (row_items row) = row" by (simp add: row_items_def o_def c)
qed

definition insert_step_items :: "('t, 'j) pg_insert_step \<Rightarrow> ('t, 'j) pg_value sql_item list" where
  "insert_step_items s =
     [Text ''INSERT INTO '', Name (ins_schema s), Text ''.'', Name (ins_table s), Text '' (''] @
     sep_items '', '' (map (\<lambda>c. [Name c]) (ins_columns s)) @ [Text '') VALUES ''] @
     sep_items '', '' (map row_items (ins_static_rows s)) @ returning_items (ins_returning s)"

definition update_step_items :: "('t, 'j) pg_update_step \<Rightarrow> ('t, 'j) pg_value sql_item list" where
  "update_step_items s =
     [Text ''UPDATE '', Name (upd_schema s), Text ''.'', Name (upd_table s), Text '' SET ''] @
     eq_items (upd_set_clauses s) '', '' @ condition_items (upd_conditions s) @ returning_items (upd_returning s)"

definition delete_step_items :: "('t, 'j) pg_delete_step \<Rightarrow> ('t, 'j) pg_value sql_item list" where
  "delete_step_items s =
     [Text ''DELETE FROM '', Name (del_schema s), Text ''.'', Name (del_table s)] @
     condition_items (del_conditions s) @ returning_items (del_returning s)"

lemma mutation_sql:
  "insert_sql s (ins_static_rows s) = Some (print_items 1 (insert_step_items s), item_values (insert_step_items s))"
  "update_sql u = Some (print_items 1 (update_step_items u), item_values (update_step_items u))"
  "delete_sql d = Some (print_items 1 (delete_step_items d), item_values (delete_step_items d))"
  by (simp_all add: insert_sql_def update_sql_def delete_sql_def Let_def build_flat emits_mutation
      insert_step_items_def update_step_items_def delete_step_items_def eq_items_def)

text \<open>The contract of a mutation step: when it is not ready it sends nothing and fails, and when
  it is ready it sends one statement and answers with the returned rows or the driver's error.\<close>

locale mutation_step =
  fixes run :: "('t, 'n, 'j) database \<Rightarrow> 's \<Rightarrow> ('t, 'j) dp_output list \<Rightarrow>
      ('t, 'j) statement list \<times> (fw_graph_error + ('t, 'j) dp_output) option"
    and ready :: "'s \<Rightarrow> bool" and stmt_items :: "'s \<Rightarrow> ('t, 'j) pg_value sql_item list" and label :: string
  assumes not_ready: "\<not> ready s \<Longrightarrow> \<exists>e. run db s ins = ([], Some (Inl (ExecutionError e)))"
    and ready_runs: "ready s \<Longrightarrow> run db s ins =
      run_mutation label db (Some (print_items 1 (stmt_items s), item_values (stmt_items s)))"
begin

lemma statements: "fst (run db s ins) =
    (if ready s then [(print_items 1 (stmt_items s), item_values (stmt_items s))] else [])"
  using not_ready [of s db ins] ready_runs [of s db ins] by (auto simp: run_mutation_def)

lemma no_panic: "snd (run db s ins) \<noteq> None"
  using not_ready [of s db ins] ready_runs [of s db ins] by (cases "ready s") (auto simp: run_mutation_def)

lemma result: "ready s \<Longrightarrow> snd (run db s ins) =
    Some (case execute_select db (print_items 1 (stmt_items s)) (item_values (stmt_items s)) of
            Inl e \<Rightarrow> Inl (ExecutionError (label @ '': '' @ e))
          | Inr rows \<Rightarrow> Inr (from_values (map (\<lambda>row. AnyValue (DRow row)) rows)))"
  using ready_runs [of s db ins] by (simp add: run_mutation_def)

end

interpretation insm: mutation_step insert_execute "\<lambda>s. ins_static_rows s \<noteq> []" insert_step_items "''PgInsertStep''"
  by unfold_locales (simp_all add: insert_execute_def mutation_sql)

interpretation updm: mutation_step update_execute "\<lambda>s. upd_set_clauses s \<noteq> []" update_step_items "''PgUpdateStep''"
  by unfold_locales (simp_all add: update_execute_def mutation_sql)

interpretation delm: mutation_step delete_execute "\<lambda>s. del_conditions s \<noteq> []" delete_step_items "''PgDeleteStep''"
  by unfold_locales (simp_all add: delete_execute_def mutation_sql)

section \<open>The batched select\<close>

definition row_matches :: "string \<Rightarrow> ('t, 'j) pg_row \<Rightarrow> ('t, 'j) pg_value \<Rightarrow> bool" where
  "row_matches fk row pid = (case row_get row fk of None \<Rightarrow> False | Some v \<Rightarrow> pg_value_eq v pid)"

text \<open>The key of a parent slot: the primary key column of its row, if it is a row that has one.\<close>

definition parent_key :: "string \<Rightarrow> ('t, 'j) dp_value any \<Rightarrow> ('t, 'j) pg_value option" where
  "parent_key pk v = (case downcast_row v of None \<Rightarrow> None | Some row \<Rightarrow> row_get row pk)"

lemma matching_rows_Some: "matching_rows fk rows (Some pid) = filter (\<lambda>row. row_matches fk row pid) rows"
  by (simp add: matching_rows_def row_matches_def)

lemma pg_value_eq_Null [simp]: "\<not> pg_value_eq v PgNull"
  by (cases v) auto

lemma parent_key_Some: "parent_key pk v = Some pid \<longleftrightarrow> (\<exists>row. downcast_row v = Some row \<and> row_get row pk = Some pid)"
  by (auto simp: parent_key_def split: option.splits)

lemma parent_ids_iff:
  "pid \<in> set (parent_ids pk out) \<longleftrightarrow>
     \<not> pg_is_null pid \<and> (\<exists>i < min (length (out_values out)) (length (out_flags out)).
        is_value (out_flags out ! i) \<and> parent_key pk (out_values out ! i) = Some pid)"
proof -
  have "pid \<in> set (parent_ids pk out) \<longleftrightarrow> \<not> pg_is_null pid \<and>
      (\<exists>x \<in> set (zip (out_values out) (out_flags out)). is_value (snd x) \<and> parent_key pk (fst x) = Some pid)"
    by (simp add: parent_ids_def in_set_map_filter Bex_def parent_key_Some split_beta) blast
  then show ?thesis by (simp add: Bex_def set_zip) force
qed

lemma select_slots_Some:
  "length vs = length fs \<Longrightarrow>
     select_slots pk fk rows vs fs = Some (map (\<lambda>(v, f). select_slot pk fk rows v f) (zip vs fs))"
proof (induction vs arbitrary: fs)
  case (Cons v vs)
  then show ?case by (cases fs) auto
qed simp

text \<open>The query of an untweaked step, as a text and its bound values.\<close>

lemma base_builder_columns:
  "sb_columns (foldl (\<lambda>b col. column b (ident col) None) b cols) =
     sb_columns b @ map (\<lambda>c. \<lparr>ce_expr = ident c, ce_alias = None\<rparr>) cols"
  "foldl (\<lambda>b col. column b (ident col) None) b cols =
     b\<lparr>sb_columns := sb_columns b @ map (\<lambda>c. \<lparr>ce_expr = ident c, ce_alias = None\<rparr>) cols\<rparr>"
  by (induction cols arbitrary: b) (auto simp: column_def)

lemma builder_flat_base: "builder_flat (base_builder s)"
  by (simp add: base_builder_def Let_def base_builder_columns column_star_def sb_from_def builder_flat_def list_all_iff)

lemma any_condition_items:
  "flat (any_condition fk ids)"
  "the_items (any_condition fk ids) = [Name fk, Text '' = ANY('', Val (PgArray ids), Text '')'']"
  by (simp_all add: any_condition_def)

definition select_step_items :: "('t, 'j) pg_select_step \<Rightarrow> ('t, 'j) pg_value list \<Rightarrow> string option \<Rightarrow>
    ('t, 'j) pg_value sql_item list" where
  "select_step_items s ids fk =
     [Text ''SELECT ''] @
     (if sel_cols s = [] then [Text ''*''] else sep_items '', '' (map (\<lambda>c. [Name c]) (sel_cols s))) @
     [Text '' FROM '', Name (sel_schema s), Text ''.'', Name (sel_table s)] @
     (case fk of Some c \<Rightarrow>
        if ids = [] then []
        else [Text '' WHERE '', Text ''('', Name c, Text '' = ANY('', Val (PgArray ids), Text '')'', Text '')'']
      | None \<Rightarrow> [])"

lemma render_untweaked:
  fixes parent :: "('t, 'j) dp_output"
  assumes "sel_tweaks s = []" and "sel_fk_col s = Some fk"
  defines "ids \<equiv> parent_ids (sel_parent_pk_col s) parent"
  shows "render (select_query s (parent # ins)) =
    Some (print_items 1 (select_step_items s ids (Some fk)), if ids = [] then [] else [PgArray ids])"
proof -
  define b where "b = batch_builder s (parent # ins)"
  have b: "b = (if ids = [] then base_builder s else where_clause (base_builder s) (any_condition fk ids))"
    by (simp add: b_def batch_builder_def assms(2) ids_def Let_def)
  have "builder_flat b"
    using builder_flat_base [of s] by (auto simp: b where_clause_def builder_flat_def any_condition_items)
  then have r: "render b = Some (print_items 1 (select_items b), item_values (select_items b))"
    using select_build_items [of b] by (simp add: render_def build_flat)
  have "select_items b = select_step_items s ids (Some fk)"
    by (simp add: b select_items_def select_step_items_def base_builder_def Let_def base_builder_columns
        column_star_def sb_from_def where_clause_def column_items_def alias_items_def where_items_def
        order_items_def int_items_def any_condition_items o_def)
  moreover have "item_values (select_step_items s ids (Some fk)) = (if ids = [] then [] else [PgArray ids])"
    by (auto simp: select_step_items_def o_def)
  ultimately show ?thesis using r by (simp add: select_query_def assms(1) b_def)
qed

text \<open>A table answers a query for a batch of keys when it returns, in its own order, at least the
  rows whose foreign key equals one of the keys.\<close>

definition answers :: "string \<Rightarrow> ('t, 'j) pg_row list \<Rightarrow> ('t, 'j) pg_value list \<Rightarrow> ('t, 'j) pg_row list \<Rightarrow> bool" where
  "answers fk table ids rows \<longleftrightarrow>
     (\<exists>P. rows = filter P table \<and> (\<forall>r \<in> set table. (\<exists>pid \<in> set ids. row_matches fk r pid) \<longrightarrow> P r))"

lemma matching_answers:
  assumes "answers fk table ids rows" and "pid \<in> set ids"
  shows "matching_rows fk rows (Some pid) = matching_rows fk table (Some pid)"
proof -
  obtain P where P: "rows = filter P table" "\<forall>r \<in> set table. (\<exists>q \<in> set ids. row_matches fk r q) \<longrightarrow> P r"
    using assms(1) unfolding answers_def by blast
  have "filter (\<lambda>r. row_matches fk r pid) (filter P table) = filter (\<lambda>r. row_matches fk r pid) table"
    unfolding filter_filter by (rule filter_cong) (use P(2) assms(2) in auto)
  with P(1) show ?thesis by (simp add: matching_rows_Some)
qed

lemma select_slot_answers:
  assumes "answers fk table (parent_ids pk parent) rows"
    and "i < length (out_values parent)" and "length (out_flags parent) = length (out_values parent)"
  shows "select_slot pk fk rows (out_values parent ! i) (out_flags parent ! i) =
    select_slot pk fk table (out_values parent ! i) (out_flags parent ! i)"
proof (cases "is_value (out_flags parent ! i)")
  case True
  let ?v = "out_values parent ! i"
  have "matching_rows fk rows (parent_key pk ?v) = matching_rows fk table (parent_key pk ?v)"
  proof (cases "parent_key pk ?v")
    case (Some pid)
    show ?thesis
    proof (cases "pg_is_null pid")
      case True
      then have "pid = PgNull" by (cases pid) auto
      with Some show ?thesis by (simp add: matching_rows_Some row_matches_def filter_empty_conv split: option.splits)
    next
      case False
      then have "pid \<in> set (parent_ids pk parent)" using Some True assms(2,3) by (auto simp: parent_ids_iff)
      with matching_answers [OF assms(1)] Some show ?thesis by simp
    qed
  qed (simp add: matching_rows_def)
  with True show ?thesis by (simp add: select_slot_def parent_key_def)
qed (simp add: select_slot_def)

section \<open>Properties\<close>


definition demo_row :: "64 word list \<Rightarrow> (nat, nat, nat) sqlx_row" where
  "demo_row vs = \<lparr>sr_columns = [\<lparr>col_name = ''id'', col_type = ''INT8'', col_ordinal = 0\<rparr>,
       \<lparr>col_name = ''author'', col_type = ''INT8'', col_ordinal = 1\<rparr>],
     get_bool = (\<lambda>_. GetErr), get_i16 = (\<lambda>_. GetErr), get_i32 = (\<lambda>_. GetErr),
     get_i64 = (\<lambda>i. Got (vs ! i)), get_f32 = (\<lambda>_. GetErr), get_f64 = (\<lambda>_. GetErr), get_uuid = (\<lambda>_. GetErr),
     get_datetime = (\<lambda>_. GetErr), get_naive = (\<lambda>_. GetErr), get_json = (\<lambda>_. GetErr), get_bools = (\<lambda>_. GetErr),
     get_i32s = (\<lambda>_. GetErr), get_i64s = (\<lambda>_. GetErr), get_texts = (\<lambda>_. GetErr), get_uuids = (\<lambda>_. GetErr),
     get_text = (\<lambda>_. GetErr)\<rparr>"

text \<open>A database of four posts that understands a filter on the author.\<close>

definition demo_posts :: "64 word list list" where
  "demo_posts = [[10, 1], [11, 2], [12, 1], [13, 9]]"

definition demo_db :: "(nat, nat, nat) database" where
  "demo_db = \<lparr>db_fetch_all = (\<lambda>sql args. Inr (map demo_row
       (case args of BI64s ids # _ \<Rightarrow> filter (\<lambda>post. post ! 1 \<in> set ids) demo_posts | _ \<Rightarrow> demo_posts))),
     db_and_utc = id, db_debug = (\<lambda>_. ''v'')\<rparr>"

definition post_row :: "64 word \<Rightarrow> 64 word \<Rightarrow> (nat, nat) pg_row" where
  "post_row i a = [(''id'', PgInt i), (''author'', PgInt a)]"

definition demo_select :: "(nat, nat) pg_select_step" where
  "demo_select = with_parent (select_new 2 ''public'' ''posts'' [''id'', ''author'']) 1 ''author''"

definition demo_parents :: "(nat, nat) dp_output" where
  "demo_parents = \<lparr>out_values = [AnyValue (DRow [(''id'', PgInt 2)]), AnyUnit, AnyValue (DRow [(''id'', PgInt 1)])],
     out_flags = [FLAG_NONE, FLAG_NULL, FLAG_NONE]\<rparr>"


text \<open>C26: what the mutation steps send. An insert without rows, an update without SET clauses and
  a delete without conditions send nothing; otherwise exactly one statement is sent, whose
  text holds only quoted names and placeholders and whose parameters are the values in the
  order of the placeholders. No mutation step panics.\<close>

theorem mutation_statements:
  "fst (insert_execute db i ins) =
     (if ins_static_rows i = [] then []
      else [(print_items 1 (insert_step_items i), concat (ins_static_rows i))]) \<and>
   fst (update_execute db u ins) =
     (if upd_set_clauses u = [] then []
      else [(print_items 1 (update_step_items u), map snd (upd_set_clauses u) @ map snd (upd_conditions u))]) \<and>
   fst (delete_execute db d ins) =
     (if del_conditions d = [] then []
      else [(print_items 1 (delete_step_items d), map snd (del_conditions d))]) \<and>
   snd (insert_execute db i ins) \<noteq> None \<and> snd (update_execute db u ins) \<noteq> None \<and> snd (delete_execute db d ins) \<noteq> None"
proof -
  have n: "concat (map (\<lambda>x. []) xs) = []" for xs :: "'x list" by (induction xs) auto
  show ?thesis
    unfolding insm.statements updm.statements delm.statements
    by (simp add: insm.no_panic updm.no_panic delm.no_panic insert_step_items_def update_step_items_def
        delete_step_items_def o_def n del: not_None_eq)
qed

end
