(* ===== verification/Dp_Plan.thy ===== *)
theory Dp_Plan
  imports Dp_Steps Core_Pipeline
begin

text \<open>
  The data-plan steps inside a plan: which steps the optimizer of \<^verbatim>\<open>magna-core\<close> takes for
  duplicates. For select steps whose tweaks keep the contract of \<^verbatim>\<open>apply_keyed\<close> the fingerprint is
  faithful, which is what the soundness of the optimizer (\<open>Core_Pipeline\<close>) rests on. It is not
  for mutation steps, whose values it leaves out, nor for select steps that differ in the
  parent's key column.
\<close>

section \<open>What a fingerprint determines\<close>

text \<open>The select steps that the public operations build.\<close>

inductive select_built :: "hasher \<Rightarrow> ('t, 'j) pg_select_step \<Rightarrow> bool" for hasher where
  built_new: "select_built hasher (select_new i schema table cols)"
| built_parent: "select_built hasher s \<Longrightarrow> select_built hasher (with_parent s p fk)"
| built_pk: "select_built hasher s \<Longrightarrow> select_built hasher (with_parent_pk_col s c)"
| built_tweak: "select_built hasher s \<Longrightarrow> select_built hasher (apply_tweak s tw)"
| built_keyed: "select_built hasher s \<Longrightarrow> select_built hasher (apply_keyed hasher s key tw)"
| built_dep: "select_built hasher s \<Longrightarrow> select_built hasher (select_add_dep s d)"

lemmas select_ops = select_new_def with_parent_def with_parent_pk_col_def apply_tweak_def apply_keyed_def
  select_add_dep_def add_dep_def

text \<open>A parent comes with its foreign key column and is a dependency; without unkeyed tweaks
  there is a key per tweak.\<close>

definition select_wf :: "('t, 'j) pg_select_step \<Rightarrow> bool" where
  "select_wf s \<longleftrightarrow> (sel_parent s = None \<longleftrightarrow> sel_fk_col s = None) \<and>
     (case sel_parent s of None \<Rightarrow> True | Some p \<Rightarrow> p \<in> set (sel_deps s)) \<and>
     (if sel_unkeyed s then length (sel_tweak_keys s) < length (sel_tweaks s)
      else length (sel_tweak_keys s) = length (sel_tweaks s))"

lemma select_built_wf: "select_built hasher s \<Longrightarrow> select_wf s"
  by (induction rule: select_built.induct) (auto simp: select_wf_def select_ops split: option.splits if_splits)

lemma select_writes_inj:
  "select_writes s = select_writes t \<longleftrightarrow>
     sel_schema s = sel_schema t \<and> sel_table s = sel_table t \<and> sel_cols s = sel_cols t \<and>
     sel_fk_col s = sel_fk_col t \<and> sel_tweak_keys s = sel_tweak_keys t \<and>
     sel_unkeyed s = sel_unkeyed t \<and> (if sel_unkeyed s then sel_id s = sel_id t else True)"
  (is "?lhs \<longleftrightarrow> ?rhs")
proof
  have inj: "map WStr as = map WStr bs \<longleftrightarrow> as = bs" "map WU64 cs = map WU64 ds \<longleftrightarrow> cs = ds" for as bs cs ds
    by (auto simp: inj_map_eq_map inj_def)
  assume w: ?lhs
  then have top: "sel_schema s = sel_schema t" "sel_table s = sel_table t" "length (sel_cols s) = length (sel_cols t)"
    by (simp_all add: select_writes_def hash_str_def hash_strs_def)
  with w have cols: "sel_cols s = sel_cols t" and rest:
      "hash_opt_str (sel_fk_col s) @ hash_u64s (sel_tweak_keys s) @ (if sel_unkeyed s then [WU32 (sel_id s)] else []) =
       hash_opt_str (sel_fk_col t) @ hash_u64s (sel_tweak_keys t) @ (if sel_unkeyed t then [WU32 (sel_id t)] else [])"
    by (simp_all add: select_writes_def hash_str_def hash_strs_def inj)
  from rest have fk: "sel_fk_col s = sel_fk_col t" and len: "length (sel_tweak_keys s) = length (sel_tweak_keys t)"
    by (auto simp: hash_opt_str_def hash_u64s_def split: option.splits)
  with rest have "sel_tweak_keys s = sel_tweak_keys t" and
      "(if sel_unkeyed s then [WU32 (sel_id s)] else []) = (if sel_unkeyed t then [WU32 (sel_id t)] else [])"
    by (simp_all add: hash_u64s_def inj)
  with top cols fk show ?rhs by (auto split: if_splits)
qed (simp add: select_writes_def)

lemma select_step_simps [simp]:
  "st_id (select_as_step hasher m ty db s) = sel_id s"
  "st_deps (select_as_step hasher m ty db s) = sel_deps s"
  "\<not> st_unary (select_as_step hasher m ty db s)"
  "fp_type_id (st_fingerprint (select_as_step hasher m ty db s)) = ty"
  "fp_dep_ids (st_fingerprint (select_as_step hasher m ty db s)) = sel_deps s"
  "fp_config_hash (st_fingerprint (select_as_step hasher m ty db s)) = hasher [WU64 (hasher (select_writes s))]"
  by (simp_all add: select_as_step_def as_exec_step_def fingerprint_new_def select_config_hash_def)

text \<open>No two of the configurations at hand collide.\<close>

definition collision_free :: "hasher \<Rightarrow> hash_write list set \<Rightarrow> bool" where
  "collision_free hasher W \<longleftrightarrow> inj_on hasher W \<and> inj_on (\<lambda>w. hasher [WU64 (hasher w)]) W"

text \<open>The contract of \<^verbatim>\<open>apply_keyed\<close>: the key of a tweak determines the tweak.\<close>

definition keyed_by :: "(64 word \<Rightarrow> ('t, 'j) pg_value sql_builder \<Rightarrow> ('t, 'j) pg_value sql_builder) \<Rightarrow>
    ('t, 'j) pg_select_step \<Rightarrow> bool" where
  "keyed_by tweak_of s \<longleftrightarrow> sel_unkeyed s \<or> sel_tweaks s = map tweak_of (sel_tweak_keys s)"

text \<open>The run of a step depends on its configuration only.\<close>

lemma select_execute_cong:
  assumes "sel_schema s = sel_schema t" and "sel_table s = sel_table t" and "sel_cols s = sel_cols t"
    and "sel_fk_col s = sel_fk_col t" and "sel_parent_pk_col s = sel_parent_pk_col t"
    and "sel_tweaks s = sel_tweaks t" and "sel_parent s = None \<longleftrightarrow> sel_parent t = None"
  shows "select_execute db s = select_execute db t"
proof
  fix ins :: "('a, 'b) dp_output list"
  have b: "base_builder s = base_builder t" unfolding base_builder_def assms(1,2,3) by (rule refl)
  have "select_query s ins = select_query t ins"
    unfolding select_query_def batch_builder_def assms(4,5,6) b by (rule refl)
  moreover have "select_output s rows ins = select_output t rows ins" for rows
    using assms by (auto simp: select_output_def split: option.splits list.splits)
  ultimately show "select_execute db s ins = select_execute db t ins" unfolding select_execute_def by presburger
qed

section \<open>Properties\<close>

text \<open>C25: the tweak discipline. Unless two configurations collide in the hash, two select steps
  have the same fingerprint exactly when they have the same dependencies, schema, table,
  columns, foreign key column and tweak keys in order, and either neither has an unkeyed tweak
  or both have one and are the same step. So steps tweaked with different keyed arguments
  never merge, and a step with an unkeyed tweak merges with no other step.\<close>

theorem select_fingerprint_exact:
  assumes "collision_free hasher {select_writes s, select_writes t}"
  shows "st_fingerprint (select_as_step hasher m ty db s) = st_fingerprint (select_as_step hasher m ty db t) \<longleftrightarrow>
    sel_deps s = sel_deps t \<and> sel_schema s = sel_schema t \<and> sel_table s = sel_table t \<and>
    sel_cols s = sel_cols t \<and> sel_fk_col s = sel_fk_col t \<and> sel_tweak_keys s = sel_tweak_keys t \<and>
    sel_unkeyed s = sel_unkeyed t \<and> (if sel_unkeyed s then sel_id s = sel_id t else True)"
proof -
  have "hasher [WU64 (hasher (select_writes s))] = hasher [WU64 (hasher (select_writes t))] \<longleftrightarrow>
      select_writes s = select_writes t"
    using assms by (auto simp: collision_free_def)
  moreover have "st_fingerprint (select_as_step hasher m ty db s) = st_fingerprint (select_as_step hasher m ty db t) \<longleftrightarrow>
      sel_deps s = sel_deps t \<and>
      hasher [WU64 (hasher (select_writes s))] = hasher [WU64 (hasher (select_writes t))]"
    by (simp add: select_as_step_def as_exec_step_def fingerprint_new_def select_config_hash_def)
  ultimately show ?thesis using select_writes_inj [of s t] by blast
qed

text \<open>C13: select steps may be deduplicated. For a list of select steps made by the public
  operations, with distinct ids, one parent key column and tweaks determined by their keys,
  equal type and configuration hash imply the same function of the inputs (barring hash
  collisions): the hypothesis under which the optimizer preserves the outputs of a plan.\<close>

theorem select_plan_faithful:
  assumes "\<forall>s \<in> set ss. select_built hasher s \<and> keyed_by tweak_of s \<and> sel_parent_pk_col s = pk"
    and "distinct (map sel_id ss)" and "collision_free hasher (select_writes ` set ss)"
  shows "faithful_fingerprints (map (select_as_step hasher m ty db) ss :: ('c, ('t, 'j) dp_value) exec_step list)"
  unfolding faithful_fingerprints_def
proof (intro ballI impI)
  fix x y :: "('c, ('t, 'j) dp_value) exec_step"
  assume "x \<in> set (map (select_as_step hasher m ty db) ss)" "y \<in> set (map (select_as_step hasher m ty db) ss)"
    and h: "fp_config_hash (st_fingerprint x) = fp_config_hash (st_fingerprint y)"
  then obtain s t where st: "s \<in> set ss" "t \<in> set ss"
    and xy: "x = select_as_step hasher m ty db s" "y = select_as_step hasher m ty db t" by auto
  have "select_writes s = select_writes t"
    using h assms(3) st by (auto simp: xy collision_free_def inj_on_def)
  note eq = this [unfolded select_writes_inj]
  have "select_execute db s = select_execute db t"
  proof (cases "sel_unkeyed s")
    case True
    with eq have "sel_id s = sel_id t" by simp
    with assms(2) st have "s = t" by (auto simp: distinct_map inj_on_def)
    then show ?thesis by simp
  next
    case False
    have "select_wf s" "select_wf t" using assms(1) st select_built_wf by blast+
    moreover have "sel_tweaks s = sel_tweaks t" using assms(1) [THEN bspec, OF st(1)] assms(1) [THEN bspec, OF st(2)] eq False
      by (simp add: keyed_by_def)
    ultimately show ?thesis
      using eq assms(1) st by (intro select_execute_cong) (auto simp: select_wf_def)
  qed
  then show "st_unary x = st_unary y \<and> st_execute x = st_execute y"
    by (simp add: xy select_as_step_def as_exec_step_def)
qed

text \<open>A simple hasher: it adds up the lengths and numbers written.\<close>

fun demo_code :: "hash_write \<Rightarrow> 64 word" where
  "demo_code (WStr s) = of_nat (length s)"
| "demo_code (WLen n) = of_nat n"
| "demo_code (WTag n) = of_nat n"
| "demo_code (WU32 w) = ucast w"
| "demo_code (WU64 w) = w"

definition demo_hasher :: hasher where
  "demo_hasher ws = sum_list (map demo_code ws)"

definition books_by :: "step_id \<Rightarrow> string \<Rightarrow> (nat, nat) pg_select_step" where
  "books_by i author = apply_keyed demo_hasher (select_new i ''public'' ''books'' [''id'']) [WStr author]
     (\<lambda>b. where_clause b (append_frag (push_raw (ident ''author'') '' = '') (param (PgText author))))"

lemmas books_simps = demo_hasher_def books_by_def apply_keyed_def select_new_def select_writes_def hash_str_def
  hash_strs_def hash_opt_str_def hash_u64s_def

theorem select_fingerprint_exact_witness:
  "st_fingerprint (select_as_step demo_hasher [] 0 demo_db (books_by 1 ''John'')) \<noteq>
     st_fingerprint (select_as_step demo_hasher [] 0 demo_db (books_by 2 ''Gen'')) \<and>
   st_fingerprint (select_as_step demo_hasher [] 0 demo_db (books_by 1 ''John'')) =
     st_fingerprint (select_as_step demo_hasher [] 0 demo_db (books_by 2 ''John''))"
proof -
  have ne: "demo_hasher (select_writes (books_by 1 ''John'')) \<noteq> demo_hasher (select_writes (books_by 2 ''Gen''))"
    "demo_hasher [WU64 (demo_hasher (select_writes (books_by 1 ''John'')))] \<noteq>
       demo_hasher [WU64 (demo_hasher (select_writes (books_by 2 ''Gen'')))]"
    "sel_tweak_keys (books_by 1 ''John'') \<noteq> sel_tweak_keys (books_by 2 ''Gen'')" by (simp_all add: books_simps)
  then have "collision_free demo_hasher {select_writes (books_by 1 ''John''), select_writes (books_by 2 ''Gen'')}"
    unfolding collision_free_def by (auto simp: inj_on_def)
  from select_fingerprint_exact [OF this, of "[]" 0 demo_db] ne(3)
  have 1: "st_fingerprint (select_as_step demo_hasher [] 0 demo_db (books_by 1 ''John'')) \<noteq>
     st_fingerprint (select_as_step demo_hasher [] 0 demo_db (books_by 2 ''Gen''))" by blast
  have w: "select_writes (books_by 1 ''John'') = select_writes (books_by 2 ''John'')" by (simp add: books_simps)
  have "collision_free demo_hasher {select_writes (books_by 1 ''John''), select_writes (books_by 2 ''John'')}"
    unfolding w by (simp add: collision_free_def)
  from select_fingerprint_exact [OF this, of "[]" 0 demo_db] w [unfolded select_writes_inj] 1
  show ?thesis by (simp add: books_by_def select_new_def apply_keyed_def)
qed

theorem select_plan_faithful_witness:
  "faithful_fingerprints (map (select_as_step demo_hasher [] 0 demo_db)
     [books_by 1 ''John'', books_by 2 ''Gen'', books_by 3 ''John''] :: (nat, (nat, nat) dp_value) exec_step list)"
proof (rule select_plan_faithful)
  let ?ss = "[books_by 1 ''John'', books_by 2 ''Gen'', books_by 3 ''John'']"
  let ?tweak = "\<lambda>k b. where_clause b (append_frag (push_raw (ident ''author'') '' = '')
    (param (PgText (if k = demo_hasher [WStr ''John''] then ''John'' else ''Gen'')))) :: (nat, nat) pg_value sql_builder"
  have b: "select_built demo_hasher (books_by i a)" for i a
    unfolding books_by_def by (intro built_keyed built_new)
  have "demo_hasher [WStr ''Gen''] \<noteq> demo_hasher [WStr ''John'']" by (simp add: demo_hasher_def)
  then have k: "keyed_by ?tweak (books_by i ''John'')" "keyed_by ?tweak (books_by i ''Gen'')" for i
    by (simp_all add: keyed_by_def books_by_def apply_keyed_def select_new_def)
  show "\<forall>s \<in> set ?ss. select_built demo_hasher s \<and> keyed_by ?tweak s \<and> sel_parent_pk_col s = ''id''"
    using b k by (simp add: books_by_def apply_keyed_def select_new_def)
  show "distinct (map sel_id ?ss)" by (simp add: books_by_def apply_keyed_def select_new_def)
  have ne: "demo_hasher (select_writes (books_by 1 ''John'')) \<noteq> demo_hasher (select_writes (books_by 2 ''Gen''))"
    "demo_hasher [WU64 (demo_hasher (select_writes (books_by 1 ''John'')))] \<noteq>
       demo_hasher [WU64 (demo_hasher (select_writes (books_by 2 ''Gen'')))]" by (simp_all add: books_simps)
  moreover have "select_writes (books_by 3 ''John'') = select_writes (books_by 1 ''John'')" by (simp add: books_simps)
  ultimately show "collision_free demo_hasher (select_writes ` set ?ss)"
    unfolding collision_free_def by (auto simp: inj_on_def)
qed

section \<open>Where the fingerprint is not faithful\<close>

lemma delete_step_simps [simp]:
  "st_id (delete_as_step hasher m ty db d) = del_id d"
  "st_deps (delete_as_step hasher m ty db d) = del_deps d"
  "st_fingerprint (delete_as_step hasher m ty db d) =
     \<lparr>fp_type_id = ty, fp_dep_ids = del_deps d, fp_config_hash = hasher [WU64 (delete_config_hash hasher d)]\<rparr>"
  by (simp_all add: delete_as_step_def as_exec_step_def fingerprint_new_def)

text \<open>The configuration hash of a delete step sees the columns of its conditions, not the values.\<close>

lemma column_writes: "concat (map (\<lambda>cv. hash_str (fst cv)) cvs) = map WStr (map fst cvs)"
  by (induction cvs) (auto simp: hash_str_def)

lemma delete_config_hash_values:
  assumes "del_schema c = del_schema d" and "del_table c = del_table d" and "del_returning c = del_returning d"
    and "map fst (del_conditions c) = map fst (del_conditions d)"
  shows "delete_config_hash hasher c = delete_config_hash hasher d"
  unfolding delete_config_hash_def assms(1-3) column_writes assms(4) by (rule refl)

lemma distinct_singleton_set: "distinct xs \<Longrightarrow> set xs = {x} \<longleftrightarrow> xs = [x]"
  by (cases xs) (auto simp: subset_singleton_iff)

text \<open>Two delete steps for different rows of a table are planned together: the optimizer takes
  one for a duplicate of the other, and its statement is never sent.\<close>

theorem second_delete_dropped:
  assumes "petgraph_laws G ok" and "hash_keys keys_of"
    and "pl_steps p = [delete_as_step hasher m ty db c, delete_as_step hasher m ty db d]"
    and "del_id c \<noteq> del_id d" and "del_deps c = []" and "del_deps d = []"
    and "del_schema c = del_schema d" and "del_table c = del_table d" and "del_returning c = del_returning d"
    and "map fst (del_conditions c) = map fst (del_conditions d)"
    and "planner_build G p = Inr plan"
  shows "\<exists>opt. optimize G keys_of plan = Inr opt \<and>
    (op_execution_order opt = [del_id c] \<or> op_execution_order opt = [del_id d])"
proof -
  let ?sm = "step_map_of (pl_steps p)"
  have ids: "distinct (map st_id (pl_steps p))" using assms(3,4) by simp
  obtain opt seen rm order0 where o: "optimize G keys_of plan = Inr opt"
      "ep_steps (op_plan opt) = ?sm |` {x. canonical (op_remap opt) x}"
      "dedup_inv ?sm (dom ?sm) (seen, op_remap opt, rm)" "distinct (op_execution_order opt)"
      "set (op_execution_order opt) = dom (ep_steps (op_plan opt))"
    by (rule optimize_built [OF assms(1,2) ids assms(11)])
  note D = dedup_invD [OF o(3)]
  have sm: "?sm (del_id c) = Some (delete_as_step hasher m ty db c)" "?sm (del_id d) = Some (delete_as_step hasher m ty db d)"
    by (simp_all only: step_map_of_Some [OF ids]) (simp_all add: assms(3))
  have dom: "dom ?sm = {del_id c, del_id d}"
    unfolding dom_def not_None_eq step_map_of_Some [OF ids] by (auto simp: assms(3))
  have "delete_config_hash hasher c = delete_config_hash hasher d"
    using assms(7-10) by (rule delete_config_hash_values)
  then have fp: "remapped_fingerprint (op_remap opt) (the (?sm (del_id c))) =
      remapped_fingerprint (op_remap opt) (the (?sm (del_id d)))"
    using assms(5,6) by (simp add: sm remapped_fingerprint_def)
  have canon: "seen (remapped_fingerprint (op_remap opt) (the (?sm x))) = Some x"
    if "canonical (op_remap opt) x" "x \<in> dom ?sm" for x
    using D(9) that by blast
  have not_both: "\<not> (canonical (op_remap opt) (del_id c) \<and> canonical (op_remap opt) (del_id d))"
    using canon [of "del_id c"] canon [of "del_id d"] fp assms(4) dom by auto
  have "canonical (op_remap opt) (del_id c) \<or> canonical (op_remap opt) (del_id d)"
  proof (rule ccontr)
    assume "\<not> ?thesis"
    then obtain z where z: "map_of (op_remap opt) (del_id c) = Some z" by (auto simp: canonical_def)
    with D(6,7) [OF z] dom \<open>\<not> ?thesis\<close> show False by auto
  qed
  with not_both o(2,5) dom have "set (op_execution_order opt) = {del_id c} \<or> set (op_execution_order opt) = {del_id d}"
    by auto
  then have "op_execution_order opt = [del_id c] \<or> op_execution_order opt = [del_id d]"
    using o(4) by (auto simp: distinct_singleton_set)
  with o(1) show ?thesis by blast
qed

text \<open>The update step writes the SET columns and the condition columns to its hash without a
  separator, so moving a column from one list to the other leaves the fingerprint unchanged.\<close>

theorem update_hash_ambiguous:
  "update_config_hash hasher (update_step_where (update_step_where (update_step_set (update_step_new i sch tab) a u) b v) c w) =
   update_config_hash hasher (update_step_where (update_step_set (update_step_set (update_step_new k sch tab) a u) b v) c w)"
  by (simp add: update_config_hash_def update_step_where_def update_step_set_def update_step_new_def)

text \<open>The parent's key column is not part of the fingerprint of a select step.\<close>

theorem parent_pk_col_not_hashed:
  "st_fingerprint (select_as_step hasher m ty db (with_parent_pk_col s a)) =
   st_fingerprint (select_as_step hasher m ty db (with_parent_pk_col s b))"
  by (simp add: select_as_step_def as_exec_step_def fingerprint_new_def select_config_hash_def
      select_writes_def with_parent_pk_col_def)

text \<open>A select step below a select step: the parent's values are row lists, none of which is a
  row, so no key is found. The query is sent without its condition and every parent gets no
  rows, whatever the database returns.\<close>

lemma parent_ids_of_rows: "parent_ids pk (from_values (map (\<lambda>rows. AnyValue (DRows rows)) rss)) = []"
proof -
  have "pid \<notin> set (parent_ids pk (from_values (map (\<lambda>rows. AnyValue (DRows rows)) rss)))" for pid
    by (auto simp: parent_ids_iff from_values_def parent_key_def)
  then show ?thesis by (cases "parent_ids pk (from_values (map (\<lambda>rows. AnyValue (DRows rows)) rss))") auto
qed

theorem select_below_select:
  assumes "sel_parent s = Some p" and "sel_fk_col s = Some fk" and "sel_tweaks s = []"
    and "execute_select db (print_items 1 (select_step_items s [] None)) [] = Inr rows"
  shows "select_execute db s [from_values (map (\<lambda>rows. AnyValue (DRows rows)) rss)] =
    ([(print_items 1 (select_step_items s [] None), [])], Some (Inr (from_values (map (\<lambda>_. AnyValue (DRows [])) rss))))"
proof -
  let ?parent = "from_values (map (\<lambda>rows. AnyValue (DRows rows)) rss)"
  have r: "render (select_query s [?parent]) = Some (print_items 1 (select_step_items s [] None), [])"
    using render_untweaked [OF assms(3,2), of ?parent "[]"] by (simp add: parent_ids_of_rows select_step_items_def)
  have slot: "select_slot pk fk rows (AnyValue (DRows x)) FLAG_NONE = (AnyValue (DRows []), FLAG_NONE)" for pk x
    by (simp add: select_slot_def is_value_def FLAG_NONE_def matching_rows_def)
  have "map (\<lambda>(v, f). select_slot pk fk rows v f)
      (zip (map (\<lambda>rows. AnyValue (DRows rows)) xs) (replicate (length xs) FLAG_NONE)) =
      replicate (length xs) (AnyValue (DRows []), FLAG_NONE)" for pk and xs :: "('a, 'b) pg_row list list"
    by (induction xs) (auto simp: slot)
  then show ?thesis
    using assms r by (simp add: select_execute_def select_output_def select_slots_Some from_values_def map_replicate_const)
qed

end
