(* ===== verification/Rust_Str.thy ===== *)
theory Rust_Str
  imports Prelude
begin

text \<open>
  The string operations of the Rust standard library that the configuration, naming and
  serving code uses. Strings are sequences of bytes; case mapping and white space are those
  of ASCII text, so the model of these operations speaks of ASCII strings.
\<close>

section \<open>Characters\<close>

definition is_space :: "char \<Rightarrow> bool" where
  "is_space c \<longleftrightarrow> (let n = (of_char c :: nat) in 9 \<le> n \<and> n \<le> 13 \<or> n = 32)"

definition upper_char :: "char \<Rightarrow> char" where
  "upper_char c = (let n = (of_char c :: nat) in if 97 \<le> n \<and> n \<le> 122 then char_of (n - 32) else c)"

definition lower_char :: "char \<Rightarrow> char" where
  "lower_char c = (let n = (of_char c :: nat) in if 65 \<le> n \<and> n \<le> 90 then char_of (n + 32) else c)"

section \<open>Searching and splitting\<close>

definition strip_prefix :: "string \<Rightarrow> string \<Rightarrow> string option" where
  "strip_prefix p s = (if take (length p) s = p then Some (drop (length p) s) else None)"

definition ends_with :: "string \<Rightarrow> string \<Rightarrow> bool" where
  "ends_with suf s \<longleftrightarrow> length suf \<le> length s \<and> drop (length s - length suf) s = suf"

text \<open>\<^verbatim>\<open>str::split\<close> on a character: one more piece than there are separators.\<close>

fun split_char :: "char \<Rightarrow> string \<Rightarrow> string list" where
  "split_char d [] = [[]]"
| "split_char d (c # cs) =
     (if c = d then [] # split_char d cs
      else case split_char d cs of w # ws \<Rightarrow> (c # w) # ws | [] \<Rightarrow> [[c]])"

text \<open>\<^verbatim>\<open>str::split_once\<close>: at the first occurrence.\<close>

fun split_once :: "char \<Rightarrow> string \<Rightarrow> (string \<times> string) option" where
  "split_once d [] = None"
| "split_once d (c # cs) =
     (if c = d then Some ([], cs)
      else case split_once d cs of None \<Rightarrow> None | Some (a, b) \<Rightarrow> Some (c # a, b))"

definition trim :: "string \<Rightarrow> string" where
  "trim s = rev (dropWhile is_space (rev (dropWhile is_space s)))"

text \<open>\<^verbatim>\<open>str::split_whitespace\<close>: the maximal runs of other characters; \<open>w\<close> is the run being read.\<close>

fun split_ws :: "string \<Rightarrow> string \<Rightarrow> string list" where
  "split_ws w [] = (if w = [] then [] else [w])"
| "split_ws w (c # cs) =
     (if is_space c then (if w = [] then split_ws [] cs else w # split_ws [] cs)
      else split_ws (w @ [c]) cs)"

definition split_whitespace :: "string \<Rightarrow> string list" where
  "split_whitespace s = split_ws [] s"

text \<open>\<^verbatim>\<open>str::lines\<close>: split at line feeds, a carriage return before one is dropped, and so is an
  empty last piece.\<close>

definition strip_cr :: "string \<Rightarrow> string" where
  "strip_cr l = (if l \<noteq> [] \<and> last l = CHR 0x0D then butlast l else l)"

definition str_lines :: "string \<Rightarrow> string list" where
  "str_lines s =
     (let ls = split_char CHR 0x0A s
      in map strip_cr (butlast ls) @ (if last ls = [] then [] else [last ls]))"

text \<open>\<^verbatim>\<open>String::from_utf8\<close> succeeds on the well-formed byte sequences: no stray or missing
  continuation byte, no overlong form, no surrogate, nothing above U+10FFFF.\<close>

definition byte_in :: "string \<Rightarrow> nat \<Rightarrow> nat \<Rightarrow> nat \<Rightarrow> bool" where
  "byte_in bs i lo hi \<longleftrightarrow> i < length bs \<and> lo \<le> (of_char (bs ! i) :: nat) \<and> of_char (bs ! i) \<le> hi"

fun utf8_valid :: "string \<Rightarrow> bool" where
  "utf8_valid [] \<longleftrightarrow> True"
| "utf8_valid (c # cs) \<longleftrightarrow>
     (let n = (of_char c :: nat) in
      if n < 0x80 then utf8_valid cs
      else if 0xC2 \<le> n \<and> n \<le> 0xDF then byte_in cs 0 0x80 0xBF \<and> utf8_valid (drop 1 cs)
      else if 0xE0 \<le> n \<and> n \<le> 0xEF then
        byte_in cs 0 (if n = 0xE0 then 0xA0 else 0x80) (if n = 0xED then 0x9F else 0xBF) \<and>
        byte_in cs 1 0x80 0xBF \<and> utf8_valid (drop 2 cs)
      else if 0xF0 \<le> n \<and> n \<le> 0xF4 then
        byte_in cs 0 (if n = 0xF0 then 0x90 else 0x80) (if n = 0xF4 then 0x8F else 0xBF) \<and>
        byte_in cs 1 0x80 0xBF \<and> byte_in cs 2 0x80 0xBF \<and> utf8_valid (drop 3 cs)
      else False)"

section \<open>Lemmas\<close>

lemma utf8_valid_ascii: "list_all (\<lambda>c. (of_char c :: nat) < 128) s \<Longrightarrow> utf8_valid s"
  by (induction s) (auto simp: Let_def)

lemma strip_prefix_Some: "strip_prefix p s = Some r \<longleftrightarrow> s = p @ r"
  by (auto simp: strip_prefix_def) (metis append_take_drop_id)

lemma ends_with_iff: "ends_with suf s \<longleftrightarrow> (\<exists>p. s = p @ suf)"
proof
  assume "ends_with suf s"
  then have "s = take (length s - length suf) s @ suf"
    by (metis append_take_drop_id ends_with_def)
  then show "\<exists>p. s = p @ suf" by blast
qed (auto simp: ends_with_def)

lemma split_char_not_Nil: "split_char d s \<noteq> []"
  by (induction s) (auto split: list.splits)

lemma split_char_join: "str_join [d] (split_char d s) = s"
proof (induction s)
  case (Cons c s)
  obtain w ws where w: "split_char d s = w # ws" using split_char_not_Nil by (cases "split_char d s") auto
  with Cons show ?case by (cases ws) auto
qed simp

lemma split_char_no_sep: "\<forall>w \<in> set (split_char d s). d \<notin> set w"
  by (induction s) (auto split: list.splits)

lemma split_char_plain: "d \<notin> set w \<Longrightarrow> split_char d w = [w]"
  by (induction w) auto

lemma split_char_append: "d \<notin> set w \<Longrightarrow> split_char d (w @ d # s) = w # split_char d s"
  by (induction w) auto

lemma split_char_of_join:
  "ws \<noteq> [] \<Longrightarrow> list_all (\<lambda>w. d \<notin> set w) ws \<Longrightarrow> split_char d (str_join [d] ws) = ws"
  by (induction "[d]" ws rule: str_join.induct) (auto simp: split_char_plain split_char_append)

lemma split_once_Some: "split_once d s = Some (a, b) \<longleftrightarrow> s = a @ d # b \<and> d \<notin> set a"
proof (induction s arbitrary: a)
  case (Cons c s)
  show ?case
  proof (cases "c = d")
    case True
    then show ?thesis by (cases a) auto
  next
    case False
    have "split_once d (c # s) = Some (a, b) \<longleftrightarrow> (\<exists>a'. a = c # a' \<and> split_once d s = Some (a', b))"
      using False by (auto split: option.splits)
    then show ?thesis using Cons.IH False by (cases a) auto
  qed
qed simp

lemma split_once_None: "split_once d s = None \<longleftrightarrow> d \<notin> set s"
  by (induction s) (auto split: option.splits prod.splits)

text \<open>Words have no white space in them and are not empty, and white space between words does
  not change them.\<close>

lemma split_ws_words: "list_all (\<lambda>c. \<not> is_space c) w \<Longrightarrow> x \<in> set (split_ws w s) \<Longrightarrow> x \<noteq> [] \<and> list_all (\<lambda>c. \<not> is_space c) x"
  by (induction w s rule: split_ws.induct) (auto split: if_splits)

lemma split_ws_word: "list_all (\<lambda>c. \<not> is_space c) v \<Longrightarrow> split_ws w (v @ s) = split_ws (w @ v) s"
  by (induction v arbitrary: w) auto

lemma split_ws_join:
  "list_all (\<lambda>x. x \<noteq> [] \<and> list_all (\<lambda>c. \<not> is_space c) x) ws \<Longrightarrow> split_ws [] (str_join '' '' ws) = ws"
proof (induction "'' ''" ws rule: str_join.induct)
  case (2 s)
  then show ?case using split_ws_word [of s "[]" "[]"] by simp
next
  case (3 s t ts)
  have "is_space CHR '' ''" by (simp add: is_space_def)
  with 3 split_ws_word [of s "[]" "'' '' @ str_join '' '' (t # ts)"] show ?case by simp
qed simp

lemma split_whitespace_idem: "split_whitespace (str_join '' '' (split_whitespace s)) = split_whitespace s"
  unfolding split_whitespace_def
  using split_ws_words [of "[]" _ s] by (intro split_ws_join) (simp add: list_all_iff [of _ "split_ws [] s"])

end
