(* ===== verification/Build_Naming.thy ===== *)
theory Build_Naming
  imports Rust_Str Dp_Codec
begin

text \<open>
  \<^verbatim>\<open>magna-build\<close>: the names of the generated schema (\<^verbatim>\<open>naming.rs\<close>), the tags in database comments
  (\<^verbatim>\<open>smart_tags.rs\<close>) and the scalar types of columns (\<^verbatim>\<open>type_map.rs\<close>).
\<close>

section \<open>Names\<close>

definition capitalize :: "string \<Rightarrow> string" where
  "capitalize s = (case s of [] \<Rightarrow> [] | c # cs \<Rightarrow> upper_char c # cs)"

definition to_pascal_case :: "string \<Rightarrow> string" where
  "to_pascal_case s = concat (map capitalize (split_char CHR ''_'' s))"

definition to_camel_case :: "string \<Rightarrow> string" where
  "to_camel_case s =
     (case split_char CHR ''_'' s of
        [] \<Rightarrow> []
      | first # rest \<Rightarrow> map lower_char first @ concat (map capitalize rest))"

definition to_camel_case_lower_first :: "string \<Rightarrow> string" where
  "to_camel_case_lower_first s = (case s of [] \<Rightarrow> [] | c # cs \<Rightarrow> lower_char c # cs)"

definition singularize :: "string \<Rightarrow> string" where
  "singularize word =
     (if ends_with ''ies'' word then take (length word - 3) word @ ''y''
      else if list_ex (\<lambda>suf. ends_with suf word) [''ses'', ''xes'', ''shes'', ''ches'']
      then take (length word - 2) word
      else if ends_with ''s'' word \<and> \<not> ends_with ''ss'' word then take (length word - 1) word
      else word)"

definition pluralize :: "string \<Rightarrow> string" where
  "pluralize name =
     (if ends_with ''y'' name \<and> length name > 1 \<and> name ! (length name - 2) \<notin> set ''aeiou''
      then take (length name - 1) name @ ''ies''
      else name @ ''s'')"

definition to_type_name :: "string \<Rightarrow> string" where
  "to_type_name pg_name =
     (let words = map capitalize (split_char CHR ''_'' pg_name)
      in concat (if words = [] then [] else butlast words @ [singularize (last words)]))"

definition to_field_name :: "string \<Rightarrow> string" where
  "to_field_name pg_name = to_camel_case pg_name"

definition connection_type_name :: "string \<Rightarrow> string" where
  "connection_type_name n = pluralize n @ ''Connection''"
definition edge_type_name :: "string \<Rightarrow> string" where
  "edge_type_name n = pluralize n @ ''Edge''"
definition filter_type_name :: "string \<Rightarrow> string" where
  "filter_type_name n = n @ ''Filter''"
definition order_by_type_name :: "string \<Rightarrow> string" where
  "order_by_type_name n = pluralize n @ ''OrderBy''"
definition condition_type_name :: "string \<Rightarrow> string" where
  "condition_type_name n = n @ ''Condition''"
definition create_input_type_name :: "string \<Rightarrow> string" where
  "create_input_type_name n = ''Create'' @ n @ ''Input''"
definition patch_type_name :: "string \<Rightarrow> string" where
  "patch_type_name n = n @ ''Patch''"
definition update_input_type_name :: "string \<Rightarrow> string" where
  "update_input_type_name n = ''Update'' @ n @ ''Input''"
definition delete_input_type_name :: "string \<Rightarrow> string" where
  "delete_input_type_name n = ''Delete'' @ n @ ''Input''"
definition create_payload_type_name :: "string \<Rightarrow> string" where
  "create_payload_type_name n = ''Create'' @ n @ ''Payload''"
definition update_payload_type_name :: "string \<Rightarrow> string" where
  "update_payload_type_name n = ''Update'' @ n @ ''Payload''"
definition delete_payload_type_name :: "string \<Rightarrow> string" where
  "delete_payload_type_name n = ''Delete'' @ n @ ''Payload''"

definition belongs_to_field_name :: "string \<Rightarrow> string \<Rightarrow> string" where
  "belongs_to_field_name fk_col target_table =
     to_camel_case_lower_first (to_type_name target_table) @ ''By'' @ to_pascal_case fk_col"

definition has_many_field_name :: "string \<Rightarrow> string \<Rightarrow> string" where
  "has_many_field_name fk_col source_table =
     to_camel_case_lower_first (pluralize (to_type_name source_table)) @ ''By'' @ to_pascal_case fk_col"

definition all_query_field_name :: "string \<Rightarrow> string" where
  "all_query_field_name n = ''all'' @ pluralize n"
definition by_pk_query_field_name :: "string \<Rightarrow> string" where
  "by_pk_query_field_name n = to_camel_case_lower_first n @ ''ById''"
definition create_mutation_field_name :: "string \<Rightarrow> string" where
  "create_mutation_field_name n = ''create'' @ n"
definition update_mutation_field_name :: "string \<Rightarrow> string" where
  "update_mutation_field_name n = ''update'' @ n"
definition delete_mutation_field_name :: "string \<Rightarrow> string" where
  "delete_mutation_field_name n = ''delete'' @ n"

section \<open>Smart tags\<close>

record smart_tags =
  tag_name_override :: "string option"
  tag_omit :: "string list"
  tag_behavior_add :: "string list"
  tag_behavior_remove :: "string list"
  tag_description :: "string option"

definition smart_tags_default :: smart_tags where
  "smart_tags_default = \<lparr>tag_name_override = None, tag_omit = [], tag_behavior_add = [],
     tag_behavior_remove = [], tag_description = None\<rparr>"

text \<open>One line of a comment: a tag, or a line of the description.\<close>

definition parse_tag_line :: "string \<Rightarrow> smart_tags \<times> string list \<Rightarrow> smart_tags \<times> string list" where
  "parse_tag_line line st =
     (case st of (tags, desc_lines) \<Rightarrow>
       let trimmed = trim line in
       case strip_prefix ''@name '' trimmed of
         Some rest \<Rightarrow> (tags\<lparr>tag_name_override := Some (trim rest)\<rparr>, desc_lines)
       | None \<Rightarrow>
         (case strip_prefix ''@omit '' trimmed of
            Some rest \<Rightarrow>
              (tags\<lparr>tag_omit := tag_omit tags @ filter (\<lambda>v. v \<noteq> []) (map trim (split_char CHR '','' rest))\<rparr>, desc_lines)
          | None \<Rightarrow>
            (case strip_prefix ''@behavior '' trimmed of
               Some rest \<Rightarrow>
                 (case strip_prefix ''+'' (trim rest) of
                    Some val \<Rightarrow> (tags\<lparr>tag_behavior_add := tag_behavior_add tags @ [trim val]\<rparr>, desc_lines)
                  | None \<Rightarrow>
                    (case strip_prefix ''-'' (trim rest) of
                       Some val \<Rightarrow> (tags\<lparr>tag_behavior_remove := tag_behavior_remove tags @ [trim val]\<rparr>, desc_lines)
                     | None \<Rightarrow> (tags, desc_lines)))
             | None \<Rightarrow> if trimmed \<noteq> [] then (tags, desc_lines @ [trimmed]) else (tags, desc_lines))))"

definition parse_smart_tags :: "string \<Rightarrow> smart_tags" where
  "parse_smart_tags comment =
     (case fold parse_tag_line (str_lines comment) (smart_tags_default, []) of
        (tags, desc_lines) \<Rightarrow>
          if desc_lines \<noteq> [] then tags\<lparr>tag_description := Some (str_join [CHR 0x0A] desc_lines)\<rparr> else tags)"

section \<open>Scalar types\<close>

definition pg_oid_to_gql_type :: "32 word \<Rightarrow> string option" where
  "pg_oid_to_gql_type oid =
     (if oid = 16 then Some ''Boolean''
      else if oid = 21 \<or> oid = 23 then Some ''Int''
      else if oid = 20 \<or> oid = 1700 then Some ''BigInt''
      else if oid = 700 \<or> oid = 701 then Some ''Float''
      else if oid = 25 \<or> oid = 1043 \<or> oid = 18 \<or> oid = 1042 then Some ''String''
      else if oid = 2950 then Some ''UUID''
      else if oid = 1114 \<or> oid = 1184 then Some ''DateTime''
      else if oid = 1082 then Some ''Date''
      else if oid = 114 \<or> oid = 3802 then Some ''JSON''
      else if oid = 1000 then Some ''[Boolean]''
      else if oid = 1007 then Some ''[Int]''
      else if oid = 1009 then Some ''[String]''
      else if oid = 2951 then Some ''[UUID]''
      else if oid = 1022 then Some ''[Float]''
      else if oid = 3807 then Some ''[JSON]''
      else None)"

definition gql_type_ref :: "32 word \<Rightarrow> bool \<Rightarrow> string" where
  "gql_type_ref oid not_null =
     (let base = unwrap_or (pg_oid_to_gql_type oid) ''String''
      in if not_null then base @ ''!'' else base)"

section \<open>Properties\<close>

lemma ends_with_append [simp]: "ends_with suf (s @ suf)"
  by (auto simp: ends_with_iff)

lemma ends_with_one: "ends_with [c] (s @ [d]) \<longleftrightarrow> c = d"
  by (auto simp: ends_with_iff)

text \<open>Names whose last letters let \<open>singularize\<close> undo \<open>pluralize\<close>.\<close>

definition regular :: "string \<Rightarrow> bool" where
  "regular n \<longleftrightarrow> n \<noteq> [] \<and> \<not> list_ex (\<lambda>suf. ends_with suf n) [''s'', ''se'', ''xe'', ''she'', ''che'', ''ie'']"

lemma ends_with_snoc: "ends_with (suf @ [c]) (s @ [c]) \<longleftrightarrow> ends_with suf s"
  by (auto simp: ends_with_iff)

text \<open>Plural and singular. For every name that does not end in \<^verbatim>\<open>s\<close>, \<^verbatim>\<open>se\<close>, \<^verbatim>\<open>xe\<close>, \<^verbatim>\<open>she\<close>, \<^verbatim>\<open>che\<close> or
  \<^verbatim>\<open>ie\<close>, singularizing its plural gives the name back, so the type name of a table named in the
  plural is the name in the singular.\<close>

theorem singularize_pluralize:
  assumes "regular n"
  shows "singularize (pluralize n) = n"
proof (cases "ends_with ''y'' n \<and> length n > 1 \<and> n ! (length n - 2) \<notin> set ''aeiou''")
  case True
  then obtain p where p: "n = p @ ''y''" by (auto simp: ends_with_iff)
  have "pluralize n = p @ ''ies''" unfolding pluralize_def if_P [OF True] by (simp add: p)
  then show ?thesis by (simp add: singularize_def p ends_with_append)
next
  case False
  have pl: "pluralize n = n @ ''s''" unfolding pluralize_def if_not_P [OF False] ..
  have e: "ends_with ''ies'' (n @ ''s'') \<longleftrightarrow> ends_with ''ie'' n" "ends_with ''ses'' (n @ ''s'') \<longleftrightarrow> ends_with ''se'' n"
    "ends_with ''xes'' (n @ ''s'') \<longleftrightarrow> ends_with ''xe'' n" "ends_with ''shes'' (n @ ''s'') \<longleftrightarrow> ends_with ''she'' n"
    "ends_with ''ches'' (n @ ''s'') \<longleftrightarrow> ends_with ''che'' n" "ends_with ''ss'' (n @ ''s'') \<longleftrightarrow> ends_with ''s'' n"
    using ends_with_snoc [of "''ie''" "CHR ''s''" n] ends_with_snoc [of "''se''" "CHR ''s''" n]
      ends_with_snoc [of "''xe''" "CHR ''s''" n] ends_with_snoc [of "''she''" "CHR ''s''" n]
      ends_with_snoc [of "''che''" "CHR ''s''" n] ends_with_snoc [of "''s''" "CHR ''s''" n] by simp_all
  have "ends_with ''s'' (n @ ''s'')" by simp
  with assms show ?thesis unfolding pl singularize_def regular_def by (simp add: e)
qed

theorem singularize_pluralize_witness:
  "singularize (pluralize ''Category'') = ''Category'' \<and> pluralize ''Category'' = ''Categories''"
proof -
  have "regular ''Category''" by code_simp
  from singularize_pluralize [OF this] show ?thesis by (simp add: pluralize_def ends_with_def)
qed

text \<open>Different tables may get one type name.\<close>

theorem type_name_collision: "to_type_name ''user'' = to_type_name ''users''"
  by code_simp

text \<open>A tag without a value is not a tag: a bare \<^verbatim>\<open>@omit\<close> becomes the description.\<close>

theorem bare_omit_ignored:
  "parse_smart_tags ''@omit'' = smart_tags_default\<lparr>tag_description := Some ''@omit''\<rparr>"
  by code_simp

text \<open>The codec table of the data plan and the type map of the schema agree on the scalar of
  every built-in type, except for the spelling of the two timestamp types.\<close>

theorem codec_scalar_spelling:
  "map (\<lambda>c. pg_oid_to_gql_type (pc_oid c) = Some (pc_gql_scalar c)) (default_codecs X) =
     map (\<lambda>c. pc_name c \<notin> set [''timestamp'', ''timestamptz'']) (default_codecs X) \<and>
   pg_oid_to_gql_type 1114 = Some ''DateTime'' \<and> pc_gql_scalar (default_codecs X ! 8) = ''Datetime''"
  by (simp add: default_codecs_def pg_oid_to_gql_type_def)

end
