(* ===== verification/Config_Preset.thy ===== *)
theory Config_Preset
  imports Rust_Str
begin

text \<open>
  \<^verbatim>\<open>magna-config\<close>: the preset (\<^verbatim>\<open>preset.rs\<close>), the plugin contexts (\<^verbatim>\<open>plugin.rs\<close>) and the merging and
  validation of presets (\<^verbatim>\<open>resolve.rs\<close>). A plugin is its two hooks on their contexts; the
  value of the environment variable \<^verbatim>\<open>JWT_SECRET\<close> is a parameter.
\<close>

section \<open>Presets\<close>

record jwt_config =
  jwt_secret :: string
  jwt_jwks_url :: "string option"

definition jwt_config_default :: "string option \<Rightarrow> jwt_config" where
  "jwt_config_default env_secret =
     \<lparr>jwt_secret = (case env_secret of None \<Rightarrow> [] | Some s \<Rightarrow> s), jwt_jwks_url = None\<rparr>"

record pool_config =
  max_connections :: nat
  min_connections :: nat
  acquire_timeout_secs :: nat
  max_lifetime_secs :: nat
  idle_timeout_secs :: nat

definition pool_config_default :: pool_config where
  "pool_config_default = \<lparr>max_connections = 10, min_connections = 1, acquire_timeout_secs = 30,
     max_lifetime_secs = 1800, idle_timeout_secs = 600\<rparr>"

record schema_build_options =
  default_mutations :: bool
  subscriptions :: bool
  relay :: bool
  connections :: bool
  simple_lists :: bool

definition schema_build_options_default :: schema_build_options where
  "schema_build_options_default = \<lparr>default_mutations = True, subscriptions = True, relay = True,
     connections = True, simple_lists = False\<rparr>"

datatype exposure = ExposeAll | ExposeOnly "string list" | ExtensionsOnly

definition allows :: "exposure \<Rightarrow> string \<Rightarrow> string \<Rightarrow> bool" where
  "allows e schema relation =
     (case e of
        ExposeAll \<Rightarrow> True
      | ExtensionsOnly \<Rightarrow> False
      | ExposeOnly names \<Rightarrow>
          list_ex (\<lambda>n. case split_once CHR ''.'' n of None \<Rightarrow> False | Some (s, r) \<Rightarrow> s = schema \<and> r = relation) names)"

text \<open>Plugins: what \<^verbatim>\<open>gather_hook\<close> and \<^verbatim>\<open>schema_hook\<close> do to their contexts; \<open>'m\<close> is the JSON map.\<close>

record 'm gather_context =
  gc_metadata :: 'm

record schema_context =
  sc_extra_type_defs :: "string list"
  sc_extra_fields :: "(string \<times> string) list"

record 'm plugin =
  plugin_name :: string
  gather_hook :: "'m gather_context \<Rightarrow> 'm gather_context"
  schema_hook :: "schema_context \<Rightarrow> schema_context"

record 'm preset =
  pg_schemas :: "string list"
  preset_exposure :: exposure
  default_role :: "string option"
  preset_jwt :: jwt_config
  preset_pool :: pool_config
  preset_schema :: schema_build_options
  enable_subscriptions :: bool
  trusted_documents_only :: bool
  introspection_cache_ttl :: nat
  preset_plugins :: "'m plugin list"

definition preset_default :: "string option \<Rightarrow> 'm preset" where
  "preset_default env_secret =
     \<lparr>pg_schemas = [''public''], preset_exposure = ExposeAll, default_role = Some ''anon'',
      preset_jwt = jwt_config_default env_secret, preset_pool = pool_config_default,
      preset_schema = schema_build_options_default, enable_subscriptions = True,
      trusted_documents_only = False, introspection_cache_ttl = 60, preset_plugins = []\<rparr>"

section \<open>Merging and validation\<close>

datatype resolve_error = NoPgSchemas | NoJwtConfig | Validation string

record 'm preset_override =
  ov_pg_schemas :: "string list option"
  ov_exposure :: "exposure option"
  ov_default_role :: "string option option"
  ov_jwt_secret :: "string option"
  ov_jwks_url :: "string option option"
  ov_pool :: "pool_config option"
  ov_schema :: "schema_build_options option"
  ov_enable_subscriptions :: "bool option"
  ov_trusted_documents_only :: "bool option"
  ov_introspection_cache_ttl :: "nat option"
  ov_plugins :: "'m plugin list option"

definition override_default :: "'m preset_override" where
  "override_default = \<lparr>ov_pg_schemas = None, ov_exposure = None, ov_default_role = None, ov_jwt_secret = None,
     ov_jwks_url = None, ov_pool = None, ov_schema = None, ov_enable_subscriptions = None,
     ov_trusted_documents_only = None, ov_introspection_cache_ttl = None, ov_plugins = None\<rparr>"

text \<open>\<^verbatim>\<open>if let Some(x) = ov.field.take() { base.field = x }\<close>.\<close>

definition take_or :: "'a \<Rightarrow> 'a option \<Rightarrow> 'a" where
  "take_or old new = (case new of None \<Rightarrow> old | Some x \<Rightarrow> x)"

definition apply_override :: "'m preset \<Rightarrow> 'm preset_override \<Rightarrow> 'm preset" where
  "apply_override base ov =
     base\<lparr>pg_schemas := take_or (pg_schemas base) (ov_pg_schemas ov),
          preset_exposure := take_or (preset_exposure base) (ov_exposure ov),
          default_role := take_or (default_role base) (ov_default_role ov),
          preset_jwt := \<lparr>jwt_secret = take_or (jwt_secret (preset_jwt base)) (ov_jwt_secret ov),
                         jwt_jwks_url = take_or (jwt_jwks_url (preset_jwt base)) (ov_jwks_url ov)\<rparr>,
          preset_pool := take_or (preset_pool base) (ov_pool ov),
          preset_schema := take_or (preset_schema base) (ov_schema ov),
          enable_subscriptions := take_or (enable_subscriptions base) (ov_enable_subscriptions ov),
          trusted_documents_only := take_or (trusted_documents_only base) (ov_trusted_documents_only ov),
          introspection_cache_ttl := take_or (introspection_cache_ttl base) (ov_introspection_cache_ttl ov),
          preset_plugins := (case ov_plugins ov of None \<Rightarrow> preset_plugins base | Some ps \<Rightarrow> preset_plugins base @ ps)\<rparr>"

text \<open>The merged preset, and the overrides as the loop leaves them: every field taken.\<close>

fun merge_presets :: "'m preset \<Rightarrow> 'm preset_override list \<Rightarrow> 'm preset \<times> 'm preset_override list" where
  "merge_presets base [] = (base, [])"
| "merge_presets base (ov # ovs) =
     (case merge_presets (apply_override base ov) ovs of (p, rest) \<Rightarrow> (p, override_default # rest))"

definition validate_preset :: "'m preset \<Rightarrow> resolve_error list + unit" where
  "validate_preset p =
     (let errors = (if pg_schemas p = [] then [NoPgSchemas] else []) @
        (if jwt_secret (preset_jwt p) = [] \<and> jwt_jwks_url (preset_jwt p) = None then [NoJwtConfig] else [])
      in if errors = [] then Inr () else Inl errors)"

section \<open>Lemmas\<close>

text \<open>The last override that mentions a field.\<close>

fun last_some :: "'a \<Rightarrow> 'a option list \<Rightarrow> 'a" where
  "last_some d [] = d"
| "last_some d (x # xs) = last_some (take_or d x) xs"

lemma last_some_append: "last_some d (xs @ [x]) = take_or (last_some d xs) x"
  by (induction d xs rule: last_some.induct) auto

lemma merge_presets_eq:
  "merge_presets base ovs =
    (base\<lparr>pg_schemas := last_some (pg_schemas base) (map ov_pg_schemas ovs),
          preset_exposure := last_some (preset_exposure base) (map ov_exposure ovs),
          default_role := last_some (default_role base) (map ov_default_role ovs),
          preset_jwt := \<lparr>jwt_secret = last_some (jwt_secret (preset_jwt base)) (map ov_jwt_secret ovs),
                         jwt_jwks_url = last_some (jwt_jwks_url (preset_jwt base)) (map ov_jwks_url ovs)\<rparr>,
          preset_pool := last_some (preset_pool base) (map ov_pool ovs),
          preset_schema := last_some (preset_schema base) (map ov_schema ovs),
          enable_subscriptions := last_some (enable_subscriptions base) (map ov_enable_subscriptions ovs),
          trusted_documents_only := last_some (trusted_documents_only base) (map ov_trusted_documents_only ovs),
          introspection_cache_ttl := last_some (introspection_cache_ttl base) (map ov_introspection_cache_ttl ovs),
          preset_plugins := preset_plugins base @ concat (List.map_filter ov_plugins ovs)\<rparr>,
     replicate (length ovs) override_default)"
proof (induction ovs arbitrary: base)
  case (Cons ov ovs)
  show ?case by (simp add: Cons.IH apply_override_def map_filter_def split: option.split)
qed (simp add: map_filter_def)

lemma merge_presets_none: "fst (merge_presets p (replicate n override_default)) = p"
proof (induction n arbitrary: p)
  case (Suc n)
  have "apply_override p override_default = p"
    by (cases p, simp add: apply_override_def override_default_def take_or_def)
  with Suc show ?case by (simp split: prod.split) (metis fst_conv)
qed simp

section \<open>Properties\<close>

text \<open>Exposure. A list of names admits exactly the relations written \<^verbatim>\<open>schema.relation\<close> in it,
  character by character; an entry without a dot admits nothing, and a schema whose own name
  contains a dot can not be named at all. Everything is admitted by default and nothing by
  \<^verbatim>\<open>ExtensionsOnly\<close>.\<close>

theorem exposure_allows_exact:
  "(allows (ExposeOnly names) schema relation \<longleftrightarrow>
      CHR ''.'' \<notin> set schema \<and> schema @ ''.'' @ relation \<in> set names) \<and>
   allows ExposeAll schema relation \<and> (\<not> allows ExtensionsOnly schema relation)"
proof -
  have "(case split_once CHR ''.'' n of None \<Rightarrow> False | Some (s, r) \<Rightarrow> s = schema \<and> r = relation) \<longleftrightarrow>
      n = schema @ CHR ''.'' # relation \<and> CHR ''.'' \<notin> set schema" for n
    using split_once_Some [of "CHR ''.''" n schema relation]
    by (auto split: option.splits)
  then show ?thesis by (auto simp: allows_def list_ex_iff)
qed

text \<open>Merging presets. In every field the last override that sets it wins and the base value
  remains when none does; a JWKS override leaves the secret alone and the other way round;
  plugins accumulate, those of the base first and then those of the overrides in order. The
  overrides are used up: merging them a second time changes nothing.\<close>

theorem merge_last_wins:
  "merge_presets base ovs =
    (base\<lparr>pg_schemas := last_some (pg_schemas base) (map ov_pg_schemas ovs),
          preset_exposure := last_some (preset_exposure base) (map ov_exposure ovs),
          default_role := last_some (default_role base) (map ov_default_role ovs),
          preset_jwt := \<lparr>jwt_secret = last_some (jwt_secret (preset_jwt base)) (map ov_jwt_secret ovs),
                         jwt_jwks_url = last_some (jwt_jwks_url (preset_jwt base)) (map ov_jwks_url ovs)\<rparr>,
          preset_pool := last_some (preset_pool base) (map ov_pool ovs),
          preset_schema := last_some (preset_schema base) (map ov_schema ovs),
          enable_subscriptions := last_some (enable_subscriptions base) (map ov_enable_subscriptions ovs),
          trusted_documents_only := last_some (trusted_documents_only base) (map ov_trusted_documents_only ovs),
          introspection_cache_ttl := last_some (introspection_cache_ttl base) (map ov_introspection_cache_ttl ovs),
          preset_plugins := preset_plugins base @ concat (List.map_filter ov_plugins ovs)\<rparr>,
     replicate (length ovs) override_default) \<and>
   fst (merge_presets (fst (merge_presets base ovs)) (snd (merge_presets base ovs))) = fst (merge_presets base ovs)"
  unfolding merge_presets_eq [of base ovs] snd_conv fst_conv merge_presets_none by (simp only: simp_thms)

text \<open>Validation reports exactly what is missing.\<close>

lemma validate_preset_iff:
  "validate_preset p = Inr () \<longleftrightarrow>
     pg_schemas p \<noteq> [] \<and> (jwt_secret (preset_jwt p) \<noteq> [] \<or> jwt_jwks_url (preset_jwt p) \<noteq> None)"
  by (auto simp: validate_preset_def)

end
