(* ===== verification/Pg_Catalog.thy ===== *)
theory Pg_Catalog
  imports Magna_Types
begin

text \<open>
  \<^verbatim>\<open>magna-introspect\<close>: the catalog rows of \<^verbatim>\<open>types.rs\<close> with their one-letter codes, and the conversion
  of query rows of \<^verbatim>\<open>introspect.rs\<close>. The rows a catalog query returns are records of their
  columns as the driver types them; the SQL texts themselves are not interpreted.
\<close>

type_synonym oid = "32 word"

section \<open>Codes\<close>

datatype class_kind = KTable | KView | KMaterializedView | KCompositeType | KForeignTable

definition class_kind_from_char :: "char \<Rightarrow> class_kind option" where
  "class_kind_from_char c =
     (if c = CHR ''r'' then Some KTable else if c = CHR ''v'' then Some KView
      else if c = CHR ''m'' then Some KMaterializedView else if c = CHR ''c'' then Some KCompositeType
      else if c = CHR ''f'' then Some KForeignTable else None)"

fun class_kind_as_char :: "class_kind \<Rightarrow> char" where
  "class_kind_as_char KTable = CHR ''r''"
| "class_kind_as_char KView = CHR ''v''"
| "class_kind_as_char KMaterializedView = CHR ''m''"
| "class_kind_as_char KCompositeType = CHR ''c''"
| "class_kind_as_char KForeignTable = CHR ''f''"

datatype constraint_kind = PrimaryKey | ForeignKey | Unique | Check | Exclusion

definition constraint_kind_from_char :: "char \<Rightarrow> constraint_kind option" where
  "constraint_kind_from_char c =
     (if c = CHR ''p'' then Some PrimaryKey else if c = CHR ''f'' then Some ForeignKey
      else if c = CHR ''u'' then Some Unique else if c = CHR ''c'' then Some Check
      else if c = CHR ''x'' then Some Exclusion else None)"

fun constraint_kind_as_char :: "constraint_kind \<Rightarrow> char" where
  "constraint_kind_as_char PrimaryKey = CHR ''p''"
| "constraint_kind_as_char ForeignKey = CHR ''f''"
| "constraint_kind_as_char Unique = CHR ''u''"
| "constraint_kind_as_char Check = CHR ''c''"
| "constraint_kind_as_char Exclusion = CHR ''x''"

datatype fk_action = NoAction | Restrict | Cascade | SetNull | SetDefault

definition fk_action_from_char :: "char \<Rightarrow> fk_action option" where
  "fk_action_from_char c =
     (if c = CHR ''a'' then Some NoAction else if c = CHR ''r'' then Some Restrict
      else if c = CHR ''c'' then Some Cascade else if c = CHR ''n'' then Some SetNull
      else if c = CHR ''d'' then Some SetDefault else None)"

fun fk_action_as_char :: "fk_action \<Rightarrow> char" where
  "fk_action_as_char NoAction = CHR ''a''"
| "fk_action_as_char Restrict = CHR ''r''"
| "fk_action_as_char Cascade = CHR ''c''"
| "fk_action_as_char SetNull = CHR ''n''"
| "fk_action_as_char SetDefault = CHR ''d''"

datatype proc_volatility = Immutable | Stable | Volatile

definition volatility_from_char :: "char \<Rightarrow> proc_volatility option" where
  "volatility_from_char c =
     (if c = CHR ''i'' then Some Immutable else if c = CHR ''s'' then Some Stable
      else if c = CHR ''v'' then Some Volatile else None)"

fun volatility_as_char :: "proc_volatility \<Rightarrow> char" where
  "volatility_as_char Immutable = CHR ''i''"
| "volatility_as_char Stable = CHR ''s''"
| "volatility_as_char Volatile = CHR ''v''"

text \<open>The contract of a one-letter code.\<close>

locale char_code =
  fixes from_char :: "char \<Rightarrow> 'k option" and as_char :: "'k \<Rightarrow> char"
  assumes from_as: "from_char (as_char k) = Some k"
    and as_from: "from_char c = Some k \<Longrightarrow> as_char k = c"
begin

lemma from_char_iff: "from_char c = Some k \<longleftrightarrow> c = as_char k"
  using from_as as_from by metis

lemma as_char_inj: "as_char k = as_char l \<longleftrightarrow> k = l"
  using from_as by (metis option.inject)

end

interpretation class_code: char_code class_kind_from_char class_kind_as_char
proof
  show "class_kind_from_char (class_kind_as_char k) = Some k" for k
    by (cases k) (simp_all add: class_kind_from_char_def)
  show "class_kind_as_char k = c" if "class_kind_from_char c = Some k" for c k
    using that by (auto simp: class_kind_from_char_def split: if_splits)
qed

interpretation constraint_code: char_code constraint_kind_from_char constraint_kind_as_char
proof
  show "constraint_kind_from_char (constraint_kind_as_char k) = Some k" for k
    by (cases k) (simp_all add: constraint_kind_from_char_def)
  show "constraint_kind_as_char k = c" if "constraint_kind_from_char c = Some k" for c k
    using that by (auto simp: constraint_kind_from_char_def split: if_splits)
qed

interpretation action_code: char_code fk_action_from_char fk_action_as_char
proof
  show "fk_action_from_char (fk_action_as_char k) = Some k" for k
    by (cases k) (simp_all add: fk_action_from_char_def)
  show "fk_action_as_char k = c" if "fk_action_from_char c = Some k" for c k
    using that by (auto simp: fk_action_from_char_def split: if_splits)
qed

interpretation volatility_code: char_code volatility_from_char volatility_as_char
proof
  show "volatility_from_char (volatility_as_char k) = Some k" for k
    by (cases k) (simp_all add: volatility_from_char_def)
  show "volatility_as_char k = c" if "volatility_from_char c = Some k" for c k
    using that by (auto simp: volatility_from_char_def split: if_splits)
qed

section \<open>Catalog rows\<close>

record pg_namespace =
  ns_oid :: oid
  ns_name :: string

record pg_class =
  cl_oid :: oid
  cl_name :: string
  cl_schema_oid :: oid
  cl_kind :: class_kind
  cl_is_rls_enabled :: bool

record pg_attribute =
  at_class_oid :: oid
  at_name :: string
  at_type_oid :: oid
  at_num :: "16 word"
  at_is_not_null :: bool
  at_has_default :: bool
  at_is_identity :: bool

record pg_constraint =
  co_oid :: oid
  co_name :: string
  co_class_oid :: oid
  co_kind :: constraint_kind
  co_key_attrs :: "16 word list"
  co_foreign_class_oid :: "oid option"
  co_foreign_key_attrs :: "16 word list option"
  co_on_delete :: "fk_action option"
  co_on_update :: "fk_action option"

record pg_proc =
  pr_oid :: oid
  pr_name :: string
  pr_schema_oid :: oid
  pr_arg_types :: "oid list"
  pr_return_type :: oid
  pr_returns_set :: bool
  pr_is_strict :: bool
  pr_volatility :: proc_volatility
  pr_language :: string

record pg_type =
  ty_oid :: oid
  ty_name :: string
  ty_schema_oid :: oid
  ty_category :: char
  ty_array_element_type_oid :: oid
  ty_base_type_oid :: oid
  ty_class_oid :: oid
  ty_is_enum :: bool

text \<open>\<^verbatim>\<open>sort_order: f32\<close> as its IEEE bits.\<close>

record pg_enum =
  en_oid :: oid
  en_type_oid :: oid
  en_sort_order :: "32 word"
  en_label :: string

record pg_index =
  ix_index_oid :: oid
  ix_class_oid :: oid
  ix_key_attrs :: "16 word list"
  ix_is_unique :: bool
  ix_is_primary :: bool

record pg_description =
  de_obj_oid :: oid
  de_class_oid :: oid
  de_obj_sub_id :: "32 word"
  de_description :: string

record introspection_result =
  ir_namespaces :: "pg_namespace list"
  ir_classes :: "pg_class list"
  ir_attributes :: "pg_attribute list"
  ir_constraints :: "pg_constraint list"
  ir_procs :: "pg_proc list"
  ir_types :: "pg_type list"
  ir_enums :: "pg_enum list"
  ir_indexes :: "pg_index list"
  ir_descriptions :: "pg_description list"

section \<open>From query rows\<close>

text \<open>The columns are typed as the queries cast them: OIDs arrive as \<^verbatim>\<open>i32\<close>, codes as text. A cast
  \<^verbatim>\<open>i32 as u32\<close> keeps the bits.\<close>

type_synonym int4 = "32 word"

definition as_u32 :: "int4 \<Rightarrow> oid" where
  "as_u32 i = i"

definition first_char_or :: "char \<Rightarrow> string \<Rightarrow> char" where
  "first_char_or d s = (case s of [] \<Rightarrow> d | c # _ \<Rightarrow> c)"

definition namespace_of_row :: "int4 \<Rightarrow> string \<Rightarrow> pg_namespace" where
  "namespace_of_row oid name = \<lparr>ns_oid = as_u32 oid, ns_name = name\<rparr>"

definition class_of_row :: "int4 \<Rightarrow> string \<Rightarrow> int4 \<Rightarrow> string \<Rightarrow> bool \<Rightarrow> pg_class" where
  "class_of_row oid name schema_oid kind rls =
     \<lparr>cl_oid = as_u32 oid, cl_name = name, cl_schema_oid = as_u32 schema_oid,
      cl_kind = (case class_kind_from_char (first_char_or CHR ''r'' kind) of Some k \<Rightarrow> k | None \<Rightarrow> KTable),
      cl_is_rls_enabled = rls\<rparr>"

definition attribute_of_row :: "int4 \<Rightarrow> string \<Rightarrow> int4 \<Rightarrow> 16 word \<Rightarrow> bool \<Rightarrow> bool \<Rightarrow> bool \<Rightarrow> pg_attribute" where
  "attribute_of_row class_oid name type_oid num not_null default' identity =
     \<lparr>at_class_oid = as_u32 class_oid, at_name = name, at_type_oid = as_u32 type_oid, at_num = num,
      at_is_not_null = not_null, at_has_default = default', at_is_identity = identity\<rparr>"

definition action_of_text :: "string \<Rightarrow> fk_action option" where
  "action_of_text s = (case s of [] \<Rightarrow> None | c # _ \<Rightarrow> if c = CHR '' '' then None else fk_action_from_char c)"

definition constraint_of_row :: "int4 \<Rightarrow> string \<Rightarrow> int4 \<Rightarrow> string \<Rightarrow> 16 word list \<Rightarrow> int4 \<Rightarrow> 16 word list option \<Rightarrow>
    string \<Rightarrow> string \<Rightarrow> pg_constraint" where
  "constraint_of_row oid name class_oid kind key_attrs foreign_class foreign_attrs on_delete on_update =
     \<lparr>co_oid = as_u32 oid, co_name = name, co_class_oid = as_u32 class_oid,
      co_kind = (case constraint_kind_from_char (first_char_or CHR ''c'' kind) of Some k \<Rightarrow> k | None \<Rightarrow> Check),
      co_key_attrs = key_attrs,
      co_foreign_class_oid = (if foreign_class \<noteq> 0 then Some (as_u32 foreign_class) else None),
      co_foreign_key_attrs = (case foreign_attrs of Some (a # as) \<Rightarrow> Some (a # as) | _ \<Rightarrow> None),
      co_on_delete = action_of_text on_delete, co_on_update = action_of_text on_update\<rparr>"

definition proc_of_row :: "int4 \<Rightarrow> string \<Rightarrow> int4 \<Rightarrow> int4 list \<Rightarrow> int4 \<Rightarrow> bool \<Rightarrow> bool \<Rightarrow> string \<Rightarrow> string \<Rightarrow> pg_proc" where
  "proc_of_row oid name schema_oid arg_types return_type returns_set strict volatility language =
     \<lparr>pr_oid = as_u32 oid, pr_name = name, pr_schema_oid = as_u32 schema_oid, pr_arg_types = map as_u32 arg_types,
      pr_return_type = as_u32 return_type, pr_returns_set = returns_set, pr_is_strict = strict,
      pr_volatility = (case volatility_from_char (first_char_or CHR ''v'' volatility) of Some v \<Rightarrow> v | None \<Rightarrow> Volatile),
      pr_language = language\<rparr>"

definition type_of_row :: "int4 \<Rightarrow> string \<Rightarrow> int4 \<Rightarrow> string \<Rightarrow> int4 \<Rightarrow> int4 \<Rightarrow> int4 \<Rightarrow> bool \<Rightarrow> pg_type" where
  "type_of_row oid name schema_oid category elem base class_oid is_enum =
     \<lparr>ty_oid = as_u32 oid, ty_name = name, ty_schema_oid = as_u32 schema_oid,
      ty_category = first_char_or CHR ''X'' category, ty_array_element_type_oid = as_u32 elem,
      ty_base_type_oid = as_u32 base, ty_class_oid = as_u32 class_oid, ty_is_enum = is_enum\<rparr>"

definition enum_of_row :: "int4 \<Rightarrow> int4 \<Rightarrow> 32 word \<Rightarrow> string \<Rightarrow> pg_enum" where
  "enum_of_row oid type_oid sort_order label =
     \<lparr>en_oid = as_u32 oid, en_type_oid = as_u32 type_oid, en_sort_order = sort_order, en_label = label\<rparr>"

definition index_of_row :: "int4 \<Rightarrow> int4 \<Rightarrow> 16 word list \<Rightarrow> bool \<Rightarrow> bool \<Rightarrow> pg_index" where
  "index_of_row index_oid class_oid key_attrs unique primary =
     \<lparr>ix_index_oid = as_u32 index_oid, ix_class_oid = as_u32 class_oid, ix_key_attrs = key_attrs,
      ix_is_unique = unique, ix_is_primary = primary\<rparr>"

definition description_of_row :: "int4 \<Rightarrow> int4 \<Rightarrow> 32 word \<Rightarrow> string \<Rightarrow> pg_description" where
  "description_of_row obj_oid class_oid sub_id text =
     \<lparr>de_obj_oid = as_u32 obj_oid, de_class_oid = as_u32 class_oid, de_obj_sub_id = sub_id, de_description = text\<rparr>"

section \<open>Properties\<close>

text \<open>The kind of a relation survives the trip through its catalog letter.\<close>

lemma class_of_row_kind: "cl_kind (class_of_row i n s [class_kind_as_char k] r) = k"
  by (simp add: class_of_row_def first_char_or_def class_code.from_as)

lemma constraint_of_row_kind:
  "co_kind (constraint_of_row i n c [constraint_kind_as_char k] ks f fs od ou) = k"
  by (simp add: constraint_of_row_def first_char_or_def constraint_code.from_as)

text \<open>A constraint row is a usable foreign key exactly when it names a table and columns.\<close>

lemma constraint_of_row_foreign:
  "co_foreign_class_oid (constraint_of_row i n c k ks f fs od ou) = None \<longleftrightarrow> f = 0"
  "co_foreign_key_attrs (constraint_of_row i n c k ks f fs od ou) = None \<longleftrightarrow> fs = None \<or> fs = Some []"
  by (auto simp: constraint_of_row_def split: option.splits list.splits)

end
