(* ===== verification/Dp_Registry.thy ===== *)
theory Dp_Registry
  imports Pg_Catalog Rust_Map
begin

text \<open>
  \<^verbatim>\<open>magna-dataplan/src/registry.rs\<close>: the registry of table resources built from an introspection
  result. Hash maps are association lists with distinct keys (\<open>Rust_Map\<close>).
\<close>

section \<open>Resources\<close>

record pg_resource_column =
  rc_name :: string
  rc_type_oid :: oid
  rc_is_not_null :: bool
  rc_has_default :: bool
  rc_ordinal :: "16 word"

record pg_foreign_key =
  fk_name :: string
  fk_columns :: "string list"
  fk_foreign_class_oid :: oid
  fk_foreign_columns :: "string list"

record pg_resource =
  rs_class_oid :: oid
  rs_schema :: string
  rs_table :: string
  rs_columns :: "pg_resource_column list"
  rs_primary_key :: "string list"
  rs_foreign_keys :: "pg_foreign_key list"
  rs_unique_constraints :: "string list list"

record pg_resource_registry =
  rr_by_oid :: "(oid \<times> pg_resource) list"
  rr_by_name :: "(string \<times> oid) list"

section \<open>Helpers\<close>

text \<open>\<^verbatim>\<open>nums.iter().filter_map(|&num| attrs.iter().find(..).map(|a| a.name))\<close>.\<close>

definition attr_names :: "(pg_attribute \<Rightarrow> bool) \<Rightarrow> pg_attribute list \<Rightarrow> 16 word list \<Rightarrow> string list" where
  "attr_names P attrs nums =
     List.map_filter (\<lambda>num. map_option at_name (find (\<lambda>a. P a \<and> at_num a = num) attrs)) nums"

fun extract_primary_key :: "pg_constraint list \<Rightarrow> pg_attribute list \<Rightarrow> string list" where
  "extract_primary_key [] attrs = []"
| "extract_primary_key (con # cons) attrs =
     (if co_kind con = PrimaryKey then attr_names (\<lambda>_. True) attrs (co_key_attrs con)
      else extract_primary_key cons attrs)"

fun extract_foreign_keys :: "pg_constraint list \<Rightarrow> pg_attribute list \<Rightarrow> pg_attribute list \<Rightarrow> pg_foreign_key list \<Rightarrow>
    pg_foreign_key list" where
  "extract_foreign_keys [] local_attrs all_attrs fks = fks"
| "extract_foreign_keys (con # cons) local_attrs all_attrs fks =
     (if co_kind con \<noteq> ForeignKey then extract_foreign_keys cons local_attrs all_attrs fks
      else case co_foreign_class_oid con of
        None \<Rightarrow> extract_foreign_keys cons local_attrs all_attrs fks
      | Some foreign_class_oid \<Rightarrow>
          (case co_foreign_key_attrs con of
             None \<Rightarrow> extract_foreign_keys cons local_attrs all_attrs fks
           | Some foreign_key_attrs \<Rightarrow>
               extract_foreign_keys cons local_attrs all_attrs
                 (fks @ [\<lparr>fk_name = co_name con,
                          fk_columns = attr_names (\<lambda>_. True) local_attrs (co_key_attrs con),
                          fk_foreign_class_oid = foreign_class_oid,
                          fk_foreign_columns =
                            attr_names (\<lambda>a. at_class_oid a = foreign_class_oid) all_attrs foreign_key_attrs\<rparr>])))"

definition extract_unique_constraints :: "pg_constraint list \<Rightarrow> pg_attribute list \<Rightarrow> string list list" where
  "extract_unique_constraints cons attrs =
     map (\<lambda>con. attr_names (\<lambda>_. True) attrs (co_key_attrs con)) (filter (\<lambda>c. co_kind c = Unique) cons)"

section \<open>Building the registry\<close>

definition resource_column :: "pg_attribute \<Rightarrow> pg_resource_column" where
  "resource_column a =
     \<lparr>rc_name = at_name a, rc_type_oid = at_type_oid a, rc_is_not_null = at_is_not_null a,
      rc_has_default = at_has_default a, rc_ordinal = at_num a\<rparr>"

definition schema_name_of :: "(oid \<times> pg_namespace) list \<Rightarrow> oid \<Rightarrow> string" where
  "schema_name_of namespace_map schema_oid =
     (case map_of namespace_map schema_oid of None \<Rightarrow> ''public'' | Some ns \<Rightarrow> ns_name ns)"

text \<open>\<^verbatim>\<open>columns.sort_by_key(|c| c.ordinal)\<close> is a stable sort on the signed ordinal.\<close>

definition build_pg_resource :: "introspection_result \<Rightarrow> (oid \<times> pg_namespace) list \<Rightarrow> (oid \<times> pg_attribute list) list \<Rightarrow>
    (oid \<times> pg_constraint list) list \<Rightarrow> pg_class \<Rightarrow> pg_resource" where
  "build_pg_resource result namespace_map attr_map constraint_map cls =
     (let attrs = (case map_of attr_map (cl_oid cls) of None \<Rightarrow> [] | Some as \<Rightarrow> as);
          constraints = (case map_of constraint_map (cl_oid cls) of None \<Rightarrow> [] | Some cs \<Rightarrow> cs)
      in \<lparr>rs_class_oid = cl_oid cls,
          rs_schema = schema_name_of namespace_map (cl_schema_oid cls),
          rs_table = cl_name cls,
          rs_columns = sort_key (\<lambda>c. sint (rc_ordinal c)) (map resource_column attrs),
          rs_primary_key = extract_primary_key constraints attrs,
          rs_foreign_keys = extract_foreign_keys constraints attrs (ir_attributes result) [],
          rs_unique_constraints = extract_unique_constraints constraints attrs\<rparr>)"

fun register_classes :: "(pg_class \<Rightarrow> pg_resource) \<Rightarrow> pg_class list \<Rightarrow> pg_resource_registry \<Rightarrow> pg_resource_registry" where
  "register_classes mk [] reg = reg"
| "register_classes mk (cls # clss) reg =
     (if cl_kind cls \<noteq> KTable then register_classes mk clss reg
      else let resource = mk cls in
        register_classes mk clss
          \<lparr>rr_by_oid = assoc_insert (cl_oid cls) resource (rr_by_oid reg),
           rr_by_name = assoc_insert (rs_schema resource @ ''.'' @ cl_name cls) (cl_oid cls) (rr_by_name reg)\<rparr>)"

definition from_introspection :: "introspection_result \<Rightarrow> pg_resource_registry" where
  "from_introspection result =
     (let namespace_map = assoc_collect (map (\<lambda>ns. (ns_oid ns, ns)) (ir_namespaces result));
          attr_map = assoc_group at_class_oid (ir_attributes result) [];
          constraint_map = assoc_group co_class_oid (ir_constraints result) []
      in register_classes (build_pg_resource result namespace_map attr_map constraint_map) (ir_classes result)
           \<lparr>rr_by_oid = [], rr_by_name = []\<rparr>)"

definition get_by_oid :: "pg_resource_registry \<Rightarrow> oid \<Rightarrow> pg_resource option" where
  "get_by_oid reg i = map_of (rr_by_oid reg) i"

definition get_by_name :: "pg_resource_registry \<Rightarrow> string \<Rightarrow> string \<Rightarrow> pg_resource option" where
  "get_by_name reg schema table =
     (case map_of (rr_by_name reg) (schema @ ''.'' @ table) of None \<Rightarrow> None | Some i \<Rightarrow> map_of (rr_by_oid reg) i)"

definition registry_len :: "pg_resource_registry \<Rightarrow> nat" where
  "registry_len reg = length (rr_by_oid reg)"

definition registry_is_empty :: "pg_resource_registry \<Rightarrow> bool" where
  "registry_is_empty reg \<longleftrightarrow> rr_by_oid reg = []"

definition column_names :: "pg_resource_registry \<Rightarrow> string \<Rightarrow> string \<Rightarrow> string list" where
  "column_names reg schema table =
     (case get_by_name reg schema table of None \<Rightarrow> [] | Some r \<Rightarrow> map rc_name (rs_columns r))"

section \<open>What a resource says\<close>

text \<open>The resource of a class, read off the introspection result directly.\<close>

definition class_attrs :: "introspection_result \<Rightarrow> oid \<Rightarrow> pg_attribute list" where
  "class_attrs result i = filter (\<lambda>a. at_class_oid a = i) (ir_attributes result)"

definition class_constraints :: "introspection_result \<Rightarrow> oid \<Rightarrow> pg_constraint list" where
  "class_constraints result i = filter (\<lambda>c. co_class_oid c = i) (ir_constraints result)"

definition foreign_key_of :: "introspection_result \<Rightarrow> oid \<Rightarrow> pg_constraint \<Rightarrow> pg_foreign_key option" where
  "foreign_key_of result i con =
     (case (co_foreign_class_oid con, co_foreign_key_attrs con) of
        (Some f, Some nums) \<Rightarrow>
          Some \<lparr>fk_name = co_name con, fk_columns = attr_names (\<lambda>_. True) (class_attrs result i) (co_key_attrs con),
                fk_foreign_class_oid = f,
                fk_foreign_columns = attr_names (\<lambda>a. at_class_oid a = f) (ir_attributes result) nums\<rparr>
      | _ \<Rightarrow> None)"

definition table_resource :: "introspection_result \<Rightarrow> pg_class \<Rightarrow> pg_resource" where
  "table_resource result cls =
     (let attrs = class_attrs result (cl_oid cls); cons = class_constraints result (cl_oid cls)
      in \<lparr>rs_class_oid = cl_oid cls,
          rs_schema = (case find (\<lambda>ns. ns_oid ns = cl_schema_oid cls) (rev (ir_namespaces result)) of
                         None \<Rightarrow> ''public'' | Some ns \<Rightarrow> ns_name ns),
          rs_table = cl_name cls,
          rs_columns = sort_key (\<lambda>c. sint (rc_ordinal c)) (map resource_column attrs),
          rs_primary_key = (case find (\<lambda>c. co_kind c = PrimaryKey) cons of
                              None \<Rightarrow> [] | Some con \<Rightarrow> attr_names (\<lambda>_. True) attrs (co_key_attrs con)),
          rs_foreign_keys = List.map_filter (foreign_key_of result (cl_oid cls)) (filter (\<lambda>c. co_kind c = ForeignKey) cons),
          rs_unique_constraints =
            map (\<lambda>con. attr_names (\<lambda>_. True) attrs (co_key_attrs con)) (filter (\<lambda>c. co_kind c = Unique) cons)\<rparr>)"

lemma extract_primary_key_find:
  "extract_primary_key cons attrs =
     (case find (\<lambda>c. co_kind c = PrimaryKey) cons of None \<Rightarrow> [] | Some con \<Rightarrow> attr_names (\<lambda>_. True) attrs (co_key_attrs con))"
  by (induction cons) auto

lemma extract_foreign_keys_filter:
  "extract_foreign_keys cons (class_attrs result i) (ir_attributes result) fks =
     fks @ List.map_filter (foreign_key_of result i) (filter (\<lambda>c. co_kind c = ForeignKey) cons)"
  by (induction cons arbitrary: fks) (auto simp: foreign_key_of_def map_filter_def split: option.splits)

lemma map_of_find: "map_of (map (\<lambda>x. (f x, x)) xs) k = find (\<lambda>x. f x = k) xs"
  by (induction xs) auto

lemma build_resource_eq:
  "build_pg_resource result (assoc_collect (map (\<lambda>ns. (ns_oid ns, ns)) (ir_namespaces result)))
     (assoc_group at_class_oid (ir_attributes result) []) (assoc_group co_class_oid (ir_constraints result) []) cls =
   table_resource result cls"
proof -
  have a: "(case map_of (assoc_group at_class_oid (ir_attributes result) []) (cl_oid cls) of None \<Rightarrow> [] | Some as \<Rightarrow> as) =
      class_attrs result (cl_oid cls)"
    by (simp add: assoc_group_default class_attrs_def)
  have c: "(case map_of (assoc_group co_class_oid (ir_constraints result) []) (cl_oid cls) of None \<Rightarrow> [] | Some cs \<Rightarrow> cs) =
      class_constraints result (cl_oid cls)"
    by (simp add: assoc_group_default class_constraints_def)
  show ?thesis
    unfolding build_pg_resource_def a c
    by (simp add: table_resource_def extract_primary_key_find extract_foreign_keys_filter extract_unique_constraints_def
        schema_name_of_def map_of_assoc_collect rev_map map_of_find Let_def)
qed

lemma from_introspection_eq:
  "from_introspection result =
     register_classes (table_resource result) (ir_classes result) \<lparr>rr_by_oid = [], rr_by_name = []\<rparr>"
  unfolding from_introspection_def Let_def build_resource_eq [THEN ext] ..

section \<open>Well-formedness\<close>

lemma attr_names_subset: "set (attr_names P attrs nums) \<subseteq> at_name ` {a \<in> set attrs. P a}"
  by (auto simp: attr_names_def in_set_map_filter find_Some_iff)

text \<open>Every key column of a resource is one of its columns, the columns are in ordinal order, and
  the referenced columns of a foreign key are columns of the referenced table.\<close>

definition resource_wf :: "introspection_result \<Rightarrow> pg_resource \<Rightarrow> bool" where
  "resource_wf result r \<longleftrightarrow>
     sorted (map (\<lambda>c. sint (rc_ordinal c)) (rs_columns r)) \<and>
     set (rs_primary_key r) \<subseteq> rc_name ` set (rs_columns r) \<and>
     (\<forall>uc \<in> set (rs_unique_constraints r). set uc \<subseteq> rc_name ` set (rs_columns r)) \<and>
     (\<forall>fk \<in> set (rs_foreign_keys r). set (fk_columns fk) \<subseteq> rc_name ` set (rs_columns r) \<and>
        set (fk_foreign_columns fk) \<subseteq> at_name ` set (class_attrs result (fk_foreign_class_oid fk)))"

definition registry_wf :: "introspection_result \<Rightarrow> pg_resource_registry \<Rightarrow> bool" where
  "registry_wf result reg \<longleftrightarrow>
     distinct (map fst (rr_by_oid reg)) \<and> distinct (map fst (rr_by_name reg)) \<and>
     (\<forall>(i, r) \<in> set (rr_by_oid reg). rs_class_oid r = i \<and> resource_wf result r) \<and>
     (\<forall>(n, i) \<in> set (rr_by_name reg). i \<in> fst ` set (rr_by_oid reg))"

lemma table_resource_wf: "resource_wf result (table_resource result cls)"
proof -
  let ?attrs = "class_attrs result (cl_oid cls)"
  let ?cols = "sort_key (\<lambda>c. sint (rc_ordinal c)) (map resource_column ?attrs)"
  have names: "rc_name ` set ?cols = at_name ` set ?attrs"
    by (auto simp: resource_column_def image_iff)
  have sub: "set (attr_names (\<lambda>_. True) ?attrs nums) \<subseteq> rc_name ` set ?cols" for nums
    using attr_names_subset [of "\<lambda>_. True" ?attrs nums] unfolding names by auto
  have f: "set (attr_names (\<lambda>a. at_class_oid a = f) (ir_attributes result) nums) \<subseteq> at_name ` set (class_attrs result f)"
    for f nums
    using attr_names_subset [of "\<lambda>a. at_class_oid a = f" "ir_attributes result" nums] by (auto simp: class_attrs_def)
  have fk: "set (fk_columns fk) \<subseteq> rc_name ` set ?cols \<and>
      set (fk_foreign_columns fk) \<subseteq> at_name ` set (class_attrs result (fk_foreign_class_oid fk))"
    if some: "foreign_key_of result (cl_oid cls) con = Some fk" for con fk
  proof -
    obtain g nums where fk: "fk = \<lparr>fk_name = co_name con, fk_columns = attr_names (\<lambda>_. True) ?attrs (co_key_attrs con),
        fk_foreign_class_oid = g, fk_foreign_columns = attr_names (\<lambda>a. at_class_oid a = g) (ir_attributes result) nums\<rparr>"
      using some by (auto simp: foreign_key_of_def split: option.splits)
    show ?thesis unfolding fk using sub [of "co_key_attrs con"] f [of g nums] by simp
  qed
  define r where "r = table_resource result cls"
  have cols: "rs_columns r = ?cols" by (simp add: r_def table_resource_def Let_def)
  have "set (rs_primary_key r) \<subseteq> rc_name ` set ?cols"
    using sub by (cases "find (\<lambda>c. co_kind c = PrimaryKey) (class_constraints result (cl_oid cls))")
      (simp_all add: r_def table_resource_def Let_def del: set_sort set_map)
  moreover have "\<forall>uc \<in> set (rs_unique_constraints r). set uc \<subseteq> rc_name ` set ?cols"
    using sub by (simp add: r_def table_resource_def Let_def del: set_sort)
  moreover have "\<forall>fk \<in> set (rs_foreign_keys r). \<exists>con. foreign_key_of result (cl_oid cls) con = Some fk"
    by (auto simp: r_def table_resource_def Let_def in_set_map_filter)
  ultimately show ?thesis
    unfolding resource_wf_def r_def [symmetric] cols using fk by (simp del: set_sort set_map) blast
qed

lemma assoc_insert_mem: "(k', v') \<in> set (assoc_insert k v m) \<Longrightarrow> (k', v') = (k, v) \<or> (k', v') \<in> set m"
  by (induction m) (auto split: if_splits)

lemma assoc_insert_keys: "fst ` set (assoc_insert k v m) = insert k (fst ` set m)"
  using arg_cong [OF keys_assoc_insert [of k v m], of set] by (auto split: if_splits)

lemma register_classes_wf: "registry_wf result reg \<Longrightarrow> registry_wf result (register_classes (table_resource result) clss reg)"
proof (induction clss arbitrary: reg)
  case (Cons cls clss)
  have "registry_wf result \<lparr>rr_by_oid = assoc_insert (cl_oid cls) (table_resource result cls) (rr_by_oid reg),
     rr_by_name = assoc_insert n (cl_oid cls) (rr_by_name reg)\<rparr>" for n
  proof -
    have "rs_class_oid (table_resource result cls) = cl_oid cls" by (simp add: table_resource_def Let_def)
    with Cons.prems table_resource_wf [of result cls] show ?thesis
      unfolding registry_wf_def
      by (auto simp: distinct_assoc_insert assoc_insert_keys dest!: assoc_insert_mem) (force+)?
  qed
  with Cons show ?case by (simp add: Let_def)
qed simp

section \<open>Lookups\<close>

definition qualified_name :: "introspection_result \<Rightarrow> pg_class \<Rightarrow> string" where
  "qualified_name result cls = rs_schema (table_resource result cls) @ ''.'' @ cl_name cls"

lemma register_classes_maps:
  "map_of (rr_by_oid (register_classes (table_resource result) clss reg)) =
     map_of (rr_by_oid reg) ++
     map_of (rev (map (\<lambda>c. (cl_oid c, table_resource result c)) (filter (\<lambda>c. cl_kind c = KTable) clss)))"
  "map_of (rr_by_name (register_classes (table_resource result) clss reg)) =
     map_of (rr_by_name reg) ++
     map_of (rev (map (\<lambda>c. (qualified_name result c, cl_oid c)) (filter (\<lambda>c. cl_kind c = KTable) clss)))"
  by (induction clss arbitrary: reg)
    (auto simp: Let_def qualified_name_def map_add_def fun_eq_iff split: option.splits)

definition tables :: "introspection_result \<Rightarrow> pg_class list" where
  "tables result = filter (\<lambda>c. cl_kind c = KTable) (ir_classes result)"

lemma map_of_rev_map_iff:
  assumes "distinct (map f xs)"
  shows "map_of (rev (map (\<lambda>x. (f x, g x)) xs)) k = Some v \<longleftrightarrow> (\<exists>x \<in> set xs. f x = k \<and> g x = v)"
proof -
  have "distinct (map fst (map (\<lambda>x. (f x, g x)) xs))" using assms by (simp add: o_def)
  then show ?thesis by (simp add: map_of_rev map_of_eq_Some_iff) (auto simp: image_iff)
qed

section \<open>Properties\<close>

text \<open>C35: the registry built from any introspection result is well formed. Its keys are distinct,
  every resource is filed under its own table OID and every name leads to a registered
  resource; within a resource the columns are in the order of their ordinals, and the columns
  of the primary key, the unique constraints and the foreign keys are columns of the table,
  the referenced columns being columns of the referenced table.\<close>

theorem registry_well_formed: "registry_wf result (from_introspection result)"
  unfolding from_introspection_eq by (rule register_classes_wf) (simp add: registry_wf_def)

text \<open>C36: lookups are exact. When OIDs and qualified names are unique, a lookup by OID finds exactly
  the ordinary table of that OID, a lookup by schema and name exactly the table of that
  qualified name; views and other relations are found by neither; and the number of resources
  is the number of tables.\<close>

theorem registry_lookup_exact:
  assumes "distinct (map cl_oid (ir_classes result))" and "distinct (map (qualified_name result) (tables result))"
  shows "(get_by_oid (from_introspection result) i = Some r \<longleftrightarrow>
      (\<exists>cls \<in> set (tables result). cl_oid cls = i \<and> r = table_resource result cls)) \<and>
    (get_by_name (from_introspection result) schema table = Some r \<longleftrightarrow>
      (\<exists>cls \<in> set (tables result). qualified_name result cls = schema @ ''.'' @ table \<and> r = table_resource result cls)) \<and>
    registry_len (from_introspection result) = length (tables result)"
proof -
  let ?reg = "from_introspection result"
  have oids: "distinct (map cl_oid (tables result))"
    using assms(1) unfolding tables_def by (rule distinct_map_filter)
  have by_oid: "map_of (rr_by_oid ?reg) i = Some r \<longleftrightarrow> (\<exists>cls \<in> set (tables result). cl_oid cls = i \<and> table_resource result cls = r)" for i r
    using map_of_rev_map_iff [OF oids] by (simp add: from_introspection_eq register_classes_maps tables_def)
  have by_name: "map_of (rr_by_name ?reg) n = Some j \<longleftrightarrow> (\<exists>cls \<in> set (tables result). qualified_name result cls = n \<and> cl_oid cls = j)" for n j
    using map_of_rev_map_iff [OF assms(2)] by (simp add: from_introspection_eq register_classes_maps tables_def)
  have inj: "cls = cls'" if "cls \<in> set (tables result)" "cls' \<in> set (tables result)" "cl_oid cls = cl_oid cls'" for cls cls'
    using oids that by (auto simp: distinct_map inj_on_def)
  have "get_by_name ?reg schema table = Some r \<longleftrightarrow>
      (\<exists>j. map_of (rr_by_name ?reg) (schema @ ''.'' @ table) = Some j \<and> map_of (rr_by_oid ?reg) j = Some r)"
    by (auto simp: get_by_name_def split: option.splits)
  also have "\<dots> \<longleftrightarrow> (\<exists>cls \<in> set (tables result). qualified_name result cls = schema @ ''.'' @ table \<and> r = table_resource result cls)"
    unfolding by_name by_oid using inj by blast
  finally have name: "get_by_name ?reg schema table = Some r \<longleftrightarrow> \<dots>" .
  have "distinct (map fst (rr_by_oid ?reg))"
    using register_classes_wf [of result "\<lparr>rr_by_oid = [], rr_by_name = []\<rparr>" "ir_classes result"]
    by (simp add: from_introspection_eq registry_wf_def)
  then have "length (rr_by_oid ?reg) = card (fst ` set (rr_by_oid ?reg))"
    by (metis distinct_card length_map list.set_map)
  also have "fst ` set (rr_by_oid ?reg) = cl_oid ` set (tables result)"
    using by_oid by (auto simp: dom_map_of_conv_image_fst [symmetric] dom_def)
  also have "card \<dots> = length (tables result)" using oids by (metis distinct_card length_map list.set_map)
  finally have "registry_len ?reg = length (tables result)" by (simp add: registry_len_def)
  moreover have "get_by_oid ?reg i = Some r \<longleftrightarrow> (\<exists>cls \<in> set (tables result). cl_oid cls = i \<and> r = table_resource result cls)"
    by (auto simp: get_by_oid_def by_oid)
  ultimately show ?thesis using name by blast
qed

text \<open>Two tables and a view of one schema; posts refer to users.\<close>

definition demo_catalog :: introspection_result where
  "demo_catalog =
    \<lparr>ir_namespaces = [namespace_of_row 2200 ''public''],
     ir_classes = [class_of_row 100 ''users'' 2200 ''r'' True, class_of_row 200 ''posts'' 2200 ''r'' False,
       class_of_row 300 ''active_users'' 2200 ''v'' False],
     ir_attributes = [attribute_of_row 100 ''email'' 25 2 True False False, attribute_of_row 100 ''id'' 2950 1 True True False,
       attribute_of_row 200 ''id'' 2950 1 True True False, attribute_of_row 200 ''author_id'' 2950 2 True False False],
     ir_constraints = [constraint_of_row 1000 ''users_pkey'' 100 ''p'' [1] 0 None '' '' '' '',
       constraint_of_row 3000 ''posts_author_fkey'' 200 ''f'' [2] 100 (Some [1]) ''c'' ''a'',
       constraint_of_row 4000 ''users_email_key'' 100 ''u'' [2] 0 None '' '' '' ''],
     ir_procs = [], ir_types = [], ir_enums = [], ir_indexes = [], ir_descriptions = []\<rparr>"

theorem registry_lookup_exact_witness:
  "map_option rs_table (get_by_oid (from_introspection demo_catalog) 100) = Some ''users'' \<and>
   get_by_name (from_introspection demo_catalog) ''public'' ''active_users'' = None \<and>
   registry_len (from_introspection demo_catalog) = 2 \<and>
   column_names (from_introspection demo_catalog) ''public'' ''users'' = [''id'', ''email'']"
proof -
  let ?users = "class_of_row 100 ''users'' 2200 ''r'' True"
  have d: "distinct (map cl_oid (ir_classes demo_catalog))" "distinct (map (qualified_name demo_catalog) (tables demo_catalog))"
    by code_simp+
  note exact = registry_lookup_exact [OF d]
  have t: "tables demo_catalog = [?users, class_of_row 200 ''posts'' 2200 ''r'' False]" by code_simp
  have "get_by_oid (from_introspection demo_catalog) 100 = Some (table_resource demo_catalog ?users)"
    using exact [of 100 "table_resource demo_catalog ?users" "[]" "[]"] t by (simp add: class_of_row_def as_u32_def)
  moreover have "rs_table (table_resource demo_catalog ?users) = ''users''" by code_simp
  moreover have "get_by_name (from_introspection demo_catalog) ''public'' ''active_users'' \<noteq> Some r" for r
  proof -
    have "\<forall>cls \<in> set (tables demo_catalog). qualified_name demo_catalog cls \<noteq> ''public'' @ ''.'' @ ''active_users''"
      by code_simp
    then show ?thesis using exact [of 0 r "''public''" "''active_users''"] by blast
  qed
  moreover have "registry_len (from_introspection demo_catalog) = 2"
    using exact [of 0 undefined "[]" "[]"] t by simp
  moreover have "column_names (from_introspection demo_catalog) ''public'' ''users'' = [''id'', ''email'']" by code_simp
  ultimately show ?thesis by (cases "get_by_name (from_introspection demo_catalog) ''public'' ''active_users''") auto
qed

text \<open>The key \<^verbatim>\<open>schema.table\<close> is ambiguous when identifiers contain dots.\<close>

theorem dotted_names_collide:
  "get_by_name (from_introspection \<lparr>ir_namespaces = [namespace_of_row 1 ''a.b''],
       ir_classes = [class_of_row 10 ''c'' 1 ''r'' False], ir_attributes = [], ir_constraints = [], ir_procs = [],
       ir_types = [], ir_enums = [], ir_indexes = [], ir_descriptions = []\<rparr>) ''a'' ''b.c'' \<noteq> None"
  by code_simp

end
