(* ===== verification/Build_Gather.thy ===== *)
theory Build_Gather
  imports Build_Naming Config_Preset Dp_Registry "HOL-Library.Char_ord" "HOL-Library.List_Lexorder"
begin

text \<open>
  \<^verbatim>\<open>magna-build\<close>: the intermediate representation (\<^verbatim>\<open>ir.rs\<close>) and the gather phase (\<^verbatim>\<open>gather.rs\<close>), which
  turns an introspection result and a preset into the resources, relations, behaviours and
  enums the schema is generated from. Sorting follows the byte order of names and, for enum
  labels, the order of their \<^verbatim>\<open>f32\<close> positions (which are numbers, not NaN, in a catalog).
\<close>

unbundle bit_operations_syntax

section \<open>Intermediate representation\<close>

datatype resource_kind = RTable | RView | RFunction

record resolved_column =
  cv_pg_name :: string
  cv_gql_name :: string
  cv_type_oid :: oid
  cv_gql_type :: string
  cv_is_not_null :: bool
  cv_has_default :: bool

record resolved_resource =
  rv_name :: string
  rv_schema :: string
  rv_table :: string
  rv_kind :: resource_kind
  rv_columns :: "resolved_column list"
  rv_primary_key :: "string list"
  rv_unique_constraints :: "string list list"
  rv_class_oid :: oid

record resolved_relation =
  rl_name :: string
  rl_source_resource :: string
  rl_source_columns :: "string list"
  rl_target_resource :: string
  rl_target_columns :: "string list"
  rl_is_unique :: bool

record resolved_enum =
  ev_name :: string
  ev_values :: "string list"
  ev_pg_type_oid :: oid

type_synonym behavior_set = "16 word"

definition B_CONNECTION :: "16 word" where "B_CONNECTION = 0b00000001"
definition B_SELECT_ONE :: "16 word" where "B_SELECT_ONE = 0b00000010"
definition B_INSERT :: "16 word" where "B_INSERT = 0b00000100"
definition B_UPDATE :: "16 word" where "B_UPDATE = 0b00001000"
definition B_DELETE :: "16 word" where "B_DELETE = 0b00010000"
definition B_FILTER :: "16 word" where "B_FILTER = 0b00100000"
definition B_ORDER_BY :: "16 word" where "B_ORDER_BY = 0b01000000"

definition ALL_FLAGS :: "16 word" where
  "ALL_FLAGS = B_CONNECTION OR B_SELECT_ONE OR B_INSERT OR B_UPDATE OR B_DELETE OR B_FILTER OR B_ORDER_BY"

definition table_defaults :: behavior_set where
  "table_defaults = ALL_FLAGS"

definition view_defaults :: behavior_set where
  "view_defaults = B_CONNECTION OR B_SELECT_ONE OR B_FILTER OR B_ORDER_BY"

definition behavior_has :: "behavior_set \<Rightarrow> 16 word \<Rightarrow> bool" where
  "behavior_has b flag \<longleftrightarrow> b AND flag \<noteq> 0"

definition behavior_add :: "behavior_set \<Rightarrow> 16 word \<Rightarrow> behavior_set" where
  "behavior_add b flag = b OR flag"

definition behavior_remove :: "behavior_set \<Rightarrow> 16 word \<Rightarrow> behavior_set" where
  "behavior_remove b flag = b AND NOT flag"

definition flag_from_name :: "string \<Rightarrow> 16 word option" where
  "flag_from_name name =
     (if name = ''connection'' \<or> name = ''many'' then Some B_CONNECTION
      else if name = ''select'' \<or> name = ''selectOne'' then Some B_SELECT_ONE
      else if name = ''insert'' \<or> name = ''create'' then Some B_INSERT
      else if name = ''update'' then Some B_UPDATE
      else if name = ''delete'' then Some B_DELETE
      else if name = ''filter'' then Some B_FILTER
      else if name = ''order'' \<or> name = ''orderBy'' then Some B_ORDER_BY
      else if name = ''all'' then Some ALL_FLAGS
      else None)"

record 'm gather_output =
  go_resources :: "resolved_resource list"
  go_relations :: "resolved_relation list"
  go_behaviors :: "(string \<times> behavior_set) list"
  go_enums :: "resolved_enum list"
  go_plugin_metadata :: 'm

section \<open>Gathering\<close>

definition resolve_schema_oids :: "introspection_result \<Rightarrow> string list \<Rightarrow> oid list" where
  "resolve_schema_oids intro schemas =
     map ns_oid (filter (\<lambda>ns. list_ex (\<lambda>s. s = ns_name ns) schemas) (ir_namespaces intro))"

type_synonym desc_map = "((oid \<times> 32 word) \<times> string) list"

definition build_description_map :: "pg_description list \<Rightarrow> desc_map" where
  "build_description_map ds = assoc_collect (map (\<lambda>d. ((de_obj_oid d, de_obj_sub_id d), de_description d)) ds)"

definition resolved_column_of :: "pg_attribute \<Rightarrow> resolved_column" where
  "resolved_column_of attr =
     \<lparr>cv_pg_name = at_name attr, cv_gql_name = to_field_name (at_name attr), cv_type_oid = at_type_oid attr,
      cv_gql_type =
        (let base = unwrap_or (pg_oid_to_gql_type (at_type_oid attr)) ''String''
         in if at_is_not_null attr then base @ ''!'' else base),
      cv_is_not_null = at_is_not_null attr, cv_has_default = at_has_default attr\<rparr>"

definition build_resource :: "pg_class \<Rightarrow> introspection_result \<Rightarrow> desc_map \<Rightarrow> resolved_resource" where
  "build_resource cls intro descs =
     (let schema = (case find (\<lambda>ns. ns_oid ns = cl_schema_oid cls) (ir_namespaces intro) of
                      None \<Rightarrow> ''public'' | Some ns \<Rightarrow> ns_name ns);
          attrs = sort_key at_name
                    (filter (\<lambda>a. at_class_oid a = cl_oid cls \<and> 0 < sint (at_num a)) (ir_attributes intro));
          constraints = filter (\<lambda>c. co_class_oid c = cl_oid cls) (ir_constraints intro);
          names = attr_names (\<lambda>a. at_class_oid a = cl_oid cls) (ir_attributes intro);
          name = (case map_of descs (cl_oid cls, 0) of
                    None \<Rightarrow> to_type_name (cl_name cls)
                  | Some comment \<Rightarrow>
                      (case tag_name_override (parse_smart_tags comment) of
                         None \<Rightarrow> to_type_name (cl_name cls) | Some n \<Rightarrow> n))
      in \<lparr>rv_name = name, rv_schema = schema, rv_table = cl_name cls,
          rv_kind = (case cl_kind cls of KTable \<Rightarrow> RTable | _ \<Rightarrow> RView),
          rv_columns = map resolved_column_of attrs,
          rv_primary_key = (case find (\<lambda>c. co_kind c = PrimaryKey) constraints of
                              None \<Rightarrow> [] | Some con \<Rightarrow> names (co_key_attrs con)),
          rv_unique_constraints = map (\<lambda>con. names (co_key_attrs con)) (filter (\<lambda>c. co_kind c = Unique) constraints),
          rv_class_oid = cl_oid cls\<rparr>)"

fun gather_resources :: "(pg_class \<Rightarrow> resolved_resource) \<Rightarrow> oid list \<Rightarrow> (oid \<times> string) list \<Rightarrow> exposure \<Rightarrow>
    pg_class list \<Rightarrow> resolved_resource list \<Rightarrow> resolved_resource list" where
  "gather_resources mk schema_oids schema_names e [] resources = resources"
| "gather_resources mk schema_oids schema_names e (cls # clss) resources =
     (if cl_kind cls \<noteq> KTable \<and> cl_kind cls \<noteq> KView then gather_resources mk schema_oids schema_names e clss resources
      else if cl_schema_oid cls \<notin> set schema_oids then gather_resources mk schema_oids schema_names e clss resources
      else if \<not> allows e (unwrap_or (map_of schema_names (cl_schema_oid cls)) []) (cl_name cls)
      then gather_resources mk schema_oids schema_names e clss resources
      else gather_resources mk schema_oids schema_names e clss (resources @ [mk cls]))"

definition is_unique_fk :: "resolved_resource \<Rightarrow> string list \<Rightarrow> bool" where
  "is_unique_fk src cols \<longleftrightarrow>
     rv_primary_key src \<noteq> [] \<and> set (rv_primary_key src) = set cols \<or>
     list_ex (\<lambda>uc. set uc = set cols) (rv_unique_constraints src)"

text \<open>One foreign key constraint, with the chain of \<^verbatim>\<open>continue\<close> as \<open>None\<close>.\<close>

definition relation_of :: "introspection_result \<Rightarrow> oid list \<Rightarrow> (oid \<times> resolved_resource) list \<Rightarrow> (oid \<times> oid) list \<Rightarrow>
    pg_constraint \<Rightarrow> resolved_relation option" where
  "relation_of intro schema_oids by_oid class_schema con =
     (if co_kind con \<noteq> ForeignKey then None
      else case (co_foreign_class_oid con, co_foreign_key_attrs con) of
        (Some foreign, Some foreign_attrs) \<Rightarrow>
          (let src_schema = unwrap_or (map_of class_schema (co_class_oid con)) 0;
               tgt_schema = unwrap_or (map_of class_schema foreign) 0
           in if src_schema \<notin> set schema_oids \<or> tgt_schema \<notin> set schema_oids then None
              else case (map_of by_oid (co_class_oid con), map_of by_oid foreign) of
                (Some src, Some tgt) \<Rightarrow>
                  (let source_columns = attr_names (\<lambda>a. at_class_oid a = co_class_oid con) (ir_attributes intro) (co_key_attrs con);
                       target_columns = attr_names (\<lambda>a. at_class_oid a = foreign) (ir_attributes intro) foreign_attrs
                   in Some \<lparr>rl_name = co_name con, rl_source_resource = rv_name src, rl_source_columns = source_columns,
                            rl_target_resource = rv_name tgt, rl_target_columns = target_columns,
                            rl_is_unique = is_unique_fk src source_columns\<rparr>)
              | _ \<Rightarrow> None)
      | _ \<Rightarrow> None)"

definition build_relations :: "introspection_result \<Rightarrow> oid list \<Rightarrow> resolved_resource list \<Rightarrow> resolved_relation list" where
  "build_relations intro schema_oids resources =
     List.map_filter
       (relation_of intro schema_oids (assoc_collect (map (\<lambda>r. (rv_class_oid r, r)) resources))
          (assoc_collect (map (\<lambda>c. (cl_oid c, cl_schema_oid c)) (ir_classes intro))))
       (ir_constraints intro)"

text \<open>The order of \<^verbatim>\<open>f32\<close> numbers on their IEEE bits.\<close>

definition f32_key :: "32 word \<Rightarrow> int" where
  "f32_key w = (let m = uint (w AND 0x7FFFFFFF) in if bit w 31 then - m else m)"

definition build_enums :: "introspection_result \<Rightarrow> oid list \<Rightarrow> resolved_enum list" where
  "build_enums intro schema_oids =
     map (\<lambda>t. \<lparr>ev_name = to_type_name (ty_name t),
               ev_values = map en_label (sort_key (\<lambda>e. f32_key (en_sort_order e))
                 (filter (\<lambda>e. en_type_oid e = ty_oid t) (ir_enums intro))),
               ev_pg_type_oid = ty_oid t\<rparr>)
       (filter (\<lambda>t. ty_is_enum t \<and> ty_schema_oid t \<in> set schema_oids) (ir_types intro))"

text \<open>The three loops over the tags of a resource: a name that is no flag is skipped.\<close>

definition apply_flags :: "(behavior_set \<Rightarrow> 16 word \<Rightarrow> behavior_set) \<Rightarrow> string list \<Rightarrow> behavior_set \<Rightarrow> behavior_set" where
  "apply_flags f names b = foldl f b (List.map_filter flag_from_name names)"

definition resource_behaviors :: "desc_map \<Rightarrow> resolved_resource \<Rightarrow> behavior_set" where
  "resource_behaviors descs r =
     (let bs = (case rv_kind r of RTable \<Rightarrow> table_defaults | RView \<Rightarrow> view_defaults | RFunction \<Rightarrow> view_defaults)
      in case map_of descs (rv_class_oid r, 0) of
           None \<Rightarrow> bs
         | Some comment \<Rightarrow>
             (let tags = parse_smart_tags comment
              in apply_flags behavior_remove (tag_behavior_remove tags)
                   (apply_flags behavior_add (tag_behavior_add tags)
                     (apply_flags behavior_remove (tag_omit tags) bs))))"

definition gather :: "introspection_result \<Rightarrow> 'm \<Rightarrow> 'm preset \<Rightarrow> 'e + 'm gather_output" where
  "gather intro empty_metadata p =
     (let schema_oids = resolve_schema_oids intro (pg_schemas p);
          schema_names = assoc_collect (map (\<lambda>ns. (ns_oid ns, ns_name ns)) (ir_namespaces intro));
          descs = build_description_map (ir_descriptions intro);
          resources = gather_resources (\<lambda>cls. build_resource cls intro descs) schema_oids schema_names
            (preset_exposure p) (ir_classes intro) []
      in Inr \<lparr>go_resources = resources,
              go_relations = build_relations intro schema_oids resources,
              go_behaviors = assoc_collect (map (\<lambda>r. (rv_name r, resource_behaviors descs r)) resources),
              go_enums = build_enums intro schema_oids,
              go_plugin_metadata =
                gc_metadata (foldl (\<lambda>ctx pl. gather_hook pl ctx) \<lparr>gc_metadata = empty_metadata\<rparr> (preset_plugins p))\<rparr>)"

section \<open>The generated surface\<close>

text \<open>A relation that may be reached: a table or view of a configured schema that the exposure
  policy admits.\<close>

definition exposed :: "introspection_result \<Rightarrow> 'm preset \<Rightarrow> pg_class \<Rightarrow> bool" where
  "exposed intro p cls \<longleftrightarrow>
     (cl_kind cls = KTable \<or> cl_kind cls = KView) \<and>
     (\<exists>ns \<in> set (ir_namespaces intro). ns_oid ns = cl_schema_oid cls \<and> ns_name ns \<in> set (pg_schemas p) \<and>
        allows (preset_exposure p) (ns_name ns) (cl_name cls))"

definition exposed_classes :: "introspection_result \<Rightarrow> 'm preset \<Rightarrow> pg_class list" where
  "exposed_classes intro p = filter (exposed intro p) (ir_classes intro)"

abbreviation gathered_resources :: "introspection_result \<Rightarrow> 'm preset \<Rightarrow> resolved_resource list" where
  "gathered_resources intro p \<equiv>
     map (\<lambda>cls. build_resource cls intro (build_description_map (ir_descriptions intro))) (exposed_classes intro p)"

lemma gather_resources_filter:
  "gather_resources mk so sn e clss acc =
     acc @ map mk (filter (\<lambda>cls. (cl_kind cls = KTable \<or> cl_kind cls = KView) \<and> cl_schema_oid cls \<in> set so \<and>
       allows e (unwrap_or (map_of sn (cl_schema_oid cls)) []) (cl_name cls)) clss)"
  by (induction clss arbitrary: acc) auto

lemma schema_oids_iff: "i \<in> set (resolve_schema_oids intro ss) \<longleftrightarrow> (\<exists>ns \<in> set (ir_namespaces intro). ns_oid ns = i \<and> ns_name ns \<in> set ss)"
  by (auto simp: resolve_schema_oids_def list_ex_iff)

lemma schema_names_get:
  assumes "distinct (map ns_oid (ir_namespaces intro))" and "ns \<in> set (ir_namespaces intro)"
  shows "map_of (assoc_collect (map (\<lambda>ns. (ns_oid ns, ns_name ns)) (ir_namespaces intro))) (ns_oid ns) = Some (ns_name ns)"
  using assms map_of_rev_map_iff [OF assms(1), of ns_name "ns_oid ns" "ns_name ns"] by (auto simp: map_of_assoc_collect)

lemma gather_resources_exposed:
  assumes ns: "distinct (map ns_oid (ir_namespaces intro))"
  shows "gather_resources mk (resolve_schema_oids intro (pg_schemas p))
     (assoc_collect (map (\<lambda>ns. (ns_oid ns, ns_name ns)) (ir_namespaces intro))) (preset_exposure p) (ir_classes intro) [] =
   map mk (exposed_classes intro p)"
proof -
  let ?sn = "assoc_collect (map (\<lambda>ns. (ns_oid ns, ns_name ns)) (ir_namespaces intro))"
  have gate: "cl_schema_oid cls \<in> set (resolve_schema_oids intro (pg_schemas p)) \<and>
      allows (preset_exposure p) (unwrap_or (map_of ?sn (cl_schema_oid cls)) []) (cl_name cls) \<longleftrightarrow>
    (\<exists>ns \<in> set (ir_namespaces intro). ns_oid ns = cl_schema_oid cls \<and> ns_name ns \<in> set (pg_schemas p) \<and>
      allows (preset_exposure p) (ns_name ns) (cl_name cls))" for cls
  proof -
    have "map_of ?sn (cl_schema_oid cls) = Some (ns_name n)"
      if "n \<in> set (ir_namespaces intro)" "ns_oid n = cl_schema_oid cls" for n
      using schema_names_get [OF ns that(1)] that(2) by simp
    then show ?thesis unfolding schema_oids_iff by (fastforce simp: unwrap_or_def)
  qed
  show ?thesis
    unfolding gather_resources_filter exposed_classes_def exposed_def gate by simp
qed

lemma build_resource_oid [simp]: "rv_class_oid (build_resource cls intro descs) = cl_oid cls"
  by (simp add: build_resource_def Let_def)

text \<open>A foreign key that becomes a relation.\<close>

definition joins_exposed :: "introspection_result \<Rightarrow> 'm preset \<Rightarrow> pg_constraint \<Rightarrow> bool" where
  "joins_exposed intro p con \<longleftrightarrow>
     co_kind con = ForeignKey \<and> co_foreign_key_attrs con \<noteq> None \<and>
     co_class_oid con \<in> cl_oid ` set (exposed_classes intro p) \<and>
     co_foreign_class_oid con \<in> Some ` cl_oid ` set (exposed_classes intro p)"

text \<open>A relation of two gathered resources, as its constraint says.\<close>

definition relation_for :: "introspection_result \<Rightarrow> resolved_resource list \<Rightarrow> pg_constraint \<Rightarrow> resolved_relation \<Rightarrow> bool" where
  "relation_for intro resources con rel \<longleftrightarrow>
     rl_name rel = co_name con \<and>
     (\<exists>src \<in> set resources. \<exists>tgt \<in> set resources.
        rv_class_oid src = co_class_oid con \<and> Some (rv_class_oid tgt) = co_foreign_class_oid con \<and>
        rl_source_resource rel = rv_name src \<and> rl_target_resource rel = rv_name tgt \<and>
        rl_source_columns rel = attr_names (\<lambda>a. at_class_oid a = rv_class_oid src) (ir_attributes intro) (co_key_attrs con) \<and>
        rl_target_columns rel = attr_names (\<lambda>a. at_class_oid a = rv_class_oid tgt) (ir_attributes intro)
          (the (co_foreign_key_attrs con)) \<and>
        (rl_is_unique rel \<longleftrightarrow> is_unique_fk src (rl_source_columns rel)))"

lemma list_all2_map_filter:
  assumes "\<And>x. x \<in> set xs \<Longrightarrow> case f x of None \<Rightarrow> \<not> P x | Some y \<Rightarrow> P x \<and> R x y"
  shows "list_all2 R (filter P xs) (List.map_filter f xs)"
  using assms
proof (induction xs)
  case (Cons x xs)
  then have "list_all2 R (filter P xs) (List.map_filter f xs)" by simp
  moreover have "case f x of None \<Rightarrow> \<not> P x | Some y \<Rightarrow> P x \<and> R x y" using Cons.prems by simp
  ultimately show ?case by (cases "f x") (simp_all add: map_filter_def)
qed (simp add: map_filter_def)

lemma relation_of_exposed:
  fixes p :: "'m preset"
  assumes ns: "distinct (map ns_oid (ir_namespaces intro))" and oids: "distinct (map cl_oid (ir_classes intro))"
  defines "resources \<equiv> gathered_resources intro p"
  shows "case relation_of intro (resolve_schema_oids intro (pg_schemas p))
      (assoc_collect (map (\<lambda>r. (rv_class_oid r, r)) resources))
      (assoc_collect (map (\<lambda>c. (cl_oid c, cl_schema_oid c)) (ir_classes intro))) con of
    None \<Rightarrow> \<not> joins_exposed intro p con | Some rel \<Rightarrow> joins_exposed intro p con \<and> relation_for intro resources con rel"
proof -
  define by_oid where "by_oid = assoc_collect (map (\<lambda>r. (rv_class_oid r, r)) resources)"
  define class_schema where "class_schema = assoc_collect (map (\<lambda>c. (cl_oid c, cl_schema_oid c)) (ir_classes intro))"
  have d: "distinct (map rv_class_oid resources)"
    using distinct_map_filter [OF oids] by (simp add: resources_def exposed_classes_def o_def)
  have by_Some: "map_of by_oid i = Some r \<longleftrightarrow> r \<in> set resources \<and> rv_class_oid r = i" for i r
    using map_of_rev_map_iff [OF d, of id i r] by (auto simp: by_oid_def map_of_assoc_collect)
  have oids_eq: "rv_class_oid ` set resources = cl_oid ` set (exposed_classes intro p)"
    by (auto simp: resources_def image_iff)
  have by_None: "map_of by_oid i = None \<longleftrightarrow> i \<notin> cl_oid ` set (exposed_classes intro p)" for i
    unfolding oids_eq [symmetric] using by_Some [of i] by (cases "map_of by_oid i") (auto simp: image_iff, metis)
  have sch: "unwrap_or (map_of class_schema i) 0 \<in> set (resolve_schema_oids intro (pg_schemas p))"
    if "i \<in> cl_oid ` set (exposed_classes intro p)" for i
  proof -
    from that obtain c where c: "c \<in> set (ir_classes intro)" "exposed intro p c" "cl_oid c = i"
      by (auto simp: exposed_classes_def)
    then have "map_of class_schema i = Some (cl_schema_oid c)"
      using map_of_rev_map_iff [OF oids, of cl_schema_oid i "cl_schema_oid c"]
      by (auto simp: class_schema_def map_of_assoc_collect)
    with c(2) show ?thesis by (auto simp: schema_oids_iff exposed_def unwrap_or_def)
  qed
  show ?thesis
    unfolding by_oid_def [symmetric] class_schema_def [symmetric]
  proof (cases "joins_exposed intro p con")
    case False
    then have "relation_of intro (resolve_schema_oids intro (pg_schemas p)) by_oid class_schema con = None"
      using by_None [of "co_class_oid con"] by_None [of "the (co_foreign_class_oid con)"]
      by (auto simp: relation_of_def joins_exposed_def Let_def split: option.splits)
    with False show "case relation_of intro (resolve_schema_oids intro (pg_schemas p)) by_oid class_schema con of
        None \<Rightarrow> \<not> joins_exposed intro p con | Some rel \<Rightarrow> joins_exposed intro p con \<and> relation_for intro resources con rel"
      by simp
  next
    case True
    then obtain f nums where con: "co_kind con = ForeignKey" "co_foreign_class_oid con = Some f" "co_foreign_key_attrs con = Some nums"
        "co_class_oid con \<in> cl_oid ` set (exposed_classes intro p)" "f \<in> cl_oid ` set (exposed_classes intro p)"
      by (auto simp: joins_exposed_def)
    then obtain src tgt where st: "map_of by_oid (co_class_oid con) = Some src" "map_of by_oid f = Some tgt"
      using by_None [of "co_class_oid con"] by_None [of f] by auto
    with by_Some have r: "src \<in> set resources" "rv_class_oid src = co_class_oid con" "tgt \<in> set resources" "rv_class_oid tgt = f"
      by auto
    have schemas: "unwrap_or (map_of class_schema (co_class_oid con)) 0 \<in> set (resolve_schema_oids intro (pg_schemas p))"
      "unwrap_or (map_of class_schema f) 0 \<in> set (resolve_schema_oids intro (pg_schemas p))"
      using sch con(4,5) by blast+
    show "case relation_of intro (resolve_schema_oids intro (pg_schemas p)) by_oid class_schema con of
        None \<Rightarrow> \<not> joins_exposed intro p con | Some rel \<Rightarrow> joins_exposed intro p con \<and> relation_for intro resources con rel"
      using True con(1-3) st schemas r
      by (simp add: relation_of_def Let_def relation_for_def) (intro bexI [of _ src] bexI [of _ tgt] conjI; simp)
  qed
qed

section \<open>Behaviours\<close>

lemma behavior_bit_add: "bit (apply_flags behavior_add names b) n \<longleftrightarrow>
    bit b n \<or> (\<exists>name \<in> set names. \<exists>f. flag_from_name name = Some f \<and> bit f n)"
proof -
  have "bit (foldl behavior_add b fs) n \<longleftrightarrow> bit b n \<or> (\<exists>f \<in> set fs. bit f n)" for fs
    by (induction fs arbitrary: b) (auto simp: behavior_add_def bit_or_iff)
  then show ?thesis by (simp add: apply_flags_def in_set_map_filter Bex_def) (blast+)?
qed

lemma behavior_bit_remove: "bit (apply_flags behavior_remove names b) n \<longleftrightarrow>
    bit b n \<and> \<not> (\<exists>name \<in> set names. \<exists>f. flag_from_name name = Some f \<and> bit f n)"
proof -
  have "bit (foldl behavior_remove b fs) n \<longleftrightarrow> bit b n \<and> \<not> (\<exists>f \<in> set fs. bit f n)" for fs
  proof (induction fs arbitrary: b)
    case (Cons f fs)
    have "bit b n \<Longrightarrow> n < 16" using bit_imp_le_length [of b n] by simp
    then have "bit (behavior_remove b f) n \<longleftrightarrow> bit b n \<and> \<not> bit f n"
      by (auto simp: behavior_remove_def bit_and_iff bit_not_iff)
    then show ?case by (simp add: Cons.IH)
  qed simp
  then show ?thesis by (simp add: apply_flags_def in_set_map_filter Bex_def) (blast+)?
qed

text \<open>Whether a list of tag values mentions the operation of bit \<open>n\<close>.\<close>

definition mentions :: "string list \<Rightarrow> nat \<Rightarrow> bool" where
  "mentions names n \<longleftrightarrow> (\<exists>name \<in> set names. \<exists>f. flag_from_name name = Some f \<and> bit f n)"

definition tags_of :: "introspection_result \<Rightarrow> resolved_resource \<Rightarrow> smart_tags" where
  "tags_of intro r =
     (case map_of (build_description_map (ir_descriptions intro)) (rv_class_oid r, 0) of
        None \<Rightarrow> smart_tags_default | Some comment \<Rightarrow> parse_smart_tags comment)"

lemma resource_behaviors_bit:
  "bit (resource_behaviors (build_description_map (ir_descriptions intro)) r) n \<longleftrightarrow>
     (bit (if rv_kind r = RTable then table_defaults else view_defaults) n \<and> \<not> mentions (tag_omit (tags_of intro r)) n \<or>
      mentions (tag_behavior_add (tags_of intro r)) n) \<and> \<not> mentions (tag_behavior_remove (tags_of intro r)) n"
  by (cases "rv_kind r")
    (auto simp: resource_behaviors_def tags_of_def Let_def behavior_bit_add behavior_bit_remove mentions_def
      smart_tags_default_def split: option.splits)

section \<open>Properties\<close>

text \<open>C4: the exposure gate. For a catalog with unique namespace and class OIDs, the gather phase
  succeeds; its resources are, in catalog order, exactly the tables and views of the
  configured schemas that the exposure policy admits; and its relations are, in order, exactly
  the foreign keys between two of these, each naming the two resources and the key columns of
  its constraint. A relation that is not exposed is reachable neither by itself nor through a
  foreign key.\<close>

theorem gather_surface_exact:
  assumes "distinct (map ns_oid (ir_namespaces intro))" and "distinct (map cl_oid (ir_classes intro))"
  shows "\<exists>out. gather intro meta0 p = Inr out \<and>
    map rv_class_oid (go_resources out) = map cl_oid (exposed_classes intro p) \<and>
    list_all2 (relation_for intro (go_resources out)) (filter (joins_exposed intro p) (ir_constraints intro)) (go_relations out)"
proof -
  have "list_all2 (relation_for intro (gathered_resources intro p)) (filter (joins_exposed intro p) (ir_constraints intro))
      (build_relations intro (resolve_schema_oids intro (pg_schemas p)) (gathered_resources intro p))"
    unfolding build_relations_def by (rule list_all2_map_filter) (rule relation_of_exposed [OF assms])
  then show ?thesis by (simp add: gather_def Let_def gather_resources_exposed [OF assms(1)] o_def)
qed

definition demo_preset :: "nat preset" where
  "demo_preset = (preset_default None)\<lparr>preset_exposure := ExposeOnly [''public.posts'', ''public.active_users'']\<rparr>"

theorem gather_surface_exact_witness:
  "\<exists>out. gather demo_catalog 0 demo_preset = Inr out \<and> map rv_class_oid (go_resources out) = [200, 300] \<and>
     go_relations out = []"
proof -
  have d: "distinct (map ns_oid (ir_namespaces demo_catalog))" "distinct (map cl_oid (ir_classes demo_catalog))"
    by code_simp+
  have "exposed demo_catalog demo_preset = (\<lambda>cls. (cl_kind cls = KTable \<or> cl_kind cls = KView) \<and> cl_schema_oid cls = 2200 \<and>
      (cl_name cls = ''posts'' \<or> cl_name cls = ''active_users''))"
    by (auto simp: exposed_def demo_catalog_def demo_preset_def preset_default_def namespace_of_row_def as_u32_def allows_def fun_eq_iff)
  then have e: "map cl_oid (exposed_classes demo_catalog demo_preset) = [200, 300]"
    by (simp add: exposed_classes_def demo_catalog_def class_of_row_def as_u32_def first_char_or_def class_kind_from_char_def)
  from arg_cong [OF this, of set] have "filter (joins_exposed demo_catalog demo_preset) (ir_constraints demo_catalog) = []"
    by (simp add: joins_exposed_def filter_empty_conv demo_catalog_def constraint_of_row_def as_u32_def)
  with gather_surface_exact [OF d, of 0 demo_preset] e show ?thesis by (auto simp: list_all2_Nil)
qed

lemma gathered_behavior_bits:
  assumes "distinct (map ns_oid (ir_namespaces intro))"
    and "gather intro meta0 p = Inr out" and "distinct (map rv_name (go_resources out))" and "r \<in> set (go_resources out)"
  shows "\<exists>b. map_of (go_behaviors out) (rv_name r) = Some b \<and>
    (\<forall>n. bit b n \<longleftrightarrow>
       (n \<in> (if rv_kind r = RTable then {0, 1, 2, 3, 4, 5, 6} else {0, 1, 5, 6}) \<and> \<not> mentions (tag_omit (tags_of intro r)) n \<or>
        mentions (tag_behavior_add (tags_of intro r)) n) \<and> \<not> mentions (tag_behavior_remove (tags_of intro r)) n)"
proof -
  let ?b = "resource_behaviors (build_description_map (ir_descriptions intro))"
  have out: "go_behaviors out = assoc_collect (map (\<lambda>r. (rv_name r, ?b r)) (go_resources out))"
    using assms(2) by (auto simp: gather_def Let_def)
  have "map_of (go_behaviors out) (rv_name r) = Some (?b r)"
    unfolding out map_of_assoc_collect using map_of_rev_map_iff [OF assms(3), of ?b "rv_name r" "?b r"] assms(4) by auto
  moreover have "bit table_defaults n \<longleftrightarrow> n \<in> {0, 1, 2, 3, 4, 5, 6}" "bit view_defaults n \<longleftrightarrow> n \<in> {0, 1, 5, 6}" for n
  proof -
    have e: "table_defaults = mask 7" "view_defaults = mask 2 OR push_bit 5 (mask 2)" by code_simp+
    show "bit table_defaults n \<longleftrightarrow> n \<in> {0, 1, 2, 3, 4, 5, 6}"
      unfolding e by (auto simp: bit_mask_iff)
    show "bit view_defaults n \<longleftrightarrow> n \<in> {0, 1, 5, 6}"
      unfolding e by (auto simp: bit_mask_iff bit_or_iff bit_push_bit_iff)
  qed
  ultimately show ?thesis unfolding resource_behaviors_bit [of intro r, symmetric] using resource_behaviors_bit [of intro r] by auto
qed


text \<open>The demo catalog with a comment on its users.\<close>

definition comment_on :: "oid \<Rightarrow> oid \<Rightarrow> string \<Rightarrow> pg_description" where
  "comment_on i catalog text = description_of_row i catalog 0 text"

definition tagged_catalog :: introspection_result where
  "tagged_catalog = demo_catalog\<lparr>ir_descriptions := [comment_on 100 1259 ''@omit delete'']\<rparr>"

definition gathered :: "introspection_result \<Rightarrow> nat preset \<Rightarrow> nat gather_output" where
  "gathered intro p = (case gather intro 0 p :: unit + nat gather_output of Inr out \<Rightarrow> out
     | Inl _ \<Rightarrow> \<lparr>go_resources = [], go_relations = [], go_behaviors = [], go_enums = [], go_plugin_metadata = 0\<rparr>)"

lemma gather_gathered: "gather intro 0 p = Inr (gathered intro p)"
  by (simp add: gathered_def gather_def Let_def)


section \<open>Shared names\<close>

text \<open>Behaviours are filed under the type name. When a second relation has the same type name, its
  behaviours replace those of the first: here the table \<^verbatim>\<open>user\<close> of another schema restores the
  deletion that the comment on \<^verbatim>\<open>users\<close> omits.\<close>

definition shadowing_catalog :: introspection_result where
  "shadowing_catalog = tagged_catalog\<lparr>ir_namespaces := [namespace_of_row 2200 ''public'', namespace_of_row 2300 ''app''],
     ir_classes := [class_of_row 100 ''users'' 2200 ''r'' True, class_of_row 400 ''user'' 2300 ''r'' False]\<rparr>"

theorem behaviors_shadowed:
  "map rv_name (go_resources (gathered shadowing_catalog ((preset_default None)\<lparr>pg_schemas := [''public'', ''app'']\<rparr>))) =
     [''User'', ''User''] \<and>
   go_behaviors (gathered shadowing_catalog ((preset_default None)\<lparr>pg_schemas := [''public'', ''app'']\<rparr>)) =
     [(''User'', table_defaults)]"
  by code_simp

text \<open>The description map is keyed by the object's OID alone, which is unique only within one
  system catalog: the comment of a function with the OID of a table replaces the comment of
  the table.\<close>

theorem foreign_comment_applies:
  "map_of (build_description_map [comment_on 100 1259 ''@omit delete'', comment_on 100 1255 ''a function'']) (100, 0) =
     Some ''a function''"
  by code_simp

end
