(* ===== verification/Build_Union.thy ===== *)
theory Build_Union
  imports Dp_Steps
begin

text \<open>
  \<^verbatim>\<open>magna-build/src/union_step.rs\<close>: the step that tags each row of a batch with the name of its GraphQL
  type. Its output values are rows with a tag, beside the values of the SQL steps it reads.
\<close>

record ('t, 'j) tagged_row =
  tg_type_name :: string
  tg_row :: "('t, 'j) pg_row"

datatype ('t, 'j) union_value = UStep "('t, 'j) dp_value" | UTagged "('t, 'j) tagged_row"

fun union_row :: "('t, 'j) union_value any \<Rightarrow> ('t, 'j) pg_row option" where
  "union_row (AnyValue (UStep (DRow r))) = Some r"
| "union_row _ = None"

record ('t, 'j) pg_union_step =
  un_id :: step_id
  un_source :: step_id
  un_discriminate :: "('t, 'j) pg_row \<Rightarrow> string"
  un_deps :: "step_id list"

definition union_new :: "step_id \<Rightarrow> step_id \<Rightarrow> (('t, 'j) pg_row \<Rightarrow> string) \<Rightarrow> ('t, 'j) pg_union_step" where
  "union_new i source discriminate = \<lparr>un_id = i, un_source = source, un_discriminate = discriminate, un_deps = [source]\<rparr>"

definition not_a_row :: "nat \<Rightarrow> fw_graph_error" where
  "not_a_row i = ExecutionError (''PgUnionStep: source value at index '' @ show_nat i @ '' is not a PgRow'')"

text \<open>The loop from item \<open>i\<close> on: \<open>None\<close> is the panic of a missing flag, an error ends the step.\<close>

fun union_slots :: "(('t, 'j) pg_row \<Rightarrow> string) \<Rightarrow> nat \<Rightarrow> ('t, 'j) union_value any list \<Rightarrow> step_flags list \<Rightarrow>
    (fw_graph_error + (('t, 'j) union_value any \<times> step_flags) list) option" where
  "union_slots discriminate i [] flags = Some (Inr [])"
| "union_slots discriminate i (v # vs) [] = None"
| "union_slots discriminate i (v # vs) (flag # flags) =
     (if \<not> is_value flag
      then map_option (map_sum id (Cons (AnyUnit, flag))) (union_slots discriminate (Suc i) vs flags)
      else case union_row v of
             None \<Rightarrow> Some (Inl (not_a_row i))
           | Some row \<Rightarrow>
               map_option (map_sum id (Cons (AnyValue (UTagged \<lparr>tg_type_name = discriminate row, tg_row = row\<rparr>), FLAG_NONE)))
                 (union_slots discriminate (Suc i) vs flags))"

definition union_execute :: "('t, 'j) pg_union_step \<Rightarrow> ('t, 'j) union_value step_output list \<Rightarrow>
    (fw_graph_error + ('t, 'j) union_value step_output) option" where
  "union_execute s inputs =
     (case inputs of
        [] \<Rightarrow> Some (Inl (ExecutionError ''PgUnionStep: missing source step output''))
      | source # _ \<Rightarrow>
          map_option (map_sum id (\<lambda>slots. \<lparr>out_values = map fst slots, out_flags = map snd slots\<rparr>))
            (union_slots (un_discriminate s) 0 (out_values source) (out_flags source)))"

definition union_as_step :: "hasher \<Rightarrow> string \<Rightarrow> type_id \<Rightarrow> ('t, 'j) pg_union_step \<Rightarrow> ('c, ('t, 'j) union_value) exec_step" where
  "union_as_step hasher panic_msg ty s =
     \<lparr>st_id = un_id s, st_deps = un_deps s, st_unary = False,
      st_fingerprint = fingerprint_new (\<lambda>(i, source). hasher [WU32 i, WU32 source]) ty (un_deps s) (un_id s, un_source s),
      st_execute = (\<lambda>_ inputs. case union_execute s inputs of None \<Rightarrow> JoinFailed panic_msg | Some r \<Rightarrow> Finished r)\<rparr>"

section \<open>Properties\<close>

text \<open>What becomes of one item: a tagged row, or its flag.\<close>

definition tag_item :: "(('t, 'j) pg_row \<Rightarrow> string) \<Rightarrow> ('t, 'j) union_value any \<Rightarrow> step_flags \<Rightarrow> ('t, 'j) union_value any \<times> step_flags" where
  "tag_item discriminate v flag =
     (if is_value flag
      then case union_row v of
             Some row \<Rightarrow> (AnyValue (UTagged \<lparr>tg_type_name = discriminate row, tg_row = row\<rparr>), FLAG_NONE)
           | None \<Rightarrow> (AnyUnit, flag)
      else (AnyUnit, flag))"

lemma union_slots_tagged:
  assumes "length flags = length vs" and "list_all2 (\<lambda>v flag. is_value flag \<longrightarrow> union_row v \<noteq> None) vs flags"
  shows "union_slots discriminate i vs flags = Some (Inr (map2 (tag_item discriminate) vs flags))"
  using assms
proof (induction discriminate i vs flags rule: union_slots.induct)
  case (3 discriminate i v vs flag flags)
  then show ?case by (auto simp: tag_item_def split: option.splits)
qed auto

lemma union_slots_error:
  assumes "length flags = length vs" and "k < length vs" and "is_value (flags ! k)" and "union_row (vs ! k) = None"
    and "\<forall>j < k. is_value (flags ! j) \<longrightarrow> union_row (vs ! j) \<noteq> None"
  shows "union_slots discriminate i vs flags = Some (Inl (not_a_row (i + k)))"
  using assms
proof (induction discriminate i vs flags arbitrary: k rule: union_slots.induct)
  case (3 discriminate i v vs flag flags)
  show ?case
  proof (cases k)
    case 0
    with "3.prems" show ?thesis by simp
  next
    case (Suc j)
    have prems: "length flags = length vs" "j < length vs" "is_value (flags ! j)" "union_row (vs ! j) = None"
      "\<forall>l < j. is_value (flags ! l) \<longrightarrow> union_row (vs ! l) \<noteq> None"
      using "3.prems" Suc by auto
    show ?thesis
    proof (cases "is_value flag")
      case True
      with "3.prems"(5) Suc obtain r where r: "union_row v = Some r" by force
      from "3.IH"(2) [OF _ r prems] True r Suc show ?thesis by simp
    qed (use "3.IH"(1) [OF _ prems] Suc in simp)
  qed
qed auto

text \<open>A batch of rows is tagged item by item, flags kept; the first value that is no row is reported
  with its index and nothing is produced.\<close>

lemma union_tags_batch:
  assumes "length (out_flags source) = length (out_values source)"
  shows "union_execute s (source # inputs) =
    (case filter (\<lambda>k. is_value (out_flags source ! k) \<and> union_row (out_values source ! k) = None) [0..<length (out_values source)] of
       [] \<Rightarrow> Some (Inr \<lparr>out_values = map fst (map2 (tag_item (un_discriminate s)) (out_values source) (out_flags source)),
                      out_flags = map snd (map2 (tag_item (un_discriminate s)) (out_values source) (out_flags source))\<rparr>)
     | k # _ \<Rightarrow> Some (Inl (not_a_row k)))"
proof (cases "filter (\<lambda>k. is_value (out_flags source ! k) \<and> union_row (out_values source ! k) = None) [0..<length (out_values source)]")
  case Nil
  then have "list_all2 (\<lambda>v flag. is_value flag \<longrightarrow> union_row v \<noteq> None) (out_values source) (out_flags source)"
    using assms by (auto simp: list_all2_conv_all_nth filter_empty_conv)
  with Nil union_slots_tagged [OF assms] show ?thesis by (simp add: union_execute_def)
next
  case (Cons k ks)
  then obtain us vs where split: "[0..<length (out_values source)] = us @ k # vs"
    "\<forall>u \<in> set us. \<not> (is_value (out_flags source ! u) \<and> union_row (out_values source ! u) = None)"
    "is_value (out_flags source ! k) \<and> union_row (out_values source ! k) = None"
    by (auto simp: filter_eq_Cons_iff)
  have "length us < length (out_values source)" using arg_cong [OF split(1), of length] by simp
  moreover from this have k_us: "k = length us" using arg_cong [OF split(1), of "\<lambda>xs. xs ! length us"] by simp
  ultimately have k: "k < length (out_values source)" by simp
  have "us = [0..<k]" using arg_cong [OF split(1), of "take k"] k k_us by (simp add: take_upt)
  with split have "\<forall>j < k. is_value (out_flags source ! j) \<longrightarrow> union_row (out_values source ! j) \<noteq> None" by auto
  from union_slots_error [OF assms k _ _ this] split(3) Cons show ?thesis by (simp add: union_execute_def)
qed

text \<open>The id is part of what is hashed, so no two union steps are merged unless the hasher collides.\<close>

lemma union_steps_distinct:
  assumes "inj_on hasher {[WU32 (un_id s), WU32 (un_source s)], [WU32 (un_id t), WU32 (un_source t)]}" and "un_id s \<noteq> un_id t"
  shows "st_fingerprint (union_as_step hasher m ty s) \<noteq> st_fingerprint (union_as_step hasher m ty t)"
  using assms by (auto simp: union_as_step_def fingerprint_new_def inj_on_def)

end
