(* ===== verification/Build_Exec.thy ===== *)
theory Build_Exec
  imports Build_Gather Dp_Steps Rust_BTree "HOL-Library.Countable"
begin

text \<open>
  \<^verbatim>\<open>magna-build/src/executor\<close>: cursors (\<^verbatim>\<open>cursor.rs\<close>), the bridge to the driver (\<^verbatim>\<open>sql_bridge.rs\<close>),
  arguments and errors (\<^verbatim>\<open>args.rs\<close>), and the query executor with the request connection
  (\<^verbatim>\<open>mod.rs\<close>). A connection is the record \<open>database\<close> of \<open>Dp_Codec\<close>; every operation returns the
  statements it sent, in order, beside its result, and \<open>None\<close> for a panic. The crates \<^verbatim>\<open>base64\<close> and
  \<^verbatim>\<open>serde_json\<close> are the fields of \<open>cursor_ext\<close>; a JSON object is an ordered map, as without the
  feature \<^verbatim>\<open>preserve_order\<close>.
\<close>

section \<open>Errors and arguments\<close>

datatype query_error =
    QDatabase string
  | QInvalidCursor string
  | QInvalidArgument string
  | QNotFound
  | QRlsError string

fun query_error_display :: "query_error \<Rightarrow> string" where
  "query_error_display (QDatabase e) = ''Database error: '' @ e"
| "query_error_display (QInvalidCursor e) = ''Invalid cursor: '' @ e"
| "query_error_display (QInvalidArgument e) = ''Invalid argument: '' @ e"
| "query_error_display QNotFound = ''Not found''"
| "query_error_display (QRlsError e) = ''RLS context error: '' @ e"

definition into_gql :: "query_error \<Rightarrow> string" where
  "into_gql e =
     (case e of
        QDatabase _ \<Rightarrow> ''Internal database error''
      | QRlsError _ \<Rightarrow> ''Internal error''
      | _ \<Rightarrow> query_error_display e)"

datatype filter_op = FEq | FNe | FLt | FLte | FGt | FGte | FIn | FLike | FIlike | FStartsWith | FIsNull

record ('t, 'j) column_filter =
  cf_column :: string
  cf_op :: filter_op
  cf_value :: "('t, 'j) pg_value"

text \<open>The list of column operations, then \<^verbatim>\<open>and\<close>, \<^verbatim>\<open>or\<close> and \<^verbatim>\<open>not\<close>.\<close>

datatype ('t, 'j) filter_input =
  FilterInput (column_ops: "('t, 'j) column_filter list") (filter_and: "('t, 'j) filter_input list")
    (filter_or: "('t, 'j) filter_input list") (filter_not: "('t, 'j) filter_input option")

datatype order_direction = Asc | Desc

record order_by_input =
  oi_column :: string
  oi_direction :: order_direction

record ('t, 'j) connection_args =
  ca_first :: "64 word option"
  ca_last :: "64 word option"
  ca_after :: "string option"
  ca_before :: "string option"
  ca_filter :: "('t, 'j) filter_input option"
  ca_order_by :: "order_by_input list"
  ca_condition :: "(string \<times> ('t, 'j) pg_value) list option"
  ca_need_total_count :: bool

definition connection_args_default :: "('t, 'j) connection_args" where
  "connection_args_default = \<lparr>ca_first = None, ca_last = None, ca_after = None, ca_before = None,
     ca_filter = None, ca_order_by = [], ca_condition = None, ca_need_total_count = False\<rparr>"

text \<open>\<^verbatim>\<open>async_graphql::Value\<close>; a number is what its accessors give, \<open>'x\<close> the other variants.\<close>

datatype 'x gql_value =
    GNull
  | GBoolean bool
  | GNumber "64 word option" "64 word option"
  | GString string
  | GList "'x gql_value list"
  | GObject "(string \<times> 'x gql_value) list"
  | GOther 'x

fun gql_value_to_pg_value :: "('t, 'j) codec_ext \<Rightarrow> 'x gql_value \<Rightarrow> ('t, 'j) pg_value" where
  "gql_value_to_pg_value X GNull = PgNull"
| "gql_value_to_pg_value X (GBoolean b) = PgBool b"
| "gql_value_to_pg_value X (GNumber i f) =
     (case i of Some i \<Rightarrow> PgInt i | None \<Rightarrow> (case f of Some f \<Rightarrow> PgFloat f | None \<Rightarrow> PgNull))"
| "gql_value_to_pg_value X (GString s) = (case uuid_parse X s of Some u \<Rightarrow> PgUuid u | None \<Rightarrow> PgText s)"
| "gql_value_to_pg_value X (GList vs) = PgArray (map (gql_value_to_pg_value X) vs)"
| "gql_value_to_pg_value X (GObject _) = PgNull"
| "gql_value_to_pg_value X (GOther _) = PgNull"

text \<open>\<^verbatim>\<open>ConnectionArgs::from_ctx\<close> on the argument values of a field and whether its selection asks
  for the total count.\<close>

definition connection_args_from :: "(string \<rightharpoonup> 'x gql_value) \<Rightarrow> bool \<Rightarrow> ('t, 'j) connection_args" where
  "connection_args_from args total_count_requested =
     (let a = connection_args_default;
          a = (case args ''first'' of Some (GNumber i f) \<Rightarrow> a\<lparr>ca_first := i\<rparr> | _ \<Rightarrow> a);
          a = (case args ''last'' of Some (GNumber i f) \<Rightarrow> a\<lparr>ca_last := i\<rparr> | _ \<Rightarrow> a);
          a = (case args ''after'' of Some (GString s) \<Rightarrow> a\<lparr>ca_after := Some s\<rparr> | _ \<Rightarrow> a);
          a = (case args ''before'' of Some (GString s) \<Rightarrow> a\<lparr>ca_before := Some s\<rparr> | _ \<Rightarrow> a)
      in a\<lparr>ca_need_total_count := total_count_requested\<rparr>)"

section \<open>Cursors\<close>

datatype 'n js_val =
    JsNull | JsBool bool | JsNumber 'n | JsString string | JsArray "'n js_val list"
  | JsObject "(string \<times> 'n js_val) list"

fun js_as_str :: "'n js_val \<Rightarrow> string option" where
  "js_as_str (JsString s) = Some s"
| "js_as_str _ = None"

fun js_as_object :: "'n js_val \<Rightarrow> (string \<times> 'n js_val) list option" where
  "js_as_object (JsObject m) = Some m"
| "js_as_object _ = None"

record 'n cursor_ext =
  b64_encode :: "string \<Rightarrow> string"
  b64_decode :: "string \<Rightarrow> string option"
  js_show :: "'n js_val \<Rightarrow> string"
  js_parse :: "string \<Rightarrow> 'n js_val option"

text \<open>\<^verbatim>\<open>iter().map(|(k, v)| (k, JsVal::String(v))).collect::<Map<_, _>>()\<close>.\<close>

definition string_map :: "(string \<times> string) list \<Rightarrow> (string \<times> 'n js_val) list" where
  "string_map kvs = fold (\<lambda>(k, v) m. bt_insert k (JsString v) m) kvs []"

definition cursor_json :: "(string \<times> string) list \<Rightarrow> (string \<times> string) list \<Rightarrow> 'n js_val" where
  "cursor_json pk ss =
     (let obj = bt_insert ''pk'' (JsObject (string_map pk)) [];
          obj = (if ss = [] then obj else bt_insert ''sort'' (JsObject (string_map ss)) obj)
      in JsObject obj)"

definition encode_cursor :: "'n cursor_ext \<Rightarrow> (string \<times> string) list \<Rightarrow> (string \<times> string) list \<Rightarrow> string" where
  "encode_cursor C pk ss = b64_encode C (js_show C (cursor_json pk ss))"

text \<open>\<^verbatim>\<open>obj.get(name).and_then(|v| v.as_object()).cloned().unwrap_or_default()\<close>.\<close>

definition object_field :: "(string \<times> 'n js_val) list \<Rightarrow> string \<Rightarrow> (string \<times> 'n js_val) list" where
  "object_field obj name = unwrap_or (Option.bind (map_of obj name) js_as_object) []"

definition decode_cursor :: "'n cursor_ext \<Rightarrow> string \<Rightarrow>
    query_error + (string \<times> 'n js_val) list \<times> (string \<times> 'n js_val) list" where
  "decode_cursor C cursor =
     (case b64_decode C cursor of
        None \<Rightarrow> Inl (QInvalidCursor ''invalid base64 in cursor'')
      | Some bytes \<Rightarrow>
          if \<not> utf8_valid bytes then Inl (QInvalidCursor ''cursor is not valid UTF-8'')
          else (case js_parse C bytes of
            None \<Rightarrow> Inl (QInvalidCursor ''cursor is not valid JSON'')
          | Some val \<Rightarrow>
              (case js_as_object val of
                 None \<Rightarrow> Inl (QInvalidCursor ''cursor JSON must be an object'')
               | Some obj \<Rightarrow> Inr (object_field obj ''pk'', object_field obj ''sort''))))"

section \<open>The driver bridge\<close>

definition parse_pk_string :: "('t, 'j) codec_ext \<Rightarrow> string \<Rightarrow> oid \<Rightarrow> ('t, 'j) pg_value" where
  "parse_pk_string X s type_oid =
     (if type_oid = 2950 then (case uuid_parse X s of Some u \<Rightarrow> PgUuid u | None \<Rightarrow> PgText s)
      else if type_oid = 23 \<or> type_oid = 20 \<or> type_oid = 21 then PgInt (unwrap_or (parse_i64 s) 0)
      else PgText s)"

fun bind_value :: "(('t, 'j) pg_value \<Rightarrow> string) \<Rightarrow> ('t, 'j) pg_value \<Rightarrow> ('t, 'j) bind_arg" where
  "bind_value dbg PgNull = BNull"
| "bind_value dbg (PgBool b) = BBool b"
| "bind_value dbg (PgInt n) = BI64 n"
| "bind_value dbg (PgFloat f) = BF64 f"
| "bind_value dbg (PgText s) = BText s"
| "bind_value dbg (PgUuid u) = BUuid u"
| "bind_value dbg (PgTimestamp t) = BTimestamp t"
| "bind_value dbg (PgJson j) = BJson j"
| "bind_value dbg (PgArray []) = BTexts []"
| "bind_value dbg (PgArray (v # vs)) =
     (case v of
        PgInt _ \<Rightarrow> BI64s (List.map_filter as_i64 (v # vs))
      | PgText _ \<Rightarrow> BTexts (List.map_filter as_text (v # vs))
      | PgUuid _ \<Rightarrow> BUuids (List.map_filter as_uuid (v # vs))
      | PgBool _ \<Rightarrow> BBools (List.map_filter as_bool (v # vs))
      | _ \<Rightarrow> BTexts (map dbg (v # vs)))"

type_synonym ('t, 'j) sent = "(string \<times> ('t, 'j) bind_arg list) list"

definition execute_on_conn :: "('t, 'n, 'j) database \<Rightarrow> string \<Rightarrow> ('t, 'j) pg_value list \<Rightarrow>
    ('t, 'j) sent \<times> (query_error + ('t, 'j) pg_row list)" where
  "execute_on_conn db sql ps =
     (let args = map (bind_value (db_debug db)) ps
      in ([(sql, args)],
          case db_fetch_all db sql args of
            Inl e \<Rightarrow> Inl (QDatabase e)
          | Inr rows \<Rightarrow> Inr (map (decode_row (db_and_utc db)) rows)))"

section \<open>The request connection\<close>

definition quoted :: "string \<Rightarrow> string" where
  "quoted s = [CHR 0x27] @ s @ [CHR 0x27]"

definition rls_sql :: string where
  "rls_sql = ''SELECT set_config('' @ quoted ''request.jwt.claims'' @ '', $1, true), set_config('' @
     quoted ''request.jwt.sub'' @ '', $2, true), set_config('' @ quoted ''role'' @ '', $3, true)''"

definition apply_rls_context :: "('t, 'j) codec_ext \<Rightarrow> ('t, 'n, 'j) database \<Rightarrow> 'j jwt_claims \<Rightarrow>
    ('t, 'j) sent \<times> (string + unit)" where
  "apply_rls_context X db claims =
     (let args = [BText (json_show X (jc_raw claims)), BText (uuid_show X (jc_sub claims)),
                  BText (role_as_str (jc_role claims))]
      in ([(rls_sql, args)], case db_fetch_all db rls_sql args of Inl e \<Rightarrow> Inl e | Inr _ \<Rightarrow> Inr ()))"

text \<open>\<open>acquired\<close> is what the pool answers.\<close>

definition request_connection_new :: "('t, 'j) codec_ext \<Rightarrow> string + ('t, 'n, 'j) database \<Rightarrow> 'j jwt_claims \<Rightarrow>
    ('t, 'j) sent \<times> (query_error + ('t, 'n, 'j) database)" where
  "request_connection_new X acquired claims =
     (case acquired of
        Inl e \<Rightarrow> ([], Inl (QDatabase e))
      | Inr conn \<Rightarrow>
          (case apply_rls_context X conn claims of
             (sent, Inl e) \<Rightarrow> (sent, Inl (QRlsError e))
           | (sent, Inr _) \<Rightarrow> (sent, Inr conn)))"

section \<open>Connections\<close>

record ('t, 'j) connection_result =
  cr_rows :: "('t, 'j) pg_row list"
  cr_has_next_page :: bool
  cr_has_previous_page :: bool
  cr_start_cursor :: "string option"
  cr_end_cursor :: "string option"
  cr_total_count :: "64 word option"

definition show_bool :: "bool \<Rightarrow> string" where
  "show_bool b = (if b then ''true'' else ''false'')"

fun pg_value_str :: "('t, 'j) codec_ext \<Rightarrow> ('t, 'j) pg_value \<Rightarrow> string" where
  "pg_value_str X PgNull = []"
| "pg_value_str X (PgBool b) = show_bool b"
| "pg_value_str X (PgInt n) = show_i64 n"
| "pg_value_str X (PgFloat f) = f64_show X f"
| "pg_value_str X (PgText s) = s"
| "pg_value_str X (PgUuid u) = uuid_show X u"
| "pg_value_str X (PgTimestamp t) = dt_show X t"
| "pg_value_str X (PgJson j) = json_show X j"
| "pg_value_str X (PgArray _) = []"

definition build_filter_cond :: "string \<Rightarrow> filter_op \<Rightarrow> ('t, 'j) pg_value \<Rightarrow> ('t, 'j) pg_value sql_fragment" where
  "build_filter_cond col op val =
     (let c = ident col; p = param val in
      case op of
        FEq \<Rightarrow> append_frag (push_raw c '' = '') p
      | FNe \<Rightarrow> append_frag (push_raw c '' <> '') p
      | FLt \<Rightarrow> append_frag (push_raw c '' < '') p
      | FLte \<Rightarrow> append_frag (push_raw c '' <= '') p
      | FGt \<Rightarrow> append_frag (push_raw c '' > '') p
      | FGte \<Rightarrow> append_frag (push_raw c '' >= '') p
      | FIn \<Rightarrow> push_raw (append_frag (push_raw c '' = ANY('') p) '')''
      | FLike \<Rightarrow> append_frag (push_raw c '' LIKE '') p
      | FIlike \<Rightarrow> append_frag (push_raw c '' ILIKE '') p
      | FStartsWith \<Rightarrow> append_frag (push_raw c '' LIKE '')
          (param (PgText (case val of PgText s \<Rightarrow> s @ ''%'' | _ \<Rightarrow> [])))
      | FIsNull \<Rightarrow> (case val of PgBool True \<Rightarrow> push_raw c '' IS NULL'' | _ \<Rightarrow> push_raw c '' IS NOT NULL''))"

definition default_pk :: "resolved_resource \<Rightarrow> string" where
  "default_pk resource = (case rv_primary_key resource of pk # _ \<Rightarrow> pk | [] \<Rightarrow> ''id'')"

definition page_limit :: "('t, 'j) connection_args \<Rightarrow> 64 word \<times> bool" where
  "page_limit args =
     (case (ca_first args, ca_last args) of
        (Some n, _) \<Rightarrow> (n, False)
      | (None, Some n) \<Rightarrow> (n, True)
      | (None, None) \<Rightarrow> (20, False))"

text \<open>The keyset condition of a cursor; none when it does not decode or lacks the key.\<close>

definition cursor_condition :: "'n cursor_ext \<Rightarrow> ('t, 'j) codec_ext \<Rightarrow> resolved_resource \<Rightarrow> bool \<Rightarrow> string \<Rightarrow>
    ('t, 'j) pg_value sql_fragment option" where
  "cursor_condition C X resource is_backward cursor_str =
     (case decode_cursor C cursor_str of
        Inl _ \<Rightarrow> None
      | Inr (pk_map, _) \<Rightarrow>
          (case Option.bind (map_of pk_map (default_pk resource)) js_as_str of
             None \<Rightarrow> None
           | Some pk_val_str \<Rightarrow>
               (let pg_val = (case find (\<lambda>c. cv_pg_name c = default_pk resource) (rv_columns resource) of
                                Some c \<Rightarrow> parse_pk_string X pk_val_str (cv_type_oid c)
                              | None \<Rightarrow> PgText pk_val_str)
                in Some (append_frag (push_raw (ident (default_pk resource)) (if is_backward then '' < '' else '' > ''))
                     (param pg_val)))))"

definition eq_cond :: "string \<times> ('t, 'j) pg_value \<Rightarrow> ('t, 'j) pg_value sql_fragment" where
  "eq_cond cv = append_frag (push_raw (ident (fst cv)) '' = '') (param (snd cv))"

definition order_ascending :: "bool \<Rightarrow> order_direction \<Rightarrow> bool" where
  "order_ascending is_backward d = (if is_backward then d \<noteq> Asc else d = Asc)"

definition connection_builder :: "'n cursor_ext \<Rightarrow> ('t, 'j) codec_ext \<Rightarrow> resolved_resource \<Rightarrow> ('t, 'j) connection_args \<Rightarrow>
    ('t, 'j) pg_value sql_builder" where
  "connection_builder C X resource args =
     (case page_limit args of (n, is_backward) \<Rightarrow>
       let b = column_star (sb_from (rv_schema resource) (rv_table resource));
           b = (case (if is_backward then ca_before args else ca_after args) of
                  None \<Rightarrow> b
                | Some cursor_str \<Rightarrow>
                    (case cursor_condition C X resource is_backward cursor_str of
                       None \<Rightarrow> b | Some cond \<Rightarrow> where_clause b cond));
           b = (case ca_condition args of
                  None \<Rightarrow> b | Some cvs \<Rightarrow> foldl (\<lambda>b cv. where_clause b (eq_cond cv)) b cvs);
           b = (case ca_filter args of
                  None \<Rightarrow> b
                | Some f \<Rightarrow> foldl (\<lambda>b cf. where_clause b (build_filter_cond (cf_column cf) (cf_op cf) (cf_value cf)))
                    b (column_ops f));
           b = (if ca_order_by args = [] then order_by b (ident (default_pk resource)) (\<not> is_backward)
                else foldl (\<lambda>b ob. order_by b (ident (oi_column ob)) (order_ascending is_backward (oi_direction ob)))
                  b (ca_order_by args))
       in limit b (n + 1))"

definition row_cursor :: "'n cursor_ext \<Rightarrow> ('t, 'j) codec_ext \<Rightarrow> string list \<Rightarrow> ('t, 'j) pg_row \<Rightarrow> string" where
  "row_cursor C X pk_cols row =
     encode_cursor C (map (\<lambda>pk. (pk, unwrap_or (map_option (pg_value_str X) (row_get row pk)) [])) pk_cols) []"

definition dquoted :: "string \<Rightarrow> string" where
  "dquoted s = [CHR 0x22] @ s @ [CHR 0x22]"

definition count_sql :: "resolved_resource \<Rightarrow> string" where
  "count_sql resource = ''SELECT COUNT(*) FROM '' @ dquoted (rv_schema resource) @ ''.'' @ dquoted (rv_table resource)"

definition count_of :: "('t, 'j) pg_row list \<Rightarrow> 64 word option" where
  "count_of rows =
     (case rows of
        [] \<Rightarrow> None
      | r # _ \<Rightarrow> (case row_get r ''count'' of Some (PgInt n) \<Rightarrow> Some n | _ \<Rightarrow> None))"

text \<open>Truncating, reversing and the two flags, from the rows fetched.\<close>

definition page_of :: "64 word \<Rightarrow> bool \<Rightarrow> 'r list \<Rightarrow> 'r list \<times> bool" where
  "page_of n is_backward rows =
     (let has_more = length rows > unat n;
          rows = (if has_more then take (unat n) rows else rows);
          rows = (if is_backward then rev rows else rows)
      in (rows, has_more))"

definition select_connection :: "'n cursor_ext \<Rightarrow> ('t, 'j) codec_ext \<Rightarrow> ('t, 'd, 'j) database \<Rightarrow> resolved_resource \<Rightarrow>
    ('t, 'j) connection_args \<Rightarrow> ('t, 'j) sent \<times> (query_error + ('t, 'j) connection_result) option" where
  "select_connection C X conn resource args =
     (case page_limit args of (n, is_backward) \<Rightarrow>
      case render (connection_builder C X resource args) of
        None \<Rightarrow> ([], None)
      | Some (sql, ps) \<Rightarrow>
          (case execute_on_conn conn sql ps of
             (sent, Inl e) \<Rightarrow> (sent, Some (Inl e))
           | (sent, Inr rows) \<Rightarrow>
               (case page_of n is_backward rows of (rows, has_more) \<Rightarrow>
                 let pk_cols = rv_primary_key resource;
                     start_cursor = (case rows of [] \<Rightarrow> None | r # _ \<Rightarrow> Some (row_cursor C X pk_cols r));
                     end_cursor = (if rows = [] then None else Some (row_cursor C X pk_cols (last rows)));
                     result = \<lparr>cr_rows = rows, cr_has_next_page = (\<not> is_backward \<and> has_more),
                       cr_has_previous_page = (is_backward \<and> has_more), cr_start_cursor = start_cursor,
                       cr_end_cursor = end_cursor, cr_total_count = None\<rparr>
                 in if ca_need_total_count args
                    then (case execute_on_conn conn (count_sql resource) [] of
                            (sent2, Inl e) \<Rightarrow> (sent @ sent2, Some (Inl e))
                          | (sent2, Inr count_rows) \<Rightarrow>
                              (sent @ sent2, Some (Inr (result\<lparr>cr_total_count := count_of count_rows\<rparr>))))
                    else (sent, Some (Inr result)))))"

section \<open>Rows by key, mutations\<close>

definition first_row :: "('t, 'j) sent \<times> (query_error + ('t, 'j) pg_row list) \<Rightarrow>
    ('t, 'j) sent \<times> (query_error + ('t, 'j) pg_row option)" where
  "first_row r = (fst r, case snd r of Inl e \<Rightarrow> Inl e | Inr [] \<Rightarrow> Inr None | Inr (row # _) \<Rightarrow> Inr (Some row))"

definition run_built :: "('t, 'd, 'j) database \<Rightarrow> (string \<times> ('t, 'j) pg_value list) option \<Rightarrow>
    ('t, 'j) sent \<times> (query_error + ('t, 'j) pg_row option) option" where
  "run_built conn q =
     (case q of
        None \<Rightarrow> ([], None)
      | Some (sql, ps) \<Rightarrow> (case first_row (execute_on_conn conn sql ps) of (sent, r) \<Rightarrow> (sent, Some r)))"

definition select_by_pk :: "('t, 'd, 'j) database \<Rightarrow> resolved_resource \<Rightarrow> (string \<times> ('t, 'j) pg_value) list \<Rightarrow>
    ('t, 'j) sent \<times> (query_error + ('t, 'j) pg_row option) option" where
  "select_by_pk conn resource pk_values =
     run_built conn (render (limit
       (foldl (\<lambda>b cv. where_clause b (eq_cond cv)) (column_star (sb_from (rv_schema resource) (rv_table resource))) pk_values) 1))"

definition exec_insert :: "('t, 'd, 'j) database \<Rightarrow> resolved_resource \<Rightarrow> (string \<times> ('t, 'j) pg_value) list \<Rightarrow>
    ('t, 'j) sent \<times> (query_error + ('t, 'j) pg_row) option" where
  "exec_insert conn resource columns =
     (let b = foldl insert_column (insert_new (rv_schema resource) (rv_table resource)) (map fst columns)
      in case run_built conn (Option.bind (insert_build b (map snd columns)) build) of
           (sent, None) \<Rightarrow> (sent, None)
         | (sent, Some (Inl e)) \<Rightarrow> (sent, Some (Inl e))
         | (sent, Some (Inr None)) \<Rightarrow> (sent, Some (Inl QNotFound))
         | (sent, Some (Inr (Some row))) \<Rightarrow> (sent, Some (Inr row)))"

definition exec_update :: "('t, 'd, 'j) database \<Rightarrow> resolved_resource \<Rightarrow> (string \<times> ('t, 'j) pg_value) list \<Rightarrow>
    (string \<times> ('t, 'j) pg_value) list \<Rightarrow> ('t, 'j) sent \<times> (query_error + ('t, 'j) pg_row option) option" where
  "exec_update conn resource pk_values set_columns =
     (let b = foldl update_set (update_new (rv_schema resource) (rv_table resource)) (map fst set_columns);
          b = foldl update_where_eq b (map fst pk_values)
      in run_built conn (Option.bind (update_build b (map snd set_columns) (map snd pk_values)) build))"

definition exec_delete :: "('t, 'd, 'j) database \<Rightarrow> resolved_resource \<Rightarrow> (string \<times> ('t, 'j) pg_value) list \<Rightarrow>
    ('t, 'j) sent \<times> (query_error + ('t, 'j) pg_row option) option" where
  "exec_delete conn resource pk_values =
     (let b = foldl delete_where_eq (delete_new (rv_schema resource) (rv_table resource)) (map fst pk_values)
      in run_built conn (Option.bind (delete_build b (map snd pk_values)) build))"

section \<open>Batches\<close>

definition oid_cast :: "oid \<Rightarrow> string" where
  "oid_cast type_oid =
     (if type_oid = 2950 then ''::uuid'' else if type_oid = 23 \<or> type_oid = 20 \<or> type_oid = 21 then ''::bigint'' else [])"

definition array_oid_cast :: "oid \<Rightarrow> string" where
  "array_oid_cast type_oid =
     (if type_oid = 2950 then ''::uuid[]''
      else if type_oid = 23 \<or> type_oid = 20 \<or> type_oid = 21 then ''::bigint[]'' else ''::text[]'')"

definition fk_batch_sql :: "resolved_resource \<Rightarrow> string \<Rightarrow> oid \<Rightarrow> string" where
  "fk_batch_sql resource fk type_oid =
     str_join [CHR 0x0A]
       [''SELECT '' @ dquoted ''parent_id_key'' @ '', sub.* FROM unnest($1::text[]) AS '' @ dquoted ''parent_id_key'',
        ''CROSS JOIN LATERAL ('',
        ''  SELECT * FROM '' @ dquoted (rv_schema resource) @ ''.'' @ dquoted (rv_table resource),
        ''  WHERE '' @ dquoted fk @ '' = '' @ dquoted ''parent_id_key'' @ oid_cast type_oid,
        ''  ORDER BY '' @ dquoted (default_pk resource) @ '' ASC'',
        ''  LIMIT $2'',
        '') sub'']"

definition pk_batch_sql :: "resolved_resource \<Rightarrow> string \<Rightarrow> oid \<Rightarrow> string" where
  "pk_batch_sql resource pk type_oid =
     ''SELECT * FROM '' @ dquoted (rv_schema resource) @ ''.'' @ dquoted (rv_table resource) @ '' WHERE '' @
     dquoted pk @ '' = ANY($1'' @ array_oid_cast type_oid @ '')''"

text \<open>Acquiring a connection, applying the claims if there are any, and fetching.\<close>

definition batch_fetch :: "('t, 'j) codec_ext \<Rightarrow> string + ('t, 'd, 'j) database \<Rightarrow> 'j jwt_claims option \<Rightarrow> string \<Rightarrow>
    ('t, 'j) bind_arg list \<Rightarrow> ('t, 'j) sent \<times> (query_error + ('t, 'j) pg_row list)" where
  "batch_fetch X acquired claims sql args =
     (case acquired of
        Inl e \<Rightarrow> ([], Inl (QDatabase e))
      | Inr conn \<Rightarrow>
          (case (case claims of None \<Rightarrow> ([], Inr ()) | Some c \<Rightarrow> apply_rls_context X conn c) of
             (sent, Inl e) \<Rightarrow> (sent, Inl (QRlsError e))
           | (sent, Inr _) \<Rightarrow>
               (sent @ [(sql, args)],
                case db_fetch_all conn sql args of
                  Inl e \<Rightarrow> Inl (QDatabase e)
                | Inr rows \<Rightarrow> Inr (map (decode_row (db_and_utc conn)) rows))))"

text \<open>The two loops that file the rows under their key.\<close>

fun file_rows :: "('t, 'j) codec_ext \<Rightarrow> ('t, 'j) pg_row list \<Rightarrow> (string \<times> ('t, 'j) pg_row list) list \<Rightarrow>
    (string \<times> ('t, 'j) pg_row list) list" where
  "file_rows X [] m = m"
| "file_rows X (row # rows) m =
     file_rows X rows (case row_get row ''parent_id_key'' of
       None \<Rightarrow> m | Some v \<Rightarrow> assoc_push (pg_value_str X v) row m)"

fun index_rows :: "('t, 'j) codec_ext \<Rightarrow> string \<Rightarrow> ('t, 'j) pg_row list \<Rightarrow> (string \<times> ('t, 'j) pg_row) list \<Rightarrow>
    (string \<times> ('t, 'j) pg_row) list" where
  "index_rows X pk [] m = m"
| "index_rows X pk (row # rows) m =
     index_rows X pk rows (case row_get row pk of None \<Rightarrow> m | Some v \<Rightarrow> assoc_insert (pg_value_str X v) row m)"

definition select_by_fk_batch :: "('t, 'j) codec_ext \<Rightarrow> string + ('t, 'd, 'j) database \<Rightarrow> 'j jwt_claims option \<Rightarrow>
    resolved_resource \<Rightarrow> string \<Rightarrow> oid \<Rightarrow> string list \<Rightarrow> 64 word \<Rightarrow>
    ('t, 'j) sent \<times> (query_error + (string \<times> ('t, 'j) pg_row list) list)" where
  "select_by_fk_batch X acquired claims resource fk type_oid pids n =
     (if pids = [] then ([], Inr [])
      else case batch_fetch X acquired claims (fk_batch_sql resource fk type_oid) [BTexts pids, BI64 n] of
             (sent, Inl e) \<Rightarrow> (sent, Inl e)
           | (sent, Inr rows) \<Rightarrow> (sent, Inr (file_rows X rows [])))"

definition select_by_pk_batch :: "('t, 'j) codec_ext \<Rightarrow> string + ('t, 'd, 'j) database \<Rightarrow> 'j jwt_claims option \<Rightarrow>
    resolved_resource \<Rightarrow> string \<Rightarrow> oid \<Rightarrow> string list \<Rightarrow>
    ('t, 'j) sent \<times> (query_error + (string \<times> ('t, 'j) pg_row) list)" where
  "select_by_pk_batch X acquired claims resource pk type_oid ids =
     (if ids = [] then ([], Inr [])
      else case batch_fetch X acquired claims (pk_batch_sql resource pk type_oid) [BTexts ids] of
             (sent, Inl e) \<Rightarrow> (sent, Inl e)
           | (sent, Inr rows) \<Rightarrow> (sent, Inr (index_rows X pk rows [])))"


section \<open>The statement of a connection\<close>

lemma flat_conds [simp]: "flat (build_filter_cond col op val)" "flat (eq_cond cv)"
  by (auto simp: build_filter_cond_def eq_cond_def Let_def split: filter_op.split pg_value.split bool.split)

lemma flat_cursor_condition: "cursor_condition C X resource b c = Some f \<Longrightarrow> flat f"
  by (auto simp: cursor_condition_def Let_def split: sum.splits option.splits)

lemma builder_flat_steps:
  "builder_flat b \<Longrightarrow> flat f \<Longrightarrow> builder_flat (where_clause b f)"
  "builder_flat b \<Longrightarrow> flat f \<Longrightarrow> builder_flat (order_by b f asc)"
  "builder_flat b \<Longrightarrow> builder_flat (limit b n)"
  "builder_flat (column_star (sb_from sch tab))"
  by (auto simp: builder_flat_def where_clause_def order_by_def limit_def column_star_def sb_from_def)

lemma builder_flat_foldl:
  "builder_flat b \<Longrightarrow> (\<And>b x. builder_flat b \<Longrightarrow> builder_flat (f b x)) \<Longrightarrow> builder_flat (foldl f b xs)"
  by (induction xs arbitrary: b) auto

lemma connection_builder_flat: "builder_flat (connection_builder C X resource args)"
  unfolding connection_builder_def Let_def split_beta
  by (intro builder_flat_steps)
    (auto intro!: builder_flat_foldl builder_flat_steps dest: flat_cursor_condition split: option.splits if_splits)

section \<open>Cursors read back\<close>

lemma map_of_string_map_aux:
  "map_of (fold (\<lambda>(k, v) m. bt_insert k (JsString v) m) kvs m) = map_of m ++ map_of (rev (map (\<lambda>(k, v). (k, JsString v)) kvs))"
  by (induction kvs arbitrary: m) (auto simp: map_add_def fun_eq_iff split: option.splits)

lemma map_of_string_map: "map_of (string_map kvs) k = map_option JsString (map_of (rev kvs) k)"
proof -
  have "map_of (map (\<lambda>(k, v). (k, JsString v)) xs) k = map_option JsString (map_of xs k)" for xs :: "(string \<times> string) list"
    by (induction xs) auto
  then show ?thesis by (simp add: string_map_def map_of_string_map_aux rev_map)
qed

text \<open>JSON text made of objects with strings at the leaves, every string valid UTF-8 as a Rust
  string is.\<close>

fun js_text :: "'n js_val \<Rightarrow> bool" where
  "js_text (JsString s) = utf8_valid s"
| "js_text (JsObject m) = (bt_ok m \<and> list_all (\<lambda>(k, v). utf8_valid k \<and> js_text v) m)"
| "js_text _ = False"

text \<open>What \<^verbatim>\<open>base64\<close> and \<^verbatim>\<open>serde_json\<close> document: decoding undoes encoding, parsing undoes printing, and
  the printed text is UTF-8.\<close>

definition cursor_laws :: "'n cursor_ext \<Rightarrow> bool" where
  "cursor_laws C \<longleftrightarrow> (\<forall>t. b64_decode C (b64_encode C t) = Some t) \<and>
     (\<forall>v. js_text v \<longrightarrow> utf8_valid (js_show C v) \<and> js_parse C (js_show C v) = Some v)"

definition utf8_pairs :: "(string \<times> string) list \<Rightarrow> bool" where
  "utf8_pairs kvs \<longleftrightarrow> list_all (\<lambda>(k, v). utf8_valid k \<and> utf8_valid v) kvs"

lemma list_all_bt_insert: "P (k, v) \<Longrightarrow> list_all P m \<Longrightarrow> list_all P (bt_insert k v m)"
  by (induction k v m rule: bt_insert.induct) auto

lemma js_text_member:
  "js_text (JsObject m) \<Longrightarrow> utf8_valid k \<Longrightarrow> js_text v \<Longrightarrow> js_text (JsObject (bt_insert k v m))"
  by (simp add: bt_ok_insert list_all_bt_insert)

lemma js_text_string_map:
  fixes kvs :: "(string \<times> string) list"
  assumes "utf8_pairs kvs"
  shows "js_text (JsObject (string_map kvs) :: 'n js_val)"
proof -
  have "js_text (JsObject (fold (\<lambda>(k, v) m. bt_insert k (JsString v) m) kvs m))"
    if "utf8_pairs kvs" "js_text (JsObject m)" for m :: "(string \<times> 'n js_val) list"
    using that
  proof (induction kvs arbitrary: m)
    case (Cons kv kvs)
    obtain k v where kv: "kv = (k, v)" by (cases kv)
    have "js_text (JsObject (bt_insert k (JsString v) m))"
      using Cons.prems kv by (intro js_text_member) (simp_all add: utf8_pairs_def)
    with Cons kv show ?case by (simp add: utf8_pairs_def del: js_text.simps)
  qed simp
  from this [OF assms, of "[]"] show ?thesis by (simp add: string_map_def)
qed

lemma utf8_names: "utf8_valid ''pk''" "utf8_valid ''sort''"
  by (simp_all add: utf8_valid_ascii)

lemma js_text_cursor:
  assumes "utf8_pairs pk" and "utf8_pairs ss"
  shows "js_text (cursor_json pk ss :: 'n js_val)"
proof -
  have obj: "js_text (JsObject (bt_insert ''pk'' (JsObject (string_map pk)) []) :: 'n js_val)"
    by (rule js_text_member) (simp, rule utf8_names, rule js_text_string_map [OF assms(1)])
  from js_text_member [OF this utf8_names(2) js_text_string_map [OF assms(2)]] obj
  show ?thesis by (simp only: cursor_json_def Let_def split: if_split) simp
qed

lemma decode_encode_cursor:
  assumes "cursor_laws C" and "utf8_pairs pk" and "utf8_pairs ss"
  shows "decode_cursor C (encode_cursor C pk ss) = Inr (string_map pk, string_map ss)"
proof -
  have "js_text (cursor_json pk ss :: 'a js_val)" using js_text_cursor [OF assms(2,3)] .
  with assms(1) show ?thesis
    by (auto simp: cursor_laws_def decode_cursor_def encode_cursor_def cursor_json_def object_field_def
        Let_def string_map_def unwrap_or_def simp del: bt_insert.simps)
qed

section \<open>Keys as text\<close>

text \<open>A value as the decoder gives it for a column of this type: an integer or a UUID for theirs, any value
  for the other types.\<close>

fun is_int_value :: "('t, 'j) pg_value \<Rightarrow> bool" where
  "is_int_value (PgInt _) \<longleftrightarrow> True"
| "is_int_value _ \<longleftrightarrow> False"

fun is_uuid_value :: "('t, 'j) pg_value \<Rightarrow> bool" where
  "is_uuid_value (PgUuid _) \<longleftrightarrow> True"
| "is_uuid_value _ \<longleftrightarrow> False"

fun is_text_value :: "('t, 'j) pg_value \<Rightarrow> bool" where
  "is_text_value (PgText _) \<longleftrightarrow> True"
| "is_text_value _ \<longleftrightarrow> False"

definition int_oids :: "oid set" where
  "int_oids = {23, 20, 21}"

definition key_fits :: "oid \<Rightarrow> ('t, 'j) pg_value \<Rightarrow> bool" where
  "key_fits t v \<longleftrightarrow> (t \<in> int_oids \<longrightarrow> is_int_value v) \<and> (t = 2950 \<longrightarrow> is_uuid_value v)"

text \<open>A key after it was written as text and read back: an integer or a UUID is itself again, a key of any
  other column (boolean, float, timestamp, JSON, or no known column) is its text.\<close>

definition key_read_back :: "('t, 'j) codec_ext \<Rightarrow> oid option \<Rightarrow> ('t, 'j) pg_value \<Rightarrow> ('t, 'j) pg_value" where
  "key_read_back X t v = (case t of Some t \<Rightarrow> if t \<in> int_oids \<or> t = 2950 then v else PgText (pg_value_str X v)
     | None \<Rightarrow> PgText (pg_value_str X v))"

text \<open>The keys that are the same afterwards.\<close>

definition exact_key :: "oid option \<Rightarrow> ('t, 'j) pg_value \<Rightarrow> bool" where
  "exact_key t v \<longleftrightarrow> (\<exists>k \<in> int_oids. t = Some k) \<or> t = Some 2950 \<or> is_text_value v"

lemma key_read_back_exact: "key_read_back X t v = v \<longleftrightarrow> exact_key t v"
  by (cases v) (auto simp: key_read_back_def exact_key_def split: option.split)

definition uuid_laws :: "('t, 'j) codec_ext \<Rightarrow> bool" where
  "uuid_laws X \<longleftrightarrow> (\<forall>u. uuid_parse X (uuid_show X u) = Some u \<and> utf8_valid (uuid_show X u))"

lemma parse_pk_string_show:
  "uuid_laws X \<Longrightarrow> key_fits t v \<Longrightarrow> parse_pk_string X (pg_value_str X v) t = key_read_back X (Some t) v"
  by (cases v) (auto simp: parse_pk_string_def key_read_back_def key_fits_def int_oids_def uuid_laws_def parse_show_i64 unwrap_or_def)

lemma utf8_digits: "list_all is_digit s \<Longrightarrow> utf8_valid s"
  by (rule utf8_valid_ascii) (auto simp: list_all_iff is_digit_def)

definition cursor_pairs :: "('t, 'j) codec_ext \<Rightarrow> string list \<Rightarrow> ('t, 'j) pg_row \<Rightarrow> (string \<times> string) list" where
  "cursor_pairs X pk_cols row = map (\<lambda>pk. (pk, unwrap_or (map_option (pg_value_str X) (row_get row pk)) [])) pk_cols"

lemma map_of_graph: "map_of (map (\<lambda>x. (x, f x)) xs) x = (if x \<in> set xs then Some (f x) else None)"
  by (induction xs) auto

lemma map_of_cursor_pairs:
  "pk \<in> set pk_cols \<Longrightarrow> row_get row pk = Some v \<Longrightarrow>
     map_of (rev (cursor_pairs X pk_cols row)) pk = Some (pg_value_str X v)"
  by (simp add: cursor_pairs_def rev_map map_of_graph unwrap_or_def)

text \<open>The type of the first key column, when it is a column of the resource.\<close>

definition key_oid :: "resolved_resource \<Rightarrow> oid option" where
  "key_oid resource = map_option cv_type_oid (find (\<lambda>c. cv_pg_name c = default_pk resource) (rv_columns resource))"

text \<open>A row with a key: the value of the first key column is one the decoder gives for its type, and the
  texts of all key columns are UTF-8, as those of Rust strings are.\<close>

definition cursor_row :: "('t, 'j) codec_ext \<Rightarrow> resolved_resource \<Rightarrow> ('t, 'j) pg_row \<Rightarrow> ('t, 'j) pg_value \<Rightarrow> bool" where
  "cursor_row X resource row v \<longleftrightarrow>
     rv_primary_key resource \<noteq> [] \<and> row_get row (default_pk resource) = Some v \<and>
     (case key_oid resource of None \<Rightarrow> True | Some t \<Rightarrow> key_fits t v) \<and>
     utf8_pairs (cursor_pairs X (rv_primary_key resource) row)"

definition keyset_condition :: "resolved_resource \<Rightarrow> bool \<Rightarrow> ('t, 'j) pg_value \<Rightarrow> ('t, 'j) pg_value sql_fragment" where
  "keyset_condition resource is_backward v =
     append_frag (push_raw (ident (default_pk resource)) (if is_backward then '' < '' else '' > '')) (param v)"

lemma default_pk_mem: "rv_primary_key resource \<noteq> [] \<Longrightarrow> default_pk resource \<in> set (rv_primary_key resource)"
  by (cases "rv_primary_key resource") (auto simp: default_pk_def)

lemma cursor_condition_row:
  assumes "cursor_laws C" and "uuid_laws X" and row: "cursor_row X resource row v"
  shows "cursor_condition C X resource is_backward (row_cursor C X (rv_primary_key resource) row) =
     Some (keyset_condition resource is_backward (key_read_back X (key_oid resource) v))"
proof -
  let ?kvs = "cursor_pairs X (rv_primary_key resource) row"
  from row have mem: "default_pk resource \<in> set (rv_primary_key resource)" and v: "row_get row (default_pk resource) = Some v"
    and utf8: "utf8_pairs ?kvs" and fits: "case key_oid resource of None \<Rightarrow> True | Some t \<Rightarrow> key_fits t v"
    by (auto simp: cursor_row_def default_pk_mem)
  have "decode_cursor C (row_cursor C X (rv_primary_key resource) row) = Inr (string_map ?kvs, string_map [])"
    using decode_encode_cursor [OF assms(1) utf8, of "[]"] by (simp add: row_cursor_def cursor_pairs_def utf8_pairs_def)
  then have "cursor_condition C X resource is_backward (row_cursor C X (rv_primary_key resource) row) =
      Some (keyset_condition resource is_backward
        (case key_oid resource of Some t \<Rightarrow> parse_pk_string X (pg_value_str X v) t | None \<Rightarrow> PgText (pg_value_str X v)))"
    by (simp add: cursor_condition_def keyset_condition_def map_of_string_map map_of_cursor_pairs [OF mem v] Let_def key_oid_def
        split: option.split)
  with fits show ?thesis
    by (cases "key_oid resource") (simp_all add: parse_pk_string_show [OF assms(2)] key_read_back_def [where t = None])
qed

section \<open>What a connection answers\<close>

definition connection_statement :: "'n cursor_ext \<Rightarrow> ('t, 'j) codec_ext \<Rightarrow> ('t, 'd, 'j) database \<Rightarrow> resolved_resource \<Rightarrow>
    ('t, 'j) connection_args \<Rightarrow> string \<times> ('t, 'j) bind_arg list" where
  "connection_statement C X conn resource args =
     (let b = connection_builder C X resource args
      in (print_items 1 (select_items b), map (bind_value (db_debug conn)) (select_values b)))"

definition ends :: "'r list \<Rightarrow> 'r option \<times> 'r option" where
  "ends rows = (case rows of [] \<Rightarrow> (None, None) | r # _ \<Rightarrow> (Some r, Some (last rows)))"

text \<open>The page made of the fetched rows, before the total count.\<close>

definition page_result :: "(('t, 'j) pg_row \<Rightarrow> string) \<Rightarrow> 64 word \<times> bool \<Rightarrow> ('t, 'j) pg_row list \<Rightarrow> ('t, 'j) connection_result" where
  "page_result cursor lim rows =
     (let page = (if snd lim then rev (take (unat (fst lim)) rows) else take (unat (fst lim)) rows)
      in \<lparr>cr_rows = page, cr_has_next_page = (\<not> snd lim \<and> unat (fst lim) < length rows),
          cr_has_previous_page = (snd lim \<and> unat (fst lim) < length rows),
          cr_start_cursor = map_option cursor (fst (ends page)), cr_end_cursor = map_option cursor (snd (ends page)),
          cr_total_count = None\<rparr>)"

lemma page_of_eq: "page_of n back rows = (if back then rev (take (unat n) rows) else take (unat n) rows, unat n < length rows)"
  by (auto simp: page_of_def Let_def)

lemma ends_cases:
  "map_option f (fst (ends xs)) = (case xs of [] \<Rightarrow> None | r # _ \<Rightarrow> Some (f r))"
  "map_option f (snd (ends xs)) = (if xs = [] then None else Some (f (last xs)))"
  by (simp_all add: ends_def split: list.split)

lemma connection_outcome_eq:
  "select_connection C X conn resource args =
     (case connection_statement C X conn resource args of (sql, as) \<Rightarrow>
      case db_fetch_all conn sql as of
        Inl e \<Rightarrow> ([(sql, as)], Some (Inl (QDatabase e)))
      | Inr rows \<Rightarrow>
          let r = page_result (row_cursor C X (rv_primary_key resource)) (page_limit args) (map (decode_row (db_and_utc conn)) rows)
          in if \<not> ca_need_total_count args then ([(sql, as)], Some (Inr r))
             else ([(sql, as), (count_sql resource, [])],
               Some (case db_fetch_all conn (count_sql resource) [] of
                       Inl e \<Rightarrow> Inl (QDatabase e)
                     | Inr cs \<Rightarrow> Inr (r\<lparr>cr_total_count := count_of (map (decode_row (db_and_utc conn)) cs)\<rparr>))))"
  by (cases "page_limit args")
    (auto simp: select_connection_def connection_statement_def Let_def render_flat [OF connection_builder_flat]
      execute_on_conn_def page_result_def page_of_eq ends_cases split: sum.split)

section \<open>Walking the pages\<close>

definition page_args :: "64 word \<Rightarrow> string option \<Rightarrow> ('t, 'j) connection_args" where
  "page_args n after = connection_args_default\<lparr>ca_first := Some n, ca_after := after\<rparr>"

text \<open>A client that asks for \<open>n\<close> rows at a time and goes on from the end cursor while there is a next
  page; \<open>None\<close> when a request fails or the fuel runs out.\<close>

fun walk_pages :: "'n cursor_ext \<Rightarrow> ('t, 'j) codec_ext \<Rightarrow> ('t, 'd, 'j) database \<Rightarrow> resolved_resource \<Rightarrow> 64 word \<Rightarrow>
    nat \<Rightarrow> string option \<Rightarrow> ('t, 'j) pg_row list option" where
  "walk_pages C X conn resource n 0 after = None"
| "walk_pages C X conn resource n (Suc fuel) after =
     (case snd (select_connection C X conn resource (page_args n after)) of
        Some (Inr r) \<Rightarrow>
          if cr_has_next_page r then map_option ((@) (cr_rows r)) (walk_pages C X conn resource n fuel (cr_end_cursor r))
          else Some (cr_rows r)
      | _ \<Rightarrow> None)"

text \<open>The statement a page request has to send: every row, or those with a key greater than \<open>k\<close>, in the
  order of the key, and one more than the page holds.\<close>

definition keyset_builder :: "resolved_resource \<Rightarrow> 64 word \<Rightarrow> ('t, 'j) pg_value option \<Rightarrow> ('t, 'j) pg_value sql_builder" where
  "keyset_builder resource n k =
     (let b = column_star (sb_from (rv_schema resource) (rv_table resource));
          b = (case k of None \<Rightarrow> b | Some v \<Rightarrow> where_clause b (keyset_condition resource False v))
      in limit (order_by b (ident (default_pk resource)) True) (n + 1))"

text \<open>The database holds the rows \<open>T\<close>, in an order \<open>lt\<close> of their keys, and answers the first of those
  statements, and the one for the key of each row it holds, accordingly.\<close>

definition serves :: "('t, 'd, 'j) database \<Rightarrow> resolved_resource \<Rightarrow> 64 word \<Rightarrow>
    (('t, 'j) pg_value \<Rightarrow> ('t, 'j) pg_value \<Rightarrow> bool) \<Rightarrow> (('t, 'j) pg_row \<Rightarrow> ('t, 'j) pg_value) \<Rightarrow> ('t, 'j) pg_row list \<Rightarrow> bool" where
  "serves conn resource n lt key T \<longleftrightarrow>
     irreflp lt \<and> transp lt \<and> sorted_wrt (\<lambda>r r'. \<not> lt (key r') (key r)) T \<and>
     (\<forall>k \<in> insert None (Some ` key ` set T). \<exists>rows. db_fetch_all conn (print_items 1 (select_items (keyset_builder resource n k)))
             (map (bind_value (db_debug conn)) (select_values (keyset_builder resource n k))) = Inr rows \<and>
           map (decode_row (db_and_utc conn)) rows =
             take (unat (n + 1)) (filter (\<lambda>r. case k of None \<Rightarrow> True | Some v \<Rightarrow> lt v (key r)) T))"

lemma page_args_simps [simp]:
  "page_limit (page_args n after) = (n, False)" "ca_after (page_args n after) = after"
  "ca_condition (page_args n after) = None" "ca_filter (page_args n after) = None"
  "ca_order_by (page_args n after) = []" "ca_need_total_count (page_args n after) = False"
  by (simp_all add: page_args_def connection_args_default_def page_limit_def)

lemma page_builder:
  assumes "case after of None \<Rightarrow> k = None
    | Some c \<Rightarrow> \<exists>v. k = Some v \<and> cursor_condition C X resource False c = Some (keyset_condition resource False v)"
  shows "connection_builder C X resource (page_args n after) = keyset_builder resource n k"
  using assms by (auto simp: connection_builder_def keyset_builder_def Let_def split: option.splits)

text \<open>The rows a walk by pages of \<open>n\<close> reads of those that are left: after a page it goes on with the rows
  whose key is greater than the last one read.\<close>

function keyset_pages :: "nat \<Rightarrow> ('k \<Rightarrow> 'k \<Rightarrow> bool) \<Rightarrow> ('r \<Rightarrow> 'k) \<Rightarrow> 'r list \<Rightarrow> 'r list" where
  "keyset_pages n lt key B =
     (if n = 0 \<or> length B \<le> n then B
      else take n B @ keyset_pages n lt key (filter (\<lambda>r. lt (key (last (take n B))) (key r)) (drop n B)))"
  by pat_completeness auto
termination
  by (relation "measure (\<lambda>(n, lt, key, B). length B)") (auto intro: le_less_trans [OF length_filter_le])

declare keyset_pages.simps [simp del]

lemma keyset_pages_all: "sorted_wrt (\<lambda>r r'. lt (key r) (key r')) B \<Longrightarrow> keyset_pages n lt key B = B"
proof (induction n lt key B rule: keyset_pages.induct)
  case (1 n lt key B)
  show ?case
  proof (cases "n = 0 \<or> length B \<le> n")
    case False
    then have ne: "take n B \<noteq> []" by auto
    have sorted: "sorted_wrt (\<lambda>r r'. lt (key r) (key r')) (take n B @ drop n B)" using "1.prems" by simp
    then have "filter (\<lambda>r. lt (key (last (take n B))) (key r)) (drop n B) = drop n B"
      unfolding sorted_wrt_append filter_id_conv using last_in_set [OF ne] by blast
    moreover have "sorted_wrt (\<lambda>r r'. lt (key r) (key r')) (drop n B)" using sorted unfolding sorted_wrt_append by blast
    ultimately show ?thesis using "1.IH" False by (subst keyset_pages.simps) simp
  qed (simp add: keyset_pages.simps)
qed

text \<open>The rows of \<open>T\<close> that come after the row \<open>a\<close>, in the order of the keys.\<close>

definition rows_after :: "('k \<Rightarrow> 'k \<Rightarrow> bool) \<Rightarrow> ('r \<Rightarrow> 'k) \<Rightarrow> 'r list \<Rightarrow> 'r option \<Rightarrow> 'r list" where
  "rows_after lt key T a = filter (\<lambda>r. case a of None \<Rightarrow> True | Some x \<Rightarrow> lt (key x) (key r)) T"

lemma rows_after_next:
  assumes ord: "irreflp lt" "transp lt" and sorted: "sorted_wrt (\<lambda>r r'. \<not> lt (key r') (key r)) T"
    and B: "rows_after lt key T a = P @ x # Q"
  shows "rows_after lt key T (Some x) = filter (\<lambda>r. lt (key x) (key r)) Q"
proof -
  have "rows_after lt key T (Some x) = filter (\<lambda>r. lt (key x) (key r)) (rows_after lt key T a)"
  proof (cases a)
    case (Some y)
    have "x \<in> set (rows_after lt key T a)" unfolding B by simp
    then have "lt (key y) (key x)" by (simp add: rows_after_def Some)
    with ord(2) show ?thesis by (auto simp: rows_after_def Some intro!: filter_cong dest: transpD)
  qed (simp add: rows_after_def)
  also have "\<dots> = filter (\<lambda>r. lt (key x) (key r)) Q"
  proof -
    have "sorted_wrt (\<lambda>r r'. \<not> lt (key r') (key r)) (rows_after lt key T a)" unfolding rows_after_def by (rule sorted_wrt_filter [OF sorted])
    then have "sorted_wrt (\<lambda>r r'. \<not> lt (key r') (key r)) (P @ x # Q)" unfolding B .
    then have "filter (\<lambda>r. lt (key x) (key r)) P = []" by (auto simp: sorted_wrt_append filter_empty_conv)
    moreover have "\<not> lt (key x) (key x)" using ord(1) by (simp add: irreflpD)
    ultimately show ?thesis by (simp add: B)
  qed
  finally show ?thesis .
qed

text \<open>One request, after the row \<open>a\<close> or from the start.\<close>

lemma page_step:
  assumes laws: "cursor_laws C" "uuid_laws X" and served: "serves conn resource n lt key T"
    and keyed: "\<And>r. r \<in> set T \<Longrightarrow> cursor_row X resource r (key r) \<and> exact_key (key_oid resource) (key r)"
    and a: "set_option a \<subseteq> set T" and n: "unat (n + 1) = Suc (unat n)"
  shows "snd (select_connection C X conn resource (page_args n (map_option (row_cursor C X (rv_primary_key resource)) a))) =
     Some (Inr (page_result (row_cursor C X (rv_primary_key resource)) (n, False) (take (Suc (unat n)) (rows_after lt key T a))))"
proof -
  define k where "k = map_option key a"
  have built: "connection_builder C X resource (page_args n (map_option (row_cursor C X (rv_primary_key resource)) a)) =
      keyset_builder resource n k"
  proof (rule page_builder)
    show "case map_option (row_cursor C X (rv_primary_key resource)) a of None \<Rightarrow> k = None
      | Some c \<Rightarrow> \<exists>v. k = Some v \<and> cursor_condition C X resource False c = Some (keyset_condition resource False v)"
    proof (cases a)
      case (Some x)
      with a keyed [of x] have "cursor_row X resource x (key x)" "key_read_back X (key_oid resource) (key x) = key x"
        by (simp_all add: key_read_back_exact)
      with cursor_condition_row [OF laws this(1)] Some show ?thesis by (simp add: k_def)
    qed (simp add: k_def)
  qed
  have "k \<in> insert None (Some ` key ` set T)" using a by (cases a) (auto simp: k_def)
  with served obtain rows where rows: "db_fetch_all conn (print_items 1 (select_items (keyset_builder resource n k)))
      (map (bind_value (db_debug conn)) (select_values (keyset_builder resource n k))) = Inr rows"
    "map (decode_row (db_and_utc conn)) rows =
       take (unat (n + 1)) (filter (\<lambda>r. case k of None \<Rightarrow> True | Some v \<Rightarrow> lt v (key r)) T)"
    unfolding serves_def by blast
  have "filter (\<lambda>r. case k of None \<Rightarrow> True | Some v \<Rightarrow> lt v (key r)) T = rows_after lt key T a"
    by (cases a) (simp_all add: rows_after_def k_def)
  with rows(2) n have "map (decode_row (db_and_utc conn)) rows = take (Suc (unat n)) (rows_after lt key T a)" by (simp only:)
  with rows(1) show ?thesis by (simp add: connection_outcome_eq connection_statement_def Let_def built)
qed

lemma walk_pages_from:
  assumes laws: "cursor_laws C" "uuid_laws X" and served: "serves conn resource n lt key T"
    and keyed: "\<And>r. r \<in> set T \<Longrightarrow> cursor_row X resource r (key r) \<and> exact_key (key_oid resource) (key r)"
    and n: "unat (n + 1) = Suc (unat n)" "0 < unat n"
    and "set_option a \<subseteq> set T" and "length (rows_after lt key T a) < fuel"
  shows "walk_pages C X conn resource n fuel (map_option (row_cursor C X (rv_primary_key resource)) a) =
    Some (keyset_pages (unat n) lt key (rows_after lt key T a))"
  using assms(7,8)
proof (induction fuel arbitrary: a)
  case (Suc fuel)
  let ?cursor = "row_cursor C X (rv_primary_key resource)" and ?B = "rows_after lt key T a"
  let ?r = "page_result ?cursor (n, False) (take (Suc (unat n)) ?B)"
  have page: "snd (select_connection C X conn resource (page_args n (map_option ?cursor a))) = Some (Inr ?r)"
    by (rule page_step [OF laws served keyed Suc.prems(1) n(1)])
  show ?case
  proof (cases "unat n < length ?B")
    case True
    let ?P = "take (unat n) ?B" and ?x = "last (take (unat n) ?B)"
    have ne: "?P \<noteq> []" using True n(2) by auto
    have cut: "?B = butlast ?P @ ?x # drop (unat n) ?B" using ne append_butlast_last_id [OF ne] by (metis append.assoc append_Cons append_Nil append_take_drop_id)
    have x: "set_option (Some ?x) \<subseteq> set T" using last_in_set [OF ne] by (auto simp: rows_after_def dest: in_set_takeD)
    have rest: "rows_after lt key T (Some ?x) = filter (\<lambda>r. lt (key ?x) (key r)) (drop (unat n) ?B)"
      using served by (intro rows_after_next [OF _ _ _ cut]) (auto simp: serves_def)
    have "length (rows_after lt key T (Some ?x)) < fuel"
      unfolding rest using Suc.prems(2) True n(2) by (auto intro: le_less_trans [OF length_filter_le])
    from Suc.IH [OF x this] have "walk_pages C X conn resource n fuel (Some (?cursor ?x)) =
        Some (keyset_pages (unat n) lt key (filter (\<lambda>r. lt (key ?x) (key r)) (drop (unat n) ?B)))" unfolding rest by simp
    moreover have "cr_end_cursor ?r = Some (?cursor ?x)"
      using ne by (simp add: page_result_def Let_def ends_cases del: take_eq_Nil)
    moreover have "keyset_pages (unat n) lt key ?B = ?P @ keyset_pages (unat n) lt key (filter (\<lambda>r. lt (key ?x) (key r)) (drop (unat n) ?B))"
      by (subst keyset_pages.simps) (use True n(2) in simp)
    ultimately show ?thesis using True by (simp add: page) (simp add: page_result_def Let_def)
  next
    case False
    then show ?thesis by (simp add: page page_result_def Let_def keyset_pages.simps [of _ _ _ ?B])
  qed
qed simp

section \<open>Mutations and batches\<close>

lemma foldl_columns:
  "ib_columns (foldl insert_column b cs) = ib_columns b @ cs"
  "ub_set_columns (foldl update_set u cs) = ub_set_columns u @ cs"
  "ub_where_columns (foldl update_set u cs) = ub_where_columns u"
  "ub_set_columns (foldl update_where_eq u cs) = ub_set_columns u"
  "ub_where_columns (foldl update_where_eq u cs) = ub_where_columns u @ cs"
  "db_where_columns (foldl delete_where_eq d cs) = db_where_columns d @ cs"
  by (induction cs arbitrary: b u d)
    (simp_all add: insert_column_def update_set_def update_where_eq_def delete_where_eq_def)

lemma new_columns [simp]:
  "ib_columns (insert_new sch tab) = []" "ub_set_columns (update_new sch tab) = []"
  "ub_where_columns (update_new sch tab) = []" "db_where_columns (delete_new sch tab) = []"
  by (simp_all add: insert_new_def update_new_def delete_new_def)

definition insert_of :: "resolved_resource \<Rightarrow> string list \<Rightarrow> insert_builder" where
  "insert_of resource cols = foldl insert_column (insert_new (rv_schema resource) (rv_table resource)) cols"

definition update_of :: "resolved_resource \<Rightarrow> string list \<Rightarrow> string list \<Rightarrow> update_builder" where
  "update_of resource cols keys =
     foldl update_where_eq (foldl update_set (update_new (rv_schema resource) (rv_table resource)) cols) keys"

definition delete_of :: "resolved_resource \<Rightarrow> string list \<Rightarrow> delete_builder" where
  "delete_of resource keys = foldl delete_where_eq (delete_new (rv_schema resource) (rv_table resource)) keys"

lemma mutation_builds:
  "Option.bind (insert_build (insert_of resource (map fst cvs)) (map snd cvs)) build =
     Some (print_items 1 (insert_template (insert_of resource (map fst cvs))), map snd cvs)"
  "Option.bind (update_build (update_of resource (map fst cvs) (map fst kvs)) (map snd cvs) (map snd kvs)) build =
     Some (print_items 1 (update_template (update_of resource (map fst cvs) (map fst kvs))), map snd cvs @ map snd kvs)"
  "Option.bind (delete_build (delete_of resource (map fst kvs)) (map snd kvs)) build =
     Some (print_items 1 (delete_template (delete_of resource (map fst kvs))), map snd kvs)"
proof -
  have "\<exists>f. insert_build (insert_of resource (map fst cvs)) (map snd cvs) = Some f \<and>
      build f = Some (print_items 1 (insert_template (insert_of resource (map fst cvs))), map snd cvs)"
    by (rule ins.stmt_renders) (simp add: insert_of_def foldl_columns)
  then show "Option.bind (insert_build (insert_of resource (map fst cvs)) (map snd cvs)) build =
     Some (print_items 1 (insert_template (insert_of resource (map fst cvs))), map snd cvs)" by auto
  have "\<exists>f. delete_build (delete_of resource (map fst kvs)) (map snd kvs) = Some f \<and>
      build f = Some (print_items 1 (delete_template (delete_of resource (map fst kvs))), map snd kvs)"
    by (rule del.stmt_renders) (simp add: delete_of_def foldl_columns)
  then show "Option.bind (delete_build (delete_of resource (map fst kvs)) (map snd kvs)) build =
     Some (print_items 1 (delete_template (delete_of resource (map fst kvs))), map snd kvs)" by auto
  have "length (map snd cvs @ map snd kvs) = holes (update_template (update_of resource (map fst cvs) (map fst kvs)))"
    by (simp add: update_of_def foldl_columns)
  from upd.stmt_renders [OF this]
  show "Option.bind (update_build (update_of resource (map fst cvs) (map fst kvs)) (map snd cvs) (map snd kvs)) build =
     Some (print_items 1 (update_template (update_of resource (map fst cvs) (map fst kvs))), map snd cvs @ map snd kvs)"
    by (simp add: update_of_def foldl_columns split: if_splits) auto
qed

text \<open>A statement made of a template and its values, and the first row the database answers to it.\<close>

definition bound :: "('t, 'd, 'j) database \<Rightarrow> template \<Rightarrow> ('t, 'j) pg_value list \<Rightarrow> string \<times> ('t, 'j) bind_arg list" where
  "bound conn t vs = (print_items 1 t, map (bind_value (db_debug conn)) vs)"

definition first_answer :: "('t, 'd, 'j) database \<Rightarrow> string \<times> ('t, 'j) bind_arg list \<Rightarrow> query_error + ('t, 'j) pg_row option" where
  "first_answer conn stmt =
     (case db_fetch_all conn (fst stmt) (snd stmt) of
        Inl e \<Rightarrow> Inl (QDatabase e)
      | Inr [] \<Rightarrow> Inr None
      | Inr (r # _) \<Rightarrow> Inr (Some (decode_row (db_and_utc conn) r)))"

lemma run_built_eq:
  "run_built conn (Some (print_items 1 t, vs)) =
     (let stmt = bound conn t vs in ([stmt], Some (first_answer conn stmt)))"
  by (simp add: run_built_def first_row_def execute_on_conn_def bound_def first_answer_def Let_def
      split: sum.split list.split)

lemma file_rows_eq:
  "file_rows X rows m =
     assoc_group (\<lambda>row. pg_value_str X (the (row_get row ''parent_id_key'')))
       (filter (\<lambda>row. row_get row ''parent_id_key'' \<noteq> None) rows) m"
  by (induction X rows m rule: file_rows.induct) (auto split: option.split)

lemma file_rows_lookup:
  "unwrap_or (map_of (file_rows X rows []) k) [] =
     filter (\<lambda>row. map_option (pg_value_str X) (row_get row ''parent_id_key'') = Some k) rows"
proof -
  have "unwrap_or (map_of (file_rows X rows []) k) [] =
      filter (\<lambda>row. pg_value_str X (the (row_get row ''parent_id_key'')) = k)
        (filter (\<lambda>row. row_get row ''parent_id_key'' \<noteq> None) rows)"
    by (simp only: unwrap_or_def file_rows_eq assoc_group_default)
  also have "\<dots> = filter (\<lambda>row. map_option (pg_value_str X) (row_get row ''parent_id_key'') = Some k) rows"
    by (auto intro!: filter_cong)
  finally show ?thesis .
qed

lemma case_rev: "(case rev xs of [] \<Rightarrow> d | x # _ \<Rightarrow> f x) = (if xs = [] then d else f (last xs))"
  by (cases xs rule: rev_cases) auto

lemma index_rows_lookup:
  "map_of (index_rows X pk rows m) k =
     (case rev (filter (\<lambda>row. map_option (pg_value_str X) (row_get row pk) = Some k) rows) of
        [] \<Rightarrow> map_of m k | row # _ \<Rightarrow> Some row)"
  by (induction X pk rows m rule: index_rows.induct) (auto split: option.split list.split)

text \<open>What a batch sends and answers: \<open>answer\<close> is applied to the rows of the one query.\<close>

definition claims_statement :: "('t, 'j) codec_ext \<Rightarrow> 'j jwt_claims \<Rightarrow> string \<times> ('t, 'j) bind_arg list" where
  "claims_statement X c = (rls_sql, [BText (json_show X (jc_raw c)), BText (uuid_show X (jc_sub c)), BText (role_as_str (jc_role c))])"

definition batch_outcome :: "('t, 'j) codec_ext \<Rightarrow> string + ('t, 'd, 'j) database \<Rightarrow> 'j jwt_claims option \<Rightarrow>
    string \<times> ('t, 'j) bind_arg list \<Rightarrow> (('t, 'j) pg_row list \<Rightarrow> 'a) \<Rightarrow> ('t, 'j) sent \<times> (query_error + 'a)" where
  "batch_outcome X acquired claims query answer =
     (case acquired of
        Inl e \<Rightarrow> ([], Inl (QDatabase e))
      | Inr conn \<Rightarrow>
          (let before = map (claims_statement X) (case claims of None \<Rightarrow> [] | Some c \<Rightarrow> [c]) in
           case find (\<lambda>st. isl (db_fetch_all conn (fst st) (snd st))) before of
             Some st \<Rightarrow> (before, Inl (QRlsError (projl (db_fetch_all conn (fst st) (snd st)))))
           | None \<Rightarrow> (before @ [query],
               case db_fetch_all conn (fst query) (snd query) of
                 Inl e \<Rightarrow> Inl (QDatabase e)
               | Inr rows \<Rightarrow> Inr (answer (map (decode_row (db_and_utc conn)) rows)))))"

section \<open>Properties\<close>

text \<open>C5: walking a table by its end cursors. The primary key of the table is one column whose values are
  integers, UUIDs or texts; the table does not change meanwhile, and the database answers the keyset
  statements for the keys in the table from its rows \<open>T\<close>, which are ordered by distinct keys (in any
  order of its own); the cursor crates read back what they write. Then a client that asks for a
  positive number of rows and follows \<open>endCursor\<close> while \<open>hasNextPage\<close> holds gets every row exactly
  once, in order, within one request per row and one more.\<close>

theorem pages_cover_table:
  assumes "cursor_laws C" and "uuid_laws X" and "serves conn resource n lt key T"
    and "rv_primary_key resource = [pk]" and "sorted_wrt (\<lambda>r r'. lt (key r) (key r')) T"
    and "\<And>r. r \<in> set T \<Longrightarrow> cursor_row X resource r (key r) \<and> exact_key (key_oid resource) (key r)"
    and "0 < unat n" and "unat n < 2 ^ 63 - 1"
  shows "walk_pages C X conn resource n (Suc (length T)) None = Some T"
proof -
  have "unat (n + 1) = Suc (unat n)"
    using assms(8) by (simp add: unat_word_ariths)
  then show ?thesis
    using walk_pages_from [OF assms(1-3,6) _ assms(7), of None "Suc (length T)"] keyset_pages_all [where lt = lt and key = key and B = T, OF assms(5)]
    by (simp add: rows_after_def)
qed

text \<open>Of a composite key only the first column is compared. When a page ends inside a group of rows that
  share its value, the rest of the group is never read.\<close>

theorem composite_key_skips:
  assumes "cursor_laws C" and "uuid_laws X" and "serves conn resource n lt key (P @ r # Q)" and "distinct (P @ r # Q)"
    and "\<And>r'. r' \<in> set (P @ r # Q) \<Longrightarrow> cursor_row X resource r' (key r') \<and> exact_key (key_oid resource) (key r')"
    and "0 < unat n" and "unat n < 2 ^ 63 - 1" and "length P = unat n" and "key (last P) = key r"
  shows "\<exists>R. walk_pages C X conn resource n (Suc (length (P @ r # Q))) None = Some R \<and> r \<notin> set R"
proof -
  let ?T = "P @ r # Q" and ?B = "filter (\<lambda>x. lt (key (last P)) (key x)) (r # Q)"
  have "unat (n + 1) = Suc (unat n)"
    using assms(7) by (simp add: unat_word_ariths)
  then have walk: "walk_pages C X conn resource n (Suc (length ?T)) None = Some (keyset_pages (unat n) lt key ?T)"
    using walk_pages_from [OF assms(1-3,5) _ assms(6), of None "Suc (length ?T)"] by (simp add: rows_after_def)
  have pages: "keyset_pages (unat n) lt key ?T = P @ keyset_pages (unat n) lt key ?B"
    by (subst keyset_pages.simps) (use assms(6,8) in simp)
  have "set (keyset_pages m l f B) \<subseteq> set B" for m l and f :: "('b, 'c) pg_row \<Rightarrow> ('b, 'c) pg_value" and B
  proof (induction m l f B rule: keyset_pages.induct)
    case (1 m l f B)
    then show ?case by (subst keyset_pages.simps) (auto dest: in_set_takeD in_set_dropD)
  qed
  moreover have "r \<notin> set ?B" using assms(3,4,9) by (auto simp: serves_def irreflpD)
  ultimately have "r \<notin> set (keyset_pages (unat n) lt key ?B)" by blast
  with assms(4) have "r \<notin> set (P @ keyset_pages (unat n) lt key ?B)" by simp
  with walk pages show ?thesis by metis
qed

definition posts_resource :: resolved_resource where
  "posts_resource = \<lparr>rv_name = ''Post'', rv_schema = ''public'', rv_table = ''posts'', rv_kind = RTable,
     rv_columns = [\<lparr>cv_pg_name = ''id'', cv_gql_name = ''id'', cv_type_oid = 20, cv_gql_type = ''BigInt'', cv_is_not_null = True, cv_has_default = False\<rparr>],
     rv_primary_key = [''id''], rv_unique_constraints = [], rv_class_oid = 1\<rparr>"

text \<open>A database of the four posts that understands the keyset statements.\<close>

definition posts_db :: "(nat, nat, nat) database" where
  "posts_db = demo_db\<lparr>db_fetch_all := (\<lambda>sql args. Inr (map demo_row
     (case args of
        [BI64 m] \<Rightarrow> take (unat m) demo_posts
      | [BI64 k, BI64 m] \<Rightarrow> take (unat m) (filter (\<lambda>post. sint k < sint (post ! 0)) demo_posts)
      | _ \<Rightarrow> [])))\<rparr>"

definition posts_table :: "(nat, nat) pg_row list" where
  "posts_table = map (\<lambda>post. post_row (post ! 0) (post ! 1)) demo_posts"

fun int_less :: "('t, 'j) pg_value \<Rightarrow> ('t, 'j) pg_value \<Rightarrow> bool" where
  "int_less (PgInt a) (PgInt b) \<longleftrightarrow> sint a < sint b"
| "int_less _ _ \<longleftrightarrow> False"

definition posts_key :: "(nat, nat) pg_row \<Rightarrow> (nat, nat) pg_value" where
  "posts_key r = the (row_get r ''id'')"

definition plain_ext :: "(nat, nat) codec_ext" where
  "plain_ext = demo_ext\<lparr>uuid_parse := (\<lambda>s. Some (of_nat (read_nat s))), uuid_show := (\<lambda>u. show_nat (unat u))\<rparr>"

instance js_val :: (countable) countable
  by countable_datatype

text \<open>JSON values written as their number.\<close>

definition plain_cursor_ext :: "nat cursor_ext" where
  "plain_cursor_ext = \<lparr>b64_encode = rev, b64_decode = (\<lambda>s. Some (rev s)),
     js_show = (\<lambda>v. show_nat (to_nat v)), js_parse = (\<lambda>s. Some (from_nat (read_nat s)))\<rparr>"

lemma plain_laws: "cursor_laws plain_cursor_ext" "uuid_laws plain_ext"
  by (simp_all add: cursor_laws_def uuid_laws_def plain_cursor_ext_def plain_ext_def utf8_digits show_nat_digits read_show_nat)

lemma decode_demo_row: "decode_row id (demo_row p) = post_row (p ! 0) (p ! 1)"
  by (simp add: decode_row_def demo_row_def post_row_def decode_column_def fetched_or_null_def)

lemma bind_value_BI64: "bind_value dbg v = BI64 k \<longleftrightarrow> v = PgInt k"
  by (cases "(dbg, v)" rule: bind_value.cases) (auto split: pg_value.split)

lemma posts_sorted: "sorted_wrt (\<lambda>r r'. int_less (posts_key r) (posts_key r')) posts_table"
  by code_simp

lemma posts_served: "serves posts_db posts_resource 2 int_less posts_key posts_table"
  unfolding serves_def
proof (intro conjI ballI)
  show "irreflp (int_less :: (nat, nat) pg_value \<Rightarrow> _)"
  proof (rule irreflpI)
    show "\<not> int_less a a" for a :: "(nat, nat) pg_value" by (cases a) auto
  qed
  show "transp (int_less :: (nat, nat) pg_value \<Rightarrow> _)"
  proof (rule transpI)
    show "int_less a b \<Longrightarrow> int_less b c \<Longrightarrow> int_less a c" for a b c :: "(nat, nat) pg_value"
      by (cases a; cases b; cases c) auto
  qed
  show "sorted_wrt (\<lambda>r r'. \<not> int_less (posts_key r') (posts_key r)) posts_table" by code_simp
  fix k :: "(nat, nat) pg_value option"
  assume "k \<in> insert None (Some ` posts_key ` set posts_table)"
  then have k: "k = None \<or> (\<exists>i. k = Some (PgInt i))"
    by (auto simp: posts_table_def posts_key_def post_row_def)
  let ?b = "keyset_builder posts_resource 2 k"
  have vals: "select_values ?b = (case k of None \<Rightarrow> [] | Some v \<Rightarrow> [v]) @ [PgInt 3]"
    by (simp add: keyset_builder_def Let_def select_values_def limit_def order_by_def where_clause_def column_star_def
        sb_from_def keyset_condition_def frag_values_def split: option.split)
  show "\<exists>rows. db_fetch_all posts_db (print_items 1 (select_items ?b)) (map (bind_value (db_debug posts_db)) (select_values ?b)) =
        Inr rows \<and> map (decode_row (db_and_utc posts_db)) rows =
        take (unat (2 + 1 :: 64 word)) (filter (\<lambda>r. case k of None \<Rightarrow> True | Some v \<Rightarrow> int_less v (posts_key r)) posts_table)"
    using k unfolding vals
    by (auto simp: posts_db_def demo_db_def posts_table_def posts_key_def post_row_def decode_demo_row o_def
        filter_map take_map split: option.splits)
qed

lemma posts_rows:
  "r \<in> set posts_table \<Longrightarrow> cursor_row plain_ext posts_resource r (posts_key r) \<and> exact_key (key_oid posts_resource) (posts_key r)"
proof -
  have "utf8_valid (show_i64 n)" if "0 \<le> sint n" for n
    using that by (simp add: show_i64_def show_int_def utf8_digits show_nat_digits)
  then show "r \<in> set posts_table \<Longrightarrow> ?thesis"
    by (auto simp: posts_table_def demo_posts_def cursor_row_def key_oid_def exact_key_def key_fits_def int_oids_def posts_resource_def
        default_pk_def posts_key_def post_row_def utf8_pairs_def cursor_pairs_def unwrap_or_def utf8_valid_ascii)
qed

theorem pages_cover_table_witness:
  "walk_pages plain_cursor_ext plain_ext posts_db posts_resource 2 5 None =
     Some [post_row 10 1, post_row 11 2, post_row 12 1, post_row 13 9]"
proof -
  have "walk_pages plain_cursor_ext plain_ext posts_db posts_resource 2 (Suc (length posts_table)) None = Some posts_table"
    by (rule pages_cover_table [OF plain_laws posts_served _ posts_sorted posts_rows]) (simp_all add: posts_resource_def)
  then show ?thesis by (simp add: posts_table_def demo_posts_def eval_nat_numeral)
qed

text \<open>C34: cursors round trip. The cursor of a row, whatever the types of its key columns, decodes to their
  texts, and sent back as \<open>after\<close> or \<open>before\<close> it becomes the keyset condition on the first key column
  alone. The value compared is the row's own key value exactly when that column is an integer or a
  UUID or the value is a text; a boolean, float, timestamp or JSON key is compared as its text.\<close>

theorem cursor_resumes:
  assumes "cursor_laws C" and "uuid_laws X" and "cursor_row X resource row v"
  shows "decode_cursor C (row_cursor C X (rv_primary_key resource) row) =
      Inr (string_map (cursor_pairs X (rv_primary_key resource) row), []) \<and>
    cursor_condition C X resource is_backward (row_cursor C X (rv_primary_key resource) row) =
      Some (append_frag (push_raw (ident (default_pk resource)) (if is_backward then '' < '' else '' > ''))
        (param (key_read_back X (key_oid resource) v))) \<and>
    (key_read_back X (key_oid resource) v = v \<longleftrightarrow> exact_key (key_oid resource) v)"
proof (intro conjI key_read_back_exact)
  show "decode_cursor C (row_cursor C X (rv_primary_key resource) row) =
      Inr (string_map (cursor_pairs X (rv_primary_key resource) row), [])"
    using decode_encode_cursor [OF assms(1), of "cursor_pairs X (rv_primary_key resource) row" "[]"] assms(3)
    by (simp add: row_cursor_def cursor_pairs_def [symmetric] cursor_row_def utf8_pairs_def) (simp add: string_map_def)
  show "cursor_condition C X resource is_backward (row_cursor C X (rv_primary_key resource) row) =
      Some (append_frag (push_raw (ident (default_pk resource)) (if is_backward then '' < '' else '' > ''))
        (param (key_read_back X (key_oid resource) v)))"
    using cursor_condition_row [OF assms] by (simp add: keyset_condition_def)
qed

theorem cursor_resumes_witness:
  "cursor_condition plain_cursor_ext plain_ext posts_resource True
     (row_cursor plain_cursor_ext plain_ext [''id''] (post_row 12 1)) =
     Some (append_frag (push_raw (ident ''id'') '' < '') (param (PgInt 12)))"
proof -
  have "cursor_row plain_ext posts_resource (post_row 12 1) (PgInt 12)"
    using posts_rows [of "post_row 12 1"] by (simp add: posts_table_def demo_posts_def posts_key_def post_row_def)
  from cursor_resumes [OF plain_laws this, of True] show ?thesis
    by (simp add: posts_resource_def default_pk_def key_oid_def key_read_back_def int_oids_def)
qed

text \<open>So the second page of a table with a timestamp key is asked for by comparing the timestamps with a
  text.\<close>

theorem timestamp_key_compared_as_text:
  assumes "cursor_laws C" and "uuid_laws X" and "cursor_row X resource row (PgTimestamp t)" and "key_oid resource = Some 1184"
  shows "cursor_condition C X resource False (row_cursor C X (rv_primary_key resource) row) =
    Some (append_frag (push_raw (ident (default_pk resource)) '' > '') (param (PgText (dt_show X t))))"
  using cursor_condition_row [OF assms(1-3), of False] assms(4) by (simp add: keyset_condition_def key_read_back_def int_oids_def)

lemma exec_mutations:
  "exec_insert conn resource cvs =
     (let stmt = bound conn (insert_template (insert_of resource (map fst cvs))) (map snd cvs)
      in ([stmt], Some (case first_answer conn stmt of
             Inl e \<Rightarrow> Inl e | Inr None \<Rightarrow> Inl QNotFound | Inr (Some row) \<Rightarrow> Inr row))) \<and>
   exec_update conn resource kvs cvs =
     (let stmt = bound conn (update_template (update_of resource (map fst cvs) (map fst kvs))) (map snd cvs @ map snd kvs)
      in ([stmt], Some (first_answer conn stmt))) \<and>
   exec_delete conn resource kvs =
     (let stmt = bound conn (delete_template (delete_of resource (map fst kvs))) (map snd kvs)
      in ([stmt], Some (first_answer conn stmt)))"
  unfolding exec_insert_def exec_update_def exec_delete_def
    insert_of_def [symmetric] update_of_def [symmetric] delete_of_def [symmetric] mutation_builds run_built_eq Let_def
  by (simp split: sum.split option.split)

text \<open>What the executor's mutations send and answer. Each sends exactly one statement, whose text
  depends on the resource and the column names alone and whose parameters are the values, set
  values before key values; none panics. An insert that returns no row is \<open>NotFound\<close>; an update or
  delete that returns none answers no row; a database error is passed on.\<close>

theorem executor_mutations:
  "exec_insert conn resource cvs =
     (let stmt = bound conn (insert_template (insert_of resource (map fst cvs))) (map snd cvs)
      in ([stmt], Some (case first_answer conn stmt of
             Inl e \<Rightarrow> Inl e | Inr None \<Rightarrow> Inl QNotFound | Inr (Some row) \<Rightarrow> Inr row))) \<and>
   exec_update conn resource kvs cvs =
     (let stmt = bound conn (update_template (update_of resource (map fst cvs) (map fst kvs))) (map snd cvs @ map snd kvs)
      in ([stmt], Some (first_answer conn stmt))) \<and>
   exec_delete conn resource kvs =
     (let stmt = bound conn (delete_template (delete_of resource (map fst kvs))) (map snd kvs)
      in ([stmt], Some (first_answer conn stmt)))"
  by (rule exec_mutations)

lemma batch_lookup_outcomes:
  assumes "ids \<noteq> []"
  shows "(case select_by_fk_batch X acquired claims resource fk t ids n of (sent, r) \<Rightarrow>
      (sent, map_sum id (\<lambda>m k. unwrap_or (map_of m k) []) r)) =
      batch_outcome X acquired claims (fk_batch_sql resource fk t, [BTexts ids, BI64 n])
        (\<lambda>rows k. filter (\<lambda>row. map_option (pg_value_str X) (row_get row ''parent_id_key'') = Some k) rows) \<and>
    (case select_by_pk_batch X acquired claims resource pk t ids of (sent, r) \<Rightarrow> (sent, map_sum id map_of r)) =
      batch_outcome X acquired claims (pk_batch_sql resource pk t, [BTexts ids])
        (\<lambda>rows k. let hits = filter (\<lambda>row. map_option (pg_value_str X) (row_get row pk) = Some k) rows
                  in if hits = [] then None else Some (last hits))"
proof -
  have hits: "map_of (index_rows X pk rows []) = (\<lambda>k. let hits = filter (\<lambda>row. map_option (pg_value_str X) (row_get row pk) = Some k) rows
      in if hits = [] then None else Some (last hits))" for rows
    by (simp add: fun_eq_iff index_rows_lookup case_rev Let_def)
  show ?thesis
    using assms
    by (auto simp: select_by_fk_batch_def select_by_pk_batch_def batch_fetch_def batch_outcome_def apply_rls_context_def claims_statement_def
        file_rows_lookup hits Let_def split: sum.split option.split)
qed

text \<open>C24: the batched relation lookups. Without keys nothing is sent. Otherwise the claims, when there are
  any, are applied on the connection before the query, and nothing is queried when that fails; one
  query carries all the keys as one parameter, and each key is answered by exactly the fetched
  rows that carry it, in the order fetched (by foreign key), or by the last of them (by primary
  key).\<close>

theorem batch_lookups:
  assumes "ids \<noteq> []"
  shows "(case select_by_fk_batch X acquired claims resource fk t ids n of (sent, r) \<Rightarrow>
      (sent, map_sum id (\<lambda>m k. unwrap_or (map_of m k) []) r)) =
      batch_outcome X acquired claims (fk_batch_sql resource fk t, [BTexts ids, BI64 n])
        (\<lambda>rows k. filter (\<lambda>row. map_option (pg_value_str X) (row_get row ''parent_id_key'') = Some k) rows) \<and>
    (case select_by_pk_batch X acquired claims resource pk t ids of (sent, r) \<Rightarrow> (sent, map_sum id map_of r)) =
      batch_outcome X acquired claims (pk_batch_sql resource pk t, [BTexts ids])
        (\<lambda>rows k. let hits = filter (\<lambda>row. map_option (pg_value_str X) (row_get row pk) = Some k) rows
                  in if hits = [] then None else Some (last hits))"
  by (rule batch_lookup_outcomes [OF assms])

theorem batch_lookups_witness:
  "fst (select_by_pk_batch plain_ext (Inr demo_db) None posts_resource ''id'' 20 [''11'']) =
     [(pk_batch_sql posts_resource ''id'' 20, [BTexts [''11'']])] \<and>
   map_sum id (\<lambda>m. map_of m ''11'') (snd (select_by_pk_batch plain_ext (Inr demo_db) None posts_resource ''id'' 20 [''11''])) =
     Inr (Some (post_row 11 2))"
proof -
  let ?q = "(pk_batch_sql posts_resource ''id'' 20, [BTexts [''11'']])" and ?r = "select_by_pk_batch plain_ext (Inr demo_db) None posts_resource ''id'' 20 [''11'']"
  define answer where "answer = (\<lambda>rows k. let hits = filter (\<lambda>row. map_option (pg_value_str plain_ext) (row_get row ''id'') = Some k) rows
      in if hits = [] then None else Some (last hits))"
  have "(fst ?r, map_sum id map_of (snd ?r)) = batch_outcome plain_ext (Inr demo_db) None ?q answer"
    unfolding answer_def
    using batch_lookups [of "[''11'']" plain_ext "Inr demo_db" None posts_resource "[]" 20 0 "''id''"] by (simp add: split_beta)
  moreover have "batch_outcome plain_ext (Inr demo_db) None ?q answer =
      ([?q], Inr (answer (map (\<lambda>p. post_row (p ! 0) (p ! 1)) demo_posts)))"
    by (simp add: batch_outcome_def demo_db_def decode_demo_row o_def)
  moreover have "answer (map (\<lambda>p. post_row (p ! 0) (p ! 1)) demo_posts) ''11'' = Some (post_row 11 2)"
    unfolding answer_def by code_simp
  ultimately show ?thesis by (cases "snd ?r") (auto simp: fun_eq_iff)
qed

text \<open>The arguments \<open>filter\<close>, \<open>orderBy\<close> and \<open>condition\<close> of a connection field are never read, and a cursor
  that does not decode is as good as none.\<close>

lemma value_case:
  "P a \<Longrightarrow> (\<And>i. P (u i)) \<Longrightarrow> P (case v of Some (GNumber i f) \<Rightarrow> u i | _ \<Rightarrow> a)"
  "P a \<Longrightarrow> (\<And>s. P (w s)) \<Longrightarrow> P (case v of Some (GString s) \<Rightarrow> w s | _ \<Rightarrow> a)"
  by (auto split: option.split gql_value.split)

theorem connection_args_unread:
  fixes args :: "string \<rightharpoonup> 'x gql_value"
  shows "let a = connection_args_from args t :: ('t, 'j) connection_args
    in ca_filter a = None \<and> ca_order_by a = [] \<and> ca_condition a = None"
proof -
  define P where "P a \<longleftrightarrow> ca_filter a = None \<and> ca_order_by a = [] \<and> ca_condition a = None" for a :: "('t, 'j) connection_args"
  have steps: "P a \<Longrightarrow> P (a\<lparr>ca_first := i\<rparr>)" "P a \<Longrightarrow> P (a\<lparr>ca_last := i\<rparr>)" "P a \<Longrightarrow> P (a\<lparr>ca_after := c\<rparr>)"
    "P a \<Longrightarrow> P (a\<lparr>ca_before := c\<rparr>)" "P a \<Longrightarrow> P (a\<lparr>ca_need_total_count := b\<rparr>)" "P connection_args_default" for a i c b
    by (simp_all add: P_def connection_args_default_def)
  have "P (connection_args_from args t)"
    unfolding connection_args_from_def Let_def by (intro steps value_case [of P])
  then show ?thesis by (simp add: P_def Let_def)
qed

theorem invalid_cursor_ignored:
  "b64_decode C c = None \<Longrightarrow>
     connection_builder C X resource (page_args n (Some c)) = connection_builder C X resource (page_args n None)"
  by (simp add: connection_builder_def cursor_condition_def decode_cursor_def Let_def)

text \<open>The nested conditions of a filter are dropped.\<close>

theorem nested_filters_ignored:
  "ca_filter args = Some (FilterInput ops xs ys z) \<Longrightarrow>
     connection_builder C X resource args = connection_builder C X resource (args\<lparr>ca_filter := Some (FilterInput ops [] [] None)\<rparr>)"
  by (cases args) (simp add: connection_builder_def page_limit_def Let_def split_beta cong: option.case_cong if_cong)

text \<open>The count statement is the same whatever rows the connection selects, and its names are not escaped.\<close>

theorem count_unescaped:
  "count_sql (posts_resource\<lparr>rv_table := [CHR 0x22]\<rparr>) =
     ''SELECT COUNT(*) FROM '' @ dquoted ''public'' @ ''.'' @ [CHR 0x22, CHR 0x22, CHR 0x22]"
  by (simp add: count_sql_def dquoted_def posts_resource_def)

end
