(* ===== verification/Subscriptions.thy ===== *)
theory Subscriptions
  imports Build_Exec
begin

text \<open>
  \<^verbatim>\<open>magna-subscriptions\<close>: the publisher of mutation events (\<^verbatim>\<open>publisher.rs\<close>) and the manager that fans
  notifications out to subscribers (\<^verbatim>\<open>listener.rs\<close>). The broadcast channels are the crate \<^verbatim>\<open>tokio\<close>: a
  sender is a number, what was sent is a log, and a receiver is a sender with the place in the log
  from which it reads. Whether a statement of the listener succeeds is an argument.
\<close>

section \<open>The publisher\<close>

datatype subscription_error =
    SubDatabase string
  | PayloadTooLarge nat
  | Serialization string
  | ChannelError string

abbreviation MAX_PAYLOAD_BYTES :: nat where "MAX_PAYLOAD_BYTES \<equiv> 7900"

record notify_payload =
  np_channel :: string
  np_pk_text :: string

text \<open>The size check each function ends with.\<close>

definition check_size :: "string \<Rightarrow> subscription_error + string" where
  "check_size text = (if MAX_PAYLOAD_BYTES \<le> length text then Inl (PayloadTooLarge (length text)) else Inr text)"

definition pk_to_text :: "('t, 'j) codec_ext \<Rightarrow> (('t, 'j) pg_value \<Rightarrow> string) \<Rightarrow> ('t, 'j) pg_value \<Rightarrow> subscription_error + string" where
  "pk_to_text X dbg pk =
     (case pk of
        PgUuid u \<Rightarrow> check_size (uuid_show X u)
      | PgInt n \<Rightarrow> check_size (show_i64 n)
      | PgText s \<Rightarrow> check_size s
      | PgNull \<Rightarrow> Inl (Serialization ''NULL is not a valid primary key'')
      | other \<Rightarrow> Inl (Serialization (''Unsupported PgValue variant for primary key: '' @ dbg other)))"

fun pk_object :: "('t, 'j) codec_ext \<Rightarrow> (('t, 'j) pg_value \<Rightarrow> string) \<Rightarrow> (string \<times> ('t, 'j) pg_value) list \<Rightarrow>
    (string \<times> 'n js_val) list \<Rightarrow> subscription_error + (string \<times> 'n js_val) list" where
  "pk_object X dbg [] m = Inr m"
| "pk_object X dbg ((col, val) # columns) m =
     rbind (pk_to_text X dbg val) (\<lambda>text_val. pk_object X dbg columns (bt_insert col (JsString text_val) m))"

definition composite_pk_to_text :: "'n cursor_ext \<Rightarrow> ('t, 'j) codec_ext \<Rightarrow> (('t, 'j) pg_value \<Rightarrow> string) \<Rightarrow>
    (string \<times> ('t, 'j) pg_value) list \<Rightarrow> subscription_error + string" where
  "composite_pk_to_text J X dbg columns =
     rbind (pk_object X dbg columns []) (\<lambda>m. check_size (js_show J (JsObject m)))"

definition notify_sql :: string where
  "notify_sql = ''SELECT pg_notify($1, $2)''"

definition notify_mutation :: "('t, 'd, 'j) database \<Rightarrow> string \<Rightarrow> string \<Rightarrow> ('t, 'j) sent \<times> (subscription_error + unit)" where
  "notify_mutation conn channel pk_text =
     (if MAX_PAYLOAD_BYTES \<le> length pk_text then ([], Inl (PayloadTooLarge (length pk_text)))
      else ([(notify_sql, [BText channel, BText pk_text])],
            case db_fetch_all conn notify_sql [BText channel, BText pk_text] of
              Inl e \<Rightarrow> Inl (SubDatabase e) | Inr _ \<Rightarrow> Inr ()))"

definition mutation_channel :: "string \<Rightarrow> string \<Rightarrow> string" where
  "mutation_channel schema table = schema @ ''_'' @ table @ ''_mutation''"

section \<open>The manager\<close>

record manager =
  sm_listening :: "string list"
  sm_channels :: "(string \<times> nat) list"
  sm_next :: nat
  sm_sent :: "(nat \<times> notify_payload) list"

record receiver =
  rc_sender :: nat
  rc_from :: nat

definition manager_new :: manager where
  "manager_new = \<lparr>sm_listening = [], sm_channels = [], sm_next = 0, sm_sent = []\<rparr>"

definition new_receiver :: "manager \<Rightarrow> nat \<Rightarrow> receiver" where
  "new_receiver m i = \<lparr>rc_sender = i, rc_from = length (sm_sent m)\<rparr>"

definition subscribe :: "manager \<Rightarrow> string \<Rightarrow> string + unit \<Rightarrow> manager \<times> (subscription_error + receiver)" where
  "subscribe m channel listened =
     (case map_of (sm_channels m) channel of
        Some i \<Rightarrow> (m, Inr (new_receiver m i))
      | None \<Rightarrow>
          (case listened of
             Inl e \<Rightarrow> (m, Inl (SubDatabase e))
           | Inr _ \<Rightarrow>
               (m\<lparr>sm_listening := channel # sm_listening m,
                  sm_channels := assoc_insert channel (sm_next m) (sm_channels m), sm_next := Suc (sm_next m)\<rparr>,
                Inr (new_receiver m (sm_next m)))))"

definition unsubscribe :: "manager \<Rightarrow> string \<Rightarrow> string + unit \<Rightarrow> manager \<times> (subscription_error + unit)" where
  "unsubscribe m channel unlistened =
     (case unlistened of
        Inl e \<Rightarrow> (m, Inl (SubDatabase e))
      | Inr _ \<Rightarrow>
          (m\<lparr>sm_listening := removeAll channel (sm_listening m),
             sm_channels := filter (\<lambda>e. fst e \<noteq> channel) (sm_channels m)\<rparr>, Inr ()))"

definition channel_count :: "manager \<Rightarrow> nat" where
  "channel_count m = length (sm_channels m)"

text \<open>The body of the dispatch loop for one notification, and the loop on what the listener receives; a
  list that is used up stands for a loop that is still waiting.\<close>

definition dispatch :: "manager \<Rightarrow> notify_payload \<Rightarrow> manager" where
  "dispatch m payload =
     (case map_of (sm_channels m) (np_channel payload) of
        None \<Rightarrow> m | Some i \<Rightarrow> m\<lparr>sm_sent := sm_sent m @ [(i, payload)]\<rparr>)"

fun run_manager :: "manager \<Rightarrow> (string + notify_payload) list \<Rightarrow> manager" where
  "run_manager m [] = m"
| "run_manager m (Inl e # ns) = run_manager m ns"
| "run_manager m (Inr payload # ns) = run_manager (dispatch m payload) ns"

text \<open>What has been sent to a receiver since it subscribed.\<close>

definition received :: "manager \<Rightarrow> receiver \<Rightarrow> notify_payload list" where
  "received m r = map snd (filter (\<lambda>e. fst e = rc_sender r) (drop (rc_from r) (sm_sent m)))"

section \<open>Payloads\<close>

lemma check_size_Inr: "check_size t = Inr s \<longleftrightarrow> s = t \<and> length t < MAX_PAYLOAD_BYTES"
  by (auto simp: check_size_def)

lemma composite_pk_size: "composite_pk_to_text J X dbg columns = Inr s \<Longrightarrow> length s < MAX_PAYLOAD_BYTES"
  by (cases "pk_object X dbg columns [] :: subscription_error + (string \<times> 'a js_val) list")
    (auto simp: composite_pk_to_text_def check_size_Inr)

text \<open>Payloads are bounded: the text of a key, of one column or of several, is shorter than the limit, and
  every notification that is sent carries a text shorter than the limit; a longer one is reported
  and nothing is sent.\<close>

theorem payload_bounded:
  "(case pk_to_text X dbg v of Inr s \<Rightarrow> length s < 7900 | Inl _ \<Rightarrow> True) \<and>
   (case composite_pk_to_text J X dbg columns of Inr s \<Rightarrow> length s < 7900 | Inl _ \<Rightarrow> True) \<and>
   (case notify_mutation conn channel text of
      (sent, Inr _) \<Rightarrow> length text < 7900 \<and> sent = [(notify_sql, [BText channel, BText text])]
    | (sent, Inl (PayloadTooLarge n)) \<Rightarrow> sent = [] \<and> n = length text \<and> 7900 \<le> n
    | (sent, Inl _) \<Rightarrow> length text < 7900)"
  using composite_pk_size [of J X dbg columns]
  by (auto simp: pk_to_text_def notify_mutation_def check_size_def split: pg_value.split sum.split)

text \<open>Two tables may share a channel.\<close>

theorem channels_collide: "mutation_channel ''a_b'' ''c'' = mutation_channel ''a'' ''b_c''"
  by (simp add: mutation_channel_def)

section \<open>Delivery\<close>

datatype manager_op = Subscribe string "string + unit" | Unsubscribe string "string + unit"

fun apply_op :: "manager \<Rightarrow> manager_op \<Rightarrow> manager" where
  "apply_op m (Subscribe c r) = fst (subscribe m c r)"
| "apply_op m (Unsubscribe c r) = fst (unsubscribe m c r)"

text \<open>The manager listens to exactly the channels that have a sender, and no two channels share one.\<close>

definition manager_inv :: "manager \<Rightarrow> bool" where
  "manager_inv m \<longleftrightarrow> set (sm_listening m) = dom (map_of (sm_channels m)) \<and>
     (\<forall>c i. map_of (sm_channels m) c = Some i \<longrightarrow> i < sm_next m) \<and>
     (\<forall>c d i. map_of (sm_channels m) c = Some i \<and> map_of (sm_channels m) d = Some i \<longrightarrow> c = d)"

lemma apply_op_inv: "manager_inv m \<Longrightarrow> manager_inv (apply_op m a)"
proof (induction m a rule: apply_op.induct)
  case (1 m c r)
  then show ?case
    by (auto simp: manager_inv_def subscribe_def less_Suc_eq split: option.splits sum.splits if_splits)
next
  case (2 m c r)
  then show ?case
    by (auto simp: manager_inv_def unsubscribe_def map_of_filter_fst
        split: option.splits sum.splits if_splits)
qed

lemma reachable_inv: "manager_inv m \<Longrightarrow> manager_inv (foldl apply_op m ops)"
  by (induction ops arbitrary: m) (auto intro: apply_op_inv)

lemma manager_new_inv: "manager_inv manager_new"
  by (simp add: manager_inv_def manager_new_def)

text \<open>Subscribing and unsubscribing send nothing, and leave the sender of another channel alone.\<close>

lemma apply_op_sent: "sm_sent (foldl apply_op m ops) = sm_sent m"
proof -
  have "sm_sent (apply_op m a) = sm_sent m" for m a
    by (cases "(m, a)" rule: apply_op.cases) (auto simp: subscribe_def unsubscribe_def split: option.split sum.split)
  then show ?thesis by (induction ops arbitrary: m) auto
qed

lemma apply_op_keeps:
  "map_of (sm_channels m) c = Some i \<Longrightarrow> Unsubscribe c (Inr ()) \<notin> set ops \<Longrightarrow>
     map_of (sm_channels (foldl apply_op m ops)) c = Some i"
proof (induction ops arbitrary: m)
  case (Cons a ops)
  have "map_of (sm_channels (apply_op m a)) c = Some i"
    using Cons.prems
    by (cases "(m, a)" rule: apply_op.cases)
      (auto simp: subscribe_def unsubscribe_def map_of_filter_fst split: option.splits sum.splits)
  then show ?case using Cons by simp
qed simp

lemma subscribe_Inr:
  assumes "subscribe m c listened = (m', Inr r)"
  shows "map_of (sm_channels m') c = Some (rc_sender r)" and "rc_from r = length (sm_sent m')"
  using assms by (auto simp: subscribe_def new_receiver_def split: option.splits sum.splits)

lemma run_manager_sent:
  "sm_sent (run_manager m ns) = sm_sent m @ List.map_filter (\<lambda>p. map_option (\<lambda>i. (i, p)) (map_of (sm_channels m) (np_channel p)))
     (List.map_filter (case_sum (\<lambda>_. None) Some) ns)"
  by (induction m ns rule: run_manager.induct) (auto simp: dispatch_def map_filter_simps split: option.split)

lemma run_manager_received:
  assumes "manager_inv m" and "map_of (sm_channels m) c = Some (rc_sender r)" and "rc_from r = length (sm_sent m)"
  shows "received (run_manager m ns) r = filter (\<lambda>p. np_channel p = c) (List.map_filter (case_sum (\<lambda>_. None) Some) ns)"
proof -
  have "map snd (filter (\<lambda>e. fst e = rc_sender r) (List.map_filter (\<lambda>p. map_option (\<lambda>i. (i, p)) (map_of (sm_channels m) (np_channel p))) ps)) =
      filter (\<lambda>p. np_channel p = c) ps" for ps
  proof (induction ps)
    case (Cons p ps)
    have "map_of (sm_channels m) (np_channel p) = Some (rc_sender r) \<longleftrightarrow> np_channel p = c"
      using assms(1,2) by (auto simp: manager_inv_def)
    then show ?case using Cons
      by (cases "map_of (sm_channels m) (np_channel p)") (auto simp: map_filter_simps)
  qed (simp add: map_filter_simps)
  then show ?thesis by (simp add: received_def run_manager_sent assms(3))
qed

text \<open>C31: subscriptions are delivered. A receiver obtained for a channel, after any sequence of
  subscriptions and cancellations (failed ones included), is sent exactly the notifications of
  that channel, in order, as long as the channel is not cancelled before the manager runs; errors
  of the connection are skipped. Senders are shared by the receivers of a channel and by no other.\<close>

theorem subscriptions_delivered:
  assumes "subscribe (foldl apply_op manager_new ops) c listened = (m, Inr r)"
    and "Unsubscribe c (Inr ()) \<notin> set ops'"
  shows "received (run_manager (foldl apply_op m ops') ns) r =
    filter (\<lambda>p. np_channel p = c) (List.map_filter (case_sum (\<lambda>_. None) Some) ns)"
proof (rule run_manager_received)
  have "manager_inv (foldl apply_op manager_new ops)" by (rule reachable_inv [OF manager_new_inv])
  then have "manager_inv m" using assms(1) apply_op_inv [of _ "Subscribe c listened"] by (metis apply_op.simps(1) fst_conv)
  then show "manager_inv (foldl apply_op m ops')" by (rule reachable_inv)
  show "map_of (sm_channels (foldl apply_op m ops')) c = Some (rc_sender r)"
    by (rule apply_op_keeps [OF subscribe_Inr(1) [OF assms(1)] assms(2)])
  show "rc_from r = length (sm_sent (foldl apply_op m ops'))"
    by (simp add: apply_op_sent subscribe_Inr(2) [OF assms(1)])
qed

theorem subscriptions_delivered_witness:
  "let ops = [Subscribe ''a'' (Inr ()), Subscribe ''b'' (Inl ''down'')];
       n = (\<lambda>c t. \<lparr>np_channel = c, np_pk_text = t\<rparr>)
   in received (run_manager (foldl apply_op (fst (subscribe (foldl apply_op manager_new ops) ''b'' (Inr ()))) [Unsubscribe ''a'' (Inr ())])
        [Inr (n ''b'' ''1''), Inl ''lost'', Inr (n ''a'' ''2''), Inr (n ''b'' ''3'')])
        \<lparr>rc_sender = 1, rc_from = 0\<rparr> = [n ''b'' ''1'', n ''b'' ''3'']"
proof -
  let ?m = "foldl apply_op manager_new [Subscribe ''a'' (Inr ()), Subscribe ''b'' (Inl ''down'')]"
  have "subscribe ?m ''b'' (Inr ()) = (fst (subscribe ?m ''b'' (Inr ())), Inr \<lparr>rc_sender = 1, rc_from = 0\<rparr>)"
    by (simp add: subscribe_def manager_new_def new_receiver_def)
  from subscriptions_delivered [OF this, of "[Unsubscribe ''a'' (Inr ())]"] show ?thesis
    by (simp add: Let_def map_filter_simps del: run_manager.simps)
qed

end
