(* ===== verification/Build_Resolve.thy ===== *)
theory Build_Resolve
  imports Build_Exec
begin

text \<open>
  The resolvers of generated fields, of \<^verbatim>\<open>magna-build\<close>: what columns, connections and page infos read from
  their parent (\<^verbatim>\<open>register/object_types.rs\<close>, \<^verbatim>\<open>register/connections.rs\<close>), node ids
  (\<^verbatim>\<open>register/node_interface.rs\<close>), queries and mutations (\<^verbatim>\<open>resolve/query.rs\<close>, \<^verbatim>\<open>resolve/mutation.rs\<close>) and
  relations with their loaders (\<^verbatim>\<open>resolve/relation.rs\<close>, \<^verbatim>\<open>executor/dataloader.rs\<close>). A resolver returns the
  statements it sent and an error message or a value, \<open>None\<close> for a panic. The texts of errors that
  other crates report are left out.
\<close>

section \<open>Values\<close>

record page_info_data =
  pi_has_next_page :: bool
  pi_has_previous_page :: bool
  pi_start_cursor :: "string option"
  pi_end_cursor :: "string option"

record ('t, 'j) connection_data =
  cd_rows :: "('t, 'j) pg_row list"
  cd_page_info :: page_info_data
  cd_total_count :: "64 word option"

record ('t, 'j) edge_data =
  ed_row :: "('t, 'j) pg_row"
  ed_cursor :: string

text \<open>\<^verbatim>\<open>FieldValue\<close>: a value, a list, or a boxed value a child resolver downcasts.\<close>

datatype ('t, 'j, 'x) field_value =
    FVal "'x gql_value"
  | FRow "('t, 'j) pg_row"
  | FConn "('t, 'j) connection_data"
  | FPage page_info_data
  | FEdge "('t, 'j) edge_data"
  | FList "('t, 'j, 'x) field_value list"

text \<open>What \<^verbatim>\<open>serde_json\<close> and \<^verbatim>\<open>async_graphql\<close> do with numbers.\<close>

record ('n, 'x) number_ext =
  nx_as_i64 :: "'n \<Rightarrow> 64 word option"
  nx_as_f64 :: "'n \<Rightarrow> 64 word option"
  nx_show :: "'n \<Rightarrow> string"
  nx_of_i64 :: "64 word \<Rightarrow> 'x gql_value"
  nx_of_f64 :: "64 word \<Rightarrow> 'x gql_value"

fun json_to_gql_value :: "('n, 'x) number_ext \<Rightarrow> 'n js_val \<Rightarrow> 'x gql_value" where
  "json_to_gql_value N JsNull = GNull"
| "json_to_gql_value N (JsBool b) = GBoolean b"
| "json_to_gql_value N (JsNumber n) =
     (case nx_as_i64 N n of
        Some i \<Rightarrow> nx_of_i64 N i
      | None \<Rightarrow> (case nx_as_f64 N n of Some f \<Rightarrow> nx_of_f64 N f | None \<Rightarrow> GString (nx_show N n)))"
| "json_to_gql_value N (JsString s) = GString s"
| "json_to_gql_value N (JsArray vs) = GList (map (json_to_gql_value N) vs)"
| "json_to_gql_value N (JsObject m) = GObject (map (\<lambda>(k, v). (k, json_to_gql_value N v)) m)"

fun pg_value_to_field_value :: "('n, 'x) number_ext \<Rightarrow> ('t, 'n js_val) codec_ext \<Rightarrow> ('t, 'n js_val) pg_value \<Rightarrow>
    ('t, 'n js_val, 'x) field_value" where
  "pg_value_to_field_value N X PgNull = FVal GNull"
| "pg_value_to_field_value N X (PgBool b) = FVal (GBoolean b)"
| "pg_value_to_field_value N X (PgInt i) = FVal (nx_of_i64 N i)"
| "pg_value_to_field_value N X (PgFloat f) = FVal (nx_of_f64 N f)"
| "pg_value_to_field_value N X (PgText s) = FVal (GString s)"
| "pg_value_to_field_value N X (PgUuid u) = FVal (GString (uuid_show X u))"
| "pg_value_to_field_value N X (PgTimestamp t) = FVal (GString (dt_show X t))"
| "pg_value_to_field_value N X (PgJson j) = FVal (json_to_gql_value N j)"
| "pg_value_to_field_value N X (PgArray vs) = FList (map (pg_value_to_field_value N X) vs)"

section \<open>Fields of rows, connections and pages\<close>

text \<open>The resolver of a column, given the parent.\<close>

definition column_resolver :: "('n, 'x) number_ext \<Rightarrow> ('t, 'n js_val) codec_ext \<Rightarrow> string \<Rightarrow>
    ('t, 'n js_val, 'x) field_value \<Rightarrow> ('t, 'n js_val, 'x) field_value" where
  "column_resolver N X pg_name parent =
     (case parent of
        FRow row \<Rightarrow> (case row_get row pg_name of Some v \<Rightarrow> pg_value_to_field_value N X v | None \<Rightarrow> FVal GNull)
      | _ \<Rightarrow> FVal GNull)"

definition has_next_page_resolver :: "('t, 'j, 'x) field_value \<Rightarrow> ('t, 'j, 'x) field_value" where
  "has_next_page_resolver parent = FVal (GBoolean (case parent of FPage d \<Rightarrow> pi_has_next_page d | _ \<Rightarrow> False))"

definition has_previous_page_resolver :: "('t, 'j, 'x) field_value \<Rightarrow> ('t, 'j, 'x) field_value" where
  "has_previous_page_resolver parent = FVal (GBoolean (case parent of FPage d \<Rightarrow> pi_has_previous_page d | _ \<Rightarrow> False))"

definition cursor_value :: "string option \<Rightarrow> ('t, 'j, 'x) field_value" where
  "cursor_value c = (case c of Some s \<Rightarrow> FVal (GString s) | None \<Rightarrow> FVal GNull)"

definition start_cursor_resolver :: "('t, 'j, 'x) field_value \<Rightarrow> ('t, 'j, 'x) field_value" where
  "start_cursor_resolver parent = cursor_value (case parent of FPage d \<Rightarrow> pi_start_cursor d | _ \<Rightarrow> None)"

definition end_cursor_resolver :: "('t, 'j, 'x) field_value \<Rightarrow> ('t, 'j, 'x) field_value" where
  "end_cursor_resolver parent = cursor_value (case parent of FPage d \<Rightarrow> pi_end_cursor d | _ \<Rightarrow> None)"

definition edge_node_resolver :: "('t, 'j, 'x) field_value \<Rightarrow> ('t, 'j, 'x) field_value" where
  "edge_node_resolver parent = (case parent of FEdge e \<Rightarrow> FRow (ed_row e) | _ \<Rightarrow> FVal GNull)"

definition edge_cursor_resolver :: "('t, 'j, 'x) field_value \<Rightarrow> ('t, 'j, 'x) field_value" where
  "edge_cursor_resolver parent = (case parent of FEdge e \<Rightarrow> FVal (GString (ed_cursor e)) | _ \<Rightarrow> FVal GNull)"

definition nodes_resolver :: "('t, 'j, 'x) field_value \<Rightarrow> ('t, 'j, 'x) field_value" where
  "nodes_resolver parent = (case parent of FConn d \<Rightarrow> FList (map FRow (cd_rows d)) | _ \<Rightarrow> FList [])"

definition edges_resolver :: "('t, 'j, 'x) field_value \<Rightarrow> ('t, 'j, 'x) field_value" where
  "edges_resolver parent =
     (case parent of
        FConn d \<Rightarrow> FList (map (\<lambda>(i, row). FEdge \<lparr>ed_row = row, ed_cursor = ''cursor_'' @ show_nat i\<rparr>) (enumerate 0 (cd_rows d)))
      | _ \<Rightarrow> FList [])"

text \<open>\<^verbatim>\<open>n as i32\<close> keeps the low 32 bits.\<close>

definition total_count_resolver :: "('n, 'x) number_ext \<Rightarrow> ('t, 'j, 'x) field_value \<Rightarrow> ('t, 'j, 'x) field_value" where
  "total_count_resolver N parent =
     (case parent of
        FConn d \<Rightarrow> (case cd_total_count d of
            Some n \<Rightarrow> FVal (nx_of_i64 N (scast (ucast n :: 32 word))) | None \<Rightarrow> FVal GNull)
      | _ \<Rightarrow> FVal GNull)"

definition page_info_empty :: page_info_data where
  "page_info_empty = \<lparr>pi_has_next_page = False, pi_has_previous_page = False, pi_start_cursor = None, pi_end_cursor = None\<rparr>"

definition page_info_resolver :: "('t, 'j, 'x) field_value \<Rightarrow> ('t, 'j, 'x) field_value" where
  "page_info_resolver parent = (case parent of FConn d \<Rightarrow> FPage (cd_page_info d) | _ \<Rightarrow> FPage page_info_empty)"

section \<open>Node ids\<close>

datatype node_id_error = BadBase64 | BadUtf8 | NoSeparator

definition encode_node_id :: "'n cursor_ext \<Rightarrow> string \<Rightarrow> (string \<times> string) list \<Rightarrow> string" where
  "encode_node_id C type_name pk_values =
     b64_encode C
       (case pk_values of
          [] \<Rightarrow> type_name @ '':''
        | [(_, val)] \<Rightarrow> type_name @ '':'' @ val
        | pairs \<Rightarrow> type_name @ '':'' @ str_join '','' (map (\<lambda>(col, val). col @ ''='' @ val) pairs))"

definition decode_node_id :: "'n cursor_ext \<Rightarrow> string \<Rightarrow> node_id_error + string \<times> string" where
  "decode_node_id C node_id =
     (case b64_decode C node_id of
        None \<Rightarrow> Inl BadBase64
      | Some bytes \<Rightarrow>
          if \<not> utf8_valid bytes then Inl BadUtf8
          else (case split_once CHR '':'' bytes of None \<Rightarrow> Inl NoSeparator | Some (t, pk) \<Rightarrow> Inr (t, pk)))"

definition node_id_resolver :: "'n cursor_ext \<Rightarrow> ('t, 'j) codec_ext \<Rightarrow> resolved_resource \<Rightarrow> ('t, 'j, 'x) field_value \<Rightarrow>
    ('t, 'j, 'x) field_value" where
  "node_id_resolver C X resource parent =
     (case parent of
        FRow row \<Rightarrow> FVal (GString (encode_node_id C (rv_name resource)
          (map (\<lambda>col. (col, unwrap_or (map_option (pg_value_str X) (row_get row col)) [])) (rv_primary_key resource))))
      | _ \<Rightarrow> FVal GNull)"

section \<open>Queries\<close>

type_synonym ('t, 'j, 'x) resolved = "('t, 'j) sent \<times> (string + ('t, 'j, 'x) field_value option) option"

abbreviation no_connection :: "('t, 'j, 'x) resolved" where
  "no_connection \<equiv> ([], Some (Inl ''No database connection in request context''))"

definition allx_resolver :: "'n cursor_ext \<Rightarrow> ('t, 'j) codec_ext \<Rightarrow> resolved_resource \<Rightarrow> ('t, 'd, 'j) database option \<Rightarrow>
    (string \<rightharpoonup> 'x gql_value) \<Rightarrow> bool \<Rightarrow> ('t, 'j, 'x) resolved" where
  "allx_resolver C X resource conn args total_count_requested =
     (case conn of
        None \<Rightarrow> no_connection
      | Some conn \<Rightarrow>
          (case select_connection C X conn resource (connection_args_from args total_count_requested) of
             (sent, None) \<Rightarrow> (sent, None)
           | (sent, Some (Inl e)) \<Rightarrow> (sent, Some (Inl (into_gql e)))
           | (sent, Some (Inr r)) \<Rightarrow>
               (sent, Some (Inr (Some (FConn \<lparr>cd_rows = cr_rows r,
                  cd_page_info = \<lparr>pi_has_next_page = cr_has_next_page r, pi_has_previous_page = cr_has_previous_page r,
                    pi_start_cursor = cr_start_cursor r, pi_end_cursor = cr_end_cursor r\<rparr>,
                  cd_total_count = cr_total_count r\<rparr>))))))"

definition by_pk_resolver :: "('t, 'j) codec_ext \<Rightarrow> resolved_resource \<Rightarrow> ('t, 'd, 'j) database option \<Rightarrow>
    (string \<rightharpoonup> 'x gql_value) \<Rightarrow> ('t, 'j, 'x) resolved" where
  "by_pk_resolver X resource conn args =
     (case conn of
        None \<Rightarrow> no_connection
      | Some conn \<Rightarrow>
          (let pk_values = map (\<lambda>pk_col. (pk_col, gql_value_to_pg_value X (unwrap_or (args (to_camel_case pk_col)) GNull)))
                             (rv_primary_key resource)
           in case select_by_pk conn resource pk_values of
                (sent, None) \<Rightarrow> (sent, None)
              | (sent, Some (Inl e)) \<Rightarrow> (sent, Some (Inl (into_gql e)))
              | (sent, Some (Inr (Some row))) \<Rightarrow> (sent, Some (Inr (Some (FRow row))))
              | (sent, Some (Inr None)) \<Rightarrow> (sent, Some (Inr None))))"

section \<open>Mutations\<close>

text \<open>\<^verbatim>\<open>parse_pk_values_from_str\<close>; \<^verbatim>\<open>splitn(2, '=')\<close> gives a second part only when there is a separator.\<close>

definition pk_pair :: "('t, 'j) codec_ext \<Rightarrow> resolved_resource \<Rightarrow> string \<Rightarrow> (string \<times> ('t, 'j) pg_value) option" where
  "pk_pair X resource part =
     (case split_once CHR ''='' part of
        None \<Rightarrow> None
      | Some (k, v) \<Rightarrow>
          (case find (\<lambda>c. cv_pg_name c = trim k) (rv_columns resource) of
             None \<Rightarrow> None
           | Some col \<Rightarrow> Some (trim k, parse_pk_string X (trim v) (cv_type_oid col))))"

definition parse_pk_values_from_str :: "('t, 'j) codec_ext \<Rightarrow> resolved_resource \<Rightarrow> string \<Rightarrow>
    string + (string \<times> ('t, 'j) pg_value) list" where
  "parse_pk_values_from_str X resource pk_str =
     (case rv_primary_key resource of
        [pk_col] \<Rightarrow>
          (let type_oid = (case find (\<lambda>c. cv_pg_name c = pk_col) (rv_columns resource) of Some c \<Rightarrow> cv_type_oid c | None \<Rightarrow> 25)
           in Inr [(pk_col, parse_pk_string X pk_str type_oid)])
      | _ \<Rightarrow>
          (let pairs = List.map_filter (pk_pair X resource) (split_char CHR '','' pk_str)
           in if pairs = [] then Inl ''could not parse composite PK from nodeId'' else Inr pairs))"

text \<open>The columns given in an input object.\<close>

definition input_columns :: "('t, 'j) codec_ext \<Rightarrow> resolved_resource \<Rightarrow> (string \<times> 'x gql_value) list \<Rightarrow>
    (string \<times> ('t, 'j) pg_value) list" where
  "input_columns X resource m =
     List.map_filter (\<lambda>col. map_option (\<lambda>v. (cv_pg_name col, gql_value_to_pg_value X v)) (map_of m (cv_gql_name col))) (rv_columns resource)"

definition create_resolver :: "('t, 'j) codec_ext \<Rightarrow> resolved_resource \<Rightarrow> ('t, 'd, 'j) database option \<Rightarrow>
    (string \<rightharpoonup> 'x gql_value) \<Rightarrow> ('t, 'j, 'x) resolved" where
  "create_resolver X resource conn args =
     (case conn of
        None \<Rightarrow> no_connection
      | Some conn \<Rightarrow>
          (case args ''input'' of
             None \<Rightarrow> ([], Some (Inl ''missing input argument''))
           | Some (GObject m) \<Rightarrow>
               (case exec_insert conn resource (input_columns X resource m) of
                  (sent, None) \<Rightarrow> (sent, None)
                | (sent, Some (Inl e)) \<Rightarrow> (sent, Some (Inl (into_gql e)))
                | (sent, Some (Inr row)) \<Rightarrow> (sent, Some (Inr (Some (FRow row)))))
           | Some _ \<Rightarrow> ([], Some (Inl ''input must be an object''))))"

fun as_string :: "'x gql_value \<Rightarrow> string option" where
  "as_string (GString s) = Some s"
| "as_string _ = None"

definition node_id_error_display :: "node_id_error \<Rightarrow> string" where
  "node_id_error_display e =
     (case e of BadBase64 \<Rightarrow> ''invalid base64'' | BadUtf8 \<Rightarrow> ''invalid UTF-8'' | NoSeparator \<Rightarrow> ''node ID missing '' @ quoted '':'' @ '' separator'')"

text \<open>The row a node id stands for, and the common end of an update and a delete.\<close>

definition node_id_keys :: "'n cursor_ext \<Rightarrow> ('t, 'j) codec_ext \<Rightarrow> resolved_resource \<Rightarrow> string \<Rightarrow>
    string + (string \<times> ('t, 'j) pg_value) list" where
  "node_id_keys C X resource node_id =
     (case decode_node_id C node_id of
        Inl e \<Rightarrow> Inl (node_id_error_display e)
      | Inr (_, pk_str) \<Rightarrow> parse_pk_values_from_str X resource pk_str)"

definition row_or_null :: "('t, 'j) sent \<times> (query_error + ('t, 'j) pg_row option) option \<Rightarrow> ('t, 'j, 'x) resolved" where
  "row_or_null r =
     (fst r, map_option (\<lambda>x. case x of
        Inl e \<Rightarrow> Inl (into_gql e) | Inr (Some row) \<Rightarrow> Inr (Some (FRow row)) | Inr None \<Rightarrow> Inr (Some (FVal GNull))) (snd r))"

definition update_resolver :: "'n cursor_ext \<Rightarrow> ('t, 'j) codec_ext \<Rightarrow> resolved_resource \<Rightarrow> ('t, 'd, 'j) database option \<Rightarrow>
    (string \<rightharpoonup> 'x gql_value) \<Rightarrow> ('t, 'j, 'x) resolved" where
  "update_resolver C X resource conn args =
     (case conn of
        None \<Rightarrow> no_connection
      | Some conn \<Rightarrow>
          (case args ''input'' of
             None \<Rightarrow> ([], Some (Inl ''missing input argument''))
           | Some (GObject m) \<Rightarrow>
               (case Option.bind (map_of m ''nodeId'') as_string of
                  None \<Rightarrow> ([], Some (Inl ''missing nodeId in update input''))
                | Some node_id \<Rightarrow>
                    (case map_of m ''patch'' of
                       None \<Rightarrow> ([], Some (Inl ''missing patch in update input''))
                     | Some patch_val \<Rightarrow>
                         (case node_id_keys C X resource node_id of
                            Inl e \<Rightarrow> ([], Some (Inl e))
                          | Inr pk_values \<Rightarrow>
                              (case patch_val of
                                 GObject patch_map \<Rightarrow>
                                   row_or_null (exec_update conn resource pk_values (input_columns X resource patch_map))
                               | _ \<Rightarrow> ([], Some (Inl ''patch must be an object''))))))
           | Some _ \<Rightarrow> ([], Some (Inl ''input must be an object''))))"

definition delete_resolver :: "'n cursor_ext \<Rightarrow> ('t, 'j) codec_ext \<Rightarrow> resolved_resource \<Rightarrow> ('t, 'd, 'j) database option \<Rightarrow>
    (string \<rightharpoonup> 'x gql_value) \<Rightarrow> ('t, 'j, 'x) resolved" where
  "delete_resolver C X resource conn args =
     (case conn of
        None \<Rightarrow> no_connection
      | Some conn \<Rightarrow>
          (case args ''input'' of
             None \<Rightarrow> ([], Some (Inl ''missing input argument''))
           | Some (GObject m) \<Rightarrow>
               (case Option.bind (map_of m ''nodeId'') as_string of
                  None \<Rightarrow> ([], Some (Inl ''missing nodeId in delete input''))
                | Some node_id \<Rightarrow>
                    (case node_id_keys C X resource node_id of
                       Inl e \<Rightarrow> ([], Some (Inl e))
                     | Inr pk_values \<Rightarrow> row_or_null (exec_delete conn resource pk_values)))
           | Some _ \<Rightarrow> ([], Some (Inl ''input must be an object''))))"

section \<open>Relations and their loaders\<close>

record 'j has_many_loader =
  hm_resource :: resolved_resource
  hm_fk_column :: string
  hm_fk_column_oid :: oid
  hm_claims :: "'j jwt_claims option"
  hm_default_limit :: "64 word"

record 'j belongs_to_loader =
  bl_resource :: resolved_resource
  bl_pk_column :: string
  bl_pk_column_oid :: oid
  bl_claims :: "'j jwt_claims option"

definition has_many_load :: "('t, 'j) codec_ext \<Rightarrow> string + ('t, 'd, 'j) database \<Rightarrow> 'j has_many_loader \<Rightarrow> string list \<Rightarrow>
    ('t, 'j) sent \<times> (query_error + (string \<times> ('t, 'j) pg_row list) list)" where
  "has_many_load X acquired l keys =
     (case select_by_fk_batch X acquired (hm_claims l) (hm_resource l) (hm_fk_column l) (hm_fk_column_oid l) keys
             (hm_default_limit l) of
        (sent, Inl e) \<Rightarrow> (sent, Inl e)
      | (sent, Inr result) \<Rightarrow> (sent, Inr (assoc_collect (map (\<lambda>k. (k, unwrap_or (map_of result k) [])) keys))))"

definition belongs_to_load :: "('t, 'j) codec_ext \<Rightarrow> string + ('t, 'd, 'j) database \<Rightarrow> 'j belongs_to_loader \<Rightarrow> string list \<Rightarrow>
    ('t, 'j) sent \<times> (query_error + (string \<times> ('t, 'j) pg_row) list)" where
  "belongs_to_load X acquired l keys =
     (case select_by_pk_batch X acquired (bl_claims l) (bl_resource l) (bl_pk_column l) (bl_pk_column_oid l) keys of
        (sent, Inl e) \<Rightarrow> (sent, Inl e)
      | (sent, Inr result) \<Rightarrow>
          (sent, Inr (assoc_collect (List.map_filter (\<lambda>k. map_option (\<lambda>row. (k, row)) (map_of result k)) keys))))"

record 'j loader_registry =
  lr_has_many :: "(string \<times> 'j has_many_loader) list"
  lr_belongs_to :: "(string \<times> 'j belongs_to_loader) list"

definition loader_registry_new :: "'j loader_registry" where
  "loader_registry_new = \<lparr>lr_has_many = [], lr_belongs_to = []\<rparr>"

definition register_has_many :: "'j loader_registry \<Rightarrow> string \<Rightarrow> resolved_resource \<Rightarrow> string \<Rightarrow> oid \<Rightarrow> 'j jwt_claims option \<Rightarrow>
    'j loader_registry" where
  "register_has_many reg key resource fk t claims =
     reg\<lparr>lr_has_many := assoc_insert key \<lparr>hm_resource = resource, hm_fk_column = fk, hm_fk_column_oid = t,
       hm_claims = claims, hm_default_limit = 20\<rparr> (lr_has_many reg)\<rparr>"

definition register_belongs_to :: "'j loader_registry \<Rightarrow> string \<Rightarrow> resolved_resource \<Rightarrow> string \<Rightarrow> oid \<Rightarrow> 'j jwt_claims option \<Rightarrow>
    'j loader_registry" where
  "register_belongs_to reg key resource pk t claims =
     reg\<lparr>lr_belongs_to := assoc_insert key \<lparr>bl_resource = resource, bl_pk_column = pk, bl_pk_column_oid = t,
       bl_claims = claims\<rparr> (lr_belongs_to reg)\<rparr>"

definition get_has_many :: "'j loader_registry \<Rightarrow> string \<Rightarrow> 'j has_many_loader option" where
  "get_has_many reg key = map_of (lr_has_many reg) key"

definition get_belongs_to :: "'j loader_registry \<Rightarrow> string \<Rightarrow> 'j belongs_to_loader option" where
  "get_belongs_to reg key = map_of (lr_belongs_to reg) key"

definition first_column :: "string list \<Rightarrow> string \<Rightarrow> string" where
  "first_column cols d = (case cols of [] \<Rightarrow> d | c # _ \<Rightarrow> c)"

definition belongs_to_key :: "resolved_resource \<Rightarrow> string" where
  "belongs_to_key target = rv_name target @ '':'' @ first_column (rv_primary_key target) []"

definition has_many_key :: "resolved_resource \<Rightarrow> string \<Rightarrow> string" where
  "has_many_key source fk = rv_name source @ '':'' @ fk"

definition empty_connection :: "('t, 'j) connection_data" where
  "empty_connection = \<lparr>cd_rows = [], cd_page_info = page_info_empty, cd_total_count = Some 0\<rparr>"

text \<open>The loader collects the keys asked for at about the same time; \<open>batch\<close> are those this call is
  loaded with.\<close>

definition belongs_to_resolver :: "('t, 'j) codec_ext \<Rightarrow> string + ('t, 'd, 'j) database \<Rightarrow> 'j loader_registry option \<Rightarrow>
    resolved_relation \<Rightarrow> resolved_resource \<Rightarrow> (string \<Rightarrow> string list) \<Rightarrow> ('t, 'j, 'x) field_value \<Rightarrow> ('t, 'j, 'x) resolved" where
  "belongs_to_resolver X acquired registry rel target batch parent =
     (case parent of
        FRow row \<Rightarrow>
          (case row_get row (first_column (rl_source_columns rel) ''id'') of
             None \<Rightarrow> ([], Some (Inr (Some (FVal GNull))))
           | Some fk_val \<Rightarrow>
               (let key = pg_value_str X fk_val
                in if key = [] then ([], Some (Inr (Some (FVal GNull))))
                   else case registry of
                     None \<Rightarrow> ([], Some (Inl ''DataLoaderRegistry not in schema data''))
                   | Some reg \<Rightarrow>
                       (case get_belongs_to reg (belongs_to_key target) of
                          None \<Rightarrow> ([], Some (Inl (''No belongsTo loader for key: '' @ belongs_to_key target)))
                        | Some loader \<Rightarrow>
                            (case belongs_to_load X acquired loader (batch key) of
                               (sent, Inl e) \<Rightarrow> (sent, Some (Inl (query_error_display e)))
                             | (sent, Inr m) \<Rightarrow>
                                 (case map_of m key of
                                    Some row \<Rightarrow> (sent, Some (Inr (Some (FRow row))))
                                  | None \<Rightarrow> (sent, Some (Inr (Some (FVal GNull)))))))))
      | _ \<Rightarrow> ([], Some (Inr None)))"

definition has_many_resolver :: "('t, 'j) codec_ext \<Rightarrow> string + ('t, 'd, 'j) database \<Rightarrow> 'j loader_registry option \<Rightarrow>
    resolved_relation \<Rightarrow> resolved_resource \<Rightarrow> resolved_resource \<Rightarrow> (string \<Rightarrow> string list) \<Rightarrow> ('t, 'j, 'x) field_value \<Rightarrow>
    ('t, 'j, 'x) resolved" where
  "has_many_resolver X acquired registry rel source target batch parent =
     (let none = ([], Some (Inr (Some (FConn empty_connection)))) in
      case parent of
        FRow row \<Rightarrow>
          (case row_get row (first_column (rv_primary_key target) []) of
             None \<Rightarrow> none
           | Some pk_val \<Rightarrow>
               (let key = pg_value_str X pk_val;
                    loader_key = has_many_key source (first_column (rl_source_columns rel) ''id'')
                in if key = [] then none
                   else case registry of
                     None \<Rightarrow> ([], Some (Inl ''DataLoaderRegistry not in schema data''))
                   | Some reg \<Rightarrow>
                       (case get_has_many reg loader_key of
                          None \<Rightarrow> ([], Some (Inl (''No hasMany loader for key: '' @ loader_key)))
                        | Some loader \<Rightarrow>
                            (case has_many_load X acquired loader (batch key) of
                               (sent, Inl e) \<Rightarrow> (sent, Some (Inl (query_error_display e)))
                             | (sent, Inr m) \<Rightarrow>
                                 (sent, Some (Inr (Some (FConn \<lparr>cd_rows = unwrap_or (map_of m key) [],
                                    cd_page_info = page_info_empty, cd_total_count = None\<rparr>))))))))
      | _ \<Rightarrow> none)"

section \<open>Node ids address their row\<close>

lemma byte_in_append:
  "byte_in bs i lo hi \<Longrightarrow> byte_in (bs @ t) i lo hi"
  "byte_in bs i lo hi \<Longrightarrow> drop (Suc i) (bs @ t) = drop (Suc i) bs @ t"
  by (auto simp: byte_in_def nth_append)

lemma utf8_valid_append: "utf8_valid s \<Longrightarrow> utf8_valid t \<Longrightarrow> utf8_valid (s @ t)"
proof (induction s rule: utf8_valid.induct)
  case (2 c cs)
  note drops = byte_in_append(2) [of cs 0 _ _ t] byte_in_append(2) [of cs 1 _ _ t] byte_in_append(2) [of cs 2 _ _ t]
  show ?case
    using 2 drops
    by (auto simp: Let_def byte_in_append(1) eval_nat_numeral split: if_splits)
qed simp

lemma decode_encode_node_id:
  assumes "cursor_laws C" and "utf8_valid (t @ CHR '':'' # val)" and "CHR '':'' \<notin> set t"
  shows "decode_node_id C (b64_encode C (t @ CHR '':'' # val)) = Inr (t, val)"
proof -
  have "split_once CHR '':'' (t @ CHR '':'' # val) = Some (t, val)" using assms(3) by (simp add: split_once_Some)
  then show ?thesis using assms(1,2) by (simp add: decode_node_id_def cursor_laws_def)
qed

text \<open>The type of a key column, and a row whose key columns are columns of the resource holding values of
  their types, with UTF-8 texts.\<close>

definition column_type :: "resolved_resource \<Rightarrow> string \<Rightarrow> oid option" where
  "column_type resource pk = map_option cv_type_oid (find (\<lambda>c. cv_pg_name c = pk) (rv_columns resource))"

definition row_key :: "('t, 'j) pg_row \<Rightarrow> string \<Rightarrow> ('t, 'j) pg_value" where
  "row_key row pk = the (row_get row pk)"

definition keyed_row :: "('t, 'j) codec_ext \<Rightarrow> resolved_resource \<Rightarrow> ('t, 'j) pg_row \<Rightarrow> bool" where
  "keyed_row X resource row \<longleftrightarrow> list_all (\<lambda>pk. row_get row pk \<noteq> None \<and> utf8_valid pk \<and> utf8_valid (pg_value_str X (row_key row pk)) \<and>
     (case column_type resource pk of None \<Rightarrow> False | Some t \<Rightarrow> key_fits t (row_key row pk))) (rv_primary_key resource)"

text \<open>What the text form of a composite key needs to be cut where it was joined.\<close>

definition separable :: "('t, 'j) codec_ext \<Rightarrow> ('t, 'j) pg_row \<Rightarrow> string \<Rightarrow> bool" where
  "separable X row pk \<longleftrightarrow> CHR ''='' \<notin> set pk \<and> CHR '','' \<notin> set pk \<and> trim pk = pk \<and>
     CHR '','' \<notin> set (pg_value_str X (row_key row pk)) \<and> trim (pg_value_str X (row_key row pk)) = pg_value_str X (row_key row pk)"

definition node_id_text :: "'n cursor_ext \<Rightarrow> ('t, 'j) codec_ext \<Rightarrow> resolved_resource \<Rightarrow> ('t, 'j) pg_row \<Rightarrow> string" where
  "node_id_text C X resource row = encode_node_id C (rv_name resource) (cursor_pairs X (rv_primary_key resource) row)"

lemma node_id_resolver_row: "node_id_resolver C X resource (FRow row) = FVal (GString (node_id_text C X resource row))"
  by (simp add: node_id_resolver_def node_id_text_def cursor_pairs_def)

definition key_text :: "('t, 'j) codec_ext \<Rightarrow> ('t, 'j) pg_row \<Rightarrow> string \<Rightarrow> string" where
  "key_text X row pk = pk @ ''='' @ pg_value_str X (row_key row pk)"

lemma utf8_valid_join: "list_all utf8_valid ws \<Longrightarrow> utf8_valid (str_join '','' ws)"
proof (induction "'',''" ws rule: str_join.induct)
  case (3 s t ts)
  have "utf8_valid '',''" by (simp add: utf8_valid_ascii)
  with 3 have "utf8_valid ('','' @ str_join '','' (t # ts))" by (intro utf8_valid_append) simp_all
  with 3 show ?case unfolding str_join.simps by (intro utf8_valid_append) simp_all
qed simp_all

lemma pk_pair_key:
  assumes "uuid_laws X" and "separable X row pk" and "column_type resource pk = Some t" and "key_fits t (row_key row pk)"
  shows "pk_pair X resource (key_text X row pk) = Some (pk, key_read_back X (column_type resource pk) (row_key row pk))"
proof -
  let ?v = "pg_value_str X (row_key row pk)"
  have s: "split_once CHR ''='' (key_text X row pk) = Some (pk, ?v)" "trim pk = pk" "trim ?v = ?v"
    using assms(2) by (simp_all add: key_text_def split_once_Some separable_def)
  obtain col where c: "find (\<lambda>c. cv_pg_name c = pk) (rv_columns resource) = Some col" "cv_type_oid col = t"
    using assms(3) by (auto simp: column_type_def)
  then show ?thesis
    using assms(3) by (simp add: pk_pair_def s parse_pk_string_show [OF assms(1,4)])
qed

lemma map_filter_all: "(\<And>x. x \<in> set xs \<Longrightarrow> f x = Some (g x)) \<Longrightarrow> List.map_filter f xs = map g xs"
  by (induction xs) (simp_all add: map_filter_simps)

lemma node_id_of_row:
  assumes "cursor_laws C" and "uuid_laws X" and "rv_primary_key resource \<noteq> []" and "keyed_row X resource row"
    and "length (rv_primary_key resource) = 1 \<or> list_all (separable X row) (rv_primary_key resource)"
    and "utf8_valid (rv_name resource)" and "CHR '':'' \<notin> set (rv_name resource)"
  shows "node_id_keys C X resource (node_id_text C X resource row) =
    Inr (map (\<lambda>pk. (pk, key_read_back X (column_type resource pk) (row_key row pk))) (rv_primary_key resource))"
proof -
  let ?pks = "rv_primary_key resource"
  have key: "\<exists>t. column_type resource pk = Some t \<and> key_fits t (row_key row pk) \<and> row_get row pk = Some (row_key row pk) \<and>
      utf8_valid pk \<and> utf8_valid (pg_value_str X (row_key row pk))" if "pk \<in> set ?pks" for pk
    using assms(4) that by (auto simp: keyed_row_def list_all_iff row_key_def split: option.splits)
  have pairs: "cursor_pairs X ?pks row = map (\<lambda>pk. (pk, pg_value_str X (row_key row pk))) ?pks"
    unfolding cursor_pairs_def by (rule map_cong [OF refl]) (auto simp: unwrap_or_def dest!: key)
  show ?thesis
  proof (cases "length ?pks = 1")
    case True
    then obtain pk where pk: "?pks = [pk]" by (auto simp: length_Suc_conv)
    with key [of pk] obtain t where t: "column_type resource pk = Some t" "key_fits t (row_key row pk)"
      "utf8_valid (pg_value_str X (row_key row pk))" by auto
    then obtain col where c: "find (\<lambda>c. cv_pg_name c = pk) (rv_columns resource) = Some col" "cv_type_oid col = t"
      by (auto simp: column_type_def)
    have "utf8_valid (rv_name resource @ '':'' @ pg_value_str X (row_key row pk))"
      using assms(6) t(3) by (intro utf8_valid_append) (simp_all add: utf8_valid_ascii)
    then have "utf8_valid (rv_name resource @ CHR '':'' # pg_value_str X (row_key row pk))" by simp
    from decode_encode_node_id [OF assms(1) this assms(7)] show ?thesis
      using parse_pk_string_show [OF assms(2) t(2)] t(1) c
      by (simp add: node_id_text_def pairs [unfolded pk] pk encode_node_id_def node_id_keys_def parse_pk_values_from_str_def)
  next
    case False
    with assms(3) obtain p q ps where pks: "?pks = p # q # ps" by (cases ?pks; cases "tl ?pks") auto
    from False assms(5) have sep: "separable X row pk" if "pk \<in> set ?pks" for pk using that by (simp add: list_all_iff)
    let ?joined = "str_join '','' (map (key_text X row) ?pks)"
    have "list_all utf8_valid (map (key_text X row) ?pks)"
      unfolding list_all_iff
    proof
      fix w assume "w \<in> set (map (key_text X row) ?pks)"
      then obtain pk where "pk \<in> set ?pks" "w = pk @ ''='' @ pg_value_str X (row_key row pk)" by (auto simp: key_text_def)
      then show "utf8_valid w" using key by (simp only:) (intro utf8_valid_append, auto simp: utf8_valid_ascii)
    qed
    then have "utf8_valid (rv_name resource @ '':'' @ ?joined)"
      using assms(6) by (intro utf8_valid_append utf8_valid_join) (simp_all add: utf8_valid_ascii)
    then have "utf8_valid (rv_name resource @ CHR '':'' # ?joined)" by simp
    moreover have "encode_node_id C (rv_name resource) (cursor_pairs X ?pks row) = b64_encode C (rv_name resource @ CHR '':'' # ?joined)"
      by (simp add: pks pairs [unfolded pks] encode_node_id_def key_text_def [abs_def] o_def)
    ultimately have dec: "decode_node_id C (node_id_text C X resource row) = Inr (rv_name resource, ?joined)"
      using decode_encode_node_id [OF assms(1) _ assms(7)] by (simp add: node_id_text_def)
    have "split_char CHR '','' ?joined = map (key_text X row) ?pks"
      using assms(3) sep by (intro split_char_of_join) (auto simp: list_all_iff key_text_def separable_def)
    moreover have "List.map_filter (pk_pair X resource) (map (key_text X row) ?pks) =
        map (\<lambda>pk. (pk, key_read_back X (column_type resource pk) (row_key row pk))) ?pks"
    proof -
      have "List.map_filter (pk_pair X resource \<circ> key_text X row) ?pks =
          map (\<lambda>pk. (pk, key_read_back X (column_type resource pk) (row_key row pk))) ?pks"
        by (rule map_filter_all) (use pk_pair_key [OF assms(2) sep] key in fastforce)
      then show ?thesis by (simp add: map_filter_def o_def filter_map)
    qed
    ultimately show ?thesis unfolding node_id_keys_def dec parse_pk_values_from_str_def by (simp add: pks Let_def)
  qed
qed

text \<open>C30: node ids address their row. For a resource with a key of one column, whatever its type, or of
  several columns whose texts contain no comma and no space at their ends, the \<open>nodeId\<close> field of a row is
  a text which, given to the delete mutation of the resource, deletes by the key values of the row,
  and given to its update mutation updates the given columns of the rows with that key and no others:
  the only statement sent carries them as its last parameters. Each is the row's own key value exactly
  when its column is an integer or a UUID or the value is a text; a boolean, float, timestamp or JSON
  key is sent as its text.\<close>

theorem node_id_addresses_row:
  assumes "cursor_laws C" and "uuid_laws X" and "rv_primary_key resource \<noteq> []" and "keyed_row X resource row"
    and "length (rv_primary_key resource) = 1 \<or> list_all (separable X row) (rv_primary_key resource)"
    and "utf8_valid (rv_name resource)" and "CHR '':'' \<notin> set (rv_name resource)"
  shows "\<exists>i keys. node_id_resolver C X resource (FRow row) = FVal (GString i) \<and>
    keys = map (\<lambda>pk. key_read_back X (column_type resource pk) (row_key row pk)) (rv_primary_key resource) \<and>
    fst (delete_resolver C X resource (Some conn) [''input'' \<mapsto> GObject [(''nodeId'', GString i)]]) =
      [bound conn (delete_template (delete_of resource (rv_primary_key resource))) keys] \<and>
    fst (update_resolver C X resource (Some conn) [''input'' \<mapsto> GObject [(''nodeId'', GString i), (''patch'', GObject patch)]]) =
      [bound conn (update_template (update_of resource (map fst (input_columns X resource patch)) (rv_primary_key resource)))
         (map snd (input_columns X resource patch) @ keys)] \<and>
    (keys = map (row_key row) (rv_primary_key resource) \<longleftrightarrow>
       list_all (\<lambda>pk. exact_key (column_type resource pk) (row_key row pk)) (rv_primary_key resource))"
proof -
  note keys = node_id_of_row [OF assms]
  show ?thesis
    by (rule exI [of _ "node_id_text C X resource row"], rule exI, intro conjI, rule node_id_resolver_row, rule refl)
      (simp_all add: keys delete_resolver_def update_resolver_def row_or_null_def exec_mutations Let_def o_def
        key_read_back_exact list_all_iff)
qed

theorem node_id_addresses_row_witness:
  "\<exists>i. node_id_resolver plain_cursor_ext plain_ext posts_resource (FRow (post_row 12 1)) = FVal (GString i) \<and>
    fst (delete_resolver plain_cursor_ext plain_ext posts_resource (Some posts_db) [''input'' \<mapsto> GObject [(''nodeId'', GString i)]]) =
      [bound posts_db (delete_template (delete_of posts_resource [''id''])) [PgInt 12]]"
proof -
  have "keyed_row plain_ext posts_resource (post_row 12 1)"
    using posts_rows [of "post_row 12 1"]
    by (simp add: posts_table_def demo_posts_def keyed_row_def cursor_row_def posts_resource_def default_pk_def key_oid_def column_type_def
        row_key_def posts_key_def post_row_def utf8_pairs_def cursor_pairs_def unwrap_or_def)
  from node_id_addresses_row [OF plain_laws _ this, of posts_db "[]"] show ?thesis
    by (auto simp: posts_resource_def utf8_valid_ascii column_type_def row_key_def post_row_def key_read_back_def int_oids_def)
qed

text \<open>The type in a node id is not looked at: the id of a row of another type addresses a row here.\<close>

theorem foreign_node_id_accepted:
  assumes "cursor_laws C" and "utf8_valid t" and "CHR '':'' \<notin> set t" and "utf8_valid val"
  shows "node_id_keys C X resource (encode_node_id C t [(k, val)]) = parse_pk_values_from_str X resource val"
proof -
  have "utf8_valid (t @ '':'' @ val)" using assms(2,4) by (intro utf8_valid_append) (simp_all add: utf8_valid_ascii)
  then have "utf8_valid (t @ CHR '':'' # val)" by simp
  then show ?thesis by (simp add: node_id_keys_def encode_node_id_def decode_encode_node_id [OF assms(1) _ assms(3)])
qed

text \<open>A part of a composite key, or a column outside the key, is accepted as a key; a comma in a value
  cuts it.\<close>

definition members_resource :: resolved_resource where
  "members_resource = \<lparr>rv_name = ''Member'', rv_schema = ''public'', rv_table = ''members'', rv_kind = RTable,
     rv_columns = [\<lparr>cv_pg_name = ''team'', cv_gql_name = ''team'', cv_type_oid = 25, cv_gql_type = ''String'', cv_is_not_null = True, cv_has_default = False\<rparr>,
       \<lparr>cv_pg_name = ''nick'', cv_gql_name = ''nick'', cv_type_oid = 25, cv_gql_type = ''String'', cv_is_not_null = True, cv_has_default = False\<rparr>,
       \<lparr>cv_pg_name = ''active'', cv_gql_name = ''active'', cv_type_oid = 25, cv_gql_type = ''String'', cv_is_not_null = True, cv_has_default = False\<rparr>],
     rv_primary_key = [''team'', ''nick''], rv_unique_constraints = [], rv_class_oid = 7\<rparr>"

theorem partial_keys_accepted:
  "parse_pk_values_from_str X members_resource ''team=red'' = Inr [(''team'', PgText ''red'')] \<and>
   parse_pk_values_from_str X members_resource ''active=yes'' = Inr [(''active'', PgText ''yes'')] \<and>
   parse_pk_values_from_str X members_resource ''team=red,nick=a,b'' = Inr [(''team'', PgText ''red''), (''nick'', PgText ''a'')]"
  by (simp add: parse_pk_values_from_str_def members_resource_def pk_pair_def parse_pk_string_def map_filter_simps trim_def is_space_def Let_def)

section \<open>Relations\<close>

lemma map_of_keyed: "k \<in> set ks \<Longrightarrow> map_of (assoc_collect (map (\<lambda>k. (k, f k)) ks)) k = Some (f k)"
  by (simp add: map_of_assoc_collect rev_map map_of_graph)

lemma map_of_keyed_some:
  "k \<in> set ks \<Longrightarrow> map_of (assoc_collect (List.map_filter (\<lambda>k. map_option (\<lambda>x. (k, x)) (f k)) ks)) k = f k"
proof -
  have "map_of (rev (List.map_filter (\<lambda>k. map_option (\<lambda>x. (k, x)) (f k)) xs)) k = (if k \<in> set xs then f k else None)" for xs
  proof (induction xs)
    case (Cons x xs)
    then show ?case by (cases "f x") (auto simp: map_filter_simps map_add_def split: option.split)
  qed (simp add: map_filter_simps)
  then show "k \<in> set ks \<Longrightarrow> ?thesis" by (simp add: map_of_assoc_collect)
qed

text \<open>The rows of a batch that carry a key.\<close>

abbreviation rows_with :: "('t, 'j) codec_ext \<Rightarrow> string \<Rightarrow> string \<Rightarrow> ('t, 'j) pg_row list \<Rightarrow> ('t, 'j) pg_row list" where
  "rows_with X col key rows \<equiv> filter (\<lambda>row. map_option (pg_value_str X) (row_get row col) = Some key) rows"

lemma batch_outcome_map:
  "map_prod id (map_sum id g) (batch_outcome X acquired claims query answer) = batch_outcome X acquired claims query (\<lambda>rows. g (answer rows))"
  by (simp add: batch_outcome_def Let_def split: sum.split option.split)

lemma has_many_load_lookup:
  assumes "key \<in> set keys"
  shows "(case has_many_load X acquired l keys of (sent, r) \<Rightarrow> (sent, map_sum id (\<lambda>m. map_of m key) r)) =
    batch_outcome X acquired (hm_claims l)
      (fk_batch_sql (hm_resource l) (hm_fk_column l) (hm_fk_column_oid l), [BTexts keys, BI64 (hm_default_limit l)])
      (\<lambda>rows. Some (rows_with X ''parent_id_key'' key rows))"
proof -
  let ?batch = "select_by_fk_batch X acquired (hm_claims l) (hm_resource l) (hm_fk_column l) (hm_fk_column_oid l) keys (hm_default_limit l)"
    and ?q = "(fk_batch_sql (hm_resource l) (hm_fk_column l) (hm_fk_column_oid l), [BTexts keys, BI64 (hm_default_limit l)])"
  from assms have "keys \<noteq> []" by auto
  from batch_lookup_outcomes [OF this, THEN conjunct1, of X acquired "hm_claims l" "hm_resource l" "hm_fk_column l"
      "hm_fk_column_oid l" "hm_default_limit l"]
  have "map_prod id (map_sum id (\<lambda>f. Some (f key))) (case ?batch of (sent, r) \<Rightarrow> (sent, map_sum id (\<lambda>m k. unwrap_or (map_of m k) []) r)) =
      map_prod id (map_sum id (\<lambda>f. Some (f key))) (batch_outcome X acquired (hm_claims l) ?q (\<lambda>rows k. rows_with X ''parent_id_key'' k rows))"
    by simp
  moreover have "(case has_many_load X acquired l keys of (sent, r) \<Rightarrow> (sent, map_sum id (\<lambda>m. map_of m key) r)) =
      map_prod id (map_sum id (\<lambda>f. Some (f key))) (case ?batch of (sent, r) \<Rightarrow> (sent, map_sum id (\<lambda>m k. unwrap_or (map_of m k) []) r))"
    by (simp add: has_many_load_def map_of_keyed [OF assms] split: prod.split sum.split)
  ultimately show ?thesis by (simp only: batch_outcome_map)
qed

lemma belongs_to_load_lookup:
  assumes "key \<in> set keys"
  shows "(case belongs_to_load X acquired l keys of (sent, r) \<Rightarrow> (sent, map_sum id (\<lambda>m. map_of m key) r)) =
    batch_outcome X acquired (bl_claims l) (pk_batch_sql (bl_resource l) (bl_pk_column l) (bl_pk_column_oid l), [BTexts keys])
      (\<lambda>rows. let hits = rows_with X (bl_pk_column l) key rows in if hits = [] then None else Some (last hits))"
proof -
  let ?batch = "select_by_pk_batch X acquired (bl_claims l) (bl_resource l) (bl_pk_column l) (bl_pk_column_oid l) keys"
    and ?q = "(pk_batch_sql (bl_resource l) (bl_pk_column l) (bl_pk_column_oid l), [BTexts keys])"
    and ?answer = "\<lambda>rows k. let hits = rows_with X (bl_pk_column l) k rows in if hits = [] then None else Some (last hits)"
  from assms have "keys \<noteq> []" by auto
  from batch_lookup_outcomes [OF this, THEN conjunct2, of X acquired "bl_claims l" "bl_resource l" "bl_pk_column l" "bl_pk_column_oid l"]
  have "map_prod id (map_sum id (\<lambda>f. f key)) (case ?batch of (sent, r) \<Rightarrow> (sent, map_sum id map_of r)) =
      map_prod id (map_sum id (\<lambda>f. f key)) (batch_outcome X acquired (bl_claims l) ?q ?answer)"
    by simp
  moreover have "(case belongs_to_load X acquired l keys of (sent, r) \<Rightarrow> (sent, map_sum id (\<lambda>m. map_of m key) r)) =
      map_prod id (map_sum id (\<lambda>f. f key)) (case ?batch of (sent, r) \<Rightarrow> (sent, map_sum id map_of r))"
    by (simp add: belongs_to_load_def map_of_keyed_some [OF assms] split: prod.split sum.split)
  ultimately show ?thesis by (simp only: batch_outcome_map)
qed

text \<open>C27: relation fields. A to-one field whose loader is registered answers the fetched row whose key is the
  text of the parent's foreign key, null when there is none; a to-many field answers exactly the
  fetched rows filed under the text of the parent's key, in order. Both use one query for all the
  parents loaded together, after the claims of the loader; and the message of a database error is
  passed on.\<close>

theorem relation_fields_exact:
  assumes fk: "row_get row (first_column (rl_source_columns rel) ''id'') = Some v" and "pg_value_str X v \<noteq> []"
    and bl: "get_belongs_to reg (belongs_to_key target) = Some bl" and "pg_value_str X v \<in> set (batch (pg_value_str X v))"
    and pk: "row_get prow (first_column (rv_primary_key target) []) = Some w" and "pg_value_str X w \<noteq> []"
    and hm: "get_has_many reg (has_many_key source (first_column (rl_source_columns rel) ''id'')) = Some hm"
    and "pg_value_str X w \<in> set (batch' (pg_value_str X w))"
  shows "belongs_to_resolver X acquired (Some reg) rel target batch (FRow row) =
      (case batch_outcome X acquired (bl_claims bl)
          (pk_batch_sql (bl_resource bl) (bl_pk_column bl) (bl_pk_column_oid bl), [BTexts (batch (pg_value_str X v))])
          (rows_with X (bl_pk_column bl) (pg_value_str X v)) of
         (sent, Inl e) \<Rightarrow> (sent, Some (Inl (query_error_display e)))
       | (sent, Inr hits) \<Rightarrow> (sent, Some (Inr (Some (if hits = [] then FVal GNull else FRow (last hits)))))) \<and>
    has_many_resolver X acquired (Some reg) rel source target batch' (FRow prow) =
      (case batch_outcome X acquired (hm_claims hm)
          (fk_batch_sql (hm_resource hm) (hm_fk_column hm) (hm_fk_column_oid hm),
           [BTexts (batch' (pg_value_str X w)), BI64 (hm_default_limit hm)])
          (rows_with X ''parent_id_key'' (pg_value_str X w)) of
         (sent, Inl e) \<Rightarrow> (sent, Some (Inl (query_error_display e)))
       | (sent, Inr hits) \<Rightarrow> (sent, Some (Inr (Some (FConn \<lparr>cd_rows = hits, cd_page_info = page_info_empty, cd_total_count = None\<rparr>)))))"
proof -
  have b: "(case belongs_to_load X acquired bl (batch (pg_value_str X v)) of (sent, r) \<Rightarrow> (sent, map_sum id (\<lambda>m. map_of m (pg_value_str X v)) r)) =
      map_prod id (map_sum id (\<lambda>hits. if hits = [] then None else Some (last hits)))
        (batch_outcome X acquired (bl_claims bl)
          (pk_batch_sql (bl_resource bl) (bl_pk_column bl) (bl_pk_column_oid bl), [BTexts (batch (pg_value_str X v))])
          (rows_with X (bl_pk_column bl) (pg_value_str X v)))"
    by (simp only: belongs_to_load_lookup [OF assms(4)] batch_outcome_map Let_def)
  have h: "(case has_many_load X acquired hm (batch' (pg_value_str X w)) of (sent, r) \<Rightarrow> (sent, map_sum id (\<lambda>m. map_of m (pg_value_str X w)) r)) =
      map_prod id (map_sum id Some)
        (batch_outcome X acquired (hm_claims hm)
          (fk_batch_sql (hm_resource hm) (hm_fk_column hm) (hm_fk_column_oid hm),
           [BTexts (batch' (pg_value_str X w)), BI64 (hm_default_limit hm)])
          (rows_with X ''parent_id_key'' (pg_value_str X w)))"
    by (simp only: has_many_load_lookup [OF assms(8)] batch_outcome_map)
  have bt: "belongs_to_resolver X acquired (Some reg) rel target batch (FRow row) =
      (case (case belongs_to_load X acquired bl (batch (pg_value_str X v)) of (sent, r) \<Rightarrow> (sent, map_sum id (\<lambda>m. map_of m (pg_value_str X v)) r)) of
         (sent, Inl e) \<Rightarrow> (sent, Some (Inl (query_error_display e)))
       | (sent, Inr r) \<Rightarrow> (sent, Some (Inr (Some (case r of None \<Rightarrow> FVal GNull | Some x \<Rightarrow> FRow x)))))"
    by (simp add: belongs_to_resolver_def fk bl assms(2) Let_def split: prod.split sum.split option.split)
  have hm: "has_many_resolver X acquired (Some reg) rel source target batch' (FRow prow) =
      (case (case has_many_load X acquired hm (batch' (pg_value_str X w)) of (sent, r) \<Rightarrow> (sent, map_sum id (\<lambda>m. map_of m (pg_value_str X w)) r)) of
         (sent, Inl e) \<Rightarrow> (sent, Some (Inl (query_error_display e)))
       | (sent, Inr r) \<Rightarrow> (sent, Some (Inr (Some (FConn \<lparr>cd_rows = unwrap_or r [], cd_page_info = page_info_empty, cd_total_count = None\<rparr>)))))"
    by (simp add: has_many_resolver_def pk hm assms(6) Let_def split: prod.split sum.split option.split)
  show ?thesis
    unfolding bt hm b h by (intro conjI; simp add: unwrap_or_def split: prod.split sum.split)
qed

definition comments_resource :: resolved_resource where
  "comments_resource = posts_resource\<lparr>rv_name := ''Comment'', rv_table := ''comments''\<rparr>"

definition demo_relation :: resolved_relation where
  "demo_relation = \<lparr>rl_name = ''comments_author_fkey'', rl_source_resource = ''Comment'', rl_source_columns = [''author''],
     rl_target_resource = ''Post'', rl_target_columns = [''id''], rl_is_unique = False\<rparr>"

definition demo_loaders :: "nat loader_registry" where
  "demo_loaders = register_belongs_to (register_has_many loader_registry_new ''Comment:author'' comments_resource ''author'' 20 None)
     ''Post:id'' posts_resource ''id'' 20 None"

theorem relation_fields_exact_witness:
  "belongs_to_resolver plain_ext (Inr demo_db) (Some demo_loaders) demo_relation posts_resource (\<lambda>k. [k]) (FRow (post_row 1 11)) =
     ([(pk_batch_sql posts_resource ''id'' 20, [BTexts [''11'']])], Some (Inr (Some (FRow (post_row 11 2)))))"
proof -
  have v: "show_i64 11 = ''11''" by code_simp
  have regs: "get_belongs_to demo_loaders (belongs_to_key posts_resource) =
      Some \<lparr>bl_resource = posts_resource, bl_pk_column = ''id'', bl_pk_column_oid = 20, bl_claims = None\<rparr>"
    "get_has_many demo_loaders (has_many_key comments_resource (first_column (rl_source_columns demo_relation) ''id'')) =
      Some \<lparr>hm_resource = comments_resource, hm_fk_column = ''author'', hm_fk_column_oid = 20, hm_claims = None, hm_default_limit = 20\<rparr>"
    by (simp_all add: get_belongs_to_def get_has_many_def demo_loaders_def register_belongs_to_def register_has_many_def
        loader_registry_new_def belongs_to_key_def has_many_key_def posts_resource_def comments_resource_def first_column_def demo_relation_def)
  have rows: "row_get (post_row 1 11) (first_column (rl_source_columns demo_relation) ''id'') = Some (PgInt 11)"
    "row_get (post_row 11 2) (first_column (rv_primary_key posts_resource) []) = Some (PgInt 11)"
    by (simp_all add: post_row_def first_column_def demo_relation_def posts_resource_def)
  have hits: "rows_with plain_ext ''id'' ''11'' (map (decode_row id \<circ> demo_row) demo_posts) = [post_row 11 2]"
    unfolding o_def decode_demo_row by code_simp
  from relation_fields_exact [OF rows(1) _ regs(1) _ rows(2) _ regs(2), of plain_ext "\<lambda>k. [k]" "\<lambda>k. [k]" "Inr demo_db", THEN conjunct1]
  show ?thesis using hits by (simp add: v batch_outcome_def demo_db_def o_def)
qed

end
