(* ===== verification/Build_Plan.thy ===== *)
theory Build_Plan
  imports Core_Pipeline Rust_Map Dp_Codec
begin

text \<open>
  \<^verbatim>\<open>magna-build\<close>: the context that takes steps, runs the plan once and hands out its results
  (\<^verbatim>\<open>plan_resolver.rs\<close>), and the planning of the root fields of an operation
  (\<^verbatim>\<open>plan_extension.rs\<close>). The planner's lock is never held across a panic, so it is never poisoned
  and its error branches are left out. A panic of the planner, the optimizer or the executor is
  \<open>Panic\<close>, as in \<open>Core_Plan\<close>.

  The parsed operation is a value of the crate \<^verbatim>\<open>async-graphql\<close>; \<open>request_operation\<close> holds what is
  read of it. Its conversions of argument values are parameters.
\<close>

section \<open>PlanContext\<close>

record ('c, 'v) plan_context =
  cx_planner :: "('c, 'v) planner option"
  cx_results :: "'v outputs option"
  cx_remap :: "remap_table option"
  cx_exec_ctx :: 'c
  cx_batch_size :: nat

definition plan_context_new :: "'c \<Rightarrow> nat \<Rightarrow> ('c, 'v) plan_context" where
  "plan_context_new exec_ctx batch_size =
     \<lparr>cx_planner = Some (planner_new batch_size), cx_results = None, cx_remap = None,
      cx_exec_ctx = exec_ctx, cx_batch_size = batch_size\<rparr>"

definition register_step :: "('c, 'v) plan_context \<Rightarrow> ('c, 'v) exec_step \<Rightarrow>
    ('c, 'v) plan_context \<times> (fw_graph_error + step_id)" where
  "register_step cx step =
     (case cx_planner cx of
        Some planner \<Rightarrow> (cx\<lparr>cx_planner := Some (register planner step)\<rparr>, Inr (st_id step))
      | None \<Rightarrow> (cx, Inl (ExecutionError ''cannot register steps after execute() has been called'')))"

text \<open>\<^verbatim>\<open>OnceLock::set\<close>.\<close>

definition once_set :: "'a option \<Rightarrow> 'a \<Rightarrow> 'a option \<times> bool" where
  "once_set cell x = (case cell of None \<Rightarrow> (Some x, True) | Some y \<Rightarrow> (Some y, False))"

definition plan_execute :: "('g, 'i) petgraph \<Rightarrow> (('c, 'v) step_map \<Rightarrow> step_id list) \<Rightarrow> ('c, 'v) plan_context \<Rightarrow>
    ('c, 'v) plan_context \<times> (plan_fail + unit)" where
  "plan_execute G keys_of cx =
     (case cx_planner cx of
        None \<Rightarrow> (cx, Inl (Fail (ExecutionError ''execute() has already been called'')))
      | Some planner \<Rightarrow>
          (let cx = cx\<lparr>cx_planner := None\<rparr>
           in case rbind (planner_build G planner) (optimize G keys_of) of
                Inl e \<Rightarrow> (cx, Inl e)
              | Inr optimized \<Rightarrow>
                  (case execute G (cx_exec_ctx cx) optimized of
                     Inl e \<Rightarrow> (cx, Inl e)
                   | Inr outputs \<Rightarrow>
                       (let cx = cx\<lparr>cx_remap := fst (once_set (cx_remap cx) (op_remap optimized))\<rparr>
                        in case once_set (cx_results cx) outputs of
                             (results, ok) \<Rightarrow>
                               if ok then (cx\<lparr>cx_results := results\<rparr>, Inr ())
                               else (cx, Inl (Fail (ExecutionError ''results already set (internal error)'')))))))"

definition get_result :: "('c, 'v) plan_context \<Rightarrow> step_id \<Rightarrow> 'v step_output option" where
  "get_result cx step_id =
     (let canonical = unwrap_or (Option.bind (cx_remap cx) (\<lambda>m. map_of m step_id)) step_id
      in Option.bind (cx_results cx) (\<lambda>outs. outs canonical))"

definition is_executed :: "('c, 'v) plan_context \<Rightarrow> bool" where
  "is_executed cx \<longleftrightarrow> cx_results cx \<noteq> None"

section \<open>PlanScope and plan functions\<close>

record ('c, 'v) plan_scope =
  ps_ctx :: "('c, 'v) plan_context"
  ps_next_id :: "32 word"

text \<open>\<^verbatim>\<open>fetch_add\<close> returns the previous value and wraps around.\<close>

definition next_step_id :: "('c, 'v) plan_scope \<Rightarrow> ('c, 'v) plan_scope \<times> step_id" where
  "next_step_id sc = (sc\<lparr>ps_next_id := ps_next_id sc + 1\<rparr>, ps_next_id sc)"

definition scope_register :: "('c, 'v) plan_scope \<Rightarrow> ('c, 'v) exec_step \<Rightarrow>
    ('c, 'v) plan_scope \<times> (fw_graph_error + step_id)" where
  "scope_register sc step =
     (case register_step (ps_ctx sc) step of (cx, r) \<Rightarrow> (sc\<lparr>ps_ctx := cx\<rparr>, r))"

text \<open>A plan function reaches the scope through these two operations only; it is the program of
  the calls it makes, each continuing with what the call returned.\<close>

datatype ('c, 'v) plan_prog =
    Return "fw_graph_error + step_id"
  | NextId "step_id \<Rightarrow> ('c, 'v) plan_prog"
  | Register "('c, 'v) exec_step" "fw_graph_error + step_id \<Rightarrow> ('c, 'v) plan_prog"

primrec run_prog :: "('c, 'v) plan_prog \<Rightarrow> ('c, 'v) plan_scope \<Rightarrow>
    ('c, 'v) plan_scope \<times> (fw_graph_error + step_id)" where
  "run_prog (Return r) = (\<lambda>sc. (sc, r))"
| "run_prog (NextId k) = (\<lambda>sc. case next_step_id sc of (sc, i) \<Rightarrow> run_prog (k i) sc)"
| "run_prog (Register s k) = (\<lambda>sc. case scope_register sc s of (sc, r) \<Rightarrow> run_prog (k r) sc)"

type_synonym 'j field_args = "(string \<times> 'j) list"

type_synonym ('j, 'c, 'v) plan_fn = "'j field_args \<Rightarrow> ('c, 'v) plan_prog"

section \<open>PlanRegistry\<close>

type_synonym ('j, 'c, 'v) plan_registry = "((string \<times> string) \<times> ('j, 'c, 'v) plan_fn) list"

definition plan_field :: "('j, 'c, 'v) plan_registry \<Rightarrow> string \<Rightarrow> string \<Rightarrow> ('j, 'c, 'v) plan_fn \<Rightarrow>
    ('j, 'c, 'v) plan_registry" where
  "plan_field reg type_name field_name f = assoc_insert (type_name, field_name) f reg"

definition registry_empty :: "('j, 'c, 'v) plan_registry \<Rightarrow> bool" where
  "registry_empty reg \<longleftrightarrow> reg = []"

definition registry_get :: "('j, 'c, 'v) plan_registry \<Rightarrow> string \<Rightarrow> string \<Rightarrow> ('j, 'c, 'v) plan_fn option" where
  "registry_get reg type_name field_name =
     map_option snd (find (\<lambda>e. fst (fst e) = type_name \<and> snd (fst e) = field_name) reg)"

section \<open>PlanResults\<close>

record ('c, 'v) planned =
  pd_ctx :: "('c, 'v) plan_context"
  pd_field_steps :: "(string \<times> step_id) list"

definition field_output :: "('c, 'v) planned option \<Rightarrow> string \<Rightarrow> 'v step_output option" where
  "field_output results response_key =
     Option.bind results (\<lambda>planned.
     Option.bind (map_of (pd_field_steps planned) response_key) (\<lambda>step_id.
       get_result (pd_ctx planned) step_id))"

definition is_planned :: "('c, 'v) planned option \<Rightarrow> bool" where
  "is_planned results \<longleftrightarrow> results \<noteq> None"

section \<open>Planning an operation\<close>

datatype operation_type = OpQuery | OpMutation | OpSubscription

record 'a request_field =
  rf_name :: string
  rf_alias :: "string option"
  rf_arguments :: "(string \<times> 'a) list"

text \<open>A root selection: a field, or a fragment.\<close>

datatype 'a root_selection = RootField "'a request_field" | RootFragment

record 'a request_operation =
  ro_ty :: operation_type
  ro_items :: "'a root_selection list"

type_synonym 'a request_document = "(string option \<times> 'a request_operation) list"

record ('a, 'k, 'j) value_ops =
  into_const_with :: "(string \<Rightarrow> string + 'k) \<Rightarrow> 'a \<Rightarrow> string + 'k"
  into_json :: "'k \<Rightarrow> string + 'j"

definition select_operation :: "'a request_document \<Rightarrow> string option \<Rightarrow> 'a request_operation option" where
  "select_operation doc operation_name =
     map_option snd
       (case operation_name of
          Some name \<Rightarrow> find (\<lambda>op. case fst op of Some n \<Rightarrow> n = name | None \<Rightarrow> False) doc
        | None \<Rightarrow> (case doc of [] \<Rightarrow> None | first # rest \<Rightarrow> if rest \<noteq> [] then None else Some first))"

fun resolve_args :: "('a, 'k, 'j) value_ops \<Rightarrow> (string \<rightharpoonup> 'k) \<Rightarrow> (string \<times> 'a) list \<Rightarrow> 'j field_args \<Rightarrow>
    string + 'j field_args" where
  "resolve_args V variables [] args = Inr args"
| "resolve_args V variables ((arg_name, arg_value) # rest) args =
     rbind (into_const_with V (\<lambda>var_name. case variables var_name of
         Some v \<Rightarrow> Inr v | None \<Rightarrow> Inl (''unknown variable $'' @ var_name)) arg_value) (\<lambda>const_value.
     case into_json V const_value of
       Inl e \<Rightarrow> Inl (''argument '' @ arg_name @ '' is not JSON-representable: '' @ e)
     | Inr json \<Rightarrow> resolve_args V variables rest (assoc_insert arg_name json args))"

definition response_key :: "'a request_field \<Rightarrow> string" where
  "response_key field = unwrap_or (rf_alias field) (rf_name field)"

fun planned_fields :: "('a, 'k, 'j) value_ops \<Rightarrow> (string \<rightharpoonup> 'k) \<Rightarrow> ('j, 'c, 'v) plan_registry \<Rightarrow>
    'a root_selection list \<Rightarrow> string + (string \<times> ('j, 'c, 'v) plan_fn \<times> 'j field_args) list" where
  "planned_fields V variables reg [] = Inr []"
| "planned_fields V variables reg (RootFragment # sels) = planned_fields V variables reg sels"
| "planned_fields V variables reg (RootField field # sels) =
     (case registry_get reg ''Query'' (rf_name field) of
        None \<Rightarrow> planned_fields V variables reg sels
      | Some plan_fn \<Rightarrow>
          rbind (resolve_args V variables (rf_arguments field) []) (\<lambda>args.
          rbind (planned_fields V variables reg sels) (\<lambda>rest.
            Inr ((response_key field, plan_fn, args) # rest))))"

text \<open>The loop that calls the plan functions; an error ends it.\<close>

fun plan_steps :: "(string \<times> ('j, 'c, 'v) plan_fn \<times> 'j field_args) list \<Rightarrow>
    ('c, 'v) plan_scope \<Rightarrow> (string \<times> step_id) list \<Rightarrow> ('c, 'v) plan_scope \<times> (string + (string \<times> step_id) list)" where
  "plan_steps [] sc field_steps = (sc, Inr field_steps)"
| "plan_steps ((key, plan_fn, args) # rest) sc field_steps =
     (case run_prog (plan_fn args) sc of
        (sc, Inl e) \<Rightarrow> (sc, Inl (''planning failed for field '' @ [CHR 0x27] @ key @ [CHR 0x27] @ '': '' @ display_error e))
      | (sc, Inr step_id) \<Rightarrow> plan_steps rest sc (assoc_insert key step_id field_steps))"

abbreviation PLAN_BATCH_SIZE :: nat where "PLAN_BATCH_SIZE \<equiv> 64"

text \<open>\<^verbatim>\<open>PlanExtension::plan\<close> on the captured document and variables: a server error, a panic
  (\<open>None\<close>), or the results cell afterwards.\<close>

definition plan_operation :: "('g, 'i) petgraph \<Rightarrow> (('c, 'v) step_map \<Rightarrow> step_id list) \<Rightarrow> ('a, 'k, 'j) value_ops \<Rightarrow>
    ('j, 'c, 'v) plan_registry \<Rightarrow> 'c \<Rightarrow> ('a request_document \<times> (string \<rightharpoonup> 'k)) option \<Rightarrow> string option \<Rightarrow>
    ('c, 'v) planned option \<Rightarrow> (string + ('c, 'v) planned option) option" where
  "plan_operation G keys_of V reg exec_ctx captured operation_name results =
     (case captured of
        None \<Rightarrow> Some (Inr results)
      | Some (doc, variables) \<Rightarrow>
          (case select_operation doc operation_name of
             None \<Rightarrow> Some (Inr results)
           | Some op \<Rightarrow>
               if ro_ty op \<noteq> OpQuery then Some (Inr results)
               else (case planned_fields V variables reg (ro_items op) of
                 Inl e \<Rightarrow> Some (Inl e)
               | Inr todo \<Rightarrow>
                   if todo = [] then Some (Inr results)
                   else (case plan_steps todo \<lparr>ps_ctx = plan_context_new exec_ctx PLAN_BATCH_SIZE, ps_next_id = 1\<rparr> [] of
                     (sc, Inl e) \<Rightarrow> Some (Inl e)
                   | (sc, Inr field_steps) \<Rightarrow>
                       (case plan_execute G keys_of (ps_ctx sc) of
                          (cx, Inl Panic) \<Rightarrow> None
                        | (cx, Inl (Fail e)) \<Rightarrow> Some (Inl (''plan execution failed: '' @ display_error e))
                        | (cx, Inr ()) \<Rightarrow>
                            Some (Inr (fst (once_set results \<lparr>pd_ctx = cx, pd_field_steps = field_steps\<rparr>))))))))"


text \<open>The per-request extension: \<^verbatim>\<open>parse_query\<close> captures, \<^verbatim>\<open>execute\<close> plans and then runs the request,
  or answers with the planning error. \<open>next\<close> is the rest of the execution, which reads the results.\<close>

record ('a, 'k, 'j, 'c, 'v) plan_extension =
  pe_registry :: "('j, 'c, 'v) plan_registry"
  pe_captured :: "('a request_document \<times> (string \<rightharpoonup> 'k)) option"
  pe_results :: "('c, 'v) planned option"

definition extension_create :: "('j, 'c, 'v) plan_registry \<Rightarrow> ('a, 'k, 'j, 'c, 'v) plan_extension" where
  "extension_create reg = \<lparr>pe_registry = reg, pe_captured = None, pe_results = None\<rparr>"

definition extension_parse_query :: "('a, 'k, 'j, 'c, 'v) plan_extension \<Rightarrow> (string \<rightharpoonup> 'k) \<Rightarrow>
    string + 'a request_document \<Rightarrow> ('a, 'k, 'j, 'c, 'v) plan_extension \<times> (string + 'a request_document)" where
  "extension_parse_query ext variables parsed =
     (case parsed of
        Inl e \<Rightarrow> (ext, Inl e)
      | Inr doc \<Rightarrow>
          ((if registry_empty (pe_registry ext) then ext else ext\<lparr>pe_captured := Some (doc, variables)\<rparr>), Inr doc))"

definition extension_plan :: "('g, 'i) petgraph \<Rightarrow> (('c, 'v) step_map \<Rightarrow> step_id list) \<Rightarrow> ('a, 'k, 'j) value_ops \<Rightarrow> 'c \<Rightarrow>
    ('a, 'k, 'j, 'c, 'v) plan_extension \<Rightarrow> string option \<Rightarrow>
    ('a, 'k, 'j, 'c, 'v) plan_extension \<times> (string + unit) option" where
  "extension_plan G keys_of V exec_ctx ext operation_name =
     (let captured = pe_captured ext; ext = ext\<lparr>pe_captured := None\<rparr>
      in case plan_operation G keys_of V (pe_registry ext) exec_ctx captured operation_name (pe_results ext) of
           None \<Rightarrow> (ext, None)
         | Some (Inl e) \<Rightarrow> (ext, Some (Inl e))
         | Some (Inr results) \<Rightarrow> (ext\<lparr>pe_results := results\<rparr>, Some (Inr ())))"

definition extension_execute :: "('g, 'i) petgraph \<Rightarrow> (('c, 'v) step_map \<Rightarrow> step_id list) \<Rightarrow> ('a, 'k, 'j) value_ops \<Rightarrow> 'c \<Rightarrow>
    (('c, 'v) planned option \<Rightarrow> string option \<Rightarrow> 'resp) \<Rightarrow> ('a, 'k, 'j, 'c, 'v) plan_extension \<Rightarrow> string option \<Rightarrow>
    ('a, 'k, 'j, 'c, 'v) plan_extension \<times> (string + 'resp) option" where
  "extension_execute G keys_of V exec_ctx nxt ext operation_name =
     (case extension_plan G keys_of V exec_ctx ext operation_name of
        (ext, None) \<Rightarrow> (ext, None)
      | (ext, Some (Inl e)) \<Rightarrow> (ext, Some (Inl e))
      | (ext, Some (Inr ())) \<Rightarrow> (ext, Some (Inr (nxt (pe_results ext) operation_name))))"

section \<open>A context is used once\<close>

text \<open>The states of a context: steps are taken until it is executed, and then there is no planner.\<close>

inductive cx_step :: "('g, 'i) petgraph \<Rightarrow> (('c, 'v) step_map \<Rightarrow> step_id list) \<Rightarrow>
    ('c, 'v) plan_context \<Rightarrow> ('c, 'v) plan_context \<Rightarrow> bool" for G keys_of where
  cx_register: "cx_step G keys_of cx (fst (register_step cx s))"
| cx_execute: "cx_step G keys_of cx (fst (plan_execute G keys_of cx))"

definition cx_inv :: "('c, 'v) plan_context \<Rightarrow> bool" where
  "cx_inv cx \<longleftrightarrow> (cx_planner cx \<noteq> None \<longrightarrow> cx_results cx = None \<and> cx_remap cx = None) \<and>
     (cx_results cx = None \<longleftrightarrow> cx_remap cx = None)"

lemma register_step_inv: "cx_inv cx \<Longrightarrow> cx_inv (fst (register_step cx s))"
  by (auto simp: cx_inv_def register_step_def split: option.splits)

lemma plan_execute_inv: "cx_inv cx \<Longrightarrow> cx_inv (fst (plan_execute G keys_of cx))"
  by (auto simp: cx_inv_def plan_execute_def Let_def once_set_def split: option.splits sum.splits)

lemma cx_reachable_inv: "(cx_step G keys_of)\<^sup>*\<^sup>* (plan_context_new c n) cx \<Longrightarrow> cx_inv cx"
proof (induction rule: rtranclp_induct)
  case base
  show ?case by (simp add: cx_inv_def plan_context_new_def)
next
  case (step cx cx')
  from step(2,3) show ?case by (cases rule: cx_step.cases) (auto intro: register_step_inv plan_execute_inv)
qed

lemma once_set_None [simp]: "once_set None x = (Some x, True)"
  by (simp add: once_set_def)

text \<open>Running the plan of a context that has not been executed.\<close>

lemma plan_execute_outcome:
  assumes "petgraph_laws G ok" and "hash_keys keys_of" and "cx_inv cx" and "cx_planner cx = Some p"
    and "distinct (map st_id (pl_steps p))" and "faithful_fingerprints (pl_steps p)"
  shows "case plan_execute G keys_of cx of
      (cx', Inr u) \<Rightarrow> is_executed cx' \<and> cx_planner cx' = None \<and>
        (\<forall>ref. solves (cx_exec_ctx cx) (pl_batch_size p) id (step_map_of (pl_steps p)) ref \<longleftrightarrow> ref = get_result cx')
    | (cx', Inl e) \<Rightarrow> \<not> is_executed cx' \<and> cx_planner cx' = None \<and> get_result cx' = Map.empty \<and>
        (planner_build G p = Inl e \<or>
         fails_on (cx_exec_ctx cx) (pl_batch_size p) id (step_map_of (pl_steps p)) e \<and>
         (\<forall>ref. \<not> solves (cx_exec_ctx cx) (pl_batch_size p) id (step_map_of (pl_steps p)) ref))"
proof -
  have new: "cx_results cx = None" "cx_remap cx = None" using assms(3,4) by (simp_all add: cx_inv_def)
  show ?thesis
  proof (cases "planner_build G p")
    case (Inl e)
    then show ?thesis using assms(4) new
      by (simp add: plan_execute_def Let_def is_executed_def get_result_def fun_eq_iff)
  next
    case (Inr plan)
    let ?c = "cx_exec_ctx cx"
    from optimize_execute [OF assms(1,2,5) Inr assms(6), of ?c] obtain opt where
      o: "optimize G keys_of plan = Inr opt" "dom (map_of (op_remap opt)) \<subseteq> st_id ` set (pl_steps p)"
      and ex: "case execute G ?c opt of
         Inr outs \<Rightarrow> dom outs \<subseteq> st_id ` set (pl_steps p) \<and>
           (\<forall>ref. solves ?c (pl_batch_size p) id (step_map_of (pl_steps p)) ref \<longleftrightarrow>
                  ref = expand (step_map_of (pl_steps p)) (op_remap opt) outs)
       | Inl e \<Rightarrow> fails_on ?c (pl_batch_size p) id (step_map_of (pl_steps p)) e \<and>
           (\<forall>ref. \<not> solves ?c (pl_batch_size p) id (step_map_of (pl_steps p)) ref)" by blast
    show ?thesis
    proof (cases "execute G ?c opt")
      case (Inl e)
      then show ?thesis using assms(4) new Inr o(1) ex
        by (simp add: plan_execute_def Let_def is_executed_def get_result_def fun_eq_iff)
    next
      case outs: (Inr outs)
      define cx' where "cx' = cx\<lparr>cx_planner := None, cx_remap := Some (op_remap opt), cx_results := Some outs\<rparr>"
      have run: "plan_execute G keys_of cx = (cx', Inr ())"
        using assms(4) new Inr o(1) outs by (simp add: plan_execute_def Let_def cx'_def)
      have "get_result cx' x = expand (step_map_of (pl_steps p)) (op_remap opt) outs x" for x
      proof (cases "x \<in> st_id ` set (pl_steps p)")
        case True
        then show ?thesis
          by (simp add: cx'_def get_result_def expand_def dom_step_map_of resolve_def unwrap_or_def split: option.splits)
      next
        case False
        then have "map_of (op_remap opt) x = None" "outs x = None" using o(2) ex outs by auto
        with False show ?thesis by (simp add: cx'_def get_result_def expand_def dom_step_map_of unwrap_or_def)
      qed
      then have "get_result cx' = expand (step_map_of (pl_steps p)) (op_remap opt) outs" by (rule ext)
      with ex outs show ?thesis by (simp add: run) (simp add: cx'_def is_executed_def)
    qed
  qed
qed

section \<open>Step ids\<close>

definition scope_new :: "'c \<Rightarrow> ('c, 'v) plan_scope" where
  "scope_new c = \<lparr>ps_ctx = plan_context_new c PLAN_BATCH_SIZE, ps_next_id = 1\<rparr>"

definition open_scope :: "'c \<Rightarrow> ('c, 'v) plan_scope \<Rightarrow> bool" where
  "open_scope c sc \<longleftrightarrow> cx_inv (ps_ctx sc) \<and> cx_exec_ctx (ps_ctx sc) = c \<and>
     (\<exists>p. cx_planner (ps_ctx sc) = Some p \<and> pl_batch_size p = PLAN_BATCH_SIZE)"

definition scope_steps :: "('c, 'v) plan_scope \<Rightarrow> ('c, 'v) exec_step list" where
  "scope_steps sc = (case cx_planner (ps_ctx sc) of None \<Rightarrow> [] | Some p \<Rightarrow> pl_steps p)"

lemma scope_new_open: "open_scope c (scope_new c)"
  by (simp add: open_scope_def scope_new_def plan_context_new_def cx_inv_def planner_new_def)

lemma scope_new_steps: "scope_steps (scope_new c) = []" "ps_next_id (scope_new c) = 1"
  by (simp_all add: scope_new_def scope_steps_def plan_context_new_def planner_new_def)

lemma scope_register_open:
  assumes "open_scope c sc"
  shows "open_scope c (fst (scope_register sc s))" and "snd (scope_register sc s) = Inr (st_id s)"
    and "scope_steps (fst (scope_register sc s)) = scope_steps sc @ [s]"
    and "ps_next_id (fst (scope_register sc s)) = ps_next_id sc"
  using assms
  by (auto simp: open_scope_def scope_register_def register_step_def register_def cx_inv_def scope_steps_def split: prod.splits)

lemma next_step_id_open:
  assumes "open_scope c sc"
  shows "open_scope c (fst (next_step_id sc))" and "scope_steps (fst (next_step_id sc)) = scope_steps sc"
  using assms by (auto simp: open_scope_def next_step_id_def scope_steps_def)

lemma run_prog_open: "open_scope c sc \<Longrightarrow> open_scope c (fst (run_prog prog sc))"
proof (induction prog arbitrary: sc)
  case (NextId k)
  then show ?case using next_step_id_open(1) [OF NextId(2)] by (auto split: prod.split)
next
  case (Register s k)
  then show ?case using scope_register_open(1) [OF Register(2), of s] by (auto split: prod.split)
qed simp

text \<open>The allocations a program makes, and the discipline of registering each step under an id
  of its own.\<close>

primrec allocs :: "('c, 'v) plan_prog \<Rightarrow> ('c, 'v) plan_scope \<Rightarrow> nat" where
  "allocs (Return r) = (\<lambda>sc. 0)"
| "allocs (NextId k) = (\<lambda>sc. Suc (allocs (k (snd (next_step_id sc))) (fst (next_step_id sc))))"
| "allocs (Register s k) = (\<lambda>sc. allocs (k (snd (scope_register sc s))) (fst (scope_register sc s)))"

primrec disciplined :: "('c, 'v) plan_prog \<Rightarrow> step_id set \<Rightarrow> bool" where
  "disciplined (Return r) = (\<lambda>A. True)"
| "disciplined (NextId k) = (\<lambda>A. \<forall>i. disciplined (k i) (insert i A))"
| "disciplined (Register s k) = (\<lambda>A. st_id s \<in> A \<and> (\<forall>r. disciplined (k r) (A - {st_id s})))"

definition alloc_inv :: "nat \<Rightarrow> step_id set \<Rightarrow> ('c, 'v) plan_scope \<Rightarrow> bool" where
  "alloc_inv m A sc \<longleftrightarrow> ps_next_id sc = of_nat (Suc m) \<and> A \<subseteq> of_nat ` {1..m} \<and>
     st_id ` set (scope_steps sc) \<subseteq> of_nat ` {1..m} \<and> A \<inter> st_id ` set (scope_steps sc) = {} \<and>
     distinct (map st_id (scope_steps sc))"

lemma alloc_invD:
  assumes "alloc_inv m A sc"
  shows "ps_next_id sc = of_nat (Suc m)" and "A \<subseteq> of_nat ` {1..m}" and "st_id ` set (scope_steps sc) \<subseteq> of_nat ` {1..m}"
    and "A \<inter> st_id ` set (scope_steps sc) = {}" and "distinct (map st_id (scope_steps sc))"
  using assms by (simp_all add: alloc_inv_def)

lemma scope_new_alloc: "alloc_inv 0 {} (scope_new c)"
  by (simp add: alloc_inv_def scope_new_steps)

lemma fresh_id: "Suc m < 2 ^ 32 \<Longrightarrow> (of_nat (Suc m) :: 32 word) \<notin> of_nat ` {1..m}"
proof
  assume m: "Suc m < 2 ^ 32" and "(of_nat (Suc m) :: 32 word) \<in> of_nat ` {1..m}"
  then obtain k where "k \<le> m" "(of_nat (Suc m) :: 32 word) = of_nat k" by auto
  then have "unat (of_nat (Suc m) :: 32 word) = unat (of_nat k :: 32 word)" by simp
  with m \<open>k \<le> m\<close> show False by (simp only: unat_of_nat_32)
qed

lemma alloc_inv_next:
  assumes "alloc_inv m A sc" and "open_scope c sc" and "Suc m < 2 ^ 32"
  shows "alloc_inv (Suc m) (insert (snd (next_step_id sc)) A) (fst (next_step_id sc))"
proof -
  have i: "snd (next_step_id sc) = of_nat (Suc m)" and n: "ps_next_id (fst (next_step_id sc)) = of_nat (Suc (Suc m))"
    using assms(1) by (simp_all add: next_step_id_def alloc_inv_def)
  note D = alloc_invD [OF assms(1)] and st = next_step_id_open(2) [OF assms(2)]
  have sub: "of_nat ` {1..m} \<subseteq> (of_nat ` {1..Suc m} :: 32 word set)" by (rule image_mono) simp
  have "of_nat (Suc m) \<in> (of_nat ` {1..Suc m} :: 32 word set)" by (intro image_eqI [OF refl]) simp
  then have "insert (of_nat (Suc m)) A \<subseteq> of_nat ` {1..Suc m}" using order_trans [OF D(2) sub] by (rule insert_subsetI)
  moreover have "of_nat (Suc m) \<notin> st_id ` set (scope_steps sc)" using fresh_id [OF assms(3)] D(3) by (rule contra_subsetD [rotated])
  then have "insert (of_nat (Suc m)) A \<inter> st_id ` set (scope_steps sc) = {}" using D(4) by (simp only: insert_disjoint simp_thms)
  ultimately show ?thesis
    unfolding alloc_inv_def i n st by (intro conjI refl D(5) order_trans [OF D(3) sub])
qed

lemma alloc_inv_register:
  assumes "alloc_inv m A sc" and "open_scope c sc" and "st_id s \<in> A"
  shows "alloc_inv m (A - {st_id s}) (fst (scope_register sc s))"
proof -
  note r = scope_register_open(3,4) [OF assms(2), of s] and D = alloc_invD [OF assms(1)]
  have "st_id s \<notin> st_id ` set (scope_steps sc)" using D(4) assms(3) by blast
  then have "distinct (map st_id (scope_steps sc @ [s]))" using D(5) by simp
  moreover have "st_id ` set (scope_steps sc @ [s]) = insert (st_id s) (st_id ` set (scope_steps sc))" by simp
  moreover have "A - {st_id s} \<subseteq> of_nat ` {1..m}" using D(2) by blast
  moreover have "insert (st_id s) (st_id ` set (scope_steps sc)) \<subseteq> of_nat ` {1..m}"
    using subsetD [OF D(2) assms(3)] D(3) by (rule insert_subsetI)
  moreover have "(A - {st_id s}) \<inter> insert (st_id s) (st_id ` set (scope_steps sc)) = {}" using D(4) by blast
  ultimately show ?thesis using D(1) unfolding alloc_inv_def r by simp
qed

lemma alloc_inv_forget: "alloc_inv m A sc \<Longrightarrow> alloc_inv m {} sc"
  by (auto simp: alloc_inv_def)

lemma run_prog_alloc:
  "disciplined prog A \<Longrightarrow> open_scope c sc \<Longrightarrow> alloc_inv m A sc \<Longrightarrow> m + allocs prog sc < 2 ^ 32 \<Longrightarrow>
   \<exists>A'. alloc_inv (m + allocs prog sc) A' (fst (run_prog prog sc))"
proof (induction prog arbitrary: sc A m)
  case (NextId k)
  obtain sc' i where n: "next_step_id sc = (sc', i)" by (cases "next_step_id sc")
  have "alloc_inv (Suc m) (insert i A) sc'"
    using alloc_inv_next [OF NextId.prems(3,2)] NextId.prems(4) n by simp
  moreover have "open_scope c sc'" using next_step_id_open(1) [OF NextId.prems(2)] n by simp
  ultimately have "\<exists>A'. alloc_inv (Suc m + allocs (k i) sc') A' (fst (run_prog (k i) sc'))"
    using NextId.prems(1,4) n by (intro NextId.IH [of "k i"]) auto
  then show ?case by (simp add: n)
next
  case (Register s k)
  obtain sc' r where n: "scope_register sc s = (sc', r)" by (cases "scope_register sc s")
  have "alloc_inv m (A - {st_id s}) sc'"
    using alloc_inv_register [OF Register.prems(3,2), of s] Register.prems(1) n by simp
  moreover have "open_scope c sc'" using scope_register_open(1) [OF Register.prems(2), of s] n by simp
  ultimately have "\<exists>A'. alloc_inv (m + allocs (k r) sc') A' (fst (run_prog (k r) sc'))"
    using Register.prems(1,4) n by (intro Register.IH [of "k r"]) auto
  then show ?case by (simp add: n)
qed auto

fun plan_allocs :: "(string \<times> ('j, 'c, 'v) plan_fn \<times> 'j field_args) list \<Rightarrow> ('c, 'v) plan_scope \<Rightarrow> nat" where
  "plan_allocs [] sc = 0"
| "plan_allocs ((key, plan_fn, args) # rest) sc =
     allocs (plan_fn args) sc + plan_allocs rest (fst (run_prog (plan_fn args) sc))"

lemma plan_steps_ok:
  assumes "plan_steps todo sc fs = (sc', Inr fs')" and "open_scope c sc" and "alloc_inv m {} sc"
    and "list_all (\<lambda>(key, f, args). disciplined (f args) {}) todo" and "m + plan_allocs todo sc < 2 ^ 32"
  shows "open_scope c sc' \<and> distinct (map st_id (scope_steps sc')) \<and> dom (map_of fs') = dom (map_of fs) \<union> fst ` set todo"
  using assms
proof (induction todo arbitrary: sc fs m)
  case Nil
  then show ?case by (simp add: alloc_inv_def)
next
  case (Cons t todo)
  obtain key f args where t: "t = (key, f, args)" by (cases t)
  obtain sc1 r where r: "run_prog (f args) sc = (sc1, r)" by (cases "run_prog (f args) sc")
  with Cons.prems(1) t obtain i where i: "r = Inr i" and rest: "plan_steps todo sc1 (assoc_insert key i fs) = (sc', Inr fs')"
    by (cases r) auto
  have "open_scope c sc1" using run_prog_open [OF Cons.prems(2), of "f args"] r by simp
  moreover obtain A where "alloc_inv (m + allocs (f args) sc) A sc1"
    using run_prog_alloc [OF _ Cons.prems(2,3), of "f args"] Cons.prems(4,5) r by (auto simp: t)
  then have "alloc_inv (m + allocs (f args) sc) {} sc1" by (rule alloc_inv_forget)
  ultimately have "open_scope c sc' \<and> distinct (map st_id (scope_steps sc')) \<and>
      dom (map_of fs') = dom (map_of (assoc_insert key i fs)) \<union> fst ` set todo"
    using Cons.prems(4,5) r by (intro Cons.IH [OF rest]) (auto simp: t)
  then show ?case by (auto simp: t)
qed

section \<open>Properties\<close>

text \<open>C11: a plan context runs its plan once and serves the results by the ids that were registered.
  However a context was used before, executing it while it still takes steps either succeeds, and
  then the result read for every id is that of the one and only solution of the registered steps
  (also for a step that was merged into another), or fails with the planner's error or the error
  of a step, and then no result is served. Afterwards it takes no step and runs no plan again.\<close>

theorem plan_context_results:
  assumes "petgraph_laws G ok" and "hash_keys keys_of"
    and "(cx_step G keys_of)\<^sup>*\<^sup>* (plan_context_new c n) cx" and "cx_planner cx = Some p"
    and "distinct (map st_id (pl_steps p))" and "faithful_fingerprints (pl_steps p)"
    and "plan_execute G keys_of cx = (cx', r)"
  shows "(case r of
      Inr _ \<Rightarrow> is_executed cx' \<and>
        (\<forall>ref. solves (cx_exec_ctx cx) (pl_batch_size p) id (step_map_of (pl_steps p)) ref \<longleftrightarrow> ref = get_result cx')
    | Inl e \<Rightarrow> \<not> is_executed cx' \<and> get_result cx' = Map.empty \<and>
        (planner_build G p = Inl e \<or> fails_on (cx_exec_ctx cx) (pl_batch_size p) id (step_map_of (pl_steps p)) e)) \<and>
    (\<forall>s. \<exists>e. register_step cx' s = (cx', Inl e)) \<and> (\<exists>e. plan_execute G keys_of cx' = (cx', Inl e))"
proof -
  note out = plan_execute_outcome [OF assms(1,2) cx_reachable_inv [OF assms(3)] assms(4-6)]
  have "cx_planner cx' = None" using out assms(7) by (auto split: sum.splits)
  then have "\<forall>s. \<exists>e. register_step cx' s = (cx', Inl e)" "\<exists>e. plan_execute G keys_of cx' = (cx', Inl e)"
    by (simp_all add: register_step_def plan_execute_def)
  moreover from out assms(7) have "case r of
      Inr _ \<Rightarrow> is_executed cx' \<and>
        (\<forall>ref. solves (cx_exec_ctx cx) (pl_batch_size p) id (step_map_of (pl_steps p)) ref \<longleftrightarrow> ref = get_result cx')
    | Inl e \<Rightarrow> \<not> is_executed cx' \<and> get_result cx' = Map.empty \<and>
        (planner_build G p = Inl e \<or> fails_on (cx_exec_ctx cx) (pl_batch_size p) id (step_map_of (pl_steps p)) e)"
    by (auto split: sum.splits)
  ultimately show ?thesis by blast
qed

definition demo_cx :: "(nat, nat) plan_context" where
  "demo_cx = fst (register_step (fst (register_step (plan_context_new 5 2) (const_step 1))) (const_step 2))"

theorem plan_context_results_witness:
  "\<exists>cx' r e. plan_execute vgraph_ops sorted_keys demo_cx = (cx', r) \<and> cx_planner demo_cx \<noteq> None \<and>
     plan_execute vgraph_ops sorted_keys cx' = (cx', Inl e)"
proof -
  let ?a = "fst (register_step (plan_context_new 5 2) (const_step 1)) :: (nat, nat) plan_context"
  have one: "cx_step vgraph_ops sorted_keys (plan_context_new 5 2) ?a" by (rule cx_register)
  have two: "cx_step vgraph_ops sorted_keys ?a demo_cx" unfolding demo_cx_def by (rule cx_register)
  have run: "(cx_step vgraph_ops sorted_keys)\<^sup>*\<^sup>* (plan_context_new 5 2) demo_cx"
    by (rule converse_rtranclp_into_rtranclp, rule one, rule r_into_rtranclp, rule two)
  obtain p where p: "cx_planner demo_cx = Some p" "pl_steps p = [const_step 1, const_step 2]"
    by (simp add: demo_cx_def register_step_def plan_context_new_def register_def planner_new_def)
  obtain cx' r where e: "plan_execute vgraph_ops sorted_keys demo_cx = (cx', r)" by force
  have d: "distinct (map st_id (pl_steps p))" and f: "faithful_fingerprints (pl_steps p)"
    unfolding p(2) by (simp_all add: const_step_def faithful_fingerprints_def)
  from plan_context_results [OF vg.petgraph_laws_axioms sk.hash_keys_axioms run p(1) d f e] e p(1)
  show ?thesis by auto
qed

text \<open>The request, read off the operation. The operation chosen: the one of that name, or the only one.\<close>

definition chosen_operation :: "'a request_document \<Rightarrow> string option \<Rightarrow> 'a request_operation \<Rightarrow> bool" where
  "chosen_operation doc name op \<longleftrightarrow>
     (case name of
        Some n \<Rightarrow> (\<exists>before after. doc = before @ (Some n, op) # after \<and> Some n \<notin> fst ` set before)
      | None \<Rightarrow> (\<exists>m. doc = [(m, op)]))"

text \<open>Its root fields that have a plan function, in order, and the key a field has in the response: its
  alias, or its name when it has none.\<close>

definition planned_root_fields :: "('j, 'c, 'v) plan_registry \<Rightarrow> 'a root_selection list \<Rightarrow> 'a request_field list" where
  "planned_root_fields reg items = [f. RootField f \<leftarrow> items, map_of reg (''Query'', rf_name f) \<noteq> None]"

definition answer_key :: "'a request_field \<Rightarrow> string" where
  "answer_key f = (case rf_alias f of Some a \<Rightarrow> a | None \<Rightarrow> rf_name f)"

text \<open>The JSON values of arguments, variables replaced; of two arguments of one name the later counts.\<close>

definition json_value :: "('a, 'k, 'j) value_ops \<Rightarrow> (string \<rightharpoonup> 'k) \<Rightarrow> 'a \<Rightarrow> string + 'j" where
  "json_value V vars v =
     rbind (into_const_with V (\<lambda>x. case vars x of Some k \<Rightarrow> Inr k | None \<Rightarrow> Inl (''unknown variable $'' @ x)) v) (into_json V)"

definition resolved_args :: "('a, 'k, 'j) value_ops \<Rightarrow> (string \<rightharpoonup> 'k) \<Rightarrow> (string \<times> 'a) list \<Rightarrow> 'j field_args \<Rightarrow> bool" where
  "resolved_args V vars args j \<longleftrightarrow>
     (\<exists>js. list_all2 (\<lambda>(n, v) (m, x). m = n \<and> json_value V vars v = Inr x) args js \<and> j = assoc_collect js)"

text \<open>The programs of the plan functions run one after the other in one scope, each leaving an id.\<close>

definition planning_run :: "('c, 'v) plan_scope \<Rightarrow> ('c, 'v) plan_prog list \<Rightarrow> ('c, 'v) plan_scope list \<Rightarrow> step_id list \<Rightarrow> bool" where
  "planning_run sc progs scopes ids \<longleftrightarrow>
     length scopes = Suc (length progs) \<and> length ids = length progs \<and> scopes ! 0 = sc \<and>
     (\<forall>k < length progs. run_prog (progs ! k) (scopes ! k) = (scopes ! Suc k, Inr (ids ! k)))"

lemma chosen_operation_selected: "chosen_operation doc name op \<Longrightarrow> select_operation doc name = Some op"
proof (cases name)
  case (Some n)
  have "find (\<lambda>op. case fst op of Some m \<Rightarrow> m = n | None \<Rightarrow> False) (before @ (Some n, op) # after) = Some (Some n, op)"
    if "Some n \<notin> fst ` set before" for before after and op :: "'a request_operation"
    using that by (induction before) (auto split: option.split)
  then show "chosen_operation doc name op \<Longrightarrow> ?thesis" by (auto simp: chosen_operation_def select_operation_def Some)
qed (auto simp: chosen_operation_def select_operation_def)

lemma registry_get_map_of: "registry_get reg t n = map_of reg (t, n)"
  by (induction reg) (auto simp: registry_get_def)

lemma resolved_args_result:
  assumes "resolved_args V vars args j"
  shows "resolve_args V vars args [] = Inr j"
proof -
  have "resolve_args V vars args m = Inr (assoc_extend m js)"
    if "list_all2 (\<lambda>(n, v) (m, x). m = n \<and> json_value V vars v = Inr x) args js" for m js
    using that
  proof (induction args js arbitrary: m rule: list_all2_induct)
    case (Cons a args b js)
    obtain n v x where ab: "a = (n, v)" "b = (n, x)" "json_value V vars v = Inr x" using Cons(1) by auto
    then show ?case by (auto simp: json_value_def Cons.IH split: sum.splits elim!: rbind.elims)
  qed simp
  with assms show ?thesis by (auto simp: resolved_args_def assoc_collect_def)
qed

lemma planned_root_fields_simps:
  "planned_root_fields reg [] = []"
  "planned_root_fields reg (RootFragment # items) = planned_root_fields reg items"
  "planned_root_fields reg (RootField f # items) =
     (if map_of reg (''Query'', rf_name f) = None then [] else [f]) @ planned_root_fields reg items"
  by (simp_all add: planned_root_fields_def)

lemma planned_fields_of:
  assumes "\<forall>f \<in> set (planned_root_fields reg items). resolved_args V vars (rf_arguments f) (A f)"
  shows "planned_fields V vars reg items =
    Inr (map (\<lambda>f. (answer_key f, the (map_of reg (''Query'', rf_name f)), A f)) (planned_root_fields reg items))"
  using assms
proof (induction V vars reg items rule: planned_fields.induct)
  case (3 V vars reg field sels)
  show ?case
  proof (cases "map_of reg (''Query'', rf_name field)")
    case None
    then show ?thesis using 3 by (simp add: registry_get_map_of planned_root_fields_simps)
  next
    case (Some f)
    with 3 have "resolve_args V vars (rf_arguments field) [] = Inr (A field)"
      by (intro resolved_args_result) (simp add: planned_root_fields_simps)
    then show ?thesis using 3 Some
      by (simp add: registry_get_map_of planned_root_fields_simps response_key_def answer_key_def unwrap_or_def)
  qed
qed (simp_all add: planned_root_fields_simps)

lemma plan_steps_run:
  assumes "planning_run sc (map (\<lambda>f. P f (A f)) fs) scopes ids"
  shows "plan_steps (map (\<lambda>f. (key f, P f, A f)) fs) sc m =
      (last scopes, Inr (assoc_extend m (zip (map key fs) ids))) \<and>
    plan_allocs (map (\<lambda>f. (key f, P f, A f)) fs) sc = (\<Sum>k < length fs. allocs (P (fs ! k) (A (fs ! k))) (scopes ! k))"
  using assms
proof (induction fs arbitrary: sc scopes ids m)
  case Nil
  then show ?case by (auto simp: planning_run_def length_Suc_conv)
next
  case (Cons f fs)
  then obtain sc1 rest i ids' where l: "scopes = sc # sc1 # rest" "ids = i # ids'"
    by (auto simp: planning_run_def length_Suc_conv)
  have one: "run_prog (P f (A f)) sc = (sc1, Inr i)" and tl: "planning_run sc1 (map (\<lambda>f. P f (A f)) fs) (sc1 # rest) ids'"
    using Cons.prems unfolding planning_run_def l by (auto simp: nth_Cons' dest: spec [of _ 0] spec [of _ "Suc _"])
  from Cons.IH [OF tl, of "assoc_insert (key f) i m"] one show ?case
    by (simp add: l sum.lessThan_Suc_shift del: sum.lessThan_Suc)
qed

text \<open>C12: planning a query. Take the root fields of the chosen operation that have a plan function,
  their arguments resolved to JSON. When these functions, run in order, each allocate the ids under
  which they register steps (fewer than 2 to the 32 in all) and return an id, the request either goes
  on with the results of the plan, and what is read under a response key (the alias of a field, or its
  name) is the output, in the one solution of all the registered steps, of the step whose id the
  function of the last planned field with that key returned, and nothing under any other key; or it
  is answered with the error of the plan. A panic comes from a step.\<close>

theorem planned_operation_outcome:
  assumes "petgraph_laws G ok" and "hash_keys keys_of"
    and "chosen_operation doc name op" and "ro_ty op = OpQuery"
    and "planned_root_fields reg (ro_items op) = fs" and "fs \<noteq> []"
    and "\<forall>f \<in> set fs. resolved_args V vars (rf_arguments f) (A f)"
    and "planning_run (scope_new c) (map (\<lambda>f. the (map_of reg (''Query'', rf_name f)) (A f)) fs) scopes ids"
    and "\<forall>f \<in> set fs. disciplined (the (map_of reg (''Query'', rf_name f)) (A f)) {}"
    and "(\<Sum>k < length fs. allocs (the (map_of reg (''Query'', rf_name (fs ! k))) (A (fs ! k))) (scopes ! k)) < 2 ^ 32"
    and "faithful_fingerprints (scope_steps (last scopes))"
  shows "case plan_operation G keys_of V reg c (Some (doc, vars)) name None of
       Some (Inr results) \<Rightarrow>
         (\<exists>ref. solves c PLAN_BATCH_SIZE id (step_map_of (scope_steps (last scopes))) ref \<and>
            (\<forall>key. field_output results key =
               Option.bind (map_of (rev (zip (map (\<lambda>f. case rf_alias f of Some a \<Rightarrow> a | None \<Rightarrow> rf_name f) fs) ids)) key) ref))
     | Some (Inl msg) \<Rightarrow>
         (\<exists>e. msg = ''plan execution failed: '' @ display_error e \<and>
            (planner_build G \<lparr>pl_steps = scope_steps (last scopes), pl_batch_size = PLAN_BATCH_SIZE\<rparr> = Inl (Fail e) \<or>
             fails_on c PLAN_BATCH_SIZE id (step_map_of (scope_steps (last scopes))) (Fail e)))
     | None \<Rightarrow>
         planner_build G \<lparr>pl_steps = scope_steps (last scopes), pl_batch_size = PLAN_BATCH_SIZE\<rparr> = Inl Panic \<or>
         fails_on c PLAN_BATCH_SIZE id (step_map_of (scope_steps (last scopes))) Panic"
proof -
  let ?P = "\<lambda>f. the (map_of reg (''Query'', rf_name f))" and ?sc = "last scopes"
  define todo where "todo = map (\<lambda>f. (answer_key f, ?P f, A f)) fs"
  define field_steps where "field_steps = assoc_extend [] (zip (map answer_key fs) ids)"
  have fields: "planned_fields V vars reg (ro_items op) = Inr todo"
    using planned_fields_of [of reg "ro_items op" V vars A] assms(5,7) by (simp add: todo_def)
  have steps: "plan_steps todo (scope_new c) [] = (?sc, Inr field_steps)"
    and allocs: "plan_allocs todo (scope_new c) = (\<Sum>k < length fs. allocs (?P (fs ! k) (A (fs ! k))) (scopes ! k))"
    using plan_steps_run [where P = ?P and A = A and fs = fs, OF assms(8), of answer_key "[]"] by (simp_all add: todo_def field_steps_def)
  have keys: "map_of field_steps = map_of (rev (zip (map (\<lambda>f. case rf_alias f of Some a \<Rightarrow> a | None \<Rightarrow> rf_name f) fs) ids))"
    by (simp add: field_steps_def map_of_assoc_extend answer_key_def [abs_def])
  have disc: "list_all (\<lambda>(key, f, args). disciplined (f args) {}) todo" using assms(9) by (simp add: todo_def list_all_iff)
  from plan_steps_ok [OF steps scope_new_open scope_new_alloc disc] allocs assms(10)
  have sc: "open_scope c ?sc" "distinct (map st_id (scope_steps ?sc))" by auto
  then obtain p where p: "cx_planner (ps_ctx ?sc) = Some p" "pl_batch_size p = PLAN_BATCH_SIZE" "cx_exec_ctx (ps_ctx ?sc) = c"
    and inv: "cx_inv (ps_ctx ?sc)" by (auto simp: open_scope_def)
  have st: "scope_steps ?sc = pl_steps p" and pr: "p = \<lparr>pl_steps = scope_steps ?sc, pl_batch_size = PLAN_BATCH_SIZE\<rparr>"
    using p by (simp_all add: scope_steps_def)
  obtain cx' r where e: "plan_execute G keys_of (ps_ctx ?sc) = (cx', r)" by force
  note out = plan_execute_outcome [OF assms(1,2) inv p(1) sc(2) [unfolded st] assms(11) [unfolded st], unfolded e prod.case p(2,3)]
  have run: "plan_operation G keys_of V reg c (Some (doc, vars)) name None =
      (case r of Inl Panic \<Rightarrow> None
       | Inl (Fail e) \<Rightarrow> Some (Inl (''plan execution failed: '' @ display_error e))
       | Inr _ \<Rightarrow> Some (Inr (Some \<lparr>pd_ctx = cx', pd_field_steps = field_steps\<rparr>)))"
    using chosen_operation_selected [OF assms(3)] assms(4,6) fields steps e
    by (cases r) (simp_all add: plan_operation_def scope_new_def [symmetric] todo_def split: plan_fail.split unit.split)
  show ?thesis
  proof (cases r)
    case (Inr u)
    with out have "solves c PLAN_BATCH_SIZE id (step_map_of (pl_steps p)) (get_result cx')" by simp
    with Inr show ?thesis unfolding run st by (auto simp: field_output_def keys)
  next
    case (Inl f)
    with out have "planner_build G p = Inl f \<or> fails_on c PLAN_BATCH_SIZE id (step_map_of (pl_steps p)) f" by auto
    then have "planner_build G \<lparr>pl_steps = pl_steps p, pl_batch_size = PLAN_BATCH_SIZE\<rparr> = Inl f \<or>
        fails_on c PLAN_BATCH_SIZE id (step_map_of (pl_steps p)) f"
      using pr st by metis
    with Inl show ?thesis unfolding run st by (cases f) auto
  qed
qed

text \<open>Two fields planned alike; their steps are the same step twice.\<close>

definition const_plan :: "(unit, nat, nat) plan_fn" where
  "const_plan args = NextId (\<lambda>i. Register (const_step i) Return)"

definition demo_ops :: "(unit, unit, unit) value_ops" where
  "demo_ops = \<lparr>into_const_with = (\<lambda>_. Inr), into_json = Inr\<rparr>"

definition demo_field :: "string \<Rightarrow> string option \<Rightarrow> unit root_selection" where
  "demo_field n a = RootField \<lparr>rf_name = n, rf_alias = a, rf_arguments = []\<rparr>"

definition demo_operation :: "unit request_operation" where
  "demo_operation = \<lparr>ro_ty = OpQuery,
     ro_items = [demo_field ''answer'' None, demo_field ''answer'' (Some ''again''), demo_field ''other'' None, RootFragment]\<rparr>"

theorem planned_operation_outcome_witness:
  "\<exists>steps. steps = [const_step 1, const_step 2] \<and>
    (case plan_operation vgraph_ops sorted_keys demo_ops (plan_field [] ''Query'' ''answer'' const_plan) 5
        (Some ([(None, demo_operation)], Map.empty)) None None of
       Some (Inr results) \<Rightarrow>
         (\<exists>ref. solves 5 PLAN_BATCH_SIZE id (step_map_of steps) ref \<and> field_output results ''answer'' = ref 1 \<and>
            field_output results ''again'' = ref 2 \<and> field_output results ''other'' = None)
     | Some (Inl msg) \<Rightarrow> True
     | None \<Rightarrow> True)"
proof -
  let ?reg = "plan_field [] ''Query'' ''answer'' const_plan"
  let ?fs = "[\<lparr>rf_name = ''answer'', rf_alias = None, rf_arguments = []\<rparr>, \<lparr>rf_name = ''answer'', rf_alias = Some ''again'', rf_arguments = []\<rparr>]"
  define s1 where "s1 = fst (run_prog (const_plan []) (scope_new 5))"
  define s2 where "s2 = fst (run_prog (const_plan []) s1)"
  have fs: "planned_root_fields ?reg (ro_items demo_operation) = ?fs"
    by (simp add: planned_root_fields_def demo_operation_def demo_field_def plan_field_def)
  have plan: "the (map_of ?reg (''Query'', ''answer'')) = const_plan" by (simp add: plan_field_def)
  have steps: "scope_steps s2 = [const_step 1, const_step 2]" and ids: "snd (run_prog (const_plan []) (scope_new 5)) = Inr 1"
    "snd (run_prog (const_plan []) s1) = Inr 2"
    by (simp_all add: s1_def s2_def const_plan_def next_step_id_def scope_register_def register_step_def register_def scope_new_def
        plan_context_new_def planner_new_def scope_steps_def) (simp_all add: const_step_def)
  have args: "\<forall>f \<in> set ?fs. resolved_args demo_ops Map.empty (rf_arguments f) []"
    by (simp add: resolved_args_def assoc_collect_def)
  have run: "planning_run (scope_new 5) (map (\<lambda>f. the (map_of ?reg (''Query'', rf_name f)) []) ?fs) [scope_new 5, s1, s2] [1, 2]"
    using ids by (auto simp: planning_run_def plan s1_def s2_def prod_eq_iff less_Suc_eq)
  have d: "\<forall>f \<in> set ?fs. disciplined (the (map_of ?reg (''Query'', rf_name f)) []) {}"
    by (simp add: plan) (simp add: const_plan_def const_step_def)
  have a: "(\<Sum>k < length ?fs. allocs (the (map_of ?reg (''Query'', rf_name (?fs ! k))) []) ([scope_new 5, s1, s2] ! k)) < 2 ^ 32"
    by (simp add: plan) (simp add: const_plan_def)
  have f: "faithful_fingerprints (scope_steps (last [scope_new 5, s1, s2]))"
    by (simp add: steps) (simp add: const_step_def faithful_fingerprints_def)
  have op: "chosen_operation [(None, demo_operation)] None demo_operation" "ro_ty demo_operation = OpQuery"
    by (simp_all add: chosen_operation_def demo_operation_def)
  from planned_operation_outcome [OF vg.petgraph_laws_axioms sk.hash_keys_axioms op fs _ args run d a f] steps
  show ?thesis by (auto split: option.splits sum.splits)
qed

end
