(* ===== verification/Build_Types.thy ===== *)
theory Build_Types
  imports Build_Resolve Build_Plan
begin

text \<open>
  \<^verbatim>\<open>magna-build/src/register\<close> and the fields of \<^verbatim>\<open>magna-build/src/resolve\<close>: the GraphQL types generated
  from the gathered resources. A type, a field and a schema builder of \<^verbatim>\<open>async-graphql\<close> are the
  calls that made them, so a builder is the list of the types registered with it; what the crate
  makes of such a description when it is finished is left to it. The resolver of a field is the
  name of the function of \<open>Build_Resolve\<close> it runs, with the values its closure captured.
\<close>

section \<open>Descriptions\<close>

datatype type_ref = named string | named_nn string | named_list string | named_nn_list_nn string

primrec ref_name :: "type_ref \<Rightarrow> string" where
  "ref_name (named s) = s"
| "ref_name (named_nn s) = s"
| "ref_name (named_list s) = s"
| "ref_name (named_nn_list_nn s) = s"

record input_value =
  iv_name :: string
  iv_type :: type_ref

text \<open>\<open>RExt\<close> is a closure of an extension.\<close>

datatype 'f resolver =
    RNull
  | RColumn string
  | RNodeId resolved_resource
  | RBelongsTo resolved_relation resolved_resource resolved_resource
  | RHasMany resolved_relation resolved_resource resolved_resource
  | RAllX resolved_resource
  | RByPk resolved_resource
  | RCreate resolved_resource
  | RUpdate resolved_resource
  | RDelete resolved_resource
  | RHasNextPage | RHasPreviousPage | RStartCursor | REndCursor
  | REdgeNode | REdgeCursor | RNodes | REdges | RTotalCount | RPageInfo
  | RExt 'f

record 'f field =
  fd_name :: string
  fd_type :: type_ref
  fd_args :: "input_value list"
  fd_resolver :: "'f resolver"

record 'f gql_object =
  ob_name :: string
  ob_implements :: "string list"
  ob_fields :: "'f field list"

datatype 'f gql_type =
    TScalar string
  | TEnum string "string list"
  | TInput string "input_value list"
  | TObject "'f gql_object"
  | TInterface string "(string \<times> type_ref) list"
  | TUnion string "string list"

definition arg :: "string \<Rightarrow> type_ref \<Rightarrow> input_value" where
  "arg n t = \<lparr>iv_name = n, iv_type = t\<rparr>"

definition field_new :: "string \<Rightarrow> type_ref \<Rightarrow> 'f resolver \<Rightarrow> 'f field" where
  "field_new n t r = \<lparr>fd_name = n, fd_type = t, fd_args = [], fd_resolver = r\<rparr>"

definition argument :: "'f field \<Rightarrow> input_value \<Rightarrow> 'f field" where
  "argument f a = f\<lparr>fd_args := fd_args f @ [a]\<rparr>"

definition object_new :: "string \<Rightarrow> 'f gql_object" where
  "object_new n = \<lparr>ob_name = n, ob_implements = [], ob_fields = []\<rparr>"

definition obj_field :: "'f gql_object \<Rightarrow> 'f field \<Rightarrow> 'f gql_object" where
  "obj_field ob f = ob\<lparr>ob_fields := ob_fields ob @ [f]\<rparr>"

definition implement :: "'f gql_object \<Rightarrow> string \<Rightarrow> 'f gql_object" where
  "implement ob n = ob\<lparr>ob_implements := ob_implements ob @ [n]\<rparr>"

text \<open>What was stored as schema data: the loaders, the executor, or a value of an extension.\<close>

datatype ('d, 'j) schema_data = DLoaders "'j loader_registry" | DExecutor | DExt 'd

record ('f, 'd, 'j, 'q, 'c, 'v) builder =
  sb_query :: string
  sb_mutation :: "string option"
  sb_types :: "'f gql_type list"
  sb_data :: "('d, 'j) schema_data list"
  sb_limits :: "(nat \<times> nat) option"
  sb_extension :: "('q, 'c, 'v) plan_registry option"

definition register :: "('f, 'd, 'j, 'q, 'c, 'v) builder \<Rightarrow> 'f gql_type \<Rightarrow> ('f, 'd, 'j, 'q, 'c, 'v) builder" where
  "register b t = b\<lparr>sb_types := sb_types b @ [t]\<rparr>"

definition add_schema_data :: "('f, 'd, 'j, 'q, 'c, 'v) builder \<Rightarrow> ('d, 'j) schema_data \<Rightarrow> ('f, 'd, 'j, 'q, 'c, 'v) builder" where
  "add_schema_data b d = b\<lparr>sb_data := sb_data b @ [d]\<rparr>"

section \<open>Scalars, enums and object types\<close>

definition register_scalars :: "('f, 'd, 'j, 'q, 'c, 'v) builder \<Rightarrow> ('f, 'd, 'j, 'q, 'c, 'v) builder" where
  "register_scalars b =
     foldl register b (map TScalar [''UUID'', ''DateTime'', ''Date'', ''BigInt'', ''JSON'', ''Cursor''])"

definition enum_type :: "resolved_enum \<Rightarrow> 'f gql_type" where
  "enum_type e = TEnum (ev_name e) (ev_values e)"

definition register_enums :: "('f, 'd, 'j, 'q, 'c, 'v) builder \<Rightarrow> resolved_enum list \<Rightarrow> ('f, 'd, 'j, 'q, 'c, 'v) builder" where
  "register_enums b enums = foldl (\<lambda>b e. register b (enum_type e)) b enums"

definition trim_bangs :: "string \<Rightarrow> string" where
  "trim_bangs s = rev (dropWhile (\<lambda>c. c = CHR ''!'') (rev s))"

definition is_bracketed :: "string \<Rightarrow> bool" where
  "is_bracketed base \<longleftrightarrow> (case base of c # _ \<Rightarrow> c = CHR ''['' | [] \<Rightarrow> False) \<and> ends_with '']'' base"

text \<open>A text that starts with a bracket and ends with the other has two characters at least, so the
  slice between them exists.\<close>

definition between_brackets :: "string \<Rightarrow> string" where
  "between_brackets base = butlast (tl base)"

definition gql_type_to_type_ref :: "string \<Rightarrow> bool \<Rightarrow> type_ref" where
  "gql_type_to_type_ref gql_type is_not_null =
     (let base = trim_bangs gql_type
      in if is_bracketed base
         then (if is_not_null then named_nn_list_nn (between_brackets base) else named_list (between_brackets base))
         else if is_not_null then named_nn base
         else named base)"

definition column_field :: "resolved_column \<Rightarrow> 'f field" where
  "column_field c =
     field_new (cv_gql_name c) (gql_type_to_type_ref (cv_gql_type c) (cv_is_not_null c)) (RColumn (cv_pg_name c))"

definition build_object_type :: "resolved_resource \<Rightarrow> 'f gql_object" where
  "build_object_type resource =
     foldl (\<lambda>ob c. obj_field ob (column_field c)) (object_new (rv_name resource)) (rv_columns resource)"

definition register_object_types :: "('f, 'd, 'j, 'q, 'c, 'v) builder \<Rightarrow> resolved_resource list \<Rightarrow> ('f, 'd, 'j, 'q, 'c, 'v) builder" where
  "register_object_types b resources = foldl (\<lambda>b r. register b (TObject (build_object_type r))) b resources"

section \<open>Nodes and connections\<close>

definition register_node_interface :: "('f, 'd, 'j, 'q, 'c, 'v) builder \<Rightarrow> 'f gql_object \<Rightarrow>
    ('f, 'd, 'j, 'q, 'c, 'v) builder \<times> 'f gql_object" where
  "register_node_interface b query =
     (register b (TInterface ''Node'' [(''nodeId'', named_nn ''ID'')]),
      obj_field query (field_new ''node'' (named ''Node'') RNull))"

definition add_node_id_field :: "'f gql_object \<Rightarrow> resolved_resource \<Rightarrow> 'f gql_object" where
  "add_node_id_field ob resource =
     obj_field (implement ob ''Node'') (field_new ''nodeId'' (named_nn ''ID'') (RNodeId resource))"

definition page_info_type :: "'f gql_object" where
  "page_info_type =
     foldl obj_field (object_new ''PageInfo'')
       [field_new ''hasNextPage'' (named_nn ''Boolean'') RHasNextPage,
        field_new ''hasPreviousPage'' (named_nn ''Boolean'') RHasPreviousPage,
        field_new ''startCursor'' (named ''Cursor'') RStartCursor,
        field_new ''endCursor'' (named ''Cursor'') REndCursor]"

definition register_page_info :: "('f, 'd, 'j, 'q, 'c, 'v) builder \<Rightarrow> ('f, 'd, 'j, 'q, 'c, 'v) builder" where
  "register_page_info b = register b (TObject page_info_type)"

definition edge_type :: "string \<Rightarrow> 'f gql_object" where
  "edge_type type_name =
     foldl obj_field (object_new (edge_type_name type_name))
       [field_new ''node'' (named_nn type_name) REdgeNode,
        field_new ''cursor'' (named_nn ''String'') REdgeCursor]"

definition connection_type :: "string \<Rightarrow> 'f gql_object" where
  "connection_type type_name =
     foldl obj_field (object_new (connection_type_name type_name))
       [field_new ''nodes'' (named_nn_list_nn type_name) RNodes,
        field_new ''edges'' (named_nn_list_nn (edge_type_name type_name)) REdges,
        field_new ''totalCount'' (named ''Int'') RTotalCount,
        field_new ''pageInfo'' (named_nn ''PageInfo'') RPageInfo]"

definition register_connection_types :: "('f, 'd, 'j, 'q, 'c, 'v) builder \<Rightarrow> resolved_resource \<Rightarrow> ('f, 'd, 'j, 'q, 'c, 'v) builder" where
  "register_connection_types b resource =
     register (register b (TObject (edge_type (rv_name resource)))) (TObject (connection_type (rv_name resource)))"

section \<open>Filters, orders and conditions\<close>

datatype filter_kind = FkString | FkNumeric | FkBoolean | FkOther

definition classify_filter_kind :: "string \<Rightarrow> filter_kind" where
  "classify_filter_kind gql_type =
     (if gql_type \<in> set [''String'', ''UUID'', ''Cursor''] then FkString
      else if gql_type \<in> set [''Int'', ''Float'', ''BigInt''] then FkNumeric
      else if gql_type \<in> set [''DateTime'', ''Date''] then FkNumeric
      else if gql_type = ''Boolean'' then FkBoolean
      else FkOther)"

fun operators_for_kind :: "filter_kind \<Rightarrow> string list" where
  "operators_for_kind FkString = [''eq'', ''ne'', ''in'', ''like'', ''ilike'', ''startsWith'', ''isNull'']"
| "operators_for_kind FkNumeric = [''eq'', ''ne'', ''lt'', ''lte'', ''gt'', ''gte'', ''in'', ''isNull'']"
| "operators_for_kind FkBoolean = [''eq'', ''ne'', ''isNull'']"
| "operators_for_kind FkOther = [''eq'', ''ne'', ''in'', ''isNull'']"

definition column_filters :: "resolved_column \<Rightarrow> input_value list" where
  "column_filters c =
     (let base_type = trim_bangs (cv_gql_type c);
          element_type = (if is_bracketed base_type then between_brackets base_type else base_type)
      in map (\<lambda>p. arg (cv_gql_name c @ ''_'' @ p)
                   (if p = ''isNull'' then named ''Boolean''
                    else if p = ''in'' then named_list element_type
                    else gql_type_to_type_ref base_type False))
           (operators_for_kind (classify_filter_kind element_type)))"

definition filter_type :: "resolved_resource \<Rightarrow> 'f gql_type" where
  "filter_type resource =
     (let filter_name = filter_type_name (rv_name resource)
      in TInput filter_name
           (concat (map column_filters (rv_columns resource)) @
            [arg ''and'' (named_list filter_name), arg ''or'' (named_list filter_name), arg ''not'' (named filter_name)]))"

definition register_filter_types :: "('f, 'd, 'j, 'q, 'c, 'v) builder \<Rightarrow> resolved_resource list \<Rightarrow> ('f, 'd, 'j, 'q, 'c, 'v) builder" where
  "register_filter_types b resources = foldl (\<lambda>b r. register b (filter_type r)) b resources"

definition order_by_type :: "resolved_resource \<Rightarrow> 'f gql_type" where
  "order_by_type resource =
     TEnum (order_by_type_name (rv_name resource))
       ([''NATURAL'', ''PRIMARY_KEY_ASC'', ''PRIMARY_KEY_DESC''] @
        concat (map (\<lambda>c. let upper = map upper_char (cv_pg_name c) in [upper @ ''_ASC'', upper @ ''_DESC'']) (rv_columns resource)))"

definition register_order_by_types :: "('f, 'd, 'j, 'q, 'c, 'v) builder \<Rightarrow> resolved_resource list \<Rightarrow> ('f, 'd, 'j, 'q, 'c, 'v) builder" where
  "register_order_by_types b resources = foldl (\<lambda>b r. register b (order_by_type r)) b resources"

definition condition_type :: "resolved_resource \<Rightarrow> 'f gql_type" where
  "condition_type resource =
     TInput (condition_type_name (rv_name resource))
       (map (\<lambda>c. arg (cv_gql_name c) (gql_type_to_type_ref (cv_gql_type c) False)) (rv_columns resource))"

definition register_condition_types :: "('f, 'd, 'j, 'q, 'c, 'v) builder \<Rightarrow> resolved_resource list \<Rightarrow> ('f, 'd, 'j, 'q, 'c, 'v) builder" where
  "register_condition_types b resources = foldl (\<lambda>b r. register b (condition_type r)) b resources"

section \<open>Mutations and functions\<close>

definition type_name_to_field :: "string \<Rightarrow> string" where
  "type_name_to_field type_name = (case type_name of [] \<Rightarrow> [] | c # cs \<Rightarrow> lower_char c # cs)"

definition create_input_type :: "resolved_resource \<Rightarrow> 'f gql_type" where
  "create_input_type resource =
     TInput (create_input_type_name (rv_name resource))
       (map (\<lambda>c. arg (cv_gql_name c) (gql_type_to_type_ref (cv_gql_type c) (cv_is_not_null c \<and> \<not> cv_has_default c)))
         (rv_columns resource))"

definition patch_type :: "resolved_resource \<Rightarrow> 'f gql_type" where
  "patch_type resource =
     TInput (patch_type_name (rv_name resource))
       (map (\<lambda>c. arg (cv_gql_name c) (gql_type_to_type_ref (cv_gql_type c) False)) (rv_columns resource))"

definition update_input_type :: "resolved_resource \<Rightarrow> 'f gql_type" where
  "update_input_type resource =
     TInput (update_input_type_name (rv_name resource))
       [arg ''nodeId'' (named_nn ''ID''), arg ''patch'' (named_nn (patch_type_name (rv_name resource)))]"

definition delete_input_type :: "resolved_resource \<Rightarrow> 'f gql_type" where
  "delete_input_type resource =
     TInput (delete_input_type_name (rv_name resource)) [arg ''nodeId'' (named_nn ''ID'')]"

text \<open>The payload of a mutation; that of a delete has one more field.\<close>

definition payload_type :: "string \<Rightarrow> 'f field list \<Rightarrow> string \<Rightarrow> 'f gql_object" where
  "payload_type payload_name extra type_name =
     foldl obj_field (object_new payload_name)
       (field_new (type_name_to_field type_name) (named type_name) RNull # extra @ [field_new ''query'' (named ''Query'') RNull])"

definition register_mutation_types :: "('f, 'd, 'j, 'q, 'c, 'v) builder \<Rightarrow> resolved_resource \<Rightarrow> behavior_set \<Rightarrow>
    ('f, 'd, 'j, 'q, 'c, 'v) builder" where
  "register_mutation_types b resource behaviors =
     (let type_name = rv_name resource;
          b = (if behavior_has behaviors B_INSERT
               then register (register b (create_input_type resource))
                      (TObject (payload_type (create_payload_type_name type_name) [] type_name))
               else b);
          b = (if behavior_has behaviors B_UPDATE
               then register (register (register b (patch_type resource)) (update_input_type resource))
                      (TObject (payload_type (update_payload_type_name type_name) [] type_name))
               else b)
      in if behavior_has behaviors B_DELETE
         then register (register b (delete_input_type resource))
                (TObject (payload_type (delete_payload_type_name type_name)
                  [field_new ''deletedNodeId'' (named ''ID'') RNull] type_name))
         else b)"

text \<open>A mutation field: its name, payload and input type follow from the resource.\<close>

definition create_field :: "resolved_resource \<Rightarrow> 'f resolver \<Rightarrow> 'f field" where
  "create_field resource r =
     argument (field_new (create_mutation_field_name (rv_name resource)) (named (create_payload_type_name (rv_name resource))) r)
       (arg ''input'' (named_nn (create_input_type_name (rv_name resource))))"

definition update_field :: "resolved_resource \<Rightarrow> 'f resolver \<Rightarrow> 'f field" where
  "update_field resource r =
     argument (field_new (update_mutation_field_name (rv_name resource)) (named (update_payload_type_name (rv_name resource))) r)
       (arg ''input'' (named_nn (update_input_type_name (rv_name resource))))"

definition delete_field :: "resolved_resource \<Rightarrow> 'f resolver \<Rightarrow> 'f field" where
  "delete_field resource r =
     argument (field_new (delete_mutation_field_name (rv_name resource)) (named (delete_payload_type_name (rv_name resource))) r)
       (arg ''input'' (named_nn (delete_input_type_name (rv_name resource))))"

definition add_mutation_fields :: "'f gql_object \<Rightarrow> resolved_resource \<Rightarrow> behavior_set \<Rightarrow> 'f gql_object" where
  "add_mutation_fields mutation resource behaviors =
     (let m = (if behavior_has behaviors B_INSERT then obj_field mutation (create_field resource RNull) else mutation);
          m = (if behavior_has behaviors B_UPDATE then obj_field m (update_field resource RNull) else m)
      in if behavior_has behaviors B_DELETE then obj_field m (delete_field resource RNull) else m)"

definition build_create_resolver :: "resolved_resource \<Rightarrow> 'f field" where
  "build_create_resolver resource = create_field resource (RCreate resource)"

definition build_update_resolver :: "resolved_resource \<Rightarrow> 'f field" where
  "build_update_resolver resource = update_field resource (RUpdate resource)"

definition build_delete_resolver :: "resolved_resource \<Rightarrow> 'f field" where
  "build_delete_resolver resource = delete_field resource (RDelete resource)"

datatype function_kind = FnQueryField | FnQueryConnection | FnMutationField

definition classify_function :: "pg_proc \<Rightarrow> function_kind" where
  "classify_function proc =
     (case pr_volatility proc of
        Volatile \<Rightarrow> FnMutationField
      | _ \<Rightarrow> if pr_returns_set proc then FnQueryConnection else FnQueryField)"

definition build_function_fields :: "pg_proc list \<Rightarrow> 'f field list \<times> 'f field list" where
  "build_function_fields procs =
     foldl (\<lambda>(qs, ms) proc.
         let f = field_new (pr_name proc) (named ''String'') RNull
         in case classify_function proc of
              FnMutationField \<Rightarrow> (qs, ms @ [f])
            | _ \<Rightarrow> (qs @ [f], ms)) ([], []) procs"

section \<open>Root and relation fields\<close>

definition page_arguments :: "input_value list" where
  "page_arguments = [arg ''first'' (named ''Int''), arg ''last'' (named ''Int''), arg ''after'' (named ''Cursor''), arg ''before'' (named ''Cursor'')]"

definition allx_field :: "resolved_resource \<Rightarrow> 'f resolver \<Rightarrow> 'f field" where
  "allx_field resource r =
     foldl argument (field_new (all_query_field_name (rv_name resource)) (named (connection_type_name (rv_name resource))) r)
       (page_arguments @
        [arg ''filter'' (named (filter_type_name (rv_name resource))),
         arg ''orderBy'' (named_list (order_by_type_name (rv_name resource))),
         arg ''condition'' (named (condition_type_name (rv_name resource)))])"

definition by_pk_field :: "resolved_resource \<Rightarrow> 'f resolver \<Rightarrow> 'f field" where
  "by_pk_field resource r =
     foldl argument (field_new (by_pk_query_field_name (rv_name resource)) (named (rv_name resource)) r)
       (map (\<lambda>pk_col. arg (to_camel_case pk_col)
           (gql_type_to_type_ref
             (case find (\<lambda>c. cv_pg_name c = pk_col) (rv_columns resource) of Some c \<Rightarrow> cv_gql_type c | None \<Rightarrow> ''String'') True))
         (rv_primary_key resource))"

definition build_allx_resolver :: "resolved_resource \<Rightarrow> 'f field" where
  "build_allx_resolver resource = allx_field resource (RAllX resource)"

definition build_by_pk_resolver :: "resolved_resource \<Rightarrow> 'f field" where
  "build_by_pk_resolver resource = by_pk_field resource (RByPk resource)"

definition build_query_fields :: "resolved_resource \<Rightarrow> behavior_set \<Rightarrow> 'f field list" where
  "build_query_fields resource behaviors =
     (if behavior_has behaviors B_CONNECTION then [allx_field resource RNull] else []) @
     (if behavior_has behaviors B_SELECT_ONE then [by_pk_field resource RNull] else [])"

definition build_belongs_to_resolver :: "resolved_relation \<Rightarrow> resolved_resource \<Rightarrow> resolved_resource \<Rightarrow> string \<times> 'f field" where
  "build_belongs_to_resolver rel source target =
     (rv_name source,
      field_new (belongs_to_field_name (first_column (rl_source_columns rel) ''id'') (rv_table target))
        (named (rv_name target)) (RBelongsTo rel source target))"

definition build_has_many_resolver :: "resolved_relation \<Rightarrow> resolved_resource \<Rightarrow> resolved_resource \<Rightarrow> string \<times> 'f field" where
  "build_has_many_resolver rel source target =
     (rv_name target,
      field_new (has_many_field_name (first_column (rl_source_columns rel) ''id'') (rv_table source))
        (named (connection_type_name (rv_name source))) (RHasMany rel source target))"

definition table_or_type :: "resolved_resource list \<Rightarrow> string \<Rightarrow> string" where
  "table_or_type resources type_name =
     (case find (\<lambda>r. rv_name r = type_name) resources of Some r \<Rightarrow> rv_table r | None \<Rightarrow> type_name)"

definition build_relation_fields :: "resolved_relation list \<Rightarrow> resolved_resource list \<Rightarrow> (string \<times> 'f field) list" where
  "build_relation_fields relations resources =
     concat (map (\<lambda>rel.
         let source_type = rl_source_resource rel; target_type = rl_target_resource rel;
             fk_col = first_column (rl_source_columns rel) ''id''
         in (source_type, field_new (belongs_to_field_name fk_col (table_or_type resources target_type)) (named target_type) RNull) #
            (if rl_is_unique rel then []
             else [(target_type,
               foldl argument (field_new (has_many_field_name fk_col (table_or_type resources source_type))
                 (named (connection_type_name source_type)) RNull) page_arguments)]))
       relations)"

end
