(* ===== verification/Build_Schema.thy ===== *)
theory Build_Schema
  imports Build_Types
begin

text \<open>
  \<^verbatim>\<open>magna-build/src/extension.rs\<close> and \<^verbatim>\<open>build_schema\<close> of \<^verbatim>\<open>lib.rs\<close>: the passes that turn the gathered
  resources, their behaviours and a list of extensions into the description of a schema. A hook of
  an extension reaches its context through the five methods of \<^verbatim>\<open>ExtensionContext\<close> only and reads
  nothing back, so it is the list of the calls it makes. A panic is \<open>None\<close>.
\<close>

unbundle bit_operations_syntax

section \<open>Extensions\<close>

datatype ('f, 'd, 'q, 'c, 'v) ext_call =
    RegisterType "'f gql_type"
  | AddData 'd
  | QueryField "'f field"
  | MutationField "'f field"
  | PlanField string string "('q, 'c, 'v) plan_fn"

record ('f, 'd, 'q, 'c, 'v) schema_extension =
  xt_name :: string
  xt_register_types :: "('f, 'd, 'q, 'c, 'v) ext_call list"
  xt_extend_query :: "('f, 'd, 'q, 'c, 'v) ext_call list"
  xt_extend_mutation :: "('f, 'd, 'q, 'c, 'v) ext_call list"

record ('f, 'd, 'j, 'q, 'c, 'v) ext_context =
  xc_builder :: "('f, 'd, 'j, 'q, 'c, 'v) builder"
  xc_query :: "'f gql_object option"
  xc_mutation :: "'f gql_object option"
  xc_plan_registry :: "('q, 'c, 'v) plan_registry"

fun context_call :: "('f, 'd, 'j, 'q, 'c, 'v) ext_context \<Rightarrow> ('f, 'd, 'q, 'c, 'v) ext_call \<Rightarrow>
    ('f, 'd, 'j, 'q, 'c, 'v) ext_context option" where
  "context_call cx (RegisterType t) = Some (cx\<lparr>xc_builder := register (xc_builder cx) t\<rparr>)"
| "context_call cx (AddData d) = Some (cx\<lparr>xc_builder := add_schema_data (xc_builder cx) (DExt d)\<rparr>)"
| "context_call cx (QueryField f) = map_option (\<lambda>q. cx\<lparr>xc_query := Some (obj_field q f)\<rparr>) (xc_query cx)"
| "context_call cx (MutationField f) = map_option (\<lambda>m. cx\<lparr>xc_mutation := Some (obj_field m f)\<rparr>) (xc_mutation cx)"
| "context_call cx (PlanField t n f) = Some (cx\<lparr>xc_plan_registry := plan_field (xc_plan_registry cx) t n f\<rparr>)"

fun run_hook :: "('f, 'd, 'j, 'q, 'c, 'v) ext_context \<Rightarrow> ('f, 'd, 'q, 'c, 'v) ext_call list \<Rightarrow>
    ('f, 'd, 'j, 'q, 'c, 'v) ext_context option" where
  "run_hook cx [] = Some cx"
| "run_hook cx (c # cs) = Option.bind (context_call cx c) (\<lambda>cx. run_hook cx cs)"

datatype phase = RegisterTypes | ExtendQuery | ExtendMutation

fun hook :: "phase \<Rightarrow> ('f, 'd, 'q, 'c, 'v) schema_extension \<Rightarrow> ('f, 'd, 'q, 'c, 'v) ext_call list" where
  "hook RegisterTypes = xt_register_types"
| "hook ExtendQuery = xt_extend_query"
| "hook ExtendMutation = xt_extend_mutation"

text \<open>The roots are lent to a context only in the phase that may extend them, and read back from it.\<close>

fun run_extension_phase :: "('f, 'd, 'j, 'q, 'c, 'v) builder \<Rightarrow> 'f gql_object \<Rightarrow> 'f gql_object option \<Rightarrow>
    ('q, 'c, 'v) plan_registry \<Rightarrow> ('f, 'd, 'q, 'c, 'v) schema_extension list \<Rightarrow> phase \<Rightarrow>
    (('f, 'd, 'j, 'q, 'c, 'v) builder \<times> 'f gql_object \<times> 'f gql_object option \<times> ('q, 'c, 'v) plan_registry) option" where
  "run_extension_phase b query mutation reg [] ph = Some (b, query, mutation, reg)"
| "run_extension_phase b query mutation reg (ext # exts) ph =
     (let cx = \<lparr>xc_builder = b,
                xc_query = (if ph = ExtendQuery then Some query else None),
                xc_mutation = (if ph = ExtendMutation then mutation else None),
                xc_plan_registry = reg\<rparr>
      in case run_hook cx (hook ph ext) of
           None \<Rightarrow> None
         | Some cx \<Rightarrow>
             run_extension_phase (xc_builder cx)
               (if ph = ExtendQuery then unwrap_or (xc_query cx) query else query)
               (if ph = ExtendMutation then xc_mutation cx else mutation)
               (xc_plan_registry cx) exts ph)"

section \<open>Relations\<close>

definition column_oid :: "resolved_resource \<Rightarrow> string \<Rightarrow> oid" where
  "column_oid r col = (case find (\<lambda>c. cv_pg_name c = col) (rv_columns r) of Some c \<Rightarrow> cv_type_oid c | None \<Rightarrow> 25)"

definition find_resource :: "resolved_resource list \<Rightarrow> string \<Rightarrow> resolved_resource option" where
  "find_resource resources name = find (\<lambda>r. rv_name r = name) resources"

definition add_relation :: "resolved_resource list \<Rightarrow> (string \<times> 'f field) list \<times> 'j loader_registry \<Rightarrow> resolved_relation \<Rightarrow>
    (string \<times> 'f field) list \<times> 'j loader_registry" where
  "add_relation resources st rel =
     (case (find_resource resources (rl_source_resource rel), find_resource resources (rl_target_resource rel)) of
        (Some src, Some tgt) \<Rightarrow>
          (let (fs, reg) = st;
               fs = fs @ [build_belongs_to_resolver rel src tgt];
               (fs, reg) =
                 (if rl_is_unique rel then (fs, reg)
                  else let fk_col = first_column (rl_source_columns rel) []
                       in (fs @ [build_has_many_resolver rel src tgt],
                           register_has_many reg (rv_name src @ '':'' @ fk_col) src fk_col (column_oid src fk_col) None));
               pk_col = first_column (rv_primary_key tgt) []
           in (fs, register_belongs_to reg (rv_name tgt @ '':'' @ pk_col) tgt pk_col (column_oid tgt pk_col) None))
      | _ \<Rightarrow> st)"

definition relation_parts :: "resolved_resource list \<Rightarrow> resolved_relation list \<Rightarrow> (string \<times> 'f field) list \<times> 'j loader_registry" where
  "relation_parts resources relations = foldl (add_relation resources) ([], loader_registry_new) relations"

text \<open>One object per resource. \<^verbatim>\<open>remove\<close> hands the relation fields of a type name to the first resource
  of that name.\<close>

definition object_of :: "resolved_resource \<Rightarrow> 'f field list \<Rightarrow> 'f gql_object" where
  "object_of resource rel_fields =
     (let ob = foldl obj_field (build_object_type resource) rel_fields
      in if rv_primary_key resource \<noteq> [] \<and> \<not> list_ex (\<lambda>c. cv_gql_name c = ''nodeId'') (rv_columns resource)
         then add_node_id_field ob resource else ob)"

fun register_objects :: "('f, 'd, 'j, 'q, 'c, 'v) builder \<Rightarrow> (string \<times> 'f field list) list \<Rightarrow> resolved_resource list \<Rightarrow>
    ('f, 'd, 'j, 'q, 'c, 'v) builder" where
  "register_objects b by_type [] = b"
| "register_objects b by_type (r # rs) =
     register_objects (register b (TObject (object_of r (unwrap_or (map_of by_type (rv_name r)) []))))
       (filter (\<lambda>e. fst e \<noteq> rv_name r) by_type) rs"

definition group_fields :: "(string \<times> 'f field) list \<Rightarrow> (string \<times> 'f field list) list" where
  "group_fields fs = foldl (\<lambda>m (t, f). assoc_insert t (unwrap_or (map_of m t) [] @ [f]) m) [] fs"

section \<open>The passes of \<open>build_schema\<close>\<close>

definition behaviors_of :: "(string \<times> behavior_set) list \<Rightarrow> resolved_resource \<Rightarrow> behavior_set" where
  "behaviors_of behaviors r = unwrap_or (map_of behaviors (rv_name r)) 0"

definition supports :: "(string \<times> behavior_set) list \<Rightarrow> 16 word \<Rightarrow> resolved_resource \<Rightarrow> bool" where
  "supports behaviors flag r \<longleftrightarrow> behavior_has (behaviors_of behaviors r) flag"

definition has_mutations :: "(string \<times> behavior_set) list \<Rightarrow> bool" where
  "has_mutations behaviors \<longleftrightarrow>
     list_ex (\<lambda>(_, bs). behavior_has bs B_INSERT \<or> behavior_has bs B_UPDATE \<or> behavior_has bs B_DELETE) behaviors"

definition builder_new :: "string \<Rightarrow> string option \<Rightarrow> ('f, 'd, 'j, 'q, 'c, 'v) builder" where
  "builder_new query mutation =
     \<lparr>sb_query = query, sb_mutation = mutation, sb_types = [], sb_data = [], sb_limits = None, sb_extension = None\<rparr>"

text \<open>Passes 2 to 11: the types that need no extension.\<close>

definition base_types :: "'m gather_output \<Rightarrow> (string \<times> behavior_set) list \<Rightarrow> (string \<times> 'f field) list \<Rightarrow>
    ('f, 'd, 'j, 'q, 'c, 'v) builder \<times> 'f gql_object" where
  "base_types output behaviors rel_fields =
     (let resources = go_resources output;
          b = builder_new ''Query'' (if has_mutations behaviors then Some ''Mutation'' else None);
          b = register_enums (register_scalars b) (go_enums output);
          b = register_objects b (group_fields rel_fields) resources;
          query = obj_field (object_new ''Query'') (field_new ''_placeholder'' (named ''String'') RNull);
          (b, query) = register_node_interface b query;
          b = register_page_info b;
          b = foldl (\<lambda>b r. if supports behaviors B_CONNECTION r then register_connection_types b r else b) b resources;
          filter_resources = filter (supports behaviors B_FILTER) resources;
          b = (if filter_resources \<noteq> [] then register_filter_types b filter_resources else b);
          order_by_resources = filter (supports behaviors B_ORDER_BY) resources;
          b = (if order_by_resources \<noteq> [] then register_order_by_types b order_by_resources else b)
      in (register_condition_types b resources, query))"

definition add_query_fields :: "(string \<times> behavior_set) list \<Rightarrow> 'f gql_object \<Rightarrow> resolved_resource \<Rightarrow> 'f gql_object" where
  "add_query_fields behaviors query r =
     (let query = (if supports behaviors B_CONNECTION r then obj_field query (build_allx_resolver r) else query)
      in if supports behaviors B_SELECT_ONE r then obj_field query (build_by_pk_resolver r) else query)"

definition add_mutations :: "(string \<times> behavior_set) list \<Rightarrow> ('f, 'd, 'j, 'q, 'c, 'v) builder \<times> 'f gql_object \<Rightarrow> resolved_resource \<Rightarrow>
    ('f, 'd, 'j, 'q, 'c, 'v) builder \<times> 'f gql_object" where
  "add_mutations behaviors st r =
     (let (b, mutation) = st;
          b = register_mutation_types b r (behaviors_of behaviors r);
          mutation = (if supports behaviors B_INSERT r then obj_field mutation (build_create_resolver r) else mutation);
          mutation = (if supports behaviors B_UPDATE r then obj_field mutation (build_update_resolver r) else mutation);
          mutation = (if supports behaviors B_DELETE r then obj_field mutation (build_delete_resolver r) else mutation)
      in (b, mutation))"

text \<open>Pass 13: the mutation root, with the hooks that extend it.\<close>

definition mutation_pass :: "'m gather_output \<Rightarrow> (string \<times> behavior_set) list \<Rightarrow> ('f, 'd, 'q, 'c, 'v) schema_extension list \<Rightarrow>
    ('f, 'd, 'j, 'q, 'c, 'v) builder \<times> 'f gql_object \<times> ('q, 'c, 'v) plan_registry \<Rightarrow>
    (('f, 'd, 'j, 'q, 'c, 'v) builder \<times> 'f gql_object \<times> ('q, 'c, 'v) plan_registry) option" where
  "mutation_pass output behaviors extensions st =
     (let (b, query, reg) = st
      in if has_mutations behaviors
         then let (b, mutation) = foldl (add_mutations behaviors) (b, object_new ''Mutation'') (go_resources output);
                  mutation = foldl obj_field mutation (snd (build_function_fields []))
              in case run_extension_phase b query (Some mutation) reg extensions ExtendMutation of
                   None \<Rightarrow> None
                 | Some (b, query, mutation, reg) \<Rightarrow>
                     Some (case mutation of Some m \<Rightarrow> register b (TObject m) | None \<Rightarrow> b, query, reg)
         else Some st)"

definition schema_builder :: "'m gather_output \<Rightarrow> (string \<times> behavior_set) list \<Rightarrow> ('f, 'd, 'q, 'c, 'v) schema_extension list \<Rightarrow>
    ('f, 'd, 'j, 'q, 'c, 'v) builder option" where
  "schema_builder output behaviors extensions =
     (let (rel_fields, registry) = relation_parts (go_resources output) (go_relations output);
          (b, query) = base_types output behaviors rel_fields
      in case run_extension_phase b query None [] extensions RegisterTypes of
           None \<Rightarrow> None
         | Some (b, query, _, reg) \<Rightarrow>
             (let query = foldl (add_query_fields behaviors) query (go_resources output)
              in case run_extension_phase b query None reg extensions ExtendQuery of
                   None \<Rightarrow> None
                 | Some (b, query, _, reg) \<Rightarrow>
                     (case mutation_pass output behaviors extensions (b, query, reg) of
                        None \<Rightarrow> None
                      | Some (b, query, reg) \<Rightarrow>
                          (let query = foldl obj_field query (fst (build_function_fields []));
                               b = register b (TObject query);
                               b = add_schema_data (add_schema_data b (DLoaders registry)) DExecutor;
                               b = b\<lparr>sb_limits := Some (200, 10)\<rparr>
                           in Some (if registry_empty reg then b else b\<lparr>sb_extension := Some reg\<rparr>)))))"

datatype build_error =
    BuildIntrospection fw_graph_error
  | UnmappedType oid string string
  | DuplicateTypeName string
  | SchemaFinish string
  | PluginError string string

definition build_schema :: "(('f, 'd, 'j, 'q, 'c, 'v) builder \<Rightarrow> (string + 's) option) \<Rightarrow> 'm gather_output \<Rightarrow>
    (string \<times> behavior_set) list \<Rightarrow> ('f, 'd, 'q, 'c, 'v) schema_extension list \<Rightarrow> (build_error + 's) option" where
  "build_schema finish output behaviors extensions =
     Option.bind (schema_builder output behaviors extensions) (\<lambda>b.
       map_option (map_sum SchemaFinish id) (finish b))"

section \<open>The shape of a description\<close>

text \<open>Every pass only adds types to the builder; its result is the list of what it added.\<close>

definition extend :: "('f, 'd, 'j, 'q, 'c, 'v) builder \<Rightarrow> 'f gql_type list \<Rightarrow> ('f, 'd, 'j, 'q, 'c, 'v) builder" where
  "extend b ts = b\<lparr>sb_types := sb_types b @ ts\<rparr>"

named_theorems shape

lemma extend_simps [shape]:
  "register b t = extend b [t]"
  "extend (extend b ts) us = extend b (ts @ us)"
  "sb_types (extend b ts) = sb_types b @ ts"
  "sb_data (extend b ts) = sb_data b"
  "sb_extension (extend b ts) = sb_extension b"
  "sb_mutation (extend b ts) = sb_mutation b"
  by (simp_all add: register_def extend_def)

lemma extend_Nil [shape]: "extend b [] = b"
  by (simp add: extend_def)

lemma foldl_extend [shape]: "foldl (\<lambda>b x. extend b (g x)) b xs = extend b (concat (map g xs))"
  by (induction xs arbitrary: b) (simp_all add: shape)

lemma foldl_obj_field [shape]: "foldl (\<lambda>ob x. obj_field ob (g x)) ob xs = ob\<lparr>ob_fields := ob_fields ob @ map g xs\<rparr>"
  by (induction xs arbitrary: ob) (simp_all add: obj_field_def)

lemmas foldl_obj_field_id [shape] = foldl_obj_field [where g = "\<lambda>x. x", simplified]

lemma foldl_argument [shape]: "foldl argument f as = f\<lparr>fd_args := fd_args f @ as\<rparr>"
  by (induction as arbitrary: f) (simp_all add: argument_def)

definition connection_types :: "resolved_resource \<Rightarrow> 'f gql_type list" where
  "connection_types r = [TObject (edge_type (rv_name r)), TObject (connection_type (rv_name r))]"

definition mutation_types :: "(string \<times> behavior_set) list \<Rightarrow> resolved_resource \<Rightarrow> 'f gql_type list" where
  "mutation_types bs r =
     (if supports bs B_INSERT r
      then [create_input_type r, TObject (payload_type (create_payload_type_name (rv_name r)) [] (rv_name r))] else []) @
     (if supports bs B_UPDATE r
      then [patch_type r, update_input_type r, TObject (payload_type (update_payload_type_name (rv_name r)) [] (rv_name r))] else []) @
     (if supports bs B_DELETE r
      then [delete_input_type r, TObject (payload_type (delete_payload_type_name (rv_name r))
         [field_new ''deletedNodeId'' (named ''ID'') RNull] (rv_name r))] else [])"

definition query_fields :: "(string \<times> behavior_set) list \<Rightarrow> resolved_resource \<Rightarrow> 'f field list" where
  "query_fields bs r =
     (if supports bs B_CONNECTION r then [build_allx_resolver r] else []) @
     (if supports bs B_SELECT_ONE r then [build_by_pk_resolver r] else [])"

definition mutation_fields :: "(string \<times> behavior_set) list \<Rightarrow> resolved_resource \<Rightarrow> 'f field list" where
  "mutation_fields bs r =
     (if supports bs B_INSERT r then [build_create_resolver r] else []) @
     (if supports bs B_UPDATE r then [build_update_resolver r] else []) @
     (if supports bs B_DELETE r then [build_delete_resolver r] else [])"

fun objects :: "(string \<times> 'f field list) list \<Rightarrow> resolved_resource list \<Rightarrow> 'f gql_type list" where
  "objects by_type [] = []"
| "objects by_type (r # rs) =
     TObject (object_of r (unwrap_or (map_of by_type (rv_name r)) [])) # objects (filter (\<lambda>e. fst e \<noteq> rv_name r) by_type) rs"

definition generated_types :: "'m gather_output \<Rightarrow> (string \<times> behavior_set) list \<Rightarrow> (string \<times> 'f field) list \<Rightarrow> 'f gql_type list" where
  "generated_types output bs rel_fields =
     map TScalar [''UUID'', ''DateTime'', ''Date'', ''BigInt'', ''JSON'', ''Cursor''] @
     map enum_type (go_enums output) @
     objects (group_fields rel_fields) (go_resources output) @
     [TInterface ''Node'' [(''nodeId'', named_nn ''ID'')], TObject page_info_type] @
     concat (map connection_types (filter (supports bs B_CONNECTION) (go_resources output))) @
     map filter_type (filter (supports bs B_FILTER) (go_resources output)) @
     map order_by_type (filter (supports bs B_ORDER_BY) (go_resources output)) @
     map condition_type (go_resources output)"

definition query_start :: "'f gql_object" where
  "query_start = \<lparr>ob_name = ''Query'', ob_implements = [],
     ob_fields = [field_new ''_placeholder'' (named ''String'') RNull, field_new ''node'' (named ''Node'') RNull]\<rparr>"

lemma register_objects_eq [shape]: "register_objects b by_type rs = extend b (objects by_type rs)"
  by (induction rs arbitrary: b by_type) (simp_all add: shape)

lemma register_each [shape]:
  "foldl (\<lambda>b x. register b (g x)) b xs = extend b (map g xs)"
  "foldl register b ts = extend b ts"
  by (induction xs arbitrary: b) (simp_all add: shape, induction ts arbitrary: b, simp_all add: shape)

lemma register_connections [shape]:
  "foldl (\<lambda>b r. if P r then register_connection_types b r else b) b rs = extend b (concat (map connection_types (filter P rs)))"
  by (induction rs arbitrary: b) (simp_all add: shape register_connection_types_def connection_types_def)

lemma base_types_eq:
  "base_types output bs rel_fields =
     (extend (builder_new ''Query'' (if has_mutations bs then Some ''Mutation'' else None)) (generated_types output bs rel_fields),
      query_start)"
  by (simp add: base_types_def generated_types_def Let_def shape register_scalars_def register_enums_def
      register_node_interface_def register_page_info_def register_filter_types_def register_order_by_types_def
      register_condition_types_def query_start_def object_new_def obj_field_def)

lemma add_query_fields_eq: "foldl (add_query_fields bs) q rs = q\<lparr>ob_fields := ob_fields q @ concat (map (query_fields bs) rs)\<rparr>"
  by (induction rs arbitrary: q) (simp_all add: add_query_fields_def query_fields_def obj_field_def)

lemma add_mutations_eq:
  "foldl (add_mutations bs) (b, m) rs =
     (extend b (concat (map (mutation_types bs) rs)), m\<lparr>ob_fields := ob_fields m @ concat (map (mutation_fields bs) rs)\<rparr>)"
  by (induction rs arbitrary: b m)
    (simp_all add: shape add_mutations_def mutation_types_def mutation_fields_def obj_field_def register_mutation_types_def Let_def supports_def)

section \<open>What extensions add\<close>

definition types_in :: "('f, 'd, 'q, 'c, 'v) ext_call list \<Rightarrow> 'f gql_type list" where
  "types_in cs = List.map_filter (\<lambda>c. case c of RegisterType t \<Rightarrow> Some t | _ \<Rightarrow> None) cs"

definition query_in :: "('f, 'd, 'q, 'c, 'v) ext_call list \<Rightarrow> 'f field list" where
  "query_in cs = List.map_filter (\<lambda>c. case c of QueryField f \<Rightarrow> Some f | _ \<Rightarrow> None) cs"

definition mutation_in :: "('f, 'd, 'q, 'c, 'v) ext_call list \<Rightarrow> 'f field list" where
  "mutation_in cs = List.map_filter (\<lambda>c. case c of MutationField f \<Rightarrow> Some f | _ \<Rightarrow> None) cs"

definition data_in :: "('f, 'd, 'q, 'c, 'v) ext_call list \<Rightarrow> ('d, 'j) schema_data list" where
  "data_in cs = List.map_filter (\<lambda>c. case c of AddData d \<Rightarrow> Some (DExt d) | _ \<Rightarrow> None) cs"

fun allowed :: "phase \<Rightarrow> ('f, 'd, 'q, 'c, 'v) ext_call \<Rightarrow> bool" where
  "allowed ph (QueryField f) \<longleftrightarrow> ph = ExtendQuery"
| "allowed ph (MutationField f) \<longleftrightarrow> ph = ExtendMutation"
| "allowed ph c \<longleftrightarrow> True"

fun plans :: "('f, 'd, 'q, 'c, 'v) ext_call \<Rightarrow> bool" where
  "plans (PlanField t n f) \<longleftrightarrow> True"
| "plans c \<longleftrightarrow> False"

fun plan_call :: "('q, 'c, 'v) plan_registry \<Rightarrow> ('f, 'd, 'q, 'c, 'v) ext_call \<Rightarrow> ('q, 'c, 'v) plan_registry" where
  "plan_call reg (PlanField t n f) = plan_field reg t n f"
| "plan_call reg c = reg"

lemmas in_defs = types_in_def query_in_def mutation_in_def data_in_def map_filter_simps

lemma in_append [simp]:
  "types_in (cs @ ds) = types_in cs @ types_in ds" "query_in (cs @ ds) = query_in cs @ query_in ds"
  "mutation_in (cs @ ds) = mutation_in cs @ mutation_in ds" "data_in (cs @ ds) = data_in cs @ data_in ds"
  by (simp_all add: types_in_def query_in_def mutation_in_def data_in_def map_filter_def)

lemma in_Nil [simp]: "types_in [] = []" "query_in [] = []" "mutation_in [] = []" "data_in [] = []"
  by (simp_all add: in_defs)

definition after_calls :: "('f, 'd, 'j, 'q, 'c, 'v) ext_context \<Rightarrow> ('f, 'd, 'q, 'c, 'v) ext_call list \<Rightarrow> ('f, 'd, 'j, 'q, 'c, 'v) ext_context" where
  "after_calls cx cs =
     \<lparr>xc_builder = (xc_builder cx)\<lparr>sb_types := sb_types (xc_builder cx) @ types_in cs, sb_data := sb_data (xc_builder cx) @ data_in cs\<rparr>,
      xc_query = map_option (\<lambda>q. q\<lparr>ob_fields := ob_fields q @ query_in cs\<rparr>) (xc_query cx),
      xc_mutation = map_option (\<lambda>m. m\<lparr>ob_fields := ob_fields m @ mutation_in cs\<rparr>) (xc_mutation cx),
      xc_plan_registry = foldl plan_call (xc_plan_registry cx) cs\<rparr>"

lemma run_hook_eq:
  assumes "(xc_query cx = None) = (ph \<noteq> ExtendQuery)" and "(xc_mutation cx = None) = (ph \<noteq> ExtendMutation)"
  shows "run_hook cx cs = (if list_all (allowed ph) cs then Some (after_calls cx cs) else None)"
  using assms
proof (induction cs arbitrary: cx)
  case Nil
  show ?case by (cases cx) (simp add: after_calls_def in_defs option.map_ident_strong)
next
  case (Cons c cs)
  show ?case
    using Cons.prems by (cases c) (auto simp: Cons.IH after_calls_def in_defs register_def add_schema_data_def obj_field_def)
qed

definition phase_calls :: "phase \<Rightarrow> ('f, 'd, 'q, 'c, 'v) schema_extension list \<Rightarrow> ('f, 'd, 'q, 'c, 'v) ext_call list" where
  "phase_calls ph exts = concat (map (hook ph) exts)"

definition add_types :: "('f, 'd, 'j, 'q, 'c, 'v) builder \<Rightarrow> ('f, 'd, 'q, 'c, 'v) ext_call list \<Rightarrow> ('f, 'd, 'j, 'q, 'c, 'v) builder" where
  "add_types b cs = b\<lparr>sb_types := sb_types b @ types_in cs, sb_data := sb_data b @ data_in cs\<rparr>"

definition add_fields :: "'f gql_object \<Rightarrow> 'f field list \<Rightarrow> 'f gql_object" where
  "add_fields ob fs = ob\<lparr>ob_fields := ob_fields ob @ fs\<rparr>"

lemma add_simps [shape]:
  "sb_types (add_types b cs) = sb_types b @ types_in cs" "sb_data (add_types b cs) = sb_data b @ data_in cs"
  "sb_mutation (add_types b cs) = sb_mutation b" "sb_extension (add_types b cs) = sb_extension b"
  "add_types (add_types b cs) ds = add_types b (cs @ ds)" "add_types b [] = b"
  "ob_fields (add_fields ob fs) = ob_fields ob @ fs" "ob_name (add_fields ob fs) = ob_name ob"
  "ob_implements (add_fields ob fs) = ob_implements ob"
  "add_fields (add_fields ob fs) gs = add_fields ob (fs @ gs)" "add_fields ob [] = ob"
  by (simp_all add: add_types_def add_fields_def)

lemma not_allowed_empty:
  "list_all (allowed ph) cs \<Longrightarrow> ph \<noteq> ExtendQuery \<Longrightarrow> query_in cs = []"
  "list_all (allowed ph) cs \<Longrightarrow> ph \<noteq> ExtendMutation \<Longrightarrow> mutation_in cs = []"
  by (induction cs) (auto simp: in_defs elim: allowed.elims split: ext_call.splits)

lemma run_extension_phase_eq:
  assumes "(m = None) = (ph \<noteq> ExtendMutation)"
  shows "run_extension_phase b q m reg exts ph =
    (let cs = phase_calls ph exts
     in if list_all (allowed ph) cs
        then Some (add_types b cs, add_fields q (query_in cs), map_option (\<lambda>m. add_fields m (mutation_in cs)) m, foldl plan_call reg cs)
        else None)"
  using assms
proof (induction exts arbitrary: b q m reg)
  case Nil
  then show ?case by (simp add: phase_calls_def in_defs shape option.map_ident)
next
  case (Cons e es)
  let ?cx = "\<lparr>xc_builder = b, xc_query = (if ph = ExtendQuery then Some q else None),
      xc_mutation = (if ph = ExtendMutation then m else None), xc_plan_registry = reg\<rparr>"
  have "run_hook ?cx (hook ph e) = (if list_all (allowed ph) (hook ph e) then Some (after_calls ?cx (hook ph e)) else None)"
    by (rule run_hook_eq) (use Cons.prems in auto)
  then show ?case
    using Cons.prems Cons.IH not_allowed_empty [of ph "hook ph e"]
    by (cases ph; cases m)
      (simp_all add: Let_def phase_calls_def after_calls_def shape add_types_def [symmetric] add_fields_def [symmetric] unwrap_or_def)
qed

section \<open>The finished description\<close>

definition mutation_calls :: "(string \<times> behavior_set) list \<Rightarrow> ('f, 'd, 'q, 'c, 'v) schema_extension list \<Rightarrow> ('f, 'd, 'q, 'c, 'v) ext_call list" where
  "mutation_calls bs exts = (if has_mutations bs then phase_calls ExtendMutation exts else [])"

definition all_calls :: "(string \<times> behavior_set) list \<Rightarrow> ('f, 'd, 'q, 'c, 'v) schema_extension list \<Rightarrow> ('f, 'd, 'q, 'c, 'v) ext_call list" where
  "all_calls bs exts = phase_calls RegisterTypes exts @ phase_calls ExtendQuery exts @ mutation_calls bs exts"

definition in_phase :: "(string \<times> behavior_set) list \<Rightarrow> ('f, 'd, 'q, 'c, 'v) schema_extension list \<Rightarrow> bool" where
  "in_phase bs exts \<longleftrightarrow>
     list_all (allowed RegisterTypes) (phase_calls RegisterTypes exts) \<and>
     list_all (allowed ExtendQuery) (phase_calls ExtendQuery exts) \<and>
     list_all (allowed ExtendMutation) (mutation_calls bs exts)"

definition query_root :: "'m gather_output \<Rightarrow> (string \<times> behavior_set) list \<Rightarrow> 'f field list \<Rightarrow> 'f gql_object" where
  "query_root output bs fs = add_fields query_start (concat (map (query_fields bs) (go_resources output)) @ fs)"

definition mutation_root :: "'m gather_output \<Rightarrow> (string \<times> behavior_set) list \<Rightarrow> 'f field list \<Rightarrow> 'f gql_object" where
  "mutation_root output bs fs = add_fields (object_new ''Mutation'') (concat (map (mutation_fields bs) (go_resources output)) @ fs)"

definition described :: "'m gather_output \<Rightarrow> (string \<times> behavior_set) list \<Rightarrow> ('f, 'd, 'q, 'c, 'v) schema_extension list \<Rightarrow>
    ('f, 'd, 'j, 'q, 'c, 'v) builder \<Rightarrow> bool" where
  "described output bs exts b \<longleftrightarrow>
     sb_types b =
       generated_types output bs (fst (relation_parts (go_resources output) (go_relations output) :: _ \<times> 'j loader_registry)) @
       types_in (phase_calls RegisterTypes exts) @ types_in (phase_calls ExtendQuery exts) @
       (if has_mutations bs
        then concat (map (mutation_types bs) (go_resources output)) @ types_in (phase_calls ExtendMutation exts) @
          [TObject (mutation_root output bs (mutation_in (phase_calls ExtendMutation exts)))]
        else []) @
       [TObject (query_root output bs (query_in (phase_calls ExtendQuery exts)))] \<and>
     sb_data b = data_in (all_calls bs exts) @
       [DLoaders (snd (relation_parts (go_resources output) (go_relations output) :: (string \<times> 'f field) list \<times> _)), DExecutor] \<and>
     sb_extension b = (let reg = foldl plan_call [] (all_calls bs exts) in if registry_empty reg then None else Some reg) \<and>
     sb_mutation b = (if has_mutations bs then Some ''Mutation'' else None)"

lemma mutation_pass_eq:
  "mutation_pass output bs exts (b, q, reg) =
    (if has_mutations bs
     then let cs = phase_calls ExtendMutation exts
          in if list_all (allowed ExtendMutation) cs
             then Some (extend (add_types (extend b (concat (map (mutation_types bs) (go_resources output)))) cs)
                 [TObject (mutation_root output bs (mutation_in cs))],
               q, foldl plan_call reg cs)
             else None
     else Some (b, q, reg))"
proof -
  have "query_in (phase_calls ExtendMutation exts) = []" if "list_all (allowed ExtendMutation) (phase_calls ExtendMutation exts)"
    by (rule not_allowed_empty(1) [OF that]) simp
  then show ?thesis
    by (simp add: mutation_pass_def add_mutations_eq build_function_fields_def run_extension_phase_eq Let_def shape mutation_root_def
        add_fields_def [symmetric])
qed

lemma schema_builder_described:
  fixes exts :: "('f, 'd, 'q, 'c, 'v) schema_extension list" and b :: "('f, 'd, 'j, 'q, 'c, 'v) builder"
  shows "(schema_builder out bs exts :: ('f, 'd, 'j, 'q, 'c, 'v) builder option) = None \<longleftrightarrow> \<not> in_phase bs exts"
    and "schema_builder out bs exts = Some b \<Longrightarrow> described out bs exts b"
proof -
  have q: "query_in (phase_calls RegisterTypes exts) = []" if "list_all (allowed RegisterTypes) (phase_calls RegisterTypes exts)"
    by (rule not_allowed_empty(1) [OF that]) simp
  show "(schema_builder out bs exts :: ('f, 'd, 'j, 'q, 'c, 'v) builder option) = None \<longleftrightarrow> \<not> in_phase bs exts"
    using q by (auto simp: schema_builder_def base_types_eq run_extension_phase_eq mutation_pass_eq in_phase_def mutation_calls_def
        Let_def split_beta)
  show "schema_builder out bs exts = Some b \<Longrightarrow> described out bs exts b"
    using q by (auto simp: schema_builder_def base_types_eq run_extension_phase_eq mutation_pass_eq add_query_fields_eq
        add_fields_def [symmetric] described_def mutation_calls_def all_calls_def Let_def shape build_function_fields_def query_root_def
        add_schema_data_def builder_new_def split_beta split: if_splits)
qed

lemma assoc_insert_nonempty [simp]: "assoc_insert k v m \<noteq> []"
  by (induction m) (auto split: if_splits)

lemma registry_empty_calls:
  fixes cs :: "('f, 'd, 'q, 'c, 'v) ext_call list"
  shows "registry_empty (foldl plan_call [] cs) \<longleftrightarrow> \<not> list_ex plans cs"
proof -
  have "foldl plan_call reg cs = [] \<longleftrightarrow> reg = [] \<and> \<not> list_ex plans cs" for reg :: "('q, 'c, 'v) plan_registry"
  proof (induction cs arbitrary: reg)
    case (Cons c cs)
    then show ?case by (cases c) (auto simp: plan_field_def)
  qed simp
  then show ?thesis by (simp add: registry_empty_def)
qed

text \<open>The bits of a behaviour, and the calls that are made, in order: the hooks of a phase run before those of
  the next, and those of the mutation phase only when some behaviour allows a mutation.\<close>

lemma behavior_bits:
  "behavior_has w B_CONNECTION \<longleftrightarrow> bit w 0" "behavior_has w B_SELECT_ONE \<longleftrightarrow> bit w 1" "behavior_has w B_INSERT \<longleftrightarrow> bit w 2"
  "behavior_has w B_UPDATE \<longleftrightarrow> bit w 3" "behavior_has w B_DELETE \<longleftrightarrow> bit w 4"
proof -
  have e: "B_CONNECTION = 2 ^ 0" "B_SELECT_ONE = 2 ^ 1" "B_INSERT = 2 ^ 2" "B_UPDATE = 2 ^ 3" "B_DELETE = 2 ^ 4"
    by (simp_all add: B_CONNECTION_def B_SELECT_ONE_def B_INSERT_def B_UPDATE_def B_DELETE_def)
  show "behavior_has w B_CONNECTION \<longleftrightarrow> bit w 0" "behavior_has w B_SELECT_ONE \<longleftrightarrow> bit w 1" "behavior_has w B_INSERT \<longleftrightarrow> bit w 2"
    "behavior_has w B_UPDATE \<longleftrightarrow> bit w 3" "behavior_has w B_DELETE \<longleftrightarrow> bit w 4"
    by (simp_all only: behavior_has_def e and_exp_eq_0_iff_not_bit not_not)
qed

definition mutations_allowed :: "(string \<times> behavior_set) list \<Rightarrow> bool" where
  "mutations_allowed bs \<longleftrightarrow> (\<exists>n w. (n, w) \<in> set bs \<and> (bit w 2 \<or> bit w 3 \<or> bit w 4))"

definition calls_made :: "(string \<times> behavior_set) list \<Rightarrow> ('f, 'd, 'q, 'c, 'v) schema_extension list \<Rightarrow> ('f, 'd, 'q, 'c, 'v) ext_call list" where
  "calls_made bs exts =
     concat (map xt_register_types exts) @ concat (map xt_extend_query exts) @
     (if mutations_allowed bs then concat (map xt_extend_mutation exts) else [])"

text \<open>No hook that runs adds a root field outside the phase of this root.\<close>

definition phases_respected :: "(string \<times> behavior_set) list \<Rightarrow> ('f, 'd, 'q, 'c, 'v) schema_extension list \<Rightarrow> bool" where
  "phases_respected bs exts \<longleftrightarrow>
     (\<forall>e \<in> set exts. \<forall>f. QueryField f \<notin> set (xt_register_types e) \<and> MutationField f \<notin> set (xt_register_types e) \<and>
        MutationField f \<notin> set (xt_extend_query e) \<and> (mutations_allowed bs \<longrightarrow> QueryField f \<notin> set (xt_extend_mutation e)))"

lemma has_mutations_allowed: "has_mutations bs \<longleftrightarrow> mutations_allowed bs"
  by (auto simp: has_mutations_def mutations_allowed_def list_ex_iff behavior_bits)

lemma calls_made_eq: "all_calls bs exts = calls_made bs exts"
proof -
  have "hook RegisterTypes = xt_register_types" "hook ExtendQuery = xt_extend_query" "hook ExtendMutation = xt_extend_mutation"
    by (simp_all add: fun_eq_iff)
  then show ?thesis by (simp add: all_calls_def calls_made_def phase_calls_def mutation_calls_def has_mutations_allowed)
qed

lemma allowed_iff:
  "allowed RegisterTypes c \<longleftrightarrow> (\<forall>f. c \<noteq> QueryField f \<and> c \<noteq> MutationField f)" "allowed ExtendQuery c \<longleftrightarrow> (\<forall>f. c \<noteq> MutationField f)"
  "allowed ExtendMutation c \<longleftrightarrow> (\<forall>f. c \<noteq> QueryField f)"
  by (cases c; simp)+

lemma in_phase_respected: "in_phase bs exts \<longleftrightarrow> phases_respected bs exts"
  unfolding in_phase_def phases_respected_def mutation_calls_def has_mutations_allowed
  by (auto simp: list_all_iff phase_calls_def allowed_iff) fastforce+

lemma calls_in:
  "query_in cs = [f. QueryField f \<leftarrow> cs]" "mutation_in cs = [f. MutationField f \<leftarrow> cs]" "set (types_in cs) = {t. RegisterType t \<in> set cs}"
  "data_in cs = [DExt d. AddData d \<leftarrow> cs]"
proof (induction cs)
  case (Cons c cs)
  {
    case 1
    show ?case using Cons by (cases c) (simp_all add: in_defs)
  next
    case 2
    show ?case using Cons by (cases c) (simp_all add: in_defs)
  next
    case 3
    show ?case using Cons by (cases c) (auto simp: in_defs)
  next
    case 4
    show ?case using Cons by (cases c) (simp_all add: in_defs)
  }
qed (simp_all add: in_defs)

lemma registry_get_map: "registry_get reg t n = map_of reg (t, n)"
  by (induction reg) (auto simp: registry_get_def)

lemma plan_calls_lookup:
  "(\<lambda>(t, n). registry_get (foldl plan_call reg cs) t n) = (\<lambda>(t, n). registry_get reg t n) ++ map_of (rev [((t, n), f). PlanField t n f \<leftarrow> cs])"
proof (induction cs arbitrary: reg)
  case (Cons c cs)
  show ?case
    by (cases c)
      (simp_all add: Cons, auto simp: fun_eq_iff registry_get_map plan_field_def map_of_assoc_insert map_add_def split: option.split)
qed simp

lemma generated_root_fields:
  "ob_name (query_root out bs fs) = ''Query''" "ob_name (mutation_root out bs fs) = ''Mutation''"
  "\<exists>gen. ob_fields (query_root out bs fs) = gen @ fs \<and> range RExt \<inter> fd_resolver ` set gen = {}"
  "\<exists>gen. ob_fields (mutation_root out bs fs) = gen @ fs \<and> range RExt \<inter> fd_resolver ` set gen = {}"
proof -
  have "RExt x \<notin> fd_resolver ` set (query_fields bs r)" "RExt x \<notin> fd_resolver ` set (mutation_fields bs r)" for x :: 'a and r
    by (auto simp: query_fields_def mutation_fields_def build_allx_resolver_def build_by_pk_resolver_def build_create_resolver_def
      build_update_resolver_def build_delete_resolver_def allx_field_def by_pk_field_def create_field_def update_field_def
      delete_field_def field_new_def argument_def shape split: if_splits)
  then show "\<exists>gen. ob_fields (query_root out bs fs) = gen @ fs \<and> range RExt \<inter> fd_resolver ` set gen = {}"
    "\<exists>gen. ob_fields (mutation_root out bs fs) = gen @ fs \<and> range RExt \<inter> fd_resolver ` set gen = {}" for fs :: "'a field list"
    by (simp_all add: query_root_def mutation_root_def add_fields_def query_start_def object_new_def)
      (fastforce simp: field_new_def image_iff)+
qed (simp_all add: query_root_def mutation_root_def add_fields_def query_start_def object_new_def)

text \<open>C29: extensions. Building panics when a hook that is run adds a root field outside the phase of that
  root (the mutation hooks are run only when some behaviour allows a mutation), and otherwise does what
  \<open>finish\<close> makes of the description, a panic of \<^verbatim>\<open>async-graphql\<close> included, which rejects a second field of
  one name in an object, say. The description has every type an extension registers; the data of the
  extensions, in the order given; on the query root, and on the mutation root when there is one, the
  fields of the extensions after the generated ones, in the order given, the roots being registered
  last; and it has plan execution attached exactly when a plan function was given, each field having
  the function given last.\<close>

theorem extension_calls_exact:
  fixes exts :: "('f, 'd, 'q, 'c, 'v) schema_extension list" and finish :: "('f, 'd, 'j, 'q, 'c, 'v) builder \<Rightarrow> (string + 's) option"
  shows "if phases_respected bs exts
    then \<exists>b query types reg. build_schema finish out bs exts = map_option (map_sum SchemaFinish id) (finish b) \<and>
      sb_types b = types @ [TObject query] \<and> {t. RegisterType t \<in> set (calls_made bs exts)} \<subseteq> set types \<and>
      [d. DExt d \<leftarrow> sb_data b] = [d. AddData d \<leftarrow> calls_made bs exts] \<and>
      ob_name query = ''Query'' \<and> (\<exists>gen. ob_fields query = gen @ [f. QueryField f \<leftarrow> concat (map xt_extend_query exts)] \<and>
        range RExt \<inter> fd_resolver ` set gen = {}) \<and>
      (if mutations_allowed bs
       then \<exists>mutation. last types = TObject mutation \<and> sb_mutation b = Some ''Mutation'' \<and> ob_name mutation = ''Mutation'' \<and>
         (\<exists>gen. ob_fields mutation = gen @ [f. MutationField f \<leftarrow> concat (map xt_extend_mutation exts)] \<and>
           range RExt \<inter> fd_resolver ` set gen = {})
       else sb_mutation b = None) \<and>
      sb_extension b = (if [f. PlanField t n f \<leftarrow> calls_made bs exts] = [] then None else Some reg) \<and>
      (\<lambda>(t, n). registry_get reg t n) = map_of (rev [((t, n), f). PlanField t n f \<leftarrow> calls_made bs exts])
    else build_schema finish out bs exts = None"
proof (cases "phases_respected bs exts")
  case False
  then have "(schema_builder out bs exts :: ('f, 'd, 'j, 'q, 'c, 'v) builder option) = None"
    using schema_builder_described(1) [of out bs exts] by (simp add: in_phase_respected)
  with False show ?thesis by (simp add: build_schema_def)
next
  case True
  then obtain b :: "('f, 'd, 'j, 'q, 'c, 'v) builder" where b: "schema_builder out bs exts = Some b"
    using schema_builder_described(1) [of out bs exts] by (metis in_phase_respected option.exhaust)
  define q where "q = query_root out bs (query_in (phase_calls ExtendQuery exts))"
  define m where "m = mutation_root out bs (mutation_in (phase_calls ExtendMutation exts))"
  let ?reg = "foldl plan_call [] (calls_made bs exts)"
  note d = schema_builder_described(2) [OF b, unfolded described_def calls_made_eq]
  define types where "types = butlast (sb_types b)"
  have types: "sb_types b = types @ [TObject q]" "set (types_in (calls_made bs exts)) \<subseteq> set types"
    "has_mutations bs \<Longrightarrow> last types = TObject m"
    unfolding types_def d [THEN conjunct1]
    by (auto simp: calls_made_eq [symmetric] all_calls_def mutation_calls_def butlast_append q_def m_def)
  have hooks: "phase_calls ExtendQuery exts = concat (map xt_extend_query exts)" "phase_calls ExtendMutation exts = concat (map xt_extend_mutation exts)"
    by (simp_all add: phase_calls_def cong: map_cong)
  have data: "[d. DExt d \<leftarrow> sb_data b] = [d. AddData d \<leftarrow> calls_made bs exts]"
  proof -
    have "[d. DExt d \<leftarrow> data_in cs] = [d. AddData d \<leftarrow> cs]" for cs :: "('f, 'd, 'q, 'c, 'v) ext_call list"
    proof (induction cs)
      case (Cons c cs)
      then show ?case by (cases c) (simp_all add: in_defs)
    qed simp
    then show ?thesis using d by simp
  qed
  have none: "\<not> list_ex plans cs \<longleftrightarrow> [f. PlanField t n f \<leftarrow> cs] = []" for cs :: "('f, 'd, 'q, 'c, 'v) ext_call list"
  proof (induction cs)
    case (Cons c cs)
    then show ?case by (cases c) simp_all
  qed simp
  have "sb_extension b = (if [f. PlanField t n f \<leftarrow> calls_made bs exts] = [] then None else Some ?reg)"
    using d by (simp add: Let_def registry_empty_calls none)
  moreover have "(\<lambda>(t, n). registry_get ?reg t n) = map_of (rev [((t, n), f). PlanField t n f \<leftarrow> calls_made bs exts])"
    using plan_calls_lookup [of "[] :: ('q, 'c, 'v) plan_registry" "calls_made bs exts"] by (simp add: registry_get_map fun_eq_iff map_add_def split: option.split)
  moreover have "build_schema finish out bs exts = map_option (map_sum SchemaFinish id) (finish b)" by (simp add: build_schema_def b)
  moreover have "sb_mutation b = (if mutations_allowed bs then Some ''Mutation'' else None)"
    using d by (simp add: has_mutations_allowed)
  moreover have "ob_name q = ''Query''" "\<exists>gen. ob_fields q = gen @ [f. QueryField f \<leftarrow> concat (map xt_extend_query exts)] \<and>
      range RExt \<inter> fd_resolver ` set gen = {}"
    using generated_root_fields(1,3) [where out = out and bs = bs] unfolding q_def hooks calls_in by blast+
  moreover have "ob_name m = ''Mutation''" "\<exists>gen. ob_fields m = gen @ [f. MutationField f \<leftarrow> concat (map xt_extend_mutation exts)] \<and>
      range RExt \<inter> fd_resolver ` set gen = {}"
    using generated_root_fields(2,4) [where out = out and bs = bs] unfolding m_def hooks calls_in by blast+
  moreover note types [unfolded calls_in has_mutations_allowed] data
  ultimately show ?thesis
    unfolding if_P [OF True] by (intro exI [of _ b] exI [of _ q] exI [of _ types] exI [of _ ?reg] conjI; simp)
qed

section \<open>The operations a schema serves\<close>

fun type_fields :: "'f gql_type \<Rightarrow> 'f field list" where
  "type_fields (TObject ob) = ob_fields ob"
| "type_fields t = []"

definition type_resolvers :: "'f gql_type \<Rightarrow> 'f resolver set" where
  "type_resolvers t = fd_resolver ` set (type_fields t)"

definition served :: "('f, 'd, 'j, 'q, 'c, 'v) builder \<Rightarrow> 'f resolver set" where
  "served b = (\<Union>t \<in> set (sb_types b). type_resolvers t)"

fun root_resolver :: "'f resolver \<Rightarrow> bool" where
  "root_resolver (RAllX r) = True"
| "root_resolver (RByPk r) = True"
| "root_resolver (RCreate r) = True"
| "root_resolver (RUpdate r) = True"
| "root_resolver (RDelete r) = True"
| "root_resolver x = False"

text \<open>The resources whose table a generated resolver sends statements to: a root field its own, a relation
  field the one whose rows it answers with.\<close>

fun touches :: "'f resolver \<Rightarrow> resolved_resource set" where
  "touches (RAllX r) = {r}"
| "touches (RByPk r) = {r}"
| "touches (RCreate r) = {r}"
| "touches (RUpdate r) = {r}"
| "touches (RDelete r) = {r}"
| "touches (RBelongsTo rel src tgt) = {tgt}"
| "touches (RHasMany rel src tgt) = {src}"
| "touches x = {}"

text \<open>The fields of an extension resolve with closures of its own.\<close>

definition own_resolvers :: "('f, 'd, 'q, 'c, 'v) ext_call list \<Rightarrow> bool" where
  "own_resolvers cs \<longleftrightarrow>
     (\<forall>f \<in> set (query_in cs) \<union> set (mutation_in cs) \<union> (\<Union>t \<in> set (types_in cs). set (type_fields t)). \<exists>x. fd_resolver f = RExt x)"

lemma own_resolversD:
  assumes "own_resolvers cs"
  shows "t \<in> set (types_in cs) \<Longrightarrow> res \<in> type_resolvers t \<Longrightarrow> \<exists>x. res = RExt x"
    and "f \<in> set (query_in cs) \<Longrightarrow> \<exists>x. fd_resolver f = RExt x"
    and "f \<in> set (mutation_in cs) \<Longrightarrow> \<exists>x. fd_resolver f = RExt x"
  using assms by (auto simp: own_resolvers_def type_resolvers_def)

lemma own_resolvers_append: "own_resolvers (cs @ ds) \<longleftrightarrow> own_resolvers cs \<and> own_resolvers ds"
  by (auto simp: own_resolvers_def)

lemma map_of_group_fields: "set (unwrap_or (map_of (group_fields fs) t) []) = {f. (t, f) \<in> set fs}"
proof -
  have "set (unwrap_or (map_of (foldl (\<lambda>m (t, f). assoc_insert t (unwrap_or (map_of m t) [] @ [f]) m) m fs) t) []) =
      set (unwrap_or (map_of m t) []) \<union> {f. (t, f) \<in> set fs}" for m
    by (induction fs arbitrary: m) (auto simp: map_of_assoc_insert unwrap_or_def split: prod.splits)
  then show ?thesis by (simp add: group_fields_def unwrap_or_def)
qed

lemma in_objects:
  assumes "t \<in> set (objects by_type rs)"
  shows "\<exists>r \<in> set rs. \<exists>fs. t = TObject (object_of r fs) \<and> set fs \<subseteq> set (unwrap_or (map_of by_type (rv_name r)) [])"
  using assms
proof (induction by_type rs rule: objects.induct)
  case (2 by_type r rs)
  show ?case
  proof (cases "t \<in> set (objects (filter (\<lambda>e. fst e \<noteq> rv_name r) by_type) rs)")
    case True
    from "2.IH" [OF this] show ?thesis
      by (fastforce simp: map_of_filter_fst unwrap_or_def split: option.splits if_splits)
  qed (use "2.prems" in auto)
qed simp

definition has_node_id :: "resolved_resource \<Rightarrow> bool" where
  "has_node_id r \<longleftrightarrow> rv_primary_key r \<noteq> [] \<and> \<not> list_ex (\<lambda>c. cv_gql_name c = ''nodeId'') (rv_columns r)"

lemma add_node_id_simps:
  "ob_fields (add_node_id_field ob r) = ob_fields ob @ [field_new ''nodeId'' (named_nn ''ID'') (RNodeId r)]"
  "ob_name (add_node_id_field ob r) = ob_name ob"
  "ob_implements (add_node_id_field ob r) = ob_implements ob @ [''Node'']"
  by (simp_all add: add_node_id_field_def implement_def obj_field_def)

lemma object_of_simps:
  "ob_fields (object_of r fs) = map column_field (rv_columns r) @ fs @
     (if has_node_id r then [field_new ''nodeId'' (named_nn ''ID'') (RNodeId r)] else [])"
  "ob_name (object_of r fs) = rv_name r"
  "ob_implements (object_of r fs) = (if has_node_id r then [''Node''] else [])"
  by (auto simp: object_of_def build_object_type_def shape Let_def add_node_id_simps object_new_def has_node_id_def)

lemma object_resolvers:
  "type_resolvers (TObject (object_of r fs)) =
     RColumn ` cv_pg_name ` set (rv_columns r) \<union> fd_resolver ` set fs \<union> (if has_node_id r then {RNodeId r} else {})"
  by (simp add: type_resolvers_def object_of_simps column_field_def field_new_def image_Un image_image Un_assoc)

lemma relation_resolvers:
  assumes "(t, f) \<in> set (fst (relation_parts resources rels :: (string \<times> 'f field) list \<times> 'j loader_registry))"
  shows "(\<exists>rel src tgt. rel \<in> set rels \<and> find_resource resources (rl_source_resource rel) = Some src \<and>
      find_resource resources (rl_target_resource rel) = Some tgt \<and>
      ((t, f) = build_belongs_to_resolver rel src tgt \<or> \<not> rl_is_unique rel \<and> (t, f) = build_has_many_resolver rel src tgt))"
proof -
  have "fst (foldl (add_relation resources) st rels) = fst st @ concat (map (\<lambda>rel. fst (add_relation resources ([], loader_registry_new :: 'j loader_registry) rel)) rels)"
    for st :: "(string \<times> 'f field) list \<times> 'j loader_registry"
  proof (induction rels arbitrary: st)
    case (Cons rel rels)
    have "fst (add_relation resources st rel) = fst st @ fst (add_relation resources ([], loader_registry_new :: 'j loader_registry) rel)"
      by (simp add: add_relation_def Let_def split_beta split: option.split)
    then show ?case by (simp add: Cons)
  qed simp
  with assms show ?thesis
    by (fastforce simp: relation_parts_def add_relation_def Let_def split: option.splits if_splits)
qed

lemma relation_resolver_kinds:
  assumes "(t, f) \<in> set (fst (relation_parts resources rels :: (string \<times> 'f field) list \<times> 'j loader_registry))"
  shows "\<not> root_resolver (fd_resolver f)"
  using relation_resolvers [OF assms]
  by (auto simp: build_belongs_to_resolver_def build_has_many_resolver_def field_new_def)

lemma objects_of_relations:
  assumes "t \<in> set (objects (group_fields rel_fields) rs)"
  shows "\<exists>r \<in> set rs. \<exists>fs. t = TObject (object_of r fs) \<and> (\<forall>f \<in> set fs. (rv_name r, f) \<in> set rel_fields)"
  using in_objects [OF assms] unfolding map_of_group_fields by blast

lemma generated_resolvers:
  assumes "t \<in> set (generated_types out bs rel_fields)" and "res \<in> type_resolvers t"
    and rel: "\<And>u f. (u, f) \<in> set rel_fields \<Longrightarrow> \<not> root_resolver (fd_resolver f)"
  shows "\<not> root_resolver res"
proof -
  have "\<not> root_resolver res" if "t \<in> set (objects (group_fields rel_fields) (go_resources out))"
    using objects_of_relations [OF that] assms(2) rel by (fastforce simp: object_resolvers split: if_splits)
  with assms(1,2) show ?thesis
    by (auto simp: generated_types_def type_resolvers_def enum_type_def filter_type_def order_by_type_def condition_type_def
        connection_types_def connection_type_def edge_type_def page_info_type_def shape object_new_def field_new_def Let_def)
qed

lemma mutation_type_resolvers:
  assumes "t \<in> set (mutation_types bs r)" and "res \<in> type_resolvers t"
  shows "\<not> root_resolver res"
  using assms
  by (auto simp: mutation_types_def type_resolvers_def create_input_type_def patch_type_def update_input_type_def
      delete_input_type_def payload_type_def shape object_new_def field_new_def split: if_splits)

lemma field_resolvers:
  "fd_resolver ` set (query_fields bs r) =
     (if supports bs B_CONNECTION r then {RAllX r} else {}) \<union> (if supports bs B_SELECT_ONE r then {RByPk r} else {})"
  "fd_resolver ` set (mutation_fields bs r) =
     (if supports bs B_INSERT r then {RCreate r} else {}) \<union> (if supports bs B_UPDATE r then {RUpdate r} else {}) \<union>
     (if supports bs B_DELETE r then {RDelete r} else {})"
  by (simp_all add: query_fields_def mutation_fields_def build_allx_resolver_def build_by_pk_resolver_def build_create_resolver_def
      build_update_resolver_def build_delete_resolver_def allx_field_def by_pk_field_def create_field_def update_field_def
      delete_field_def field_new_def argument_def shape)

lemma root_resolvers:
  "type_resolvers (TObject (query_root out bs fs)) =
     {RNull} \<union> RAllX ` {r \<in> set (go_resources out). supports bs B_CONNECTION r} \<union>
     RByPk ` {r \<in> set (go_resources out). supports bs B_SELECT_ONE r} \<union> fd_resolver ` set fs"
  "type_resolvers (TObject (mutation_root out bs fs)) =
     RCreate ` {r \<in> set (go_resources out). supports bs B_INSERT r} \<union>
     RUpdate ` {r \<in> set (go_resources out). supports bs B_UPDATE r} \<union>
     RDelete ` {r \<in> set (go_resources out). supports bs B_DELETE r} \<union> fd_resolver ` set fs"
  by (auto simp: type_resolvers_def query_root_def mutation_root_def shape query_start_def object_new_def field_new_def
      image_Un image_UN field_resolvers split: if_splits)

lemma supports_has_mutations:
  assumes "supports bs B_INSERT r \<or> supports bs B_UPDATE r \<or> supports bs B_DELETE r"
  shows "has_mutations bs"
proof -
  from assms obtain w where "map_of bs (rv_name r) = Some w"
    by (cases "map_of bs (rv_name r)") (auto simp: supports_def behaviors_of_def behavior_has_def unwrap_or_def)
  with assms show ?thesis
    by (auto simp: has_mutations_def list_ex_iff supports_def behaviors_of_def unwrap_or_def dest!: map_of_SomeD)
qed

lemma builder_serves:
  fixes b :: "('f, 'd, 'j, 'q, 'c, 'v) builder"
  assumes "schema_builder out bs exts = Some b" and "own_resolvers (all_calls bs exts)"
  shows "(RAllX r \<in> served b \<longleftrightarrow> r \<in> set (go_resources out) \<and> supports bs B_CONNECTION r) \<and>
    (RByPk r \<in> served b \<longleftrightarrow> r \<in> set (go_resources out) \<and> supports bs B_SELECT_ONE r) \<and>
    (RCreate r \<in> served b \<longleftrightarrow> r \<in> set (go_resources out) \<and> supports bs B_INSERT r) \<and>
    (RUpdate r \<in> served b \<longleftrightarrow> r \<in> set (go_resources out) \<and> supports bs B_UPDATE r) \<and>
    (RDelete r \<in> served b \<longleftrightarrow> r \<in> set (go_resources out) \<and> supports bs B_DELETE r)"
proof -
  let ?m = "mutation_root out bs (mutation_in (phase_calls ExtendMutation exts))"
    and ?q = "query_root out bs (query_in (phase_calls ExtendQuery exts))"
  have own: "own_resolvers (phase_calls RegisterTypes exts)" "own_resolvers (phase_calls ExtendQuery exts)"
    "has_mutations bs \<Longrightarrow> own_resolvers (phase_calls ExtendMutation exts)"
    using assms(2) by (simp_all add: all_calls_def own_resolvers_append mutation_calls_def)
  have d: "described out bs exts b" by (rule schema_builder_described(2) [OF assms(1)])
  have "res \<in> served b \<longleftrightarrow> res \<in> type_resolvers (TObject ?q) \<or> has_mutations bs \<and> res \<in> type_resolvers (TObject ?m)"
    if "root_resolver res" for res
  proof -
    have "res \<notin> type_resolvers t" if "t \<in> set (types_in cs)" "own_resolvers cs" for t cs
      using own_resolversD(1) [OF that(2,1)] \<open>root_resolver res\<close> by fastforce
    moreover have "\<not> root_resolver x"
      if "t \<in> set (generated_types out bs (fst (relation_parts (go_resources out) (go_relations out) :: _ \<times> 'j loader_registry)))"
        "x \<in> type_resolvers t" for t x
      by (rule generated_resolvers [OF that]) (erule relation_resolver_kinds)
    moreover have "res \<notin> type_resolvers t" if "t \<in> set (mutation_types bs r)" for t r
      using mutation_type_resolvers [OF that] \<open>root_resolver res\<close> by blast
    ultimately show ?thesis
      using d [unfolded described_def, THEN conjunct1] own \<open>root_resolver res\<close>
      by (simp add: served_def) (use \<open>root_resolver res\<close> in \<open>auto; blast\<close>)
  qed
  note root = this [unfolded root_resolvers]
  have ext: "res \<notin> fd_resolver ` set (query_in (phase_calls ExtendQuery exts))"
    "has_mutations bs \<Longrightarrow> res \<notin> fd_resolver ` set (mutation_in (phase_calls ExtendMutation exts))" if "root_resolver res" for res
    using that own_resolversD(2) [OF own(2)] own_resolversD(3) [OF own(3)] by fastforce+
  show ?thesis
    using root [of "RAllX r"] root [of "RByPk r"] root [of "RCreate r"] root [of "RUpdate r"] root [of "RDelete r"]
      ext(1) [of "RAllX r"] ext(1) [of "RByPk r"] ext(1) [of "RCreate r"] ext(1) [of "RUpdate r"] ext(1) [of "RDelete r"]
      ext(2) [of "RAllX r"] ext(2) [of "RByPk r"] ext(2) [of "RCreate r"] ext(2) [of "RUpdate r"] ext(2) [of "RDelete r"]
      supports_has_mutations [of bs r]
    by (intro conjI; simp add: image_iff del: image_eqI) blast+
qed

lemma builder_touches:
  fixes b :: "('f, 'd, 'j, 'q, 'c, 'v) builder"
  assumes "schema_builder out bs exts = Some b" and "own_resolvers (all_calls bs exts)"
  shows "(\<Union>res \<in> served b. touches res) \<subseteq> set (go_resources out)"
proof -
  let ?rels = "fst (relation_parts (go_resources out) (go_relations out) :: (string \<times> 'f field) list \<times> 'j loader_registry)"
  have "touches res \<subseteq> set (go_resources out)" if res: "res \<in> served b" for res
  proof (cases "root_resolver res")
    case True
    with res builder_serves [OF assms] show ?thesis by (cases res) auto
  next
    case False
    note d = schema_builder_described(2) [OF assms(1), unfolded described_def, THEN conjunct1]
    have ext: "touches res = {}" if "t \<in> set (types_in cs)" "own_resolvers cs" "res \<in> type_resolvers t" for t cs
      using own_resolversD(1) [OF that(2,1,3)] by auto
    have own: "own_resolvers (phase_calls RegisterTypes exts)" "own_resolvers (phase_calls ExtendQuery exts)"
      "has_mutations bs \<Longrightarrow> own_resolvers (phase_calls ExtendMutation exts)"
      using assms(2) by (simp_all add: all_calls_def own_resolvers_append mutation_calls_def)
    have roots: "touches res = {}" if "res \<in> type_resolvers (TObject (query_root out bs (query_in (phase_calls ExtendQuery exts)))) \<or>
        has_mutations bs \<and> res \<in> type_resolvers (TObject (mutation_root out bs (mutation_in (phase_calls ExtendMutation exts))))"
      using that False own_resolversD(2) [OF own(2)] own_resolversD(3) [OF own(3)] unfolding root_resolvers by fastforce
    have mut: "touches res = {}" if "t \<in> set (mutation_types bs r)" "res \<in> type_resolvers t" for t r
      using that by (auto simp: mutation_types_def type_resolvers_def create_input_type_def patch_type_def update_input_type_def
        delete_input_type_def payload_type_def shape object_new_def field_new_def split: if_splits)
    have rel: "touches (fd_resolver f) \<subseteq> set (go_resources out)" if "(n, f) \<in> set ?rels" for n f
      using relation_resolvers [OF that] by (auto simp: build_belongs_to_resolver_def build_has_many_resolver_def field_new_def find_resource_def find_Some_iff)
    have gen: "touches res \<subseteq> set (go_resources out)" if "t \<in> set (generated_types out bs ?rels)" "res \<in> type_resolvers t" for t
    proof (cases "t \<in> set (objects (group_fields ?rels) (go_resources out))")
      case True
      from objects_of_relations [OF this] that(2) rel show ?thesis by (fastforce simp: object_resolvers split: if_splits)
    next
      case False
      with that have "touches res = {}"
        by (auto simp: generated_types_def type_resolvers_def enum_type_def filter_type_def order_by_type_def condition_type_def
          connection_types_def connection_type_def edge_type_def page_info_type_def shape object_new_def field_new_def Let_def)
      then show ?thesis by simp
    qed
    from res obtain t where t: "t \<in> set (sb_types b)" "res \<in> type_resolvers t" by (auto simp: served_def)
    from t(1) show ?thesis unfolding d set_append Un_iff
      using gen [OF _ t(2)] ext [OF _ own(1) t(2)] ext [OF _ own(2) t(2)] ext [OF _ own(3) t(2)] roots mut [OF _ t(2)] t(2)
      by (elim disjE; simp split: if_split_asm; blast?; fastforce)
  qed
  then show ?thesis by blast
qed

text \<open>C9: the operations served. When extensions resolve their fields with closures of their own, a schema
  lets a client list, fetch, create, update or delete rows of a resource exactly when the resource is
  one of the gathered ones and its behaviours include that operation.\<close>

theorem schema_serves_exactly:
  fixes b :: "('f, 'd, 'j, 'q, 'c, 'v) builder"
  assumes "schema_builder out bs exts = Some b" and "own_resolvers (all_calls bs exts)"
  shows "(RAllX r \<in> served b \<longleftrightarrow> r \<in> set (go_resources out) \<and> supports bs B_CONNECTION r) \<and>
    (RByPk r \<in> served b \<longleftrightarrow> r \<in> set (go_resources out) \<and> supports bs B_SELECT_ONE r) \<and>
    (RCreate r \<in> served b \<longleftrightarrow> r \<in> set (go_resources out) \<and> supports bs B_INSERT r) \<and>
    (RUpdate r \<in> served b \<longleftrightarrow> r \<in> set (go_resources out) \<and> supports bs B_UPDATE r) \<and>
    (RDelete r \<in> served b \<longleftrightarrow> r \<in> set (go_resources out) \<and> supports bs B_DELETE r)"
  by (rule builder_serves [OF assms])

definition blog_output :: "unit gather_output" where
  "blog_output = \<lparr>go_resources = [posts_resource, comments_resource], go_relations = [demo_relation],
     go_behaviors = [(''Post'', ALL_FLAGS), (''Comment'', B_CONNECTION OR B_FILTER OR B_ORDER_BY OR B_INSERT)],
     go_enums = [], go_plugin_metadata = ()\<rparr>"

definition stats_extension :: "(nat, nat, nat, nat, nat) schema_extension" where
  "stats_extension = \<lparr>xt_name = ''stats'',
     xt_register_types = [RegisterType (TObject (obj_field (object_new ''Stats'') (field_new ''rows'' (named ''Int'') (RExt 1))))],
     xt_extend_query = [QueryField (field_new ''stats'' (named ''Stats'') (RExt 2))], xt_extend_mutation = []\<rparr>"

lemma blog_behaviors:
  "supports (go_behaviors blog_output) flag posts_resource \<longleftrightarrow> ALL_FLAGS AND flag \<noteq> 0"
  "supports (go_behaviors blog_output) flag comments_resource \<longleftrightarrow> (B_CONNECTION OR B_FILTER OR B_ORDER_BY OR B_INSERT) AND flag \<noteq> 0"
  by (simp_all add: supports_def behaviors_of_def blog_output_def posts_resource_def comments_resource_def behavior_has_def unwrap_or_def)

lemma blog_builds:
  "\<exists>b :: (nat, nat, nat, nat, nat, nat) builder. schema_builder blog_output (go_behaviors blog_output) [stats_extension] = Some b"
proof -
  have "in_phase (go_behaviors blog_output) [stats_extension]"
    by (simp add: in_phase_def phase_calls_def mutation_calls_def stats_extension_def)
  then show ?thesis by (metis not_Some_eq schema_builder_described(1))
qed

theorem schema_serves_exactly_witness:
  "\<exists>b :: (nat, nat, nat, nat, nat, nat) builder. schema_builder blog_output (go_behaviors blog_output) [stats_extension] = Some b \<and>
     RDelete posts_resource \<in> served b \<and> RCreate comments_resource \<in> served b \<and> RDelete comments_resource \<notin> served b"
proof -
  from blog_builds obtain b :: "(nat, nat, nat, nat, nat, nat) builder"
    where b: "schema_builder blog_output (go_behaviors blog_output) [stats_extension] = Some b" by blast
  have "own_resolvers (all_calls (go_behaviors blog_output) [stats_extension])"
    by (auto simp: own_resolvers_def all_calls_def mutation_calls_def phase_calls_def stats_extension_def in_defs obj_field_def
        object_new_def field_new_def)
  note thms = schema_serves_exactly [OF b this]
  have "posts_resource \<in> set (go_resources blog_output)" "comments_resource \<in> set (go_resources blog_output)"
    by (simp_all add: blog_output_def)
  moreover have "ALL_FLAGS AND B_DELETE \<noteq> 0" "(B_CONNECTION OR B_FILTER OR B_ORDER_BY OR B_INSERT) AND B_INSERT \<noteq> 0"
    "(B_CONNECTION OR B_FILTER OR B_ORDER_BY OR B_INSERT) AND B_DELETE = 0"
    by code_simp+
  ultimately show ?thesis
    using b thms [of posts_resource] thms [of comments_resource] by (simp add: blog_behaviors)
qed

end
