(* ===== verification/Build_Closed.thy ===== *)
theory Build_Closed
  imports Build_Schema
begin

text \<open>
  Two properties of a built description that finishing it and running its relation fields rely on:
  every type a field, argument or interface refers to is registered, and every relation field finds
  its loader in the registry stored as schema data.
\<close>

unbundle bit_operations_syntax

section \<open>References\<close>

primrec type_name :: "'f gql_type \<Rightarrow> string" where
  "type_name (TScalar n) = n"
| "type_name (TEnum n vs) = n"
| "type_name (TInput n fs) = n"
| "type_name (TObject ob) = ob_name ob"
| "type_name (TInterface n fs) = n"
| "type_name (TUnion n ts) = n"

definition arg_refs :: "input_value list \<Rightarrow> string set" where
  "arg_refs as = (ref_name \<circ> iv_type) ` set as"

definition field_refs :: "'f field \<Rightarrow> string set" where
  "field_refs f = insert (ref_name (fd_type f)) (arg_refs (fd_args f))"

primrec type_refs :: "'f gql_type \<Rightarrow> string set" where
  "type_refs (TScalar n) = {}"
| "type_refs (TEnum n vs) = {}"
| "type_refs (TInput n fs) = arg_refs fs"
| "type_refs (TObject ob) = (\<Union>f \<in> set (ob_fields ob). field_refs f) \<union> set (ob_implements ob)"
| "type_refs (TInterface n fs) = (ref_name \<circ> snd) ` set fs"
| "type_refs (TUnion n ts) = set ts"

definition builtin_types :: "string set" where
  "builtin_types = {''Int'', ''Float'', ''String'', ''Boolean'', ''ID''}"

definition scalar_types :: "string set" where
  "scalar_types = {''UUID'', ''DateTime'', ''Date'', ''BigInt'', ''JSON'', ''Cursor''}"

text \<open>What the calls of extensions refer to.\<close>

definition call_refs :: "('f, 'd, 'q, 'c, 'v) ext_call list \<Rightarrow> string set" where
  "call_refs cs = (\<Union>t \<in> set (types_in cs). type_refs t) \<union> (\<Union>f \<in> set (query_in cs) \<union> set (mutation_in cs). field_refs f)"

section \<open>Columns\<close>

text \<open>The type texts of columns, with and without the mark of a column that is not null.\<close>

definition known_types :: "string list" where
  "known_types = [''Boolean'', ''Int'', ''BigInt'', ''Float'', ''String'', ''UUID'', ''DateTime'', ''Date'', ''JSON'',
     ''[Boolean]'', ''[Int]'', ''[String]'', ''[UUID]'', ''[Float]'', ''[JSON]'']"

definition column_ok :: "resolved_column \<Rightarrow> bool" where
  "column_ok c \<longleftrightarrow> cv_gql_type c \<in> set known_types \<or> cv_gql_type c \<in> set (map (\<lambda>t. t @ ''!'') known_types)"

lemma pg_oid_known: "unwrap_or (pg_oid_to_gql_type t) ''String'' \<in> set known_types"
  by (simp add: pg_oid_to_gql_type_def known_types_def unwrap_or_def)

lemma resolved_column_ok: "column_ok (resolved_column_of a)"
  using pg_oid_known [of "at_type_oid a"] by (auto simp: column_ok_def resolved_column_of_def Let_def)

lemma gathered_columns_ok:
  assumes "gather intro meta p = Inr out" and "r \<in> set (go_resources out)" and "c \<in> set (rv_columns r)"
  shows "column_ok c"
  using assms resolved_column_ok by (auto simp: gather_def Let_def gather_resources_filter build_resource_def)

definition text_ok :: "string \<Rightarrow> bool" where
  "text_ok t \<longleftrightarrow>
     (\<forall>nn \<in> {True, False}. ref_name (gql_type_to_type_ref t nn) \<in> builtin_types \<union> scalar_types) \<and>
     ref_name (gql_type_to_type_ref (trim_bangs t) False) \<in> builtin_types \<union> scalar_types \<and>
     (if is_bracketed (trim_bangs t) then between_brackets (trim_bangs t) else trim_bangs t) \<in> builtin_types \<union> scalar_types"

lemma known_texts_ok: "\<forall>t \<in> set known_types. text_ok t \<and> text_ok (t @ ''!'')"
  by code_simp

lemma column_refs:
  assumes "column_ok c"
  shows "ref_name (gql_type_to_type_ref (cv_gql_type c) nn) \<in> builtin_types \<union> scalar_types"
    and "arg_refs (column_filters c) \<subseteq> builtin_types \<union> scalar_types"
proof -
  have "text_ok (cv_gql_type c)" using assms known_texts_ok by (auto simp: column_ok_def)
  then show "ref_name (gql_type_to_type_ref (cv_gql_type c) nn) \<in> builtin_types \<union> scalar_types"
    by (cases nn) (simp_all add: text_ok_def)
  have "''Boolean'' \<in> builtin_types" by (simp add: builtin_types_def)
  with \<open>text_ok (cv_gql_type c)\<close> show "arg_refs (column_filters c) \<subseteq> builtin_types \<union> scalar_types"
    by (auto simp: arg_refs_def column_filters_def Let_def arg_def text_ok_def)
qed

section \<open>Every reference is registered\<close>

definition resource_names :: "string set \<Rightarrow> (string \<times> behavior_set) list \<Rightarrow> resolved_resource \<Rightarrow> bool" where
  "resource_names N bs r \<longleftrightarrow>
     {rv_name r, condition_type_name (rv_name r)} \<subseteq> N \<and>
     (supports bs B_CONNECTION r \<longrightarrow> {connection_type_name (rv_name r), edge_type_name (rv_name r)} \<subseteq> N) \<and>
     (supports bs B_FILTER r \<longrightarrow> filter_type_name (rv_name r) \<in> N) \<and>
     (supports bs B_ORDER_BY r \<longrightarrow> order_by_type_name (rv_name r) \<in> N) \<and>
     (supports bs B_INSERT r \<longrightarrow> {create_input_type_name (rv_name r), create_payload_type_name (rv_name r)} \<subseteq> N) \<and>
     (supports bs B_UPDATE r \<longrightarrow>
        {patch_type_name (rv_name r), update_input_type_name (rv_name r), update_payload_type_name (rv_name r)} \<subseteq> N) \<and>
     (supports bs B_DELETE r \<longrightarrow> {delete_input_type_name (rv_name r), delete_payload_type_name (rv_name r)} \<subseteq> N)"

definition names_complete :: "string set \<Rightarrow> resolved_resource list \<Rightarrow> (string \<times> behavior_set) list \<Rightarrow> bool" where
  "names_complete N rs bs \<longleftrightarrow>
     builtin_types \<union> scalar_types \<union> {''Node'', ''PageInfo'', ''Query''} \<subseteq> N \<and> (\<forall>r \<in> set rs. resource_names N bs r)"

lemma objects_names: "type_name ` set (objects by_type rs) = rv_name ` set rs"
  by (induction by_type rs rule: objects.induct) (auto simp: object_of_simps)

lemma group_names:
  "type_name ` set (connection_types r) = {edge_type_name (rv_name r), connection_type_name (rv_name r)}"
  "type_name (filter_type r) = filter_type_name (rv_name r)"
  "type_name (order_by_type r) = order_by_type_name (rv_name r)"
  "type_name (condition_type r) = condition_type_name (rv_name r)"
  by (simp_all add: connection_types_def edge_type_def connection_type_def filter_type_def Let_def order_by_type_def condition_type_def
      shape object_new_def)

lemma mutation_names:
  "type_name ` set (mutation_types bs r) =
     (if supports bs B_INSERT r then {create_input_type_name (rv_name r), create_payload_type_name (rv_name r)} else {}) \<union>
     (if supports bs B_UPDATE r
      then {patch_type_name (rv_name r), update_input_type_name (rv_name r), update_payload_type_name (rv_name r)} else {}) \<union>
     (if supports bs B_DELETE r then {delete_input_type_name (rv_name r), delete_payload_type_name (rv_name r)} else {})"
  by (cases "supports bs B_INSERT r"; cases "supports bs B_UPDATE r"; cases "supports bs B_DELETE r")
    (simp_all add: mutation_types_def create_input_type_def patch_type_def update_input_type_def delete_input_type_def payload_type_def
      shape object_new_def insert_commute)

lemma generated_names:
  "type_name ` set (generated_types out bs fs) = scalar_types \<union> ev_name ` set (go_enums out) \<union> rv_name ` set (go_resources out) \<union>
     {''Node'', ''PageInfo''} \<union>
     (\<Union>r \<in> {r \<in> set (go_resources out). supports bs B_CONNECTION r}. {edge_type_name (rv_name r), connection_type_name (rv_name r)}) \<union>
     (\<lambda>r. filter_type_name (rv_name r)) ` {r \<in> set (go_resources out). supports bs B_FILTER r} \<union>
     (\<lambda>r. order_by_type_name (rv_name r)) ` {r \<in> set (go_resources out). supports bs B_ORDER_BY r} \<union>
     (\<lambda>r. condition_type_name (rv_name r)) ` set (go_resources out)"
  unfolding generated_types_def
  by (simp add: image_Un image_UN objects_names group_names image_image enum_type_def page_info_type_def shape object_new_def scalar_types_def
      insert_commute Un_ac)

lemma described_names:
  fixes b :: "('f, 'd, 'j, 'q, 'c, 'v) builder"
  assumes "described out bs exts b"
  shows "names_complete (builtin_types \<union> type_name ` set (sb_types b)) (go_resources out) bs"
proof -
  let ?N = "type_name ` set (sb_types b)"
  note ty = assms [unfolded described_def, THEN conjunct1]
  have gen: "type_name ` set (generated_types out bs
      (fst (relation_parts (go_resources out) (go_relations out) :: (string \<times> 'f field) list \<times> 'j loader_registry))) \<subseteq> ?N"
    unfolding ty by (rule image_mono) auto
  have mut: "type_name ` set (mutation_types bs r :: 'f gql_type list) \<subseteq> ?N" if "has_mutations bs" "r \<in> set (go_resources out)" for r
    unfolding ty by (rule image_mono) (use that in auto)
  have query: "''Query'' \<in> ?N" unfolding ty by (simp add: image_Un query_root_def query_start_def shape)
  have "resource_names (builtin_types \<union> ?N) bs r" if r: "r \<in> set (go_resources out)" for r
  proof -
    have "type_name ` set (mutation_types bs r :: 'f gql_type list) \<subseteq> ?N" if "supports bs B_INSERT r \<or> supports bs B_UPDATE r \<or> supports bs B_DELETE r"
      by (rule mut [OF supports_has_mutations [OF that] r])
    then show ?thesis
      using gen r unfolding generated_names mutation_names resource_names_def
      by (intro conjI impI) (simp_all add: image_subset_iff UN_subset_iff)
  qed
  then show ?thesis
    using gen query unfolding generated_names names_complete_def by auto
qed

text \<open>The references of each group of generated types.\<close>

lemma resource_refs:
  assumes "names_complete N rs bs" and "r \<in> set rs" and cols: "\<forall>c \<in> set (rv_columns r). column_ok c"
  shows "type_refs (condition_type r) \<subseteq> N"
    and "supports bs B_FILTER r \<Longrightarrow> type_refs (filter_type r) \<subseteq> N"
    and "supports bs B_CONNECTION r \<Longrightarrow> t \<in> set (connection_types r) \<Longrightarrow> type_refs t \<subseteq> N"
    and "t \<in> set (mutation_types bs r) \<Longrightarrow> type_refs t \<subseteq> N"
    and "f \<in> set (mutation_fields bs r) \<Longrightarrow> field_refs f \<subseteq> N"
    and "\<forall>g \<in> set fs. field_refs g \<subseteq> N \<Longrightarrow> type_refs (TObject (object_of r fs)) \<subseteq> N"
    and "supports bs B_CONNECTION r \<longrightarrow> supports bs B_FILTER r \<and> supports bs B_ORDER_BY r \<Longrightarrow>
      f \<in> set (query_fields bs r) \<Longrightarrow> field_refs f \<subseteq> N"
proof -
  have N: "builtin_types \<subseteq> N" "scalar_types \<subseteq> N" "''Node'' \<in> N" "''PageInfo'' \<in> N" "''Query'' \<in> N" and r: "resource_names N bs r"
    using assms(1,2) by (auto simp: names_complete_def)
  have b: "''Int'' \<in> N" "''String'' \<in> N" "''Boolean'' \<in> N" "''ID'' \<in> N" "''Cursor'' \<in> N"
    using N(1,2) by (auto simp: builtin_types_def scalar_types_def)
  have c: "ref_name (gql_type_to_type_ref (cv_gql_type c) nn) \<in> N" "arg_refs (column_filters c) \<subseteq> N"
    if "c \<in> set (rv_columns r)" for c nn
    using column_refs [OF bspec [OF cols that]] N(1,2) by blast+
  note refs = arg_refs_def field_refs_def arg_def field_new_def shape Let_def
  show "type_refs (condition_type r) \<subseteq> N" using c(1) by (auto simp: condition_type_def refs)
  show "type_refs (filter_type r) \<subseteq> N" if "supports bs B_FILTER r"
    using c(2) r that by (auto simp: filter_type_def refs resource_names_def)
  show "type_refs t \<subseteq> N" if "supports bs B_CONNECTION r" "t \<in> set (connection_types r)" for t :: "'f gql_type"
    using r that N b by (auto simp: connection_types_def edge_type_def connection_type_def refs resource_names_def object_new_def)
  show "type_refs t \<subseteq> N" if t: "t \<in> set (mutation_types bs r)" for t :: "'f gql_type"
  proof -
    have row: "type_refs (create_input_type r :: 'f gql_type) \<subseteq> N" "type_refs (patch_type r :: 'f gql_type) \<subseteq> N"
      using c(1) by (simp_all add: create_input_type_def patch_type_def refs image_subset_iff)
    have key: "type_refs (delete_input_type r :: 'f gql_type) \<subseteq> N" using b by (simp add: delete_input_type_def refs)
    have upd: "type_refs (update_input_type r :: 'f gql_type) \<subseteq> N" if "supports bs B_UPDATE r"
      using b r that by (simp add: update_input_type_def refs resource_names_def)
    have pay: "type_refs (TObject (payload_type n fs (rv_name r)) :: 'f gql_type) \<subseteq> N" if "\<forall>f \<in> set fs. field_refs f \<subseteq> N" for n fs
      using that r N(5) by (simp add: payload_type_def refs object_new_def resource_names_def UN_subset_iff)
    have pays: "type_refs (TObject (payload_type n [] (rv_name r)) :: 'f gql_type) \<subseteq> N"
      "type_refs (TObject (payload_type n [field_new ''deletedNodeId'' (named ''ID'') RNull] (rv_name r)) :: 'f gql_type) \<subseteq> N" for n
      by (rule pay; use b in \<open>simp add: refs\<close>)+
    from t show ?thesis
      unfolding mutation_types_def set_append Un_iff
      by (elim disjE; simp split: if_split_asm del: type_refs.simps; elim conjE disjE; simp add: row key upd pays del: type_refs.simps)
  qed
  show "field_refs f \<subseteq> N" if "f \<in> set (mutation_fields bs r)" for f :: "'f field"
    using r that by (auto simp: mutation_fields_def build_create_resolver_def build_update_resolver_def build_delete_resolver_def
        create_field_def update_field_def delete_field_def argument_def refs resource_names_def split: if_splits)
  show "type_refs (TObject (object_of r fs)) \<subseteq> N" if "\<forall>g \<in> set fs. field_refs g \<subseteq> N" for fs :: "'f field list"
  proof -
    have "field_refs (column_field c) \<subseteq> N" if "c \<in> set (rv_columns r)" for c
      using c(1) [OF that] by (simp add: column_field_def refs)
    moreover have "field_refs (field_new ''nodeId'' (named_nn ''ID'') x) \<subseteq> N" for x :: "'f resolver"
      using b by (simp add: refs)
    ultimately show ?thesis using that N(3) by (simp add: object_of_simps UN_subset_iff ball_Un) blast
  qed
  show "field_refs f \<subseteq> N"
    if "supports bs B_CONNECTION r \<longrightarrow> supports bs B_FILTER r \<and> supports bs B_ORDER_BY r" "f \<in> set (query_fields bs r)" for f :: "'f field"
  proof -
    have "ref_name (gql_type_to_type_ref (case find (\<lambda>c. cv_pg_name c = k) (rv_columns r) of Some c \<Rightarrow> cv_gql_type c | None \<Rightarrow> ''String'') True) \<in> N" for k
    proof (cases "find (\<lambda>c. cv_pg_name c = k) (rv_columns r)")
      case None
      have "ref_name (gql_type_to_type_ref ''String'' True) = ''String''" by code_simp
      then show ?thesis using None b(2) by simp
    next
      case (Some c)
      then have "c \<in> set (rv_columns r)" by (auto simp: find_Some_iff)
      from c(1) [OF this] Some show ?thesis by simp
    qed
    then have "field_refs (build_by_pk_resolver r :: 'f field) \<subseteq> N"
      using r by (simp add: build_by_pk_resolver_def by_pk_field_def refs resource_names_def image_subset_iff)
    moreover have "field_refs (build_allx_resolver r :: 'f field) \<subseteq> N" if "supports bs B_CONNECTION r" "supports bs B_FILTER r" "supports bs B_ORDER_BY r"
      using r that b by (simp add: build_allx_resolver_def allx_field_def page_arguments_def refs resource_names_def argument_def)
    ultimately show ?thesis using that by (simp add: query_fields_def split: if_splits) blast
  qed
qed

lemma relation_field_refs:
  assumes "(t, f) \<in> set (fst (relation_parts (go_resources out) (go_relations out) :: (string \<times> 'f field) list \<times> 'j loader_registry))"
    and "names_complete N (go_resources out) bs"
    and rel: "\<And>rel src. rel \<in> set (go_relations out) \<Longrightarrow> \<not> rl_is_unique rel \<Longrightarrow>
      find_resource (go_resources out) (rl_source_resource rel) = Some src \<Longrightarrow> supports bs B_CONNECTION src"
  shows "field_refs f \<subseteq> N"
proof -
  have mem: "r \<in> set (go_resources out)" if "find_resource (go_resources out) n = Some r" for n r
    using that by (auto simp: find_resource_def find_Some_iff)
  from relation_resolvers [OF assms(1)] obtain rel src tgt where
    r: "rel \<in> set (go_relations out)" "find_resource (go_resources out) (rl_source_resource rel) = Some src"
      "find_resource (go_resources out) (rl_target_resource rel) = Some tgt"
    and f: "(t, f) = build_belongs_to_resolver rel src tgt \<or> \<not> rl_is_unique rel \<and> (t, f) = build_has_many_resolver rel src tgt" by blast
  from f show ?thesis
  proof
    assume "(t, f) = build_belongs_to_resolver rel src tgt"
    then show ?thesis using mem [OF r(3)] assms(2)
      by (auto simp: build_belongs_to_resolver_def field_refs_def arg_refs_def field_new_def names_complete_def resource_names_def)
  next
    assume "\<not> rl_is_unique rel \<and> (t, f) = build_has_many_resolver rel src tgt"
    then show ?thesis using mem [OF r(2)] rel [OF r(1) _ r(2)] assms(2)
      by (auto simp: build_has_many_resolver_def field_refs_def arg_refs_def field_new_def names_complete_def resource_names_def)
  qed
qed

text \<open>What makes the generated types complete: a resource with a connection also has a filter and an
  order, and the source of a to-many relation has a connection.\<close>

definition flags_complete :: "'m gather_output \<Rightarrow> (string \<times> behavior_set) list \<Rightarrow> bool" where
  "flags_complete out bs \<longleftrightarrow>
     list_all (\<lambda>r. supports bs B_CONNECTION r \<longrightarrow> supports bs B_FILTER r \<and> supports bs B_ORDER_BY r) (go_resources out) \<and>
     list_all (\<lambda>rel. rl_is_unique rel \<or>
       (case find_resource (go_resources out) (rl_source_resource rel) of None \<Rightarrow> True | Some src \<Rightarrow> supports bs B_CONNECTION src))
       (go_relations out)"

lemma flags_completeD:
  assumes "flags_complete out bs"
  shows "r \<in> set (go_resources out) \<Longrightarrow> supports bs B_CONNECTION r \<Longrightarrow> supports bs B_FILTER r \<and> supports bs B_ORDER_BY r"
    and "rel \<in> set (go_relations out) \<Longrightarrow> \<not> rl_is_unique rel \<Longrightarrow>
      find_resource (go_resources out) (rl_source_resource rel) = Some src \<Longrightarrow> supports bs B_CONNECTION src"
  using assms by (fastforce simp: flags_complete_def list_all_iff)+

lemma generated_refs:
  assumes t: "t \<in> set (generated_types out bs
      (fst (relation_parts (go_resources out) (go_relations out) :: (string \<times> 'f field) list \<times> 'j loader_registry)))"
    and N: "names_complete N (go_resources out) bs" and flags: "flags_complete out bs"
    and cols: "\<forall>r \<in> set (go_resources out). \<forall>c \<in> set (rv_columns r). column_ok c"
  shows "type_refs t \<subseteq> N"
proof -
  let ?rels = "fst (relation_parts (go_resources out) (go_relations out) :: (string \<times> 'f field) list \<times> 'j loader_registry)"
  have b: "''Int'' \<in> N" "''String'' \<in> N" "''Boolean'' \<in> N" "''ID'' \<in> N" "''Cursor'' \<in> N"
    using N by (auto simp: names_complete_def builtin_types_def scalar_types_def)
  define P :: "'f gql_type \<Rightarrow> bool" where "P = (\<lambda>t. type_refs t \<subseteq> N)"
  have objs: "P t" if "t \<in> set (objects (group_fields ?rels) (go_resources out))" for t
  proof -
    from objects_of_relations [OF that] obtain r fs where
      r: "r \<in> set (go_resources out)" "t = TObject (object_of r fs)" "\<And>f. f \<in> set fs \<Longrightarrow> (rv_name r, f) \<in> set ?rels" by blast
    have "field_refs f \<subseteq> N" if "f \<in> set fs" for f
      by (rule relation_field_refs [OF r(3) [OF that] N]) (rule flags_completeD(2) [OF flags])
    then show ?thesis unfolding r(2) P_def by (intro resource_refs(6) [OF N r(1) bspec [OF cols r(1)]] ballI)
  qed
  have page: "P (TObject page_info_type)" "P (TInterface ''Node'' [(''nodeId'', named_nn ''ID'')])"
    using b by (simp_all add: P_def page_info_type_def shape object_new_def field_new_def field_refs_def arg_refs_def)
  have basic: "P (TScalar n)" "P (enum_type e)" "P (order_by_type r)" for n e r
    by (simp_all add: P_def enum_type_def order_by_type_def)
  have per: "P (condition_type r)" "supports bs B_FILTER r \<Longrightarrow> P (filter_type r)"
    "supports bs B_CONNECTION r \<Longrightarrow> u \<in> set (connection_types r) \<Longrightarrow> P u" if "r \<in> set (go_resources out)" for r u
    unfolding P_def using resource_refs(1-3) [OF N that bspec [OF cols that]] by blast+
  have "\<forall>t \<in> set (generated_types out bs ?rels). P t"
    using objs page basic per by (simp add: generated_types_def ball_Un) blast
  with t show ?thesis by (simp add: P_def)
qed

text \<open>C10: no dangling references. In a schema built from a gathered catalog, when every resource with a
  connection keeps its filter and order types and every source of a to-many relation its connection,
  every type that a field, argument, input or interface refers to is built in, registered, or referred
  to by a call of an extension.\<close>

theorem schema_references_closed:
  fixes b :: "('f, 'd, 'j, 'q, 'c, 'v) builder"
  assumes "gather intro meta p = Inr out" and "schema_builder out bs exts = Some b" and "flags_complete out bs"
  shows "(\<Union>t \<in> set (sb_types b). type_refs t) \<subseteq>
    builtin_types \<union> type_name ` set (sb_types b) \<union> call_refs (all_calls bs exts)"
proof -
  let ?N = "builtin_types \<union> type_name ` set (sb_types b)" and ?C = "call_refs (all_calls bs exts)"
  have d: "described out bs exts b" by (rule schema_builder_described(2) [OF assms(2)])
  note N = described_names [OF d]
  have cols: "\<forall>r \<in> set (go_resources out). \<forall>c \<in> set (rv_columns r). column_ok c"
    using gathered_columns_ok [OF assms(1)] by blast
  have gen: "type_refs t \<subseteq> ?N" if "t \<in> set (generated_types out bs
      (fst (relation_parts (go_resources out) (go_relations out) :: (string \<times> 'f field) list \<times> 'j loader_registry)))" for t
    by (rule generated_refs [OF that N assms(3) cols])
  have mut: "type_refs t \<subseteq> ?N" if "t \<in> set (mutation_types bs r)" "r \<in> set (go_resources out)" for t :: "'f gql_type" and r
    by (rule resource_refs(4) [OF N that(2) bspec [OF cols that(2)] that(1)])
  have fields: "field_refs f \<subseteq> ?N" if "f \<in> set (query_fields bs r) \<union> set (mutation_fields bs r)" "r \<in> set (go_resources out)"
    for f :: "'f field" and r
    using that resource_refs(5,7) [OF N that(2) bspec [OF cols that(2)]] flags_completeD(1) [OF assms(3) that(2)] by blast
  have start: "field_refs f \<subseteq> ?N" if "f \<in> set (ob_fields query_start)" for f :: "'f field"
    using that N by (auto simp: query_start_def field_refs_def arg_refs_def field_new_def names_complete_def builtin_types_def)
  define M where "M = ?N \<union> ?C"
  define P :: "'f gql_type \<Rightarrow> bool" where "P = (\<lambda>t. type_refs t \<subseteq> M)"
  have ext: "P t" if "t \<in> set (types_in (all_calls bs exts))" for t using that by (auto simp: P_def M_def call_refs_def)
  have ext_fields: "field_refs f \<subseteq> M" if "f \<in> set (query_in (all_calls bs exts)) \<union> set (mutation_in (all_calls bs exts))" for f :: "'f field"
    using that by (auto simp: M_def call_refs_def)
  have generated: "field_refs f \<subseteq> M"
    if "f \<in> set (ob_fields query_start) \<or> (\<exists>r \<in> set (go_resources out). f \<in> set (query_fields bs r) \<union> set (mutation_fields bs r))" for f :: "'f field"
    using that start fields unfolding M_def by blast
  have query: "P (TObject (query_root out bs (query_in (phase_calls ExtendQuery exts))))"
  proof -
    have "field_refs f \<subseteq> M" if "f \<in> set (ob_fields (query_root out bs (query_in (phase_calls ExtendQuery exts))))" for f
      using that generated [of f] ext_fields [of f] by (auto simp: query_root_def shape all_calls_def)
    then show ?thesis by (auto simp: P_def query_root_def shape query_start_def)
  qed
  have mutation: "P (TObject (mutation_root out bs (mutation_in (phase_calls ExtendMutation exts))))" if "has_mutations bs"
  proof -
    have "field_refs f \<subseteq> M" if "f \<in> set (ob_fields (mutation_root out bs (mutation_in (phase_calls ExtendMutation exts))))" for f
      using that generated [of f] ext_fields [of f] \<open>has_mutations bs\<close>
      by (auto simp: mutation_root_def shape all_calls_def mutation_calls_def object_new_def)
    then show ?thesis by (auto simp: P_def mutation_root_def shape object_new_def)
  qed
  have "P t" if "t \<in> set (generated_types out bs
      (fst (relation_parts (go_resources out) (go_relations out) :: (string \<times> 'f field) list \<times> 'j loader_registry)))" for t
    using gen [OF that] by (auto simp: P_def M_def)
  moreover have "P t" if "t \<in> set (mutation_types bs r)" "r \<in> set (go_resources out)" for t r
    using mut [OF that] by (auto simp: P_def M_def)
  ultimately have "\<forall>t \<in> set (sb_types b). P t"
    using ext query mutation unfolding d [unfolded described_def, THEN conjunct1]
    by (cases "has_mutations bs") (auto simp: ball_Un all_calls_def mutation_calls_def)
  then show ?thesis by (auto simp: P_def M_def)
qed

theorem schema_references_closed_witness:
  "\<exists>b :: (nat, nat, nat, nat, nat, nat) builder.
     schema_builder (gathered demo_catalog demo_preset) (go_behaviors (gathered demo_catalog demo_preset)) [] = Some b \<and>
     (\<Union>t \<in> set (sb_types b). type_refs t) \<subseteq> builtin_types \<union> type_name ` set (sb_types b)"
proof -
  let ?out = "gathered demo_catalog demo_preset"
  have flags: "flags_complete ?out (go_behaviors ?out)" by code_simp
  have "in_phase (go_behaviors ?out) ([] :: (nat, nat, nat, nat, nat) schema_extension list)"
    by (simp add: in_phase_def phase_calls_def mutation_calls_def)
  then obtain b :: "(nat, nat, nat, nat, nat, nat) builder" where b: "schema_builder ?out (go_behaviors ?out) [] = Some b"
    by (metis not_Some_eq schema_builder_described(1))
  have "call_refs (all_calls (go_behaviors ?out) ([] :: (nat, nat, nat, nat, nat) schema_extension list)) = {}"
    by (simp add: call_refs_def all_calls_def phase_calls_def mutation_calls_def)
  with schema_references_closed [OF gather_gathered b flags] b show ?thesis by auto
qed
section \<open>Relations find their loaders\<close>

lemma key_inj:
  assumes "CHR '':'' \<notin> set n" and "CHR '':'' \<notin> set m" and "n @ '':'' @ c = m @ '':'' @ d"
  shows "n = m \<and> c = d"
proof -
  have "takeWhile (\<lambda>x. x \<noteq> CHR '':'') (n @ '':'' @ c) = n" "takeWhile (\<lambda>x. x \<noteq> CHR '':'') (m @ '':'' @ d) = m"
    using assms(1,2) by (auto simp: takeWhile_append)
  with assms(3) show ?thesis by auto
qed

definition belongs_loader :: "resolved_resource \<Rightarrow> 'j belongs_to_loader" where
  "belongs_loader tgt = (let pk = first_column (rv_primary_key tgt) []
     in \<lparr>bl_resource = tgt, bl_pk_column = pk, bl_pk_column_oid = column_oid tgt pk, bl_claims = None\<rparr>)"

definition many_loader :: "resolved_resource \<Rightarrow> string \<Rightarrow> 'j has_many_loader" where
  "many_loader src fk =
     \<lparr>hm_resource = src, hm_fk_column = fk, hm_fk_column_oid = column_oid src fk, hm_claims = None, hm_default_limit = 20\<rparr>"

text \<open>Every loader of the registry is the one of its key, and every relation has its loaders.\<close>

definition loaders_ok :: "resolved_resource list \<Rightarrow> resolved_relation list \<Rightarrow> 'j loader_registry \<Rightarrow> bool" where
  "loaders_ok resources rels reg \<longleftrightarrow>
     (\<forall>k l. get_belongs_to reg k = Some l \<longrightarrow>
        (\<exists>n tgt. find_resource resources n = Some tgt \<and> k = belongs_to_key tgt \<and> l = belongs_loader tgt)) \<and>
     (\<forall>k l. get_has_many reg k = Some l \<longrightarrow>
        (\<exists>n src fk. find_resource resources n = Some src \<and> k = has_many_key src fk \<and> l = many_loader src fk)) \<and>
     (\<forall>rel src tgt. rel \<in> set rels \<longrightarrow> find_resource resources (rl_source_resource rel) = Some src \<longrightarrow>
        find_resource resources (rl_target_resource rel) = Some tgt \<longrightarrow>
        get_belongs_to reg (belongs_to_key tgt) \<noteq> None \<and>
        (rl_is_unique rel \<or> get_has_many reg (has_many_key src (first_column (rl_source_columns rel) [])) \<noteq> None))"

lemma get_register:
  "get_belongs_to (register_belongs_to reg k tgt pk t None) k' =
     (if k' = k then Some \<lparr>bl_resource = tgt, bl_pk_column = pk, bl_pk_column_oid = t, bl_claims = None\<rparr> else get_belongs_to reg k')"
  "get_has_many (register_belongs_to reg k tgt pk t None) k' = get_has_many reg k'"
  "get_belongs_to (register_has_many reg k src fk t None) k' = get_belongs_to reg k'"
  "get_has_many (register_has_many reg k src fk t None) k' =
     (if k' = k then Some \<lparr>hm_resource = src, hm_fk_column = fk, hm_fk_column_oid = t, hm_claims = None, hm_default_limit = 20\<rparr>
      else get_has_many reg k')"
  by (simp_all add: get_belongs_to_def get_has_many_def register_belongs_to_def register_has_many_def map_of_assoc_insert)

lemma add_relation_loaders:
  assumes "loaders_ok resources rels (snd st)"
  shows "loaders_ok resources (rels @ [rel]) (snd (add_relation resources st rel))"
proof (cases "find_resource resources (rl_source_resource rel)"; cases "find_resource resources (rl_target_resource rel)")
  fix src tgt
  assume f: "find_resource resources (rl_source_resource rel) = Some src" "find_resource resources (rl_target_resource rel) = Some tgt"
  let ?fk = "first_column (rl_source_columns rel) []" and ?pk = "first_column (rv_primary_key tgt) []"
  obtain fs reg where st: "st = (fs, reg)" by (cases st)
  define reg' where "reg' = (if rl_is_unique rel then reg
    else register_has_many reg (rv_name src @ '':'' @ ?fk) src ?fk (column_oid src ?fk) None)"
  have "snd (add_relation resources st rel) = register_belongs_to reg' (rv_name tgt @ '':'' @ ?pk) tgt ?pk (column_oid tgt ?pk) None"
    by (simp add: add_relation_def f st Let_def reg'_def)
  moreover have "loaders_ok resources rels reg" using assms st by simp
  ultimately show ?thesis
    using f unfolding loaders_ok_def reg'_def
    by (auto simp: get_register belongs_to_key_def has_many_key_def belongs_loader_def many_loader_def Let_def split: if_splits)
qed (use assms in \<open>auto simp: add_relation_def loaders_ok_def\<close>)

lemma relation_parts_loaders: "loaders_ok resources rels (snd (relation_parts resources rels))"
proof -
  have "loaders_ok resources (seen @ rels) (snd (foldl (add_relation resources) st rels))"
    if "loaders_ok resources seen (snd st)" for st and seen :: "resolved_relation list"
    using that
  proof (induction rels arbitrary: st seen)
    case (Cons rel rels)
    from Cons.IH [OF add_relation_loaders [OF Cons.prems]] show ?case by simp
  qed simp
  from this [of "[]" "([], loader_registry_new)"] show ?thesis
    by (simp add: relation_parts_def loaders_ok_def loader_registry_new_def get_belongs_to_def get_has_many_def)
qed

lemma find_resource_name: "find_resource resources n = Some r \<Longrightarrow> rv_name r = n \<and> r \<in> set resources"
  by (auto simp: find_resource_def find_Some_iff)

lemma loader_found:
  assumes "loaders_ok resources rels reg" and names: "\<forall>r \<in> set resources. CHR '':'' \<notin> set (rv_name r)"
    and rel: "rel \<in> set rels" "find_resource resources (rl_source_resource rel) = Some src"
      "find_resource resources (rl_target_resource rel) = Some tgt"
  shows "get_belongs_to reg (belongs_to_key tgt) = Some (belongs_loader tgt)"
    and "\<not> rl_is_unique rel \<Longrightarrow> get_has_many reg (has_many_key src (first_column (rl_source_columns rel) [])) =
      Some (many_loader src (first_column (rl_source_columns rel) []))"
proof -
  have same: "a = b \<and> c = d" if "find_resource resources n = Some a" "find_resource resources m = Some b"
    "rv_name a @ '':'' @ c = rv_name b @ '':'' @ d" for n m a b c d
  proof -
    note r = find_resource_name [OF that(1)] find_resource_name [OF that(2)]
    from key_inj [OF bspec [OF names] bspec [OF names] that(3)] r have "rv_name a = rv_name b \<and> c = d" by blast
    with r that(1,2) show ?thesis by simp
  qed
  note ok = assms(1) [unfolded loaders_ok_def]
  from ok rel have present: "get_belongs_to reg (belongs_to_key tgt) \<noteq> None"
    "rl_is_unique rel \<or> get_has_many reg (has_many_key src (first_column (rl_source_columns rel) [])) \<noteq> None" by blast+
  from present(1) obtain l where l: "get_belongs_to reg (belongs_to_key tgt) = Some l" by blast
  with ok obtain n t where t: "find_resource resources n = Some t" "belongs_to_key tgt = belongs_to_key t" "l = belongs_loader t" by blast
  from same [OF rel(3) t(1) t(2) [unfolded belongs_to_key_def]] l t(3)
  show "get_belongs_to reg (belongs_to_key tgt) = Some (belongs_loader tgt)" by simp
  show "get_has_many reg (has_many_key src (first_column (rl_source_columns rel) [])) =
      Some (many_loader src (first_column (rl_source_columns rel) []))" if "\<not> rl_is_unique rel"
  proof -
    from present(2) that obtain l where l: "get_has_many reg (has_many_key src (first_column (rl_source_columns rel) [])) = Some l" by blast
    with ok obtain n t fk where t: "find_resource resources n = Some t"
      "has_many_key src (first_column (rl_source_columns rel) []) = has_many_key t fk" "l = many_loader t fk" by blast
    from same [OF rel(2) t(1) t(2) [unfolded has_many_key_def]] l t(3) show ?thesis by simp
  qed
qed

lemma objects_cover: "r \<in> set rs \<Longrightarrow> \<exists>fs. TObject (object_of r fs) \<in> set (objects by_type rs)"
  by (induction by_type rs rule: objects.induct) auto

lemma objects_serve:
  assumes "find_resource rs n = Some r" and "f \<in> set (unwrap_or (map_of by_type n) [])"
  shows "\<exists>fs. TObject (object_of r fs) \<in> set (objects by_type rs) \<and> f \<in> set fs"
  using assms
proof (induction by_type rs rule: objects.induct)
  case (2 by_type x rs)
  show ?case
  proof (cases "rv_name x = n")
    case True
    with "2.prems" show ?thesis by (auto simp: find_resource_def)
  next
    case False
    with "2.prems" have "find_resource rs n = Some r" "f \<in> set (unwrap_or (map_of (filter (\<lambda>e. fst e \<noteq> rv_name x) by_type) n) [])"
      by (auto simp: find_resource_def map_of_filter_fst)
    from "2.IH" [OF this] show ?thesis by auto
  qed
qed (simp add: find_resource_def)

lemma relation_fields_built:
  assumes "rel \<in> set rels" and "find_resource resources (rl_source_resource rel) = Some src"
    and "find_resource resources (rl_target_resource rel) = Some tgt"
  shows "build_belongs_to_resolver rel src tgt \<in> set (fst (relation_parts resources rels :: (string \<times> 'f field) list \<times> 'j loader_registry))"
    and "\<not> rl_is_unique rel \<Longrightarrow>
      build_has_many_resolver rel src tgt \<in> set (fst (relation_parts resources rels :: (string \<times> 'f field) list \<times> 'j loader_registry))"
proof -
  have grows: "set (fst st) \<subseteq> set (fst (add_relation resources st r))" for st :: "(string \<times> 'f field) list \<times> 'j loader_registry" and r
    by (auto simp: add_relation_def Let_def split_beta split: option.split)
  have keep: "set (fst st) \<subseteq> set (fst (foldl (add_relation resources) st rs))" for st :: "(string \<times> 'f field) list \<times> 'j loader_registry" and rs
  proof (induction rs arbitrary: st)
    case (Cons r rs)
    from subset_trans [OF grows [of st r] Cons] show ?case by simp
  qed simp
  from split_list [OF assms(1)] obtain before after where rels: "rels = before @ rel # after" by blast
  define st :: "(string \<times> 'f field) list \<times> 'j loader_registry" where "st = foldl (add_relation resources) ([], loader_registry_new) before"
  have p: "set (fst (add_relation resources st rel)) \<subseteq> set (fst (relation_parts resources rels :: (string \<times> 'f field) list \<times> 'j loader_registry))"
    by (simp add: relation_parts_def rels st_def keep)
  show "build_belongs_to_resolver rel src tgt \<in> set (fst (relation_parts resources rels :: (string \<times> 'f field) list \<times> 'j loader_registry))"
    by (rule subsetD [OF p]) (simp add: add_relation_def assms Let_def split_beta)
  show "build_has_many_resolver rel src tgt \<in> set (fst (relation_parts resources rels :: (string \<times> 'f field) list \<times> 'j loader_registry))"
    if "\<not> rl_is_unique rel"
    by (rule subsetD [OF p]) (simp add: add_relation_def assms that Let_def split_beta)
qed

text \<open>The type that a name stands for: \<^verbatim>\<open>async-graphql\<close> keeps the one registered last.\<close>

definition type_in_force :: "('f, 'd, 'j, 'q, 'c, 'v) builder \<Rightarrow> string \<Rightarrow> 'f gql_type option" where
  "type_in_force b = map_of (rev (map (\<lambda>t. (type_name t, t)) (sb_types b)))"

lemma type_in_forceI:
  assumes "distinct (map type_name (sb_types b))" and "t \<in> set (sb_types b)" and "type_name t = n"
  shows "type_in_force b n = Some t"
proof -
  have "distinct (map fst (rev (map (\<lambda>t. (type_name t, t)) (sb_types b))))" using assms(1) by (simp add: rev_map [symmetric] o_def)
  then show ?thesis using assms(2,3) by (auto simp: type_in_force_def)
qed

lemma field_placed:
  fixes b :: "('f, 'd, 'j, 'q, 'c, 'v) builder"
  assumes "described out bs exts b" and "distinct (map type_name (sb_types b))" and "find_resource (go_resources out) n = Some r"
    and "(n, f) \<in> set (fst (relation_parts (go_resources out) (go_relations out) :: (string \<times> 'f field) list \<times> 'j loader_registry))"
  shows "\<exists>ob. type_in_force b (rv_name r) = Some (TObject ob) \<and> f \<in> set (ob_fields ob)"
proof -
  let ?rels = "fst (relation_parts (go_resources out) (go_relations out) :: (string \<times> 'f field) list \<times> 'j loader_registry)"
  from objects_serve [OF assms(3), of f "group_fields ?rels"] assms(4)
  obtain fs where fs: "TObject (object_of r fs) \<in> set (objects (group_fields ?rels) (go_resources out))" "f \<in> set fs"
    by (auto simp: map_of_group_fields)
  then have "TObject (object_of r fs) \<in> set (sb_types b)"
    using assms(1) by (auto simp: described_def generated_types_def)
  from type_in_forceI [OF assms(2) this refl] fs(2) show ?thesis
    by (intro exI [of _ "object_of r fs"]) (simp add: object_of_simps)
qed

text \<open>C28: relations are served. Let no two registered types share a name and no type name contain a colon.
  Then for every foreign key between two resources the object type of its source has a to-one field,
  named after its first column and the target, of the type of the target and without arguments; and
  unless the key is unique the object type of its target has a to-many field, named after the column
  and the source, of the connection type of the source. The schema data holds the loaders these fields
  look up by name, and each loads from the table the relation points to, by its first key column. The
  loaders carry no claims.\<close>

theorem relations_served:
  fixes b :: "('f, 'd, 'j, 'q, 'c, 'v) builder"
  assumes "schema_builder out bs exts = Some b" and "distinct (map type_name (sb_types b))"
    and names: "\<forall>r \<in> set (go_resources out). CHR '':'' \<notin> set (rv_name r)"
    and rel: "rel \<in> set (go_relations out)" "find_resource (go_resources out) (rl_source_resource rel) = Some src"
      "find_resource (go_resources out) (rl_target_resource rel) = Some tgt" and fk: "rl_source_columns rel = fk # fks"
  shows "\<exists>reg source_type target_type. DLoaders reg \<in> set (sb_data b) \<and>
    type_in_force b (rl_source_resource rel) = Some (TObject source_type) \<and> type_in_force b (rl_target_resource rel) = Some (TObject target_type) \<and>
    \<lparr>fd_name = belongs_to_field_name fk (rv_table tgt), fd_type = named (rl_target_resource rel), fd_args = [],
     fd_resolver = RBelongsTo rel src tgt\<rparr> \<in> set (ob_fields source_type) \<and>
    get_belongs_to reg (belongs_to_key tgt) = Some (belongs_loader tgt) \<and>
    (if rl_is_unique rel then True
     else \<lparr>fd_name = has_many_field_name fk (rv_table src), fd_type = named (connection_type_name (rl_source_resource rel)), fd_args = [],
         fd_resolver = RHasMany rel src tgt\<rparr> \<in> set (ob_fields target_type) \<and>
       get_has_many reg (has_many_key src fk) = Some (many_loader src fk))"
proof -
  let ?reg = "snd (relation_parts (go_resources out) (go_relations out) :: (string \<times> 'f field) list \<times> 'j loader_registry)"
  note n = find_resource_name [OF rel(2)] find_resource_name [OF rel(3)]
  have d: "described out bs exts b" by (rule schema_builder_described(2) [OF assms(1)])
  then have "DLoaders ?reg \<in> set (sb_data b)" by (simp add: described_def)
  moreover have cols: "first_column (rl_source_columns rel) [] = fk" "first_column (rl_source_columns rel) ''id'' = fk"
    using fk by (simp_all add: first_column_def)
  moreover note loader_found [OF relation_parts_loaders names rel]
  moreover have "\<exists>ob. type_in_force b (rv_name src) = Some (TObject ob) \<and> snd (build_belongs_to_resolver rel src tgt) \<in> set (ob_fields ob)"
    by (rule field_placed [OF d assms(2) rel(2)])
      (use relation_fields_built(1) [OF rel] n in \<open>simp add: build_belongs_to_resolver_def\<close>)
  moreover have "\<exists>ob. type_in_force b (rv_name tgt) = Some (TObject ob) \<and> (rl_is_unique rel \<or> snd (build_has_many_resolver rel src tgt) \<in> set (ob_fields ob))"
  proof (cases "rl_is_unique rel")
    case True
    have "tgt \<in> set (go_resources out)" using rel(3) by (auto simp: find_resource_def find_Some_iff)
    then obtain fs where "TObject (object_of tgt fs) \<in> set (objects (group_fields (fst (relation_parts (go_resources out) (go_relations out) ::
        (string \<times> 'f field) list \<times> 'j loader_registry))) (go_resources out))"
      using objects_cover by blast
    then have "TObject (object_of tgt fs) \<in> set (sb_types b)" using d by (auto simp: described_def generated_types_def)
    from type_in_forceI [OF assms(2) this refl] True show ?thesis by (auto simp: object_of_simps)
  next
    case False
    have "\<exists>ob. type_in_force b (rv_name tgt) = Some (TObject ob) \<and> snd (build_has_many_resolver rel src tgt) \<in> set (ob_fields ob)"
      by (rule field_placed [OF d assms(2) rel(3)])
        (use relation_fields_built(2) [OF rel False] n in \<open>simp add: build_has_many_resolver_def\<close>)
    then show ?thesis by blast
  qed
  ultimately show ?thesis
    using n by (auto simp: build_belongs_to_resolver_def build_has_many_resolver_def field_new_def)
qed

lemma blog_types_distinct:
  "case schema_builder blog_output (go_behaviors blog_output) [stats_extension] :: (nat, nat, nat, nat, nat, nat) builder option of
     None \<Rightarrow> False | Some b \<Rightarrow> distinct (map type_name (sb_types b))"
  by code_simp

theorem relations_served_witness:
  "\<exists>(b :: (nat, nat, nat, nat, nat, nat) builder) reg ob. schema_builder blog_output (go_behaviors blog_output) [stats_extension] = Some b \<and>
     DLoaders reg \<in> set (sb_data b) \<and> type_in_force b ''Post'' = Some (TObject ob) \<and>
     RHasMany demo_relation comments_resource posts_resource \<in> fd_resolver ` set (ob_fields ob) \<and>
     get_has_many reg (has_many_key comments_resource ''author'') = Some (many_loader comments_resource ''author'')"
proof -
  from blog_builds obtain b :: "(nat, nat, nat, nat, nat, nat) builder"
    where b: "schema_builder blog_output (go_behaviors blog_output) [stats_extension] = Some b" by blast
  then have d: "distinct (map type_name (sb_types b))" using blog_types_distinct by simp
  have names: "\<forall>r \<in> set (go_resources blog_output). CHR '':'' \<notin> set (rv_name r)" and rel: "demo_relation \<in> set (go_relations blog_output)"
    "find_resource (go_resources blog_output) (rl_source_resource demo_relation) = Some comments_resource"
    "find_resource (go_resources blog_output) (rl_target_resource demo_relation) = Some posts_resource"
    "rl_source_columns demo_relation = ''author'' # []"
    by (simp_all add: blog_output_def posts_resource_def comments_resource_def demo_relation_def find_resource_def)
  have "\<not> rl_is_unique demo_relation" "rl_target_resource demo_relation = ''Post''" by (simp_all add: demo_relation_def)
  with relations_served [OF b d names rel] obtain reg target_type where t: "DLoaders reg \<in> set (sb_data b)"
    "type_in_force b ''Post'' = Some (TObject target_type)"
    "\<lparr>fd_name = has_many_field_name ''author'' (rv_table comments_resource),
      fd_type = named (connection_type_name (rl_source_resource demo_relation)), fd_args = [],
      fd_resolver = RHasMany demo_relation comments_resource posts_resource\<rparr> \<in> set (ob_fields target_type)"
    "get_has_many reg (has_many_key comments_resource ''author'') = Some (many_loader comments_resource ''author'')" by auto
  have "RHasMany demo_relation comments_resource posts_resource \<in> fd_resolver ` set (ob_fields target_type)"
    by (rule rev_image_eqI [OF t(3)]) simp
  with b t show ?thesis by blast
qed

text \<open>A tag that removes the filter of a listed resource leaves a reference to a type nobody registers.\<close>

theorem omitted_filter_dangles:
  "case schema_builder blog_output [(''Post'', B_CONNECTION)] [] :: (nat, nat, nat, nat, nat, nat) builder option of
     None \<Rightarrow> False
   | Some b \<Rightarrow> ''PostFilter'' \<in> (\<Union>t \<in> set (sb_types b). type_refs t) \<and>
       ''PostFilter'' \<notin> builtin_types \<union> type_name ` set (sb_types b)"
  by code_simp

section \<open>Fields without resolvers\<close>

text \<open>The register modules also build the root fields with stub resolvers; they are those of the schema but
  for the resolver.\<close>

definition unresolved :: "'f field \<Rightarrow> 'f field" where
  "unresolved f = f\<lparr>fd_resolver := RNull\<rparr>"

theorem stub_fields_agree:
  "build_query_fields r (behaviors_of bs r) = map unresolved (query_fields bs r) \<and>
   add_mutation_fields m r (behaviors_of bs r) = add_fields m (map unresolved (mutation_fields bs r))"
  by (simp add: build_query_fields_def query_fields_def supports_def unresolved_def build_allx_resolver_def build_by_pk_resolver_def
      allx_field_def by_pk_field_def shape field_new_def add_mutation_fields_def mutation_fields_def Let_def build_create_resolver_def
      build_update_resolver_def build_delete_resolver_def create_field_def update_field_def delete_field_def argument_def obj_field_def add_fields_def)

end
