(* ===== verification/Serv_Cache.thy ===== *)
theory Serv_Cache
  imports Dp_Steps Rust_Str Gql_Parse
begin

text \<open>
  \<^verbatim>\<open>magna-serv/src/plan_cache.rs\<close>: the cache of execution plans keyed by the hash of an operation.
  The concurrent map is the crate \<^verbatim>\<open>dashmap\<close>; here it is an association list with distinct keys,
  and the order in which its \<^verbatim>\<open>retain\<close> visits the entries is a parameter \<open>visit\<close>. The cache is
  shared by the threads that serve requests: a second model interleaves the calls of several
  callers, one operation on the map at a time, each operation taken to be atomic.
\<close>

section \<open>Operations\<close>

record 'p plan_cache =
  pc_inner :: "(64 word \<times> 'p) list"
  pc_max_size :: nat

definition plan_cache_new :: "nat \<Rightarrow> 'p plan_cache" where
  "plan_cache_new max_size = \<lparr>pc_inner = [], pc_max_size = max_size\<rparr>"

text \<open>\<^verbatim>\<open>retain\<close> with a closure that updates a captured variable.\<close>

fun retain :: "('s \<Rightarrow> 'e \<Rightarrow> bool \<times> 's) \<Rightarrow> 's \<Rightarrow> 'e list \<Rightarrow> 'e list" where
  "retain f s [] = []"
| "retain f s (e # es) =
     (case f s e of (keep, s') \<Rightarrow> if keep then e # retain f s' es else retain f s' es)"

definition evict_first :: "bool \<Rightarrow> 'e \<Rightarrow> bool \<times> bool" where
  "evict_first evicted e = (if evicted then (True, evicted) else (False, True))"

text \<open>The cache afterwards, the plan returned, and whether \<^verbatim>\<open>build\<close> was called.\<close>

definition get_or_plan :: "((64 word \<times> 'p) list \<Rightarrow> (64 word \<times> 'p) list) \<Rightarrow> 'p plan_cache \<Rightarrow> 64 word \<Rightarrow> (unit \<Rightarrow> 'p) \<Rightarrow>
    'p plan_cache \<times> 'p \<times> bool" where
  "get_or_plan visit c hash mk =
     (case map_of (pc_inner c) hash of
        Some existing \<Rightarrow> (c, existing, False)
      | None \<Rightarrow>
          (let inner = (if length (pc_inner c) \<ge> pc_max_size c \<and> pc_max_size c > 0
                        then retain evict_first False (visit (pc_inner c)) else pc_inner c);
               plan = mk ()
           in (c\<lparr>pc_inner := assoc_insert hash plan inner\<rparr>, plan, True)))"

definition cache_len :: "'p plan_cache \<Rightarrow> nat" where
  "cache_len c = length (pc_inner c)"

definition cache_is_empty :: "'p plan_cache \<Rightarrow> bool" where
  "cache_is_empty c \<longleftrightarrow> pc_inner c = []"

definition cache_clear :: "'p plan_cache \<Rightarrow> 'p plan_cache" where
  "cache_clear c = c\<lparr>pc_inner := []\<rparr>"

definition normalize_operation :: "string \<Rightarrow> string" where
  "normalize_operation document = str_join '' '' (split_whitespace document)"

definition hash_operation :: "hasher \<Rightarrow> string \<Rightarrow> string option \<Rightarrow> 64 word" where
  "hash_operation hasher document operation_name =
     hasher (hash_str (normalize_operation document) @ hash_opt_str operation_name)"

section \<open>Callers\<close>

text \<open>Where a call of \<^verbatim>\<open>get_or_plan\<close> stands; it carries the hash and the plan its closure would
  build, and in the end the plan it returned.\<close>

datatype 'p caller =
    Idle
  | Looking "64 word" 'p
  | Checking "64 word" 'p
  | Evicting "64 word" 'p
  | Inserting "64 word" 'p
  | Returned "64 word" 'p

record 'p shared =
  sh_map :: "64 word \<rightharpoonup> 'p"
  sh_callers :: "'p caller list"
  sh_built :: "(64 word \<times> 'p) set"

definition set_caller :: "nat \<Rightarrow> 'p caller \<Rightarrow> 'p shared \<Rightarrow> 'p shared" where
  "set_caller i c s = s\<lparr>sh_callers := (sh_callers s)[i := c]\<rparr>"

inductive cache_step :: "nat \<Rightarrow> 'p shared \<Rightarrow> 'p shared \<Rightarrow> bool" for max_size where
  start: "i < length (sh_callers s) \<Longrightarrow> sh_callers s ! i = Idle \<or> sh_callers s ! i = Returned h0 p0 \<Longrightarrow>
    cache_step max_size s (set_caller i (Looking h p) s)"
| hit: "i < length (sh_callers s) \<Longrightarrow> sh_callers s ! i = Looking h p \<Longrightarrow> sh_map s h = Some q \<Longrightarrow>
    cache_step max_size s (set_caller i (Returned h q) s)"
| miss: "i < length (sh_callers s) \<Longrightarrow> sh_callers s ! i = Looking h p \<Longrightarrow> sh_map s h = None \<Longrightarrow>
    cache_step max_size s (set_caller i (Checking h p) s)"
| full: "i < length (sh_callers s) \<Longrightarrow> sh_callers s ! i = Checking h p \<Longrightarrow>
    card (dom (sh_map s)) \<ge> max_size \<Longrightarrow> max_size > 0 \<Longrightarrow>
    cache_step max_size s (set_caller i (Evicting h p) s)"
| room: "i < length (sh_callers s) \<Longrightarrow> sh_callers s ! i = Checking h p \<Longrightarrow>
    \<not> (card (dom (sh_map s)) \<ge> max_size \<and> max_size > 0) \<Longrightarrow>
    cache_step max_size s (set_caller i (Inserting h p) s)"
| evict: "i < length (sh_callers s) \<Longrightarrow> sh_callers s ! i = Evicting h p \<Longrightarrow> k \<in> dom (sh_map s) \<Longrightarrow>
    cache_step max_size s (set_caller i (Inserting h p) (s\<lparr>sh_map := (sh_map s)(k := None)\<rparr>))"
| none_left: "i < length (sh_callers s) \<Longrightarrow> sh_callers s ! i = Evicting h p \<Longrightarrow> sh_map s = Map.empty \<Longrightarrow>
    cache_step max_size s (set_caller i (Inserting h p) s)"
| insert: "i < length (sh_callers s) \<Longrightarrow> sh_callers s ! i = Inserting h p \<Longrightarrow>
    cache_step max_size s (set_caller i (Returned h p)
      (s\<lparr>sh_map := (sh_map s)(h \<mapsto> p), sh_built := insert (h, p) (sh_built s)\<rparr>))"
| clear: "cache_step max_size s (s\<lparr>sh_map := Map.empty\<rparr>)"

text \<open>\<open>n\<close> callers and an empty cache.\<close>

definition shared_new :: "nat \<Rightarrow> 'p shared" where
  "shared_new n = \<lparr>sh_map = Map.empty, sh_callers = replicate n Idle, sh_built = {}\<rparr>"

abbreviation cache_run :: "nat \<Rightarrow> 'p shared \<Rightarrow> 'p shared \<Rightarrow> bool" where
  "cache_run max_size \<equiv> (cache_step max_size)\<^sup>*\<^sup>*"

section \<open>One call at a time\<close>

lemma retain_kept: "retain evict_first True es = es"
  by (induction es) (auto simp: evict_first_def)

lemma retain_evict: "retain evict_first False es = tl es"
  by (cases es) (auto simp: evict_first_def retain_kept)

lemma tl_map_of:
  "distinct (map fst es) \<Longrightarrow> map_of (tl es) = (case es of [] \<Rightarrow> Map.empty | e # _ \<Rightarrow> (map_of es)(fst e := None))"
  by (cases es) (auto simp: fun_eq_iff map_of_eq_None_iff image_iff)

definition cache_wf :: "'p plan_cache \<Rightarrow> bool" where
  "cache_wf c \<longleftrightarrow> distinct (map fst (pc_inner c))"

lemma mset_visit:
  assumes "\<And>es. mset (visit es) = mset es" and "distinct (map fst es)"
  shows "distinct (map fst (visit es))" and "length (visit es) = length es" and "set (visit es) = set es"
    and "map_of (visit es) = map_of es"
proof -
  show "distinct (map fst (visit es))"
    using assms by (metis mset_eq_imp_distinct_iff mset_map)
  show "length (visit es) = length es" using assms(1) by (metis size_mset)
  show "set (visit es) = set es" using assms(1) by (metis set_mset_mset)
  then show "map_of (visit es) = map_of es"
    using map_of_inject_set [OF \<open>distinct (map fst (visit es))\<close> assms(2)] by blast
qed

text \<open>The entries that remain when room has been made.\<close>

lemma evicted_entries:
  assumes "\<And>es. mset (visit es) = mset es" and "distinct (map fst es)"
  defines "rest \<equiv> retain evict_first False (visit es)"
  shows "distinct (map fst rest)" and "length rest = length es - 1" and "set rest \<subseteq> set es"
    and "es \<noteq> [] \<Longrightarrow> \<exists>k \<in> dom (map_of es). map_of rest = (map_of es)(k := None)"
proof -
  note v = mset_visit [OF assms(1,2)]
  show "distinct (map fst rest)" using v(1) by (simp add: rest_def retain_evict map_tl distinct_tl)
  show "length rest = length es - 1" using v(2) by (simp add: rest_def retain_evict)
  show "set rest \<subseteq> set es" using v(3) by (simp add: rest_def retain_evict) (metis list.set_sel(2) subsetI tl_Nil)
  assume "es \<noteq> []"
  then obtain e es' where e: "visit es = e # es'" using v(2) by (cases "visit es") auto
  have "map_of rest = (map_of es)(fst e := None)"
    unfolding rest_def retain_evict tl_map_of [OF v(1)] v(4) by (simp add: e)
  moreover have "fst e \<in> dom (map_of es)" using v(3) e by (auto simp: dom_map_of_conv_image_fst)
  ultimately show "\<exists>k \<in> dom (map_of es). map_of rest = (map_of es)(k := None)" by blast
qed


lemma assoc_insert_new: "map_of m k = None \<Longrightarrow> length (assoc_insert k v m) = Suc (length m)"
  by (induction m) auto

lemma get_or_plan_hit:
  "map_of (pc_inner c) h = Some p \<Longrightarrow> get_or_plan visit c h mk = (c, p, False)"
  by (simp add: get_or_plan_def)

text \<open>A miss: the entries left after eviction, and the new one.\<close>

lemma get_or_plan_miss:
  assumes "\<And>es. mset (visit es) = mset es" and "cache_wf c" and "map_of (pc_inner c) h = None"
  obtains rest where "get_or_plan visit c h mk = (c\<lparr>pc_inner := assoc_insert h (mk ()) rest\<rparr>, mk (), True)"
    and "distinct (map fst rest)" and "set rest \<subseteq> set (pc_inner c)" and "map_of rest h = None"
    and "length rest = (if length (pc_inner c) \<ge> pc_max_size c \<and> pc_max_size c > 0
           then length (pc_inner c) - 1 else length (pc_inner c))"
proof (cases "length (pc_inner c) \<ge> pc_max_size c \<and> pc_max_size c > 0")
  case True
  note e = evicted_entries [OF assms(1) assms(2) [unfolded cache_wf_def]]
  have "map_of (retain evict_first False (visit (pc_inner c))) h = None"
    using assms(3) e(3) by (auto simp: map_of_eq_None_iff)
  with True e(1-3) assms(3) show ?thesis by (intro that) (auto simp: get_or_plan_def Let_def)
next
  case False
  with assms show ?thesis by (intro that [of "pc_inner c"]) (auto simp: get_or_plan_def cache_wf_def Let_def)
qed

section \<open>The bound for several callers\<close>

definition inserting :: "'p caller \<Rightarrow> bool" where
  "inserting c \<longleftrightarrow> (case c of Inserting _ _ \<Rightarrow> True | _ \<Rightarrow> False)"

definition pending :: "'p shared \<Rightarrow> nat" where
  "pending s = length (filter inserting (sh_callers s))"

lemma pending_set:
  assumes "i < length (sh_callers s)"
  shows "pending (set_caller i c s) + (if inserting (sh_callers s ! i) then 1 else 0) =
    pending s + (if inserting c then 1 else 0)"
proof -
  obtain xs x ys where cs: "sh_callers s = xs @ x # ys" and i: "i = length xs"
    using id_take_nth_drop [OF assms] assms by (metis length_take less_imp_le min.absorb2)
  show ?thesis by (auto simp: pending_def set_caller_def cs i)
qed

lemma pending_le: "pending s \<le> length (sh_callers s)"
  by (simp add: pending_def)

text \<open>What every reachable state satisfies: the number of callers is fixed, what is cached and
  what was returned was built for its hash, and the entries present and about to be inserted are
  at most one less than the capacity and the number of callers together.\<close>

definition shared_inv :: "nat \<Rightarrow> nat \<Rightarrow> 'p shared \<Rightarrow> bool" where
  "shared_inv max_size n s \<longleftrightarrow>
     length (sh_callers s) = n \<and> finite (dom (sh_map s)) \<and>
     (\<forall>h p. sh_map s h = Some p \<longrightarrow> (h, p) \<in> sh_built s) \<and>
     (\<forall>h p. Returned h p \<in> set (sh_callers s) \<longrightarrow> (h, p) \<in> sh_built s) \<and>
     card (dom (sh_map s)) + pending s \<le> max_size - 1 + n"

lemma shared_invD:
  assumes "shared_inv max_size n s"
  shows "length (sh_callers s) = n" and "finite (dom (sh_map s))"
    and "\<And>h p. sh_map s h = Some p \<Longrightarrow> (h, p) \<in> sh_built s"
    and "\<And>h p. Returned h p \<in> set (sh_callers s) \<Longrightarrow> (h, p) \<in> sh_built s"
    and "card (dom (sh_map s)) + pending s \<le> max_size - 1 + n"
  using assms by (auto simp: shared_inv_def)

lemma set_caller_simps [simp]:
  "sh_map (set_caller i c s) = sh_map s" "sh_built (set_caller i c s) = sh_built s"
  "length (sh_callers (set_caller i c s)) = length (sh_callers s)"
  by (simp_all add: set_caller_def)

lemma set_caller_in: "x \<in> set (sh_callers (set_caller i c s)) \<Longrightarrow> x = c \<or> x \<in> set (sh_callers s)"
  by (auto simp: set_caller_def dest: set_update_subset_insert [THEN subsetD])

text \<open>A step that moves one caller keeps the invariant when its new state obeys it.\<close>

lemma shared_inv_move:
  assumes "shared_inv max_size n s" and "i < length (sh_callers s)"
    and "\<And>h p. c = Returned h p \<Longrightarrow> (h, p) \<in> B" and "sh_built s \<subseteq> B"
    and "finite (dom m)" and "\<And>h p. m h = Some p \<Longrightarrow> (h, p) \<in> B"
    and "card (dom m) + pending (set_caller i c s) \<le> max_size - 1 + n"
  shows "shared_inv max_size n (set_caller i c (s\<lparr>sh_map := m, sh_built := B\<rparr>))"
proof -
  note D = shared_invD [OF assms(1)]
  have "pending (set_caller i c (s\<lparr>sh_map := m, sh_built := B\<rparr>)) = pending (set_caller i c s)"
    by (simp add: pending_def set_caller_def)
  moreover have "(h, p) \<in> B" if "Returned h p \<in> set (sh_callers (set_caller i c s))" for h p
    using set_caller_in [OF that] assms(3,4) D(4) by auto
  then have "(h, p) \<in> B" if "Returned h p \<in> set (sh_callers (set_caller i c (s\<lparr>sh_map := m, sh_built := B\<rparr>)))" for h p
    using that by (simp add: set_caller_def)
  ultimately show ?thesis using assms D(1) by (auto simp: shared_inv_def)
qed

lemma shared_inv_move_only:
  assumes "shared_inv max_size n s" and "i < length (sh_callers s)"
    and "\<And>h p. c = Returned h p \<Longrightarrow> (h, p) \<in> sh_built s"
    and "card (dom (sh_map s)) + pending (set_caller i c s) \<le> max_size - 1 + n"
  shows "shared_inv max_size n (set_caller i c s)"
proof -
  note D = shared_invD [OF assms(1)]
  have "shared_inv max_size n (set_caller i c (s\<lparr>sh_map := sh_map s, sh_built := sh_built s\<rparr>))"
    by (rule shared_inv_move [OF assms(1,2)]) (use assms D in auto)
  then show ?thesis by simp
qed

lemma shared_inv_step:
  assumes "cache_step max_size s t" and "0 < max_size" and "shared_inv max_size n s"
  shows "shared_inv max_size n t"
  using assms
proof (induction rule: cache_step.induct)
  case (start i s h0 p0 h p)
  with pending_set [of i s "Looking h p"] shared_invD(5) [OF start(4)] show ?case
    by (intro shared_inv_move_only) (auto simp: inserting_def)
next
  case (hit i s h p q)
  with pending_set [of i s "Returned h q"] shared_invD [OF hit(5)] show ?case
    by (intro shared_inv_move_only) (auto simp: inserting_def)
next
  case (miss i s h p)
  with pending_set [of i s "Checking h p"] shared_invD(5) [OF miss(5)] show ?case
    by (intro shared_inv_move_only) (auto simp: inserting_def)
next
  case (full i s h p)
  with pending_set [of i s "Evicting h p"] shared_invD(5) [OF full(6)] show ?case
    by (intro shared_inv_move_only) (auto simp: inserting_def)
next
  case (room i s h p)
  have "pending (set_caller i (Inserting h p) s) \<le> n"
    using pending_le [of "set_caller i (Inserting h p) s"] shared_invD(1) [OF room(5)] by simp
  with room show ?case by (intro shared_inv_move_only) auto
next
  case (evict i s h p k)
  note D = shared_invD [OF evict(5)]
  have "card (dom ((sh_map s)(k := None))) = card (dom (sh_map s)) - 1" "card (dom (sh_map s)) > 0"
    using evict(3) D(2) by (auto simp: card_gt_0_iff)
  with pending_set [of i s "Inserting h p"] evict(1,2) D(5)
  have "card (dom ((sh_map s)(k := None))) + pending (set_caller i (Inserting h p) s) \<le> max_size - 1 + n"
    by (simp add: inserting_def)
  then have "shared_inv max_size n (set_caller i (Inserting h p) (s\<lparr>sh_map := (sh_map s)(k := None), sh_built := sh_built s\<rparr>))"
    using evict(1,5) D(2,3) by (intro shared_inv_move) (auto split: if_splits)
  then show ?case by simp
next
  case (none_left i s h p)
  have "pending (set_caller i (Inserting h p) s) \<le> n"
    using pending_le [of "set_caller i (Inserting h p) s"] shared_invD(1) [OF none_left(5)] by simp
  with none_left show ?case by (intro shared_inv_move_only) auto
next
  case (insert i s h p)
  note D = shared_invD [OF insert(4)]
  have "card (dom ((sh_map s)(h \<mapsto> p))) \<le> Suc (card (dom (sh_map s)))"
    using D(2) by (simp add: card_insert_if)
  with pending_set [of i s "Returned h p"] insert(1,2) D(5)
  have "card (dom ((sh_map s)(h \<mapsto> p))) + pending (set_caller i (Returned h p) s) \<le> max_size - 1 + n"
    by (simp add: inserting_def)
  with insert(1,4) D(2,3) show ?case by (intro shared_inv_move) (auto split: if_splits)
next
  case (clear s)
  then show ?case by (auto simp: shared_inv_def pending_def)
qed

lemma shared_inv_run:
  assumes "cache_run max_size (shared_new n) s" and "0 < max_size"
  shows "shared_inv max_size n s"
  using assms(1)
proof (induction rule: rtranclp_induct)
  case base
  show ?case by (simp add: shared_inv_def shared_new_def pending_def inserting_def)
next
  case (step s t)
  then show ?case using shared_inv_step assms(2) by blast
qed


text \<open>A sequential call is a run of its caller alone.\<close>

lemma run_step: "cache_run M s t \<Longrightarrow> cache_step M t u \<Longrightarrow> cache_run M s u"
  by (rule rtranclp.rtrancl_into_rtrancl)

lemma set_caller_again [simp]:
  "set_caller i c (set_caller i d s) = set_caller i c s"
  "(set_caller i c s)\<lparr>sh_map := m\<rparr> = set_caller i c (s\<lparr>sh_map := m\<rparr>)"
  "(set_caller i c s)\<lparr>sh_built := B\<rparr> = set_caller i c (s\<lparr>sh_built := B\<rparr>)"
  by (simp_all add: set_caller_def)

lemma set_caller_nth [simp]: "i < length (sh_callers s) \<Longrightarrow> sh_callers (set_caller i c s) ! i = c"
  by (simp add: set_caller_def)

lemma started_run:
  assumes "i < length (sh_callers s)" and "sh_callers s ! i = Idle"
  shows "cache_run M s (set_caller i (Looking h p) s)"
  using assms by (intro r_into_rtranclp cache_step.start) auto

lemma looked_up_run:
  assumes "i < length (sh_callers s)" and "sh_callers s ! i = Idle" and "sh_map s h = None"
  shows "cache_run M s (set_caller i (Checking h p) s)"
  using run_step [OF started_run [OF assms(1,2)] miss [of i "set_caller i (Looking h p) s" h p M]] assms by simp

lemma inserted_run:
  assumes "i < length (sh_callers s)"
  shows "cache_run M (set_caller i (Inserting h p) s)
    (set_caller i (Returned h p) (s\<lparr>sh_map := (sh_map s)(h \<mapsto> p), sh_built := insert (h, p) (sh_built s)\<rparr>))"
  using cache_step.insert [of i "set_caller i (Inserting h p) s" h p M] assms by auto

theorem get_or_plan_run:
  assumes "\<And>es. mset (visit es) = mset es" and "cache_wf c"
    and "i < length (sh_callers s)" and "sh_callers s ! i = Idle" and "sh_map s = map_of (pc_inner c)"
    and "get_or_plan visit c h mk = (c', p, called)"
  shows "\<exists>m B. cache_run (pc_max_size c) s (set_caller i (Returned h p) (s\<lparr>sh_map := m, sh_built := B\<rparr>)) \<and>
    m = map_of (pc_inner c')"
proof (cases "map_of (pc_inner c) h")
  case (Some q)
  then have q: "c' = c" "p = q" using assms(6) by (simp_all add: get_or_plan_def)
  have "cache_run (pc_max_size c) s (set_caller i (Returned h q) s)"
    using run_step [OF started_run [OF assms(3,4)] hit [of i "set_caller i (Looking h q) s" h q q]] assms Some by simp
  moreover have "s = s\<lparr>sh_map := map_of (pc_inner c), sh_built := sh_built s\<rparr>" using assms(5) [symmetric] by simp
  ultimately show ?thesis unfolding q by metis
next
  case None
  let ?M = "pc_max_size c" and ?es = "pc_inner c" and ?p = "mk ()"
  have card: "card (dom (sh_map s)) = length ?es"
    using assms(2,5) by (simp add: cache_wf_def dom_map_of_conv_image_fst) (metis distinct_card length_map list.set_map)
  have checked: "cache_run ?M s (set_caller i (Checking h ?p) s)" using looked_up_run assms(3-5) None by metis
  show ?thesis
  proof (cases "length ?es \<ge> ?M \<and> ?M > 0")
    case True
    note e = evicted_entries [OF assms(1) assms(2) [unfolded cache_wf_def]]
    have "?es \<noteq> []" using True by auto
    from e(4) [OF this] obtain k
      where k: "k \<in> dom (map_of ?es)" "map_of (retain evict_first False (visit ?es)) = (map_of ?es)(k := None)" by blast
    have c': "map_of (pc_inner c') = (map_of ?es)(k := None, h \<mapsto> ?p)" "p = ?p"
      using assms(6) None True k(2) by (auto simp: get_or_plan_def Let_def)
    have "cache_run ?M s (set_caller i (Evicting h ?p) s)"
      using run_step [OF checked full [of i "set_caller i (Checking h ?p) s" h ?p]] assms(3) card True by simp
    from run_step [OF this evict [of i "set_caller i (Evicting h ?p) s" h ?p k]]
    have "cache_run ?M s (set_caller i (Inserting h ?p) (s\<lparr>sh_map := (map_of ?es)(k := None)\<rparr>))"
      using assms(3,5) k(1) by simp
    from rtranclp_trans [OF this inserted_run [of i "s\<lparr>sh_map := (map_of ?es)(k := None)\<rparr>" ?M h ?p]] assms(3) c'
    show ?thesis by auto
  next
    case False
    have c': "map_of (pc_inner c') = (map_of ?es)(h \<mapsto> ?p)" "p = ?p"
      using assms(6) None False by (auto simp: get_or_plan_def Let_def)
    have "cache_run ?M s (set_caller i (Inserting h ?p) s)"
      using run_step [OF checked room [of i "set_caller i (Checking h ?p) s" h ?p ?M]] assms(3) card False by simp
    from rtranclp_trans [OF this inserted_run [of i s ?M h ?p]] assms(3,5) c' show ?thesis by auto
  qed
qed

section \<open>Properties\<close>

text \<open>C23: the plan cache under concurrency. With a positive capacity and \<open>n\<close> callers whose calls
  interleave in any order, the cache never holds more than \<open>n - 1\<close> plans beyond its capacity
  (so a single caller never exceeds it), every plan in it was built for the hash it is filed
  under, and so was every plan a call returned.\<close>

theorem plan_cache_bounded:
  assumes "cache_run max_size (shared_new n) s" and "0 < max_size"
  shows "card (dom (sh_map s)) \<le> max_size - 1 + n \<and>
    (\<forall>h p. sh_map s h = Some p \<longrightarrow> (h, p) \<in> sh_built s) \<and>
    (\<forall>h p. Returned h p \<in> set (sh_callers s) \<longrightarrow> (h, p) \<in> sh_built s)"
  using shared_invD(3-5) [OF shared_inv_run [OF assms]] by (auto intro: order_trans)

text \<open>Two callers that both see room in a cache of one: the bound is met.\<close>

definition race :: "nat shared" where
  "race = \<lparr>sh_map = [1 \<mapsto> 10, 2 \<mapsto> 20], sh_callers = [Returned 1 10, Returned 2 20], sh_built = {(1, 10), (2, 20)}\<rparr>"

lemma race_run: "cache_run 1 (shared_new 2) race"
proof -
  let ?s = "shared_new 2 :: nat shared"
  have len: "length (sh_callers ?s) = 2" by (simp add: shared_new_def)
  have map: "sh_map ?s = Map.empty" and built: "sh_built ?s = {}" by (simp_all add: shared_new_def)
  have idle: "sh_callers ?s ! 0 = Idle" "sh_callers ?s ! 1 = Idle" by (simp_all add: shared_new_def)
  let ?a = "set_caller 0 (Checking 1 10) ?s"
  let ?b = "set_caller 1 (Checking 2 20) ?a"
  have a: "cache_run 1 ?s ?a" using len map idle by (intro looked_up_run) auto
  have "sh_callers ?a ! 1 = Idle" using idle by (simp add: set_caller_def)
  then have b: "cache_run 1 ?a ?b" using len map by (intro looked_up_run) auto
  let ?c = "set_caller 0 (Inserting 1 10) ?b"
  let ?d = "set_caller 1 (Inserting 2 20) ?c"
  have "sh_callers ?b ! 0 = Checking 1 10" by (simp add: set_caller_def shared_new_def)
  then have c: "cache_step 1 ?b ?c" using len map by (intro room) auto
  have "sh_callers ?c ! 1 = Checking 2 20" by (simp add: set_caller_def shared_new_def)
  then have d: "cache_step 1 ?c ?d" using len map by (intro room) auto
  have "?d = set_caller 0 (Inserting 1 10) ?d" by (simp add: set_caller_def shared_new_def numeral_2_eq_2)
  then have "cache_run 1 ?d (set_caller 0 (Returned 1 10) (?d\<lparr>sh_map := (sh_map ?d)(1 \<mapsto> 10), sh_built := insert (1, 10) (sh_built ?d)\<rparr>))"
    using inserted_run [of 0 ?d 1 1 10] len by simp
  moreover let ?e = "set_caller 0 (Returned 1 10) (?d\<lparr>sh_map := (sh_map ?d)(1 \<mapsto> 10), sh_built := insert (1, 10) (sh_built ?d)\<rparr>)"
  have "?e = set_caller 1 (Inserting 2 20) ?e" by (simp add: set_caller_def shared_new_def numeral_2_eq_2)
  then have "cache_run 1 ?e (set_caller 1 (Returned 2 20) (?e\<lparr>sh_map := (sh_map ?e)(2 \<mapsto> 20), sh_built := insert (2, 20) (sh_built ?e)\<rparr>))"
    using inserted_run [of 1 ?e 1 2 20] len by simp
  moreover have "set_caller 1 (Returned 2 20) (?e\<lparr>sh_map := (sh_map ?e)(2 \<mapsto> 20), sh_built := insert (2, 20) (sh_built ?e)\<rparr>) = race"
    by (auto simp: set_caller_def shared_new_def race_def numeral_2_eq_2)
  ultimately show ?thesis using a b c d
    by (metis (no_types, lifting) rtranclp.rtrancl_into_rtrancl rtranclp_trans)
qed

theorem plan_cache_bounded_witness:
  "cache_run 1 (shared_new 2) race \<and> card (dom (sh_map race)) = 2 \<and> card (dom (sh_map race)) \<le> 1 - 1 + 2"
  using plan_cache_bounded [OF race_run] race_run by (simp add: race_def)

text \<open>One call. The first call for a hash builds its plan and files it, every later one returns
  that plan without building; a call evicts at most one entry, adds none but its own and keeps
  the cache within its capacity.\<close>

theorem get_or_plan_correct:
  assumes "\<And>es. mset (visit es) = mset es" and "cache_wf c" and "0 < pc_max_size c" and "cache_len c \<le> pc_max_size c"
    and "get_or_plan visit c h mk = (c', p, called)"
  shows "cache_wf c' \<and> cache_len c' \<le> pc_max_size c' \<and> pc_max_size c' = pc_max_size c \<and>
    called = (map_of (pc_inner c) h = None) \<and> p = (if called then mk () else the (map_of (pc_inner c) h)) \<and>
    set (pc_inner c') \<subseteq> insert (h, p) (set (pc_inner c)) \<and> cache_len c \<le> cache_len c' \<and>
    get_or_plan visit' c' h mk' = (c', p, False)"
proof (cases "map_of (pc_inner c) h")
  case (Some q)
  with assms show ?thesis by (auto simp: get_or_plan_def)
next
  case None
  obtain rest where g: "get_or_plan visit c h mk = (c\<lparr>pc_inner := assoc_insert h (mk ()) rest\<rparr>, mk (), True)"
    and rest: "distinct (map fst rest)" "set rest \<subseteq> set (pc_inner c)" "map_of rest h = None"
      "length rest = (if length (pc_inner c) \<ge> pc_max_size c \<and> pc_max_size c > 0
         then length (pc_inner c) - 1 else length (pc_inner c))"
    by (rule get_or_plan_miss [OF assms(1,2) None])
  have c': "c' = c\<lparr>pc_inner := assoc_insert h p rest\<rparr>" "p = mk ()" "called" using assms(5) g by auto
  have "set (assoc_insert h p rest) \<subseteq> insert (h, p) (set rest)" by (induction rest) (auto split: if_splits)
  then have "set (pc_inner c') \<subseteq> insert (h, p) (set (pc_inner c))" using rest(2) by (auto simp: c')
  moreover have "length (assoc_insert h p rest) \<le> pc_max_size c" "length (pc_inner c) \<le> length (assoc_insert h p rest)"
    using rest(3,4) assms(3,4) by (auto simp: assoc_insert_new cache_len_def)
  moreover have "get_or_plan visit' c' h mk' = (c', p, False)" by (rule get_or_plan_hit) (simp add: c')
  ultimately show ?thesis
    using rest(1) None by (simp add: c' cache_wf_def cache_len_def distinct_assoc_insert)
qed

theorem get_or_plan_correct_witness:
  "get_or_plan rev \<lparr>pc_inner = [(1, ''a''), (2, ''b'')], pc_max_size = 2\<rparr> 3 (\<lambda>_. ''c'') =
     (\<lparr>pc_inner = [(1, ''a''), (3, ''c'')], pc_max_size = 2\<rparr>, ''c'', True) \<and>
   get_or_plan rev \<lparr>pc_inner = [(1, ''a''), (3, ''c'')], pc_max_size = 2\<rparr> 3 (\<lambda>_. ''d'') =
     (\<lparr>pc_inner = [(1, ''a''), (3, ''c'')], pc_max_size = 2\<rparr>, ''c'', False)"
proof -
  let ?c = "\<lparr>pc_inner = [(1, ''a''), (2, ''b'')], pc_max_size = 2\<rparr>" and ?c' = "\<lparr>pc_inner = [(1, ''a''), (3, ''c'')], pc_max_size = 2\<rparr>"
  have g: "get_or_plan rev ?c 3 (\<lambda>_. ''c'') = (?c', ''c'', True)"
    by (simp add: get_or_plan_def evict_first_def Let_def)
  have "cache_wf ?c" "0 < pc_max_size ?c" "cache_len ?c \<le> pc_max_size ?c" by (simp_all add: cache_wf_def cache_len_def)
  from get_or_plan_correct [OF _ this g, of rev "\<lambda>_. ''d''"] g show ?thesis by simp
qed

text \<open>A capacity of zero switches the bound off: nothing is ever evicted.\<close>

fun plan_all :: "64 word list \<Rightarrow> 64 word plan_cache \<Rightarrow> 64 word plan_cache" where
  "plan_all [] c = c"
| "plan_all (h # hs) c = plan_all hs (fst (get_or_plan id c h (\<lambda>_. h)))"

lemma plan_all_unbounded:
  assumes "pc_max_size c = 0" and "distinct hs" and "set hs \<inter> fst ` set (pc_inner c) = {}"
  shows "cache_len (plan_all hs c) = cache_len c + length hs"
  using assms
proof (induction hs arbitrary: c)
  case (Cons h hs)
  have "map_of (pc_inner c) h = None" using Cons.prems(3) by (auto simp: map_of_eq_None_iff)
  then have g: "get_or_plan id c h (\<lambda>_. h) = (c\<lparr>pc_inner := assoc_insert h h (pc_inner c)\<rparr>, h, True)"
    and l: "length (assoc_insert h h (pc_inner c)) = Suc (cache_len c)"
    using Cons.prems(1) by (simp_all add: get_or_plan_def assoc_insert_new cache_len_def)
  have "fst ` set (assoc_insert h h m) = insert h (fst ` set m)" for m :: "(64 word \<times> 64 word) list"
    using arg_cong [OF keys_assoc_insert [of h h m], of set] by (auto split: if_splits)
  then have "cache_len (plan_all hs (c\<lparr>pc_inner := assoc_insert h h (pc_inner c)\<rparr>)) = Suc (cache_len c) + length hs"
    using Cons.prems Cons.IH [of "c\<lparr>pc_inner := assoc_insert h h (pc_inner c)\<rparr>"] l
    by (simp add: cache_len_def)
  with g show ?case by simp
qed simp

theorem zero_capacity_unbounded:
  assumes "distinct hs"
  shows "cache_len (plan_all hs (plan_cache_new 0)) = length hs"
  using plan_all_unbounded [of "plan_cache_new 0" hs] assms by (simp add: plan_cache_new_def cache_len_def)

text \<open>The key of the cache. Documents with the same words have one key; that is more than
  documents that differ in insignificant white space only: a line break that ends a comment is
  taken for a blank, so a document with one field and one with two share a key.\<close>

lemma hash_operation_words:
  "split_whitespace d = split_whitespace e \<Longrightarrow> hash_operation hasher d n = hash_operation hasher e n"
  by (simp add: hash_operation_def normalize_operation_def)

lemma normalize_idem: "normalize_operation (normalize_operation d) = normalize_operation d"
  by (simp add: normalize_operation_def split_whitespace_idem)

definition two_fields :: string where
  "two_fields = ''{ a #'' @ [CHR 0x0A] @ '' b'' @ [CHR 0x0A] @ ''}''"

definition one_field :: string where
  "one_field = ''{ a # b'' @ [CHR 0x0A] @ ''}''"

fun root_fields :: "document \<Rightarrow> nat" where
  "root_fields doc = length (filter (\<lambda>n. case n of NSelection _ \<Rightarrow> True | _ \<Rightarrow> False) (doc_nodes doc))"

theorem comment_documents_share_key:
  "hash_operation hasher two_fields n = hash_operation hasher one_field n \<and>
   map_option (map_sum id root_fields) (parse_executable_document two_fields) = Some (Inr 2) \<and>
   map_option (map_sum id root_fields) (parse_executable_document one_field) = Some (Inr 1)"
proof -
  have "split_whitespace two_fields = split_whitespace one_field" by code_simp
  moreover have "map_option (map_sum id root_fields) (parse_executable_document two_fields) = Some (Inr 2)" by code_simp
  moreover have "map_option (map_sum id root_fields) (parse_executable_document one_field) = Some (Inr 1)" by code_simp
  ultimately show ?thesis using hash_operation_words by blast
qed

end
