(* ===== verification/Serv_Request.thy ===== *)
theory Serv_Request
  imports Build_Exec Serv_Cache Config_Preset
begin

text \<open>
  The request path of \<^verbatim>\<open>magna-serv\<close>: tokens (\<^verbatim>\<open>jwt.rs\<close>), the schema registry (\<^verbatim>\<open>schema_registry.rs\<close>), the
  application
  state (\<^verbatim>\<open>state.rs\<close>), the HTTP handler (\<^verbatim>\<open>handler.rs\<close>) and the WebSocket handler
  (\<^verbatim>\<open>ws.rs\<close>). Checking a signature and the expiry is the parameter \<open>tk_verify\<close> (\<^verbatim>\<open>jsonwebtoken\<close>), reading the
  bytes of a header as text is the parameter \<open>header_str\<close> (\<^verbatim>\<open>HeaderValue::to_str\<close>), JSON is \<open>js_val\<close> with
  its printer and parser as in \<open>Build_Exec\<close>, and a schema is opaque: what it does with a request is the
  parameter \<open>run\<close>. The schema generations live in a memory of reference-counted cells that the
  registry and the requests in flight share.
\<close>

section \<open>Errors and tokens\<close>

datatype serv_error =
    JwtError string
  | DatabaseError string
  | SchemaError string
  | WebSocketError string
  | ConfigError string

fun serv_error_display :: "serv_error \<Rightarrow> string" where
  "serv_error_display (JwtError e) = ''JWT validation failed: '' @ e"
| "serv_error_display (DatabaseError e) = ''Database error: '' @ e"
| "serv_error_display (SchemaError e) = ''Schema registry error: '' @ e"
| "serv_error_display (WebSocketError e) = ''WebSocket error: '' @ e"
| "serv_error_display (ConfigError e) = ''Configuration error: '' @ e"

definition extract_bearer_token :: "string option \<Rightarrow> string option" where
  "extract_bearer_token header =
     (case header of
        None \<Rightarrow> None
      | Some h \<Rightarrow> (case strip_prefix ''Bearer '' h of Some token \<Rightarrow> Some token | None \<Rightarrow> Some h))"

definition parse_role :: "string \<Rightarrow> jwt_role" where
  "parse_role role =
     (if role = ''anon'' then Anon
      else if role = ''authenticated'' then Authenticated
      else if role = ''service_role'' then ServiceRole
      else Custom role)"

text \<open>\<^verbatim>\<open>serde_json::Value::get\<close>, and what \<^verbatim>\<open>as_i64\<close> gives of a number.\<close>

definition js_get :: "'n js_val \<Rightarrow> string \<Rightarrow> 'n js_val option" where
  "js_get v name = Option.bind (js_as_object v) (\<lambda>m. map_of m name)"

definition js_str :: "'n js_val \<Rightarrow> string \<Rightarrow> string option" where
  "js_str v name = Option.bind (js_get v name) js_as_str"

definition js_i64 :: "('n \<Rightarrow> 64 word option) \<Rightarrow> 'n js_val \<Rightarrow> 64 word option" where
  "js_i64 to_i64 v = (case v of JsNumber n \<Rightarrow> to_i64 n | _ \<Rightarrow> None)"

record 'n token_ext =
  tk_verify :: "string \<Rightarrow> string \<Rightarrow> string + 'n js_val"
  tk_as_i64 :: "'n \<Rightarrow> 64 word option"

definition or_else :: "'a option \<Rightarrow> 'a option \<Rightarrow> 'a option" where
  "or_else a b = (case a of None \<Rightarrow> b | Some x \<Rightarrow> Some x)"

definition decode_jwt :: "'n token_ext \<Rightarrow> ('t, 'n js_val) codec_ext \<Rightarrow> string option \<Rightarrow> string \<Rightarrow> string option \<Rightarrow>
    serv_error + 'n js_val jwt_claims" where
  "decode_jwt K X token secret dflt =
     (case token of
        None \<Rightarrow> Inr \<lparr>jc_sub = 0, jc_role = parse_role (unwrap_or dflt ''anon''), jc_email = None, jc_exp = 0,
                   jc_raw = JsObject []\<rparr>
      | Some token \<Rightarrow>
          (case tk_verify K secret token of
             Inl e \<Rightarrow> Inl (JwtError e)
           | Inr claims \<Rightarrow>
               Inr \<lparr>jc_sub = unwrap_or (Option.bind (js_str claims ''sub'') (uuid_parse X)) 0,
                    jc_role = parse_role (unwrap_or (or_else (js_str claims ''role'') dflt) ''anon''),
                    jc_email = js_str claims ''email'',
                    jc_exp = unwrap_or (Option.bind (js_get claims ''exp'') (js_i64 (tk_as_i64 K))) 0,
                    jc_raw = claims\<rparr>))"

section \<open>The schema registry\<close>

record 's schema_generation =
  sg_generation :: "64 word"
  sg_schema :: 's

text \<open>The memory of the \<^verbatim>\<open>Arc\<close>s: an address is the position of a cell, which holds a generation and its
  strong count; a count of zero is a cell that was freed. The registry is this memory with the
  address of the current generation; a lock is held for one operation.\<close>

record 's schema_registry =
  sr_arcs :: "('s schema_generation \<times> nat) list"
  sr_current :: nat

definition arc_get :: "'s schema_registry \<Rightarrow> nat \<Rightarrow> 's schema_generation" where
  "arc_get reg a = fst (sr_arcs reg ! a)"

definition arc_count :: "'s schema_registry \<Rightarrow> nat \<Rightarrow> nat" where
  "arc_count reg a = snd (sr_arcs reg ! a)"

definition arc_new :: "'s schema_generation \<Rightarrow> 's schema_registry \<Rightarrow> nat \<times> 's schema_registry" where
  "arc_new g reg = (length (sr_arcs reg), reg\<lparr>sr_arcs := sr_arcs reg @ [(g, 1)]\<rparr>)"

definition arc_clone :: "nat \<Rightarrow> 's schema_registry \<Rightarrow> nat \<times> 's schema_registry" where
  "arc_clone a reg = (a, reg\<lparr>sr_arcs := (sr_arcs reg)[a := (arc_get reg a, Suc (arc_count reg a))]\<rparr>)"

definition arc_drop :: "nat \<Rightarrow> 's schema_registry \<Rightarrow> 's schema_registry" where
  "arc_drop a reg = reg\<lparr>sr_arcs := (sr_arcs reg)[a := (arc_get reg a, arc_count reg a - 1)]\<rparr>"

definition schema_registry_new :: "'s \<Rightarrow> 's schema_registry" where
  "schema_registry_new schema =
     (case arc_new \<lparr>sg_generation = 1, sg_schema = schema\<rparr> \<lparr>sr_arcs = [], sr_current = 0\<rparr> of
        (gen, reg) \<Rightarrow> reg\<lparr>sr_current := gen\<rparr>)"

definition current_schema :: "'s schema_registry \<Rightarrow> nat \<times> 's schema_registry" where
  "current_schema reg = arc_clone (sr_current reg) reg"

text \<open>Assigning through the guard drops the pointer that was there.\<close>

definition schema_reload :: "'s schema_registry \<Rightarrow> 's \<Rightarrow> 's schema_registry" where
  "schema_reload reg new_schema =
     (let next_gen = sg_generation (arc_get reg (sr_current reg)) + 1 in
      case arc_new \<lparr>sg_generation = next_gen, sg_schema = new_schema\<rparr> reg of
        (gen, reg') \<Rightarrow> arc_drop (sr_current reg') (reg'\<lparr>sr_current := gen\<rparr>))"

definition registry_generation :: "'s schema_registry \<Rightarrow> 64 word" where
  "registry_generation reg = sg_generation (arc_get reg (sr_current reg))"

section \<open>The application state and the HTTP handler\<close>

record ('s, 'p) app_state =
  as_registry :: "'s schema_registry"
  as_plan_cache :: "'p plan_cache"
  as_jwt_secret :: string
  as_default_role :: "string option"

definition app_state_new :: "'s \<Rightarrow> 'm preset \<Rightarrow> ('s, 'p) app_state" where
  "app_state_new schema p =
     \<lparr>as_registry = schema_registry_new schema, as_plan_cache = plan_cache_new 512,
      as_jwt_secret = jwt_secret (preset_jwt p), as_default_role = default_role p\<rparr>"

text \<open>A response: errors only, or what the schema answered. \<open>run\<close> is given the schema, the request, the
  claims and the connection, and returns the statements it sent beside its answer. The handler alone,
  no reload between its steps: the application state afterwards, the statements and the response.\<close>

datatype 'resp response = ErrorResponse string | Answered 'resp

definition graphql_handler :: "('h \<Rightarrow> string option) \<Rightarrow> 'n token_ext \<Rightarrow> ('t, 'n js_val) codec_ext \<Rightarrow>
    ('s \<Rightarrow> 'req \<Rightarrow> 'n js_val jwt_claims \<Rightarrow> ('t, 'd, 'n js_val) database \<Rightarrow> ('t, 'n js_val) sent \<times> 'resp) \<Rightarrow>
    ('s, 'p) app_state \<Rightarrow> string + ('t, 'd, 'n js_val) database \<Rightarrow> 'h option \<Rightarrow> 'req \<Rightarrow>
    ('s, 'p) app_state \<times> ('t, 'n js_val) sent \<times> 'resp response" where
  "graphql_handler header_str K X run state acquired header req =
     (let auth_header = Option.bind header header_str in
      case decode_jwt K X (extract_bearer_token auth_header) (as_jwt_secret state) (as_default_role state) of
        Inl e \<Rightarrow> (state, [], ErrorResponse (serv_error_display e))
      | Inr claims \<Rightarrow>
          (case request_connection_new X acquired claims of
             (sent, Inl e) \<Rightarrow> (state, sent, ErrorResponse ''Database connection failed'')
           | (sent, Inr conn) \<Rightarrow>
               (case current_schema (as_registry state) of
                  (schema_gen, reg) \<Rightarrow>
                    (case run (sg_schema (arc_get reg schema_gen)) req claims conn of
                       (sent', resp) \<Rightarrow> (state\<lparr>as_registry := arc_drop schema_gen reg\<rparr>, sent @ sent', Answered resp)))))"

section \<open>WebSocket connections\<close>

abbreviation GRAPHQL_WS_PROTOCOL :: string where "GRAPHQL_WS_PROTOCOL \<equiv> ''graphql-ws''"

text \<open>\<open>False\<close>: the upgrade is refused with status 400.\<close>

definition ws_accepts :: "('h \<Rightarrow> string option) \<Rightarrow> 'h option \<Rightarrow> bool" where
  "ws_accepts header_str header =
     (let requested_protocol = unwrap_or (Option.bind header header_str) [] in
      \<not> list_ex (\<lambda>p. trim p = GRAPHQL_WS_PROTOCOL) (split_char CHR '','' requested_protocol))"

datatype ws_message = WsText string | WsClose | WsOther | WsFailed

definition ws_ack :: "'n js_val" where
  "ws_ack = JsObject [(''type'', JsString ''connection_ack'')]"

definition ws_complete :: "string \<Rightarrow> 'n js_val" where
  "ws_complete i = JsObject [(''id'', JsString i), (''type'', JsString ''complete'')]"

text \<open>What a parsed message is answered with.\<close>

definition ws_reply :: "'n js_val \<Rightarrow> 'n js_val option" where
  "ws_reply parsed =
     (let msg_type = unwrap_or (js_str parsed ''type'') [] in
      if msg_type = ''connection_init'' then Some ws_ack
      else if msg_type = ''subscribe'' then Some (ws_complete (unwrap_or (js_str parsed ''id'') []))
      else None)"

text \<open>The loop on the messages received; \<open>send_ok\<close> tells whether a send succeeds after those already
  sent. The result is what was sent.\<close>

fun handle_ws_connection :: "'n cursor_ext \<Rightarrow> (string list \<Rightarrow> bool) \<Rightarrow> ws_message list \<Rightarrow> string list \<Rightarrow> string list" where
  "handle_ws_connection J send_ok [] out = out"
| "handle_ws_connection J send_ok (WsFailed # ms) out = out"
| "handle_ws_connection J send_ok (WsClose # ms) out = out"
| "handle_ws_connection J send_ok (WsOther # ms) out = handle_ws_connection J send_ok ms out"
| "handle_ws_connection J send_ok (WsText text # ms) out =
     (case js_parse J text of
        None \<Rightarrow> handle_ws_connection J send_ok ms out
      | Some parsed \<Rightarrow>
          (case ws_reply parsed of
             None \<Rightarrow> handle_ws_connection J send_ok ms out
           | Some reply \<Rightarrow>
               if send_ok out then handle_ws_connection J send_ok ms (out @ [js_show J reply])
               else out))"

section \<open>Who a request runs as\<close>

lemma arc_clone_get: "arc_get (snd (arc_clone a reg)) b = arc_get reg b"
proof (cases "a < length (sr_arcs reg)")
  case True
  then show ?thesis by (cases "b = a") (simp_all add: arc_clone_def arc_get_def)
next
  case False
  then show ?thesis by (simp add: arc_clone_def arc_get_def not_less list_update_beyond)
qed

lemma arc_drop_clone: "arc_drop a (snd (arc_clone a reg)) = reg"
proof (cases "a < length (sr_arcs reg)")
  case True
  then show ?thesis by (simp add: arc_clone_def arc_drop_def arc_get_def arc_count_def)
next
  case False
  then show ?thesis by (simp add: arc_clone_def arc_drop_def arc_get_def arc_count_def not_less list_update_beyond)
qed

lemma role_parse_role [simp]: "role_as_str (parse_role s) = s"
  by (simp add: parse_role_def)

lemma js_get_empty [simp]: "js_str (JsObject []) name = None"
  by (simp add: js_str_def js_get_def)

text \<open>The role named by the claims, else the configured one, else \<open>anon\<close>.\<close>

definition caller_role :: "'n js_val \<Rightarrow> string option \<Rightarrow> string" where
  "caller_role cj dflt = (case js_str cj ''role'' of Some r \<Rightarrow> r | None \<Rightarrow> unwrap_or dflt ''anon'')"

text \<open>The caller: the \<open>sub\<close> of the claims when it is a string that reads as a UUID, else the nil UUID; and
  the other claims the code reads.\<close>

definition caller_sub :: "('t, 'n js_val) codec_ext \<Rightarrow> 'n js_val \<Rightarrow> 128 word" where
  "caller_sub X cj = (case js_str cj ''sub'' of None \<Rightarrow> 0 | Some s \<Rightarrow> (case uuid_parse X s of None \<Rightarrow> 0 | Some u \<Rightarrow> u))"

definition caller_exp :: "'n token_ext \<Rightarrow> 'n js_val \<Rightarrow> 64 word" where
  "caller_exp K cj = (case js_get cj ''exp'' of Some (JsNumber n) \<Rightarrow> (case tk_as_i64 K n of Some t \<Rightarrow> t | None \<Rightarrow> 0) | _ \<Rightarrow> 0)"

text \<open>Claims that may be attached to a request: the empty ones when there is no header, else those of the
  verified token.\<close>

definition authentic :: "'n token_ext \<Rightarrow> string \<Rightarrow> string option \<Rightarrow> 'n js_val \<Rightarrow> bool" where
  "authentic K key header cj \<longleftrightarrow>
     (case header of None \<Rightarrow> cj = JsObject []
      | Some h \<Rightarrow> \<exists>token. (h = ''Bearer '' @ token \<or> h = token \<and> (\<nexists>t. h = ''Bearer '' @ t)) \<and> tk_verify K key token = Inr cj)"

lemma extract_bearer_cases:
  "(case extract_bearer_token header of None \<Rightarrow> header = None
    | Some token \<Rightarrow> (\<exists>h. header = Some h \<and> (h = ''Bearer '' @ token \<or> h = token \<and> (\<nexists>t. h = ''Bearer '' @ t))))"
proof (cases header)
  case (Some h)
  show ?thesis
  proof (cases "strip_prefix ''Bearer '' h")
    case None
    then have "\<nexists>t. h = ''Bearer '' @ t" using strip_prefix_Some [of "''Bearer ''" h] by auto
    with None Some show ?thesis by (simp add: extract_bearer_token_def)
  next
    case (Some t)
    then show ?thesis using \<open>header = _\<close> strip_prefix_Some [of "''Bearer ''" h t]
      by (simp add: extract_bearer_token_def)
  qed
qed (simp add: extract_bearer_token_def)

lemma decode_jwt_claims:
  assumes "decode_jwt K X (extract_bearer_token header) key dflt = Inr claims"
  shows "authentic K key header (jc_raw claims)" and "role_as_str (jc_role claims) = caller_role (jc_raw claims) dflt"
    and "jc_sub claims = caller_sub X (jc_raw claims)" and "jc_email claims = js_str (jc_raw claims) ''email''"
    and "jc_exp claims = caller_exp K (jc_raw claims)"
proof -
  show "authentic K key header (jc_raw claims)"
    using assms extract_bearer_cases [of header]
    by (auto simp: decode_jwt_def authentic_def split: option.splits sum.splits)
  show "role_as_str (jc_role claims) = caller_role (jc_raw claims) dflt"
    using assms by (auto simp: decode_jwt_def caller_role_def or_else_def unwrap_or_def split: option.splits sum.splits)
  show "jc_sub claims = caller_sub X (jc_raw claims)" "jc_email claims = js_str (jc_raw claims) ''email''"
    using assms by (auto simp: decode_jwt_def caller_sub_def unwrap_or_def split: option.splits sum.splits)
  show "jc_exp claims = caller_exp K (jc_raw claims)"
    using assms by (auto simp: decode_jwt_def caller_exp_def js_i64_def js_get_def [of "JsObject []"] unwrap_or_def split: option.splits sum.splits js_val.splits)
qed

lemma request_connection_outcome:
  "request_connection_new X acquired claims =
     (case acquired of
        Inl e \<Rightarrow> ([], Inl (QDatabase e))
      | Inr conn \<Rightarrow> ([claims_statement X claims],
          case db_fetch_all conn (fst (claims_statement X claims)) (snd (claims_statement X claims)) of
            Inl e \<Rightarrow> Inl (QRlsError e) | Inr _ \<Rightarrow> Inr conn))"
  by (auto simp: request_connection_new_def apply_rls_context_def claims_statement_def Let_def split: sum.split)

text \<open>C8: who a request runs as. Whenever the handler lets the schema answer, the claims \<open>cj\<close> are those of a
  token verified under the configured secret, or empty for a request with no readable header; the
  first statement on the connection set exactly the three claims of the caller and was accepted: \<open>cj\<close>
  itself, its \<open>sub\<close> when that is a UUID and the nil UUID otherwise, and its role, else the configured
  one, else \<open>anon\<close>; the same values are the claims the schema is given; and the schema that answered
  is the current one, given this connection. Otherwise the schema does not run: an unverified token
  reaches no connection, and at most the claims statement was sent. The application state is left as
  it was. A header whose bytes are not visible ASCII counts as no header.\<close>

theorem requests_run_as_caller:
  fixes st :: "('s, 'p) app_state"
  shows "(case graphql_handler header_str K X run st acquired header req of
      (st', sent, Answered resp) \<Rightarrow> st' = st \<and>
        (\<exists>cj claims conn sent'. authentic K (as_jwt_secret st) (Option.bind header header_str) cj \<and>
          jc_raw claims = cj \<and> jc_sub claims = caller_sub X cj \<and>
          role_as_str (jc_role claims) = caller_role cj (as_default_role st) \<and>
          jc_email claims = js_str cj ''email'' \<and> jc_exp claims = caller_exp K cj \<and>
          acquired = Inr conn \<and>
          \<not> isl (db_fetch_all conn rls_sql
            [BText (json_show X cj), BText (uuid_show X (caller_sub X cj)), BText (caller_role cj (as_default_role st))]) \<and>
          sent = (rls_sql, [BText (json_show X cj), BText (uuid_show X (caller_sub X cj)),
                            BText (caller_role cj (as_default_role st))]) # sent' \<and>
          run (sg_schema (arc_get (as_registry st) (sr_current (as_registry st)))) req claims conn = (sent', resp))
    | (st', sent, ErrorResponse m) \<Rightarrow> st' = st \<and>
        (sent = [] \<or> (\<exists>cj. authentic K (as_jwt_secret st) (Option.bind header header_str) cj \<and>
           sent = [(rls_sql, [BText (json_show X cj), BText (uuid_show X (caller_sub X cj)),
                              BText (caller_role cj (as_default_role st))])])))"
proof (cases "decode_jwt K X (extract_bearer_token (Option.bind header header_str)) (as_jwt_secret st) (as_default_role st)")
  case (Inr claims)
  note c = decode_jwt_claims [OF Inr]
  have stmt: "claims_statement X claims = (rls_sql, [BText (json_show X (jc_raw claims)), BText (uuid_show X (caller_sub X (jc_raw claims))),
      BText (caller_role (jc_raw claims) (as_default_role st))])"
    by (simp add: claims_statement_def c(2,3))
  have clone: "arc_get (snd (current_schema reg)) a = arc_get reg a" "arc_drop (fst (current_schema reg)) (snd (current_schema reg)) = reg"
    "fst (current_schema reg) = sr_current reg" for reg :: "'s schema_registry" and a
proof -
    have fst: "fst (arc_clone b reg) = b" for b by (simp add: arc_clone_def)
    show "arc_get (snd (current_schema reg)) a = arc_get reg a" "arc_drop (fst (current_schema reg)) (snd (current_schema reg)) = reg"
      "fst (current_schema reg) = sr_current reg"
      by (simp_all add: current_schema_def arc_clone_get arc_drop_clone fst)
  qed
  show ?thesis
  proof (cases acquired)
    case (Inl e)
    then show ?thesis by (simp add: graphql_handler_def Let_def Inr request_connection_outcome)
  next
    case conn: (Inr conn)
    show ?thesis
    proof (cases "db_fetch_all conn (fst (claims_statement X claims)) (snd (claims_statement X claims))")
      case (Inl e)
      have "graphql_handler header_str K X run st acquired header req = (st, [claims_statement X claims], ErrorResponse ''Database connection failed'')"
        by (simp add: graphql_handler_def Let_def Inr request_connection_outcome conn Inl)
      then show ?thesis using c(1) stmt by auto
    next
      case answered: (Inr rows)
      obtain sent' resp where run: "run (sg_schema (arc_get (as_registry st) (sr_current (as_registry st)))) req claims conn = (sent', resp)"
        by fastforce
      have out: "graphql_handler header_str K X run st acquired header req = (st, claims_statement X claims # sent', Answered resp)"
        using clone [of "as_registry st"]
        by (cases "current_schema (as_registry st)")
          (simp add: graphql_handler_def Let_def Inr request_connection_outcome conn answered run)
      have "\<not> isl (db_fetch_all conn rls_sql (snd (claims_statement X claims)))" using answered by (simp add: stmt)
      with c conn run show ?thesis unfolding out stmt prod.case response.case snd_conv by blast
    qed
  qed
qed (simp add: graphql_handler_def)

section \<open>Reloads while requests are served\<close>

text \<open>What happens to the registry while the server runs: a reload installs a schema; request \<open>q\<close> takes the
  current generation, as \<^verbatim>\<open>graphql_handler\<close> does before it executes, and drops it when it returns. Each
  request keeps the address it got. An operation on the registry runs under its lock or on an atomic
  count, so the events happen one after the other, in any order.\<close>

datatype 's serving_event = ReloadTo 's | RequestBegins nat | RequestEnds nat

record 's serving =
  sv_registry :: "'s schema_registry"
  sv_handles :: "nat \<rightharpoonup> nat"

fun serve :: "'s serving_event \<Rightarrow> 's serving \<Rightarrow> 's serving" where
  "serve (ReloadTo new_schema) s = s\<lparr>sv_registry := schema_reload (sv_registry s) new_schema\<rparr>"
| "serve (RequestBegins q) s =
     (if sv_handles s q = None
      then (case current_schema (sv_registry s) of
              (schema_gen, reg) \<Rightarrow> s\<lparr>sv_registry := reg, sv_handles := (sv_handles s)(q \<mapsto> schema_gen)\<rparr>)
      else s)"
| "serve (RequestEnds q) s =
     (case sv_handles s q of
        None \<Rightarrow> s
      | Some schema_gen \<Rightarrow> s\<lparr>sv_registry := arc_drop schema_gen (sv_registry s), sv_handles := (sv_handles s)(q := None)\<rparr>)"

definition serving_new :: "'s \<Rightarrow> 's serving" where
  "serving_new schema = \<lparr>sv_registry = schema_registry_new schema, sv_handles = Map.empty\<rparr>"

text \<open>The schemas the events install.\<close>

fun installed :: "'s serving_event list \<Rightarrow> 's list" where
  "installed [] = []"
| "installed (ReloadTo s # es) = s # installed es"
| "installed (_ # es) = installed es"

lemma installed_append [simp]: "installed (es @ es') = installed es @ installed es'"
  by (induction es rule: installed.induct) simp_all

text \<open>What holds after the schemas \<open>hist\<close> were in force: the cell of a schema is at its position, holds it
  with the number of this position, and is counted once for the registry when it is the last one and
  once for every request that has its address.\<close>

definition holders :: "'s serving \<Rightarrow> nat \<Rightarrow> nat set" where
  "holders s a = {q. sv_handles s q = Some a}"

definition serving_inv :: "'s list \<Rightarrow> 's serving \<Rightarrow> bool" where
  "serving_inv hist s \<longleftrightarrow> hist \<noteq> [] \<and> finite (dom (sv_handles s)) \<and>
     length (sr_arcs (sv_registry s)) = length hist \<and> sr_current (sv_registry s) = length hist - 1 \<and>
     (\<forall>a < length hist. arc_get (sv_registry s) a = \<lparr>sg_generation = of_nat (Suc a), sg_schema = hist ! a\<rparr> \<and>
        arc_count (sv_registry s) a = (if a = length hist - 1 then 1 else 0) + card (holders s a)) \<and>
     (\<forall>a \<in> ran (sv_handles s). a < length hist)"

lemma serving_invD:
  assumes "serving_inv hist s"
  shows "hist \<noteq> []" and "finite (dom (sv_handles s))" and "length (sr_arcs (sv_registry s)) = length hist"
    and "sr_current (sv_registry s) = length hist - 1"
    and "\<And>a. a < length hist \<Longrightarrow> arc_get (sv_registry s) a = \<lparr>sg_generation = of_nat (Suc a), sg_schema = hist ! a\<rparr>"
    and "\<And>a. a < length hist \<Longrightarrow> arc_count (sv_registry s) a = (if a = length hist - 1 then 1 else 0) + card (holders s a)"
    and "\<And>q a. sv_handles s q = Some a \<Longrightarrow> a < length hist"
  using assms by (auto simp: serving_inv_def ran_def)

lemma finite_holders: "finite (dom (sv_handles s)) \<Longrightarrow> finite (holders s a)"
  by (rule finite_subset [of _ "dom (sv_handles s)"]) (auto simp: holders_def)

lemma serving_inv_new: "serving_inv [schema] (serving_new schema)"
  by (simp add: serving_inv_def serving_new_def schema_registry_new_def arc_new_def arc_get_def arc_count_def holders_def)

lemma serving_inv_reload:
  assumes "serving_inv hist s"
  shows "serving_inv (hist @ [new_schema]) (serve (ReloadTo new_schema) s)"
proof -
  note D = serving_invD [OF assms]
  define t where "t = serve (ReloadTo new_schema) s"
  obtain k where k: "length hist = Suc k" using D(1) by (cases hist) auto
  have reg: "sr_arcs (sv_registry t) = (sr_arcs (sv_registry s))[k := (arc_get (sv_registry s) k, arc_count (sv_registry s) k - 1)] @
      [(\<lparr>sg_generation = of_nat (Suc (Suc k)), sg_schema = new_schema\<rparr>, 1)]"
    using D(3,4) D(5) [of k]
    by (simp add: t_def schema_reload_def arc_new_def arc_drop_def arc_get_def arc_count_def Let_def nth_append list_update_append k)
  have cur: "sr_current (sv_registry t) = Suc k" "sv_handles t = sv_handles s" "holders t = holders s"
    using D(3) by (simp_all add: t_def schema_reload_def arc_new_def arc_drop_def Let_def holders_def fun_eq_iff k)
  have empty: "holders s (Suc k) = {}" using D(7) k by (auto simp: holders_def)
  have cells: "arc_get (sv_registry t) a = \<lparr>sg_generation = of_nat (Suc a), sg_schema = (hist @ [new_schema]) ! a\<rparr> \<and>
      arc_count (sv_registry t) a = (if a = Suc k then 1 else 0) + card (holders s a)" if "a < Suc (Suc k)" for a
  proof (cases "a = Suc k")
    case True
    then show ?thesis using D(3) empty k by (simp add: arc_get_def arc_count_def reg nth_append)
  next
    case False
    with that have "a < length hist" using k by simp
    with D(3) D(5,6) [OF this] False k show ?thesis
      by (auto simp: arc_get_def arc_count_def reg nth_append nth_list_update)
  qed
  have "length (sr_arcs (sv_registry t)) = Suc (Suc k)" using D(3) k by (simp add: reg)
  moreover have "a < Suc (Suc k)" if "sv_handles s q = Some a" for q a using D(7) [OF that] k by simp
  ultimately show ?thesis
    using cells cur D(2) k unfolding serving_inv_def t_def [symmetric] by (auto simp: ran_def)
qed

lemma serving_inv_begins:
  assumes "serving_inv hist s"
  shows "serving_inv hist (serve (RequestBegins q) s)"
proof (cases "sv_handles s q")
  case None
  note D = serving_invD [OF assms]
  obtain k where k: "length hist = Suc k" using D(1) by (cases hist) auto
  define t where "t = serve (RequestBegins q) s"
  have reg: "sr_arcs (sv_registry t) = (sr_arcs (sv_registry s))[k := (arc_get (sv_registry s) (k),
      Suc (arc_count (sv_registry s) (k)))]" "sr_current (sv_registry t) = k"
    "sv_handles t = (sv_handles s)(q \<mapsto> k)"
    using None D(4) k by (simp_all add: t_def current_schema_def arc_clone_def)
  have holders: "holders t a = (if a = k then insert q (holders s a) else holders s a)" for a
    using None unfolding holders_def reg by auto
  have "q \<notin> holders s a" for a using None by (simp add: holders_def)
  then have card: "card (holders t a) = (if a = k then Suc (card (holders s a)) else card (holders s a))" for a
    using finite_holders [OF D(2)] by (simp add: holders)
  show ?thesis
    using D k unfolding serving_inv_def t_def [symmetric] card by (auto simp: arc_get_def arc_count_def reg nth_list_update ran_def)
qed (use assms in simp)

lemma serving_inv_ends:
  assumes "serving_inv hist s"
  shows "serving_inv hist (serve (RequestEnds q) s)"
proof (cases "sv_handles s q")
  case (Some b)
  note D = serving_invD [OF assms]
  define t where "t = serve (RequestEnds q) s"
  have reg: "sr_arcs (sv_registry t) = (sr_arcs (sv_registry s))[b := (arc_get (sv_registry s) b, arc_count (sv_registry s) b - 1)]"
    "sr_current (sv_registry t) = length hist - 1" "sv_handles t = (sv_handles s)(q := None)"
    using Some D(4) by (simp_all add: t_def arc_drop_def)
  have holders: "holders t a = (if a = b then holders s a - {q} else holders s a)" for a
    using Some unfolding holders_def reg by auto
  have q: "q \<in> holders s b" using Some by (simp add: holders_def)
  then have card: "card (holders t a) = (if a = b then card (holders s a) - 1 else card (holders s a))" for a
    by (simp add: holders card_Diff_singleton)
  have "card (holders s b) > 0" using q finite_holders [OF D(2)] by (auto simp: card_gt_0_iff)
  then show ?thesis
    using D unfolding serving_inv_def t_def [symmetric] card by (auto simp: arc_get_def arc_count_def reg nth_list_update ran_def)
qed (use assms in simp)

lemma serving_inv_run: "serving_inv hist s \<Longrightarrow> serving_inv (hist @ installed es) (fold serve es s)"
proof (induction es arbitrary: hist s)
  case (Cons e es)
  have "serving_inv (hist @ installed [e]) (serve e s)"
    using serving_inv_reload [OF Cons.prems] serving_inv_begins [OF Cons.prems] serving_inv_ends [OF Cons.prems]
    by (cases e) (simp_all del: serve.simps)
  from Cons.IH [OF this] show ?case using installed_append [of "[e]" es] by simp
qed simp

lemma handle_kept:
  "RequestEnds q \<notin> set es \<Longrightarrow> sv_handles s q = Some a \<Longrightarrow> sv_handles (fold serve es s) q = Some a"
proof (induction es arbitrary: s)
  case (Cons e es)
  then have "sv_handles (serve e s) q = Some a" by (cases e) (auto split: prod.split option.split)
  with Cons show ?case by simp
qed simp

lemma no_handle: "RequestBegins q \<notin> set es \<Longrightarrow> sv_handles s q = None \<Longrightarrow> sv_handles (fold serve es s) q = None"
proof (induction es arbitrary: s)
  case (Cons e es)
  then have "sv_handles (serve e s) q = None" by (cases e) (auto split: prod.split option.split)
  with Cons show ?case by simp
qed simp

text \<open>C33: hot reload. Let a request begin after any events and not have ended after any further ones,
  reloads and other requests among them. Then the address it was given is that of a cell not yet freed,
  which still holds the generation that was current when the request began: the last schema installed
  before, with a number one more than the reloads before, modulo two to the 64. The current generation
  is the last schema installed at all, numbered in the same way. And a cell is counted once for the
  registry if it is the current one and once for each request that has its address, so that it is
  freed exactly when neither is left.\<close>

theorem held_generations_stable:
  assumes "RequestBegins q \<notin> set before" and "RequestEnds q \<notin> set after"
  shows "let s = fold serve (before @ RequestBegins q # after) (serving_new schema) in
    (\<exists>a. sv_handles s q = Some a \<and> 0 < arc_count (sv_registry s) a \<and>
      arc_get (sv_registry s) a =
        \<lparr>sg_generation = 1 + of_nat (length (installed before)), sg_schema = last (schema # installed before)\<rparr>) \<and>
    arc_get (sv_registry s) (sr_current (sv_registry s)) =
      \<lparr>sg_generation = 1 + of_nat (length (installed (before @ after))), sg_schema = last (schema # installed (before @ after))\<rparr> \<and>
    (\<forall>a < length (sr_arcs (sv_registry s)). arc_count (sv_registry s) a =
      (if a = sr_current (sv_registry s) then 1 else 0) + card {q'. sv_handles s q' = Some a})"
proof -
  define s where "s = fold serve (before @ RequestBegins q # after) (serving_new schema)"
  let ?s0 = "fold serve before (serving_new schema)" and ?hist = "schema # installed before"
  have last: "(schema # xs) ! length xs = last (schema # xs)" for xs
    using last_conv_nth [of "schema # xs"] by simp
  have inv0: "serving_inv ?hist ?s0" using serving_inv_run [OF serving_inv_new [of schema], of before] by simp
  have "sv_handles ?s0 q = None" by (rule no_handle [OF assms(1)]) (simp add: serving_new_def)
  then have "sv_handles (serve (RequestBegins q) ?s0) q = Some (length (installed before))"
    using serving_invD(4) [OF inv0] by (simp add: current_schema_def arc_clone_def)
  from handle_kept [OF assms(2) this] have h: "sv_handles s q = Some (length (installed before))" by (simp add: s_def)
  have inv: "serving_inv (schema # installed (before @ after)) s"
    using serving_inv_run [OF serving_inv_new [of schema], of "before @ RequestBegins q # after"] by (simp add: s_def)
  note D = serving_invD [OF inv]
  have "q \<in> holders s (length (installed before))" using h by (simp add: holders_def)
  then have "0 < card (holders s (length (installed before)))" using finite_holders [OF D(2)] by (auto simp: card_gt_0_iff)
  moreover have "(schema # installed before @ installed after) ! length (installed before) = last (schema # installed before)"
    using last [of "installed before"] by (simp add: nth_append flip: append_Cons)
  ultimately have "0 < arc_count (sv_registry s) (length (installed before)) \<and> arc_get (sv_registry s) (length (installed before)) =
      \<lparr>sg_generation = 1 + of_nat (length (installed before)), sg_schema = last (schema # installed before)\<rparr>"
    using D(5,6) [of "length (installed before)"] by simp
  moreover have "arc_get (sv_registry s) (sr_current (sv_registry s)) =
      \<lparr>sg_generation = 1 + of_nat (length (installed (before @ after))), sg_schema = last (schema # installed (before @ after))\<rparr>"
    using D(4) D(5) [of "length (installed (before @ after))"] last [of "installed (before @ after)"] by simp
  ultimately show ?thesis
    using h D(3,4,6) unfolding Let_def s_def [symmetric] holders_def by auto
qed

theorem held_generations_stable_witness:
  "let s = fold serve ([ReloadTo ''b''] @ RequestBegins 7 # [RequestBegins 8, ReloadTo ''c'', RequestEnds 8, ReloadTo ''d'']) (serving_new ''a'') in
     \<exists>a. sv_handles s 7 = Some a \<and> arc_get (sv_registry s) a = \<lparr>sg_generation = 2, sg_schema = ''b''\<rparr>"
proof -
  have "RequestBegins 7 \<notin> set [ReloadTo ''b'']" "RequestEnds 7 \<notin> set [RequestBegins 8, ReloadTo ''c'', RequestEnds 8, ReloadTo ''d'']"
    by simp_all
  moreover have "1 + of_nat (length (installed [ReloadTo ''b''])) = (2 :: 64 word)" "last (''a'' # installed [ReloadTo ''b'']) = ''b''" by simp_all
  ultimately show ?thesis
    using held_generations_stable [of 7 "[ReloadTo ''b'']" "[RequestBegins 8, ReloadTo ''c'', RequestEnds 8, ReloadTo ''d'']" "''a''"]
    unfolding Let_def by metis
qed

section \<open>WebSocket replies\<close>

fun ws_open :: "ws_message \<Rightarrow> bool" where
  "ws_open WsClose \<longleftrightarrow> False"
| "ws_open WsFailed \<longleftrightarrow> False"
| "ws_open _ \<longleftrightarrow> True"

fun ws_answer :: "'n cursor_ext \<Rightarrow> ws_message \<Rightarrow> string option" where
  "ws_answer J (WsText text) = Option.bind (js_parse J text) (\<lambda>parsed. map_option (js_show J) (ws_reply parsed))"
| "ws_answer J _ = None"

text \<open>While sends succeed, the replies are those of the messages before the connection ends, one each and
  in order; in particular every subscription is completed at once and no result is ever streamed.\<close>

theorem ws_replies:
  "handle_ws_connection J (\<lambda>_. True) ms [] = List.map_filter (ws_answer J) (takeWhile ws_open ms)"
proof -
  have "handle_ws_connection J (\<lambda>_. True) ms out = out @ List.map_filter (ws_answer J) (takeWhile ws_open ms)" for out
    by (induction J "\<lambda>_ :: string list. True" ms out rule: handle_ws_connection.induct)
      (auto simp: map_filter_simps split: option.split)
  from this [of "[]"] show ?thesis by simp
qed

end
