(* ===== verification/Introspect_Cache.thy ===== *)
theory Introspect_Cache
  imports Pg_Catalog Rust_Map Rust_Str "HOL-Library.Char_ord" "HOL-Library.List_Lexorder"
begin

text \<open>
  \<^verbatim>\<open>magna-introspect/src/cache.rs\<close>: introspection results cached per set of schemas and dropped when
  a reload is notified. The cache is the crate \<^verbatim>\<open>moka\<close>, an association list here; that an entry may
  also expire on its own is the operation \<open>expire\<close>. Running the catalog queries is a function of
  the schema names, taken as an argument by each call since the database changes in between.
  The broadcast channel is the list of the targets sent to it.
\<close>

section \<open>Operations\<close>

record 'r introspection_cache =
  ic_inner :: "(string \<times> 'r) list"
  ic_reloads :: "string list"

definition introspection_cache_new :: "'r introspection_cache" where
  "introspection_cache_new = \<lparr>ic_inner = [], ic_reloads = []\<rparr>"

definition cache_key :: "string list \<Rightarrow> string" where
  "cache_key schemas = str_join '','' (sort schemas)"

definition get_or_introspect :: "(string list \<Rightarrow> 'e + 'r) \<Rightarrow> 'r introspection_cache \<Rightarrow> string list \<Rightarrow>
    'r introspection_cache \<times> ('e + 'r)" where
  "get_or_introspect introspect c schemas =
     (let key = cache_key schemas
      in case map_of (ic_inner c) key of
           Some cached \<Rightarrow> (c, Inr cached)
         | None \<Rightarrow>
             (case introspect schemas of
                Inl e \<Rightarrow> (c, Inl e)
              | Inr result \<Rightarrow> (c\<lparr>ic_inner := assoc_insert key result (ic_inner c)\<rparr>, Inr result)))"

definition invalidate :: "'r introspection_cache \<Rightarrow> string \<Rightarrow> 'r introspection_cache" where
  "invalidate c schema = c\<lparr>ic_inner := filter (\<lambda>e. fst e \<noteq> schema) (ic_inner c)\<rparr>"

definition invalidate_all :: "'r introspection_cache \<Rightarrow> 'r introspection_cache" where
  "invalidate_all c = c\<lparr>ic_inner := []\<rparr>"

definition expire :: "'r introspection_cache \<Rightarrow> string \<Rightarrow> 'r introspection_cache" where
  "expire c key = c\<lparr>ic_inner := filter (\<lambda>e. fst e \<noteq> key) (ic_inner c)\<rparr>"

text \<open>The body of the listen loop for one notification.\<close>

definition on_notification :: "'r introspection_cache \<Rightarrow> string \<Rightarrow> 'r introspection_cache" where
  "on_notification c payload =
     (let target = (if payload = [] then ''*'' else payload);
          c = (if target = ''*'' then invalidate_all c else invalidate c target)
      in c\<lparr>ic_reloads := ic_reloads c @ [target]\<rparr>)"

text \<open>The loop on what the listener receives: it ends with the first error, and a list that is
  used up stands for a loop that is still waiting.\<close>

fun listen_loop :: "'r introspection_cache \<Rightarrow> ('e + string) list \<Rightarrow> 'r introspection_cache \<times> 'e option" where
  "listen_loop c [] = (c, None)"
| "listen_loop c (Inl e # ns) = (c, Some e)"
| "listen_loop c (Inr payload # ns) = listen_loop (on_notification c payload) ns"

section \<open>Keys\<close>

lemma str_join_inj:
  assumes "list_all (\<lambda>w. w \<noteq> [] \<and> d \<notin> set w) xs" and "list_all (\<lambda>w. w \<noteq> [] \<and> d \<notin> set w) ys"
  shows "str_join [d] xs = str_join [d] ys \<longleftrightarrow> xs = ys"
proof -
  have nil: "str_join [d] ws = [] \<longleftrightarrow> ws = []" if "list_all (\<lambda>w. w \<noteq> [] \<and> d \<notin> set w) ws" for ws
    using that by (cases "([d], ws)" rule: str_join.cases) auto
  have split: "split_char d (str_join [d] ws) = ws" if "list_all (\<lambda>w. w \<noteq> [] \<and> d \<notin> set w) ws" "ws \<noteq> []" for ws
    using that by (intro split_char_of_join) (auto simp: list_all_iff)
  show ?thesis
  proof (cases "xs = [] \<or> ys = []")
    case True
    then show ?thesis using nil [OF assms(1)] nil [OF assms(2)] by auto
  next
    case False
    then show ?thesis using split [OF assms(1)] split [OF assms(2)] by metis
  qed
qed

text \<open>The cache key. Two lists of schema names, none of them empty or with a comma, have one
  key exactly when they hold the same names the same number of times, in whatever order.\<close>

theorem cache_key_exact:
  assumes "list_all (\<lambda>s. s \<noteq> [] \<and> CHR '','' \<notin> set s) xs" and "list_all (\<lambda>s. s \<noteq> [] \<and> CHR '','' \<notin> set s) ys"
  shows "cache_key xs = cache_key ys \<longleftrightarrow> mset xs = mset ys"
proof -
  have "cache_key xs = cache_key ys \<longleftrightarrow> sort xs = sort ys"
    unfolding cache_key_def using assms by (intro str_join_inj) (auto simp: list_all_iff)
  also have "\<dots> \<longleftrightarrow> mset xs = mset ys"
    by (metis mset_sort properties_for_sort sorted_sort)
  finally show ?thesis .
qed

theorem cache_key_exact_witness:
  "cache_key [''public'', ''auth''] = cache_key [''auth'', ''public''] \<and> cache_key [''public''] \<noteq> cache_key [''public'', ''auth'']"
proof -
  have "cache_key [''public'', ''auth''] = cache_key [''auth'', ''public'']"
    using cache_key_exact [of "[''public'', ''auth'']" "[''auth'', ''public'']"] by (simp add: add.commute)
  moreover have "cache_key [''public''] \<noteq> cache_key [''public'', ''auth'']"
    using cache_key_exact [of "[''public'']" "[''public'', ''auth'']"] by simp
  ultimately show ?thesis by blast
qed

text \<open>A comma in a quoted schema name makes two different sets share a key.\<close>

theorem comma_keys_collide: "cache_key [''a,b''] = cache_key [''b'', ''a'']"
  by (simp add: cache_key_def)

section \<open>Reloads\<close>

lemma on_notification_inner:
  "map_of (ic_inner (on_notification c payload)) =
     (if payload = [] \<or> payload = ''*'' then Map.empty else (map_of (ic_inner c))(payload := None))"
  by (auto simp: on_notification_def Let_def invalidate_all_def invalidate_def map_of_filter_fst)

lemma on_notification_reloads:
  "ic_reloads (on_notification c payload) = ic_reloads c @ [if payload = [] then ''*'' else payload]"
  by (simp add: on_notification_def Let_def invalidate_all_def invalidate_def)

lemma get_or_introspect_result:
  "snd (get_or_introspect introspect c schemas) =
     (case map_of (ic_inner c) (cache_key schemas) of Some r \<Rightarrow> Inr r | None \<Rightarrow> introspect schemas)"
  by (simp add: get_or_introspect_def Let_def split: option.splits sum.splits)

text \<open>What a reload notification does. It makes the next request for a set of schemas read the
  catalog again exactly when it names no schema or its payload is the key of that set; for
  every other set a cached result stays in use. Subscribers are told the payload, or a star.\<close>

theorem reload_effect:
  "snd (get_or_introspect introspect (on_notification c payload) schemas) =
     (if payload \<in> {[], ''*'', cache_key schemas} then introspect schemas
      else snd (get_or_introspect introspect c schemas)) \<and>
   ic_reloads (on_notification c payload) = ic_reloads c @ [if payload = [] then ''*'' else payload]"
  by (auto simp: get_or_introspect_result on_notification_inner on_notification_reloads)

text \<open>So a change of one schema of a larger set goes unnoticed when it is notified by name.\<close>

theorem reload_of_one_schema_missed:
  "snd (get_or_introspect new (on_notification (fst (get_or_introspect old introspection_cache_new
       [''public'', ''auth''])) ''public'') [''public'', ''auth'']) =
     (case old [''public'', ''auth''] of Inl e \<Rightarrow> new [''public'', ''auth''] | Inr r \<Rightarrow> Inr r)"
proof -
  have k: "cache_key [''public'', ''auth''] = ''auth,public''" by code_simp
  show ?thesis
    by (simp add: get_or_introspect_result on_notification_inner k)
      (simp add: get_or_introspect_def k introspection_cache_new_def split: sum.splits)
qed

text \<open>A failed introspection caches nothing, and a hit asks the database nothing.\<close>

lemma get_or_introspect_cached:
  "get_or_introspect introspect c schemas = (c', Inr r) \<Longrightarrow> get_or_introspect introspect' c' schemas = (c', Inr r)"
  by (auto simp: get_or_introspect_def Let_def split: option.splits sum.splits)

end
