(* ===== verification/Magna_Main.thy ===== *)
theory Magna_Main
  imports Build_Closed Serv_Request Introspect_Cache
begin

text \<open>
  The binary \<^verbatim>\<open>magna\<close> (\<^verbatim>\<open>main.rs\<close>, \<^verbatim>\<open>config.rs\<close>): the preset of the command line, the start of the server
  and the task that rebuilds the schema when a reload is announced. Introspecting the database and
  finishing a schema description are parameters; a panic is \<open>None\<close>. Binding the port, the pool, the
  router and the logs are left out.
\<close>

unbundle bit_operations_syntax

section \<open>Configuration\<close>

record config =
  cf_port :: "16 word"
  cf_database_url :: string
  cf_jwt_secret :: string
  cf_pg_schemas :: string
  cf_default_role :: string
  cf_pool_max :: nat
  cf_introspection_cache_ttl :: nat

definition to_preset :: "string option \<Rightarrow> config \<Rightarrow> 'm preset" where
  "to_preset env_secret cf =
     (preset_default env_secret)\<lparr>
       pg_schemas := filter (\<lambda>s. s \<noteq> []) (map trim (split_char CHR '','' (cf_pg_schemas cf))),
       default_role := Some (cf_default_role cf),
       preset_jwt := \<lparr>jwt_secret = cf_jwt_secret cf, jwt_jwks_url = None\<rparr>,
       preset_pool := pool_config_default\<lparr>max_connections := cf_pool_max cf\<rparr>,
       introspection_cache_ttl := cf_introspection_cache_ttl cf\<rparr>"

section \<open>Start\<close>

text \<open>Gathering and building, as the start and a reload do, with no extensions.\<close>

definition schema_of :: "(('f, 'd, 'j, 'q, 'c, 'v) builder \<Rightarrow> (string + 's) option) \<Rightarrow> 'm \<Rightarrow> introspection_result \<Rightarrow> 'm preset \<Rightarrow>
    (build_error + 's) option" where
  "schema_of finish empty_metadata intro p =
     (case gather intro empty_metadata p of
        Inl e \<Rightarrow> Some (Inl e)
      | Inr out \<Rightarrow> build_schema finish out (go_behaviors out) [])"

definition startup :: "(('f, 'd, 'j, 'q, 'c, 'v) builder \<Rightarrow> (string + 's) option) \<Rightarrow> 'm \<Rightarrow> (string list \<Rightarrow> 'e + introspection_result) \<Rightarrow>
    'm preset \<Rightarrow> (('s, 'p) app_state \<times> introspection_result introspection_cache) option" where
  "startup finish empty_metadata introspect p =
     (case get_or_introspect introspect introspection_cache_new (pg_schemas p) of
        (cache, Inl e) \<Rightarrow> None
      | (cache, Inr intro) \<Rightarrow>
          (case schema_of finish empty_metadata intro p of
             Some (Inr schema) \<Rightarrow> Some (app_state_new schema p, cache)
           | _ \<Rightarrow> None))"

section \<open>Reloads\<close>

text \<open>What the watcher meets: a notification, with what introspecting answers at that time; a lagged or a
  closed channel; and, while it waits for the next one, \<open>Planned\<close>: another task asks the shared plan cache
  for the plan of an operation, where \<open>visit\<close> is the order in which the cache visits its entries.\<close>

datatype ('e, 'p) reload_event = Reload "string list \<Rightarrow> 'e + introspection_result" | Lagged | Closed | Planned "64 word" 'p

definition reload_once :: "(('f, 'd, 'j, 'q, 'c, 'v) builder \<Rightarrow> (string + 's) option) \<Rightarrow> 'm \<Rightarrow> string option \<Rightarrow> string list \<Rightarrow>
    (string list \<Rightarrow> 'e + introspection_result) \<Rightarrow> ('s, 'p) app_state \<times> introspection_result introspection_cache \<Rightarrow>
    (('s, 'p) app_state \<times> introspection_result introspection_cache) option" where
  "reload_once finish empty_metadata env_secret schemas introspect st =
     (case st of (state, cache) \<Rightarrow>
        (case get_or_introspect introspect (invalidate_all cache) schemas of
           (cache, Inl e) \<Rightarrow> Some (state, cache)
         | (cache, Inr intro) \<Rightarrow>
             (case schema_of finish empty_metadata intro (preset_default env_secret) of
                None \<Rightarrow> None
              | Some (Inl e) \<Rightarrow> Some (state, cache)
              | Some (Inr new_schema) \<Rightarrow>
                  Some (state\<lparr>as_registry := schema_reload (as_registry state) new_schema,
                              as_plan_cache := cache_clear (as_plan_cache state)\<rparr>, cache))))"

fun watch_for_reload :: "((64 word \<times> 'p) list \<Rightarrow> (64 word \<times> 'p) list) \<Rightarrow> (('f, 'd, 'j, 'q, 'c, 'v) builder \<Rightarrow> (string + 's) option) \<Rightarrow>
    'm \<Rightarrow> string option \<Rightarrow> string list \<Rightarrow> ('e, 'p) reload_event list \<Rightarrow> ('s, 'p) app_state \<times> introspection_result introspection_cache \<Rightarrow>
    (('s, 'p) app_state \<times> introspection_result introspection_cache) option" where
  "watch_for_reload visit finish m env schemas [] st = Some st"
| "watch_for_reload visit finish m env schemas (Reload introspect # es) st =
     Option.bind (reload_once finish m env schemas introspect st) (watch_for_reload visit finish m env schemas es)"
| "watch_for_reload visit finish m env schemas (Lagged # es) st = watch_for_reload visit finish m env schemas es st"
| "watch_for_reload visit finish m env schemas (Closed # es) st = Some st"
| "watch_for_reload visit finish m env schemas (Planned h plan # es) (state, cache) =
     watch_for_reload visit finish m env schemas es
       (state\<lparr>as_plan_cache := fst (get_or_plan visit (as_plan_cache state) h (\<lambda>_. plan))\<rparr>, cache)"

section \<open>The schema that is served\<close>

text \<open>The schemas the events ask for, as far as they can be built, in order; and the plans that were asked for
  since the last of them, those in \<open>ps\<close> before the first.\<close>

fun rebuilt :: "(('f, 'd, 'j, 'q, 'c, 'v) builder \<Rightarrow> (string + 's) option) \<Rightarrow> 'm \<Rightarrow> string option \<Rightarrow> string list \<Rightarrow>
    ('e, 'p) reload_event list \<Rightarrow> 's list" where
  "rebuilt finish m env schemas [] = []"
| "rebuilt finish m env schemas (Reload introspect # es) =
     (case introspect schemas of
        Inl e \<Rightarrow> []
      | Inr intro \<Rightarrow> (case schema_of finish m intro (preset_default env) of Some (Inr s) \<Rightarrow> [s] | _ \<Rightarrow> [])) @ rebuilt finish m env schemas es"
| "rebuilt finish m env schemas (Lagged # es) = rebuilt finish m env schemas es"
| "rebuilt finish m env schemas (Closed # es) = []"
| "rebuilt finish m env schemas (Planned h plan # es) = rebuilt finish m env schemas es"

fun planned_since :: "(('f, 'd, 'j, 'q, 'c, 'v) builder \<Rightarrow> (string + 's) option) \<Rightarrow> 'm \<Rightarrow> string option \<Rightarrow> string list \<Rightarrow>
    (64 word \<times> 'p) list \<Rightarrow> ('e, 'p) reload_event list \<Rightarrow> (64 word \<times> 'p) list" where
  "planned_since finish m env schemas ps [] = ps"
| "planned_since finish m env schemas ps (Reload introspect # es) =
     planned_since finish m env schemas
       (if rebuilt finish m env schemas [Reload introspect :: ('e, 'p) reload_event] = [] then ps else []) es"
| "planned_since finish m env schemas ps (Lagged # es) = planned_since finish m env schemas ps es"
| "planned_since finish m env schemas ps (Closed # es) = ps"
| "planned_since finish m env schemas ps (Planned h plan # es) = planned_since finish m env schemas (ps @ [(h, plan)]) es"

text \<open>The cache after plans were asked for, from an empty one.\<close>

definition cache_after :: "((64 word \<times> 'p) list \<Rightarrow> (64 word \<times> 'p) list) \<Rightarrow> (64 word \<times> 'p) list \<Rightarrow> 'p plan_cache" where
  "cache_after visit ps = foldl (\<lambda>c (h, plan). fst (get_or_plan visit c h (\<lambda>_. plan))) (plan_cache_new 512) ps"

lemma cache_after_snoc: "cache_after visit (ps @ [(h, plan)]) = fst (get_or_plan visit (cache_after visit ps) h (\<lambda>_. plan))"
  by (simp add: cache_after_def)

lemma cache_after_clear: "cache_clear (cache_after visit ps) = cache_after visit []"
proof -
  have "pc_max_size (cache_after visit ps) = 512"
    by (induction ps rule: rev_induct)
      (auto simp: cache_after_def plan_cache_new_def get_or_plan_def Let_def split: option.split)
  then show ?thesis by (simp add: cache_clear_def cache_after_def plan_cache_new_def)
qed

lemma cache_after_subset:
  assumes "\<forall>es. mset (visit es) = mset es"
  shows "set (pc_inner (cache_after visit ps)) \<subseteq> set ps"
proof (induction ps rule: rev_induct)
  case (snoc p ps)
  obtain h plan where p: "p = (h, plan)" by (cases p)
  have visit: "set (visit es) = set es" for es using assms by (metis set_mset_mset)
  have ins: "set (assoc_insert h plan es) \<subseteq> insert (h, plan) (set es)" for es by (induction es) (auto split: if_split_asm)
  have ret: "set (retain evict_first False es) \<subseteq> set es" for es :: "(64 word \<times> 'p) list"
    unfolding retain_evict by (cases es) auto
  show ?case
    using snoc ins [of "pc_inner (cache_after visit ps)"]
      ins [of "retain evict_first False (visit (pc_inner (cache_after visit ps)))"] ret [of "visit (pc_inner (cache_after visit ps))"]
    unfolding p cache_after_snoc by (auto simp: get_or_plan_def Let_def visit split: option.split)
qed (simp add: cache_after_def plan_cache_new_def)

text \<open>Reloads install their schemas one after the other.\<close>

definition registry_wf :: "'s schema_registry \<Rightarrow> bool" where
  "registry_wf reg \<longleftrightarrow> sr_current reg < length (sr_arcs reg)"

lemma schema_reload_current:
  assumes "registry_wf reg"
  shows "registry_wf (schema_reload reg s)"
    and "arc_get (schema_reload reg s) (sr_current (schema_reload reg s)) =
      \<lparr>sg_generation = sg_generation (arc_get reg (sr_current reg)) + 1, sg_schema = s\<rparr>"
  using assms
  by (simp_all add: registry_wf_def schema_reload_def arc_new_def arc_drop_def arc_get_def Let_def nth_append)

lemma foldl_schema_reload:
  assumes "registry_wf reg"
  shows "arc_get (foldl schema_reload reg ss) (sr_current (foldl schema_reload reg ss)) =
    \<lparr>sg_generation = sg_generation (arc_get reg (sr_current reg)) + of_nat (length ss),
     sg_schema = last (sg_schema (arc_get reg (sr_current reg)) # ss)\<rparr>"
  using assms
proof (induction ss arbitrary: reg)
  case (Cons s ss)
  from Cons.IH [OF schema_reload_current(1) [OF Cons.prems]] schema_reload_current(2) [OF Cons.prems] show ?case by simp
qed simp

lemma registry_new:
  "registry_wf (schema_registry_new s)"
  "arc_get (schema_registry_new s) (sr_current (schema_registry_new s)) = \<lparr>sg_generation = 1, sg_schema = s\<rparr>"
  by (simp_all add: registry_wf_def schema_registry_new_def arc_new_def arc_get_def)

lemma reload_once_schema:
  fixes introspect :: "string list \<Rightarrow> 'e + introspection_result" and state :: "('s, 'p) app_state"
  assumes "reload_once finish m env schemas introspect (state, cache) = Some (state', cache')"
  defines "new \<equiv> rebuilt finish m env schemas [Reload introspect :: ('e, 'p) reload_event]"
  shows "as_registry state' = foldl schema_reload (as_registry state) new"
    and "as_jwt_secret state' = as_jwt_secret state" and "as_default_role state' = as_default_role state"
    and "as_plan_cache state' = (if new = [] then as_plan_cache state else cache_clear (as_plan_cache state))"
  using assms
  by (auto simp: reload_once_def get_or_introspect_def invalidate_all_def Let_def
      split: sum.splits option.splits prod.splits)

lemma watch_for_reload_state:
  fixes es :: "('e, 'p) reload_event list" and state :: "('s, 'p) app_state"
  assumes "watch_for_reload visit finish m env schemas es (state, cache) = Some (state', cache')"
    and "as_plan_cache state = cache_after visit ps"
  shows "as_registry state' = foldl schema_reload (as_registry state) (rebuilt finish m env schemas es) \<and>
    as_jwt_secret state' = as_jwt_secret state \<and> as_default_role state' = as_default_role state \<and>
    as_plan_cache state' = cache_after visit (planned_since finish m env schemas ps es)"
  using assms
proof (induction visit finish m env schemas es "(state, cache)" arbitrary: state cache ps rule: watch_for_reload.induct)
  case (2 visit finish m env schemas introspect es)
  from "2.prems"(1) obtain st1 c1 where one: "reload_once finish m env schemas introspect (state, cache) = Some (st1, c1)"
    and rest: "watch_for_reload visit finish m env schemas es (st1, c1) = Some (state', cache')"
    by (auto simp: bind_eq_Some_conv)
  let ?ps = "if rebuilt finish m env schemas [Reload introspect :: ('e, 'p) reload_event] = [] then ps else []"
  have cons: "rebuilt finish m env schemas (Reload introspect # es) =
      rebuilt finish m env schemas [Reload introspect :: ('e, 'p) reload_event] @ rebuilt finish m env schemas es" by simp
  have "as_plan_cache st1 = cache_after visit ?ps"
    using reload_once_schema(4) [OF one] "2.prems"(2) by (simp add: cache_after_clear del: rebuilt.simps)
  from "2.hyps" [OF one rest this] reload_once_schema(1-3) [OF one] show ?case
    unfolding cons foldl_append planned_since.simps by (simp del: rebuilt.simps)
next
  case (5 visit finish m env schemas h plan es)
  from "5.hyps" [of "ps @ [(h, plan)]"] "5.prems" show ?case by (simp add: cache_after_snoc)
qed auto

text \<open>C32: the watcher. Let reloads be announced, fail or be missed, and let other tasks ask for plans in
  between, in any order. Then the schema served is the last one that could be built, the first one while
  none could; its generation counts the schemas installed; the secret and role never change; and the plan
  cache is the one that the plans asked for since the last schema was installed leave in an empty cache
  of 512 entries: every plan in it was built under the schema served. A reload is one step here: a task
  that caches its plan between the installation of a schema and the clearing of the cache is not
  covered.\<close>

theorem reload_serves_last_built:
  assumes "startup finish m introspect p = Some (state, cache)"
    and "watch_for_reload visit finish m env schemas es (state, cache) = Some (state', cache')"
    and "\<forall>xs. mset (visit xs) = mset xs"
  shows "\<exists>first. arc_get (as_registry state) (sr_current (as_registry state)) = \<lparr>sg_generation = 1, sg_schema = first\<rparr> \<and>
    arc_get (as_registry state') (sr_current (as_registry state')) =
      \<lparr>sg_generation = 1 + of_nat (length (rebuilt finish m env schemas es)), sg_schema = last (first # rebuilt finish m env schemas es)\<rparr> \<and>
    as_jwt_secret state' = jwt_secret (preset_jwt p) \<and> as_default_role state' = default_role p \<and>
    as_plan_cache state' = cache_after visit (planned_since finish m env schemas [] es) \<and>
    set (pc_inner (as_plan_cache state')) \<subseteq> set (planned_since finish m env schemas [] es)"
proof -
  from assms(1) obtain first where first: "state = app_state_new first p"
    by (auto simp: startup_def split: prod.splits sum.splits option.splits)
  then have "as_plan_cache state = cache_after visit []" by (simp add: app_state_new_def cache_after_def)
  from watch_for_reload_state [OF assms(2) this] show ?thesis
    using cache_after_subset [OF assms(3), of "planned_since finish m env schemas [] es"]
    by (simp add: first app_state_new_def registry_new foldl_schema_reload)
qed

definition demo_config :: config where
  "demo_config = \<lparr>cf_port = 4800, cf_database_url = ''db'', cf_jwt_secret = ''s'', cf_pg_schemas = '' public, ,auth'', cf_default_role = ''anon'',
     cf_pool_max = 5, cf_introspection_cache_ttl = 300\<rparr>"

definition count_types :: "(nat, nat, nat, nat, nat, nat) builder \<Rightarrow> (string + nat) option" where
  "count_types b = Some (Inr (length (sb_types b)))"

lemma schema_of_builds: "\<exists>s. schema_of count_types m intro p = Some (Inr s)"
proof -
  obtain out where "gather intro m p = (Inr out :: build_error + _)" by (auto simp: gather_def Let_def)
  moreover have "in_phase (go_behaviors out) ([] :: (nat, nat, nat, nat, nat) schema_extension list)"
    by (simp add: in_phase_def phase_calls_def mutation_calls_def)
  then obtain b :: "(nat, nat, nat, nat, nat, nat) builder" where "schema_builder out (go_behaviors out) [] = Some b"
    by (metis not_Some_eq schema_builder_described(1))
  ultimately show ?thesis by (simp add: schema_of_def build_schema_def count_types_def)
qed

lemma startup_succeeds:
  fixes introspect :: "string list \<Rightarrow> string + introspection_result"
  assumes "introspect (pg_schemas p) = Inr intro"
  shows "\<exists>s c. startup count_types m introspect p = Some (app_state_new s p :: (nat, nat) app_state, c)"
  using assms schema_of_builds [of m intro p] by (auto simp: startup_def get_or_introspect_def introspection_cache_new_def Let_def)

theorem reload_serves_last_built_witness:
  "\<exists>state cache state' cache'. startup count_types (0 :: nat) (\<lambda>_. Inr demo_catalog :: string + introspection_result) (to_preset None demo_config) = Some (state, cache) \<and>
     watch_for_reload (\<lambda>xs. xs) count_types (0 :: nat) None [''public'']
       [Planned 1 5, Reload (\<lambda>_. Inl ''down''), Lagged, Reload (\<lambda>_. Inr demo_catalog), Planned 2 6] (state, cache) =
         Some (state' :: (nat, nat) app_state, cache') \<and>
     registry_generation (as_registry state') = 2 \<and> as_jwt_secret state' = ''s'' \<and> set (pc_inner (as_plan_cache state')) \<subseteq> {(2, 6)}"
proof -
  let ?p = "to_preset None demo_config :: nat preset"
    and ?es = "[Planned 1 5, Reload (\<lambda>_. Inl ''down''), Lagged, Reload (\<lambda>_. Inr demo_catalog), Planned 2 6]"
  obtain s c where s: "startup count_types 0 (\<lambda>_. Inr demo_catalog :: string + introspection_result) ?p = Some (app_state_new s ?p :: (nat, nat) app_state, c)"
    using startup_succeeds [of "\<lambda>_. Inr demo_catalog" ?p demo_catalog 0] by blast
  obtain t where t: "schema_of count_types 0 demo_catalog (preset_default None :: nat preset) = Some (Inr t)"
    using schema_of_builds [of 0 demo_catalog "preset_default None :: nat preset"] by blast
  obtain state' c' where w: "watch_for_reload (\<lambda>xs. xs) count_types (0 :: nat) None [''public''] ?es (app_state_new s ?p, c) =
      Some (state' :: (nat, nat) app_state, c')"
    by (simp add: reload_once_def get_or_introspect_def invalidate_all_def Let_def t)
  have "\<forall>xs :: (64 word \<times> nat) list. mset xs = mset xs" by simp
  from reload_serves_last_built [OF s w this] s w show ?thesis
    by (auto simp: t to_preset_def demo_config_def registry_generation_def)
qed

section \<open>From the command line to the operations of a client\<close>

text \<open>The resource of a table or view that the preset exposes, and whether its kind and tags allow an
  operation.\<close>

definition deployed :: "introspection_result \<Rightarrow> 'm preset \<Rightarrow> resolved_resource \<Rightarrow> bool" where
  "deployed intro p r \<longleftrightarrow>
     (\<exists>cls \<in> set (exposed_classes intro p). r = build_resource cls intro (build_description_map (ir_descriptions intro)))"

definition tags_allow :: "introspection_result \<Rightarrow> resolved_resource \<Rightarrow> nat \<Rightarrow> bool" where
  "tags_allow intro r n \<longleftrightarrow>
     (n \<in> (if rv_kind r = RTable then {0, 1, 2, 3, 4, 5, 6} else {0, 1, 5, 6}) \<and> \<not> mentions (tag_omit (tags_of intro r)) n \<or>
      mentions (tag_behavior_add (tags_of intro r)) n) \<and> \<not> mentions (tag_behavior_remove (tags_of intro r)) n"

lemma map_sum_Inr_iff: "map_sum f id z = Inr x \<longleftrightarrow> z = Inr x"
  by (cases z) simp_all

lemma startup_builder:
  assumes "startup finish m introspect p = Some (state, cache)"
  obtains intro out b where "introspect (pg_schemas p) = Inr intro" and "gather intro m p = (Inr out :: build_error + _)"
    and "schema_builder out (go_behaviors out) [] = Some b"
    and "finish b = Some (Inr (sg_schema (arc_get (as_registry state) (sr_current (as_registry state)))))"
  using assms
  by (auto simp: startup_def get_or_introspect_def introspection_cache_new_def Let_def schema_of_def build_schema_def bind_eq_Some_conv
      app_state_new_def registry_new map_sum_Inr_iff split: sum.splits option.splits prod.splits)

text \<open>C6: what a deployment serves. Let the namespaces of the catalog have distinct OIDs and the tables and
  views that are exposed give distinct type names. When the server has started, the schema it serves was
  finished from a description in which a client can list, fetch, create, update or delete rows by a root
  field exactly of the tables and views in the schemas named on the command line, where the tags of the
  catalog allow it. And no resolver of it sends statements to any other table: those of relation fields
  read the rows of exposed tables only, though whatever the tags of these omit.\<close>

theorem deployed_operations:
  fixes m :: 'm
  assumes "startup finish m introspect (to_preset env cf) = Some (state, cache)"
    and "introspect (pg_schemas (to_preset env cf :: 'm preset)) = Inr intro"
    and "distinct (map ns_oid (ir_namespaces intro))"
    and "distinct (map (\<lambda>cls. rv_name (build_resource cls intro (build_description_map (ir_descriptions intro))))
      (exposed_classes intro (to_preset env cf :: 'm preset)))"
  shows "\<exists>b. finish b = Some (Inr (sg_schema (arc_get (as_registry state) (sr_current (as_registry state))))) \<and>
    (\<forall>r. (RAllX r \<in> served b \<longleftrightarrow> deployed intro (to_preset env cf :: 'm preset) r \<and> tags_allow intro r 0) \<and>
      (RByPk r \<in> served b \<longleftrightarrow> deployed intro (to_preset env cf :: 'm preset) r \<and> tags_allow intro r 1) \<and>
      (RCreate r \<in> served b \<longleftrightarrow> deployed intro (to_preset env cf :: 'm preset) r \<and> tags_allow intro r 2) \<and>
      (RUpdate r \<in> served b \<longleftrightarrow> deployed intro (to_preset env cf :: 'm preset) r \<and> tags_allow intro r 3) \<and>
      (RDelete r \<in> served b \<longleftrightarrow> deployed intro (to_preset env cf :: 'm preset) r \<and> tags_allow intro r 4)) \<and>
    (\<Union>res \<in> served b. touches res) \<subseteq> {r. deployed intro (to_preset env cf :: 'm preset) r}"
proof -
  let ?p = "to_preset env cf :: 'm preset"
  obtain intro' out b where "introspect (pg_schemas ?p) = Inr intro'" and out: "gather intro' m ?p = (Inr out :: build_error + _)"
    and b: "schema_builder out (go_behaviors out) [] = Some b"
    and fin: "finish b = Some (Inr (sg_schema (arc_get (as_registry state) (sr_current (as_registry state)))))" by (rule startup_builder [OF assms(1)])
  with assms(2) have out: "gather intro m ?p = (Inr out :: build_error + _)" by simp
  have res: "go_resources out = gathered_resources intro ?p"
    using out by (auto simp: gather_def Let_def gather_resources_exposed [OF assms(3)])
  have dep: "r \<in> set (go_resources out) \<longleftrightarrow> deployed intro ?p r" for r unfolding res deployed_def by auto
  moreover have "supports (go_behaviors out) B_CONNECTION r \<longleftrightarrow> tags_allow intro r 0" "supports (go_behaviors out) B_SELECT_ONE r \<longleftrightarrow> tags_allow intro r 1"
    "supports (go_behaviors out) B_INSERT r \<longleftrightarrow> tags_allow intro r 2" "supports (go_behaviors out) B_UPDATE r \<longleftrightarrow> tags_allow intro r 3"
    "supports (go_behaviors out) B_DELETE r \<longleftrightarrow> tags_allow intro r 4" if "r \<in> set (go_resources out)" for r
  proof -
    have "distinct (map rv_name (go_resources out))" using assms(4) by (simp add: res o_def)
    from gathered_behavior_bits [OF assms(3) out this that] obtain w
      where w: "map_of (go_behaviors out) (rv_name r) = Some w" "\<And>n. bit w n \<longleftrightarrow> tags_allow intro r n" unfolding tags_allow_def by blast
    then show "supports (go_behaviors out) B_CONNECTION r \<longleftrightarrow> tags_allow intro r 0" "supports (go_behaviors out) B_SELECT_ONE r \<longleftrightarrow> tags_allow intro r 1"
      "supports (go_behaviors out) B_INSERT r \<longleftrightarrow> tags_allow intro r 2" "supports (go_behaviors out) B_UPDATE r \<longleftrightarrow> tags_allow intro r 3"
      "supports (go_behaviors out) B_DELETE r \<longleftrightarrow> tags_allow intro r 4"
      by (simp_all only: supports_def behaviors_of_def behavior_bits unwrap_or_def option.case)
  qed
  moreover have own: "own_resolvers (all_calls (go_behaviors out) [])"
    by (simp add: own_resolvers_def all_calls_def phase_calls_def mutation_calls_def)
  moreover have "(\<Union>res \<in> served b. touches res) \<subseteq> {r. deployed intro ?p r}"
    using builder_touches [OF b own] by (auto simp: dep)
  ultimately show ?thesis using fin builder_serves [OF b own] by blast
qed

theorem deployed_operations_witness:
  "\<exists>state cache b r. startup count_types (0 :: nat) (\<lambda>_. Inr demo_catalog :: string + introspection_result) (to_preset None demo_config) =
       Some (state :: (nat, nat) app_state, cache) \<and> count_types b = Some (Inr (sg_schema (arc_get (as_registry state) (sr_current (as_registry state))))) \<and>
     rv_table r = ''posts'' \<and> RDelete r \<in> served b"
proof -
  let ?p = "to_preset None demo_config :: nat preset" and ?d = "build_description_map (ir_descriptions demo_catalog)"
  obtain s c where s: "startup count_types 0 (\<lambda>_. Inr demo_catalog :: string + introspection_result) ?p = Some (app_state_new s ?p :: (nat, nat) app_state, c)"
    using startup_succeeds [of "\<lambda>_. Inr demo_catalog" ?p demo_catalog 0] by blast
  have d: "distinct (map ns_oid (ir_namespaces demo_catalog))"
    "distinct (map (\<lambda>cls. rv_name (build_resource cls demo_catalog ?d)) (exposed_classes demo_catalog ?p))" by code_simp+
  have posts: "list_ex (\<lambda>cls. let r = build_resource cls demo_catalog ?d in rv_table r = ''posts'' \<and> rv_kind r = RTable \<and>
      tags_of demo_catalog r = smart_tags_default) (exposed_classes demo_catalog ?p)" by code_simp
  then obtain cls where cls: "cls \<in> set (exposed_classes demo_catalog ?p)" "rv_table (build_resource cls demo_catalog ?d) = ''posts''"
    "rv_kind (build_resource cls demo_catalog ?d) = RTable" "tags_of demo_catalog (build_resource cls demo_catalog ?d) = smart_tags_default"
    by (auto simp: list_ex_iff Let_def)
  then have "tags_allow demo_catalog (build_resource cls demo_catalog ?d) 4"
    by (simp add: tags_allow_def mentions_def smart_tags_default_def)
  moreover have "deployed demo_catalog ?p (build_resource cls demo_catalog ?d)" using cls(1) by (auto simp: deployed_def)
  moreover obtain b where "count_types b = Some (Inr (sg_schema (arc_get (as_registry (app_state_new s ?p :: (nat, nat) app_state)) (sr_current (as_registry (app_state_new s ?p :: (nat, nat) app_state))))))"
    "\<And>r. RDelete r \<in> served b \<longleftrightarrow> deployed demo_catalog ?p r \<and> tags_allow demo_catalog r 4"
    using deployed_operations [OF s refl d] by blast
  ultimately show ?thesis using s cls(2) by blast
qed

text \<open>A reload gathers with the default preset: whatever schemas the command line names, only those of
  \<^verbatim>\<open>public\<close> are left.\<close>

theorem reload_exposes_public_only:
  assumes "exposed intro (preset_default env) cls"
  shows "\<exists>ns \<in> set (ir_namespaces intro). ns_oid ns = cl_schema_oid cls \<and> ns_name ns = ''public''"
  using assms by (auto simp: exposed_def preset_default_def)

text \<open>The server starts with an empty secret, which the validation of presets would refuse.\<close>

theorem empty_secret_starts:
  assumes "cf_jwt_secret cf = []"
  shows "validate_preset (to_preset env cf) \<noteq> Inr ()"
  using assms by (simp add: validate_preset_iff to_preset_def)

end
