(* ===== verification/Spec2Isabelle.thy ===== *)
theory Spec2Isabelle
  imports Sql_Builder Core_Pipeline Core_Batch Gql_Schema Gql_Pretty Dp_Plan Build_Gather
    Build_Union Subscriptions Magna_Main
begin

text \<open>
  \<^bold>\<open>Verification of the magna GraphQL engine.\<close>

  Magna generates a GraphQL API from a Postgres catalog and runs requests as plans of batched
  steps. A catalog is read (\<^verbatim>\<open>magna-introspect\<close>), turned into resources under a configured
  exposure policy (\<^verbatim>\<open>magna-config\<close>, \<^verbatim>\<open>magna-build\<close>), a request is parsed and validated
  (\<^verbatim>\<open>magna-gqlmin\<close>), planned, optimized and executed (\<^verbatim>\<open>magna-core\<close>) by steps that send SQL
  (\<^verbatim>\<open>magna-dataplan\<close>, \<^verbatim>\<open>magna-sql\<close>), and served over HTTP (\<^verbatim>\<open>magna-serv\<close>,
  \<^verbatim>\<open>magna-subscriptions\<close>). This library models these parts as HOL functions, in the order and with
  the names of the source, and proves what makes them correct. All paths below are relative to
  \<^verbatim>\<open>src/crates\<close>.

  \<^bold>\<open>Foundations.\<close>
  \<^item> \<open>Prelude\<close>: results as sums with the \<^verbatim>\<open>?\<close> operator, checked indexing, decimal printing.
  \<^item> \<open>Rust_BTree\<close>, \<open>Rust_Map\<close>, \<open>Rust_Str\<close>: what the sources use of \<^verbatim>\<open>BTreeMap\<close>, of \<^verbatim>\<open>HashMap\<close> and
    \<^verbatim>\<open>IndexMap\<close>, and of \<^verbatim>\<open>str\<close>. Letter case and white space are those of ASCII.
  \<^item> \<open>Magna_Types\<close> (\<^verbatim>\<open>magna-types\<close>): step ids and flag bytes, errors, database values, roles.

  \<^bold>\<open>SQL text\<close> (\<^verbatim>\<open>magna-sql\<close>).
  \<^item> \<open>Sql_Fragment\<close> (\<^verbatim>\<open>fragment.rs\<close>): a fragment is a tree of parts with its parameters; building it
    prints its flat item list with consecutive placeholders, or panics on an index out of range.
    Quoted identifiers read back to the name whatever its characters, and the text never depends
    on parameter values.
  \<^item> \<open>Sql_Builder\<close> (\<^verbatim>\<open>builder.rs\<close>, \<^verbatim>\<open>insert_builder.rs\<close>, \<^verbatim>\<open>update_builder.rs\<close>, \<^verbatim>\<open>delete_builder.rs\<close>,
    \<^verbatim>\<open>render.rs\<close>): each statement is the item list of its clauses, with the values bound in order.

  \<^bold>\<open>Planning and execution\<close> (\<^verbatim>\<open>magna-core\<close>).
  \<^item> \<open>Core_Plan\<close> (\<^verbatim>\<open>step.rs\<close>, \<^verbatim>\<open>fingerprint.rs\<close>, \<^verbatim>\<open>planner.rs\<close>): a step is a record of its id, dependencies,
    fingerprint and a function from context and inputs to a task result. The graph library is
    the parameter \<open>petgraph\<close> with the laws of its documentation; \<open>Petgraph_Model\<close> is a concrete
    graph that satisfies them. Planning reports a missing dependency or a cycle, else gives a
    plan with exactly the registered steps and edges.
  \<^item> \<open>Core_Optimizer\<close> (\<^verbatim>\<open>optimizer.rs\<close>): topological order, deduplication, hoisting. The order in which
    hash maps are iterated is a parameter.
  \<^item> \<open>Core_Executor\<close> (\<^verbatim>\<open>executor.rs\<close>): tiers, flag propagation, error batches, panics of tasks.
  \<^item> \<open>Core_Pipeline\<close>: the three composed. The optimized run gives, read through the remap table,
    the unique solution of the registered steps, provided steps with equal fingerprints compute
    the same function; execution ends with an output for every step.
  \<^item> \<open>Core_Batch\<close> (\<^verbatim>\<open>batch.rs\<close>): one load for all parents, each reading its own rows.

  \<^bold>\<open>GraphQL documents\<close> (\<^verbatim>\<open>magna-gqlmin\<close>).
  \<^item> \<open>Gql_Lex\<close> (\<^verbatim>\<open>lex.rs\<close>, \<^verbatim>\<open>error.rs\<close>), \<open>Gql_Ast\<close> and \<open>Gql_Parse\<close> (\<^verbatim>\<open>parse/mod.rs\<close>), \<open>Gql_Sdl\<close>
    (\<^verbatim>\<open>parse/sdl.rs\<close>): a source is a byte string, offsets and lengths are 32-bit words, the syntax
    tree is an arena of nodes with ranges. Tokens are lexemes of their kind, every parse ends,
    and every range of a parsed document reads back through its typed accessor.
  \<^item> \<open>Gql_Validate\<close> and \<open>Gql_Schema\<close> (\<^verbatim>\<open>validate.rs\<close>): each rule reports exactly when it is broken.
  \<^item> \<open>Gql_Pretty\<close> (\<^verbatim>\<open>pretty.rs\<close>): the layout of a rendered error.

  \<^bold>\<open>Data steps\<close> (\<^verbatim>\<open>magna-dataplan\<close>).
  \<^item> \<open>Dp_Codec\<close> (\<^verbatim>\<open>codec.rs\<close>): the codec table, decoding of driver rows, binding of parameters.
  \<^item> \<open>Dp_Steps\<close> (\<^verbatim>\<open>steps/pg_select.rs\<close>, \<^verbatim>\<open>pg_insert.rs\<close>, \<^verbatim>\<open>pg_update.rs\<close>, \<^verbatim>\<open>pg_delete.rs\<close>): construction,
    hashing, statements and execution of the four steps; an execution returns the statements
    sent beside its result. A batched select answers every parent as a query of its own would.
  \<^item> \<open>Dp_Plan\<close>: these steps inside a plan; when select steps may be merged, and which merges of
    mutations lose statements.
  \<^item> \<open>Dp_Registry\<close> (\<^verbatim>\<open>registry.rs\<close>): the table registry and its lookups.

  \<^bold>\<open>Catalog, configuration and schema generation.\<close>
  \<^item> \<open>Pg_Catalog\<close> (\<^verbatim>\<open>magna-introspect/src/types.rs\<close>, row conversions of \<^verbatim>\<open>introspect.rs\<close>).
  \<^item> \<open>Config_Preset\<close> (\<^verbatim>\<open>magna-config\<close>): presets, exposure, merging and validation.
  \<^item> \<open>Build_Naming\<close> (\<^verbatim>\<open>naming.rs\<close>, \<^verbatim>\<open>smart_tags.rs\<close>, \<^verbatim>\<open>type_map.rs\<close>) and \<open>Build_Gather\<close> (\<^verbatim>\<open>gather.rs\<close>,
    \<^verbatim>\<open>ir.rs\<close>) of \<^verbatim>\<open>magna-build\<close>: the generated surface is exactly what the exposure policy admits.
  \<^item> \<open>Introspect_Cache\<close> (\<^verbatim>\<open>magna-introspect/src/cache.rs\<close>): lists of schema names share a key exactly
    when they are permutations of each other; which entries a notification drops. The cache crate
    may forget an entry at any time.

  \<^bold>\<open>Serving a request.\<close>
  \<^item> \<open>Serv_Cache\<close> (\<^verbatim>\<open>magna-serv/src/plan_cache.rs\<close>): the plan cache as a sequential function and as a step
    relation of concurrent callers, the bound on its size under every interleaving.
  \<^item> \<open>Build_Plan\<close> (\<^verbatim>\<open>magna-build/src/plan_resolver.rs\<close>, \<^verbatim>\<open>plan_extension.rs\<close>): the single-use plan context
    and its results by registered id; the planning of a query's root fields, a plan function
    being the program of the calls it makes.
  \<^item> \<open>Build_Exec\<close> (\<^verbatim>\<open>magna-build/src/executor\<close>): cursors, connections, rows by key, mutations and the
    batched lookups of relations, with the statements each sends. Following the end cursors of a
    connection reads the whole table.
  \<^item> \<open>Build_Resolve\<close> (\<^verbatim>\<open>magna-build/src/resolve\<close>, the resolvers of \<^verbatim>\<open>register\<close>, \<^verbatim>\<open>executor/dataloader.rs\<close>): the
    resolver of every generated field. The node id of a row addresses that row, relation fields
    answer exactly the matching rows with one query for all parents loaded together; which keys
    are loaded together is a parameter.
  \<^item> \<open>Build_Types\<close> (\<^verbatim>\<open>magna-build/src/register\<close>) and \<open>Build_Schema\<close> (\<^verbatim>\<open>lib.rs\<close>, \<^verbatim>\<open>extension.rs\<close>): the description of the
    schema as the types registered with the builder of \<^verbatim>\<open>async-graphql\<close>. It serves exactly the operations
    the behaviours allow; which calls of an extension panic. \<open>Build_Closed\<close>: every reference of a description
    is registered, and every relation field finds its loader.
  \<^item> \<open>Serv_Request\<close> (\<^verbatim>\<open>magna-serv/src\<close>: \<^verbatim>\<open>jwt.rs\<close>, \<^verbatim>\<open>schema_registry.rs\<close>, \<^verbatim>\<open>state.rs\<close>, \<^verbatim>\<open>handler.rs\<close>, \<^verbatim>\<open>ws.rs\<close>): a
    request runs with the claims of its caller, and keeps its schema while reloads go on.
  \<^item> \<open>Magna_Main\<close> (\<^verbatim>\<open>magna/src/config.rs\<close>, \<^verbatim>\<open>main.rs\<close>): start and reload, and the composition of the parts: from the
    command line and the catalog to the operations a client can run.
  \<^item> \<open>Build_Union\<close> (\<^verbatim>\<open>union_step.rs\<close>): the step that tags rows with their type, on every batch.
  \<^item> \<open>Subscriptions\<close> (\<^verbatim>\<open>magna-subscriptions\<close>): payloads, and the delivery of notifications to receivers.

  \<^bold>\<open>State, errors, bounds.\<close> Fallible code returns a sum with the error on the left; a panic is
  \<open>None\<close>, or for a task of the executor its own result. Integers are words of the source's width
  (\<^verbatim>\<open>usize\<close> is \<open>nat\<close>: lengths of what is in memory). Floats are their IEEE bits. The parsers take
  fuel that twice the length of the source plus one always suffices for, given a source below
  2 GiB, the bound under which 32-bit offsets do not wrap; values and selections of a parsed
  document are walked with the number of its nodes as fuel, which is proved to be enough.

  \<^bold>\<open>Interfaces.\<close> \<open>petgraph_laws\<close> states what the planner relies on of the graph library, and is
  shown to hold of \<open>Petgraph_Model\<close>; the locale \<open>mutation_step\<close> is the contract of the three
  mutation steps and \<open>char_code\<close> that of a one-letter catalog code, both interpreted on the
  definitions of the code. Code outside the repository is a parameter: the hasher, the driver
  (\<^verbatim>\<open>sqlx\<close>), the crates that parse and print timestamps, UUIDs, floats and JSON.

  \<^bold>\<open>Not modelled.\<close> Logging and tracing, debug assertions, serde derives and \<^verbatim>\<open>Debug\<close> texts; the I/O of
  sending catalog queries; what \<^verbatim>\<open>async-graphql\<close> does with a schema description; the HTTP router of \<^verbatim>\<open>magna-serv\<close>; the foreign-function bindings of \<^verbatim>\<open>magna-gqlmin\<close>; argument parsing, the pool and the sockets of the binary;
  \<^verbatim>\<open>magna-remote\<close>, an announced skeleton.
\<close>

end
